(* ===== verification/Yadcc_Prelude.thy ===== *)
theory Yadcc_Prelude
  imports Main "HOL-Library.Monad_Syntax" "HOL-Library.Sublist" "HOL-Library.Code_Target_Numeral"
begin

text \<open>
  Shared material of the development: the names of the model's basic types, the
  conventions for aborts and for machine integers, generic lemmas on association lists,
  and the two contracts that every stateful component of the system satisfies.

  Conventions used by all theories:
  \<^item> \<open>FLARE_CHECK\<close>, \<open>FLARE_PCHECK\<close>, \<open>FLARE_LOG_FATAL\<close> and \<open>CHECK\<close> abort the
    process. An operation that contains one returns an option; \<open>None\<close> is the abort.
  \<^item> time points and durations of the steady clock are integers (nanoseconds); an
    operation that reads the clock takes the reading as the argument \<open>now\<close>.
  \<^item> byte buffers and strings are both lists of characters (a character is a byte).
  \<^item> unsigned counters are natural numbers; where the code subtracts, converts or
    multiplies them so that wrap-around can show, the reduction is written out.
  \<^item> an unordered map that the code iterates over is an association list with distinct
    keys: its order stands for the (unspecified) iteration order.
\<close>

section \<open>Basic types\<close>

type_synonym time_point = int
type_synonym nanoseconds = int
type_synonym bytes = string
type_synonym ('k, 'v) umap = "('k \<times> 'v) list"

abbreviation seconds :: "int \<Rightarrow> nanoseconds" where
  "seconds n \<equiv> n * 1000000000"

abbreviation milliseconds :: "int \<Rightarrow> nanoseconds" where
  "milliseconds n \<equiv> n * 1000000"

section \<open>Machine integers\<close>

text \<open>\<open>to_int64\<close> is the conversion of an unsigned 64-bit result to \<open>std::int64_t\<close>
  (two's complement); its argument is the exact integer before reduction.\<close>

definition to_int64 :: "int \<Rightarrow> int" where
  "to_int64 x = (x + 2 ^ 63) mod 2 ^ 64 - 2 ^ 63"

definition to_uint64 :: "int \<Rightarrow> nat" where
  "to_uint64 x = nat (x mod 2 ^ 64)"

definition to_uint32 :: "int \<Rightarrow> nat" where
  "to_uint32 x = nat (x mod 2 ^ 32)"

definition to_int32 :: "int \<Rightarrow> int" where
  "to_int32 x = (x + 2 ^ 31) mod 2 ^ 32 - 2 ^ 31"

lemma to_int64_id: "- (2 ^ 63) \<le> x \<Longrightarrow> x < 2 ^ 63 \<Longrightarrow> to_int64 x = x"
  by (simp add: to_int64_def)

lemma to_int64_bounds: "- (2 ^ 63) \<le> to_int64 x \<and> to_int64 x < 2 ^ 63"
  by (auto simp: to_int64_def)

lemma to_uint64_id: "0 \<le> x \<Longrightarrow> x < 2 ^ 64 \<Longrightarrow> to_uint64 x = nat x"
  by (simp add: to_uint64_def)

lemma to_uint32_of_int32: "to_uint32 (to_int32 x) = to_uint32 x"
proof -
  have "((x + 2 ^ 31) mod 2 ^ 32 - 2 ^ 31) mod 2 ^ 32 = x mod (2 ^ 32 :: int)"
    by (simp add: mod_diff_left_eq)
  then show ?thesis by (simp add: to_uint32_def to_int32_def)
qed

section \<open>Association lists\<close>

named_theorems umap_simps \<open>lookups in updated association lists\<close>

definition umap_erase :: "'k \<Rightarrow> ('k, 'v) umap \<Rightarrow> ('k, 'v) umap" where
  "umap_erase k m = filter (\<lambda>e. fst e \<noteq> k) m"

fun umap_modify :: "'k \<Rightarrow> ('v \<Rightarrow> 'v) \<Rightarrow> ('k, 'v) umap \<Rightarrow> ('k, 'v) umap" where
  "umap_modify k f [] = []"
| "umap_modify k f ((k', v) # m) = (if k' = k then (k', f v) # m else (k', v) # umap_modify k f m)"

text \<open>\<open>m[k] = v\<close>: replace the mapped value in place, or add a new entry.\<close>

definition umap_set :: "'k \<Rightarrow> 'v \<Rightarrow> ('k, 'v) umap \<Rightarrow> ('k, 'v) umap" where
  "umap_set k v m = (if k \<in> fst ` set m then umap_modify k (\<lambda>_. v) m else (k, v) # m)"

abbreviation umap_keys :: "('k, 'v) umap \<Rightarrow> 'k list" where
  "umap_keys m \<equiv> map fst m"

lemma map_of_umap_erase [umap_simps]: "map_of (umap_erase k m) = (map_of m)(k := None)"
  by (induction m) (auto simp: umap_erase_def)

lemma keys_umap_erase [umap_simps]: "umap_keys (umap_erase k m) = filter (\<lambda>x. x \<noteq> k) (umap_keys m)"
  by (induction m) (auto simp: umap_erase_def)

lemma set_umap_erase [umap_simps]: "set (umap_erase k m) = {e \<in> set m. fst e \<noteq> k}"
  by (auto simp: umap_erase_def)

lemma distinct_umap_erase [intro]: "distinct (umap_keys m) \<Longrightarrow> distinct (umap_keys (umap_erase k m))"
  by (simp add: keys_umap_erase)

lemma map_of_umap_modify [umap_simps]:
  "map_of (umap_modify k f m) = (map_of m)(k := map_option f (map_of m k))"
  by (induction m) auto

lemma keys_umap_modify [umap_simps]: "umap_keys (umap_modify k f m) = umap_keys m"
  by (induction k f m rule: umap_modify.induct) auto

lemma length_umap_modify [simp]: "length (umap_modify k f m) = length m"
  by (induction m) auto

lemma umap_modify_absent: "k \<notin> fst ` set m \<Longrightarrow> umap_modify k f m = m"
  by (induction m) auto

lemma map_of_umap_set [umap_simps]: "map_of (umap_set k v m) = (map_of m)(k \<mapsto> v)"
proof (cases "k \<in> fst ` set m")
  case True
  then obtain w where "map_of m k = Some w"
    by (metis domD dom_map_of_conv_image_fst)
  with True show ?thesis by (simp add: umap_set_def map_of_umap_modify)
next
  case False
  then show ?thesis by (simp add: umap_set_def)
qed

lemma distinct_umap_set [intro]: "distinct (umap_keys m) \<Longrightarrow> distinct (umap_keys (umap_set k v m))"
  by (simp add: umap_set_def keys_umap_modify)

lemma umap_modify_eq_map:
  assumes "distinct (umap_keys m)"
  shows "umap_modify k f m = map (\<lambda>e. if fst e = k then (k, f (snd e)) else e) m"
  using assms
proof (induction m)
  case (Cons e m)
  then have "fst e = k \<Longrightarrow> map (\<lambda>e. if fst e = k then (k, f (snd e)) else e) m = m"
    by (auto simp: image_iff intro!: map_idI)
  with Cons show ?case by (cases e) auto
qed simp

lemma filter_umap_modify_keep:
  assumes "\<And>v. P (k, f v) = P (k, v)"
  shows "length (filter P (umap_modify k f m)) = length (filter P m)"
  using assms by (induction m) auto

lemma map_of_Some_length_erase:
  assumes "distinct (umap_keys m)" "map_of m k = Some v"
  shows "length (filter P m) = length (filter P (umap_erase k m)) + (if P (k, v) then 1 else 0)"
  using assms
proof (induction m)
  case (Cons e m)
  show ?case
  proof (cases "fst e = k")
    case True
    with Cons.prems have "k \<notin> fst ` set m" by auto
    then have "umap_erase k m = m"
      by (auto simp: umap_erase_def filter_id_conv image_iff)
    with True Cons.prems show ?thesis by (cases e) (auto simp: umap_erase_def)
  next
    case False
    with Cons show ?thesis by (cases e) (auto simp: umap_erase_def)
  qed
qed simp

section \<open>Searching lists\<close>

lemma find_SomeD: "find P xs = Some x \<Longrightarrow> x \<in> set xs \<and> P x"
  by (induction xs) (auto split: if_splits)

lemma find_eq_None: "\<forall>x\<in>set xs. \<not> P x \<Longrightarrow> find P xs = None"
  by (simp add: find_None_iff)

lemma find_append_first: "\<forall>u\<in>set us. \<not> P u \<Longrightarrow> P x \<Longrightarrow> find P (us @ x # vs) = Some x"
  by (induction us) auto

section \<open>State machines whose steps may abort\<close>

text \<open>
  Every service object of the system is a machine: a call changes its state or aborts the
  process. \<open>run_calls\<close> executes a sequence of calls in order, which is what any
  interleaving of threads amounts to when each call holds the object's lock.
\<close>

fun run_calls :: "('c \<Rightarrow> 's \<Rightarrow> 's option) \<Rightarrow> 'c list \<Rightarrow> 's \<Rightarrow> 's option" where
  "run_calls step [] s = Some s"
| "run_calls step (c # cs) s = (case step c s of None \<Rightarrow> None | Some s' \<Rightarrow> run_calls step cs s')"

lemma run_calls_append:
  "run_calls step (xs @ ys) s =
   (case run_calls step xs s of None \<Rightarrow> None | Some t \<Rightarrow> run_calls step ys t)"
  by (induction xs arbitrary: s) (auto split: option.splits)

inductive reaches :: "('c \<Rightarrow> 's \<Rightarrow> 's option) \<Rightarrow> 's \<Rightarrow> 's \<Rightarrow> bool" for step where
  reaches_refl: "reaches step s s"
| reaches_step: "reaches step s t \<Longrightarrow> step c t = Some u \<Longrightarrow> reaches step s u"

lemma reaches_iff_run_calls: "reaches step s t \<longleftrightarrow> (\<exists>cs. run_calls step cs s = Some t)"
proof
  assume "reaches step s t"
  then show "\<exists>cs. run_calls step cs s = Some t"
  proof (induction rule: reaches.induct)
    case (reaches_refl s)
    have "run_calls step [] s = Some s" by simp
    then show ?case by blast
  next
    case (reaches_step s t c u)
    then obtain cs where "run_calls step cs s = Some t" by blast
    with reaches_step.hyps(2) have "run_calls step (cs @ [c]) s = Some u"
      by (simp add: run_calls_append)
    then show ?case by blast
  qed
next
  assume "\<exists>cs. run_calls step cs s = Some t"
  then obtain cs where "run_calls step cs s = Some t" by blast
  then show "reaches step s t"
    by (induction cs arbitrary: t rule: rev_induct)
       (auto simp: run_calls_append split: option.splits intro: reaches.intros)
qed

locale checked_machine =
  fixes step :: "'c \<Rightarrow> 's \<Rightarrow> 's option"
    and inv :: "'s \<Rightarrow> bool"
  assumes step_inv: "inv s \<Longrightarrow> step c s = Some t \<Longrightarrow> inv t"
begin

lemma reaches_inv: "reaches step s t \<Longrightarrow> inv s \<Longrightarrow> inv t"
  by (induction rule: reaches.induct) (auto dest: step_inv)

lemma run_calls_inv: "inv s \<Longrightarrow> run_calls step cs s = Some t \<Longrightarrow> inv t"
  using reaches_inv reaches_iff_run_calls by metis

end

text \<open>A machine none of whose calls can abort the process while the invariant holds.\<close>

locale safe_machine = checked_machine +
  assumes step_defined: "inv s \<Longrightarrow> \<exists>t. step c s = Some t"
begin

lemma run_calls_defined: "inv s \<Longrightarrow> \<exists>t. run_calls step cs s = Some t"
proof (induction cs arbitrary: s)
  case Nil
  then show ?case by simp
next
  case (Cons c cs)
  obtain u where u: "step c s = Some u" using step_defined Cons.prems by blast
  with Cons.prems have "inv u" by (rule step_inv)
  then obtain t where "run_calls step cs u = Some t" using Cons.IH by blast
  with u show ?case by simp
qed

end

end
