(* ===== verification/Flare_Api.thy ===== *)
theory Flare_Api
  imports Yadcc_Prelude "HOL-Library.Char_ord"
begin

text \<open>
  The Flare library (a git submodule of the repository) supplies the string, hashing and
  encoding helpers the program calls. Its functions are the fields of the record
  \<open>flare\<close>: every operation that calls one takes the record as its first argument, and
  what the callers rely on is stated as the laws of the locale \<open>flare_strings\<close>.
  \<open>reference_flare\<close> is a concrete instance that satisfies the laws.
\<close>

section \<open>Decimal printing (std::to_string)\<close>

definition digit_char :: "nat \<Rightarrow> char" where
  "digit_char d = char_of (48 + d)"

fun to_string :: "nat \<Rightarrow> string" where
  "to_string n = (if n < 10 then [digit_char n] else to_string (n div 10) @ [digit_char (n mod 10)])"

declare to_string.simps [simp del]

definition digit_value :: "char \<Rightarrow> nat option" where
  "digit_value c = (if 48 \<le> (of_char c :: nat) \<and> (of_char c :: nat) \<le> 57 then Some (of_char c - 48) else None)"

fun parse_digits :: "nat \<Rightarrow> string \<Rightarrow> nat option" where
  "parse_digits acc [] = Some acc"
| "parse_digits acc (c # cs) =
     (case digit_value c of None \<Rightarrow> None | Some d \<Rightarrow> parse_digits (10 * acc + d) cs)"

definition parse_decimal :: "string \<Rightarrow> nat option" where
  "parse_decimal s = (if s = [] then None else parse_digits 0 s)"

lemma digit_value_digit_char: "d < 10 \<Longrightarrow> digit_value (digit_char d) = Some d"
  by (simp add: digit_value_def digit_char_def of_char_of)

lemma parse_digits_append:
  "parse_digits acc (xs @ ys) =
   (case parse_digits acc xs of None \<Rightarrow> None | Some a \<Rightarrow> parse_digits a ys)"
  by (induction xs arbitrary: acc) (auto split: option.splits)

lemma to_string_nonempty [simp]: "to_string n \<noteq> []"
  by (subst to_string.simps) simp

lemma parse_digits_to_string: "parse_digits 0 (to_string n) = Some n"
proof (induction n rule: to_string.induct)
  case (1 n)
  show ?case
  proof (cases "n < 10")
    case True
    then show ?thesis by (simp add: to_string.simps [of n] digit_value_digit_char)
  next
    case False
    with "1" have "parse_digits 0 (to_string (n div 10)) = Some (n div 10)" by simp
    with False show ?thesis
      by (simp add: to_string.simps [of n] parse_digits_append digit_value_digit_char)
  qed
qed

lemma parse_decimal_to_string [simp]: "parse_decimal (to_string n) = Some n"
  by (simp add: parse_decimal_def parse_digits_to_string)

lemma to_string_inject: "to_string m = to_string n \<Longrightarrow> m = n"
  using parse_decimal_to_string by (metis option.inject)

lemma digit_value_to_string: "c \<in> set (to_string n) \<Longrightarrow> digit_value c \<noteq> None"
proof (induction n rule: to_string.induct)
  case (1 n)
  show ?case
  proof (cases "n < 10")
    case True
    with "1.prems" show ?thesis
      by (simp add: to_string.simps [of n] digit_value_digit_char)
  next
    case False
    with "1.prems" have "c \<in> set (to_string (n div 10)) \<or> c = digit_char (n mod 10)"
      by (auto simp: to_string.simps [of n])
    with "1.IH" [OF False] show ?thesis by (auto simp: digit_value_digit_char)
  qed
qed

lemma digit_value_special:
  "digit_value CHR '','' = None" "digit_value CHR ''G'' = None" "digit_value CHR ''M'' = None"
  "digit_value CHR ''K'' = None" "digit_value CHR ''B'' = None" "digit_value CHR 0x0D = None"
  "digit_value CHR 0x0A = None" "digit_value CHR ''/'' = None" "digit_value CHR '':'' = None"
  by (simp_all add: digit_value_def)

section \<open>Splitting\<close>

text \<open>Splitting at a one-character delimiter, empty pieces kept.\<close>

fun split_at_char :: "char \<Rightarrow> string \<Rightarrow> string list" where
  "split_at_char d [] = [[]]"
| "split_at_char d (c # cs) =
     (if c = d then [] # split_at_char d cs
      else (case split_at_char d cs of [] \<Rightarrow> [[c]] | p # ps \<Rightarrow> (c # p) # ps))"

lemma split_at_char_nonempty [simp]: "split_at_char d s \<noteq> []"
  by (induction s) (auto split: list.splits)

lemma split_at_char_no_delim: "d \<notin> set s \<Longrightarrow> split_at_char d s = [s]"
  by (induction s) auto

lemma split_at_char_append_delim:
  "d \<notin> set s \<Longrightarrow> split_at_char d (s @ d # t) = s # split_at_char d t"
  by (induction s) auto

section \<open>The interface\<close>

record flare =
  fl_StartsWith :: "string \<Rightarrow> string \<Rightarrow> bool"
  fl_EndsWith :: "string \<Rightarrow> string \<Rightarrow> bool"
  fl_Split :: "string \<Rightarrow> char \<Rightarrow> bool \<Rightarrow> string list"
  fl_TryParse_size_t :: "string \<Rightarrow> nat option"
  fl_Blake3 :: "bytes \<Rightarrow> bytes"
  fl_EncodeHex :: "bytes \<Rightarrow> string"
  fl_EncodePercent :: "string \<Rightarrow> string"
  fl_DecodePercent :: "string \<Rightarrow> string option"
  fl_XXH64 :: "string \<Rightarrow> nat"

text \<open>
  The documented behaviour the program relies on: prefix and suffix tests, splitting (empty
  pieces are dropped unless \<open>keep_empty\<close> is set), decimal parsing of \<open>std::size_t\<close>
  values, the digest length, percent coding that round-trips and yields no path separator,
  and the width of the hash.
\<close>

locale flare_strings =
  fixes fl :: flare
  assumes StartsWith: "fl_StartsWith fl s p \<longleftrightarrow> prefix p s"
    and EndsWith: "fl_EndsWith fl s p \<longleftrightarrow> suffix p s"
    and Split_keep: "fl_Split fl s d True = (if s = [] then [] else split_at_char d s)"
    and Split_drop: "fl_Split fl s d False = filter (\<lambda>p. p \<noteq> []) (split_at_char d s)"
    and TryParse_to_string: "n < 2 ^ 64 \<Longrightarrow> fl_TryParse_size_t fl (to_string n) = Some n"
    and TryParse_bound: "fl_TryParse_size_t fl s = Some n \<Longrightarrow> n < 2 ^ 64"
    and TryParse_nondigit: "c \<in> set s \<Longrightarrow> digit_value c = None \<Longrightarrow> fl_TryParse_size_t fl s = None"
    and Blake3_length: "length (fl_Blake3 fl b) = 32"
    and DecodePercent: "fl_DecodePercent fl (fl_EncodePercent fl s) = Some s"
    and EncodePercent_no_slash: "CHR ''/'' \<notin> set (fl_EncodePercent fl s)"
    and XXH64_bound: "fl_XXH64 fl s < 2 ^ 64"
begin

lemma EncodePercent_inject: "fl_EncodePercent fl s = fl_EncodePercent fl t \<Longrightarrow> s = t"
  using DecodePercent by (metis option.inject)

lemma Split_drop_no_delim: "d \<notin> set s \<Longrightarrow> s \<noteq> [] \<Longrightarrow> fl_Split fl s d False = [s]"
  by (simp add: Split_drop split_at_char_no_delim)

end

section \<open>A reference instance\<close>

text \<open>
  The reference functions satisfy the laws; the digest and hash are simple total functions
  and the percent coding escapes the two characters it must.
\<close>

definition ref_TryParse_size_t :: "string \<Rightarrow> nat option" where
  "ref_TryParse_size_t s =
     (case parse_decimal s of None \<Rightarrow> None | Some n \<Rightarrow> if n < 2 ^ 64 then Some n else None)"

fun ref_EncodePercent :: "string \<Rightarrow> string" where
  "ref_EncodePercent [] = []"
| "ref_EncodePercent (c # cs) =
     (if c = CHR ''/'' then ''%2F'' else if c = CHR ''%'' then ''%25'' else [c]) @ ref_EncodePercent cs"

fun ref_DecodePercent :: "string \<Rightarrow> string option" where
  "ref_DecodePercent [] = Some []"
| "ref_DecodePercent (c # cs) =
     (if c = CHR ''%'' then
        (case cs of
           a # b # rest \<Rightarrow>
             (if a = CHR ''2'' \<and> b = CHR ''F'' then map_option (Cons CHR ''/'') (ref_DecodePercent rest)
              else if a = CHR ''2'' \<and> b = CHR ''5'' then map_option (Cons CHR ''%'') (ref_DecodePercent rest)
              else None)
         | _ \<Rightarrow> None)
      else map_option (Cons c) (ref_DecodePercent cs))"

fun ref_hash :: "nat \<Rightarrow> string \<Rightarrow> nat" where
  "ref_hash acc [] = acc mod 2 ^ 64"
| "ref_hash acc (c # cs) = ref_hash (acc * 31 + of_char c) cs"

definition ref_Blake3 :: "bytes \<Rightarrow> bytes" where
  "ref_Blake3 b = map (\<lambda>i. char_of (ref_hash i b)) [0..<32]"

definition reference_flare :: flare where
  "reference_flare =
     \<lparr>fl_StartsWith = (\<lambda>s p. prefix p s), fl_EndsWith = (\<lambda>s p. suffix p s),
      fl_Split = (\<lambda>s d keep. if keep then (if s = [] then [] else split_at_char d s)
                             else filter (\<lambda>p. p \<noteq> []) (split_at_char d s)),
      fl_TryParse_size_t = ref_TryParse_size_t,
      fl_Blake3 = ref_Blake3, fl_EncodeHex = id,
      fl_EncodePercent = ref_EncodePercent, fl_DecodePercent = ref_DecodePercent,
      fl_XXH64 = ref_hash 7\<rparr>"

lemma parse_digits_nondigit: "c \<in> set s \<Longrightarrow> digit_value c = None \<Longrightarrow> parse_digits acc s = None"
  by (induction s arbitrary: acc) (auto split: option.splits)

lemma ref_DecodePercent_Encode: "ref_DecodePercent (ref_EncodePercent s) = Some s"
  by (induction s) auto

lemma ref_EncodePercent_no_slash: "CHR ''/'' \<notin> set (ref_EncodePercent s)"
  by (induction s) auto

lemma ref_hash_bound: "ref_hash a s < 2 ^ 64"
  by (induction a s rule: ref_hash.induct) auto

lemma flare_strings_reference: "flare_strings reference_flare"
proof (unfold_locales, goal_cases)
  case (7 c s)
  then show ?case
    by (auto simp: reference_flare_def ref_TryParse_size_t_def parse_decimal_def parse_digits_nondigit)
next
  case (6 s n)
  then show ?case
    by (auto simp: reference_flare_def ref_TryParse_size_t_def split: option.splits if_splits)
next
  case (11 s)
  show ?case using ref_hash_bound by (simp add: reference_flare_def)
qed (simp_all add: reference_flare_def ref_TryParse_size_t_def ref_Blake3_def
       ref_DecodePercent_Encode ref_EncodePercent_no_slash)

interpretation ref_flare: flare_strings reference_flare
  by (rule flare_strings_reference)

end
