(* ===== verification/Posix_Fs.thy ===== *)
theory Posix_Fs
  imports Flare_Api
begin

text \<open>
  Paths, directories and the helpers of \<^verbatim>\<open>common/dir.cc\<close>.

  The file system is a map from paths to nodes; the order of the list is the order in which
  \<open>readdir\<close> produces the entries. A node is a directory or a file of some \<open>d_type\<close> with
  its bytes and modification time. Paths are compared as strings, without resolving symbolic
  links, doubled slashes or dots: this is how the program itself compares the paths it builds.
  System calls fail for the reasons written here (absent node, wrong kind of node, missing
  parent); other failures of the disk enter as arguments where the program survives them.
\<close>

section \<open>Paths\<close>

abbreviation slash :: char where "slash \<equiv> CHR ''/''"

abbreviation slashes :: "string \<Rightarrow> nat" where "slashes p \<equiv> count_list p slash"

definition before_last_slash :: "string \<Rightarrow> string" where
  "before_last_slash path = rev (tl (dropWhile (\<lambda>c. c \<noteq> slash) (rev path)))"

definition after_last_slash :: "string \<Rightarrow> string" where
  "after_last_slash path = rev (takeWhile (\<lambda>c. c \<noteq> slash) (rev path))"

definition GetDirectoryName :: "string \<Rightarrow> string option" where
  "GetDirectoryName path = (if slash \<in> set path then Some (before_last_slash path) else None)"

section \<open>The file system\<close>

datatype fs_node = Directory | FileNode (node_d_type: nat) (node_bytes: bytes) (node_mtime: time_point)

type_synonym filesystem = "(string, fs_node) umap"

abbreviation DT_REG :: nat where "DT_REG \<equiv> 8"
abbreviation DT_DIR :: nat where "DT_DIR \<equiv> 4"

definition d_type :: "fs_node \<Rightarrow> nat" where
  "d_type n = (case n of Directory \<Rightarrow> DT_DIR | FileNode t _ _ \<Rightarrow> t)"

definition is_directory :: "filesystem \<Rightarrow> string \<Rightarrow> bool" where
  "is_directory fs p \<longleftrightarrow> map_of fs p = Some Directory"

definition is_file :: "filesystem \<Rightarrow> string \<Rightarrow> bool" where
  "is_file fs p \<longleftrightarrow> (case map_of fs p of Some (FileNode _ _ _) \<Rightarrow> True | _ \<Rightarrow> False)"

text \<open>The name of a path directly below a directory.\<close>

definition child_name :: "string \<Rightarrow> string \<Rightarrow> string option" where
  "child_name dir p =
     (if prefix (dir @ [slash]) p \<and> slash \<notin> set (drop (length dir + 1) p) \<and> drop (length dir + 1) p \<noteq> []
      then Some (drop (length dir + 1) p) else None)"

fun readdir :: "string \<Rightarrow> filesystem \<Rightarrow> (string \<times> nat) list" where
  "readdir dir [] = []"
| "readdir dir ((p, n) # fs) =
     (case child_name dir p of None \<Rightarrow> readdir dir fs | Some x \<Rightarrow> (x, d_type n) # readdir dir fs)"

definition fs_unlink :: "string \<Rightarrow> filesystem \<Rightarrow> filesystem option" where
  "fs_unlink p fs = (if is_file fs p then Some (umap_erase p fs) else None)"

definition fs_rmdir :: "string \<Rightarrow> filesystem \<Rightarrow> filesystem option" where
  "fs_rmdir p fs = (if is_directory fs p \<and> readdir p fs = [] then Some (umap_erase p fs) else None)"

definition parent_exists :: "string \<Rightarrow> filesystem \<Rightarrow> bool" where
  "parent_exists p fs \<longleftrightarrow>
     (case GetDirectoryName p of None \<Rightarrow> True | Some d \<Rightarrow> d = [] \<or> is_directory fs d)"

text \<open>A file can be created under a name that is not empty and not one of the two dot names.\<close>

definition valid_file_name :: "string \<Rightarrow> bool" where
  "valid_file_name p \<longleftrightarrow> after_last_slash p \<notin> {[], ''.'', ''..''}"

definition can_create :: "string \<Rightarrow> filesystem \<Rightarrow> bool" where
  "can_create p fs \<longleftrightarrow> valid_file_name p \<and> parent_exists p fs \<and> \<not> is_directory fs p"

definition fs_rename :: "string \<Rightarrow> string \<Rightarrow> filesystem \<Rightarrow> filesystem option" where
  "fs_rename src dst fs =
     (case map_of fs src of
        Some (FileNode t b m) \<Rightarrow>
          (if can_create dst fs
           then Some (if src = dst then fs else umap_set dst (FileNode t b m) (umap_erase src fs)) else None)
      | _ \<Rightarrow> None)"

section \<open>Directory helpers\<close>

record DirEntry =
  de_name :: string
  de_is_block_dev :: bool
  de_is_char_dev :: bool
  de_is_dir :: bool
  de_is_symlink :: bool
  de_is_regular :: bool
  de_is_unix_socket :: bool

text \<open>The code tests the bits of \<open>d_type\<close>, which is an enumeration (\<open>DT_CHR\<close> 2, \<open>DT_DIR\<close> 4,
  \<open>DT_BLK\<close> 6, \<open>DT_REG\<close> 8, \<open>DT_LNK\<close> 10, \<open>DT_SOCK\<close> 12), not a set of flags.\<close>

definition type_bits :: "nat \<Rightarrow> nat \<Rightarrow> bool" where
  "type_bits t m \<longleftrightarrow> and t m \<noteq> 0"

definition make_DirEntry :: "string \<times> nat \<Rightarrow> DirEntry" where
  "make_DirEntry e =
     \<lparr>de_name = fst e, de_is_block_dev = type_bits (snd e) 6, de_is_char_dev = type_bits (snd e) 2,
      de_is_dir = type_bits (snd e) 4, de_is_symlink = type_bits (snd e) 10,
      de_is_regular = type_bits (snd e) 8, de_is_unix_socket = type_bits (snd e) 12\<rparr>"

definition EnumerateDir :: "string \<Rightarrow> filesystem \<Rightarrow> DirEntry list option" where
  "EnumerateDir path fs =
     (if is_directory fs path then Some (map make_DirEntry (readdir path fs)) else None)"

definition mkdir_if_missing :: "string \<Rightarrow> filesystem \<Rightarrow> filesystem option" where
  "mkdir_if_missing p fs =
     (if map_of fs p \<noteq> None then Some fs
      else if p \<noteq> [] \<and> parent_exists p fs then Some ((p, Directory) # fs) else None)"

definition Mkdirs :: "string \<Rightarrow> filesystem \<Rightarrow> filesystem option" where
  "Mkdirs path fs =
     run_calls mkdir_if_missing
       (map (\<lambda>i. take i path) (filter (\<lambda>i. path ! i = slash) [1..<length path]) @ [path]) fs"

text \<open>The recursion of \<open>RemoveDirs\<close> is as deep as the tree; the length of the longest path bounds
  its depth, so this fuel is always enough (see \<open>RemoveDirs_correct\<close>).\<close>

primrec RemoveDirs_fuel :: "nat \<Rightarrow> string \<Rightarrow> filesystem \<Rightarrow> filesystem option" where
  "RemoveDirs_fuel 0 path fs = None"
| "RemoveDirs_fuel (Suc n) path fs =
     (if is_directory fs path then
        (case run_calls
                (\<lambda>fullname fs1.
                   (case fs_unlink fullname fs1 of
                      Some fs2 \<Rightarrow> Some fs2
                    | None \<Rightarrow> if is_directory fs1 fullname then RemoveDirs_fuel n fullname fs1 else None))
                (map (\<lambda>e. path @ [slash] @ fst e) (readdir path fs)) fs
         of None \<Rightarrow> None
          | Some fs' \<Rightarrow> fs_rmdir path fs')
      else None)"

definition longest_path :: "filesystem \<Rightarrow> nat" where
  "longest_path fs = foldr (\<lambda>e m. max (length (fst e)) m) fs 0"

definition RemoveDirs :: "string \<Rightarrow> filesystem \<Rightarrow> filesystem option" where
  "RemoveDirs path fs = RemoveDirs_fuel (Suc (longest_path fs)) path fs"

section \<open>Lemmas on paths\<close>

named_theorems path_simps \<open>taking paths apart\<close>

lemma dropWhile_rev_slash: "slash \<notin> set n \<Longrightarrow> dropWhile (\<lambda>c. c \<noteq> slash) (rev n @ slash # xs) = slash # xs"
  by (subst dropWhile_append2) auto

lemma before_last_slash_path [path_simps]: "slash \<notin> set n \<Longrightarrow> before_last_slash (d @ slash # n) = d"
  by (simp add: before_last_slash_def dropWhile_rev_slash)

lemma after_last_slash_path [path_simps]: "slash \<notin> set n \<Longrightarrow> after_last_slash (d @ slash # n) = n"
proof -
  assume "slash \<notin> set n"
  then have "takeWhile (\<lambda>c. c \<noteq> slash) (rev n) = rev n" by (auto simp: takeWhile_eq_all_conv)
  then show ?thesis by (simp add: after_last_slash_def takeWhile_tail del: takeWhile_eq_all_conv)
qed

lemma GetDirectoryName_path [path_simps]: "slash \<notin> set n \<Longrightarrow> GetDirectoryName (d @ slash # n) = Some d"
  by (simp add: GetDirectoryName_def before_last_slash_path)

lemma path_split: "slash \<in> set p \<Longrightarrow> p = before_last_slash p @ slash # after_last_slash p \<and> slash \<notin> set (after_last_slash p)"
proof -
  assume "slash \<in> set p"
  then obtain d n where "p = d @ slash # n" "slash \<notin> set n" by (meson split_list_last)
  then show ?thesis by (simp add: before_last_slash_path after_last_slash_path)
qed

lemma GetDirectoryName_SomeD: "GetDirectoryName p = Some d \<Longrightarrow> p = d @ slash # after_last_slash p"
  using path_split by (auto simp: GetDirectoryName_def split: if_splits)

lemma slashes_0: "slash \<notin> set n \<Longrightarrow> slashes n = 0"
  by (simp add: count_list_0_iff)

lemma slashes_child [path_simps]: "slash \<notin> set n \<Longrightarrow> slashes (d @ slash # n) = Suc (slashes d)"
  by (simp add: slashes_0)

lemma path_inject: "slash \<notin> set m \<Longrightarrow> slash \<notin> set n \<Longrightarrow> d @ slash # m = e @ slash # n \<longleftrightarrow> d = e \<and> m = n"
  by (metis before_last_slash_path after_last_slash_path)

definition under :: "string \<Rightarrow> string \<Rightarrow> bool" where
  "under d p \<longleftrightarrow> prefix (d @ [slash]) p"

lemma under_slashes: "under d p \<Longrightarrow> slashes d < slashes p"
  by (auto simp: under_def prefix_def)

lemma under_append: "under d p \<Longrightarrow> under d (p @ q)"
  by (auto simp: under_def prefix_def)

lemma under_trans: "under a b \<Longrightarrow> under b c \<Longrightarrow> under a c"
  by (auto simp: under_def prefix_def)

lemma under_child [simp]: "under d (d @ slash # n)"
  by (simp add: under_def)

lemma not_under_self [simp]: "\<not> under d d"
  using under_slashes by blast

lemma under_length: "under d p \<Longrightarrow> length d < length p"
  by (auto simp: under_def prefix_def)

lemma child_name_iff: "child_name d p = Some x \<longleftrightarrow> p = d @ slash # x \<and> slash \<notin> set x \<and> x \<noteq> []"
  by (auto simp: child_name_def prefix_def)

lemma under_parent:
  assumes "under d p" "slash \<notin> set n" "p = e @ slash # n"
  shows "d = e \<or> under d e"
proof -
  obtain r where r: "p = d @ slash # r" using assms(1) by (auto simp: under_def prefix_def)
  show ?thesis
  proof (cases "slash \<in> set r")
    case False
    with r assms(2,3) show ?thesis by (metis path_inject)
  next
    case True
    then obtain a b where ab: "r = a @ slash # b" "slash \<notin> set b" by (meson split_list_last)
    with r have "p = (d @ slash # a) @ slash # b" by simp
    with assms(2,3) ab(2) have "e = d @ slash # a" by (metis path_inject)
    then show ?thesis by simp
  qed
qed

lemma set_readdir: "(x, t) \<in> set (readdir d fs) \<longleftrightarrow>
    (\<exists>n. (d @ slash # x, n) \<in> set fs \<and> t = d_type n \<and> slash \<notin> set x \<and> x \<noteq> [])"
proof (induction fs)
  case (Cons e fs)
  obtain p n where "e = (p, n)" by (cases e)
  with Cons show ?case by (cases "child_name d p") (auto simp: child_name_iff, auto simp: child_name_def prefix_def)
qed simp

lemma distinct_readdir: "distinct (umap_keys fs) \<Longrightarrow> distinct (map fst (readdir d fs))"
proof (induction fs)
  case (Cons e fs)
  obtain p n where e: "e = (p, n)" by (cases e)
  show ?case
  proof (cases "child_name d p")
    case None
    with Cons e show ?thesis by simp
  next
    case (Some x)
    then have "p = d @ slash # x" by (simp add: child_name_iff)
    then have "x \<notin> fst ` set (readdir d fs)"
      using Cons.prems e by (force simp: set_readdir image_iff)
    with Some Cons e show ?thesis by simp
  qed
qed simp

section \<open>Well-formed file systems\<close>

definition fs_wf :: "filesystem \<Rightarrow> bool" where
  "fs_wf fs \<longleftrightarrow> distinct (umap_keys fs)
     \<and> (\<forall>e\<in>set fs. after_last_slash (fst e) \<noteq> [] \<and> parent_exists (fst e) fs)"

lemma fs_wf_distinct: "fs_wf fs \<Longrightarrow> distinct (umap_keys fs)"
  by (simp add: fs_wf_def)

lemma in_fs_iff: "fs_wf fs \<Longrightarrow> (p, n) \<in> set fs \<longleftrightarrow> map_of fs p = Some n"
  by (simp add: fs_wf_def)

lemma map_of_SomeI_key: "map_of fs p = Some n \<Longrightarrow> (p, n) \<in> set fs"
  by (rule map_of_SomeD)

lemma fs_wf_parent:
  assumes "fs_wf fs" "map_of fs (d @ slash # n) = Some x" "slash \<notin> set n"
  shows "d = [] \<or> is_directory fs d"
  using assms map_of_SomeD [OF assms(2)] by (auto simp: fs_wf_def parent_exists_def path_simps)

lemma fs_wf_ancestor:
  assumes "fs_wf fs" "map_of fs p = Some x" "under d p" "d \<noteq> []"
  shows "is_directory fs d"
  using assms
proof (induction "length p" arbitrary: p x rule: less_induct)
  case less
  have "slash \<in> set p" using less.prems(3) by (auto simp: under_def prefix_def)
  then obtain e n where p: "p = e @ slash # n" "slash \<notin> set n" by (meson split_list_last)
  have "d = e \<or> under d e" using under_parent [OF less.prems(3) p(2,1)] .
  moreover have e: "e = [] \<or> is_directory fs e"
    using fs_wf_parent less.prems(1,2) p by blast
  ultimately show ?case
    using less.hyps [of e] less.prems(1,4) p(1) by (auto simp: is_directory_def under_def)
qed

lemma fs_wf_no_trailing: "fs_wf fs \<Longrightarrow> map_of fs (d @ [slash]) = None"
proof (rule ccontr)
  assume "fs_wf fs" "map_of fs (d @ [slash]) \<noteq> None"
  then obtain n where "(d @ [slash], n) \<in> set fs" by (auto dest: map_of_SomeD)
  with \<open>fs_wf fs\<close> show False using after_last_slash_path [of "[]" d] by (auto simp: fs_wf_def)
qed

lemma fs_wf_child_below:
  assumes "fs_wf fs" "map_of fs p = Some x" "under d p"
  shows "\<exists>c. slash \<notin> set c \<and> c \<noteq> [] \<and> map_of fs (d @ slash # c) \<noteq> None
           \<and> (p = d @ slash # c \<or> under (d @ slash # c) p)"
proof -
  obtain r where r: "p = d @ slash # r" using assms(3) by (auto simp: under_def prefix_def)
  show ?thesis
  proof (cases "slash \<in> set r")
    case False
    moreover have "r \<noteq> []" using r assms(1,2) fs_wf_no_trailing by fastforce
    ultimately show ?thesis using r assms(2) by blast
  next
    case True
    then obtain a b where ab: "r = a @ slash # b" "slash \<notin> set a" by (meson split_list_first)
    then have u: "under (d @ slash # a) p" using r by (simp add: under_def)
    then have k: "is_directory fs (d @ slash # a)" using fs_wf_ancestor assms(1,2) by blast
    then have "a \<noteq> []" using fs_wf_no_trailing [OF assms(1)] by (auto simp: is_directory_def)
    with ab(2) k u show ?thesis by (auto simp: is_directory_def)
  qed
qed

lemma umap_filter_map_of:
  "map_of (filter (\<lambda>e. P (fst e)) fs) p = (if P p then map_of fs p else None)"
  by (induction fs) auto

section \<open>Removing a tree\<close>

definition prune :: "string \<Rightarrow> filesystem \<Rightarrow> filesystem" where
  "prune c fs = filter (\<lambda>e. fst e \<noteq> c \<and> \<not> under c (fst e)) fs"

lemma map_of_prune: "map_of (prune c fs) p = (if p \<noteq> c \<and> \<not> under c p then map_of fs p else None)"
  by (induction fs) (auto simp: prune_def)

lemma fs_wf_prune:
  assumes "fs_wf fs"
  shows "fs_wf (prune c fs)"
  unfolding fs_wf_def
proof (intro conjI ballI)
  show "distinct (umap_keys (prune c fs))" using assms by (simp add: prune_def distinct_map_filter fs_wf_distinct)
next
  fix e assume e: "e \<in> set (prune c fs)"
  then have e': "e \<in> set fs" "fst e \<noteq> c" "\<not> under c (fst e)" by (auto simp: prune_def)
  then show "after_last_slash (fst e) \<noteq> []" using assms by (auto simp: fs_wf_def)
  show "parent_exists (fst e) (prune c fs)"
  proof (cases "GetDirectoryName (fst e)")
    case None
    then show ?thesis by (simp add: parent_exists_def)
  next
    case (Some d)
    then have de: "under d (fst e)" using GetDirectoryName_SomeD under_child by metis
    have "d = [] \<or> is_directory fs d" using assms e'(1) Some by (auto simp: fs_wf_def parent_exists_def)
    moreover have "d \<noteq> c" "\<not> under c d" using e'(3) de under_trans by blast+
    ultimately show ?thesis using Some by (auto simp: parent_exists_def is_directory_def map_of_prune)
  qed
qed

lemma prune_file:
  assumes "fs_wf fs" "is_file fs c" "c \<noteq> []"
  shows "umap_erase c fs = prune c fs"
proof -
  have "\<not> under c (fst e)" if e: "e \<in> set fs" for e
  proof
    assume u: "under c (fst e)"
    have "map_of fs (fst e) = Some (snd e)" using assms(1) e in_fs_iff [of fs "fst e" "snd e"] by simp
    then have "is_directory fs c" using fs_wf_ancestor assms(1,3) u by blast
    with assms(2) show False by (simp add: is_directory_def is_file_def)
  qed
  then show ?thesis by (auto simp: umap_erase_def prune_def intro: filter_cong)
qed

lemma is_file_or_directory: "map_of fs p \<noteq> None \<Longrightarrow> is_file fs p \<or> is_directory fs p"
  by (auto simp: is_file_def is_directory_def split: fs_node.splits option.splits)

lemma not_file_and_directory: "is_directory fs p \<Longrightarrow> \<not> is_file fs p"
  by (simp add: is_file_def is_directory_def)

lemma siblings_not_under: "slash \<notin> set y \<Longrightarrow> \<not> under (d @ slash # x) (d @ slash # y)"
  using under_slashes [of "d @ slash # x" "d @ slash # y"] slashes_child [of y d] by auto

abbreviation remove_step :: "(string \<Rightarrow> filesystem \<Rightarrow> filesystem option) \<Rightarrow> string \<Rightarrow> filesystem \<Rightarrow> filesystem option" where
  "remove_step rec fullname fs1 \<equiv>
     (case fs_unlink fullname fs1 of
        Some fs2 \<Rightarrow> Some fs2
      | None \<Rightarrow> if is_directory fs1 fullname then rec fullname fs1 else None)"

lemma remove_step_prune:
  assumes "fs_wf fs" "map_of fs c \<noteq> None" "c \<noteq> []" "is_directory fs c \<Longrightarrow> rec c fs = Some (prune c fs)"
  shows "remove_step rec c fs = Some (prune c fs)"
  using assms is_file_or_directory [OF assms(2)] not_file_and_directory [of fs c]
  by (auto simp: fs_unlink_def prune_file split: option.splits)

lemma remove_children:
  assumes "\<And>c fs. fs_wf fs \<Longrightarrow> is_directory fs c \<Longrightarrow> c \<noteq> [] \<Longrightarrow> length path < length c
             \<Longrightarrow> \<forall>e\<in>set fs. length (fst e) < length path + Suc n \<Longrightarrow> rec c fs = Some (prune c fs)"
    and "fs_wf fs" "\<forall>e\<in>set fs. length (fst e) < length path + Suc n"
    and "distinct xs" "\<forall>x\<in>set xs. slash \<notin> set x \<and> map_of fs (path @ slash # x) \<noteq> None"
  shows "run_calls (remove_step rec) (map (\<lambda>x. path @ slash # x) xs) fs =
         Some (fold prune (map (\<lambda>x. path @ slash # x) xs) fs) \<and> fs_wf (fold prune (map (\<lambda>x. path @ slash # x) xs) fs)"
  using assms(2-5)
proof (induction xs arbitrary: fs)
  case (Cons x xs)
  let ?c = "path @ slash # x"
  have st: "remove_step rec ?c fs = Some (prune ?c fs)"
    by (rule remove_step_prune) (use Cons.prems assms(1) [of fs ?c] in auto)
  have wf: "fs_wf (prune ?c fs)" using fs_wf_prune Cons.prems(1) .
  have len: "\<forall>e\<in>set (prune ?c fs). length (fst e) < length path + Suc n"
    using Cons.prems(2) by (auto simp: prune_def)
  have ch: "\<forall>y\<in>set xs. slash \<notin> set y \<and> map_of (prune ?c fs) (path @ slash # y) \<noteq> None"
    using Cons.prems(3,4) siblings_not_under by (auto simp: map_of_prune)
  from Cons.IH [OF wf len _ ch] Cons.prems(3) st show ?case by simp
qed simp

lemma map_of_fold_prune:
  "map_of (fold prune cs fs) p = (if \<forall>c\<in>set cs. p \<noteq> c \<and> \<not> under c p then map_of fs p else None)"
  by (induction cs arbitrary: fs) (auto simp: map_of_prune)

lemma fold_prune_filter: "fold prune cs fs = filter (\<lambda>e. \<forall>c\<in>set cs. fst e \<noteq> c \<and> \<not> under c (fst e)) fs"
  by (induction cs arbitrary: fs) (auto simp: prune_def intro: filter_cong)

lemma children_of_readdir:
  assumes "fs_wf fs"
  shows "x \<in> fst ` set (readdir d fs) \<longleftrightarrow> slash \<notin> set x \<and> x \<noteq> [] \<and> map_of fs (d @ slash # x) \<noteq> None"
proof -
  have "x \<in> fst ` set (readdir d fs) \<longleftrightarrow> (\<exists>t. (x, t) \<in> set (readdir d fs))" by force
  also have "\<dots> \<longleftrightarrow> slash \<notin> set x \<and> x \<noteq> [] \<and> (\<exists>n. map_of fs (d @ slash # x) = Some n)"
    by (simp add: set_readdir in_fs_iff [OF assms]) blast
  finally show ?thesis by simp
qed

text \<open>What is below a directory is one of its children or below one, so removing these empties it.\<close>

lemma below_readdir:
  assumes "fs_wf fs" "map_of fs p = Some x"
  shows "(\<exists>c\<in>set (map (\<lambda>x. path @ slash # x) (map fst (readdir path fs))). p = c \<or> under c p) \<longleftrightarrow> under path p"
proof
  assume "under path p"
  then obtain c where c: "slash \<notin> set c" "c \<noteq> []" "map_of fs (path @ slash # c) \<noteq> None"
    "p = path @ slash # c \<or> under (path @ slash # c) p"
    using fs_wf_child_below [OF assms] by blast
  then have "c \<in> set (map fst (readdir path fs))" using children_of_readdir [OF assms(1)] by simp
  with c(4) show "\<exists>c\<in>set (map (\<lambda>x. path @ slash # x) (map fst (readdir path fs))). p = c \<or> under c p" by auto
next
  assume "\<exists>c\<in>set (map (\<lambda>x. path @ slash # x) (map fst (readdir path fs))). p = c \<or> under c p"
  then show "under path p" using under_trans [OF under_child] by auto
qed

lemma emptied_directory:
  assumes "fs_wf fs"
  shows "readdir path (fold prune (map (\<lambda>x. path @ slash # x) (map fst (readdir path fs))) fs) = []"
    (is "readdir path (fold prune ?cs fs) = []")
proof (rule ccontr)
  let ?fs' = "fold prune ?cs fs"
  assume "readdir path ?fs' \<noteq> []"
  then obtain x t where "(x, t) \<in> set (readdir path ?fs')" by (cases "readdir path ?fs'") auto
  then obtain m where "(path @ slash # x, m) \<in> set ?fs'" by (auto simp: set_readdir)
  then have "(path @ slash # x, m) \<in> set fs" "\<forall>c\<in>set ?cs. path @ slash # x \<noteq> c \<and> \<not> under c (path @ slash # x)"
    by (auto simp: fold_prune_filter)
  moreover from this have "map_of fs (path @ slash # x) = Some m" using in_fs_iff [OF assms] by blast
  ultimately show False using below_readdir [OF assms, of "path @ slash # x" m path] under_child by metis
qed

lemma RemoveDirs_fuel_correct:
  assumes "fs_wf fs" "is_directory fs path" "path \<noteq> []" "\<forall>e\<in>set fs. length (fst e) < length path + n"
  shows "RemoveDirs_fuel n path fs = Some (prune path fs)"
  using assms
proof (induction n arbitrary: path fs)
  case 0
  then show ?case by (auto simp: is_directory_def dest!: map_of_SomeD)
next
  case (Suc n)
  let ?xs = "map fst (readdir path fs)"
  let ?cs = "map (\<lambda>x. path @ slash # x) ?xs"
  have xs: "\<forall>x\<in>set ?xs. slash \<notin> set x \<and> map_of fs (path @ slash # x) \<noteq> None"
    using children_of_readdir [OF Suc.prems(1)] by auto
  have "distinct ?xs" using distinct_readdir [OF fs_wf_distinct [OF Suc.prems(1)]] .
  note run = remove_children [where rec = "RemoveDirs_fuel n" and path = path and n = n, OF _ Suc.prems(1,4) this xs]
  have rec: "RemoveDirs_fuel n c fs' = Some (prune c fs')"
    if "fs_wf fs'" "is_directory fs' c" "c \<noteq> []" "length path < length c"
       "\<forall>e\<in>set fs'. length (fst e) < length path + Suc n" for c fs'
  proof (rule Suc.IH [OF that(1-3)], rule)
    fix e assume "e \<in> set fs'"
    with that(4,5) show "length (fst e) < length c + n" by fastforce
  qed
  note below = below_readdir [where path = path, OF Suc.prems(1)]
  let ?fs' = "fold prune ?cs fs"
  have dir: "is_directory ?fs' path"
    using Suc.prems(2) below [of path] by (auto simp: is_directory_def map_of_fold_prune)
  have "readdir path ?fs' = []" by (rule emptied_directory [OF Suc.prems(1)])
  with dir have rm: "fs_rmdir path ?fs' = Some (umap_erase path ?fs')" by (simp add: fs_rmdir_def)
  have "umap_erase path ?fs' = prune path fs"
  proof -
    have "(\<forall>c\<in>set ?cs. fst e \<noteq> c \<and> \<not> under c (fst e)) \<longleftrightarrow> \<not> under path (fst e)" if "e \<in> set fs" for e
      using below [of "fst e" "snd e"] that Suc.prems(1) in_fs_iff [of fs "fst e" "snd e"] by auto
    then show ?thesis
      by (auto simp: umap_erase_def prune_def fold_prune_filter intro!: filter_cong)
  qed
  with run [OF rec] rm Suc.prems(2) show ?case by (simp add: comp_def)
qed

lemma longest_path_ge: "e \<in> set fs \<Longrightarrow> length (fst e) \<le> longest_path fs"
  by (induction fs) (auto simp: longest_path_def)

lemma RemoveDirs_correct:
  assumes "fs_wf fs" "is_directory fs path" "path \<noteq> []"
  shows "RemoveDirs path fs = Some (prune path fs)"
  unfolding RemoveDirs_def
  by (rule RemoveDirs_fuel_correct [OF assms]) (use longest_path_ge in fastforce)

text \<open>Sockets (12) and block devices (6) are reported as directories, symbolic links (10) as regular files.\<close>

lemma socket_taken_for_directory:
  "de_is_dir (make_DirEntry (name, 12))" "de_is_dir (make_DirEntry (name, 6))" "de_is_regular (make_DirEntry (name, 10))"
  by (simp_all add: make_DirEntry_def type_bits_def)

end
