(* ===== verification/Consistent_Hash.thy ===== *)
theory Consistent_Hash
  imports Flare_Api
begin

text \<open>
  The ring that maps keys to cache directories (\<^verbatim>\<open>common/consistent_hash.h\<close>,
  \<^verbatim>\<open>common/consistent_hash.cc\<close>).
\<close>

section \<open>Definitions\<close>

type_synonym ConsistentHash = "(nat \<times> string) list"

definition virtual_nodes :: "flare \<Rightarrow> string \<Rightarrow> nat \<Rightarrow> ConsistentHash" where
  "virtual_nodes fl dir n = map (\<lambda>i. (fl_XXH64 fl (dir @ ''#VN'' @ to_string i) mod 2 ^ 32, dir)) [0..<n]"

text \<open>The constructor. \<open>virtual_node_size\<close> is a 64-bit product, compared with a 32-bit counter: from
  two to the power 32 on the loop does not end (\<open>None\<close>). The order that \<open>std::sort\<close> gives to
  equal hashes is unspecified; here they keep the order of the directories.\<close>

definition ConsistentHash_ctor :: "flare \<Rightarrow> (string \<times> nat) list \<Rightarrow> ConsistentHash option" where
  "ConsistentHash_ctor fl weighted_dirs =
     (if \<exists>e\<in>set weighted_dirs. (snd e * 100) mod 2 ^ 64 \<ge> 2 ^ 32 then None
      else Some (sort_key fst (concat (map (\<lambda>(dir, weight). virtual_nodes fl dir ((weight * 100) mod 2 ^ 64)) weighted_dirs))))"

text \<open>\<open>std::lower_bound\<close> by the hash, wrapping to the first node. The argument is \<open>uint32_t\<close>.\<close>

definition GetNode :: "ConsistentHash \<Rightarrow> nat \<Rightarrow> string option" where
  "GetNode ring hash =
     (if ring = [] then None
      else Some (case find (\<lambda>n. \<not> fst n < hash mod 2 ^ 32) ring of
                   Some n \<Rightarrow> snd n
                 | None \<Rightarrow> snd (hd ring)))"

section \<open>Lemmas\<close>

lemma sorted_ring: "ConsistentHash_ctor fl ws = Some ring \<Longrightarrow> sorted (map fst ring)"
  by (auto simp: ConsistentHash_ctor_def split: if_splits)

lemma ring_nodes:
  assumes "ConsistentHash_ctor fl ws = Some ring" "n \<in> set ring"
  shows "snd n \<in> fst ` set ws \<and> fst n < 2 ^ 32"
  using assms by (force simp: ConsistentHash_ctor_def virtual_nodes_def split: if_splits)

lemma ring_nonempty:
  assumes "ConsistentHash_ctor fl ws = Some ring" "(d, w) \<in> set ws" "0 < w" "w < 2 ^ 44"
  shows "ring \<noteq> []"
proof -
  have "(w * 100) mod 2 ^ 64 = w * 100" using assms(4) by (intro mod_less) simp
  then have "virtual_nodes fl d ((w * 100) mod 2 ^ 64) \<noteq> []" using assms(3) by (simp add: virtual_nodes_def)
  then have "concat (map (\<lambda>(dir, weight). virtual_nodes fl dir ((weight * 100) mod 2 ^ 64)) ws) \<noteq> []"
    using assms(2) by force
  moreover have "ring = sort_key fst (concat (map (\<lambda>(dir, weight). virtual_nodes fl dir ((weight * 100) mod 2 ^ 64)) ws))"
    using assms(1) by (simp add: ConsistentHash_ctor_def split: if_splits)
  ultimately show ?thesis by (metis set_empty set_sort)
qed

lemma GetNode_in_ring: "GetNode ring h = Some d \<Longrightarrow> d \<in> snd ` set ring"
  by (cases ring) (auto simp: GetNode_def split: if_splits option.splits dest: find_SomeD)

lemma GetNode_defined: "ring \<noteq> [] \<Longrightarrow> \<exists>d. GetNode ring h = Some d"
  by (simp add: GetNode_def)

lemma find_sorted_least:
  assumes "sorted (map fst xs)" "find (\<lambda>n. \<not> fst n < h) xs = Some m"
  shows "m \<in> set xs \<and> h \<le> fst m \<and> (\<forall>n\<in>set xs. h \<le> fst n \<longrightarrow> fst m \<le> fst n)"
  using assms by (induction xs) (auto split: if_splits)

lemma hd_sorted_least: "sorted (map fst xs) \<Longrightarrow> n \<in> set xs \<Longrightarrow> fst (hd xs) \<le> fst n"
  by (cases xs) auto

text \<open>The node that owns a hash: the first one at or after it on the ring, else the first one.\<close>

definition owns :: "(nat \<times> string) set \<Rightarrow> nat \<Rightarrow> nat \<times> string \<Rightarrow> bool" where
  "owns N h n \<longleftrightarrow> n \<in> N \<and>
     (if \<exists>m\<in>N. h \<le> fst m then h \<le> fst n \<and> (\<forall>m\<in>N. h \<le> fst m \<longrightarrow> fst n \<le> fst m)
      else (\<forall>m\<in>N. fst n \<le> fst m))"

lemma GetNode_owner:
  assumes "sorted (map fst ring)" "ring \<noteq> []"
  shows "\<exists>n. owns (set ring) (h mod 2 ^ 32) n \<and> GetNode ring h = Some (snd n)"
proof (cases "find (\<lambda>n. \<not> fst n < h mod 2 ^ 32) ring")
  case None
  then have "owns (set ring) (h mod 2 ^ 32) (hd ring)"
    using assms hd_sorted_least [OF assms(1)] by (auto simp: owns_def find_None_iff)
  moreover have "GetNode ring h = Some (snd (hd ring))" using None assms(2) by (simp add: GetNode_def)
  ultimately show ?thesis by blast
next
  case (Some m)
  then have "owns (set ring) (h mod 2 ^ 32) m"
    using find_sorted_least [OF assms(1) Some] by (auto simp: owns_def)
  moreover have "GetNode ring h = Some (snd m)" using Some assms(2) by (simp add: GetNode_def)
  ultimately show ?thesis by blast
qed

lemma owns_unique: "inj_on fst N \<Longrightarrow> owns N h m \<Longrightarrow> owns N h n \<Longrightarrow> m = n"
proof -
  assume inj: "inj_on fst N" and m: "owns N h m" and n: "owns N h n"
  have "fst m = fst n"
  proof (cases "\<exists>x\<in>N. h \<le> fst x")
    case True
    with m n show ?thesis by (simp add: owns_def order_antisym)
  next
    case False
    with m n show ?thesis by (simp add: owns_def order_antisym)
  qed
  with inj m n show ?thesis by (auto simp: owns_def dest: inj_onD)
qed

lemma owns_restrict: "owns N' h n \<Longrightarrow> n \<in> N \<Longrightarrow> N \<subseteq> N' \<Longrightarrow> owns N h n"
  by (auto simp: owns_def split: if_splits)

lemma ring_set:
  assumes "ConsistentHash_ctor fl ws = Some ring"
  shows "set ring = (\<Union>(d, w)\<in>set ws. set (virtual_nodes fl d ((w * 100) mod 2 ^ 64)))"
proof -
  have "ring = sort_key fst (concat (map (\<lambda>(dir, weight). virtual_nodes fl dir ((weight * 100) mod 2 ^ 64)) ws))"
    using assms by (simp add: ConsistentHash_ctor_def split: if_splits)
  then have "set ring = set (concat (map (\<lambda>(dir, weight). virtual_nodes fl dir ((weight * 100) mod 2 ^ 64)) ws))"
    by (simp only: set_sort)
  then show ?thesis by auto
qed

section \<open>Property\<close>

text \<open>Consistent hashing: every lookup yields the configured directory of the first virtual node
  at or after the 32-bit hash, wrapping around, and when a directory is added to the configuration
  (and no two virtual nodes collide) every hash keeps its directory or moves to the new one.\<close>

theorem consistent_hash_minimal_disruption:
  assumes "ConsistentHash_ctor fl ws = Some ring" "ConsistentHash_ctor fl ws' = Some ring'"
    and "set ws' = insert (new_dir, w) (set ws)" "inj_on fst (set ring')" "ring \<noteq> []"
  shows "\<exists>n n'. owns (set ring) (h mod 2 ^ 32) n \<and> GetNode ring h = Some (snd n) \<and> snd n \<in> fst ` set ws
     \<and> owns (set ring') (h mod 2 ^ 32) n' \<and> GetNode ring' h = Some (snd n')
     \<and> (snd n' = new_dir \<or> snd n' = snd n)"
proof -
  have sub: "set ring \<subseteq> set ring'" using assms(3) by (auto simp: ring_set [OF assms(1)] ring_set [OF assms(2)])
  then have "ring' \<noteq> []" using assms(5) by auto
  then obtain n' where n': "owns (set ring') (h mod 2 ^ 32) n'" "GetNode ring' h = Some (snd n')"
    using GetNode_owner [OF sorted_ring [OF assms(2)]] by blast
  obtain n where n: "owns (set ring) (h mod 2 ^ 32) n" "GetNode ring h = Some (snd n)"
    using GetNode_owner [OF sorted_ring [OF assms(1)] assms(5)] by blast
  have "snd n' = new_dir \<or> snd n' = snd n"
  proof (cases "n' \<in> set ring")
    case True
    with owns_restrict [OF n'(1) True sub] n(1) owns_unique [OF inj_on_subset [OF assms(4) sub]]
    show ?thesis by blast
  next
    case False
    have "n' \<in> set ring'" using n'(1) by (simp add: owns_def)
    with False have "n' \<in> set (virtual_nodes fl new_dir ((w * 100) mod 2 ^ 64))"
      using assms(3) by (auto simp: ring_set [OF assms(1)] ring_set [OF assms(2)])
    then show ?thesis by (auto simp: virtual_nodes_def)
  qed
  moreover have "snd n \<in> fst ` set ws" using n(1) ring_nodes [OF assms(1), of n] by (simp add: owns_def)
  ultimately show ?thesis using n n' by blast
qed

definition spread_hash :: "string \<Rightarrow> nat" where
  "spread_hash s = (case parse_decimal (drop 5 s) of None \<Rightarrow> 0 | Some i \<Rightarrow> 2 * i + of_char (s ! 1) mod 2)"

definition spread_flare :: flare where
  "spread_flare = reference_flare\<lparr>fl_XXH64 := spread_hash\<rparr>"

lemma virtual_nodes_spread:
  "c \<in> set ''ab'' \<Longrightarrow> virtual_nodes spread_flare [CHR ''/'', c] 100 = map (\<lambda>i. (2 * i + of_char c mod 2, [CHR ''/'', c])) [0..<100]"
  by (auto simp: virtual_nodes_def spread_flare_def spread_hash_def)

theorem consistent_hash_minimal_disruption_witness:
  "\<exists>ring ring' (n :: nat \<times> string) (n' :: nat \<times> string). ConsistentHash_ctor spread_flare [(''/a'', 1)] = Some ring
     \<and> ConsistentHash_ctor spread_flare [(''/a'', 1), (''/b'', 1)] = Some ring'
     \<and> GetNode ring 12345 = Some (snd n) \<and> GetNode ring' 12345 = Some (snd n')
     \<and> (snd n' = ''/b'' \<or> snd n' = snd n)"
proof -
  obtain ring where r: "ConsistentHash_ctor spread_flare [(''/a'', 1)] = Some ring"
    by (simp add: ConsistentHash_ctor_def)
  obtain ring' where r': "ConsistentHash_ctor spread_flare [(''/a'', 1), (''/b'', 1)] = Some ring'"
    by (simp add: ConsistentHash_ctor_def)
  have "inj_on fst (set (virtual_nodes spread_flare ''/a'' 100 @ virtual_nodes spread_flare ''/b'' 100))"
    by (auto simp: virtual_nodes_spread inj_on_def) presburger+
  moreover have "set ring' = set (virtual_nodes spread_flare ''/a'' 100 @ virtual_nodes spread_flare ''/b'' 100)"
    using ring_set [OF r'] by simp
  ultimately have i: "inj_on fst (set ring')" by simp
  have e: "ring \<noteq> []" using ring_nonempty [OF r, of "''/a''" 1] by simp
  have s: "set [(''/a'', 1), (''/b'', 1::nat)] = insert (''/b'', 1) (set [(''/a'', 1)])" by auto
  obtain n n' :: "nat \<times> string" where "GetNode ring 12345 = Some (snd n)" "GetNode ring' 12345 = Some (snd n')"
    "snd n' = ''/b'' \<or> snd n' = snd n"
    using consistent_hash_minimal_disruption [OF r r' s i e, of 12345] by blast
  with r r' show ?thesis by (intro exI conjI)
qed

end
