(* ===== verification/Parse_Size.thy ===== *)
theory Parse_Size
  imports Flare_Api
begin

text \<open>
  Size strings such as \<^verbatim>\<open>10G\<close> (\<^verbatim>\<open>common/parse_size.cc\<close>) and the two option parsers of
  the disk cache that are built on it (\<^verbatim>\<open>ParseCacheDirs\<close>, \<^verbatim>\<open>ParseActionOnMisplacedEntry\<close> of
  \<^verbatim>\<open>common/disk_cache.cc\<close>).
\<close>

section \<open>Definitions\<close>

text \<open>
  The outer option is the undefined behaviour of \<open>back()\<close> on an empty string (the code
  does not test for it); the inner one is the function's own \<open>std::optional\<close>. The
  multiplication is on \<open>std::uint64_t\<close>.
\<close>

definition TryParseSize :: "flare \<Rightarrow> string \<Rightarrow> nat option option" where
  "TryParseSize fl size_str =
     (if size_str = [] then None
      else
        (let (scale, view) =
           (if last size_str = CHR ''G'' then (2 ^ 30, butlast size_str)
            else if last size_str = CHR ''M'' then (2 ^ 20, butlast size_str)
            else if last size_str = CHR ''K'' then (2 ^ 10, butlast size_str)
            else if last size_str = CHR ''B'' then (1, butlast size_str)
            else (1, size_str))
         in Some (case fl_TryParse_size_t fl view of
                    None \<Rightarrow> None
                  | Some n \<Rightarrow> Some ((n * scale) mod 2 ^ 64))))"

datatype ActionOnMisplacedEntry = ActionDelete | ActionMove | ActionIgnore

definition ParseActionOnMisplacedEntry :: "string \<Rightarrow> ActionOnMisplacedEntry option" where
  "ParseActionOnMisplacedEntry config =
     (if config = ''move'' then Some ActionMove
      else if config = ''delete'' then Some ActionDelete
      else if config = ''ignore'' then Some ActionIgnore
      else None)"

fun ParseCacheDirs_loop :: "flare \<Rightarrow> string list \<Rightarrow> (string \<times> nat) list option" where
  "ParseCacheDirs_loop fl [] = Some []"
| "ParseCacheDirs_loop fl (e # es) =
     (case fl_Split fl e CHR '','' False of
        [sz, dir] \<Rightarrow>
          (case TryParseSize fl sz of
             Some (Some n) \<Rightarrow> map_option (Cons (dir, n)) (ParseCacheDirs_loop fl es)
           | _ \<Rightarrow> None)
      | _ \<Rightarrow> None)"

definition ParseCacheDirs :: "flare \<Rightarrow> string \<Rightarrow> (string \<times> nat) list option" where
  "ParseCacheDirs fl dirs = ParseCacheDirs_loop fl (fl_Split fl dirs CHR '':'' False)"

section \<open>Lemmas\<close>

lemma TryParseSize_bound:
  "TryParseSize fl s = Some (Some n) \<Longrightarrow> n < 2 ^ 64"
  by (auto simp: TryParseSize_def Let_def split: if_splits option.splits)

text \<open>The scale a size suffix stands for.\<close>

definition size_suffix_scale :: "char \<Rightarrow> nat" where
  "size_suffix_scale c =
     (if c = CHR ''G'' then 2 ^ 30 else if c = CHR ''M'' then 2 ^ 20
      else if c = CHR ''K'' then 2 ^ 10 else 1)"

lemma TryParseSize_suffixed_aux:
  assumes "flare_strings fl" "n < 2 ^ 64" "c \<in> set ''GMKB''"
  shows "TryParseSize fl (to_string n @ [c]) = Some (Some ((n * size_suffix_scale c) mod 2 ^ 64))"
  using flare_strings.TryParse_to_string [OF assms(1,2)] assms(3)
  by (auto simp: TryParseSize_def size_suffix_scale_def)

lemma last_to_string_digit: "digit_value (last (to_string n)) \<noteq> None"
  by (rule digit_value_to_string [of _ n]) simp

lemma TryParseSize_plain_aux:
  assumes "flare_strings fl" "n < 2 ^ 64"
  shows "TryParseSize fl (to_string n) = Some (Some n)"
proof -
  have "last (to_string n) \<notin> set ''GMKB''"
    using last_to_string_digit [of n] digit_value_special by auto
  then show ?thesis
    using flare_strings.TryParse_to_string [OF assms] assms(2)
    by (simp add: TryParseSize_def)
qed

lemma ParseCacheDirs_loop_bounds:
  "ParseCacheDirs_loop fl es = Some ds \<Longrightarrow>
   length ds = length es \<and> (\<forall>d\<in>set ds. snd d < 2 ^ 64)"
proof (induction es arbitrary: ds)
  case (Cons e es)
  then obtain sz dir n ds' where
    "TryParseSize fl sz = Some (Some n)" "ParseCacheDirs_loop fl es = Some ds'" "ds = (dir, n) # ds'"
    by (auto split: list.splits option.splits)
  then show ?case using Cons.IH [of ds'] TryParseSize_bound by auto
qed simp

end
