(* ===== verification/Double_Arith.thy ===== *)
theory Double_Arith
  imports Complex_Main Yadcc_Prelude
begin

text \<open>
  Arithmetic on \<open>double\<close>. A finite double is a rational; every operation computes the exact
  result and rounds it. The rounding is the field \<open>dbl_round\<close>, and \<open>dbl_infinity\<close> is what the
  conversion of an infinite value to \<open>std::size_t\<close> yields (undefined in C++).
\<close>

record double_ops =
  dbl_round :: "rat \<Rightarrow> rat"
  dbl_infinity :: nat

text \<open>What IEEE 754 promises of rounding to nearest: it is monotone, and integers up to two to the
  power 53 are exact.\<close>

definition ieee_rounding :: "double_ops \<Rightarrow> bool" where
  "ieee_rounding dbl \<longleftrightarrow> (\<forall>x y. x \<le> y \<longrightarrow> dbl_round dbl x \<le> dbl_round dbl y)
     \<and> (\<forall>n::nat. n \<le> 2 ^ 53 \<longrightarrow> dbl_round dbl (of_nat n) = of_nat n)"

lemma ieee_rounding_mono: "ieee_rounding dbl \<Longrightarrow> x \<le> y \<Longrightarrow> dbl_round dbl x \<le> dbl_round dbl y"
  by (simp add: ieee_rounding_def)

lemma ieee_rounding_exact: "ieee_rounding dbl \<Longrightarrow> n \<le> 2 ^ 53 \<Longrightarrow> dbl_round dbl (of_nat n) = of_nat n"
  by (simp add: ieee_rounding_def)

definition exact_double :: double_ops where
  "exact_double = \<lparr>dbl_round = (\<lambda>x. x), dbl_infinity = 0\<rparr>"

lemma ieee_rounding_exact_double: "ieee_rounding exact_double"
  by (simp add: ieee_rounding_def exact_double_def)

end
