(* ===== verification/Disk_Cache.thy ===== *)
theory Disk_Cache
  imports Posix_Fs Consistent_Hash Parse_Size Double_Arith "HOL-Library.List_Lexorder"
begin

text \<open>
  The file-based cache shared by the cache server and the daemon (\<^verbatim>\<open>common/disk_cache.cc\<close>): entries
  live in files below the shard directories, in a fixed number of levels of numbered
  subdirectories; the path of a key is a function of the key.

  The object acts on the file system, which is the field \<open>dc_fs\<close> of its state. \<open>None\<close> is an abort:
  a failed \<open>FLARE_CHECK\<close> or \<open>FLARE_PCHECK\<close>, \<open>at()\<close> on an absent key, a division by zero. The
  locks (one per directory, one per entry) make each operation atomic. \<open>now\<close> is the clock of
  the file system and of the process; \<open>pad\<close> is the indeterminate padding of the file header;
  \<open>open_ok\<close> and \<open>read_ok\<close> say whether creating and reading a file succeeds, since the code
  goes on when they fail. Numbers of subdirectories are taken to fit an \<open>int\<close>, and the sum of
  the sizes of the files below a shard 64 bits.
\<close>

section \<open>Data\<close>

record DiskCacheOptions =
  do_shards :: "(string \<times> nat) list"
  do_action_on_misplaced_cache_entry :: ActionOnMisplacedEntry
  do_sub_dir_level :: nat
  do_sub_dirs :: nat

record EntryDesc =
  ed_file_size :: nat
  ed_last_accessed :: time_point

type_synonym EntriesInDir = "(string, EntryDesc) umap"

record DiskCache =
  dc_options :: DiskCacheOptions
  dc_shard_mapper :: ConsistentHash
  dc_entries_per_dir :: "(string, EntriesInDir) umap"
  dc_shard_hits :: "(string, nat) umap"
  dc_cache_fills :: nat
  dc_cache_hits :: nat
  dc_cache_misses :: nat
  dc_cache_overwrites :: nat
  dc_fs :: filesystem

record FileInfo =
  fi_path :: string
  fi_size :: nat
  fi_last_used :: time_point

section \<open>Keys, paths and headers\<close>

definition MarshalKey :: "flare \<Rightarrow> string \<Rightarrow> string" where
  "MarshalKey fl key = fl_EncodePercent fl key"

definition GetKeyFromPath :: "flare \<Rightarrow> string \<Rightarrow> string option" where
  "GetKeyFromPath fl path =
     (if slash \<in> set path then fl_DecodePercent fl (after_last_slash path) else None)"

fun GetSubdirsFor :: "nat \<Rightarrow> nat \<Rightarrow> nat \<Rightarrow> nat list" where
  "GetSubdirsFor hash 0 sub_dirs = []"
| "GetSubdirsFor hash (Suc level) sub_dirs = hash mod sub_dirs # GetSubdirsFor (hash div sub_dirs) level sub_dirs"

definition WriteFileHeader :: "flare \<Rightarrow> bytes \<Rightarrow> bytes \<Rightarrow> bytes" where
  "WriteFileHeader fl pad buffer = take 32 (fl_Blake3 fl buffer) @ pad"

definition VerifyEntryAndCutHeader :: "flare \<Rightarrow> bytes \<Rightarrow> bytes option" where
  "VerifyEntryAndCutHeader fl buffer =
     (if length buffer < 64 then None
      else if take 32 buffer \<noteq> fl_Blake3 fl (drop 64 buffer) then None
      else Some (drop 64 buffer))"

section \<open>Enumerating the workspace\<close>

text \<open>One entry of a directory: what happens to the list of elements and to the file system.\<close>

definition Sanitize_entry ::
  "bool \<Rightarrow> string \<Rightarrow> DirEntry \<Rightarrow> string list \<times> filesystem \<Rightarrow> (string list \<times> filesystem) option" where
  "Sanitize_entry at_file_level e ee st =
     (let full_name = e @ slash # de_name ee in
      if at_file_level \<and> de_is_dir ee then map_option (Pair (fst st)) (RemoveDirs full_name (snd st))
      else if \<not> at_file_level \<and> \<not> de_is_dir ee then map_option (Pair (fst st)) (fs_unlink full_name (snd st))
      else Some (fst st @ [full_name], snd st))"

definition Sanitize_dir ::
  "bool \<Rightarrow> string \<Rightarrow> string list \<times> filesystem \<Rightarrow> (string list \<times> filesystem) option" where
  "Sanitize_dir at_file_level e st =
     (case EnumerateDir e (snd st) of
        None \<Rightarrow> None
      | Some subs \<Rightarrow> run_calls (Sanitize_entry at_file_level e) subs st)"

fun Sanitize_levels :: "nat \<Rightarrow> string list \<Rightarrow> filesystem \<Rightarrow> (string list \<times> filesystem) option" where
  "Sanitize_levels 0 dirs fs = Some (dirs, fs)"
| "Sanitize_levels (Suc r) dirs fs =
     (case run_calls (Sanitize_dir (r = 0)) dirs ([], fs) of
        None \<Rightarrow> None
      | Some (elements, fs') \<Rightarrow> Sanitize_levels r elements fs')"

definition SanitizeWorkspaceAndEnumerate :: "string \<Rightarrow> nat \<Rightarrow> filesystem \<Rightarrow> (string list \<times> filesystem) option" where
  "SanitizeWorkspaceAndEnumerate dir sub_dir_level fs = Sanitize_levels (sub_dir_level + 1) [dir] fs"

text \<open>\<open>lstat\<close>; the size of a directory is not used. Modification times have whole seconds.\<close>

definition GetFileInfo :: "string \<Rightarrow> filesystem \<Rightarrow> FileInfo option" where
  "GetFileInfo path fs =
     (case map_of fs path of
        None \<Rightarrow> None
      | Some Directory \<Rightarrow> Some \<lparr>fi_path = path, fi_size = 0, fi_last_used = 0\<rparr>
      | Some (FileNode _ b m) \<Rightarrow>
          Some \<lparr>fi_path = path, fi_size = length b, fi_last_used = seconds (m div seconds 1)\<rparr>)"

fun GetFileInfos :: "string list \<Rightarrow> filesystem \<Rightarrow> FileInfo list option" where
  "GetFileInfos [] fs = Some []"
| "GetFileInfos (e # es) fs =
     (case GetFileInfo e fs of
        None \<Rightarrow> None
      | Some i \<Rightarrow> map_option (Cons i) (GetFileInfos es fs))"

definition EnumerateCacheEntries :: "string \<Rightarrow> nat \<Rightarrow> filesystem \<Rightarrow> (FileInfo list \<times> filesystem) option" where
  "EnumerateCacheEntries path sub_dir_level fs =
     (case SanitizeWorkspaceAndEnumerate path sub_dir_level fs of
        None \<Rightarrow> None
      | Some (es, fs') \<Rightarrow> map_option (\<lambda>is. (is, fs')) (GetFileInfos es fs'))"

section \<open>Mapping keys to paths\<close>

text \<open>A \<open>std::map\<close> is sorted by its keys; a repeated directory keeps its last weight.\<close>

fun weighted_set :: "string \<Rightarrow> nat \<Rightarrow> (string \<times> nat) list \<Rightarrow> (string \<times> nat) list" where
  "weighted_set d w [] = [(d, w)]"
| "weighted_set d w ((d', w') # m) =
     (if d = d' then (d, w) # m else if d < d' then (d, w) # (d', w') # m else (d', w') # weighted_set d w m)"

definition weight_of_size :: "nat \<Rightarrow> nat" where
  "weight_of_size dir_size = (let weight = drop_bit 7 (drop_bit 20 dir_size) in if weight = 0 then 1 else weight)"

definition GetWeightedDirs :: "(string \<times> nat) list \<Rightarrow> (string \<times> nat) list" where
  "GetWeightedDirs directories = fold (\<lambda>(dir, dir_size). weighted_set dir (weight_of_size dir_size)) directories []"

definition path_in_shard :: "string \<Rightarrow> nat list \<Rightarrow> string" where
  "path_in_shard shard subdirs = shard @ concat (map (\<lambda>e. slash # to_string e) subdirs)"

text \<open>The outer option is the abort (an empty ring, or a remainder by zero), the inner one the
  result. The recording of shard hits is \<open>record_shard_hit\<close>.\<close>

definition TryGetPathOfKey :: "flare \<Rightarrow> string \<Rightarrow> DiskCache \<Rightarrow> string option option" where
  "TryGetPathOfKey fl key s =
     (let marshalled = MarshalKey fl key; hash = fl_XXH64 fl key;
          level = do_sub_dir_level (dc_options s); sub_dirs = do_sub_dirs (dc_options s) in
      if length marshalled > 4096 then Some None
      else if sub_dirs = 0 \<and> level \<noteq> 0 then None
      else
        (case GetNode (dc_shard_mapper s) hash of
           None \<Rightarrow> None
         | Some shard \<Rightarrow>
             Some (Some (path_in_shard shard (GetSubdirsFor hash level sub_dirs) @ slash # marshalled))))"

definition record_shard_hit :: "flare \<Rightarrow> string \<Rightarrow> DiskCache \<Rightarrow> DiskCache option" where
  "record_shard_hit fl key s =
     (case GetNode (dc_shard_mapper s) (fl_XXH64 fl key) of
        None \<Rightarrow> None
      | Some shard \<Rightarrow>
          (if map_of (dc_shard_hits s) shard = None then None
           else Some (s\<lparr>dc_shard_hits := umap_modify shard Suc (dc_shard_hits s)\<rparr>)))"

section \<open>Start up\<close>

definition expand_level :: "nat \<Rightarrow> string list \<Rightarrow> string list" where
  "expand_level sub_dirs dirs = concat (map (\<lambda>e. map (\<lambda>i. e @ slash # to_string i) [0..<sub_dirs]) dirs)"

definition leaf_dirs :: "nat \<Rightarrow> nat \<Rightarrow> string \<Rightarrow> string list" where
  "leaf_dirs level sub_dirs path = (expand_level sub_dirs ^^ level) [path]"

definition InitializeWorkspaceAt :: "string \<Rightarrow> DiskCache \<Rightarrow> DiskCache option" where
  "InitializeWorkspaceAt path s =
     (let dirs = leaf_dirs (do_sub_dir_level (dc_options s)) (do_sub_dirs (dc_options s)) path;
          s1 = (if do_sub_dir_level (dc_options s) = 0 then s
                else s\<lparr>dc_entries_per_dir := fold (\<lambda>d. umap_set d []) dirs (dc_entries_per_dir s)\<rparr>)
      in case run_calls Mkdirs dirs (dc_fs s1) of
           None \<Rightarrow> None
         | Some fs' \<Rightarrow> Some (s1\<lparr>dc_fs := fs'\<rparr>))"

definition record_loaded :: "string \<Rightarrow> string \<Rightarrow> FileInfo \<Rightarrow> DiskCache \<Rightarrow> DiskCache option" where
  "record_loaded dir key file s =
     (case map_of (dc_entries_per_dir s) dir of
        None \<Rightarrow> None
      | Some es \<Rightarrow>
          Some (s\<lparr>dc_entries_per_dir :=
                    umap_set dir (umap_set key \<lparr>ed_file_size = fi_size file, ed_last_accessed = fi_last_used file\<rparr> es)
                      (dc_entries_per_dir s)\<rparr>))"

definition LoadEntry :: "flare \<Rightarrow> FileInfo \<Rightarrow> DiskCache \<Rightarrow> DiskCache option" where
  "LoadEntry fl file s =
     (case GetKeyFromPath fl (fi_path file) of
        None \<Rightarrow> Some s
      | Some key \<Rightarrow>
          (case TryGetPathOfKey fl key s of
             None \<Rightarrow> None
           | Some None \<Rightarrow> Some s
           | Some (Some dst_path) \<Rightarrow>
               (case (GetDirectoryName dst_path, GetDirectoryName (fi_path file)) of
                  (Some dst_dir, Some dir) \<Rightarrow>
                    (if dst_dir \<noteq> dir then
                       (case do_action_on_misplaced_cache_entry (dc_options s) of
                          ActionMove \<Rightarrow>
                            (case fs_rename (fi_path file) dst_path (dc_fs s) of
                               None \<Rightarrow> None
                             | Some fs' \<Rightarrow> record_loaded dst_dir key file (s\<lparr>dc_fs := fs'\<rparr>))
                        | ActionDelete \<Rightarrow>
                            (case fs_unlink (fi_path file) (dc_fs s) of
                               None \<Rightarrow> None
                             | Some fs' \<Rightarrow> Some (s\<lparr>dc_fs := fs'\<rparr>))
                        | ActionIgnore \<Rightarrow> Some s)
                     else record_loaded dir key file s)
                | _ \<Rightarrow> None)))"

definition LoadShard :: "flare \<Rightarrow> string \<Rightarrow> DiskCache \<Rightarrow> DiskCache option" where
  "LoadShard fl path s =
     (case EnumerateCacheEntries path (do_sub_dir_level (dc_options s)) (dc_fs s) of
        None \<Rightarrow> None
      | Some (files, fs') \<Rightarrow> run_calls (LoadEntry fl) files (s\<lparr>dc_fs := fs'\<rparr>))"

definition InitializeShard :: "string \<Rightarrow> DiskCache \<Rightarrow> DiskCache option" where
  "InitializeShard path s =
     map_option (\<lambda>s1. s1\<lparr>dc_shard_hits := umap_set path 0 (dc_shard_hits s1)\<rparr>) (InitializeWorkspaceAt path s)"

definition DiskCache_ctor :: "flare \<Rightarrow> DiskCacheOptions \<Rightarrow> filesystem \<Rightarrow> DiskCache option" where
  "DiskCache_ctor fl options fs =
     (case ConsistentHash_ctor fl (GetWeightedDirs (do_shards options)) of
        None \<Rightarrow> None
      | Some ring \<Rightarrow>
          (let s0 = \<lparr>dc_options = options, dc_shard_mapper = ring, dc_entries_per_dir = [], dc_shard_hits = [],
                     dc_cache_fills = 0, dc_cache_hits = 0, dc_cache_misses = 0, dc_cache_overwrites = 0, dc_fs = fs\<rparr>
           in do {
                s1 \<leftarrow> run_calls InitializeShard (umap_keys (do_shards options)) s0;
                run_calls (LoadShard fl) (umap_keys (do_shards options)) s1
              }))"

section \<open>Operations\<close>

definition GetEntryKeysSnapshot :: "DiskCache \<Rightarrow> (string, (string \<times> nat) list) umap" where
  "GetEntryKeysSnapshot s =
     map (\<lambda>(d, es). (d, map (\<lambda>(k, e). (k, ed_file_size e)) es)) (filter (\<lambda>e. snd e \<noteq> []) (dc_entries_per_dir s))"

definition GetKeyAndByteSizePerDir :: "DiskCache \<Rightarrow> (string, nat \<times> nat) umap" where
  "GetKeyAndByteSizePerDir s =
     map (\<lambda>(d, es). (d, (length es, sum_list (map (ed_file_size \<circ> snd) es)))) (dc_entries_per_dir s)"

definition dc_GetKeys :: "DiskCache \<Rightarrow> string list" where
  "dc_GetKeys s = concat (map (\<lambda>e. map fst (snd e)) (GetEntryKeysSnapshot s))"

definition touch :: "time_point \<Rightarrow> fs_node \<Rightarrow> fs_node" where
  "touch now n = (case n of Directory \<Rightarrow> Directory | FileNode t b _ \<Rightarrow> FileNode t b now)"

definition modify_entries :: "string \<Rightarrow> (EntriesInDir \<Rightarrow> EntriesInDir) \<Rightarrow> DiskCache \<Rightarrow> DiskCache" where
  "modify_entries dir f s = s\<lparr>dc_entries_per_dir := umap_modify dir f (dc_entries_per_dir s)\<rparr>"

definition dc_TryGet ::
  "flare \<Rightarrow> bool \<Rightarrow> time_point \<Rightarrow> string \<Rightarrow> DiskCache \<Rightarrow> (bytes option \<times> DiskCache) option" where
  "dc_TryGet fl read_ok now key s =
     (case TryGetPathOfKey fl key s of
        None \<Rightarrow> None
      | Some None \<Rightarrow> Some (None, s)
      | Some (Some path) \<Rightarrow>
          do {
            s1 \<leftarrow> record_shard_hit fl key s;
            dir \<leftarrow> GetDirectoryName path;
            es \<leftarrow> map_of (dc_entries_per_dir s1) dir;
            (if map_of es key = None then Some (None, s1\<lparr>dc_cache_misses := dc_cache_misses s1 + 1\<rparr>)
             else
               (case map_of (dc_fs s1) path of
                  None \<Rightarrow> None
                | Some node \<Rightarrow>
                    (let s2 = modify_entries dir (umap_modify key (\<lambda>e. e\<lparr>ed_last_accessed := now\<rparr>))
                                (s1\<lparr>dc_fs := umap_modify path (touch now) (dc_fs s1)\<rparr>)
                     in if \<not> read_ok \<or> node = Directory then Some (None, s2)
                        else
                          (case VerifyEntryAndCutHeader fl (node_bytes node) of
                             None \<Rightarrow> Some (None, s2)
                           | Some buffer \<Rightarrow> Some (Some buffer, s2\<lparr>dc_cache_hits := dc_cache_hits s2 + 1\<rparr>)))))
          })"

text \<open>\<open>CreateEntryLocked\<close>: whether the file could be created, and the new state.\<close>

definition CreateEntryLocked :: "bool \<Rightarrow> time_point \<Rightarrow> string \<Rightarrow> string \<Rightarrow> DiskCache \<Rightarrow> (bool \<times> DiskCache) option" where
  "CreateEntryLocked open_ok now key path s =
     do {
       dir \<leftarrow> GetDirectoryName path;
       es \<leftarrow> map_of (dc_entries_per_dir s) dir;
       let s1 = (if map_of es key = None
                 then modify_entries dir (umap_set key \<lparr>ed_file_size = 0, ed_last_accessed = now\<rparr>) s
                 else s\<lparr>dc_cache_overwrites := dc_cache_overwrites s + 1\<rparr>);
       (if open_ok \<and> can_create path (dc_fs s1)
        then Some (True, s1\<lparr>dc_fs := umap_set path (FileNode DT_REG [] now) (dc_fs s1)\<rparr>)
        else Some (False, modify_entries dir (umap_erase key) s1))
     }"

definition dc_Put ::
  "flare \<Rightarrow> bool \<Rightarrow> bytes \<Rightarrow> time_point \<Rightarrow> string \<Rightarrow> bytes \<Rightarrow> DiskCache \<Rightarrow> DiskCache option" where
  "dc_Put fl open_ok pad now key bytes s =
     (case TryGetPathOfKey fl key s of
        None \<Rightarrow> None
      | Some None \<Rightarrow> Some s
      | Some (Some path) \<Rightarrow>
          do {
            (created, s1) \<leftarrow> CreateEntryLocked open_ok now key path s;
            (if \<not> created then Some s1
             else
               do {
                 let header = WriteFileHeader fl pad bytes;
                 dir \<leftarrow> GetDirectoryName path;
                 Some (modify_entries dir (umap_modify key (\<lambda>e. e\<lparr>ed_file_size := length header + length bytes\<rparr>))
                         (s1\<lparr>dc_fs := umap_set path (FileNode DT_REG (header @ bytes) now) (dc_fs s1),
                             dc_cache_fills := dc_cache_fills s1 + 1\<rparr>))
               })
          })"

section \<open>Purging\<close>

definition below_discard_threshold :: "double_ops \<Rightarrow> nat \<Rightarrow> nat \<Rightarrow> bool" where
  "below_discard_threshold dbl total_used size_limit \<longleftrightarrow>
     dbl_round dbl (of_nat total_used)
       < dbl_round dbl (dbl_round dbl (of_nat size_limit) * dbl_round dbl (95 / 100))"

definition PurgeFile :: "flare \<Rightarrow> FileInfo \<Rightarrow> string list \<times> DiskCache \<Rightarrow> (string list \<times> DiskCache) option" where
  "PurgeFile fl e st =
     (let s = snd st; key = GetKeyFromPath fl (fi_path e) in
      case GetDirectoryName (fi_path e) of
        None \<Rightarrow> None
      | Some path \<Rightarrow>
          (case fs_unlink (fi_path e) (dc_fs s) of
             None \<Rightarrow> None
           | Some fs' \<Rightarrow>
               (case (key, map_of (dc_entries_per_dir s) path) of
                  (Some k, Some es) \<Rightarrow>
                    (if map_of es k \<noteq> None
                     then Some (fst st @ [k], modify_entries path (umap_erase k) (s\<lparr>dc_fs := fs'\<rparr>))
                     else Some (fst st, s\<lparr>dc_fs := fs'\<rparr>))
                | _ \<Rightarrow> Some (fst st, s\<lparr>dc_fs := fs'\<rparr>))))"

fun PurgeFiles ::
  "flare \<Rightarrow> double_ops \<Rightarrow> nat \<Rightarrow> FileInfo list \<Rightarrow> nat \<Rightarrow> string list \<times> DiskCache \<Rightarrow> (string list \<times> DiskCache) option" where
  "PurgeFiles fl dbl size_limit [] total_used st = Some st"
| "PurgeFiles fl dbl size_limit (e # files) total_used st =
     (if below_discard_threshold dbl total_used size_limit then Some st
      else
        (case PurgeFile fl e st of
           None \<Rightarrow> None
         | Some st' \<Rightarrow> PurgeFiles fl dbl size_limit files (total_used - fi_size e) st'))"

definition PurgeCacheAt ::
  "flare \<Rightarrow> double_ops \<Rightarrow> string \<Rightarrow> nat \<Rightarrow> DiskCache \<Rightarrow> (string list \<times> DiskCache) option" where
  "PurgeCacheAt fl dbl path size_limit s =
     (case EnumerateCacheEntries path (do_sub_dir_level (dc_options s)) (dc_fs s) of
        None \<Rightarrow> None
      | Some (files, fs') \<Rightarrow>
          PurgeFiles fl dbl size_limit (sort_key fi_last_used files) (sum_list (map fi_size files)) ([], s\<lparr>dc_fs := fs'\<rparr>))"

definition dc_Purge :: "flare \<Rightarrow> double_ops \<Rightarrow> DiskCache \<Rightarrow> DiskCache option" where
  "dc_Purge fl dbl s =
     run_calls (\<lambda>(path, limit) s. map_option snd (PurgeCacheAt fl dbl path limit s)) (do_shards (dc_options s)) s"

section \<open>Statistics\<close>

text \<open>What \<open>DumpInternals\<close> reports: fills, hits, misses, overwrites; per shard its capacity, hits,
  entries and bytes; and the total number of entries. A directory counts for the first shard
  whose path is a prefix of it.\<close>

definition shard_of_dir :: "flare \<Rightarrow> DiskCache \<Rightarrow> string \<Rightarrow> string option" where
  "shard_of_dir fl s dir =
     map_option fst (find (\<lambda>d. fl_StartsWith fl dir (fst d)) (do_shards (dc_options s)))"

definition shard_usage :: "flare \<Rightarrow> DiskCache \<Rightarrow> string \<Rightarrow> nat \<times> nat" where
  "shard_usage fl s shard =
     (let mine = filter (\<lambda>e. shard_of_dir fl s (fst e) = Some shard) (GetKeyAndByteSizePerDir s)
      in (sum_list (map (fst \<circ> snd) mine), sum_list (map (snd \<circ> snd) mine)))"

definition dc_DumpInternals ::
  "flare \<Rightarrow> DiskCache \<Rightarrow> ((nat \<times> nat \<times> nat \<times> nat) \<times> (string \<times> nat \<times> nat \<times> nat \<times> nat) list \<times> nat) option" where
  "dc_DumpInternals fl s =
     (if \<exists>e\<in>set (do_shards (dc_options s)). map_of (dc_shard_hits s) (fst e) = None then None
      else
        Some ((dc_cache_fills s, dc_cache_hits s, dc_cache_misses s, dc_cache_overwrites s),
              map (\<lambda>(shard, capacity).
                     (shard, capacity, the (map_of (dc_shard_hits s) shard), fst (shard_usage fl s shard),
                      snd (shard_usage fl s shard)))
                (do_shards (dc_options s)),
              sum_list (map (\<lambda>(shard, _). fst (shard_usage fl s shard)) (do_shards (dc_options s)))))"

end
