(* ===== verification/Disk_Cache_Sanitize.thy ===== *)
theory Disk_Cache_Sanitize
  imports Disk_Cache
begin

text \<open>
  What enumerating a shard does to the file system: it never aborts on a well-formed file system,
  it removes only foreign nodes, and it returns exactly the files at the file level.
\<close>

section \<open>File types\<close>

text \<open>No node is taken for a directory by the bit test of \<open>EnumerateDir\<close> without being one
  (sockets and block devices would be).\<close>

definition types_ok :: "filesystem \<Rightarrow> bool" where
  "types_ok fs \<longleftrightarrow> (\<forall>e\<in>set fs. type_bits (d_type (snd e)) 4 \<longleftrightarrow> snd e = Directory)"

lemma types_ok_map_of: "types_ok fs \<Longrightarrow> map_of fs p = Some n \<Longrightarrow> type_bits (d_type n) 4 \<longleftrightarrow> n = Directory"
  by (auto simp: types_ok_def dest!: map_of_SomeD)

lemma types_ok_prune: "types_ok fs \<Longrightarrow> types_ok (prune c fs)"
  by (auto simp: types_ok_def prune_def)

lemma types_ok_fold_prune: "types_ok fs \<Longrightarrow> types_ok (fold prune cs fs)"
  by (induction cs arbitrary: fs) (auto intro: types_ok_prune)

lemma fs_wf_fold_prune: "fs_wf fs \<Longrightarrow> fs_wf (fold prune cs fs)"
  by (induction cs arbitrary: fs) (auto intro: fs_wf_prune)

lemma is_directory_fold_prune:
  "(\<forall>c\<in>set cs. p \<noteq> c \<and> \<not> under c p) \<Longrightarrow> map_of (fold prune cs fs) p = map_of fs p"
  by (simp add: map_of_fold_prune)

section \<open>One directory\<close>

definition children :: "string \<Rightarrow> filesystem \<Rightarrow> string list" where
  "children d fs = map (\<lambda>e. d @ slash # fst e) (readdir d fs)"

lemma set_children:
  assumes "fs_wf fs"
  shows "p \<in> set (children d fs) \<longleftrightarrow> (\<exists>x. p = d @ slash # x \<and> slash \<notin> set x \<and> x \<noteq> []) \<and> map_of fs p \<noteq> None"
proof -
  have "p \<in> set (children d fs) \<longleftrightarrow> (\<exists>x\<in>fst ` set (readdir d fs). p = d @ slash # x)"
    by (auto simp: children_def)
  also have "\<dots> \<longleftrightarrow> (\<exists>x. p = d @ slash # x \<and> slash \<notin> set x \<and> x \<noteq> []) \<and> map_of fs p \<noteq> None"
    using children_of_readdir [OF assms] by blast
  finally show ?thesis .
qed

lemma distinct_children: "fs_wf fs \<Longrightarrow> distinct (children d fs)"
proof -
  assume "fs_wf fs"
  from distinct_readdir [OF fs_wf_distinct [OF this], of d]
  have "distinct (map (\<lambda>x. d @ slash # x) (map fst (readdir d fs)))"
    by (subst distinct_map) (auto simp: inj_on_def)
  then show ?thesis by (simp add: children_def comp_def)
qed

lemma children_slashes: "p \<in> set (children d fs) \<Longrightarrow> slashes p = Suc (slashes d)"
  by (auto simp: children_def set_readdir slashes_0)

lemma readdir_prune:
  "(\<And>x. slash \<notin> set x \<Longrightarrow> d @ slash # x \<noteq> c \<and> \<not> under c (d @ slash # x)) \<Longrightarrow> readdir d (prune c fs) = readdir d fs"
proof (induction fs)
  case (Cons e fs)
  obtain p n where e: "e = (p, n)" by (cases e)
  show ?case
  proof (cases "child_name d p")
    case None
    with Cons e show ?thesis by (auto simp: prune_def)
  next
    case (Some x)
    then have "p \<noteq> c \<and> \<not> under c p" using Cons.prems by (auto simp: child_name_iff)
    with Some Cons e show ?thesis by (auto simp: prune_def)
  qed
qed (simp add: prune_def)

lemma readdir_fold_prune:
  assumes "\<And>c x. c \<in> set cs \<Longrightarrow> slash \<notin> set x \<Longrightarrow> d @ slash # x \<noteq> c \<and> \<not> under c (d @ slash # x)"
  shows "readdir d (fold prune cs fs) = readdir d fs"
  using assms by (induction cs arbitrary: fs) (auto simp: readdir_prune)

lemma Sanitize_entry_eq:
  assumes "fs_wf fs" "map_of fs (e @ slash # x) = Some n" "type_bits t 4 \<longleftrightarrow> n = Directory"
  shows "Sanitize_entry flag e (make_DirEntry (x, t)) (els, fs) =
    Some (if is_directory fs (e @ slash # x) = flag then (els, prune (e @ slash # x) fs) else (els @ [e @ slash # x], fs))"
proof (cases "n = Directory")
  case True
  with assms have "is_directory fs (e @ slash # x)" by (simp add: is_directory_def)
  with assms True show ?thesis
    using RemoveDirs_correct [OF assms(1)] by (simp add: Sanitize_entry_def make_DirEntry_def Let_def)
next
  case False
  with assms(2) have "is_file fs (e @ slash # x)" "\<not> is_directory fs (e @ slash # x)"
    using is_file_or_directory [of fs "e @ slash # x"] by (auto simp: is_directory_def)
  with assms False show ?thesis
    using prune_file [OF assms(1)]
    by (simp add: Sanitize_entry_def make_DirEntry_def Let_def fs_unlink_def)
qed

abbreviation dropped :: "bool \<Rightarrow> filesystem \<Rightarrow> string list \<Rightarrow> string list" where
  "dropped flag fs ps \<equiv> filter (\<lambda>p. is_directory fs p = flag) ps"

abbreviation kept :: "bool \<Rightarrow> filesystem \<Rightarrow> string list \<Rightarrow> string list" where
  "kept flag fs ps \<equiv> filter (\<lambda>p. is_directory fs p \<noteq> flag) ps"

lemma Sanitize_entries_eq:
  assumes "fs_wf fs" "distinct (map fst ents)"
    and "\<forall>(x, t)\<in>set ents. slash \<notin> set x \<and> (\<exists>n. map_of fs (e @ slash # x) = Some n \<and> (type_bits t 4 \<longleftrightarrow> n = Directory))"
  shows "run_calls (Sanitize_entry flag e) (map make_DirEntry ents) (els, fs) =
    Some (els @ kept flag fs (map (\<lambda>y. e @ slash # fst y) ents), fold prune (dropped flag fs (map (\<lambda>y. e @ slash # fst y) ents)) fs)"
  using assms
proof (induction ents arbitrary: els fs)
  case (Cons y ents)
  obtain x t where y: "y = (x, t)" by (cases y)
  let ?c = "e @ slash # x"
  from Cons.prems(3) y obtain n where n: "map_of fs ?c = Some n" "type_bits t 4 \<longleftrightarrow> n = Directory" by auto
  note st = Sanitize_entry_eq [OF Cons.prems(1) n]
  show ?case
  proof (cases "is_directory fs ?c = flag")
    case False
    with Cons.IH [of fs "els @ [?c]"] Cons.prems st y show ?thesis by simp
  next
    case True
    let ?fs = "prune ?c fs"
    have same: "map_of ?fs (e @ slash # z) = map_of fs (e @ slash # z)" if "z \<in> fst ` set ents" for z
    proof -
      have "slash \<notin> set z" "z \<noteq> x" using that Cons.prems(2,3) y by auto
      then show ?thesis using siblings_not_under by (simp add: map_of_prune)
    qed
    have "run_calls (Sanitize_entry flag e) (map make_DirEntry ents) (els, ?fs) =
      Some (els @ kept flag ?fs (map (\<lambda>y. e @ slash # fst y) ents), fold prune (dropped flag ?fs (map (\<lambda>y. e @ slash # fst y) ents)) ?fs)"
    proof (rule Cons.IH)
      show "\<forall>(x, t)\<in>set ents. slash \<notin> set x \<and> (\<exists>n. map_of ?fs (e @ slash # x) = Some n \<and> (type_bits t 4 \<longleftrightarrow> n = Directory))"
      proof (intro ballI)
        fix z assume z: "z \<in> set ents"
        then have "map_of ?fs (e @ slash # fst z) = map_of fs (e @ slash # fst z)" using same by blast
        moreover have "case z of (x, t) \<Rightarrow> slash \<notin> set x \<and> (\<exists>n. map_of fs (e @ slash # x) = Some n \<and> (type_bits t 4 \<longleftrightarrow> n = Directory))"
          using Cons.prems(3) z by simp
        ultimately show "case z of (x, t) \<Rightarrow> slash \<notin> set x \<and> (\<exists>n. map_of ?fs (e @ slash # x) = Some n \<and> (type_bits t 4 \<longleftrightarrow> n = Directory))"
          by (simp add: split_def)
      qed
    qed (use Cons.prems in \<open>auto simp: fs_wf_prune\<close>)
    moreover have "is_directory ?fs p = is_directory fs p" if pin: "p \<in> set (map (\<lambda>y. e @ slash # fst y) ents)" for p
    proof -
      obtain z where "z \<in> set ents" "p = e @ slash # fst z" using pin by auto
      then show ?thesis using same [of "fst z"] by (simp add: is_directory_def)
    qed
    then have "kept flag ?fs (map (\<lambda>y. e @ slash # fst y) ents) = kept flag fs (map (\<lambda>y. e @ slash # fst y) ents)"
      "dropped flag ?fs (map (\<lambda>y. e @ slash # fst y) ents) = dropped flag fs (map (\<lambda>y. e @ slash # fst y) ents)"
      by (auto intro!: filter_cong)
    ultimately show ?thesis using True st y by simp
  qed
qed simp

lemma Sanitize_dir_eq:
  assumes "fs_wf fs" "types_ok fs" "is_directory fs e"
  shows "Sanitize_dir flag e (els, fs) = Some (els @ kept flag fs (children e fs), fold prune (dropped flag fs (children e fs)) fs)"
proof -
  have "\<forall>(x, t)\<in>set (readdir e fs). slash \<notin> set x \<and> (\<exists>n. map_of fs (e @ slash # x) = Some n \<and> (type_bits t 4 \<longleftrightarrow> n = Directory))"
  proof (intro ballI, clarsimp simp only: split_paired_all prod.case)
    fix x t assume "(x, t) \<in> set (readdir e fs)"
    then obtain n where n: "map_of fs (e @ slash # x) = Some n" "t = d_type n" "slash \<notin> set x"
      using in_fs_iff [OF assms(1)] by (auto simp: set_readdir)
    then show "slash \<notin> set x \<and> (\<exists>n. map_of fs (e @ slash # x) = Some n \<and> (type_bits t 4 \<longleftrightarrow> n = Directory))"
      using types_ok_map_of [OF assms(2) n(1)] by auto
  qed
  from Sanitize_entries_eq [OF assms(1) distinct_readdir [OF fs_wf_distinct [OF assms(1)]] this] assms(3) show ?thesis
    by (simp add: Sanitize_dir_def EnumerateDir_def children_def)
qed

section \<open>One level\<close>

lemma same_level_children:
  assumes "slash \<notin> set x" "slashes d = slashes d'" "c \<in> set (children d' fs)"
  shows "\<not> under c (d @ slash # x)" "d \<noteq> d' \<Longrightarrow> d @ slash # x \<noteq> c"
proof -
  show "\<not> under c (d @ slash # x)"
    using under_slashes [of c "d @ slash # x"] slashes_child [OF assms(1), of d] children_slashes [OF assms(3)] assms(2)
    by auto
  assume "d \<noteq> d'"
  then show "d @ slash # x \<noteq> c" using assms(1,3) path_inject by (auto simp: children_def set_readdir)
qed

definition level_children :: "string list \<Rightarrow> filesystem \<Rightarrow> string list" where
  "level_children dirs fs = concat (map (\<lambda>d. children d fs) dirs)"

lemma Sanitize_level_eq:
  assumes "fs_wf fs" "types_ok fs" "distinct dirs" "\<forall>d\<in>set dirs. is_directory fs d \<and> slashes d = c"
  shows "run_calls (Sanitize_dir flag) dirs (els, fs) =
    Some (els @ kept flag fs (level_children dirs fs), fold prune (dropped flag fs (level_children dirs fs)) fs)"
  using assms
proof (induction dirs arbitrary: els fs)
  case (Cons d dirs)
  let ?cs = "dropped flag fs (children d fs)"
  let ?fs = "fold prune ?cs fs"
  have clear: "d' @ slash # x \<noteq> p \<and> \<not> under p (d' @ slash # x)"
    if "d' \<in> set dirs" "p \<in> set ?cs" "slash \<notin> set x" for d' p x
    using same_level_children [OF that(3), of d' d p fs] that Cons.prems(3,4) by auto
  have rd: "children d' ?fs = children d' fs" if "d' \<in> set dirs" for d'
    using readdir_fold_prune [of ?cs d' fs] clear [OF that] by (simp add: children_def)
  have dirs: "is_directory ?fs d'" if "d' \<in> set dirs" for d'
  proof -
    have "d' \<noteq> p \<and> \<not> under p d'" if "p \<in> set ?cs" for p
      using children_slashes [of p d fs] that under_slashes [of p d'] Cons.prems(4) \<open>d' \<in> set dirs\<close> by auto
    then show ?thesis
      using Cons.prems(4) \<open>d' \<in> set dirs\<close> is_directory_fold_prune [of ?cs d' fs] by (simp add: is_directory_def)
  qed
  have same: "is_directory ?fs p = is_directory fs p" if pin: "p \<in> set (level_children dirs fs)" for p
  proof -
    obtain d' x where "d' \<in> set dirs" "p = d' @ slash # x" "slash \<notin> set x"
      using pin by (auto simp: level_children_def children_def set_readdir)
    then show ?thesis
      using clear is_directory_fold_prune [of ?cs p fs] by (simp add: is_directory_def)
  qed
  have lc: "level_children dirs ?fs = level_children dirs fs"
    using rd by (auto simp: level_children_def intro!: arg_cong [where f = concat])
  have f: "kept flag ?fs (level_children dirs fs) = kept flag fs (level_children dirs fs)"
    "dropped flag ?fs (level_children dirs fs) = dropped flag fs (level_children dirs fs)"
    using same by (auto intro!: filter_cong)
  have "run_calls (Sanitize_dir flag) dirs (els @ kept flag fs (children d fs), ?fs) =
    Some ((els @ kept flag fs (children d fs)) @ kept flag ?fs (level_children dirs ?fs),
          fold prune (dropped flag ?fs (level_children dirs ?fs)) ?fs)"
    by (rule Cons.IH) (use Cons.prems dirs in \<open>auto intro: fs_wf_fold_prune types_ok_fold_prune\<close>)
  with Sanitize_dir_eq [OF Cons.prems(1,2), of d flag els] Cons.prems(4) lc f show ?case
    by (simp add: level_children_def)
qed (simp add: level_children_def)

lemma set_level_children:
  assumes "fs_wf fs"
  shows "p \<in> set (level_children dirs fs) \<longleftrightarrow>
    (\<exists>d\<in>set dirs. \<exists>x. p = d @ slash # x \<and> slash \<notin> set x \<and> x \<noteq> []) \<and> map_of fs p \<noteq> None"
  by (auto simp: level_children_def set_children [OF assms])

lemma level_childrenE:
  assumes "fs_wf fs" "p \<in> set (level_children dirs fs)"
  obtains d x where "d \<in> set dirs" "p = d @ slash # x" "slash \<notin> set x" "x \<noteq> []" "map_of fs p \<noteq> None" "under d p"
proof -
  obtain d x where "d \<in> set dirs" "p = d @ slash # x" "slash \<notin> set x" "x \<noteq> []" "map_of fs p \<noteq> None"
    using assms(2) unfolding set_level_children [OF assms(1)] by blast
  then show thesis using that [of d x] under_child [of d x] by simp
qed

lemma distinct_level_children:
  assumes "fs_wf fs" "distinct dirs"
  shows "distinct (level_children dirs fs)"
  using assms(2)
proof (induction dirs)
  case (Cons d dirs)
  have "set (children d fs) \<inter> set (level_children dirs fs) = {}"
    using Cons.prems path_inject by (auto simp: level_children_def children_def set_readdir)
  with Cons distinct_children [OF assms(1)] show ?case by (simp add: level_children_def)
qed (simp add: level_children_def)

lemma level_children_slashes:
  "p \<in> set (level_children dirs fs) \<Longrightarrow> \<forall>d\<in>set dirs. slashes d = c \<Longrightarrow> slashes p = Suc c"
  by (auto simp: level_children_def dest: children_slashes)

section \<open>The whole workspace\<close>

text \<open>What holds after the enumeration of \<open>Suc r\<close> levels below \<open>dirs\<close>, which have \<open>c\<close> slashes.\<close>

definition sanitized :: "nat \<Rightarrow> nat \<Rightarrow> string list \<Rightarrow> filesystem \<Rightarrow> string list \<Rightarrow> filesystem \<Rightarrow> bool" where
  "sanitized c r dirs fs files fs' \<longleftrightarrow>
     fs_wf fs' \<and> types_ok fs'
     \<and> (\<forall>p n. map_of fs' p = Some n \<longrightarrow> map_of fs p = Some n)
     \<and> (\<forall>p. (\<forall>d\<in>set dirs. \<not> under d p) \<longrightarrow> map_of fs' p = map_of fs p)
     \<and> (\<forall>p. is_file fs p \<and> slashes p = Suc (c + r) \<longrightarrow> map_of fs' p = map_of fs p)
     \<and> (\<forall>p. is_directory fs p \<and> slashes p \<le> c + r \<longrightarrow> map_of fs' p = map_of fs p)
     \<and> distinct files
     \<and> (\<forall>p. p \<in> set files \<longleftrightarrow> is_file fs' p \<and> (\<exists>d\<in>set dirs. under d p))
     \<and> (\<forall>p\<in>set files. slashes p = Suc (c + r))"

lemma level_drop_keeps:
  assumes "fs_wf fs" "\<forall>d\<in>set dirs. slashes d = c" "fs1 = fold prune (dropped flag fs (level_children dirs fs)) fs"
  shows "map_of fs1 p = Some n \<Longrightarrow> map_of fs p = Some n"
    and "\<forall>d\<in>set dirs. \<not> under d p \<Longrightarrow> map_of fs1 p = map_of fs p"
    and "slashes p \<le> c \<Longrightarrow> map_of fs1 p = map_of fs p"
    and "slashes p = Suc c \<Longrightarrow> is_directory fs p \<noteq> flag \<Longrightarrow> map_of fs1 p = map_of fs p"
    and "\<not> flag \<Longrightarrow> is_directory fs p \<Longrightarrow> map_of fs1 p = map_of fs p"
    and "\<not> flag \<Longrightarrow> slashes p \<noteq> Suc c \<Longrightarrow> map_of fs1 p = map_of fs p"
proof -
  let ?cs = "dropped flag fs (level_children dirs fs)"
  have cs: "slashes q = Suc c \<and> is_directory fs q = flag \<and> map_of fs q \<noteq> None \<and> q \<noteq> [] \<and> (\<exists>d\<in>set dirs. under d q)"
    if "q \<in> set ?cs" for q
  proof -
    have q: "q \<in> set (level_children dirs fs)" "is_directory fs q = flag" using that by auto
    from level_childrenE [OF assms(1) q(1)] obtain d where "d \<in> set dirs" "map_of fs q \<noteq> None" "under d q" .
    moreover have "q \<noteq> []" using \<open>under d q\<close> by (auto simp: under_def)
    ultimately show ?thesis using q level_children_slashes [OF q(1) assms(2)] by blast
  qed
  have below: "\<not> (\<not> flag \<and> map_of fs p \<noteq> None \<and> q \<in> set ?cs \<and> under q p)" for q
    using cs [of q] fs_wf_ancestor [OF assms(1), of p _ q] by auto
  show "map_of fs1 p = Some n \<Longrightarrow> map_of fs p = Some n"
    by (auto simp: assms(3) map_of_fold_prune split: if_splits)
  have stays: "map_of fs1 p = map_of fs p" if "\<And>q. q \<in> set ?cs \<Longrightarrow> p \<noteq> q \<and> \<not> under q p"
    unfolding assms(3) using that by (intro is_directory_fold_prune) blast
  show "map_of fs1 p = map_of fs p" if "\<forall>d\<in>set dirs. \<not> under d p"
  proof (rule stays)
    fix q assume "q \<in> set ?cs"
    from cs [OF this] obtain d where "d \<in> set dirs" "under d q" by blast
    with that under_trans [of d q p] show "p \<noteq> q \<and> \<not> under q p" by blast
  qed
  show "slashes p \<le> c \<Longrightarrow> map_of fs1 p = map_of fs p"
    by (rule stays) (drule cs, use under_slashes [of _ p] in fastforce)
  show "slashes p = Suc c \<Longrightarrow> is_directory fs p \<noteq> flag \<Longrightarrow> map_of fs1 p = map_of fs p"
    by (rule stays) (drule cs, use under_slashes [of _ p] in fastforce)
  show "\<not> flag \<Longrightarrow> is_directory fs p \<Longrightarrow> map_of fs1 p = map_of fs p"
  proof (rule stays)
    fix q assume f: "\<not> flag" "is_directory fs p" and q: "q \<in> set ?cs"
    then have "map_of fs p \<noteq> None" by (simp add: is_directory_def)
    with cs [OF q] below [of q] f q show "p \<noteq> q \<and> \<not> under q p" by blast
  qed
  show "\<not> flag \<Longrightarrow> slashes p \<noteq> Suc c \<Longrightarrow> map_of fs1 p = map_of fs p"
  proof (cases "map_of fs p")
    case None
    then show ?thesis by (simp add: assms(3) map_of_fold_prune)
  next
    case (Some n)
    assume "\<not> flag" "slashes p \<noteq> Suc c"
    show ?thesis
    proof (rule stays)
      fix q assume q: "q \<in> set ?cs"
      with cs [OF q] below [of q] Some \<open>\<not> flag\<close> \<open>slashes p \<noteq> Suc c\<close> show "p \<noteq> q \<and> \<not> under q p" by auto
    qed
  qed
qed

lemma sanitizedD:
  assumes "sanitized c r dirs fs files fs'"
  shows "fs_wf fs'" "types_ok fs'"
    and "map_of fs' p = Some n \<Longrightarrow> map_of fs p = Some n"
    and "(\<And>d. d \<in> set dirs \<Longrightarrow> \<not> under d p) \<Longrightarrow> map_of fs' p = map_of fs p"
    and "is_file fs p \<Longrightarrow> slashes p = Suc (c + r) \<Longrightarrow> map_of fs' p = map_of fs p"
    and "is_directory fs p \<Longrightarrow> slashes p \<le> c + r \<Longrightarrow> map_of fs' p = map_of fs p"
    and "distinct files" "p \<in> set files \<longleftrightarrow> is_file fs' p \<and> (\<exists>d\<in>set dirs. under d p)"
    and "p \<in> set files \<Longrightarrow> slashes p = Suc (c + r)"
  by (insert assms [unfolded sanitized_def]) (elim conjE, blast)+

lemma sanitizedI:
  assumes "fs_wf fs'" "types_ok fs'"
    and "\<And>p n. map_of fs' p = Some n \<Longrightarrow> map_of fs p = Some n"
    and "\<And>p. \<forall>d\<in>set dirs. \<not> under d p \<Longrightarrow> map_of fs' p = map_of fs p"
    and "\<And>p. is_file fs p \<Longrightarrow> slashes p = Suc (c + r) \<Longrightarrow> map_of fs' p = map_of fs p"
    and "\<And>p. is_directory fs p \<Longrightarrow> slashes p \<le> c + r \<Longrightarrow> map_of fs' p = map_of fs p"
    and "distinct files" "\<And>p. p \<in> set files \<longleftrightarrow> is_file fs' p \<and> (\<exists>d\<in>set dirs. under d p)"
    and "\<And>p. p \<in> set files \<Longrightarrow> slashes p = Suc (c + r)"
  shows "sanitized c r dirs fs files fs'"
  unfolding sanitized_def
proof (intro conjI)
  show "\<forall>p. p \<in> set files \<longleftrightarrow> is_file fs' p \<and> (\<exists>d\<in>set dirs. under d p)" using assms(8) by (rule allI)
qed (use assms(1-7,9) in blast)+

lemma is_file_fs1:
  "is_file fs p \<longleftrightarrow> (\<exists>t b m. map_of fs p = Some (FileNode t b m))"
  by (auto simp: is_file_def split: option.splits fs_node.splits)

lemma is_file_cong: "map_of fs' p = map_of fs p \<Longrightarrow> is_file fs' p = is_file fs p"
  by (simp add: is_file_def)

lemma file_iff_not_directory: "map_of fs p \<noteq> None \<Longrightarrow> is_file fs p \<longleftrightarrow> \<not> is_directory fs p"
  using is_file_or_directory not_file_and_directory by blast

lemma sanitized_leaf:
  assumes "fs_wf fs" "types_ok fs" "distinct dirs" "\<forall>d\<in>set dirs. is_directory fs d \<and> slashes d = c \<and> d \<noteq> []"
    and "fs1 = fold prune (dropped True fs (level_children dirs fs)) fs"
  shows "sanitized c 0 dirs fs (kept True fs (level_children dirs fs)) fs1"
proof -
  have sl: "\<forall>d\<in>set dirs. slashes d = c" using assms(4) by blast
  note keeps = level_drop_keeps [OF assms(1) sl assms(5)]
  have wf: "fs_wf fs1" "types_ok fs1" using assms(1,2,5) fs_wf_fold_prune types_ok_fold_prune by auto
  have files: "p \<in> set (kept True fs (level_children dirs fs)) \<longleftrightarrow> is_file fs1 p \<and> (\<exists>d\<in>set dirs. under d p)" for p
  proof
    assume p: "p \<in> set (kept True fs (level_children dirs fs))"
    then have "map_of fs1 p = map_of fs p"
      using keeps(4) level_children_slashes [OF _ sl] by auto
    moreover have p': "p \<in> set (level_children dirs fs)" "\<not> is_directory fs p" using p by auto
    moreover from level_childrenE [OF assms(1) p'(1)] obtain d where "d \<in> set dirs" "map_of fs p \<noteq> None" "under d p" .
    ultimately show "is_file fs1 p \<and> (\<exists>d\<in>set dirs. under d p)"
      using file_iff_not_directory [of fs p] is_file_cong [of fs1 p fs] by blast
  next
    assume p: "is_file fs1 p \<and> (\<exists>d\<in>set dirs. under d p)"
    then obtain d n where d: "d \<in> set dirs" "under d p" "map_of fs1 p = Some n" by (auto simp: is_file_fs1)
    obtain x where x: "slash \<notin> set x" "x \<noteq> []" "map_of fs1 (d @ slash # x) \<noteq> None"
      "p = d @ slash # x \<or> under (d @ slash # x) p"
      using fs_wf_child_below [OF wf(1) d(3,2)] by blast
    have c: "d @ slash # x \<in> set (level_children dirs fs)"
      using x d(1) keeps(1) [of "d @ slash # x"] by (auto simp: set_level_children [OF assms(1)])
    have nd: "\<not> is_directory fs (d @ slash # x)"
      using x(3) c assms(5) by (auto simp: map_of_fold_prune split: if_splits)
    have "\<not> under (d @ slash # x) p"
    proof
      assume "under (d @ slash # x) p"
      then have "is_directory fs1 (d @ slash # x)" using fs_wf_ancestor [OF wf(1) d(3)] by simp
      with keeps(1) nd show False by (simp add: is_directory_def)
    qed
    with x(4) c nd show "p \<in> set (kept True fs (level_children dirs fs))" by simp
  qed
  have sl': "slashes p = Suc (c + 0)" if "p \<in> set (kept True fs (level_children dirs fs))" for p
    using level_children_slashes [OF _ sl, of p fs] that by simp
  have kf: "map_of fs1 p = map_of fs p" if "is_file fs p" "slashes p = Suc (c + 0)" for p
    using keeps(4) [of p] that not_file_and_directory [of fs p] by auto
  have kd: "map_of fs1 p = map_of fs p" if "is_directory fs p" "slashes p \<le> c + 0" for p
    using keeps(3) [of p] that by simp
  show ?thesis
    by (rule sanitizedI [OF wf keeps(1,2) kf kd distinct_filter [OF distinct_level_children [OF assms(1,3)]] files sl'])
qed

lemma kept_under:
  assumes "fs_wf fs" "e \<in> set (kept False fs (level_children dirs fs))"
  shows "\<exists>d\<in>set dirs. under d e"
proof -
  from assms(2) have "e \<in> set (level_children dirs fs)" by simp
  from level_childrenE [OF assms(1) this] show ?thesis by blast
qed

text \<open>The files found below the directories kept of a level are those below the directories of the level above.\<close>

lemma sanitized_step_files:
  assumes wf: "fs_wf fs" and fs1: "fs1 = fold prune (dropped False fs (level_children dirs fs)) fs"
    and san: "sanitized (Suc c) r (kept False fs (level_children dirs fs)) fs1 files fs'"
    and keeps: "\<And>p n. map_of fs1 p = Some n \<Longrightarrow> map_of fs p = Some n" "\<And>p. is_directory fs p \<Longrightarrow> map_of fs1 p = map_of fs p"
  shows "p \<in> set files \<longleftrightarrow> is_file fs' p \<and> (\<exists>d\<in>set dirs. under d p)"
proof
  note s = sanitizedD [OF san]
  assume "p \<in> set files"
  then obtain e where "is_file fs' p" "e \<in> set (kept False fs (level_children dirs fs))" "under e p" unfolding s(8) by blast
  moreover from kept_under [OF wf this(2)] obtain d where "d \<in> set dirs" "under d e" by blast
  ultimately show "is_file fs' p \<and> (\<exists>d\<in>set dirs. under d p)" using under_trans [of d e p] by blast
next
  note s = sanitizedD [OF san]
  assume p: "is_file fs' p \<and> (\<exists>d\<in>set dirs. under d p)"
  then obtain d n where d: "d \<in> set dirs" "under d p" "map_of fs' p = Some n" by (auto simp: is_file_fs1)
  obtain x where x: "slash \<notin> set x" "x \<noteq> []" "map_of fs' (d @ slash # x) \<noteq> None"
    "p = d @ slash # x \<or> under (d @ slash # x) p"
    using fs_wf_child_below [OF s(1) d(3,2)] by blast
  have m1: "map_of fs1 (d @ slash # x) \<noteq> None" using x(3) s(3) by fastforce
  then have c: "d @ slash # x \<in> set (level_children dirs fs)"
    using x(1,2) d(1) keeps(1) [of "d @ slash # x"] by (auto simp: set_level_children [OF wf])
  have is_dir: "is_directory fs (d @ slash # x)"
    using m1 c fs1 by (auto simp: map_of_fold_prune split: if_splits)
  then have "is_directory fs1 (d @ slash # x)" using keeps(2) by (simp add: is_directory_def)
  moreover have "p \<noteq> d @ slash # x"
  proof
    assume "p = d @ slash # x"
    with d(3) s(3) have "map_of fs1 p = Some n" by blast
    with \<open>p = _\<close> calculation p d(3) show False by (simp add: is_directory_def is_file_def)
  qed
  ultimately show "p \<in> set files" unfolding s(8) using x(4) c is_dir p by auto
qed

lemma sanitized_step:
  assumes "fs_wf fs" "types_ok fs" "distinct dirs" "\<forall>d\<in>set dirs. is_directory fs d \<and> slashes d = c \<and> d \<noteq> []"
    and "fs1 = fold prune (dropped False fs (level_children dirs fs)) fs"
    and "sanitized (Suc c) r (kept False fs (level_children dirs fs)) fs1 files fs'"
  shows "sanitized c (Suc r) dirs fs files fs'"
proof -
  have sl: "\<forall>d\<in>set dirs. slashes d = c" using assms(4) by blast
  note keeps = level_drop_keeps [OF assms(1) sl assms(5)]
  note s = sanitizedD [OF assms(6)]
  let ?els = "kept False fs (level_children dirs fs)"
  have sub: "map_of fs' p = Some n \<Longrightarrow> map_of fs1 p = Some n" for p n by (rule s(3))
  note els_under = kept_under [OF assms(1)]
  have notin: "map_of fs' p = map_of fs p" if "\<forall>d\<in>set dirs. \<not> under d p" for p
  proof -
    have "\<not> under e p" if e: "e \<in> set ?els" for e
    proof -
      from els_under [OF e] obtain d where "d \<in> set dirs" "under d e" by blast
      with \<open>\<forall>d\<in>set dirs. \<not> under d p\<close> under_trans [of d e p] show ?thesis by blast
    qed
    then show ?thesis using s(4) [of p] keeps(2) [OF that] by simp
  qed
  have kf: "map_of fs' p = map_of fs p" if p: "is_file fs p" "slashes p = Suc (c + Suc r)" for p
  proof -
    have "map_of fs1 p = map_of fs p" using keeps(6) p(2) by simp
    with s(5) [of p] p is_file_cong [of fs1 p fs] show ?thesis by simp
  qed
  have dir: "map_of fs' p = map_of fs p" if p: "is_directory fs p" "slashes p \<le> c + Suc r" for p
  proof -
    have "map_of fs1 p = map_of fs p" using keeps(5) p(1) by simp
    with s(6) [of p] p show ?thesis by (simp add: is_directory_def)
  qed
  have files: "p \<in> set files \<longleftrightarrow> is_file fs' p \<and> (\<exists>d\<in>set dirs. under d p)" for p
    by (rule sanitized_step_files [OF assms(1,5,6) keeps(1) keeps(5)]) simp_all
  have sub': "map_of fs p = Some n" if "map_of fs' p = Some n" for p n using keeps(1) [OF sub [OF that]] .
  have sl': "slashes p = Suc (c + Suc r)" if "p \<in> set files" for p using s(9) [OF that] by simp
  show ?thesis by (rule sanitizedI [OF s(1,2) sub' notin kf dir s(7) files sl'])
qed

lemma Sanitize_levels_sanitized:
  assumes "fs_wf fs" "types_ok fs" "distinct dirs" "\<forall>d\<in>set dirs. is_directory fs d \<and> slashes d = c \<and> d \<noteq> []"
  shows "\<exists>files fs'. Sanitize_levels (Suc r) dirs fs = Some (files, fs') \<and> sanitized c r dirs fs files fs'"
  using assms
proof (induction r arbitrary: c dirs fs)
  case 0
  have "\<forall>d\<in>set dirs. is_directory fs d \<and> slashes d = c" using "0.prems"(4) by blast
  from Sanitize_level_eq [OF "0.prems"(1-3) this, of True "[]"] sanitized_leaf [OF "0.prems" refl] show ?case by simp
next
  case (Suc r)
  let ?els = "kept False fs (level_children dirs fs)"
  let ?fs1 = "fold prune (dropped False fs (level_children dirs fs)) fs"
  have sl: "\<forall>d\<in>set dirs. slashes d = c" and dd: "\<forall>d\<in>set dirs. is_directory fs d \<and> slashes d = c"
    using Suc.prems(4) by blast+
  have els: "\<forall>d\<in>set ?els. is_directory ?fs1 d \<and> slashes d = Suc c \<and> d \<noteq> []"
  proof
    fix d assume "d \<in> set ?els"
    then have d: "d \<in> set (level_children dirs fs)" "is_directory fs d" by auto
    from level_childrenE [OF Suc.prems(1) d(1)] have "d \<noteq> []" by blast
    with d level_drop_keeps(5) [OF Suc.prems(1) sl refl, of False d] level_children_slashes [OF d(1) sl]
    show "is_directory ?fs1 d \<and> slashes d = Suc c \<and> d \<noteq> []" by (simp add: is_directory_def)
  qed
  have "\<exists>files fs'. Sanitize_levels (Suc r) ?els ?fs1 = Some (files, fs') \<and> sanitized (Suc c) r ?els ?fs1 files fs'"
    by (rule Suc.IH) (use Suc.prems els distinct_level_children in \<open>auto intro: fs_wf_fold_prune types_ok_fold_prune\<close>)
  then obtain files fs' where ih: "Sanitize_levels (Suc r) ?els ?fs1 = Some (files, fs')"
    "sanitized (Suc c) r ?els ?fs1 files fs'" by blast
  have "Sanitize_levels (Suc (Suc r)) dirs fs = Some (files, fs')"
    using Sanitize_level_eq [OF Suc.prems(1-3) dd, of False "[]"] ih(1) by (simp del: Sanitize_levels.simps(2) add: Sanitize_levels.simps(2) [of "Suc r"])
  with sanitized_step [OF Suc.prems refl ih(2)] show ?case by blast
qed

end
