(* ===== verification/Disk_Cache_Proofs.thy ===== *)
theory Disk_Cache_Proofs
  imports Disk_Cache_Sanitize "HOL-Library.Multiset"
begin

text \<open>
  Correctness of the disk cache: its invariant (every entry recorded in memory has its file at the
  path its key maps to) and that every operation keeps it and does not abort; the contents of the
  cache as a map; what purging removes; round trip and corruption detection of the file format.
\<close>

section \<open>Paths of keys\<close>

lemma slash_not_in_to_string: "slash \<notin> set (to_string n)"
  using digit_value_to_string [of slash n] digit_value_special by auto

lemma length_GetSubdirsFor [simp]: "length (GetSubdirsFor h l n) = l"
  by (induction h l n rule: GetSubdirsFor.induct) auto

lemma GetSubdirsFor_bound: "0 < n \<Longrightarrow> x \<in> set (GetSubdirsFor h l n) \<Longrightarrow> x < n"
  by (induction h l n rule: GetSubdirsFor.induct) auto

lemma path_in_shard_snoc: "path_in_shard a (ds @ [d]) = path_in_shard a ds @ slash # to_string d"
  by (simp add: path_in_shard_def)

lemma set_expand_level: "d \<in> set (expand_level n es) \<longleftrightarrow> (\<exists>e\<in>set es. \<exists>i<n. d = e @ slash # to_string i)"
  by (induction es) (auto simp: expand_level_def)

lemma set_leaf_dirs:
  "d \<in> set (leaf_dirs l n a) \<longleftrightarrow> (\<exists>ds. d = path_in_shard a ds \<and> length ds = l \<and> (\<forall>x\<in>set ds. x < n))"
proof (induction l arbitrary: d)
  case 0
  then show ?case by (simp add: leaf_dirs_def path_in_shard_def)
next
  case (Suc l)
  have "d \<in> set (leaf_dirs (Suc l) n a) \<longleftrightarrow> (\<exists>e\<in>set (leaf_dirs l n a). \<exists>i<n. d = e @ slash # to_string i)"
    by (simp add: leaf_dirs_def set_expand_level)
  also have "\<dots> \<longleftrightarrow> (\<exists>ds i. d = path_in_shard a (ds @ [i]) \<and> length ds = l \<and> (\<forall>x\<in>set ds. x < n) \<and> i < n)"
    unfolding Bex_def Suc.IH path_in_shard_snoc by blast
  also have "\<dots> \<longleftrightarrow> (\<exists>ds. d = path_in_shard a ds \<and> length ds = Suc l \<and> (\<forall>x\<in>set ds. x < n))"
  proof
    assume "\<exists>ds. d = path_in_shard a ds \<and> length ds = Suc l \<and> (\<forall>x\<in>set ds. x < n)"
    then obtain ds where ds: "d = path_in_shard a ds" "length ds = Suc l" "\<forall>x\<in>set ds. x < n" by blast
    then obtain es i where "ds = es @ [i]" by (metis length_Suc_conv_rev)
    with ds show "\<exists>ds i. d = path_in_shard a (ds @ [i]) \<and> length ds = l \<and> (\<forall>x\<in>set ds. x < n) \<and> i < n" by auto
  next
    assume "\<exists>ds i. d = path_in_shard a (ds @ [i]) \<and> length ds = l \<and> (\<forall>x\<in>set ds. x < n) \<and> i < n"
    then obtain ds i where "d = path_in_shard a (ds @ [i])" "length ds = l" "\<forall>x\<in>set ds. x < n" "i < n" by blast
    then show "\<exists>ds. d = path_in_shard a ds \<and> length ds = Suc l \<and> (\<forall>x\<in>set ds. x < n)"
      by (intro exI [of _ "ds @ [i]"]) auto
  qed
  finally show ?case .
qed

lemma slashes_path_in_shard: "slashes (path_in_shard a ds) = slashes a + length ds"
proof (induction ds rule: rev_induct)
  case Nil
  then show ?case by (simp add: path_in_shard_def)
next
  case (snoc d ds)
  then show ?case using slashes_child [OF slash_not_in_to_string] by (simp add: path_in_shard_snoc del: count_list_append)
qed

lemma under_path_in_shard: "ds \<noteq> [] \<Longrightarrow> under a (path_in_shard a ds)"
  by (cases ds) (auto simp: path_in_shard_def under_def prefix_def)

text \<open>The leaf directories of the configured shards.\<close>

definition cache_dir :: "DiskCache \<Rightarrow> string \<Rightarrow> string \<Rightarrow> bool" where
  "cache_dir s a d \<longleftrightarrow> a \<in> set (umap_keys (do_shards (dc_options s)))
     \<and> d \<in> set (leaf_dirs (do_sub_dir_level (dc_options s)) (do_sub_dirs (dc_options s)) a)"

lemma cache_dir_facts:
  assumes "cache_dir s a d" "0 < do_sub_dir_level (dc_options s)"
  shows "under a d" "slashes d = slashes a + do_sub_dir_level (dc_options s)" "d \<noteq> []"
proof -
  obtain ds where ds: "d = path_in_shard a ds" "length ds = do_sub_dir_level (dc_options s)"
    using assms(1) by (auto simp: cache_dir_def set_leaf_dirs)
  then have "ds \<noteq> []" using assms(2) by auto
  then show "under a d" using under_path_in_shard ds(1) by blast
  then show "d \<noteq> []" by (auto simp: under_def)
  show "slashes d = slashes a + do_sub_dir_level (dc_options s)" using ds slashes_path_in_shard by simp
qed

definition dc_config_ok :: "DiskCache \<Rightarrow> bool" where
  "dc_config_ok s \<longleftrightarrow> 0 < do_sub_dir_level (dc_options s) \<and> 0 < do_sub_dirs (dc_options s)
     \<and> dc_shard_mapper s \<noteq> [] \<and> snd ` set (dc_shard_mapper s) \<subseteq> set (umap_keys (do_shards (dc_options s)))
     \<and> (\<forall>a\<in>set (umap_keys (do_shards (dc_options s))). a \<noteq> [] \<and> map_of (dc_shard_hits s) a \<noteq> None
          \<and> (\<forall>b\<in>set (umap_keys (do_shards (dc_options s))). \<not> under a b))"

lemma dc_config_okD:
  assumes "dc_config_ok s"
  shows "0 < do_sub_dir_level (dc_options s)" "0 < do_sub_dirs (dc_options s)" "dc_shard_mapper s \<noteq> []"
    "snd ` set (dc_shard_mapper s) \<subseteq> set (umap_keys (do_shards (dc_options s)))"
    and "a \<in> set (umap_keys (do_shards (dc_options s))) \<Longrightarrow> a \<noteq> []"
    and "a \<in> set (umap_keys (do_shards (dc_options s))) \<Longrightarrow> map_of (dc_shard_hits s) a \<noteq> None"
    and "a \<in> set (umap_keys (do_shards (dc_options s))) \<Longrightarrow> b \<in> set (umap_keys (do_shards (dc_options s))) \<Longrightarrow> \<not> under a b"
  using assms unfolding dc_config_ok_def by (simp_all del: set_map)

lemma TryGetPathOfKey_cases:
  assumes "dc_config_ok s"
  shows "TryGetPathOfKey fl k s = Some None
    \<or> (\<exists>a d. TryGetPathOfKey fl k s = Some (Some (d @ slash # MarshalKey fl k)) \<and> cache_dir s a d
         \<and> GetNode (dc_shard_mapper s) (fl_XXH64 fl k) = Some a)"
proof (cases "length (MarshalKey fl k) > 4096")
  case True
  then show ?thesis by (simp add: TryGetPathOfKey_def)
next
  case False
  obtain a where a: "GetNode (dc_shard_mapper s) (fl_XXH64 fl k) = Some a"
    using GetNode_defined [OF dc_config_okD(3) [OF assms]] by blast
  then have "a \<in> snd ` set (dc_shard_mapper s)" by (rule GetNode_in_ring)
  then have "a \<in> set (umap_keys (do_shards (dc_options s)))" using assms by (auto simp: dc_config_ok_def)
  moreover have "path_in_shard a (GetSubdirsFor (fl_XXH64 fl k) (do_sub_dir_level (dc_options s)) (do_sub_dirs (dc_options s)))
      \<in> set (leaf_dirs (do_sub_dir_level (dc_options s)) (do_sub_dirs (dc_options s)) a)"
    using assms GetSubdirsFor_bound by (auto simp: set_leaf_dirs dc_config_ok_def)
  ultimately show ?thesis
    using a False assms by (auto simp: TryGetPathOfKey_def cache_dir_def dc_config_ok_def)
qed

lemma TryGetPathOfKey_cong:
  "dc_options s' = dc_options s \<Longrightarrow> dc_shard_mapper s' = dc_shard_mapper s \<Longrightarrow> TryGetPathOfKey fl k s' = TryGetPathOfKey fl k s"
  by (simp add: TryGetPathOfKey_def Let_def)

lemma cache_dir_cong: "dc_options s' = dc_options s \<Longrightarrow> cache_dir s' a d = cache_dir s a d"
  by (simp add: cache_dir_def)

lemma slash_not_in_MarshalKey: "flare_strings fl \<Longrightarrow> slash \<notin> set (MarshalKey fl k)"
  by (simp add: MarshalKey_def flare_strings.EncodePercent_no_slash)

lemma key_path_inject:
  assumes "flare_strings fl"
  shows "d @ slash # MarshalKey fl k = e @ slash # MarshalKey fl q \<longleftrightarrow> d = e \<and> k = q"
  using path_inject [OF slash_not_in_MarshalKey slash_not_in_MarshalKey, OF assms assms]
    flare_strings.EncodePercent_inject [OF assms] by (auto simp: MarshalKey_def)

lemma GetKeyFromPath_key:
  assumes "flare_strings fl"
  shows "GetKeyFromPath fl (d @ slash # MarshalKey fl k) = Some k"
  using flare_strings.DecodePercent [OF assms] slash_not_in_MarshalKey [OF assms]
  by (simp add: GetKeyFromPath_def after_last_slash_path MarshalKey_def)

section \<open>The invariant\<close>

definition entry_ok :: "flare \<Rightarrow> DiskCache \<Rightarrow> string \<Rightarrow> string \<Rightarrow> bool" where
  "entry_ok fl s d k \<longleftrightarrow> TryGetPathOfKey fl k s = Some (Some (d @ slash # MarshalKey fl k))
     \<and> is_file (dc_fs s) (d @ slash # MarshalKey fl k)"

definition dir_ok :: "flare \<Rightarrow> DiskCache \<Rightarrow> string \<Rightarrow> EntriesInDir \<Rightarrow> bool" where
  "dir_ok fl s d es \<longleftrightarrow> (\<exists>a. cache_dir s a d) \<and> distinct (umap_keys es) \<and> (\<forall>k. map_of es k \<noteq> None \<longrightarrow> entry_ok fl s d k)"

definition dc_inv :: "flare \<Rightarrow> DiskCache \<Rightarrow> bool" where
  "dc_inv fl s \<longleftrightarrow> dc_config_ok s \<and> fs_wf (dc_fs s) \<and> types_ok (dc_fs s)
     \<and> (\<forall>a d. cache_dir s a d \<longrightarrow> map_of (dc_entries_per_dir s) d \<noteq> None \<and> is_directory (dc_fs s) d)
     \<and> (\<forall>d es. map_of (dc_entries_per_dir s) d = Some es \<longrightarrow> dir_ok fl s d es)"

lemma dc_invD:
  assumes "dc_inv fl s"
  shows "dc_config_ok s" "fs_wf (dc_fs s)" "types_ok (dc_fs s)"
    and "cache_dir s a d \<Longrightarrow> map_of (dc_entries_per_dir s) d \<noteq> None"
    and "cache_dir s a d \<Longrightarrow> is_directory (dc_fs s) d"
    and "map_of (dc_entries_per_dir s) d = Some es \<Longrightarrow> dir_ok fl s d es"
  using assms by (auto simp: dc_inv_def)

text \<open>Change of the state that keeps the configuration.\<close>

lemma dc_inv_update:
  assumes inv: "dc_inv fl s"
    and same: "dc_options s' = dc_options s" "dc_shard_mapper s' = dc_shard_mapper s"
      "\<And>a. map_of (dc_shard_hits s') a = None \<longleftrightarrow> map_of (dc_shard_hits s) a = None"
    and fs: "fs_wf (dc_fs s')" "types_ok (dc_fs s')"
      "\<And>a d. cache_dir s a d \<Longrightarrow> is_directory (dc_fs s) d \<Longrightarrow> is_directory (dc_fs s') d"
    and ents: "\<And>d. map_of (dc_entries_per_dir s') d \<noteq> None \<longleftrightarrow> map_of (dc_entries_per_dir s) d \<noteq> None"
      "\<And>d es es' k. map_of (dc_entries_per_dir s) d = Some es \<Longrightarrow> map_of (dc_entries_per_dir s') d = Some es' \<Longrightarrow>
         distinct (umap_keys es) \<Longrightarrow> distinct (umap_keys es')"
      "\<And>d es es' k. map_of (dc_entries_per_dir s) d = Some es \<Longrightarrow> map_of (dc_entries_per_dir s') d = Some es' \<Longrightarrow>
         map_of es' k \<noteq> None \<Longrightarrow> entry_ok fl s' d k"
  shows "dc_inv fl s'"
  unfolding dc_inv_def
proof (intro conjI allI impI)
  show "dc_config_ok s'" using dc_invD(1) [OF inv] same by (simp add: dc_config_ok_def)
  show "fs_wf (dc_fs s')" "types_ok (dc_fs s')" by fact+
next
  fix a d assume "cache_dir s' a d"
  then have c: "cache_dir s a d" using cache_dir_cong same(1) by blast
  then show "map_of (dc_entries_per_dir s') d \<noteq> None" using dc_invD(4) [OF inv] ents(1) [of d] by blast
  from c show "is_directory (dc_fs s') d" using dc_invD(5) [OF inv] fs(3) by blast
next
  fix d es' assume e': "map_of (dc_entries_per_dir s') d = Some es'"
  then obtain es where e: "map_of (dc_entries_per_dir s) d = Some es" using ents(1) [of d] by auto
  from dc_invD(6) [OF inv e] show "dir_ok fl s' d es'"
    using ents(2) [OF e e'] ents(3) [OF e e'] cache_dir_cong [OF same(1)] by (auto simp: dir_ok_def)
qed

lemma entry_ok_update:
  assumes "entry_ok fl s d k" "dc_options s' = dc_options s" "dc_shard_mapper s' = dc_shard_mapper s"
    and "is_file (dc_fs s) (d @ slash # MarshalKey fl k) \<Longrightarrow> is_file (dc_fs s') (d @ slash # MarshalKey fl k)"
  shows "entry_ok fl s' d k"
  using assms TryGetPathOfKey_cong [OF assms(2,3)] by (simp add: entry_ok_def)

lemma dc_inv_entry:
  assumes "dc_inv fl s" "map_of (dc_entries_per_dir s) d = Some es" "map_of es k \<noteq> None"
  shows "entry_ok fl s d k"
  using dc_invD(6) [OF assms(1,2)] assms(3) by (simp add: dir_ok_def)

lemma map_of_modify_entries:
  "map_of (dc_entries_per_dir (modify_entries d f s)) e =
     (if e = d then map_option f (map_of (dc_entries_per_dir s) d) else map_of (dc_entries_per_dir s) e)"
  by (simp add: modify_entries_def map_of_umap_modify)

lemma modify_entries_simps [simp]:
  "dc_options (modify_entries d f s) = dc_options s" "dc_shard_mapper (modify_entries d f s) = dc_shard_mapper s"
  "dc_shard_hits (modify_entries d f s) = dc_shard_hits s" "dc_fs (modify_entries d f s) = dc_fs s"
  by (simp_all add: modify_entries_def)

section \<open>Changes of the file system\<close>

lemma fs_wf_update:
  assumes "fs_wf fs" "distinct (umap_keys fs')" "\<And>d. is_directory fs d \<Longrightarrow> is_directory fs' d"
    and "\<And>q. q \<in> fst ` set fs' \<Longrightarrow> q \<in> fst ` set fs \<or> (after_last_slash q \<noteq> [] \<and> parent_exists q fs)"
  shows "fs_wf fs'"
  unfolding fs_wf_def
proof (intro conjI ballI)
  show "distinct (umap_keys fs')" by fact
  fix e assume "e \<in> set fs'"
  then have "fst e \<in> fst ` set fs'" by (rule imageI)
  from assms(4) [OF this] have e: "after_last_slash (fst e) \<noteq> []" "parent_exists (fst e) fs"
    using assms(1) by (auto simp: fs_wf_def)
  show "after_last_slash (fst e) \<noteq> []" by fact
  show "parent_exists (fst e) fs'"
    using e(2) assms(3) by (auto simp: parent_exists_def split: option.splits)
qed

lemma keys_umap_set: "fst ` set (umap_set k v m) = insert k (fst ` set m)"
  using arg_cong [OF keys_umap_modify [of k "\<lambda>_. v" m], of set] by (auto simp: umap_set_def)

lemma fs_wf_set_file:
  assumes "fs_wf fs" "can_create p fs"
  shows "fs_wf (umap_set p (FileNode t b m) fs)"
proof (rule fs_wf_update [OF assms(1)])
  show "distinct (umap_keys (umap_set p (FileNode t b m) fs))"
    using distinct_umap_set [OF fs_wf_distinct [OF assms(1)]] .
  show "is_directory fs d \<Longrightarrow> is_directory (umap_set p (FileNode t b m) fs) d" for d
    using assms(2) by (auto simp: is_directory_def can_create_def map_of_umap_set)
  show "q \<in> fst ` set (umap_set p (FileNode t b m) fs) \<Longrightarrow>
      q \<in> fst ` set fs \<or> after_last_slash q \<noteq> [] \<and> parent_exists q fs" for q
    using assms(2) by (auto simp: keys_umap_set can_create_def valid_file_name_def)
qed

lemma types_ok_iff: "distinct (umap_keys fs) \<Longrightarrow>
    types_ok fs \<longleftrightarrow> (\<forall>p n. map_of fs p = Some n \<longrightarrow> (type_bits (d_type n) 4 \<longleftrightarrow> n = Directory))"
  by (auto simp: types_ok_def)

lemma type_bits_DT_REG [simp]: "\<not> type_bits DT_REG 4"
  by (simp add: type_bits_def)

lemma types_ok_set_file:
  assumes "fs_wf fs" "types_ok fs" "\<not> type_bits t 4"
  shows "types_ok (umap_set p (FileNode t b m) fs)"
  using assms(2,3) distinct_umap_set [OF fs_wf_distinct [OF assms(1)]] types_ok_map_of [OF assms(2)]
  by (auto simp: types_ok_iff map_of_umap_set d_type_def split: if_splits)

lemma is_file_set_file: "is_file (umap_set p (FileNode t b m) fs) q \<longleftrightarrow> q = p \<or> is_file fs q"
  by (auto simp: is_file_def map_of_umap_set)

lemma is_directory_set_file: "\<not> is_directory fs p \<Longrightarrow> is_directory (umap_set p (FileNode t b m) fs) q \<longleftrightarrow> is_directory fs q"
  by (auto simp: is_directory_def map_of_umap_set)

lemma touch_simps [simp]: "touch now n = Directory \<longleftrightarrow> n = Directory" "d_type (touch now n) = d_type n"
  by (auto simp: touch_def d_type_def split: fs_node.splits)

lemma map_of_touch: "map_of (umap_modify p (touch now) fs) q = (if q = p then map_option (touch now) (map_of fs p) else map_of fs q)"
  by (simp add: map_of_umap_modify)

lemma is_directory_touch: "is_directory (umap_modify p (touch now) fs) q = is_directory fs q"
  by (auto simp: is_directory_def map_of_touch)

lemma is_file_touch: "is_file (umap_modify p (touch now) fs) q = is_file fs q"
  by (auto simp: is_file_def map_of_touch touch_def split: option.splits fs_node.splits)

lemma fs_wf_touch:
  assumes "fs_wf fs"
  shows "fs_wf (umap_modify p (touch now) fs)"
proof (rule fs_wf_update [OF assms])
  show "distinct (umap_keys (umap_modify p (touch now) fs))"
    using assms by (simp add: keys_umap_modify fs_wf_distinct)
  show "is_directory fs d \<Longrightarrow> is_directory (umap_modify p (touch now) fs) d" for d
    by (simp add: is_directory_touch)
  show "q \<in> fst ` set (umap_modify p (touch now) fs) \<Longrightarrow> q \<in> fst ` set fs \<or> after_last_slash q \<noteq> [] \<and> parent_exists q fs" for q
    using arg_cong [OF keys_umap_modify [of p "touch now" fs], of set] by simp
qed

lemma types_ok_touch: "fs_wf fs \<Longrightarrow> types_ok fs \<Longrightarrow> types_ok (umap_modify p (touch now) fs)"
  using types_ok_map_of [of fs]
  by (auto simp: types_ok_iff keys_umap_modify fs_wf_distinct map_of_touch split: if_splits)

lemma fs_wf_unlink: "fs_wf fs \<Longrightarrow> fs_unlink p fs = Some fs' \<Longrightarrow> p \<noteq> [] \<Longrightarrow> fs_wf fs'"
  using fs_wf_prune [of fs p] prune_file [of fs p] by (auto simp: fs_unlink_def split: if_splits)

lemma types_ok_erase: "types_ok fs \<Longrightarrow> types_ok (umap_erase p fs)"
  by (auto simp: types_ok_def umap_erase_def)

section \<open>Contents\<close>

text \<open>The value a key has in the cache: the verified payload of its file, if the key is recorded.\<close>

definition file_payload :: "flare \<Rightarrow> fs_node option \<Rightarrow> bytes option" where
  "file_payload fl n = (case n of Some (FileNode _ b _) \<Rightarrow> VerifyEntryAndCutHeader fl b | _ \<Rightarrow> None)"

definition has_entry :: "DiskCache \<Rightarrow> string \<Rightarrow> string \<Rightarrow> bool" where
  "has_entry s d k \<longleftrightarrow> (case map_of (dc_entries_per_dir s) d of None \<Rightarrow> False | Some es \<Rightarrow> map_of es k \<noteq> None)"

definition dc_contents :: "flare \<Rightarrow> DiskCache \<Rightarrow> string \<Rightarrow> bytes option" where
  "dc_contents fl s k =
     (case TryGetPathOfKey fl k s of
        Some (Some p) \<Rightarrow> if has_entry s (before_last_slash p) k then file_payload fl (map_of (dc_fs s) p) else None
      | _ \<Rightarrow> None)"

lemma dc_contents_eq:
  assumes "flare_strings fl" "TryGetPathOfKey fl k s = Some (Some (d @ slash # MarshalKey fl k))"
    "map_of (dc_entries_per_dir s) d = Some es"
  shows "dc_contents fl s k = (if map_of es k = None then None else file_payload fl (map_of (dc_fs s) (d @ slash # MarshalKey fl k)))"
  using assms slash_not_in_MarshalKey [OF assms(1)] by (simp add: dc_contents_def has_entry_def before_last_slash_path)

lemma VerifyEntry_WriteFileHeader:
  assumes "flare_strings fl" "length pad = 32"
  shows "VerifyEntryAndCutHeader fl (WriteFileHeader fl pad b @ b) = Some b"
  using flare_strings.Blake3_length [OF assms(1)] assms(2)
  by (simp add: VerifyEntryAndCutHeader_def WriteFileHeader_def)

lemma length_WriteFileHeader:
  "flare_strings fl \<Longrightarrow> length pad = 32 \<Longrightarrow> length (WriteFileHeader fl pad b) = 64"
  by (simp add: WriteFileHeader_def flare_strings.Blake3_length)

text \<open>The place of a key: its directory and the entries there.\<close>

lemma key_place:
  assumes "dc_inv fl s" "flare_strings fl"
  shows "TryGetPathOfKey fl k s = Some None \<or>
    (\<exists>a d es. TryGetPathOfKey fl k s = Some (Some (d @ slash # MarshalKey fl k)) \<and> cache_dir s a d
       \<and> GetNode (dc_shard_mapper s) (fl_XXH64 fl k) = Some a \<and> map_of (dc_entries_per_dir s) d = Some es
       \<and> GetDirectoryName (d @ slash # MarshalKey fl k) = Some d \<and> is_directory (dc_fs s) d)"
proof (cases "TryGetPathOfKey fl k s = Some None")
  case False
  then obtain a d where ad: "TryGetPathOfKey fl k s = Some (Some (d @ slash # MarshalKey fl k))" "cache_dir s a d"
    "GetNode (dc_shard_mapper s) (fl_XXH64 fl k) = Some a"
    using TryGetPathOfKey_cases [OF dc_invD(1) [OF assms(1)]] by blast
  moreover obtain es where "map_of (dc_entries_per_dir s) d = Some es"
    using dc_invD(4) [OF assms(1) ad(2)] by blast
  ultimately show ?thesis
    using dc_invD(5) [OF assms(1) ad(2)] GetDirectoryName_path [OF slash_not_in_MarshalKey [OF assms(2)]] by blast
qed simp

section \<open>Operations keep the invariant\<close>

lemma record_shard_hit_ok:
  assumes "dc_inv fl s" "GetNode (dc_shard_mapper s) (fl_XXH64 fl k) = Some a" "cache_dir s a d"
  shows "record_shard_hit fl k s = Some (s\<lparr>dc_shard_hits := umap_modify a Suc (dc_shard_hits s)\<rparr>)"
  using assms(2) dc_config_okD(6) [OF dc_invD(1) [OF assms(1)], of a] assms(3)
  by (auto simp: record_shard_hit_def cache_dir_def)

lemma dc_inv_touch:
  assumes "dc_inv fl s" "dc_options s' = dc_options s" "dc_shard_mapper s' = dc_shard_mapper s"
    and "\<And>a. map_of (dc_shard_hits s') a = None \<longleftrightarrow> map_of (dc_shard_hits s) a = None"
    and "dc_fs s' = dc_fs s \<or> dc_fs s' = umap_modify p (touch now) (dc_fs s)"
    and "dc_entries_per_dir s' = dc_entries_per_dir s
       \<or> dc_entries_per_dir s' = umap_modify d (umap_modify k f) (dc_entries_per_dir s)"
  shows "dc_inv fl s'"
proof (rule dc_inv_update [OF assms(1-4)])
  show "fs_wf (dc_fs s')" using assms(5) dc_invD(2) [OF assms(1)] fs_wf_touch by auto
  show "types_ok (dc_fs s')" using assms(5) dc_invD(2,3) [OF assms(1)] types_ok_touch by auto
  show "is_directory (dc_fs s) e \<Longrightarrow> is_directory (dc_fs s') e" for e
    using assms(5) is_directory_touch by auto
next
  fix e es es' q
  assume e: "map_of (dc_entries_per_dir s) e = Some es" "map_of (dc_entries_per_dir s') e = Some es'"
  then have es': "es' = es \<or> es' = umap_modify k f es"
    using assms(6) by (auto simp: map_of_umap_modify split: if_splits)
  then show "distinct (umap_keys es) \<Longrightarrow> distinct (umap_keys es')" by (auto simp: keys_umap_modify)
  assume "map_of es' q \<noteq> None"
  with es' have "map_of es q \<noteq> None" by (auto simp: map_of_umap_modify split: if_splits)
  then show "entry_ok fl s' e q"
    using entry_ok_update [OF dc_inv_entry [OF assms(1) e(1)] assms(2,3)] assms(5) is_file_touch by auto
qed (use assms(6) in \<open>auto simp: map_of_umap_modify split: if_splits\<close>)

lemma dc_contents_touch:
  assumes "dc_options s' = dc_options s" "dc_shard_mapper s' = dc_shard_mapper s"
    and "dc_fs s' = dc_fs s \<or> dc_fs s' = umap_modify p (touch now) (dc_fs s)"
    and "dc_entries_per_dir s' = dc_entries_per_dir s
       \<or> dc_entries_per_dir s' = umap_modify d (umap_modify k f) (dc_entries_per_dir s)"
  shows "dc_contents fl s' q = dc_contents fl s q"
proof -
  have pay: "file_payload fl (map_of (dc_fs s') x) = file_payload fl (map_of (dc_fs s) x)" for x
  proof (cases "dc_fs s' = dc_fs s")
    case False
    then have "map_of (dc_fs s') x = map_of (dc_fs s) x \<or> map_of (dc_fs s') x = map_option (touch now) (map_of (dc_fs s) x)"
      using assms(3) by (auto simp: map_of_touch)
    then show ?thesis by (auto simp: file_payload_def touch_def split: option.splits fs_node.splits)
  qed simp
  have "has_entry s' e q = has_entry s e q" for e
  proof -
    have "map_of (dc_entries_per_dir s') e = map_of (dc_entries_per_dir s) e
       \<or> map_of (dc_entries_per_dir s') e = map_option (umap_modify k f) (map_of (dc_entries_per_dir s) e)"
      using assms(4) by (auto simp: map_of_umap_modify)
    then show ?thesis by (cases "map_of (dc_entries_per_dir s) e") (auto simp: has_entry_def map_of_umap_modify split: if_splits)
  qed
  then show ?thesis
    unfolding dc_contents_def TryGetPathOfKey_cong [OF assms(1,2)] pay by (simp split: option.splits)
qed

lemma dc_TryGet_ok:
  assumes "dc_inv fl s" "flare_strings fl"
  shows "\<exists>r s'. dc_TryGet fl read_ok now k s = Some (r, s') \<and> dc_inv fl s' \<and> dc_contents fl s' = dc_contents fl s
     \<and> r = (if read_ok then dc_contents fl s k else None)"
  using key_place [OF assms, of k]
proof (elim disjE exE conjE)
  assume "TryGetPathOfKey fl k s = Some None"
  then show ?thesis using assms(1) by (simp add: dc_TryGet_def dc_contents_def)
next
  fix a d es
  assume p: "TryGetPathOfKey fl k s = Some (Some (d @ slash # MarshalKey fl k))" "cache_dir s a d"
    "GetNode (dc_shard_mapper s) (fl_XXH64 fl k) = Some a" "map_of (dc_entries_per_dir s) d = Some es"
    "GetDirectoryName (d @ slash # MarshalKey fl k) = Some d"
  let ?p = "d @ slash # MarshalKey fl k"
  let ?s1 = "s\<lparr>dc_shard_hits := umap_modify a Suc (dc_shard_hits s)\<rparr>"
  note hit = record_shard_hit_ok [OF assms(1) p(3,2)]
  note cont = dc_contents_eq [OF assms(2) p(1,4)]
  have hits: "map_of (umap_modify a Suc (dc_shard_hits s)) x = None \<longleftrightarrow> map_of (dc_shard_hits s) x = None" for x
    by (auto simp: map_of_umap_modify)
  show ?thesis
  proof (cases "map_of es k = None")
    case True
    let ?s' = "?s1\<lparr>dc_cache_misses := dc_cache_misses ?s1 + 1\<rparr>"
    have "dc_TryGet fl read_ok now k s = Some (None, ?s')"
      using p hit True by (simp add: dc_TryGet_def)
    moreover have "dc_inv fl ?s'" by (rule dc_inv_touch [OF assms(1)]) (use hits in auto)
    moreover have "dc_contents fl ?s' = dc_contents fl s" by (rule ext, rule dc_contents_touch) auto
    ultimately show ?thesis using cont True by auto
  next
    case False
    from dc_inv_entry [OF assms(1) p(4) False] obtain t b m where node: "map_of (dc_fs s) ?p = Some (FileNode t b m)"
      by (auto simp: entry_ok_def is_file_fs1)
    let ?f = "umap_modify k (\<lambda>e. e\<lparr>ed_last_accessed := now\<rparr>)"
    let ?s2 = "modify_entries d ?f (?s1\<lparr>dc_fs := umap_modify ?p (touch now) (dc_fs ?s1)\<rparr>)"
    let ?s3 = "?s2\<lparr>dc_cache_hits := dc_cache_hits ?s2 + 1\<rparr>"
    have run: "dc_TryGet fl read_ok now k s =
        (if \<not> read_ok then Some (None, ?s2)
         else case VerifyEntryAndCutHeader fl b of None \<Rightarrow> Some (None, ?s2) | Some buffer \<Rightarrow> Some (Some buffer, ?s3))"
      using p hit False node by (cases "VerifyEntryAndCutHeader fl b") (auto simp: dc_TryGet_def Let_def)
    have "dc_inv fl ?s2" "dc_inv fl ?s3"
      by (rule dc_inv_touch [OF assms(1)]; use hits in \<open>auto simp: modify_entries_def\<close>)+
    moreover have "dc_contents fl ?s2 = dc_contents fl s" "dc_contents fl ?s3 = dc_contents fl s"
      by (rule ext, rule dc_contents_touch; auto simp: modify_entries_def)+
    moreover have "dc_contents fl s k = VerifyEntryAndCutHeader fl b"
      using cont False node by (simp add: file_payload_def)
    ultimately show ?thesis using run by (cases "VerifyEntryAndCutHeader fl b") auto
  qed
qed

text \<open>A change of one entry and of one file.\<close>

lemma dc_inv_change:
  assumes inv: "dc_inv fl s" and fl: "flare_strings fl"
    and same: "dc_options s' = dc_options s" "dc_shard_mapper s' = dc_shard_mapper s" "dc_shard_hits s' = dc_shard_hits s"
    and fs: "fs_wf (dc_fs s')" "types_ok (dc_fs s')" "\<And>e. is_directory (dc_fs s) e \<Longrightarrow> is_directory (dc_fs s') e"
      "\<And>q. q \<noteq> p \<Longrightarrow> map_of (dc_fs s') q = map_of (dc_fs s) q"
    and es: "map_of (dc_entries_per_dir s) d = Some es" "distinct (umap_keys es')"
      "\<And>e. map_of (dc_entries_per_dir s') e = (if e = d then Some es' else map_of (dc_entries_per_dir s) e)"
      "\<And>q. q \<noteq> k \<Longrightarrow> map_of es' q = map_of es q"
    and k: "map_of es' k \<noteq> None \<Longrightarrow> entry_ok fl s' d k"
    and p: "\<And>e q. p = e @ slash # MarshalKey fl q \<Longrightarrow> e = d \<and> q = k"
  shows "dc_inv fl s'" "q \<noteq> k \<Longrightarrow> dc_contents fl s' q = dc_contents fl s q"
proof -
  have other: "is_file (dc_fs s') (e @ slash # MarshalKey fl q)"
    if "is_file (dc_fs s) (e @ slash # MarshalKey fl q)" "e \<noteq> d \<or> q \<noteq> k" for e q
    using fs(4) [of "e @ slash # MarshalKey fl q"] p [of e q] that is_file_cong by metis
  show "dc_inv fl s'"
  proof (rule dc_inv_update [OF inv same(1,2)])
    fix e es1 es2 q
    assume e: "map_of (dc_entries_per_dir s) e = Some es1" "map_of (dc_entries_per_dir s') e = Some es2"
    show "distinct (umap_keys es1) \<Longrightarrow> distinct (umap_keys es2)"
      using e es(1-3) by (auto split: if_splits)
    assume q: "map_of es2 q \<noteq> None"
    show "entry_ok fl s' e q"
    proof (cases "e = d \<and> q = k")
      case True
      with e q es(3) k show ?thesis by auto
    next
      case False
      then have "map_of es1 q \<noteq> None" using e q es(1,3,4) by (auto split: if_splits)
      then show ?thesis
        using entry_ok_update [OF dc_inv_entry [OF inv e(1)] same(1,2)] other False by blast
    qed
  qed (use same fs es in auto)
  show "dc_contents fl s' q = dc_contents fl s q" if q: "q \<noteq> k"
    using key_place [OF inv fl, of q]
  proof (elim disjE exE conjE)
    assume "TryGetPathOfKey fl q s = Some None"
    then show ?thesis using TryGetPathOfKey_cong [OF same(1,2)] by (simp add: dc_contents_def)
  next
    fix a e es1
    assume e: "TryGetPathOfKey fl q s = Some (Some (e @ slash # MarshalKey fl q))"
      "map_of (dc_entries_per_dir s) e = Some es1"
    have e': "TryGetPathOfKey fl q s' = Some (Some (e @ slash # MarshalKey fl q))"
      using e(1) TryGetPathOfKey_cong [OF same(1,2)] by simp
    obtain es2 where es2: "map_of (dc_entries_per_dir s') e = Some es2" "map_of es2 q = map_of es1 q"
    proof (cases "e = d")
      case True
      with e(2) es(1) have "es1 = es" by simp
      with True es(3) [of e] es(4) [OF q] that show thesis by simp
    next
      case False
      with e(2) es(3) [of e] that show thesis by simp
    qed
    have "map_of (dc_fs s') (e @ slash # MarshalKey fl q) = map_of (dc_fs s) (e @ slash # MarshalKey fl q)"
      using fs(4) [of "e @ slash # MarshalKey fl q"] p [of e q] q by metis
    with dc_contents_eq [OF fl e] dc_contents_eq [OF fl e' es2(1)] es2(2) show ?thesis by simp
  qed
qed

lemma map_of_double_set: "map_of (umap_set p y (umap_set p x m)) q = map_of (umap_set p y m) q"
  by (simp add: map_of_umap_set)

lemma can_create_set_file: "can_create p fs \<Longrightarrow> can_create p (umap_set p (FileNode t b m) fs)"
  by (auto simp: can_create_def parent_exists_def is_directory_def map_of_umap_set split: option.splits)

definition storable :: "flare \<Rightarrow> bool \<Rightarrow> string \<Rightarrow> DiskCache \<Rightarrow> bool" where
  "storable fl open_ok k s \<longleftrightarrow> open_ok \<and>
     (case TryGetPathOfKey fl k s of Some (Some p) \<Rightarrow> can_create p (dc_fs s) | _ \<Rightarrow> False)"

text \<open>The state a store leaves once the entry has been looked up or created, before the file is touched.\<close>

lemma CreateEntry_entries:
  assumes "map_of (dc_entries_per_dir s) d = Some es"
    and "s1 = (if map_of es k = None then modify_entries d (umap_set k e0) s else s\<lparr>dc_cache_overwrites := dc_cache_overwrites s + 1\<rparr>)"
    and "es1 = (if map_of es k = None then umap_set k e0 es else es)"
  shows "dc_options s1 = dc_options s" "dc_shard_mapper s1 = dc_shard_mapper s" "dc_shard_hits s1 = dc_shard_hits s" "dc_fs s1 = dc_fs s"
    and "map_of (dc_entries_per_dir s1) e = (if e = d then Some es1 else map_of (dc_entries_per_dir s) e)"
    and "distinct (umap_keys es) \<Longrightarrow> distinct (umap_keys es1)" "map_of es1 k \<noteq> None" "q \<noteq> k \<Longrightarrow> map_of es1 q = map_of es q"
  using assms by (simp_all add: map_of_modify_entries distinct_umap_set map_of_umap_set)

lemma dc_Put_dropped:
  assumes inv: "dc_inv fl s" and fl: "flare_strings fl" and drop: "\<not> storable fl open_ok k s"
    and p: "TryGetPathOfKey fl k s = Some (Some (d @ slash # MarshalKey fl k))"
      "map_of (dc_entries_per_dir s) d = Some es" "GetDirectoryName (d @ slash # MarshalKey fl k) = Some d"
  shows "\<exists>s'. dc_Put fl open_ok pad now k b s = Some s' \<and> dc_inv fl s' \<and> dc_contents fl s' = (dc_contents fl s)(k := None)"
proof -
  let ?p = "d @ slash # MarshalKey fl k"
  let ?new = "\<lparr>ed_file_size = 0, ed_last_accessed = now\<rparr>"
  let ?s1 = "if map_of es k = None then modify_entries d (umap_set k ?new) s
             else s\<lparr>dc_cache_overwrites := dc_cache_overwrites s + 1\<rparr>"
  let ?es1 = "if map_of es k = None then umap_set k ?new es else es"
  let ?s' = "modify_entries d (umap_erase k) ?s1"
  note s1 = CreateEntry_entries [where k = k and ?e0.0 = ?new, OF p(2) refl refl]
  have run: "dc_Put fl open_ok pad now k b s = Some ?s'"
    using p drop by (cases "map_of es k = None") (auto simp: dc_Put_def CreateEntryLocked_def storable_def Let_def)
  have e': "map_of (dc_entries_per_dir ?s') e = (if e = d then Some (umap_erase k ?es1) else map_of (dc_entries_per_dir s) e)" for e
    using s1(5) by (simp add: map_of_modify_entries)
  have d1: "distinct (umap_keys ?es1)" using dc_invD(6) [OF inv p(2)] s1(6) by (simp add: dir_ok_def)
  have inj: "?p = e @ slash # MarshalKey fl q \<Longrightarrow> e = d \<and> q = k" for e q using key_path_inject [OF fl] by metis
  note ch = dc_inv_change [OF inv fl, where s' = ?s' and p = ?p and d = d and k = k, OF _ _ _ _ _ _ _ p(2) _ e']
  have "dc_inv fl ?s'" and rest: "\<And>q. q \<noteq> k \<Longrightarrow> dc_contents fl ?s' q = dc_contents fl s q"
    by (rule ch; use s1(1-4) dc_invD(2,3) [OF inv] d1 inj in \<open>simp add: map_of_umap_erase map_of_umap_set distinct_umap_erase\<close>)+
  moreover have "dc_contents fl ?s' k = None"
    using dc_contents_eq [OF fl, of k ?s' d] p(1) TryGetPathOfKey_cong [of ?s' s] s1(1,2) e' [of d] by (simp add: map_of_umap_erase)
  ultimately show ?thesis using run by (intro exI [of _ ?s']) auto
qed

lemma dc_Put_stored:
  assumes inv: "dc_inv fl s" and fl: "flare_strings fl" and pad: "length pad = 32" and cc: "can_create (d @ slash # MarshalKey fl k) (dc_fs s)"
    and p: "TryGetPathOfKey fl k s = Some (Some (d @ slash # MarshalKey fl k))"
      "map_of (dc_entries_per_dir s) d = Some es" "GetDirectoryName (d @ slash # MarshalKey fl k) = Some d"
  shows "\<exists>s'. dc_Put fl True pad now k b s = Some s' \<and> dc_inv fl s' \<and> dc_contents fl s' = (dc_contents fl s)(k := Some b)"
proof -
  let ?p = "d @ slash # MarshalKey fl k"
  let ?new = "\<lparr>ed_file_size = 0, ed_last_accessed = now\<rparr>" and ?h = "WriteFileHeader fl pad b"
  let ?s1 = "if map_of es k = None then modify_entries d (umap_set k ?new) s
             else s\<lparr>dc_cache_overwrites := dc_cache_overwrites s + 1\<rparr>"
  let ?es1 = "if map_of es k = None then umap_set k ?new es else es"
  let ?g = "umap_modify k (\<lambda>e. e\<lparr>ed_file_size := length ?h + length b\<rparr>)"
  let ?fs1 = "umap_set ?p (FileNode DT_REG [] now) (dc_fs s)"
  let ?fs2 = "umap_set ?p (FileNode DT_REG (?h @ b) now) ?fs1"
  let ?s2 = "?s1\<lparr>dc_fs := ?fs1\<rparr>"
  let ?s' = "modify_entries d ?g (?s2\<lparr>dc_fs := ?fs2, dc_cache_fills := dc_cache_fills ?s2 + 1\<rparr>)"
  note s1 = CreateEntry_entries [where k = k and ?e0.0 = ?new, OF p(2) refl refl] and wf = dc_invD(2,3) [OF inv]
  have run: "dc_Put fl True pad now k b s = Some ?s'"
    using p cc by (cases "map_of es k = None") (auto simp: dc_Put_def CreateEntryLocked_def Let_def)
  have e': "map_of (dc_entries_per_dir ?s') e = (if e = d then Some (?g ?es1) else map_of (dc_entries_per_dir s) e)" for e
    using s1(5) by (simp add: map_of_modify_entries)
  have opts: "dc_options ?s' = dc_options s" "dc_shard_mapper ?s' = dc_shard_mapper s" "dc_shard_hits ?s' = dc_shard_hits s"
    "dc_fs ?s' = ?fs2" by simp_all
  have wf': "fs_wf ?fs2" "types_ok ?fs2"
    using fs_wf_set_file [OF fs_wf_set_file [OF wf(1) cc] can_create_set_file [OF cc]]
      types_ok_set_file [OF fs_wf_set_file [OF wf(1) cc] types_ok_set_file [OF wf]] by simp_all
  have dirs: "is_directory (dc_fs s) e \<Longrightarrow> is_directory ?fs2 e" for e
    using cc by (auto simp: can_create_def is_directory_def map_of_umap_set)
  have path': "TryGetPathOfKey fl k ?s' = Some (Some ?p)" using p(1) TryGetPathOfKey_cong [OF opts(1,2)] by simp
  then have ok: "entry_ok fl ?s' d k" unfolding entry_ok_def opts by (simp add: is_file_set_file)
  have d1: "distinct (umap_keys ?es1)" using dc_invD(6) [OF inv p(2)] s1(6) by (simp add: dir_ok_def)
  have inj: "?p = e @ slash # MarshalKey fl q \<Longrightarrow> e = d \<and> q = k" for e q using key_path_inject [OF fl] by metis
  note ch = dc_inv_change [OF inv fl opts(1-3), where p = ?p and d = d and k = k, OF _ _ _ _ p(2) _ e' _ ok]
  have "dc_inv fl ?s'" and rest: "\<And>q. q \<noteq> k \<Longrightarrow> dc_contents fl ?s' q = dc_contents fl s q"
    by (rule ch; use wf' dirs d1 inj opts(4) in \<open>simp add: map_of_umap_modify map_of_umap_set keys_umap_modify\<close>)+
  moreover have "map_of (?g ?es1) k \<noteq> None" by (auto simp: map_of_umap_modify map_of_umap_set)
  then have "dc_contents fl ?s' k = Some b"
    using dc_contents_eq [OF fl path'] e' [of d] VerifyEntry_WriteFileHeader [OF fl pad]
    unfolding opts(4) by (simp add: file_payload_def map_of_umap_set)
  ultimately show ?thesis using run by (intro exI [of _ ?s']) auto
qed

lemma dc_Put_ok:
  assumes "dc_inv fl s" "flare_strings fl" "length pad = 32"
  shows "\<exists>s'. dc_Put fl open_ok pad now k b s = Some s' \<and> dc_inv fl s'
     \<and> dc_contents fl s' = (dc_contents fl s)(k := if storable fl open_ok k s then Some b else None)"
  using key_place [OF assms(1,2), of k]
proof (elim disjE exE conjE)
  assume n: "TryGetPathOfKey fl k s = Some None"
  then have "dc_contents fl s k = None" "\<not> storable fl open_ok k s" by (simp_all add: dc_contents_def storable_def)
  with n assms(1) show ?thesis by (simp add: dc_Put_def fun_upd_idem)
next
  fix a d es
  assume p: "TryGetPathOfKey fl k s = Some (Some (d @ slash # MarshalKey fl k))"
    "map_of (dc_entries_per_dir s) d = Some es" "GetDirectoryName (d @ slash # MarshalKey fl k) = Some d"
  show ?thesis
  proof (cases "storable fl open_ok k s")
    case True
    then have "open_ok" "can_create (d @ slash # MarshalKey fl k) (dc_fs s)" using p(1) by (auto simp: storable_def)
    with True show ?thesis using dc_Put_stored [OF assms(1-3) _ p] by simp
  next
    case False
    then show ?thesis using dc_Put_dropped [OF assms(1,2) False p] by simp
  qed
qed

section \<open>Enumerating a shard\<close>

lemma GetFileInfos_ok:
  "\<forall>p\<in>set ps. map_of fs p \<noteq> None \<Longrightarrow>
   \<exists>infos. GetFileInfos ps fs = Some infos \<and> map fi_path infos = ps \<and> (\<forall>i\<in>set infos. GetFileInfo (fi_path i) fs = Some i)"
proof (induction ps)
  case (Cons p ps)
  then obtain n where n: "map_of fs p = Some n" by auto
  obtain i where i: "GetFileInfo p fs = Some i" "fi_path i = p"
    using n by (cases n) (auto simp: GetFileInfo_def)
  from Cons obtain infos where "GetFileInfos ps fs = Some infos" "map fi_path infos = ps"
    "\<forall>i\<in>set infos. GetFileInfo (fi_path i) fs = Some i" by auto
  with i show ?case by (intro exI [of _ "i # infos"]) simp
qed simp

lemma shard_is_directory:
  assumes "dc_inv fl s" "a \<in> set (umap_keys (do_shards (dc_options s)))"
  shows "is_directory (dc_fs s) a"
proof -
  note cfg = dc_config_okD [OF dc_invD(1) [OF assms(1)]]
  let ?d = "path_in_shard a (replicate (do_sub_dir_level (dc_options s)) 0)"
  have d: "cache_dir s a ?d"
    using assms(2) cfg(2) by (auto simp: cache_dir_def set_leaf_dirs simp del: set_map)
  from cache_dir_facts(1) [OF d cfg(1)] have "under a ?d" .
  moreover have "map_of (dc_fs s) ?d = Some Directory"
    using dc_invD(5) [OF assms(1) d] by (simp add: is_directory_def)
  ultimately show ?thesis using fs_wf_ancestor [OF dc_invD(2) [OF assms(1)]] cfg(5) [OF assms(2)] by blast
qed

lemma Enumerate_ok:
  assumes "dc_inv fl s" "a \<in> set (umap_keys (do_shards (dc_options s)))"
  shows "\<exists>files fs'. EnumerateCacheEntries a (do_sub_dir_level (dc_options s)) (dc_fs s) = Some (files, fs')
     \<and> sanitized (slashes a) (do_sub_dir_level (dc_options s)) [a] (dc_fs s) (map fi_path files) fs'
     \<and> (\<forall>i\<in>set files. GetFileInfo (fi_path i) fs' = Some i)"
proof -
  note cfg = dc_config_okD [OF dc_invD(1) [OF assms(1)]]
  have "\<forall>d\<in>set [a]. is_directory (dc_fs s) d \<and> slashes d = slashes a \<and> d \<noteq> []"
    using shard_is_directory [OF assms] cfg(5) [OF assms(2)] by simp
  from Sanitize_levels_sanitized [OF dc_invD(2,3) [OF assms(1)] _ this, of "do_sub_dir_level (dc_options s)"]
  obtain ps fs' where ps: "Sanitize_levels (Suc (do_sub_dir_level (dc_options s))) [a] (dc_fs s) = Some (ps, fs')"
    "sanitized (slashes a) (do_sub_dir_level (dc_options s)) [a] (dc_fs s) ps fs'" by auto
  have "\<forall>p\<in>set ps. map_of fs' p \<noteq> None"
    using sanitizedD(8) [OF ps(2)] by (auto simp: is_file_fs1)
  from GetFileInfos_ok [OF this] obtain files where "GetFileInfos ps fs' = Some files" "map fi_path files = ps"
    "\<forall>i\<in>set files. GetFileInfo (fi_path i) fs' = Some i" by blast
  with ps show ?thesis
    by (intro exI [of _ files] exI [of _ fs']) (simp add: EnumerateCacheEntries_def SanitizeWorkspaceAndEnumerate_def del: Sanitize_levels.simps)
qed

lemma under_comparable: "under a p \<Longrightarrow> under b p \<Longrightarrow> a = b \<or> under a b \<or> under b a"
  using prefix_same_cases [of "a @ [slash]" p "b @ [slash]"] by (auto simp: under_def)

lemma other_shard_not_under:
  assumes "dc_config_ok s" "a \<in> set (umap_keys (do_shards (dc_options s)))" "cache_dir s b d" "a \<noteq> b"
  shows "\<not> under a d" "\<not> under a (d @ slash # n)"
proof -
  have b: "b \<in> set (umap_keys (do_shards (dc_options s)))" using assms(3) by (simp add: cache_dir_def)
  have ud: "under b d" using cache_dir_facts(1) [OF assms(3) dc_config_okD(1) [OF assms(1)]] .
  note no = dc_config_okD(7) [OF assms(1) assms(2) b] dc_config_okD(7) [OF assms(1) b assms(2)]
  show "\<not> under a d" using under_comparable [OF _ ud, of a] no assms(4) by blast
  show "\<not> under a (d @ slash # n)"
    using under_comparable [of a "d @ slash # n" b] under_append [OF ud, of "slash # n"] no assms(4) by blast
qed

text \<open>Sanitizing a shard touches neither the directories of the cache nor the files of its entries.\<close>

lemma sanitized_keeps_dirs:
  assumes "dc_inv fl s" "a \<in> set (umap_keys (do_shards (dc_options s)))"
    and "sanitized (slashes a) (do_sub_dir_level (dc_options s)) [a] (dc_fs s) files fs'" and d: "cache_dir s b d"
  shows "map_of fs' d = map_of (dc_fs s) d"
proof (cases "b = a")
  note cfg = dc_invD(1) [OF assms(1)] and san = sanitizedD [OF assms(3)]
  case True
  with cache_dir_facts(2) [OF d dc_config_okD(1) [OF cfg]] dc_invD(5) [OF assms(1) d] san(6) show ?thesis by simp
next
  note cfg = dc_invD(1) [OF assms(1)] and san = sanitizedD [OF assms(3)]
  case False
  with other_shard_not_under(1) [OF cfg assms(2) d] san(4) [of d] show ?thesis by simp
qed

lemma sanitized_keeps_entries:
  assumes "dc_inv fl s" "flare_strings fl" "a \<in> set (umap_keys (do_shards (dc_options s)))"
    and "sanitized (slashes a) (do_sub_dir_level (dc_options s)) [a] (dc_fs s) files fs'" and e: "has_entry s d k"
  shows "map_of fs' (d @ slash # MarshalKey fl k) = map_of (dc_fs s) (d @ slash # MarshalKey fl k)"
proof -
  note cfg = dc_invD(1) [OF assms(1)] and san = sanitizedD [OF assms(4)]
  obtain es where es: "map_of (dc_entries_per_dir s) d = Some es" "map_of es k \<noteq> None"
    using e by (auto simp: has_entry_def split: option.splits)
  obtain b where b: "cache_dir s b d" using dc_invD(6) [OF assms(1) es(1)] by (auto simp: dir_ok_def)
  have f: "is_file (dc_fs s) (d @ slash # MarshalKey fl k)" using dc_inv_entry [OF assms(1) es] by (simp add: entry_ok_def)
  show ?thesis
  proof (cases "b = a")
    case True
    with cache_dir_facts(2) [OF b dc_config_okD(1) [OF cfg]] slashes_child [OF slash_not_in_MarshalKey [OF assms(2)], of d k]
    have "slashes (d @ slash # MarshalKey fl k) = Suc (slashes a + do_sub_dir_level (dc_options s))" by simp
    with f san(5) show ?thesis by blast
  next
    case False
    with other_shard_not_under(2) [OF cfg assms(3) b] san(4) show ?thesis by simp
  qed
qed

lemma dc_inv_sanitized:
  assumes "dc_inv fl s" "flare_strings fl" "a \<in> set (umap_keys (do_shards (dc_options s)))"
    and "sanitized (slashes a) (do_sub_dir_level (dc_options s)) [a] (dc_fs s) files fs'"
  shows "dc_inv fl (s\<lparr>dc_fs := fs'\<rparr>)" "dc_contents fl (s\<lparr>dc_fs := fs'\<rparr>) = dc_contents fl s"
proof -
  note san = sanitizedD [OF assms(4)] and dirs = sanitized_keeps_dirs [OF assms(1,3,4)] and files = sanitized_keeps_entries [OF assms]
  let ?s' = "s\<lparr>dc_fs := fs'\<rparr>"
  show "dc_inv fl ?s'"
  proof (rule dc_inv_update [OF assms(1)])
    fix b d assume "cache_dir s b d" "is_directory (dc_fs s) d"
    then show "is_directory (dc_fs ?s') d" using dirs by (simp add: is_directory_def)
  next
    fix d es es' k
    assume e: "map_of (dc_entries_per_dir s) d = Some es" "map_of (dc_entries_per_dir ?s') d = Some es'" "map_of es' k \<noteq> None"
    then have "has_entry s d k" by (simp add: has_entry_def)
    from files [OF this] e show "entry_ok fl ?s' d k"
      using entry_ok_update [OF dc_inv_entry [OF assms(1) e(1)], of k ?s'] is_file_cong [of fs' _ "dc_fs s"] by simp
  qed (use san(1,2) in auto)
  show "dc_contents fl ?s' = dc_contents fl s"
  proof
    fix k
    have h: "has_entry ?s' d q = has_entry s d q" for d q by (simp add: has_entry_def)
    show "dc_contents fl ?s' k = dc_contents fl s k"
      using key_place [OF assms(1,2), of k]
    proof (elim disjE exE conjE)
      assume "TryGetPathOfKey fl k s = Some None"
      then show ?thesis using TryGetPathOfKey_cong [of ?s' s fl k] by (simp add: dc_contents_def)
    next
      fix a' d es
      assume "TryGetPathOfKey fl k s = Some (Some (d @ slash # MarshalKey fl k))"
      then show ?thesis
        using TryGetPathOfKey_cong [of ?s' s fl k] files [of d k] h before_last_slash_path [OF slash_not_in_MarshalKey [OF assms(2)]]
        by (simp add: dc_contents_def)
    qed
  qed
qed

section \<open>Purging\<close>

lemma is_directory_erase_file: "is_file fs p \<Longrightarrow> is_directory fs e \<Longrightarrow> is_directory (umap_erase p fs) e"
  by (auto simp: is_directory_def is_file_def map_of_umap_erase)

lemma fs_wf_erase_file: "fs_wf fs \<Longrightarrow> is_file fs p \<Longrightarrow> p \<noteq> [] \<Longrightarrow> fs_wf (umap_erase p fs)"
  using fs_wf_prune prune_file by metis

lemma file_entry_key:
  assumes "flare_strings fl" "p = e @ slash # MarshalKey fl q"
  shows "GetKeyFromPath fl p = Some q" "GetDirectoryName p = Some e"
  using GetKeyFromPath_key [OF assms(1), of e q] GetDirectoryName_path [OF slash_not_in_MarshalKey [OF assms(1), of q], of e] assms(2)
  by simp_all

text \<open>A file that is not the file of a recorded entry may be removed.\<close>

lemma dc_inv_unlink_foreign:
  assumes "dc_inv fl s" "flare_strings fl" "is_file (dc_fs s) p" "p \<noteq> []"
    and "\<And>e q. p = e @ slash # MarshalKey fl q \<Longrightarrow> \<not> has_entry s e q"
  shows "dc_inv fl (s\<lparr>dc_fs := umap_erase p (dc_fs s)\<rparr>)"
    and "dc_contents fl (s\<lparr>dc_fs := umap_erase p (dc_fs s)\<rparr>) = dc_contents fl s"
proof -
  let ?s' = "s\<lparr>dc_fs := umap_erase p (dc_fs s)\<rparr>"
  have files: "map_of (dc_fs ?s') (e @ slash # MarshalKey fl q) = map_of (dc_fs s) (e @ slash # MarshalKey fl q)"
    if "has_entry s e q" for e q
    using assms(5) [of e q] that by (auto simp: map_of_umap_erase)
  show "dc_inv fl ?s'"
  proof (rule dc_inv_update [OF assms(1)])
    fix d es es' k
    assume e: "map_of (dc_entries_per_dir s) d = Some es" "map_of (dc_entries_per_dir ?s') d = Some es'" "map_of es' k \<noteq> None"
    then have "has_entry s d k" by (simp add: has_entry_def)
    from files [OF this] e show "entry_ok fl ?s' d k"
      using entry_ok_update [OF dc_inv_entry [OF assms(1) e(1)], of k ?s'] is_file_cong [of "dc_fs ?s'" _ "dc_fs s"] by simp
  qed (use fs_wf_erase_file [OF dc_invD(2) [OF assms(1)] assms(3,4)] types_ok_erase [OF dc_invD(3) [OF assms(1)]]
         is_directory_erase_file [OF assms(3)] in auto)
  show "dc_contents fl ?s' = dc_contents fl s"
  proof
    fix k
    have h: "has_entry ?s' d q = has_entry s d q" for d q by (simp add: has_entry_def)
    show "dc_contents fl ?s' k = dc_contents fl s k"
      using key_place [OF assms(1,2), of k]
    proof (elim disjE exE conjE)
      assume "TryGetPathOfKey fl k s = Some None"
      then show ?thesis using TryGetPathOfKey_cong [of ?s' s fl k] by (simp add: dc_contents_def)
    next
      fix a d es
      assume "TryGetPathOfKey fl k s = Some (Some (d @ slash # MarshalKey fl k))"
      then show ?thesis
        using TryGetPathOfKey_cong [of ?s' s fl k] files [of d k] h before_last_slash_path [OF slash_not_in_MarshalKey [OF assms(2)]]
        by (simp add: dc_contents_def)
    qed
  qed
qed

lemma PurgeFile_ok:
  assumes "dc_inv fl s" "flare_strings fl" "is_file (dc_fs s) (fi_path e)" "slash \<in> set (fi_path e)"
  shows "\<exists>ks' s'. PurgeFile fl e (ks, s) = Some (ks', s') \<and> dc_inv fl s' \<and> dc_fs s' = umap_erase (fi_path e) (dc_fs s)
     \<and> dc_options s' = dc_options s \<and> dc_contents fl s' \<subseteq>\<^sub>m dc_contents fl s"
proof -
  let ?p = "fi_path e"
  have ne: "?p \<noteq> []" using assms(4) by auto
  obtain path where path: "GetDirectoryName ?p = Some path" using assms(4) by (auto simp: GetDirectoryName_def)
  have unl: "fs_unlink ?p (dc_fs s) = Some (umap_erase ?p (dc_fs s))" using assms(3) by (simp add: fs_unlink_def)
  let ?s1 = "s\<lparr>dc_fs := umap_erase ?p (dc_fs s)\<rparr>"
  show ?thesis
  proof (cases "\<exists>k. GetKeyFromPath fl ?p = Some k \<and> has_entry s path k")
    case False
    have "PurgeFile fl e (ks, s) = Some (ks, ?s1)"
      using path unl False by (auto simp: PurgeFile_def has_entry_def split: option.splits)
    moreover have "\<not> has_entry s d q" if "?p = d @ slash # MarshalKey fl q" for d q
      using file_entry_key [OF assms(2) that] path False by auto
    ultimately show ?thesis
      using dc_inv_unlink_foreign [OF assms(1-3) ne] by (intro exI [of _ ks] exI [of _ ?s1]) simp
  next
    case True
    then obtain k es where k: "GetKeyFromPath fl ?p = Some k" "map_of (dc_entries_per_dir s) path = Some es" "map_of es k \<noteq> None"
      by (auto simp: has_entry_def split: option.splits)
    let ?s' = "modify_entries path (umap_erase k) ?s1"
    have run: "PurgeFile fl e (ks, s) = Some (ks @ [k], ?s')"
      using path unl k by (simp add: PurgeFile_def)
    have e': "map_of (dc_entries_per_dir ?s') d = (if d = path then Some (umap_erase k es) else map_of (dc_entries_per_dir s) d)" for d
      using k(2) by (simp add: map_of_modify_entries)
    have fs': "dc_fs ?s' = umap_erase ?p (dc_fs s)" by simp
    have dist: "distinct (umap_keys es)" using dc_invD(6) [OF assms(1) k(2)] by (simp add: dir_ok_def)
    have only: "d = path \<and> q = k" if "?p = d @ slash # MarshalKey fl q" for d q
      using file_entry_key [OF assms(2) that] path k(1) by simp
    note wf = fs_wf_erase_file [OF dc_invD(2) [OF assms(1)] assms(3) ne] types_ok_erase [OF dc_invD(3) [OF assms(1)]]
      is_directory_erase_file [OF assms(3)]
    note ch = dc_inv_change [OF assms(1,2), where s' = ?s' and p = ?p and d = path and k = k, OF _ _ _ _ _ _ _ k(2) _ e']
    have "dc_inv fl ?s'" and rest: "\<And>q. q \<noteq> k \<Longrightarrow> dc_contents fl ?s' q = dc_contents fl s q"
      by (rule ch; use wf dist only fs' in \<open>simp add: map_of_umap_erase distinct_umap_erase\<close>)+
    moreover have "dc_contents fl ?s' k = None"
    proof -
      from dc_inv_entry [OF assms(1) k(2,3)] have "TryGetPathOfKey fl k s = Some (Some (path @ slash # MarshalKey fl k))"
        by (simp add: entry_ok_def)
      then have "TryGetPathOfKey fl k ?s' = Some (Some (path @ slash # MarshalKey fl k))"
        using TryGetPathOfKey_cong [of ?s' s fl k] by simp
      from dc_contents_eq [OF assms(2) this] e' [of path] show ?thesis by (simp add: map_of_umap_erase)
    qed
    ultimately have "dc_contents fl ?s' \<subseteq>\<^sub>m dc_contents fl s"
      by (auto simp: map_le_def dom_def) (metis option.distinct(1))
    with run \<open>dc_inv fl ?s'\<close> show ?thesis by (intro exI [of _ "ks @ [k]"] exI [of _ ?s']) simp
  qed
qed

lemma PurgeFiles_ok:
  assumes "dc_inv fl s" "flare_strings fl" "distinct (map fi_path files)"
    and "\<forall>e\<in>set files. is_file (dc_fs s) (fi_path e) \<and> slash \<in> set (fi_path e)"
  shows "\<exists>n ks' s'. PurgeFiles fl dbl limit files used (ks, s) = Some (ks', s') \<and> dc_inv fl s' \<and> dc_options s' = dc_options s
     \<and> dc_contents fl s' \<subseteq>\<^sub>m dc_contents fl s \<and> n \<le> length files
     \<and> dc_fs s' = fold (umap_erase \<circ> fi_path) (take n files) (dc_fs s)
     \<and> (n < length files \<longrightarrow> below_discard_threshold dbl (used - sum_list (map fi_size (take n files))) limit)
     \<and> (\<forall>m<n. \<not> below_discard_threshold dbl (used - sum_list (map fi_size (take m files))) limit)"
  using assms
proof (induction files arbitrary: s ks used)
  case Nil
  then show ?case by (intro exI [of _ 0]) simp
next
  case (Cons e files)
  show ?case
  proof (cases "below_discard_threshold dbl used limit")
    case True
    with Cons.prems show ?thesis by (intro exI [of _ 0]) simp
  next
    case False
    from PurgeFile_ok [OF Cons.prems(1,2), of e ks] Cons.prems(4) obtain ks1 s1 where
      s1: "PurgeFile fl e (ks, s) = Some (ks1, s1)" "dc_inv fl s1" "dc_fs s1 = umap_erase (fi_path e) (dc_fs s)"
      "dc_options s1 = dc_options s" "dc_contents fl s1 \<subseteq>\<^sub>m dc_contents fl s" by auto
    have fl: "\<forall>x\<in>set files. is_file (dc_fs s1) (fi_path x) \<and> slash \<in> set (fi_path x)"
      using Cons.prems(3,4) s1(3) by (auto simp: is_file_def map_of_umap_erase image_iff split: option.splits)
    have "distinct (map fi_path files)" using Cons.prems(3) by simp
    from Cons.IH [OF s1(2) Cons.prems(2) this fl, of "used - fi_size e" ks1]
    obtain n ks' s' where n: "PurgeFiles fl dbl limit files (used - fi_size e) (ks1, s1) = Some (ks', s')" "dc_inv fl s'"
      "dc_options s' = dc_options s1" "dc_contents fl s' \<subseteq>\<^sub>m dc_contents fl s1" "n \<le> length files"
      "dc_fs s' = fold (umap_erase \<circ> fi_path) (take n files) (dc_fs s1)"
      "n < length files \<longrightarrow> below_discard_threshold dbl (used - fi_size e - sum_list (map fi_size (take n files))) limit"
      "\<forall>m<n. \<not> below_discard_threshold dbl (used - fi_size e - sum_list (map fi_size (take m files))) limit"
      by (elim exE conjE) (rule that; assumption)
    have "\<forall>m<Suc n. \<not> below_discard_threshold dbl (used - sum_list (map fi_size (take m (e # files)))) limit"
    proof (intro allI impI)
      fix m assume "m < Suc n"
      then show "\<not> below_discard_threshold dbl (used - sum_list (map fi_size (take m (e # files)))) limit"
        using False n(8) by (cases m) (simp_all add: diff_diff_left)
    qed
    with s1 n False map_le_trans [OF n(4) s1(5)] show ?thesis
      by (intro exI [of _ "Suc n"] exI [of _ ks'] exI [of _ s']) (simp add: diff_diff_left comp_def)
  qed
qed

lemma map_of_fold_erase:
  "map_of (fold (umap_erase \<circ> fi_path) files fs) p = (if p \<in> fi_path ` set files then None else map_of fs p)"
  by (induction files arbitrary: fs) (auto simp: map_of_umap_erase)

lemma sorted_files: "set (sort_key fi_last_used files) = set files" "sorted (map fi_last_used (sort_key fi_last_used files))"
  by simp_all

lemma sum_list_sort_key: "sum_list (map fi_size (sort_key fi_last_used files)) = sum_list (map fi_size files)"
  by (metis mset_map mset_sort sum_mset_sum_list)

lemma Enumerate_files:
  assumes "sanitized c r [a] fs (map fi_path files) fs'"
  shows "distinct (map fi_path (sort_key fi_last_used files))"
    and "\<forall>e\<in>set (sort_key fi_last_used files). is_file fs' (fi_path e) \<and> slash \<in> set (fi_path e)"
proof -
  have "mset (map fi_path (sort_key fi_last_used files)) = mset (map fi_path files)" by (simp only: mset_map mset_sort)
  then show "distinct (map fi_path (sort_key fi_last_used files))"
    using sanitizedD(7) [OF assms] mset_eq_imp_distinct_iff by blast
  show "\<forall>e\<in>set (sort_key fi_last_used files). is_file fs' (fi_path e) \<and> slash \<in> set (fi_path e)"
  proof
    fix e assume "e \<in> set (sort_key fi_last_used files)"
    then have "fi_path e \<in> set (map fi_path files)" by simp
    then show "is_file fs' (fi_path e) \<and> slash \<in> set (fi_path e)"
      unfolding sanitizedD(8) [OF assms] by (auto simp: under_def prefix_def)
  qed
qed

text \<open>The effect of purging one shard. \<open>removed\<close> and \<open>remaining\<close> split the files of the shard.\<close>

text \<open>What a prefix of a list of files takes and what it leaves.\<close>

lemma sum_list_take_drop:
  fixes f :: "'a \<Rightarrow> nat"
  shows "sum_list (map f xs) - sum_list (map f (take m xs)) = sum_list (map f (drop m xs))"
proof -
  have "sum_list (map f xs) = sum_list (map f (take m xs)) + sum_list (map f (drop m xs))"
    by (metis append_take_drop_id map_append sum_list.append)
  then show ?thesis by simp
qed

lemma sorted_take_drop:
  assumes "sorted (map f xs)" "x \<in> set (take n xs)" "y \<in> set (drop n xs)"
  shows "f x \<le> f y"
proof -
  have "sorted (map f (take n xs) @ map f (drop n xs))" using assms(1) by (simp flip: map_append)
  then show ?thesis using assms(2,3) unfolding sorted_append by simp
qed

lemma drop_last_take:
  assumes "take n xs \<noteq> []" "n \<le> length xs"
  shows "drop (n - 1) xs = last (take n xs) # drop n xs"
proof -
  have n: "0 < n" "n - 1 < length xs" using assms by auto
  then have "last (take n xs) = xs ! (n - 1)" using last_conv_nth [OF assms(1)] assms(2) by (simp add: min_def)
  with n show ?thesis using Cons_nth_drop_Suc [of "n - 1" xs] by simp
qed

lemma PurgeCacheAt_ok:
  assumes "dc_inv fl s" "flare_strings fl" "a \<in> set (umap_keys (do_shards (dc_options s)))"
  shows "\<exists>removed remaining ks s'. PurgeCacheAt fl dbl a limit s = Some (ks, s') \<and> dc_inv fl s'
     \<and> dc_options s' = dc_options s \<and> dc_contents fl s' \<subseteq>\<^sub>m dc_contents fl s
     \<and> (\<forall>p. is_file (dc_fs s') p \<and> under a p \<longleftrightarrow> p \<in> fi_path ` set remaining)
     \<and> distinct (map fi_path (removed @ remaining))
     \<and> (\<forall>i\<in>set remaining. GetFileInfo (fi_path i) (dc_fs s') = Some i)
     \<and> (\<forall>x\<in>set removed. \<forall>y\<in>set remaining. fi_last_used x \<le> fi_last_used y)
     \<and> (remaining \<noteq> [] \<longrightarrow> below_discard_threshold dbl (sum_list (map fi_size remaining)) limit)
     \<and> (removed \<noteq> [] \<longrightarrow> \<not> below_discard_threshold dbl (sum_list (map fi_size (last removed # remaining))) limit)"
proof -
  obtain files fs' where en: "EnumerateCacheEntries a (do_sub_dir_level (dc_options s)) (dc_fs s) = Some (files, fs')"
    "sanitized (slashes a) (do_sub_dir_level (dc_options s)) [a] (dc_fs s) (map fi_path files) fs'"
    "\<forall>i\<in>set files. GetFileInfo (fi_path i) fs' = Some i"
    using Enumerate_ok [OF assms(1,3)] by blast
  let ?s1 = "s\<lparr>dc_fs := fs'\<rparr>"
  let ?files = "sort_key fi_last_used files"
  let ?total = "sum_list (map fi_size files)"
  note s1 = dc_inv_sanitized [OF assms(1-3) en(2)]
  from PurgeFiles_ok [OF s1(1) assms(2) Enumerate_files(1) [OF en(2)], of dbl limit ?total "[]"] Enumerate_files(2) [OF en(2)]
  obtain n ks s' where n: "PurgeFiles fl dbl limit ?files ?total ([], ?s1) = Some (ks, s')" "dc_inv fl s'"
    "dc_options s' = dc_options ?s1" "dc_contents fl s' \<subseteq>\<^sub>m dc_contents fl ?s1" "n \<le> length ?files"
    "dc_fs s' = fold (umap_erase \<circ> fi_path) (take n ?files) (dc_fs ?s1)"
    "n < length ?files \<longrightarrow> below_discard_threshold dbl (?total - sum_list (map fi_size (take n ?files))) limit"
    "\<forall>m<n. \<not> below_discard_threshold dbl (?total - sum_list (map fi_size (take m ?files))) limit" by auto
  let ?rm = "take n ?files" and ?rest = "drop n ?files"
  have run: "PurgeCacheAt fl dbl a limit s = Some (ks, s')" using en(1) n(1) by (simp add: PurgeCacheAt_def)
  have split: "?rm @ ?rest = ?files" by simp
  have dist: "distinct (map fi_path (?rm @ ?rest))" using Enumerate_files(1) [OF en(2)] by simp
  then have disj: "fi_path ` set ?rm \<inter> fi_path ` set ?rest = {}" unfolding map_append distinct_append by simp
  have un: "fi_path ` set ?rm \<union> fi_path ` set ?rest = fi_path ` set files"
  proof -
    have "fi_path ` set ?rm \<union> fi_path ` set ?rest = fi_path ` set (?rm @ ?rest)" by (simp only: set_append image_Un)
    then show ?thesis unfolding split by simp
  qed
  have fs: "map_of (dc_fs s') p = (if p \<in> fi_path ` set ?rm then None else map_of fs' p)" for p
    unfolding n(6) map_of_fold_erase by simp
  have tot: "?total - sum_list (map fi_size (take m ?files)) = sum_list (map fi_size (drop m ?files))" for m
    using sum_list_take_drop [of fi_size ?files m] sum_list_sort_key by metis
  have rem: "is_file (dc_fs s') p \<and> under a p \<longleftrightarrow> p \<in> fi_path ` set ?rest" for p
  proof -
    have "is_file fs' p \<and> under a p \<longleftrightarrow> p \<in> fi_path ` set files" using sanitizedD(8) [OF en(2), of p] by simp
    then show ?thesis using fs [of p] disj un by (auto simp: is_file_def)
  qed
  have infos: "GetFileInfo (fi_path i) (dc_fs s') = Some i" if "i \<in> set ?rest" for i
  proof -
    have "i \<in> set ?files" using that in_set_dropD by fast
    then have "GetFileInfo (fi_path i) fs' = Some i" using en(3) by simp
    moreover have "fi_path i \<notin> fi_path ` set ?rm" using that disj by blast
    ultimately show ?thesis using fs by (simp add: GetFileInfo_def)
  qed
  have ord: "fi_last_used x \<le> fi_last_used y" if "x \<in> set ?rm" "y \<in> set ?rest" for x y
    by (rule sorted_take_drop [OF sorted_files(2) that])
  have stop: "below_discard_threshold dbl (sum_list (map fi_size ?rest)) limit" if "?rest \<noteq> []"
    using that n(7) tot by auto
  have need: "\<not> below_discard_threshold dbl (sum_list (map fi_size (last ?rm # ?rest))) limit" if "?rm \<noteq> []"
  proof -
    have "n \<noteq> 0" using that by auto
    then have "\<not> below_discard_threshold dbl (sum_list (map fi_size (drop (n - 1) ?files))) limit"
      using n(8) [rule_format, of "n - 1"] unfolding tot by simp
    moreover have "drop (n - 1) ?files = last ?rm # ?rest" by (rule drop_last_take [OF that n(5)])
    ultimately show ?thesis by simp
  qed
  show ?thesis
    using run n(2-4) s1(2) rem dist infos ord stop need
    by (intro exI [of _ ?rm] exI [of _ ?rest] exI [of _ ks] exI [of _ s'] conjI ballI impI allI) simp_all
qed

lemma dc_Purge_ok:
  assumes "dc_inv fl s" "flare_strings fl"
  shows "\<exists>s'. dc_Purge fl dbl s = Some s' \<and> dc_inv fl s' \<and> dc_contents fl s' \<subseteq>\<^sub>m dc_contents fl s"
proof -
  have "\<exists>s'. run_calls (\<lambda>(path, limit) s. map_option snd (PurgeCacheAt fl dbl path limit s)) shards s = Some s'
      \<and> dc_inv fl s' \<and> dc_contents fl s' \<subseteq>\<^sub>m dc_contents fl s"
    if "dc_inv fl s" "set shards \<subseteq> set (do_shards (dc_options s))" for shards s
    using that
  proof (induction shards arbitrary: s)
    case (Cons x shards)
    obtain a limit where x: "x = (a, limit)" by (cases x)
    then have "a \<in> set (umap_keys (do_shards (dc_options s)))" using Cons.prems(2) by force
    from PurgeCacheAt_ok [OF Cons.prems(1) assms(2) this, of dbl limit]
    obtain ks s1 where s1: "PurgeCacheAt fl dbl a limit s = Some (ks, s1)" "dc_inv fl s1" "dc_options s1 = dc_options s"
      "dc_contents fl s1 \<subseteq>\<^sub>m dc_contents fl s" by blast
    from Cons.IH [OF s1(2)] Cons.prems(2) s1(3) obtain s' where
      "run_calls (\<lambda>(path, limit) s. map_option snd (PurgeCacheAt fl dbl path limit s)) shards s1 = Some s'"
      "dc_inv fl s'" "dc_contents fl s' \<subseteq>\<^sub>m dc_contents fl s1" by auto
    with s1 x map_le_trans [OF _ s1(4)] show ?case by (intro exI [of _ s']) simp
  qed simp
  from this [OF assms(1) subset_refl] show ?thesis by (simp add: dc_Purge_def)
qed

end
