(* ===== verification/Disk_Cache_Startup.thy ===== *)
theory Disk_Cache_Startup
  imports Disk_Cache_Proofs
begin

text \<open>
  Start up of the disk cache: when the constructor does not abort it has established the invariant,
  whatever foreign files and misplaced entries the shard directories contained, provided the file
  names found there are the ones the cache itself writes.
\<close>

section \<open>Creating the directories\<close>

fun normal_path :: "string \<Rightarrow> bool" where
  "normal_path [] = True"
| "normal_path [c] = (c \<noteq> slash)"
| "normal_path (c # d # cs) = (\<not> (c = slash \<and> d = slash) \<and> normal_path (d # cs))"

lemma normal_path_child:
  "normal_path a \<Longrightarrow> a \<noteq> [] \<Longrightarrow> slash \<notin> set n \<Longrightarrow> n \<noteq> [] \<Longrightarrow> normal_path (a @ slash # n)"
proof (induction a rule: normal_path.induct)
  case (2 c)
  have "normal_path n" if "slash \<notin> set n" for n :: string
    using that by (induction n rule: normal_path.induct) auto
  with 2 show ?case by (cases n) auto
qed auto

lemma normal_path_prefix: "normal_path (x @ slash # y) \<Longrightarrow> x \<noteq> [] \<Longrightarrow> after_last_slash x \<noteq> []"
proof -
  assume n: "normal_path (x @ slash # y)" and x: "x \<noteq> []"
  have "last x \<noteq> slash"
    using n x by (induction x rule: normal_path.induct) (auto split: if_splits)
  then show ?thesis using x by (cases x rule: rev_cases) (auto simp: after_last_slash_def)
qed

lemma normal_path_last: "normal_path x \<Longrightarrow> x \<noteq> [] \<Longrightarrow> after_last_slash x \<noteq> []"
proof -
  assume n: "normal_path x" and x: "x \<noteq> []"
  have "last x \<noteq> slash" using n x by (induction x rule: normal_path.induct) auto
  then show ?thesis using x by (cases x rule: rev_cases) (auto simp: after_last_slash_def)
qed

lemma normal_path_in_shard: "normal_path a \<Longrightarrow> a \<noteq> [] \<Longrightarrow> normal_path (path_in_shard a ds) \<and> path_in_shard a ds \<noteq> []"
proof (induction ds rule: rev_induct)
  case Nil
  then show ?case by (simp add: path_in_shard_def)
next
  case (snoc d ds)
  then show ?case
    using normal_path_child [of "path_in_shard a ds" "to_string d"] slash_not_in_to_string
    by (simp add: path_in_shard_snoc)
qed

text \<open>What creating directories keeps.\<close>

definition only_adds_dirs :: "filesystem \<Rightarrow> filesystem \<Rightarrow> bool" where
  "only_adds_dirs fs fs' \<longleftrightarrow> fs_wf fs' \<and> types_ok fs'
     \<and> (\<forall>p n. map_of fs p = Some n \<longrightarrow> map_of fs' p = Some n) \<and> (\<forall>p. is_file fs' p \<longrightarrow> is_file fs p)"

lemma only_adds_dirs_trans: "only_adds_dirs fs fs1 \<Longrightarrow> only_adds_dirs fs1 fs2 \<Longrightarrow> only_adds_dirs fs fs2"
  by (auto simp: only_adds_dirs_def)

lemma mkdir_adds:
  assumes "fs_wf fs" "types_ok fs" "after_last_slash p \<noteq> []" "mkdir_if_missing p fs = Some fs'"
  shows "only_adds_dirs fs fs' \<and> map_of fs' p \<noteq> None"
proof (cases "map_of fs p = None")
  case False
  with assms show ?thesis by (simp add: mkdir_if_missing_def only_adds_dirs_def)
next
  case True
  then have fs': "fs' = (p, Directory) # fs" "parent_exists p fs"
    using assms(4) by (auto simp: mkdir_if_missing_def split: if_splits)
  have "p \<notin> fst ` set fs" using True by (simp add: map_of_eq_None_iff)
  then have dist: "distinct (umap_keys fs')" using fs_wf_distinct [OF assms(1)] fs' by simp
  have "fs_wf fs'"
    by (rule fs_wf_update [OF assms(1) dist]) (use fs' True assms(3) in \<open>auto simp: is_directory_def\<close>)
  moreover have "types_ok fs'" using assms(2) fs' by (simp add: types_ok_def d_type_def type_bits_def)
  moreover have "\<forall>q n. map_of fs q = Some n \<longrightarrow> map_of fs' q = Some n" using True fs' by auto
  moreover have "\<forall>q. is_file fs' q \<longrightarrow> is_file fs q" using fs' by (auto simp: is_file_def split: if_splits)
  ultimately show ?thesis using fs' by (simp add: only_adds_dirs_def)
qed

lemma mkdirs_add:
  assumes "fs_wf fs" "types_ok fs" "\<forall>p\<in>set ps. after_last_slash p \<noteq> []" "run_calls mkdir_if_missing ps fs = Some fs'"
  shows "only_adds_dirs fs fs' \<and> (\<forall>p\<in>set ps. map_of fs' p \<noteq> None)"
  using assms
proof (induction ps arbitrary: fs)
  case Nil
  then show ?case by (simp add: only_adds_dirs_def)
next
  case (Cons p ps)
  then obtain fs1 where fs1: "mkdir_if_missing p fs = Some fs1" "run_calls mkdir_if_missing ps fs1 = Some fs'"
    by (auto split: option.splits)
  from mkdir_adds [OF Cons.prems(1,2) _ fs1(1)] Cons.prems(3) have a: "only_adds_dirs fs fs1" "map_of fs1 p \<noteq> None" by auto
  then have "fs_wf fs1" "types_ok fs1" by (auto simp: only_adds_dirs_def)
  from Cons.IH [OF this _ fs1(2)] Cons.prems(3) have b: "only_adds_dirs fs1 fs'" "\<forall>p\<in>set ps. map_of fs' p \<noteq> None" by auto
  have "map_of fs' p \<noteq> None" using a(2) b(1) by (auto simp: only_adds_dirs_def)
  with b only_adds_dirs_trans [OF a(1) b(1)] show ?case by simp
qed

lemma Mkdirs_adds:
  assumes "fs_wf fs" "types_ok fs" "normal_path d" "d \<noteq> []" "Mkdirs d fs = Some fs'"
  shows "only_adds_dirs fs fs' \<and> map_of fs' d \<noteq> None"
proof -
  have "after_last_slash p \<noteq> []"
    if p: "p \<in> set (map (\<lambda>i. take i d) (filter (\<lambda>i. d ! i = slash) [1..<length d]) @ [d])" for p
  proof (cases "p = d")
    case True
    then show ?thesis using normal_path_last assms(3,4) by simp
  next
    case False
    then obtain i where i: "p = take i d" "d ! i = slash" "1 \<le> i" "i < length d" using p by auto
    then have "d = take i d @ slash # drop (Suc i) d" by (metis id_take_nth_drop)
    with normal_path_prefix [of "take i d" "drop (Suc i) d"] i assms(3) show ?thesis by auto
  qed
  with mkdirs_add [OF assms(1,2), of "map (\<lambda>i. take i d) (filter (\<lambda>i. d ! i = slash) [1..<length d]) @ [d]" fs'] assms(5)
  show ?thesis by (simp add: Mkdirs_def)
qed

lemma Mkdirs_list_adds:
  assumes "fs_wf fs" "types_ok fs" "\<forall>d\<in>set ds. normal_path d \<and> d \<noteq> []" "run_calls Mkdirs ds fs = Some fs'"
  shows "only_adds_dirs fs fs' \<and> (\<forall>d\<in>set ds. map_of fs' d \<noteq> None)"
  using assms
proof (induction ds arbitrary: fs)
  case Nil
  then show ?case by (simp add: only_adds_dirs_def)
next
  case (Cons d ds)
  then obtain fs1 where fs1: "Mkdirs d fs = Some fs1" "run_calls Mkdirs ds fs1 = Some fs'" by (auto split: option.splits)
  from Mkdirs_adds [OF Cons.prems(1,2) _ _ fs1(1)] Cons.prems(3) have a: "only_adds_dirs fs fs1" "map_of fs1 d \<noteq> None" by auto
  then have "fs_wf fs1" "types_ok fs1" by (auto simp: only_adds_dirs_def)
  from Cons.IH [OF this _ fs1(2)] Cons.prems(3) have b: "only_adds_dirs fs1 fs'" "\<forall>p\<in>set ds. map_of fs' p \<noteq> None" by auto
  have "map_of fs' d \<noteq> None" using a(2) b(1) by (auto simp: only_adds_dirs_def)
  with b only_adds_dirs_trans [OF a(1) b(1)] show ?case by simp
qed

section \<open>The shards before loading\<close>

definition options_ok :: "DiskCacheOptions \<Rightarrow> bool" where
  "options_ok opts \<longleftrightarrow> 0 < do_sub_dir_level opts \<and> 0 < do_sub_dirs opts \<and> do_shards opts \<noteq> []
     \<and> (\<forall>x\<in>set (do_shards opts). fst x \<noteq> [] \<and> normal_path (fst x) \<and> snd x < 2 ^ 64
          \<and> (\<forall>y\<in>set (do_shards opts). \<not> under (fst x) (fst y)))"

text \<open>Names that are read back as the name they were written under, and no file where the cache
  needs a directory.\<close>

definition canonical_names :: "flare \<Rightarrow> filesystem \<Rightarrow> bool" where
  "canonical_names fl fs \<longleftrightarrow>
     (\<forall>p k. is_file fs p \<and> GetKeyFromPath fl p = Some k \<longrightarrow> MarshalKey fl k = after_last_slash p)"

definition workspace_ok :: "flare \<Rightarrow> DiskCacheOptions \<Rightarrow> filesystem \<Rightarrow> bool" where
  "workspace_ok fl opts fs \<longleftrightarrow> fs_wf fs \<and> types_ok fs \<and> canonical_names fl fs
     \<and> (\<forall>x\<in>set (do_shards opts). \<forall>d\<in>set (leaf_dirs (do_sub_dir_level opts) (do_sub_dirs opts) (fst x)). \<not> is_file fs d)"

text \<open>The state while the shards are initialised: nothing is recorded yet.\<close>

definition initialising :: "flare \<Rightarrow> DiskCache \<Rightarrow> string set \<Rightarrow> bool" where
  "initialising fl s rdy \<longleftrightarrow> options_ok (dc_options s) \<and> workspace_ok fl (dc_options s) (dc_fs s)
     \<and> (\<forall>a\<in>rdy. map_of (dc_shard_hits s) a \<noteq> None
          \<and> (\<forall>d. cache_dir s a d \<longrightarrow> map_of (dc_entries_per_dir s) d \<noteq> None \<and> is_directory (dc_fs s) d))
     \<and> (\<forall>d es. map_of (dc_entries_per_dir s) d = Some es \<longrightarrow> es = [] \<and> (\<exists>a. cache_dir s a d))"

lemma map_of_fold_set: "map_of (fold (\<lambda>d. umap_set d v) ds m) e = (if e \<in> set ds then Some v else map_of m e)"
  by (induction ds arbitrary: m) (auto simp: map_of_umap_set)

lemma workspace_ok_adds:
  assumes "workspace_ok fl opts fs" "only_adds_dirs fs fs'"
  shows "workspace_ok fl opts fs'"
  using assms unfolding workspace_ok_def canonical_names_def only_adds_dirs_def by blast

lemma InitializeShard_step:
  assumes "initialising fl s rdy" "a \<in> set (umap_keys (do_shards (dc_options s)))" "InitializeShard a s = Some s'"
  shows "initialising fl s' (insert a rdy) \<and> dc_options s' = dc_options s \<and> dc_shard_mapper s' = dc_shard_mapper s"
proof -
  let ?ds = "leaf_dirs (do_sub_dir_level (dc_options s)) (do_sub_dirs (dc_options s)) a"
  have opts: "options_ok (dc_options s)" and ws: "workspace_ok fl (dc_options s) (dc_fs s)"
    using assms(1) by (auto simp: initialising_def)
  obtain w where w: "(a, w) \<in> set (do_shards (dc_options s))" using assms(2) by auto
  have lvl: "do_sub_dir_level (dc_options s) \<noteq> 0" using opts by (simp add: options_ok_def)
  obtain fs' where fs': "run_calls Mkdirs ?ds (dc_fs s) = Some fs'"
    and s': "s' = s\<lparr>dc_entries_per_dir := fold (\<lambda>d. umap_set d []) ?ds (dc_entries_per_dir s), dc_fs := fs',
                    dc_shard_hits := umap_set a 0 (dc_shard_hits s)\<rparr>"
    using assms(3) lvl by (auto simp: InitializeShard_def InitializeWorkspaceAt_def Let_def split: option.splits)
  have "a \<noteq> [] \<and> normal_path a" using opts w by (force simp: options_ok_def)
  then have "\<forall>d\<in>set ?ds. normal_path d \<and> d \<noteq> []"
    using normal_path_in_shard [of a] by (intro ballI) (elim set_leaf_dirs [THEN iffD1, elim_format] exE conjE, simp)
  from Mkdirs_list_adds [OF _ _ this fs'] ws have adds: "only_adds_dirs (dc_fs s) fs'" "\<forall>d\<in>set ?ds. map_of fs' d \<noteq> None"
    by (auto simp: workspace_ok_def)
  have ws': "workspace_ok fl (dc_options s) fs'" using workspace_ok_adds [OF ws adds(1)] .
  have dirs: "is_directory fs' d" if "d \<in> set ?ds" for d
  proof -
    have "\<not> is_file fs' d" using ws' w that by (force simp: workspace_ok_def)
    with adds(2) that is_file_or_directory show ?thesis by blast
  qed
  have cd: "cache_dir s' b d \<longleftrightarrow> cache_dir s b d" for b d using s' by (simp add: cache_dir_def)
  have cda: "cache_dir s a d \<longleftrightarrow> d \<in> set ?ds" for d using assms(2) by (simp add: cache_dir_def)
  have old: "is_directory fs' d" if "is_directory (dc_fs s) d" for d
    using that adds(1) by (auto simp: is_directory_def only_adds_dirs_def)
  have "initialising fl s' (insert a rdy)"
    unfolding initialising_def
  proof (intro conjI ballI allI impI)
    show "options_ok (dc_options s')" "workspace_ok fl (dc_options s') (dc_fs s')" using opts ws' s' by simp_all
  next
    fix b assume "b \<in> insert a rdy"
    then show "map_of (dc_shard_hits s') b \<noteq> None"
      using assms(1) s' by (auto simp: map_of_umap_set initialising_def)
  next
    fix b d assume b: "b \<in> insert a rdy" "cache_dir s' b d"
    show "map_of (dc_entries_per_dir s') d \<noteq> None" "is_directory (dc_fs s') d"
      using b assms(1) s' cd cda dirs old by (auto simp: map_of_fold_set initialising_def)
  next
    fix d es assume "map_of (dc_entries_per_dir s') d = Some es"
    then show "es = []" "\<exists>a. cache_dir s' a d"
      using assms(1) s' cd cda by (auto simp: map_of_fold_set initialising_def split: if_splits)
  qed
  with s' show ?thesis by simp
qed

lemma InitializeShards:
  assumes "initialising fl s rdy" "set as \<subseteq> set (umap_keys (do_shards (dc_options s)))" "run_calls InitializeShard as s = Some s'"
  shows "initialising fl s' (rdy \<union> set as) \<and> dc_options s' = dc_options s \<and> dc_shard_mapper s' = dc_shard_mapper s"
  using assms
proof (induction as arbitrary: s rdy)
  case (Cons a as)
  then obtain s1 where s1: "InitializeShard a s = Some s1" "run_calls InitializeShard as s1 = Some s'"
    by (auto split: option.splits)
  have "a \<in> set (umap_keys (do_shards (dc_options s)))" using Cons.prems(2) by simp
  note st = InitializeShard_step [OF Cons.prems(1) this s1(1)]
  from Cons.IH [OF conjunct1 [OF st] _ s1(2)] Cons.prems(2) st show ?case by auto
qed auto

section \<open>Loading existing files\<close>

lemma GetKeyFromPath_names:
  assumes "flare_strings fl" "GetKeyFromPath fl p = Some k" "MarshalKey fl k = after_last_slash p" "GetDirectoryName p = Some d"
  shows "p = d @ slash # MarshalKey fl k"
  using GetDirectoryName_SomeD [OF assms(4)] assms(3) by simp

lemma canonical_names_mono: "canonical_names fl fs \<Longrightarrow> (\<And>p. is_file fs' p \<Longrightarrow> is_file fs p) \<Longrightarrow> canonical_names fl fs'"
  by (auto simp: canonical_names_def)

lemma canonical_names_set:
  assumes "flare_strings fl" "canonical_names fl fs"
  shows "canonical_names fl (umap_set (d @ slash # MarshalKey fl k) (FileNode t b m) fs)"
  using assms(2) file_entry_key(1) [OF assms(1) refl, of d k] slash_not_in_MarshalKey [OF assms(1), of k]
  by (auto simp: canonical_names_def is_file_set_file after_last_slash_path)

lemma record_loaded_ok:
  assumes "dc_inv fl s" "flare_strings fl" "TryGetPathOfKey fl k s = Some (Some (d @ slash # MarshalKey fl k))"
    "is_file (dc_fs s) (d @ slash # MarshalKey fl k)" "record_loaded d k file s = Some s'"
  shows "dc_inv fl s'" "dc_fs s' = dc_fs s" "dc_options s' = dc_options s"
proof -
  obtain es where es: "map_of (dc_entries_per_dir s) d = Some es"
    and s': "s' = s\<lparr>dc_entries_per_dir :=
       umap_set d (umap_set k \<lparr>ed_file_size = fi_size file, ed_last_accessed = fi_last_used file\<rparr> es) (dc_entries_per_dir s)\<rparr>"
    using assms(5) by (auto simp: record_loaded_def split: option.splits)
  show fs: "dc_fs s' = dc_fs s" and opts: "dc_options s' = dc_options s" using s' by simp_all
  have mapper: "dc_shard_mapper s' = dc_shard_mapper s" "dc_shard_hits s' = dc_shard_hits s" using s' by simp_all
  have e': "map_of (dc_entries_per_dir s') e =
      (if e = d then Some (umap_set k \<lparr>ed_file_size = fi_size file, ed_last_accessed = fi_last_used file\<rparr> es)
       else map_of (dc_entries_per_dir s) e)" for e
    using s' by (simp add: map_of_umap_set)
  have ok: "entry_ok fl s' d k"
    using assms(3,4) TryGetPathOfKey_cong [OF opts mapper(1)] fs by (simp add: entry_ok_def)
  have dist: "distinct (umap_keys es)" using dc_invD(6) [OF assms(1) es] by (simp add: dir_ok_def)
  have inj: "d @ slash # MarshalKey fl k = e @ slash # MarshalKey fl q \<Longrightarrow> e = d \<and> q = k" for e q
    using key_path_inject [OF assms(2)] by metis
  show "dc_inv fl s'"
    by (rule dc_inv_change(1) [OF assms(1,2) opts mapper _ _ _ _ es _ e' _ ok inj])
      (use fs dist dc_invD(2,3) [OF assms(1)] in \<open>simp_all add: map_of_umap_set distinct_umap_set\<close>)
qed

lemma misplaced_not_entry:
  assumes "dc_inv fl s" "flare_strings fl" "GetKeyFromPath fl p = Some k" "GetDirectoryName p = Some dir"
    "TryGetPathOfKey fl k s = Some (Some dst)" "GetDirectoryName dst = Some dst_dir" "dst_dir \<noteq> dir"
    "p = e @ slash # MarshalKey fl q"
  shows "\<not> has_entry s e q"
proof
  assume "has_entry s e q"
  then obtain es where es: "map_of (dc_entries_per_dir s) e = Some es" "map_of es q \<noteq> None"
    by (auto simp: has_entry_def split: option.splits)
  have "q = k" "e = dir" using file_entry_key [OF assms(2,8)] assms(3,4) by simp_all
  with dc_inv_entry [OF assms(1) es] assms(5) have "dst = dir @ slash # MarshalKey fl k" by (simp add: entry_ok_def)
  with file_entry_key(2) [OF assms(2) this] assms(6,7) show False by simp
qed

definition loading :: "flare \<Rightarrow> DiskCache \<Rightarrow> bool" where
  "loading fl s \<longleftrightarrow> dc_inv fl s \<and> canonical_names fl (dc_fs s)"

text \<open>A file that is no entry of the cache may be moved to any place where a file may be created.\<close>

lemma dc_inv_move_file:
  assumes inv: "dc_inv fl s" and node: "map_of (dc_fs s) p = Some (FileNode t b m)" and cc: "can_create dst (dc_fs s)"
    and foreign: "dc_inv fl (s\<lparr>dc_fs := umap_erase p (dc_fs s)\<rparr>)" (is "dc_inv fl ?s1")
  shows "dc_inv fl (s\<lparr>dc_fs := umap_set dst (FileNode t b m) (umap_erase p (dc_fs s))\<rparr>)" (is "dc_inv fl ?s2")
proof -
  let ?fs1 = "umap_erase p (dc_fs s)"
  have "is_directory ?fs1 e \<longleftrightarrow> is_directory (dc_fs s) e" for e
    using node by (auto simp: is_directory_def map_of_umap_erase)
  with cc have cc1: "can_create dst ?fs1" by (simp add: can_create_def parent_exists_def split: option.splits)
  have wf1: "fs_wf ?fs1" "types_ok ?fs1" using dc_invD(2,3) [OF foreign] by simp_all
  have t: "\<not> type_bits t 4" using types_ok_map_of [OF dc_invD(3) [OF inv] node] by (simp add: d_type_def)
  have nodir: "\<not> is_directory ?fs1 dst" using cc1 by (simp add: can_create_def)
  show ?thesis
  proof (rule dc_inv_update [OF foreign])
    show "fs_wf (dc_fs ?s2)" "types_ok (dc_fs ?s2)"
      using fs_wf_set_file [OF wf1(1) cc1] types_ok_set_file [OF wf1 t] by simp_all
    show "is_directory (dc_fs ?s1) e \<Longrightarrow> is_directory (dc_fs ?s2) e" for e
      using is_directory_set_file [OF nodir] by simp
  next
    fix e es es' q
    assume e: "map_of (dc_entries_per_dir ?s1) e = Some es" "map_of (dc_entries_per_dir ?s2) e = Some es'" "map_of es' q \<noteq> None"
    then show "entry_ok fl ?s2 e q"
      using entry_ok_update [OF dc_inv_entry [OF foreign e(1)], of q ?s2] by (simp add: is_file_set_file)
  qed auto
qed

lemma LoadEntry_ok:
  assumes "loading fl s" "flare_strings fl" "is_file (dc_fs s) (fi_path file)" "slash \<in> set (fi_path file)"
    and "LoadEntry fl file s = Some s'"
  shows "loading fl s' \<and> dc_options s' = dc_options s
    \<and> (\<forall>q. q \<noteq> fi_path file \<longrightarrow> is_file (dc_fs s) q \<longrightarrow> is_file (dc_fs s') q)"
proof -
  let ?p = "fi_path file"
  have inv: "dc_inv fl s" and canon: "canonical_names fl (dc_fs s)" using assms(1) by (auto simp: loading_def)
  obtain dir where dir: "GetDirectoryName ?p = Some dir" using assms(4) by (simp add: GetDirectoryName_def)
  have ne: "?p \<noteq> []" using assms(4) by auto
  consider (skip) "s' = s"
    | (found) k dst dst_dir where "GetKeyFromPath fl ?p = Some k" "TryGetPathOfKey fl k s = Some (Some dst)"
        "GetDirectoryName dst = Some dst_dir"
    using assms(5) dir by (auto simp: LoadEntry_def split: option.splits)
  then show ?thesis
  proof cases
    case skip
    with assms(1) show ?thesis by simp
  next
    case found
    obtain d where d: "dst = d @ slash # MarshalKey fl k"
      using key_place [OF inv assms(2), of k] found(2) by auto
    then have dd: "dst_dir = d" using file_entry_key(2) [OF assms(2) d] found(3) by simp
    have canon_p: "?p = dir @ slash # MarshalKey fl k"
      using canon assms(3) found(1) GetKeyFromPath_names [OF assms(2) found(1) _ dir] by (auto simp: canonical_names_def)
    show ?thesis
    proof (cases "dst_dir = dir")
      case True
      then have "record_loaded dir k file s = Some s'" using assms(5) found dir by (simp add: LoadEntry_def)
      from record_loaded_ok [OF inv assms(2) _ _ this] found(2) d dd True canon_p assms(3) canon show ?thesis
        by (simp add: loading_def)
    next
      case False
      note foreign = dc_inv_unlink_foreign [OF inv assms(2,3) ne misplaced_not_entry [OF inv assms(2) found(1) dir found(2,3) False]]
      let ?fs1 = "umap_erase ?p (dc_fs s)"
      let ?s1 = "s\<lparr>dc_fs := ?fs1\<rparr>"
      have fs1: "is_file ?fs1 q \<longleftrightarrow> q \<noteq> ?p \<and> is_file (dc_fs s) q" for q by (simp add: is_file_def map_of_umap_erase)
      have canon1: "canonical_names fl ?fs1" using canonical_names_mono [OF canon, of ?fs1] fs1 by blast
      show ?thesis
      proof (cases "do_action_on_misplaced_cache_entry (dc_options s)")
        case ActionDelete
        with assms(3,5) found dir False have "s' = ?s1" by (simp add: LoadEntry_def fs_unlink_def)
        with foreign canon1 fs1 show ?thesis by (simp add: loading_def)
      next
        case ActionIgnore
        with assms(5) found dir False have "s' = s" by (simp add: LoadEntry_def)
        with assms(1) show ?thesis by simp
      next
        case ActionMove
        obtain t b m where node: "map_of (dc_fs s) ?p = Some (FileNode t b m)" using assms(3) by (auto simp: is_file_fs1)
        have pd: "?p \<noteq> dst" using False dir found(3) by auto
        from ActionMove assms(5) found dir False node pd
        have cc: "can_create dst (dc_fs s)"
          and rl: "record_loaded dst_dir k file (s\<lparr>dc_fs := umap_set dst (FileNode t b m) ?fs1\<rparr>) = Some s'"
          by (auto simp: LoadEntry_def fs_rename_def split: if_splits)
        let ?fs2 = "umap_set dst (FileNode t b m) ?fs1"
        let ?s2 = "s\<lparr>dc_fs := ?fs2\<rparr>"
        have fs2: "is_file ?fs2 q \<longleftrightarrow> q = dst \<or> is_file ?fs1 q" for q by (simp add: is_file_set_file)
        have "dc_inv fl ?s2" by (rule dc_inv_move_file [OF inv node cc foreign(1)])
        moreover have "canonical_names fl ?fs2" using canonical_names_set [OF assms(2) canon1] d by simp
        moreover have "TryGetPathOfKey fl k ?s2 = Some (Some (dst_dir @ slash # MarshalKey fl k))"
          using TryGetPathOfKey_cong [of ?s2 s fl k] found(2) d dd by simp
        moreover have "is_file (dc_fs ?s2) (dst_dir @ slash # MarshalKey fl k)" using fs2 d dd by simp
        ultimately show ?thesis
          using record_loaded_ok [OF _ assms(2) _ _ rl] fs2 fs1 by (simp add: loading_def)
      qed
    qed
  qed
qed

lemma LoadEntries_ok:
  assumes "loading fl s" "flare_strings fl" "distinct (map fi_path files)"
    and "\<forall>e\<in>set files. is_file (dc_fs s) (fi_path e) \<and> slash \<in> set (fi_path e)"
    and "run_calls (LoadEntry fl) files s = Some s'"
  shows "loading fl s' \<and> dc_options s' = dc_options s"
  using assms
proof (induction files arbitrary: s)
  case (Cons e files)
  then obtain s1 where s1: "LoadEntry fl e s = Some s1" "run_calls (LoadEntry fl) files s1 = Some s'"
    by (auto split: option.splits)
  from LoadEntry_ok [OF Cons.prems(1,2) _ _ s1(1)] Cons.prems(4)
  have l: "loading fl s1" "dc_options s1 = dc_options s"
    "\<And>q. q \<noteq> fi_path e \<Longrightarrow> is_file (dc_fs s) q \<Longrightarrow> is_file (dc_fs s1) q" by auto
  have "\<forall>x\<in>set files. is_file (dc_fs s1) (fi_path x) \<and> slash \<in> set (fi_path x)"
  proof
    fix x assume x: "x \<in> set files"
    then have "fi_path x \<noteq> fi_path e" using Cons.prems(3) by (auto simp: image_iff)
    with l(3) x Cons.prems(4) show "is_file (dc_fs s1) (fi_path x) \<and> slash \<in> set (fi_path x)" by simp
  qed
  from Cons.IH [OF l(1) Cons.prems(2) _ this s1(2)] Cons.prems(3) l(2) show ?case by simp
qed simp

lemma LoadShard_ok:
  assumes "loading fl s" "flare_strings fl" "a \<in> set (umap_keys (do_shards (dc_options s)))" "LoadShard fl a s = Some s'"
  shows "loading fl s' \<and> dc_options s' = dc_options s"
proof -
  have inv: "dc_inv fl s" using assms(1) by (simp add: loading_def)
  obtain files fs' where en: "EnumerateCacheEntries a (do_sub_dir_level (dc_options s)) (dc_fs s) = Some (files, fs')"
    "sanitized (slashes a) (do_sub_dir_level (dc_options s)) [a] (dc_fs s) (map fi_path files) fs'"
    using Enumerate_ok [OF inv assms(3)] by blast
  let ?s1 = "s\<lparr>dc_fs := fs'\<rparr>"
  have "canonical_names fl fs'"
    using assms(1) canonical_names_mono sanitizedD(3) [OF en(2)] by (fastforce simp: loading_def is_file_fs1)
  then have "loading fl ?s1" using dc_inv_sanitized(1) [OF inv assms(2,3) en(2)] by (simp add: loading_def)
  moreover have "run_calls (LoadEntry fl) files ?s1 = Some s'" using assms(4) en(1) by (simp add: LoadShard_def)
  moreover have "\<forall>e\<in>set files. is_file (dc_fs ?s1) (fi_path e) \<and> slash \<in> set (fi_path e)"
    using Enumerate_files(2) [OF en(2)] by simp
  ultimately show ?thesis using LoadEntries_ok [OF _ assms(2) sanitizedD(7) [OF en(2)], of ?s1 s'] by simp
qed

lemma LoadShards_ok:
  assumes "loading fl s" "flare_strings fl" "set as \<subseteq> set (umap_keys (do_shards (dc_options s)))"
    "run_calls (LoadShard fl) as s = Some s'"
  shows "loading fl s'"
  using assms
proof (induction as arbitrary: s)
  case (Cons a as)
  then obtain s1 where s1: "LoadShard fl a s = Some s1" "run_calls (LoadShard fl) as s1 = Some s'"
    by (auto split: option.splits)
  have "a \<in> set (umap_keys (do_shards (dc_options s)))" using Cons.prems(3) by simp
  from LoadShard_ok [OF Cons.prems(1,2) this s1(1)] Cons.IH [OF _ Cons.prems(2) _ s1(2)] Cons.prems(3) show ?case by simp
qed simp

section \<open>The constructor\<close>

lemma weighted_set_keys: "fst ` set (weighted_set d w m) = insert d (fst ` set m)"
  by (induction d w m rule: weighted_set.induct) auto

lemma weighted_set_weights: "x \<in> set (weighted_set d w m) \<Longrightarrow> x = (d, w) \<or> x \<in> set m"
  by (induction d w m rule: weighted_set.induct) (auto split: if_splits)

lemma GetWeightedDirs_fold:
  "fst ` set (fold (\<lambda>(dir, n). weighted_set dir (weight_of_size n)) ds m) = fst ` set ds \<union> fst ` set m
   \<and> (\<forall>x\<in>set (fold (\<lambda>(dir, n). weighted_set dir (weight_of_size n)) ds m). x \<in> set m \<or> (\<exists>y\<in>set ds. snd x = weight_of_size (snd y)))"
proof (induction ds arbitrary: m)
  case (Cons e ds)
  obtain d n where e: "e = (d, n)" by (cases e)
  let ?m = "weighted_set d (weight_of_size n) m"
  let ?r = "fold (\<lambda>(dir, n). weighted_set dir (weight_of_size n)) ds ?m"
  note ih = Cons [of ?m]
  have "x \<in> set m \<or> (\<exists>y\<in>set (e # ds). snd x = weight_of_size (snd y))" if "x \<in> set ?r" for x
    using ih that weighted_set_weights [of x d "weight_of_size n" m] e by auto
  with ih e weighted_set_keys [of d "weight_of_size n" m] show ?case by simp
qed simp

lemma weight_of_size_bounds: "n < 2 ^ 64 \<Longrightarrow> 0 < weight_of_size n \<and> weight_of_size n < 2 ^ 44"
proof -
  assume n: "n < 2 ^ 64"
  have "drop_bit 7 (drop_bit 20 n) < 2 ^ 44"
    using n by (simp add: drop_bit_eq_div div_mult2_eq [symmetric] less_mult_imp_div_less)
  then show ?thesis by (simp add: weight_of_size_def Let_def)
qed

lemma ring_of_options:
  assumes "options_ok opts" "ConsistentHash_ctor fl (GetWeightedDirs (do_shards opts)) = Some ring"
  shows "ring \<noteq> []" "snd ` set ring \<subseteq> set (umap_keys (do_shards opts))"
proof -
  note f = GetWeightedDirs_fold [of "do_shards opts" "[]", folded GetWeightedDirs_def]
  obtain x where "x \<in> set (do_shards opts)" using assms(1) by (cases "do_shards opts") (auto simp: options_ok_def)
  then have "fst x \<in> fst ` set (GetWeightedDirs (do_shards opts))" using f by simp
  then obtain y where y: "y \<in> set (GetWeightedDirs (do_shards opts))" by auto
  then obtain z where z: "z \<in> set (do_shards opts)" "snd y = weight_of_size (snd z)" using f by auto
  then have "0 < snd y \<and> snd y < 2 ^ 44" using weight_of_size_bounds assms(1) by (auto simp: options_ok_def)
  with ring_nonempty [OF assms(2), of "fst y" "snd y"] y show "ring \<noteq> []" by simp
  show "snd ` set ring \<subseteq> set (umap_keys (do_shards opts))"
    using ring_nodes [OF assms(2)] f by auto
qed

lemma DiskCache_ctor_loading:
  assumes "flare_strings fl" "options_ok opts" "workspace_ok fl opts fs" "DiskCache_ctor fl opts fs = Some s"
  shows "loading fl s"
proof -
  obtain ring where ring: "ConsistentHash_ctor fl (GetWeightedDirs (do_shards opts)) = Some ring"
    using assms(4) by (auto simp: DiskCache_ctor_def split: option.splits)
  let ?s0 = "\<lparr>dc_options = opts, dc_shard_mapper = ring, dc_entries_per_dir = [], dc_shard_hits = [],
               dc_cache_fills = 0, dc_cache_hits = 0, dc_cache_misses = 0, dc_cache_overwrites = 0, dc_fs = fs\<rparr>"
  let ?as = "umap_keys (do_shards opts)"
  obtain s1 where s1: "run_calls InitializeShard ?as ?s0 = Some s1" "run_calls (LoadShard fl) ?as s1 = Some s"
    using assms(4) ring by (auto simp: DiskCache_ctor_def Let_def split: bind_splits)
  have "initialising fl ?s0 {}" using assms(2,3) by (simp add: initialising_def)
  from InitializeShards [OF this _ s1(1)]
  have i: "initialising fl s1 (set ?as)" "dc_options s1 = opts" "dc_shard_mapper s1 = ring" by simp_all
  note rg = ring_of_options [OF assms(2) ring]
  have "dc_config_ok s1"
    unfolding dc_config_ok_def i(2,3)
    using rg assms(2) i(1) by (auto simp: options_ok_def initialising_def)
  moreover have "\<forall>a d. cache_dir s1 a d \<longrightarrow> map_of (dc_entries_per_dir s1) d \<noteq> None \<and> is_directory (dc_fs s1) d"
  proof (intro allI impI)
    fix a d assume c: "cache_dir s1 a d"
    then have "a \<in> set ?as" using i(2) by (simp add: cache_dir_def)
    with c i(1) show "map_of (dc_entries_per_dir s1) d \<noteq> None \<and> is_directory (dc_fs s1) d"
      unfolding initialising_def by blast
  qed
  moreover have "\<forall>d es. map_of (dc_entries_per_dir s1) d = Some es \<longrightarrow> dir_ok fl s1 d es"
  proof (intro allI impI)
    fix d es assume "map_of (dc_entries_per_dir s1) d = Some es"
    with i(1) have "es = []" "\<exists>a. cache_dir s1 a d" unfolding initialising_def by blast+
    then show "dir_ok fl s1 d es" by (simp add: dir_ok_def)
  qed
  ultimately have "loading fl s1"
    using i(1) by (simp add: loading_def dc_inv_def initialising_def workspace_ok_def)
  from LoadShards_ok [OF this assms(1) _ s1(2)] i(2) show ?thesis by simp
qed

section \<open>The cache as a machine\<close>

datatype dc_call = DcPut bool bytes time_point string bytes | DcTryGet bool time_point string | DcPurge

text \<open>The padding of a header is some 32 bytes.\<close>

definition pad32 :: "bytes \<Rightarrow> bytes" where
  "pad32 b = take 32 (b @ replicate 32 CHR 0x00)"

fun dc_step :: "flare \<Rightarrow> double_ops \<Rightarrow> dc_call \<Rightarrow> DiskCache \<Rightarrow> DiskCache option" where
  "dc_step fl dbl (DcPut open_ok pad now k b) s = dc_Put fl open_ok (pad32 pad) now k b s"
| "dc_step fl dbl (DcTryGet read_ok now k) s = map_option snd (dc_TryGet fl read_ok now k s)"
| "dc_step fl dbl DcPurge s = dc_Purge fl dbl s"

lemma length_pad32 [simp]: "length (pad32 b) = 32"
  by (simp add: pad32_def)

text \<open>The map that remembers every value put.\<close>

fun dc_spec_step :: "dc_call \<Rightarrow> (string \<Rightarrow> bytes option) \<Rightarrow> (string \<Rightarrow> bytes option)" where
  "dc_spec_step (DcPut open_ok pad now k b) m = m(k \<mapsto> b)"
| "dc_spec_step c m = m"

lemma dc_step_ok:
  assumes "flare_strings fl" "dc_inv fl s"
  shows "\<exists>s'. dc_step fl dbl c s = Some s' \<and> dc_inv fl s'
    \<and> (\<forall>m. dc_contents fl s \<subseteq>\<^sub>m m \<longrightarrow> dc_contents fl s' \<subseteq>\<^sub>m dc_spec_step c m)"
proof (cases c)
  case (DcPut open_ok pad now k b)
  from dc_Put_ok [OF assms(2,1) length_pad32, of open_ok pad now k b] obtain s' where
    s': "dc_Put fl open_ok (pad32 pad) now k b s = Some s'" "dc_inv fl s'"
    "dc_contents fl s' = (dc_contents fl s)(k := if storable fl open_ok k s then Some b else None)" by blast
  have "dc_contents fl s' \<subseteq>\<^sub>m m(k \<mapsto> b)" if "dc_contents fl s \<subseteq>\<^sub>m m" for m
    using that unfolding s'(3) by (auto simp: map_le_def dom_def split: if_splits)
  with s' DcPut show ?thesis by simp
next
  case (DcTryGet read_ok now k)
  from dc_TryGet_ok [OF assms(2,1), of read_ok now k] obtain r s' where
    "dc_TryGet fl read_ok now k s = Some (r, s')" "dc_inv fl s'" "dc_contents fl s' = dc_contents fl s" by blast
  with DcTryGet show ?thesis by simp
next
  case DcPurge
  from dc_Purge_ok [OF assms(2,1), of dbl] obtain s' where
    "dc_Purge fl dbl s = Some s'" "dc_inv fl s'" "dc_contents fl s' \<subseteq>\<^sub>m dc_contents fl s" by blast
  with DcPurge map_le_trans show ?thesis by (auto intro: map_le_trans)
qed

interpretation disk_cache: safe_machine "dc_step fl dbl" "\<lambda>s. flare_strings fl \<and> dc_inv fl s"
proof
  show "flare_strings fl \<and> dc_inv fl s \<Longrightarrow> dc_step fl dbl c s = Some t \<Longrightarrow> flare_strings fl \<and> dc_inv fl t" for s c t
    using dc_step_ok [of fl s dbl c] by auto
  show "flare_strings fl \<and> dc_inv fl s \<Longrightarrow> \<exists>t. dc_step fl dbl c s = Some t" for s c
    using dc_step_ok [of fl s dbl c] by auto
qed

lemma dc_run_refines:
  assumes "flare_strings fl" "dc_inv fl s" "run_calls (dc_step fl dbl) cs s = Some s'" "dc_contents fl s \<subseteq>\<^sub>m m"
  shows "dc_contents fl s' \<subseteq>\<^sub>m fold dc_spec_step cs m"
  using assms
proof (induction cs arbitrary: s m)
  case (Cons c cs)
  from dc_step_ok [OF Cons.prems(1,2), of dbl c] obtain s1 where
    s1: "dc_step fl dbl c s = Some s1" "dc_inv fl s1" "dc_contents fl s1 \<subseteq>\<^sub>m dc_spec_step c m" using Cons.prems(4) by blast
  with Cons.prems(3) Cons.IH [OF Cons.prems(1) s1(2) _ s1(3)] show ?case by simp
qed simp

end
