(* ===== verification/Disk_Cache_Properties.thy ===== *)
theory Disk_Cache_Properties
  imports Disk_Cache_Startup
begin

text \<open>
  The properties of the disk cache, with a small concrete cache on which each is exercised: one
  shard with one subdirectory, on a file system that already holds an entry, a foreign file and a
  foreign directory.
\<close>

section \<open>A concrete cache\<close>

definition demo_flare :: flare where
  "demo_flare = reference_flare\<lparr>fl_XXH64 := (\<lambda>_. 5), fl_Blake3 := (\<lambda>b. take 32 (b @ replicate 32 CHR ''#''))\<rparr>"

lemma flare_strings_demo: "flare_strings demo_flare"
proof -
  have "flare_strings reference_flare" by (rule flare_strings_reference)
  then show ?thesis by (auto simp: flare_strings_def demo_flare_def)
qed

definition demo_disk_options :: DiskCacheOptions where
  "demo_disk_options = \<lparr>do_shards = [(''/c'', 200)], do_action_on_misplaced_cache_entry = ActionMove,
                   do_sub_dir_level = 1, do_sub_dirs = 1\<rparr>"

definition demo_disk_fs :: filesystem where
  "demo_disk_fs = [(''/c'', Directory), (''/c/stray'', FileNode DT_REG ''x'' 0), (''/c/0'', Directory),
              (''/c/0/old'', FileNode DT_REG (WriteFileHeader demo_flare (replicate 32 CHR ''.'') ''1'' @ ''1'') 7),
              (''/c/0/sub'', Directory), (''/c/0/sub/f'', FileNode DT_REG [] 3)]"

definition demo_disk_calls :: "dc_call list" where
  "demo_disk_calls = [DcPut True [] (seconds 10) ''k'' ''value'', DcPut True [] (seconds 20) ''big'' ''zzzzzzzzzz'',
                 DcTryGet True (seconds 30) ''k'', DcPut False [] (seconds 40) ''q'' ''lost'']"

lemma canonical_names_list:
  assumes "\<forall>e\<in>set fs. snd e \<noteq> Directory \<longrightarrow>
     (case GetKeyFromPath fl (fst e) of None \<Rightarrow> True | Some k \<Rightarrow> MarshalKey fl k = after_last_slash (fst e))"
  shows "canonical_names fl fs"
  unfolding canonical_names_def
proof (intro allI impI)
  fix p k assume "is_file fs p \<and> GetKeyFromPath fl p = Some k"
  then obtain t b m where "(p, FileNode t b m) \<in> set fs" "GetKeyFromPath fl p = Some k"
    by (auto simp: is_file_fs1 dest: map_of_SomeD)
  with assms show "MarshalKey fl k = after_last_slash p" by force
qed

lemma demo_ok: "options_ok demo_disk_options" "workspace_ok demo_flare demo_disk_options demo_disk_fs"
proof -
  show "options_ok demo_disk_options" by code_simp
  have "canonical_names demo_flare demo_disk_fs" by (rule canonical_names_list) code_simp
  moreover have "fs_wf demo_disk_fs" "types_ok demo_disk_fs"
    "\<forall>x\<in>set (do_shards demo_disk_options). \<forall>d\<in>set (leaf_dirs (do_sub_dir_level demo_disk_options) (do_sub_dirs demo_disk_options) (fst x)). \<not> is_file demo_disk_fs d"
    by code_simp+
  ultimately show "workspace_ok demo_flare demo_disk_options demo_disk_fs" by (simp add: workspace_ok_def)
qed

lemma demo_disk_start:
  "map_option dc_GetKeys (DiskCache_ctor demo_flare demo_disk_options demo_disk_fs) = Some [''old'']"
  by code_simp

section \<open>Properties\<close>



text \<open>C23. The disk cache refines a map: after any sequence of operations a lookup returns exactly the
  verified contents of the entry when the file can be read, these contents are nothing or the value
  stored last under the key (or the one found on disk at start up), and the lookup changes them for
  no key.\<close>

theorem disk_cache_refines_map:
  assumes "flare_strings fl" "options_ok opts" "workspace_ok fl opts fs" "DiskCache_ctor fl opts fs = Some s0"
    and "run_calls (dc_step fl dbl) cs s0 = Some s"
  shows "\<exists>r s'. dc_TryGet fl read_ok now k s = Some (r, s') \<and> dc_contents fl s' = dc_contents fl s
     \<and> r = (if read_ok then dc_contents fl s k else None)
     \<and> (r = None \<or> r = fold dc_spec_step cs (dc_contents fl s0) k)"
proof -
  have i: "flare_strings fl \<and> dc_inv fl s0"
    using DiskCache_ctor_loading [OF assms(1-4)] assms(1) by (simp add: loading_def)
  have inv: "dc_inv fl s" using disk_cache.run_calls_inv [OF i assms(5)] by blast
  obtain r s' where r: "dc_TryGet fl read_ok now k s = Some (r, s')" "dc_contents fl s' = dc_contents fl s"
    "r = (if read_ok then dc_contents fl s k else None)"
    using dc_TryGet_ok [OF inv assms(1), of read_ok now k] by blast
  have "dc_contents fl s \<subseteq>\<^sub>m fold dc_spec_step cs (dc_contents fl s0)"
    using dc_run_refines [OF assms(1) _ assms(5), of "dc_contents fl s0"] i by simp
  then have "dc_contents fl s k = None \<or> dc_contents fl s k = fold dc_spec_step cs (dc_contents fl s0) k"
    by (cases "dc_contents fl s k") (auto simp: map_le_def dom_def)
  with r show ?thesis by auto
qed

theorem disk_cache_refines_map_witness:
  "\<exists>s0 s s'. DiskCache_ctor demo_flare demo_disk_options demo_disk_fs = Some s0
     \<and> run_calls (dc_step demo_flare exact_double) demo_disk_calls s0 = Some s
     \<and> dc_TryGet demo_flare True (seconds 50) ''k'' s = Some (Some ''value'', s')
     \<and> dc_contents demo_flare s' = dc_contents demo_flare s"
proof -
  obtain s0 where s0: "DiskCache_ctor demo_flare demo_disk_options demo_disk_fs = Some s0" using demo_disk_start by auto
  have "map_option (\<lambda>s. map_option fst (dc_TryGet demo_flare True (seconds 50) ''k'' s))
          (Option.bind (DiskCache_ctor demo_flare demo_disk_options demo_disk_fs) (run_calls (dc_step demo_flare exact_double) demo_disk_calls))
        = Some (Some (Some ''value''))" by code_simp
  with s0 obtain s where s: "run_calls (dc_step demo_flare exact_double) demo_disk_calls s0 = Some s"
    "map_option fst (dc_TryGet demo_flare True (seconds 50) ''k'' s) = Some (Some ''value'')" by auto
  from disk_cache_refines_map [OF flare_strings_demo demo_ok s0 s(1), of True "seconds 50" "''k''"] s s0 show ?thesis by auto
qed

text \<open>A store replaces the value of its key and of no other: afterwards the key holds the stored
  bytes when the file could be created, and nothing otherwise (an older value is dropped with its
  entry, never served); a lookup that can read the file then returns the stored bytes.\<close>

theorem disk_cache_put_get:
  assumes "flare_strings fl" "dc_inv fl s" "length pad = 32"
  shows "\<exists>s' r s''. dc_Put fl open_ok pad now k b s = Some s' \<and> dc_inv fl s'
     \<and> dc_contents fl s' = (dc_contents fl s)(k := if storable fl open_ok k s then Some b else None)
     \<and> dc_TryGet fl True later k s' = Some (r, s'')
     \<and> r = (if storable fl open_ok k s then Some b else None)"
proof -
  obtain s' where s': "dc_Put fl open_ok pad now k b s = Some s'" "dc_inv fl s'"
    "dc_contents fl s' = (dc_contents fl s)(k := if storable fl open_ok k s then Some b else None)"
    using dc_Put_ok [OF assms(2,1,3)] by blast
  with dc_TryGet_ok [OF s'(2) assms(1), of True later k] show ?thesis by auto
qed

theorem disk_cache_put_get_witness:
  "\<exists>s0 s' s''. DiskCache_ctor demo_flare demo_disk_options demo_disk_fs = Some s0 \<and> storable demo_flare True ''new'' s0
     \<and> dc_Put demo_flare True (replicate 32 CHR ''p'') (seconds 9) ''new'' ''data'' s0 = Some s'
     \<and> dc_TryGet demo_flare True (seconds 10) ''new'' s' = Some (Some ''data'', s'')"
proof -
  obtain s0 where s0: "DiskCache_ctor demo_flare demo_disk_options demo_disk_fs = Some s0" using demo_disk_start by auto
  have "map_option (storable demo_flare True ''new'') (DiskCache_ctor demo_flare demo_disk_options demo_disk_fs) = Some True" by code_simp
  with s0 have st: "storable demo_flare True ''new'' s0" by simp
  have "dc_inv demo_flare s0" using DiskCache_ctor_loading [OF flare_strings_demo demo_ok s0] by (simp add: loading_def)
  from disk_cache_put_get [OF flare_strings_demo this, of "replicate 32 CHR ''p''" True "seconds 9" "''new''" "''data''" "seconds 10"]
  show ?thesis using s0 st by auto
qed

text \<open>The file format: what a store writes verifies and yields the stored bytes; whatever verifies
  is at least a header long, carries the digest of what is returned, and is returned without its
  header, so a truncated file, or one whose payload was changed to bytes with another digest, is
  never returned.\<close>

theorem cache_file_roundtrip:
  assumes "flare_strings fl" "length pad = 32"
  shows "VerifyEntryAndCutHeader fl (WriteFileHeader fl pad b @ b) = Some b
     \<and> (\<forall>buf c. VerifyEntryAndCutHeader fl buf = Some c \<longrightarrow>
          64 \<le> length buf \<and> c = drop 64 buf \<and> take 32 buf = fl_Blake3 fl c)
     \<and> (\<forall>c. fl_Blake3 fl c \<noteq> fl_Blake3 fl b \<longrightarrow> VerifyEntryAndCutHeader fl (WriteFileHeader fl pad b @ c) = None)
     \<and> (\<forall>n<64. VerifyEntryAndCutHeader fl (take n (WriteFileHeader fl pad b @ b)) = None)"
proof (intro conjI allI impI)
  show "VerifyEntryAndCutHeader fl (WriteFileHeader fl pad b @ b) = Some b"
    by (rule VerifyEntry_WriteFileHeader [OF assms])
next
  fix buf c assume v: "VerifyEntryAndCutHeader fl buf = Some c"
  show "64 \<le> length buf" "c = drop 64 buf" "take 32 buf = fl_Blake3 fl c"
    using v by (auto simp: VerifyEntryAndCutHeader_def split: if_splits)
next
  fix c assume "fl_Blake3 fl c \<noteq> fl_Blake3 fl b"
  then show "VerifyEntryAndCutHeader fl (WriteFileHeader fl pad b @ c) = None"
    using flare_strings.Blake3_length [OF assms(1)] assms(2)
    by (auto simp: VerifyEntryAndCutHeader_def WriteFileHeader_def)
next
  fix n :: nat assume "n < 64"
  then have "length (take n (WriteFileHeader fl pad b @ b)) < 64" unfolding length_take by linarith
  then show "VerifyEntryAndCutHeader fl (take n (WriteFileHeader fl pad b @ b)) = None"
    unfolding VerifyEntryAndCutHeader_def by (simp only: if_True)
qed

theorem cache_file_roundtrip_witness:
  "VerifyEntryAndCutHeader demo_flare (WriteFileHeader demo_flare (replicate 32 CHR ''.'') ''obj'' @ ''obj'') = Some ''obj''
   \<and> VerifyEntryAndCutHeader demo_flare (WriteFileHeader demo_flare (replicate 32 CHR ''.'') ''obj'' @ ''obk'') = None"
proof -
  have "fl_Blake3 demo_flare ''obk'' \<noteq> fl_Blake3 demo_flare ''obj''" by code_simp
  with cache_file_roundtrip [OF flare_strings_demo, of "replicate 32 CHR ''.''" "''obj''"] show ?thesis by simp
qed



text \<open>A file whose name is not the one the cache would write, but decodes to a key of the same
  directory, is recorded at start up under that key; the first lookup of the key then aborts the
  process, because the file it opens does not exist.\<close>

theorem noncanonical_name_aborts:
  assumes "GetKeyFromPath fl (fi_path file) = Some k" "TryGetPathOfKey fl k s = Some (Some (d @ slash # MarshalKey fl k))"
    "slash \<notin> set (MarshalKey fl k)" "GetDirectoryName (fi_path file) = Some d"
    "map_of (dc_entries_per_dir s) d = Some es" "map_of (dc_fs s) (d @ slash # MarshalKey fl k) = None"
  shows "\<exists>s'. LoadEntry fl file s = Some s' \<and> dc_fs s' = dc_fs s \<and> dc_TryGet fl read_ok now k s' = None"
proof -
  have dst: "GetDirectoryName (d @ slash # MarshalKey fl k) = Some d" using GetDirectoryName_path [OF assms(3)] .
  obtain s' where s': "record_loaded d k file s = Some s'" using assms(5) by (simp add: record_loaded_def)
  have l: "LoadEntry fl file s = Some s'" using assms(1,2,4) dst s' by (simp add: LoadEntry_def)
  have fs: "dc_fs s' = dc_fs s" "dc_options s' = dc_options s" "dc_shard_mapper s' = dc_shard_mapper s"
    "\<exists>es'. map_of (dc_entries_per_dir s') d = Some es' \<and> map_of es' k \<noteq> None"
    using s' assms(5) by (auto simp: record_loaded_def map_of_umap_set)
  have "dc_TryGet fl read_ok now k s' = None"
  proof (cases "record_shard_hit fl k s'")
    case None
    then show ?thesis using assms(2) TryGetPathOfKey_cong [OF fs(2,3)] by (simp add: dc_TryGet_def)
  next
    case (Some s1)
    then have "dc_entries_per_dir s1 = dc_entries_per_dir s'" "dc_fs s1 = dc_fs s'"
      by (auto simp: record_shard_hit_def split: option.splits if_splits)
    with Some show ?thesis
      using assms(2,6) TryGetPathOfKey_cong [OF fs(2,3)] fs(1,4) dst by (auto simp: dc_TryGet_def)
  qed
  with l fs(1) show ?thesis by blast
qed

text \<open>Percent decoding accepts lower case digits, percent encoding writes upper case ones.\<close>

definition lenient_flare :: flare where
  "lenient_flare = demo_flare\<lparr>fl_DecodePercent := (\<lambda>s. if s = ''%2f'' then Some ''/'' else ref_DecodePercent s)\<rparr>"

definition lenient_fs :: filesystem where
  "lenient_fs = [(''/c'', Directory), (''/c/0'', Directory), (''/c/0/%2f'', FileNode DT_REG [] 0)]"

theorem noncanonical_name_aborts_witness:
  "\<exists>s0 s'. DiskCache_ctor lenient_flare demo_disk_options [] = Some s0
     \<and> LoadEntry lenient_flare \<lparr>fi_path = ''/c/0/%2f'', fi_size = 0, fi_last_used = 0\<rparr> (s0\<lparr>dc_fs := lenient_fs\<rparr>) = Some s'
     \<and> dc_TryGet lenient_flare True 1 ''/'' s' = None"
proof -
  let ?file = "\<lparr>fi_path = ''/c/0/%2f'', fi_size = 0, fi_last_used = 0\<rparr>"
  have "map_option (\<lambda>s. (TryGetPathOfKey lenient_flare ''/'' (s\<lparr>dc_fs := lenient_fs\<rparr>), map_of (dc_entries_per_dir s) ''/c/0''))
          (DiskCache_ctor lenient_flare demo_disk_options []) = Some (Some (Some ''/c/0/%2F''), Some [])" by code_simp
  then obtain s0 where s0: "DiskCache_ctor lenient_flare demo_disk_options [] = Some s0"
    "TryGetPathOfKey lenient_flare ''/'' (s0\<lparr>dc_fs := lenient_fs\<rparr>) = Some (Some ''/c/0/%2F'')"
    "map_of (dc_entries_per_dir s0) ''/c/0'' = Some []" by auto
  have m: "MarshalKey lenient_flare ''/'' = ''%2F''" by code_simp
  have "GetKeyFromPath lenient_flare (fi_path ?file) = Some ''/''" "GetDirectoryName (fi_path ?file) = Some ''/c/0''"
    "map_of lenient_fs ''/c/0/%2F'' = None" by code_simp+
  with noncanonical_name_aborts [of lenient_flare ?file "''/''" "s0\<lparr>dc_fs := lenient_fs\<rparr>" "''/c/0''" "[]" True 1] s0 m
  show ?thesis by auto
qed

end
