(* ===== verification/In_Memory_Cache.thy ===== *)
theory In_Memory_Cache
  imports Double_Arith Flare_Api
begin

text \<open>
  The cache server's first level (\<^verbatim>\<open>cache/in_memory_cache.cc\<close>): an adaptive replacement cache
  with two lists of entries in memory (hit once, hit more than once) and two lists of the keys
  evicted from them (the phantom lists). The front of a list is its most recently used end.

  A list iterator kept in an entry designates the list element that carries the entry's key, so
  it is represented by the key. \<open>None\<close> is undefined behaviour or an abort: \<open>back()\<close> or
  \<open>pop_back()\<close> on an empty list, \<open>at()\<close> of an absent key, an iterator that is not in its
  list. The loops are partial functions whose \<open>None\<close> also covers not ending. Sizes are
  \<open>std::size_t\<close>: subtractions wrap as written by \<open>sub_sz\<close>; sums of the four sizes are taken
  to stay below two to the power 64. The adaptive size is computed with doubles: their rounding is
  the field \<open>dbl_round\<close>, and \<open>dbl_infinity\<close> stands for the conversion of an infinite quotient.
\<close>

section \<open>Data\<close>

datatype list_id = HitOnce | HitOncePhantom | MoreThanOnce | MoreThanOncePhantom

record CacheList =
  cl_size :: nat
  cl_list :: "(string \<times> nat) list"

record CacheEntry =
  ce_buffer :: bytes
  ce_belonging_list :: "list_id option"

record InMemoryCache =
  im_max_size_in_bytes :: nat
  im_hits :: nat
  im_misses :: nat
  im_adaptive_size_of_once :: nat
  im_lists :: "list_id \<Rightarrow> CacheList"
  im_memory_buffer_mapper :: "(string, CacheEntry) umap"
  im_phantom_entry_mapper :: "string \<Rightarrow> nat option"

abbreviation lsize :: "InMemoryCache \<Rightarrow> list_id \<Rightarrow> nat" where
  "lsize s l \<equiv> cl_size (im_lists s l)"

abbreviation llist :: "InMemoryCache \<Rightarrow> list_id \<Rightarrow> (string \<times> nat) list" where
  "llist s l \<equiv> cl_list (im_lists s l)"

definition sub_sz :: "nat \<Rightarrow> nat \<Rightarrow> nat" where
  "sub_sz a b = (if b \<le> a then a - b else a + 2 ^ 64 - b)"

section \<open>Operations\<close>

definition InMemoryCache_ctor :: "nat \<Rightarrow> InMemoryCache" where
  "InMemoryCache_ctor max_size =
     \<lparr>im_max_size_in_bytes = max_size, im_hits = 0, im_misses = 0, im_adaptive_size_of_once = 0,
      im_lists = (\<lambda>_. \<lparr>cl_size = 0, cl_list = []\<rparr>), im_memory_buffer_mapper = [],
      im_phantom_entry_mapper = (\<lambda>_. None)\<rparr>"

definition set_list :: "list_id \<Rightarrow> CacheList \<Rightarrow> InMemoryCache \<Rightarrow> InMemoryCache" where
  "set_list l c s = s\<lparr>im_lists := (im_lists s)(l := c)\<rparr>"

text \<open>
  Move an entry to the front of a list. The size subtracted from the source list is the one the
  list element records (reached through either map, it is the same element).
\<close>

definition UnsafePutEntryIntoList ::
  "string \<Rightarrow> CacheEntry \<Rightarrow> list_id \<Rightarrow> InMemoryCache \<Rightarrow> (CacheEntry \<times> InMemoryCache) option" where
  "UnsafePutEntryIntoList key entry dst s =
     (case (case ce_belonging_list entry of
              None \<Rightarrow> Some s
            | Some l \<Rightarrow>
                (case map_of (llist s l) key of
                   None \<Rightarrow> None
                 | Some n \<Rightarrow> Some (set_list l \<lparr>cl_size = sub_sz (lsize s l) n, cl_list = umap_erase key (llist s l)\<rparr> s)))
      of
        None \<Rightarrow> None
      | Some s1 \<Rightarrow>
          (let n = length (ce_buffer entry) in
           Some (entry\<lparr>ce_belonging_list := Some dst\<rparr>,
                 set_list dst \<lparr>cl_size = lsize s1 dst + n, cl_list = (key, n) # llist s1 dst\<rparr> s1)))"

definition EvictToPhantom :: "list_id \<Rightarrow> list_id \<Rightarrow> nat \<Rightarrow> InMemoryCache \<Rightarrow> InMemoryCache option" where
  "EvictToPhantom l phantom phantom_index s =
     (if llist s l = [] then None
      else
        (let key = fst (last (llist s l)) in
         case map_of (im_memory_buffer_mapper s) key of
           None \<Rightarrow> None
         | Some entry \<Rightarrow>
             (case UnsafePutEntryIntoList key entry phantom s of
                None \<Rightarrow> None
              | Some (entry', s1) \<Rightarrow>
                  Some (s1\<lparr>im_phantom_entry_mapper := (im_phantom_entry_mapper s1)(key \<mapsto> phantom_index),
                           im_memory_buffer_mapper := umap_erase key (im_memory_buffer_mapper s1)\<rparr>))))"

definition EvictHitOnceToPhantom :: "InMemoryCache \<Rightarrow> InMemoryCache option" where
  "EvictHitOnceToPhantom s = EvictToPhantom HitOnce HitOncePhantom 1 s"

definition EvictMoreThanOnceToPhantom :: "InMemoryCache \<Rightarrow> InMemoryCache option" where
  "EvictMoreThanOnceToPhantom s = EvictToPhantom MoreThanOnce MoreThanOncePhantom 2 s"

definition UnsafeAdaptiveAdjust :: "nat \<Rightarrow> InMemoryCache \<Rightarrow> InMemoryCache option" where
  "UnsafeAdaptiveAdjust phantom_index s =
     (if lsize s HitOnce > im_adaptive_size_of_once s
         \<or> (phantom_index = 2 \<and> lsize s HitOnce \<ge> im_adaptive_size_of_once s)
      then (if lsize s HitOnce \<noteq> 0 then EvictHitOnceToPhantom s else Some s)
      else
        (let adaptive_size_of_t2 = sub_sz (im_max_size_in_bytes s) (im_adaptive_size_of_once s) in
         if lsize s MoreThanOnce \<noteq> 0 \<and> lsize s MoreThanOnce \<ge> adaptive_size_of_t2
         then EvictMoreThanOnceToPhantom s else Some s))"

text \<open>One round of the loop of \<open>UnsafeTryEvict\<close> (the list is not empty).\<close>

definition TryEvict_round :: "list_id \<Rightarrow> bool \<Rightarrow> InMemoryCache \<Rightarrow> InMemoryCache option" where
  "TryEvict_round l in_memory s =
     (let (key, remove_size) = last (llist s l);
          s1 = set_list l (im_lists s l\<lparr>cl_size := sub_sz (lsize s l) remove_size\<rparr>) s
      in case (if in_memory
               then Some (s1\<lparr>im_memory_buffer_mapper := umap_erase key (im_memory_buffer_mapper s1)\<rparr>)
               else UnsafeAdaptiveAdjust 1
                      (s1\<lparr>im_phantom_entry_mapper := (im_phantom_entry_mapper s1)(key := None)\<rparr>))
         of
           None \<Rightarrow> None
         | Some s2 \<Rightarrow> Some (set_list l (im_lists s2 l\<lparr>cl_list := butlast (llist s2 l)\<rparr>) s2))"

partial_function (option) UnsafeTryEvict ::
  "list_id \<Rightarrow> nat \<Rightarrow> bool \<Rightarrow> InMemoryCache \<Rightarrow> (nat \<times> InMemoryCache) option" where
  "UnsafeTryEvict l desired_byte_size in_memory s =
     (if desired_byte_size \<noteq> 0 \<and> lsize s l \<noteq> 0 then
        (if llist s l = [] then None
         else
           (case TryEvict_round l in_memory s of
              None \<Rightarrow> None
            | Some s' \<Rightarrow> UnsafeTryEvict l (desired_byte_size - snd (last (llist s l))) in_memory s'))
      else Some (desired_byte_size, s))"

text \<open>The three loops of \<open>EvictMemoryOverflow\<close>.\<close>

partial_function (option) EvictMemory_loop :: "InMemoryCache \<Rightarrow> InMemoryCache option" where
  "EvictMemory_loop s =
     (if lsize s HitOnce + lsize s MoreThanOnce > im_max_size_in_bytes s then
        (case (if lsize s HitOnce > im_adaptive_size_of_once s then EvictHitOnceToPhantom s
               else EvictMoreThanOnceToPhantom s) of
           None \<Rightarrow> None
         | Some s' \<Rightarrow> EvictMemory_loop s')
      else Some s)"

partial_function (option) TrimPhantom_loop :: "list_id \<Rightarrow> list_id \<Rightarrow> InMemoryCache \<Rightarrow> InMemoryCache option" where
  "TrimPhantom_loop l phantom s =
     (if lsize s l + lsize s phantom > im_max_size_in_bytes s then
        (if llist s phantom = [] then None
         else
           (let (key, remove_size) = last (llist s phantom) in
            TrimPhantom_loop l phantom
              (set_list phantom \<lparr>cl_size = sub_sz (lsize s phantom) remove_size, cl_list = butlast (llist s phantom)\<rparr>
                (s\<lparr>im_phantom_entry_mapper := (im_phantom_entry_mapper s)(key := None)\<rparr>))))
      else Some s)"

definition EvictMemoryOverflow :: "InMemoryCache \<Rightarrow> InMemoryCache option" where
  "EvictMemoryOverflow s =
     do {
       s1 \<leftarrow> EvictMemory_loop s;
       s2 \<leftarrow> TrimPhantom_loop HitOnce HitOncePhantom s1;
       TrimPhantom_loop MoreThanOnce MoreThanOncePhantom s2
     }"

definition UnsafeOverwrite :: "string \<Rightarrow> bytes \<Rightarrow> InMemoryCache \<Rightarrow> InMemoryCache option" where
  "UnsafeOverwrite key buffer s =
     (case map_of (im_memory_buffer_mapper s) key of
        None \<Rightarrow> None
      | Some entry \<Rightarrow>
          (case ce_belonging_list entry of
             None \<Rightarrow> None
           | Some l \<Rightarrow>
               (case map_of (llist s l) key of
                  None \<Rightarrow> None
                | Some origin_size \<Rightarrow>
                    (let s1 = s\<lparr>im_memory_buffer_mapper :=
                                umap_modify key (\<lambda>e. e\<lparr>ce_buffer := buffer\<rparr>) (im_memory_buffer_mapper s)\<rparr>;
                         s2 = set_list l \<lparr>cl_size = sub_sz (lsize s l) origin_size + length buffer,
                                         cl_list = umap_modify key (\<lambda>_. length buffer) (llist s l)\<rparr> s1
                     in if length buffer > origin_size then EvictMemoryOverflow s2 else Some s2))))"

text \<open>A quotient of sizes as a double, and the conversion of a double to \<open>std::size_t\<close>.\<close>

definition scaled_size :: "double_ops \<Rightarrow> nat \<Rightarrow> nat \<Rightarrow> nat \<Rightarrow> nat \<Rightarrow> nat" where
  "scaled_size dbl base buffer_size num den =
     (if num \<noteq> 0 \<and> den = 0 then dbl_infinity dbl
      else
        (let ratio = dbl_round dbl (of_nat num / of_nat den);
             product = dbl_round dbl (of_nat buffer_size * ratio)
         in nat \<lfloor>dbl_round dbl (of_nat base + product)\<rfloor>))"

definition adapt ::
  "double_ops \<Rightarrow> nat \<Rightarrow> nat \<Rightarrow> InMemoryCache \<Rightarrow> InMemoryCache" where
  "adapt dbl phantom_index buffer_size s =
     (let b1 = lsize s HitOncePhantom; b2 = lsize s MoreThanOncePhantom; a = im_adaptive_size_of_once s in
      if phantom_index = 1
      then
        (let a' = (if b1 < b2 then scaled_size dbl a buffer_size b2 b1 else scaled_size dbl a buffer_size 1 1)
         in s\<lparr>im_adaptive_size_of_once := min a' (im_max_size_in_bytes s)\<rparr>)
      else
        (let buffer_size' = (if b2 < b1 then scaled_size dbl 0 buffer_size b1 b2 else scaled_size dbl 0 buffer_size 1 1)
         in s\<lparr>im_adaptive_size_of_once := (if a > buffer_size' then a - buffer_size' else 0)\<rparr>))"

definition UnsafeCacheInPhantom ::
  "double_ops \<Rightarrow> nat \<Rightarrow> string \<Rightarrow> CacheEntry \<Rightarrow> InMemoryCache \<Rightarrow> InMemoryCache option" where
  "UnsafeCacheInPhantom dbl phantom_index key entry s =
     do {
       s1 \<leftarrow> UnsafeAdaptiveAdjust phantom_index (adapt dbl phantom_index (length (ce_buffer entry)) s);
       (entry', s2) \<leftarrow> UnsafePutEntryIntoList key entry MoreThanOnce s1;
       Some (s2\<lparr>im_memory_buffer_mapper := umap_set key entry' (im_memory_buffer_mapper s2),
                im_phantom_entry_mapper := (im_phantom_entry_mapper s2)(key := None)\<rparr>)
     }"

text \<open>The evictions of \<open>UnsafeCacheIfMiss\<close>, up to the insertion of the new entry.\<close>

definition EvictFromOnce :: "nat \<Rightarrow> InMemoryCache \<Rightarrow> (nat \<times> InMemoryCache) option" where
  "EvictFromOnce remaining_size s =
     do {
       (r1, s1) \<leftarrow> (if lsize s HitOncePhantom > 0 then UnsafeTryEvict HitOncePhantom remaining_size False s
                    else Some (remaining_size, s));
       (if r1 \<noteq> 0 then UnsafeTryEvict HitOnce r1 True s1 else Some (r1, s1))
     }"

definition EvictFromMoreThanOnce :: "nat \<Rightarrow> InMemoryCache \<Rightarrow> (nat \<times> InMemoryCache) option" where
  "EvictFromMoreThanOnce remaining_size s =
     do {
       (r1, s1) \<leftarrow> (if lsize s MoreThanOncePhantom > 0 then UnsafeTryEvict MoreThanOncePhantom remaining_size False s
                    else Some (remaining_size, s));
       (if r1 \<noteq> 0 then UnsafeTryEvict MoreThanOnce r1 True s1 else Some (r1, s1))
     }"

abbreviation total_size :: "InMemoryCache \<Rightarrow> nat" where
  "total_size s \<equiv> lsize s HitOnce + lsize s MoreThanOnce + lsize s HitOncePhantom + lsize s MoreThanOncePhantom"

definition MakeRoomIfMiss :: "nat \<Rightarrow> InMemoryCache \<Rightarrow> InMemoryCache option" where
  "MakeRoomIfMiss n s =
     (if lsize s HitOnce + lsize s MoreThanOnce + n > im_max_size_in_bytes s then
        do {
          (r1, s1) \<leftarrow> (if lsize s HitOnce + lsize s HitOncePhantom + n > im_max_size_in_bytes s
                       then EvictFromOnce n s else Some (n, s));
          (if r1 \<noteq> 0 \<and> total_size s1 + r1 > im_max_size_in_bytes s1 then
             (if total_size s1 + r1 \<ge> 2 * im_max_size_in_bytes s1
              then map_option snd (EvictFromMoreThanOnce r1 s1)
              else UnsafeAdaptiveAdjust 1 s1)
           else Some s1)
        }
      else Some s)"

definition UnsafeCacheIfMiss :: "string \<Rightarrow> CacheEntry \<Rightarrow> InMemoryCache \<Rightarrow> InMemoryCache option" where
  "UnsafeCacheIfMiss key entry s =
     do {
       s1 \<leftarrow> MakeRoomIfMiss (length (ce_buffer entry)) s;
       (entry', s2) \<leftarrow> UnsafePutEntryIntoList key entry HitOnce s1;
       Some (s2\<lparr>im_memory_buffer_mapper := umap_set key entry' (im_memory_buffer_mapper s2)\<rparr>)
     }"

definition imc_Put :: "double_ops \<Rightarrow> string \<Rightarrow> bytes \<Rightarrow> InMemoryCache \<Rightarrow> (bool \<times> InMemoryCache) option" where
  "imc_Put dbl key buffer s =
     (if length buffer > im_max_size_in_bytes s then Some (False, s)
      else if map_of (im_memory_buffer_mapper s) key \<noteq> None
      then map_option (Pair True) (UnsafeOverwrite key buffer s)
      else
        do {
          s1 \<leftarrow> (case im_phantom_entry_mapper s key of
                   Some i \<Rightarrow>
                     UnsafeCacheInPhantom dbl i key
                       \<lparr>ce_buffer = buffer,
                        ce_belonging_list = Some (if i = 1 then HitOncePhantom else MoreThanOncePhantom)\<rparr> s
                 | None \<Rightarrow> UnsafeCacheIfMiss key \<lparr>ce_buffer = buffer, ce_belonging_list = None\<rparr> s);
          s2 \<leftarrow> EvictMemoryOverflow s1;
          Some (True, s2)
        })"

definition imc_TryGet :: "string \<Rightarrow> InMemoryCache \<Rightarrow> (bytes option \<times> InMemoryCache) option" where
  "imc_TryGet key s =
     (case map_of (im_memory_buffer_mapper s) key of
        None \<Rightarrow> Some (None, s\<lparr>im_misses := im_misses s + 1\<rparr>)
      | Some entry \<Rightarrow>
          do {
            (entry', s1) \<leftarrow> UnsafePutEntryIntoList key entry MoreThanOnce s;
            Some (Some (ce_buffer entry'),
                  s1\<lparr>im_memory_buffer_mapper := umap_modify key (\<lambda>_. entry') (im_memory_buffer_mapper s1),
                     im_hits := im_hits s1 + 1\<rparr>)
          })"

fun imc_Remove :: "string list \<Rightarrow> InMemoryCache \<Rightarrow> InMemoryCache option" where
  "imc_Remove [] s = Some s"
| "imc_Remove (key # keys) s =
     (case map_of (im_memory_buffer_mapper s) key of
        None \<Rightarrow> imc_Remove keys s
      | Some entry \<Rightarrow>
          (case ce_belonging_list entry of
             None \<Rightarrow> None
           | Some l \<Rightarrow>
               imc_Remove keys
                 (set_list l \<lparr>cl_size = sub_sz (lsize s l) (length (ce_buffer entry)), cl_list = umap_erase key (llist s l)\<rparr>
                   (s\<lparr>im_memory_buffer_mapper := umap_erase key (im_memory_buffer_mapper s)\<rparr>))))"

definition imc_GetKeys :: "InMemoryCache \<Rightarrow> string list" where
  "imc_GetKeys s = umap_keys (im_memory_buffer_mapper s)"

text \<open>The sizes and counts that \<open>DumpInternals\<close> reports: memory bytes and entries, phantom bytes
  and entries, hits and misses.\<close>

definition imc_DumpInternals :: "InMemoryCache \<Rightarrow> nat \<times> nat \<times> nat \<times> nat \<times> nat \<times> nat" where
  "imc_DumpInternals s =
     (lsize s HitOnce + lsize s MoreThanOnce, length (llist s HitOnce) + length (llist s MoreThanOnce),
      lsize s HitOncePhantom + lsize s MoreThanOncePhantom,
      length (llist s HitOncePhantom) + length (llist s MoreThanOncePhantom), im_hits s, im_misses s)"

declare UnsafeTryEvict.simps [code] EvictMemory_loop.simps [code] TrimPhantom_loop.simps [code]

section \<open>The cache as a machine\<close>

datatype imc_call = CallPut string bytes | CallTryGet string | CallRemove "string list"

fun imc_step :: "double_ops \<Rightarrow> imc_call \<Rightarrow> InMemoryCache \<Rightarrow> InMemoryCache option" where
  "imc_step dbl (CallPut key buffer) s = map_option snd (imc_Put dbl key buffer s)"
| "imc_step dbl (CallTryGet key) s = map_option snd (imc_TryGet key s)"
| "imc_step dbl (CallRemove keys) s = imc_Remove keys s"

end
