(* ===== verification/In_Memory_Cache_Proofs.thy ===== *)
theory In_Memory_Cache_Proofs
  imports In_Memory_Cache
begin

text \<open>
  Correctness of the in-memory cache: the four lists, the map of entries and the map of phantom
  keys always describe each other, every loop ends, no operation runs into undefined behaviour,
  the sizes stay within the limit, and a lookup returns the value stored last.
\<close>

section \<open>Single lists\<close>

definition list_ok :: "CacheList \<Rightarrow> bool" where
  "list_ok c \<longleftrightarrow> cl_size c = sum_list (map snd (cl_list c)) \<and> distinct (umap_keys (cl_list c))"

definition lrem :: "string \<Rightarrow> nat \<Rightarrow> CacheList \<Rightarrow> CacheList" where
  "lrem k n c = \<lparr>cl_size = sub_sz (cl_size c) n, cl_list = umap_erase k (cl_list c)\<rparr>"

definition lpush :: "string \<Rightarrow> nat \<Rightarrow> CacheList \<Rightarrow> CacheList" where
  "lpush k n c = \<lparr>cl_size = cl_size c + n, cl_list = (k, n) # cl_list c\<rparr>"

lemma CacheList_update_eq: "(c :: CacheList)\<lparr>cl_size := n, cl_list := xs\<rparr> = \<lparr>cl_size = n, cl_list = xs\<rparr>"
  by (cases c) simp

lemma lrem_simps [simp]: "cl_list (lrem k n c) = umap_erase k (cl_list c)" "cl_size (lrem k n c) = sub_sz (cl_size c) n"
  by (simp_all add: lrem_def)

lemma lpush_simps [simp]: "cl_list (lpush k n c) = (k, n) # cl_list c" "cl_size (lpush k n c) = cl_size c + n"
  by (simp_all add: lpush_def)

lemma fst_set_umap_erase [simp]: "fst ` set (umap_erase k m) = fst ` set m - {k}"
  by (auto simp: umap_erase_def)

lemma sum_umap_erase:
  fixes m :: "('k \<times> nat) list"
  assumes "distinct (umap_keys m)" "map_of m k = Some n"
  shows "sum_list (map snd m) = sum_list (map snd (umap_erase k m)) + n"
  using assms
proof (induction m)
  case (Cons e m)
  show ?case
  proof (cases "fst e = k")
    case True
    with Cons.prems have "umap_erase k m = m" by (auto simp: umap_erase_def filter_id_conv image_iff)
    with True Cons.prems show ?thesis by (cases e) (auto simp: umap_erase_def add.commute)
  next
    case False
    with Cons show ?thesis by (cases e) (auto simp: umap_erase_def)
  qed
qed simp

lemma list_ok_lrem:
  assumes "list_ok c" "map_of (cl_list c) k = Some n"
  shows "list_ok (lrem k n c)" "n \<le> cl_size c" "sub_sz (cl_size c) n = cl_size c - n"
  using assms sum_umap_erase [of "cl_list c" k n] by (auto simp: list_ok_def lrem_def sub_sz_def)

lemma list_ok_lpush: "list_ok c \<Longrightarrow> k \<notin> fst ` set (cl_list c) \<Longrightarrow> list_ok (lpush k n c)"
  by (simp add: list_ok_def lpush_def)

lemma list_ok_nonempty: "list_ok c \<Longrightarrow> cl_size c \<noteq> 0 \<Longrightarrow> cl_list c \<noteq> []"
  by (auto simp: list_ok_def)

text \<open>In a list with distinct keys, popping the last element is erasing its key.\<close>

lemma butlast_eq_erase:
  assumes "distinct (umap_keys m)" "m \<noteq> []"
  shows "butlast m = umap_erase (fst (last m)) m"
proof -
  obtain xs e where m: "m = xs @ [e]" using assms(2) by (metis rev_exhaust)
  then have "\<forall>x\<in>set xs. fst x \<noteq> fst e" using assms(1) by (auto simp: image_iff)
  then show ?thesis by (simp add: m umap_erase_def filter_id_conv)
qed

lemma map_of_last:
  assumes "distinct (umap_keys m)" "m \<noteq> []"
  shows "map_of m (fst (last m)) = Some (snd (last m))"
  using assms by (simp add: map_of_eq_Some_iff)

section \<open>The structural invariant\<close>

abbreviation lkeys :: "InMemoryCache \<Rightarrow> list_id \<Rightarrow> string set" where
  "lkeys s l \<equiv> fst ` set (llist s l)"

text \<open>The list a key must be in, according to the two maps.\<close>

definition home_of :: "CacheEntry option \<Rightarrow> nat option \<Rightarrow> list_id option" where
  "home_of mem ph =
     (case mem of Some e \<Rightarrow> ce_belonging_list e
      | None \<Rightarrow> map_option (\<lambda>i. if i = 1 then HitOncePhantom else MoreThanOncePhantom) ph)"

text \<open>A key is in the list its entry says and in no other; an entry in memory is in a memory list,
  which records the size of its buffer, and is not a phantom.\<close>

definition key_ok :: "CacheEntry option \<Rightarrow> nat option \<Rightarrow> (list_id \<Rightarrow> nat option) \<Rightarrow> bool" where
  "key_ok mem ph sizes \<longleftrightarrow>
     (\<forall>l. sizes l \<noteq> None \<longleftrightarrow> home_of mem ph = Some l)
     \<and> (case mem of None \<Rightarrow> True
        | Some e \<Rightarrow> ph = None \<and> (\<exists>l\<in>{HitOnce, MoreThanOnce}. ce_belonging_list e = Some l \<and> sizes l = Some (length (ce_buffer e))))
     \<and> ph \<in> {None, Some 1, Some 2}"

abbreviation key_state_ok :: "InMemoryCache \<Rightarrow> string \<Rightarrow> bool" where
  "key_state_ok s q \<equiv>
     key_ok (map_of (im_memory_buffer_mapper s) q) (im_phantom_entry_mapper s q) (\<lambda>l. map_of (llist s l) q)"

definition imc_ok :: "InMemoryCache \<Rightarrow> bool" where
  "imc_ok s \<longleftrightarrow>
     (\<forall>l. list_ok (im_lists s l)) \<and> (\<forall>q. key_state_ok s q)
     \<and> distinct (umap_keys (im_memory_buffer_mapper s)) \<and> im_adaptive_size_of_once s \<le> im_max_size_in_bytes s"

text \<open>The number of entries, an entry in memory counting twice: it decreases in every eviction.\<close>

definition weight :: "InMemoryCache \<Rightarrow> nat" where
  "weight s = 2 * (length (llist s HitOnce) + length (llist s MoreThanOnce))
            + length (llist s HitOncePhantom) + length (llist s MoreThanOncePhantom)"

text \<open>What an eviction may change: entries and phantoms only disappear.\<close>

definition unknown :: "InMemoryCache \<Rightarrow> string \<Rightarrow> bool" where
  "unknown s q \<longleftrightarrow> map_of (im_memory_buffer_mapper s) q = None \<and> im_phantom_entry_mapper s q = None"

definition shrinks :: "InMemoryCache \<Rightarrow> InMemoryCache \<Rightarrow> bool" where
  "shrinks s s' \<longleftrightarrow>
     imc_ok s' \<and> im_max_size_in_bytes s' = im_max_size_in_bytes s
     \<and> im_adaptive_size_of_once s' = im_adaptive_size_of_once s
     \<and> map_of (im_memory_buffer_mapper s') \<subseteq>\<^sub>m map_of (im_memory_buffer_mapper s)
     \<and> (\<forall>q. unknown s q \<longrightarrow> unknown s' q) \<and> weight s' \<le> weight s"

lemma shrinks_refl: "imc_ok s \<Longrightarrow> shrinks s s"
  by (simp add: shrinks_def)

lemma shrinks_trans: "shrinks s t \<Longrightarrow> shrinks t u \<Longrightarrow> shrinks s u"
  by (auto simp: shrinks_def intro: map_le_trans)

lemma set_list_simps [simp]:
  "im_lists (set_list l c s) = (im_lists s)(l := c)"
  "im_max_size_in_bytes (set_list l c s) = im_max_size_in_bytes s"
  "im_adaptive_size_of_once (set_list l c s) = im_adaptive_size_of_once s"
  "im_memory_buffer_mapper (set_list l c s) = im_memory_buffer_mapper s"
  "im_phantom_entry_mapper (set_list l c s) = im_phantom_entry_mapper s"
  "im_hits (set_list l c s) = im_hits s" "im_misses (set_list l c s) = im_misses s"
  by (simp_all add: set_list_def)

lemma imc_okD:
  assumes "imc_ok s"
  shows "list_ok (im_lists s l)" "distinct (umap_keys (im_memory_buffer_mapper s))"
    "distinct (umap_keys (llist s l))" "key_state_ok s q"
    "im_adaptive_size_of_once s \<le> im_max_size_in_bytes s"
  using assms by (simp_all add: imc_ok_def list_ok_def)

lemma key_okD:
  assumes "key_ok mem ph sizes"
  shows "sizes l = Some n \<Longrightarrow> home_of mem ph = Some l"
    "home_of mem ph = Some l \<Longrightarrow> \<exists>n. sizes l = Some n"
    "mem = Some e \<Longrightarrow> ph = None"
    "mem = Some e \<Longrightarrow> ce_belonging_list e = Some l \<Longrightarrow> l \<in> {HitOnce, MoreThanOnce} \<and> sizes l = Some (length (ce_buffer e))"
    "mem = Some e \<Longrightarrow> ce_belonging_list e \<noteq> None"
    "ph \<in> {None, Some 1, Some 2}"
  using assms by (auto simp: key_ok_def)

text \<open>The key of an element of a memory list has an entry, and that of a phantom list has none.\<close>

lemma memory_entry:
  assumes "imc_ok s" "l \<in> {HitOnce, MoreThanOnce}" "map_of (llist s l) k = Some n"
  shows "\<exists>e. map_of (im_memory_buffer_mapper s) k = Some e \<and> ce_belonging_list e = Some l
            \<and> n = length (ce_buffer e) \<and> im_phantom_entry_mapper s k = None"
proof -
  note ok = imc_okD(4) [OF assms(1), of k]
  have h: "home_of (map_of (im_memory_buffer_mapper s) k) (im_phantom_entry_mapper s k) = Some l"
    using key_okD(1) [OF ok assms(3)] .
  show ?thesis
  proof (cases "map_of (im_memory_buffer_mapper s) k")
    case None
    with h assms(2) show ?thesis by (auto simp: home_of_def split: if_splits)
  next
    case (Some e)
    with h have b: "ce_belonging_list e = Some l" by (simp add: home_of_def)
    from key_okD(3,4) [OF ok Some] b assms(3) Some show ?thesis by auto
  qed
qed

lemma phantom_entry:
  assumes "imc_ok s" "l \<in> {HitOncePhantom, MoreThanOncePhantom}" "map_of (llist s l) k = Some n"
  shows "map_of (im_memory_buffer_mapper s) k = None
         \<and> im_phantom_entry_mapper s k = Some (if l = HitOncePhantom then 1 else 2)"
proof -
  note ok = imc_okD(4) [OF assms(1), of k]
  have h: "home_of (map_of (im_memory_buffer_mapper s) k) (im_phantom_entry_mapper s k) = Some l"
    using key_okD(1) [OF ok assms(3)] .
  show ?thesis
  proof (cases "map_of (im_memory_buffer_mapper s) k")
    case None
    with h assms(2) key_okD(6) [OF ok] show ?thesis by (auto simp: home_of_def split: if_splits)
  next
    case (Some e)
    with h have "ce_belonging_list e = Some l" by (simp add: home_of_def)
    with key_okD(4) [OF ok Some this] assms(2) show ?thesis by auto
  qed
qed

text \<open>A change that concerns one key only.\<close>

lemma imc_ok_one_key:
  assumes "imc_ok s"
    "\<And>q. q \<noteq> k \<Longrightarrow> map_of (im_memory_buffer_mapper s') q = map_of (im_memory_buffer_mapper s) q"
    "\<And>q. q \<noteq> k \<Longrightarrow> im_phantom_entry_mapper s' q = im_phantom_entry_mapper s q"
    "\<And>q l. q \<noteq> k \<Longrightarrow> map_of (llist s' l) q = map_of (llist s l) q"
    "key_state_ok s' k" "\<And>l. list_ok (im_lists s' l)" "distinct (umap_keys (im_memory_buffer_mapper s'))"
    "im_adaptive_size_of_once s' \<le> im_max_size_in_bytes s'"
  shows "imc_ok s'"
proof -
  have "key_state_ok s' q" for q
  proof (cases "q = k")
    case False
    then show ?thesis using imc_okD(4) [OF assms(1), of q] assms(2,3,4) by simp
  qed (use assms(5) in simp)
  with assms(6,7,8) show ?thesis by (simp add: imc_ok_def)
qed

section \<open>Evictions\<close>

lemma UnsafePut_move:
  assumes "ce_belonging_list e = Some l" "map_of (llist s l) k = Some n" "dst \<noteq> l"
  shows "UnsafePutEntryIntoList k e dst s =
     Some (e\<lparr>ce_belonging_list := Some dst\<rparr>,
           s\<lparr>im_lists := (im_lists s)(l := lrem k n (im_lists s l), dst := lpush k (length (ce_buffer e)) (im_lists s dst))\<rparr>)"
  using assms by (simp add: UnsafePutEntryIntoList_def set_list_def lrem_def lpush_def Let_def)

text \<open>Moving an entry from a memory list to its phantom list.\<close>

definition phantom_pair :: "list_id \<Rightarrow> list_id \<Rightarrow> nat \<Rightarrow> bool" where
  "phantom_pair l p i \<longleftrightarrow> l = HitOnce \<and> p = HitOncePhantom \<and> i = 1 \<or> l = MoreThanOnce \<and> p = MoreThanOncePhantom \<and> i = 2"

definition to_phantom :: "list_id \<Rightarrow> list_id \<Rightarrow> nat \<Rightarrow> string \<Rightarrow> nat \<Rightarrow> InMemoryCache \<Rightarrow> InMemoryCache" where
  "to_phantom l p i k n s =
     s\<lparr>im_lists := (im_lists s)(l := lrem k n (im_lists s l), p := lpush k n (im_lists s p)),
       im_memory_buffer_mapper := umap_erase k (im_memory_buffer_mapper s),
       im_phantom_entry_mapper := (im_phantom_entry_mapper s)(k \<mapsto> i)\<rparr>"

lemma EvictToPhantom_eq:
  assumes "imc_ok s" "phantom_pair l p i" "llist s l \<noteq> []"
  shows "EvictToPhantom l p i s = Some (to_phantom l p i (fst (last (llist s l))) (snd (last (llist s l))) s)"
proof -
  let ?k = "fst (last (llist s l))" and ?n = "snd (last (llist s l))"
  have m: "map_of (llist s l) ?k = Some ?n" by (rule map_of_last [OF imc_okD(3) [OF assms(1)] assms(3)])
  have "l \<in> {HitOnce, MoreThanOnce}" "p \<noteq> l" using assms(2) by (auto simp: phantom_pair_def)
  with memory_entry [OF assms(1) _ m] obtain e where
    "map_of (im_memory_buffer_mapper s) ?k = Some e" "ce_belonging_list e = Some l" "?n = length (ce_buffer e)" by blast
  with m \<open>p \<noteq> l\<close> assms(3) show ?thesis
    by (simp add: EvictToPhantom_def UnsafePut_move to_phantom_def Let_def)
qed

lemma map_of_None_key: "map_of m k = None \<Longrightarrow> k \<notin> fst ` set m"
  by (simp add: map_of_eq_None_iff)

lemma key_elsewhere:
  assumes "imc_ok s" "map_of (llist s l) k = Some n" "m \<noteq> l"
  shows "map_of (llist s m) k = None"
  using key_okD(1) [OF imc_okD(4) [OF assms(1)] assms(2)] key_okD(1) [OF imc_okD(4) [OF assms(1)], of m k] assms(3)
  by (cases "map_of (llist s m) k") auto

lemma length_umap_erase: "distinct (umap_keys m) \<Longrightarrow> map_of m k = Some n \<Longrightarrow> length m = Suc (length (umap_erase k m))"
  using map_of_Some_length_erase [of m k n "\<lambda>_. True"] by simp

lemma to_phantom_shrinks:
  assumes "imc_ok s" "phantom_pair l p i" "map_of (llist s l) k = Some n"
  shows "shrinks s (to_phantom l p i k n s)" "weight (to_phantom l p i k n s) < weight s"
proof -
  have lp: "l \<in> {HitOnce, MoreThanOnce}" "p \<noteq> l" using assms(2) by (auto simp: phantom_pair_def)
  have other: "\<And>m. m \<noteq> l \<Longrightarrow> map_of (llist s m) k = None" by (rule key_elsewhere [OF assms(1,3)])
  have "k \<notin> fst ` set (llist s p)" using other [OF lp(2)] by (rule map_of_None_key)
  then have lists: "list_ok (lpush k n (im_lists s p))" "list_ok (lrem k n (im_lists s l))"
    using list_ok_lpush [OF imc_okD(1) [OF assms(1)]] list_ok_lrem(1) [OF imc_okD(1) [OF assms(1)] assms(3)] by auto
  have "key_state_ok (to_phantom l p i k n s) k"
    using assms(2) lp other by (auto simp: to_phantom_def key_ok_def home_of_def umap_simps phantom_pair_def)
  moreover have "list_ok (im_lists (to_phantom l p i k n s) m)" for m
    using lists imc_okD(1) [OF assms(1)] by (simp add: to_phantom_def)
  ultimately have ok: "imc_ok (to_phantom l p i k n s)"
    by (intro imc_ok_one_key [OF assms(1), of k])
      (use imc_okD(2,5) [OF assms(1)] lp in \<open>auto simp: to_phantom_def umap_simps\<close>)
  show w: "weight (to_phantom l p i k n s) < weight s"
    using assms(2) length_umap_erase [OF imc_okD(3) [OF assms(1)] assms(3)]
    by (auto simp: weight_def to_phantom_def phantom_pair_def)
  have "unknown (to_phantom l p i k n s) q" if "unknown s q" for q
    using that memory_entry [OF assms(1) lp(1) assms(3)] by (auto simp: unknown_def to_phantom_def umap_simps)
  with ok w show "shrinks s (to_phantom l p i k n s)"
    by (auto simp: shrinks_def to_phantom_def umap_simps map_le_def)
qed

lemma EvictToPhantom_ok:
  assumes "imc_ok s" "phantom_pair l p i" "lsize s l \<noteq> 0"
  shows "\<exists>s'. EvictToPhantom l p i s = Some s' \<and> shrinks s s' \<and> weight s' < weight s
           \<and> im_phantom_entry_mapper s \<subseteq>\<^sub>m im_phantom_entry_mapper s'"
proof -
  let ?k = "fst (last (llist s l))" and ?n = "snd (last (llist s l))"
  have ne: "llist s l \<noteq> []" using list_ok_nonempty [OF imc_okD(1) [OF assms(1)] assms(3)] .
  have m: "map_of (llist s l) ?k = Some ?n" by (rule map_of_last [OF imc_okD(3) [OF assms(1)] ne])
  have "l \<in> {HitOnce, MoreThanOnce}" using assms(2) by (auto simp: phantom_pair_def)
  with memory_entry [OF assms(1) _ m] have "im_phantom_entry_mapper s ?k = None" by blast
  then have "im_phantom_entry_mapper s \<subseteq>\<^sub>m im_phantom_entry_mapper (to_phantom l p i ?k ?n s)"
    by (auto simp: to_phantom_def map_le_def)
  with to_phantom_shrinks [OF assms(1,2) m] show ?thesis
    unfolding EvictToPhantom_eq [OF assms(1,2) ne] by blast
qed

lemmas EvictHitOnce_ok = EvictToPhantom_ok [of _ HitOnce HitOncePhantom 1, folded EvictHitOnceToPhantom_def]
lemmas EvictMoreThanOnce_ok = EvictToPhantom_ok [of _ MoreThanOnce MoreThanOncePhantom 2, folded EvictMoreThanOnceToPhantom_def]

lemma phantom_pairs [simp]: "phantom_pair HitOnce HitOncePhantom 1" "phantom_pair HitOnce HitOncePhantom (Suc 0)"
  "phantom_pair MoreThanOnce MoreThanOncePhantom 2"
  by (simp_all add: phantom_pair_def)

lemma UnsafeAdaptiveAdjust_ok:
  assumes "imc_ok s"
  shows "\<exists>s'. UnsafeAdaptiveAdjust i s = Some s' \<and> shrinks s s'
           \<and> im_phantom_entry_mapper s \<subseteq>\<^sub>m im_phantom_entry_mapper s'"
proof (cases "lsize s HitOnce > im_adaptive_size_of_once s \<or> (i = 2 \<and> lsize s HitOnce \<ge> im_adaptive_size_of_once s)")
  case True
  then show ?thesis
    using EvictHitOnce_ok [OF assms] shrinks_refl [OF assms] by (cases "lsize s HitOnce = 0") (auto simp: UnsafeAdaptiveAdjust_def)
next
  case False
  then show ?thesis
    using EvictMoreThanOnce_ok [OF assms] shrinks_refl [OF assms]
    by (cases "lsize s MoreThanOnce \<noteq> 0 \<and> lsize s MoreThanOnce \<ge> sub_sz (im_max_size_in_bytes s) (im_adaptive_size_of_once s)")
      (auto simp: UnsafeAdaptiveAdjust_def Let_def)
qed

text \<open>Dropping the last key of a phantom list.\<close>

definition drop_last :: "list_id \<Rightarrow> InMemoryCache \<Rightarrow> InMemoryCache" where
  "drop_last l s =
     set_list l \<lparr>cl_size = sub_sz (lsize s l) (snd (last (llist s l))), cl_list = butlast (llist s l)\<rparr>
       (s\<lparr>im_phantom_entry_mapper := (im_phantom_entry_mapper s)(fst (last (llist s l)) := None)\<rparr>)"

lemma last_removed:
  assumes "imc_ok s" "llist s l \<noteq> []"
  shows "\<lparr>cl_size = sub_sz (lsize s l) (snd (last (llist s l))), cl_list = butlast (llist s l)\<rparr>
         = lrem (fst (last (llist s l))) (snd (last (llist s l))) (im_lists s l)"
  by (simp add: lrem_def butlast_eq_erase [OF imc_okD(3) [OF assms(1)] assms(2)])

lemma drop_last_shrinks:
  assumes "imc_ok s" "l \<in> {HitOncePhantom, MoreThanOncePhantom}" "llist s l \<noteq> []"
  shows "shrinks s (drop_last l s)" "weight (drop_last l s) < weight s"
    "im_memory_buffer_mapper (drop_last l s) = im_memory_buffer_mapper s"
    "m \<noteq> l \<Longrightarrow> im_lists (drop_last l s) m = im_lists s m"
proof -
  let ?k = "fst (last (llist s l))" and ?n = "snd (last (llist s l))"
  have m: "map_of (llist s l) ?k = Some ?n" by (rule map_of_last [OF imc_okD(3) [OF assms(1)] assms(3)])
  note ph = phantom_entry [OF assms(1,2) m]
  have other: "\<And>m. m \<noteq> l \<Longrightarrow> map_of (llist s m) ?k = None" by (rule key_elsewhere [OF assms(1) m])
  have eq: "drop_last l s = set_list l (lrem ?k ?n (im_lists s l))
      (s\<lparr>im_phantom_entry_mapper := (im_phantom_entry_mapper s)(?k := None)\<rparr>)"
    by (simp add: drop_last_def last_removed [OF assms(1,3)])
  have "key_state_ok (drop_last l s) ?k"
    using ph other by (auto simp: eq key_ok_def home_of_def umap_simps)
  moreover have "list_ok (im_lists (drop_last l s) m)" for m
    using list_ok_lrem(1) [OF imc_okD(1) [OF assms(1)] m] imc_okD(1) [OF assms(1)] by (simp add: eq)
  ultimately have ok: "imc_ok (drop_last l s)"
    by (intro imc_ok_one_key [OF assms(1), of ?k])
      (use imc_okD(2,5) [OF assms(1)] in \<open>auto simp: eq umap_simps\<close>)
  show w: "weight (drop_last l s) < weight s"
    using assms(2) length_umap_erase [OF imc_okD(3) [OF assms(1)] m] by (auto simp: weight_def eq)
  show "shrinks s (drop_last l s)" using ok w by (auto simp: shrinks_def eq unknown_def)
  show "im_memory_buffer_mapper (drop_last l s) = im_memory_buffer_mapper s"
    "m \<noteq> l \<Longrightarrow> im_lists (drop_last l s) m = im_lists s m" by (simp_all add: eq)
qed

text \<open>\<open>pop_back\<close> after an adjustment is the same as before it: the adjustment adds at the front.\<close>

definition pop_list :: "list_id \<Rightarrow> InMemoryCache \<Rightarrow> InMemoryCache" where
  "pop_list l s = set_list l (im_lists s l\<lparr>cl_list := butlast (llist s l)\<rparr>) s"

lemma EvictToPhantom_pop:
  assumes "l \<noteq> a" "llist s l \<noteq> []"
    "\<And>k e. map_of (im_memory_buffer_mapper s) k = Some e \<Longrightarrow> ce_belonging_list e \<noteq> Some l \<and> ce_belonging_list e \<noteq> None"
  shows "map_option (pop_list l) (EvictToPhantom a p i s) = EvictToPhantom a p i (pop_list l s)"
proof (cases "llist s a = [] \<or> map_of (im_memory_buffer_mapper s) (fst (last (llist s a))) = None")
  case True
  then show ?thesis using assms(1) by (auto simp: EvictToPhantom_def pop_list_def Let_def split: option.splits)
next
  case False
  then obtain e b where e: "map_of (im_memory_buffer_mapper s) (fst (last (llist s a))) = Some e"
    "ce_belonging_list e = Some b" "b \<noteq> l" using assms(3) by (metis option.exhaust)
  show ?thesis
  proof (cases "map_of (llist s b) (fst (last (llist s a)))")
    case None
    with e False assms(1) show ?thesis
      by (simp add: EvictToPhantom_def UnsafePutEntryIntoList_def pop_list_def Let_def)
  next
    case (Some n)
    with e False assms(1,2) show ?thesis
      by (auto simp: EvictToPhantom_def UnsafePutEntryIntoList_def pop_list_def set_list_def Let_def fun_upd_twist)
  qed
qed

lemma UnsafeAdaptiveAdjust_pop:
  assumes "l \<in> {HitOncePhantom, MoreThanOncePhantom}" "llist s l \<noteq> []"
    "\<And>k e. map_of (im_memory_buffer_mapper s) k = Some e \<Longrightarrow> ce_belonging_list e \<noteq> Some l \<and> ce_belonging_list e \<noteq> None"
  shows "map_option (pop_list l) (UnsafeAdaptiveAdjust i s) = UnsafeAdaptiveAdjust i (pop_list l s)"
proof -
  have sizes: "lsize (pop_list l s) m = lsize s m" for m by (simp add: pop_list_def)
  have rest: "im_adaptive_size_of_once (pop_list l s) = im_adaptive_size_of_once s"
    "im_max_size_in_bytes (pop_list l s) = im_max_size_in_bytes s" by (simp_all add: pop_list_def)
  have "l \<noteq> HitOnce" "l \<noteq> MoreThanOnce" using assms(1) by auto
  then show ?thesis
    using EvictToPhantom_pop [OF _ assms(2,3)]
    by (simp add: UnsafeAdaptiveAdjust_def sizes rest EvictHitOnceToPhantom_def EvictMoreThanOnceToPhantom_def Let_def)
qed

lemma TryEvict_round_phantom:
  assumes "imc_ok s" "l \<in> {HitOncePhantom, MoreThanOncePhantom}" "llist s l \<noteq> []"
  shows "TryEvict_round l False s = UnsafeAdaptiveAdjust 1 (drop_last l s)"
proof -
  let ?s1 = "set_list l (im_lists s l\<lparr>cl_size := sub_sz (lsize s l) (snd (last (llist s l)))\<rparr>) s
     \<lparr>im_phantom_entry_mapper := (im_phantom_entry_mapper s)(fst (last (llist s l)) := None)\<rparr>"
  have pop: "pop_list l ?s1 = drop_last l s"
    by (simp add: pop_list_def drop_last_def set_list_def CacheList_update_eq)
  have "TryEvict_round l False s = map_option (pop_list l) (UnsafeAdaptiveAdjust 1 ?s1)"
    by (simp add: TryEvict_round_def case_prod_beta Let_def pop_list_def [abs_def] map_option_case)
  also have "\<dots> = UnsafeAdaptiveAdjust 1 (pop_list l ?s1)"
  proof (rule UnsafeAdaptiveAdjust_pop [OF assms(2)])
    fix k e assume "map_of (im_memory_buffer_mapper ?s1) k = Some e"
    then have "map_of (im_memory_buffer_mapper s) k = Some e" by simp
    from key_okD(4,5) [OF imc_okD(4) [OF assms(1)] this] assms(2)
    show "ce_belonging_list e \<noteq> Some l \<and> ce_belonging_list e \<noteq> None" by auto
  qed (use assms(3) in simp)
  finally show ?thesis by (simp add: pop)
qed

lemma TryEvict_round_memory:
  assumes "imc_ok s" "l \<in> {HitOnce, MoreThanOnce}" "llist s l \<noteq> []"
  shows "\<exists>s'. TryEvict_round l True s = Some s' \<and> shrinks s s' \<and> weight s' < weight s"
proof -
  let ?k = "fst (last (llist s l))" and ?n = "snd (last (llist s l))"
  let ?s' = "set_list l (lrem ?k ?n (im_lists s l)) (s\<lparr>im_memory_buffer_mapper := umap_erase ?k (im_memory_buffer_mapper s)\<rparr>)"
  have m: "map_of (llist s l) ?k = Some ?n" by (rule map_of_last [OF imc_okD(3) [OF assms(1)] assms(3)])
  have other: "\<And>m. m \<noteq> l \<Longrightarrow> map_of (llist s m) ?k = None" by (rule key_elsewhere [OF assms(1) m])
  have run: "TryEvict_round l True s = Some ?s'"
    by (simp add: TryEvict_round_def case_prod_beta Let_def set_list_def lrem_def CacheList_update_eq
        butlast_eq_erase [OF imc_okD(3) [OF assms(1)] assms(3)])
  have "key_state_ok ?s' ?k"
    using memory_entry [OF assms(1,2) m] other by (auto simp: key_ok_def home_of_def umap_simps)
  moreover have "list_ok (im_lists ?s' x)" for x
    using list_ok_lrem(1) [OF imc_okD(1) [OF assms(1)] m] imc_okD(1) [OF assms(1)] by simp
  ultimately have ok: "imc_ok ?s'"
    by (intro imc_ok_one_key [OF assms(1), of ?k])
      (use imc_okD(2,5) [OF assms(1)] in \<open>auto simp: umap_simps\<close>)
  have w: "weight ?s' < weight s"
    using assms(2) length_umap_erase [OF imc_okD(3) [OF assms(1)] m] by (auto simp: weight_def)
  then have "shrinks s ?s'" using ok by (auto simp: shrinks_def unknown_def umap_simps map_le_def)
  with run w show ?thesis by blast
qed

definition evictable :: "list_id \<Rightarrow> bool \<Rightarrow> bool" where
  "evictable l in_memory \<longleftrightarrow> (if in_memory then l \<in> {HitOnce, MoreThanOnce} else l \<in> {HitOncePhantom, MoreThanOncePhantom})"

lemma TryEvict_round_ok:
  assumes "imc_ok s" "evictable l in_memory" "llist s l \<noteq> []"
  shows "\<exists>s'. TryEvict_round l in_memory s = Some s' \<and> shrinks s s' \<and> weight s' < weight s"
proof (cases in_memory)
  case True
  then show ?thesis using TryEvict_round_memory [OF assms(1) _ assms(3)] assms(2) by (simp add: evictable_def)
next
  case False
  then have l: "l \<in> {HitOncePhantom, MoreThanOncePhantom}" using assms(2) by (simp add: evictable_def)
  note d = drop_last_shrinks [OF assms(1) l assms(3)]
  have "imc_ok (drop_last l s)" using d(1) by (simp add: shrinks_def)
  then obtain s' where s': "UnsafeAdaptiveAdjust 1 (drop_last l s) = Some s'" "shrinks (drop_last l s) s'"
    using UnsafeAdaptiveAdjust_ok by blast
  then have "weight s' < weight s" using d(2) by (simp add: shrinks_def)
  with s' d(1) False show ?thesis
    using TryEvict_round_phantom [OF assms(1) l assms(3)] shrinks_trans by auto
qed

text \<open>The eviction loops end, and are well defined.\<close>

lemma UnsafeTryEvict_ok:
  assumes "imc_ok s" "evictable l in_memory"
  shows "\<exists>r s'. UnsafeTryEvict l n in_memory s = Some (r, s') \<and> shrinks s s'"
  using assms(1)
proof (induction "weight s" arbitrary: s n rule: less_induct)
  case less
  show ?case
  proof (cases "n \<noteq> 0 \<and> lsize s l \<noteq> 0")
    case True
    then have ne: "llist s l \<noteq> []" using list_ok_nonempty [OF imc_okD(1) [OF less.prems]] by blast
    obtain t where t: "TryEvict_round l in_memory s = Some t" "shrinks s t" "weight t < weight s"
      using TryEvict_round_ok [OF less.prems assms(2) ne] by blast
    then have "imc_ok t" by (simp add: shrinks_def)
    with less.hyps [OF t(3)] obtain r s' where
      "UnsafeTryEvict l (n - snd (last (llist s l))) in_memory t = Some (r, s')" "shrinks t s'" by blast
    with t(1,2) True ne show ?thesis
      by (subst UnsafeTryEvict.simps) (auto intro: shrinks_trans)
  next
    case False
    then show ?thesis using shrinks_refl [OF less.prems] by (subst UnsafeTryEvict.simps) auto
  qed
qed

lemma EvictMemory_loop_ok:
  assumes "imc_ok s"
  shows "\<exists>s'. EvictMemory_loop s = Some s' \<and> shrinks s s'
           \<and> lsize s' HitOnce + lsize s' MoreThanOnce \<le> im_max_size_in_bytes s'"
  using assms
proof (induction "weight s" arbitrary: s rule: less_induct)
  case less
  show ?case
  proof (cases "lsize s HitOnce + lsize s MoreThanOnce > im_max_size_in_bytes s")
    case True
    let ?e = "if lsize s HitOnce > im_adaptive_size_of_once s then EvictHitOnceToPhantom s else EvictMoreThanOnceToPhantom s"
    have "\<exists>t. ?e = Some t \<and> shrinks s t \<and> weight t < weight s"
    proof (cases "lsize s HitOnce > im_adaptive_size_of_once s")
      case True
      then show ?thesis using EvictHitOnce_ok [OF less.prems] by auto
    next
      case False
      then have "lsize s MoreThanOnce \<noteq> 0" using True imc_okD(5) [OF less.prems] by linarith
      with False show ?thesis using EvictMoreThanOnce_ok [OF less.prems] by auto
    qed
    then obtain t where t: "?e = Some t" "shrinks s t" "weight t < weight s" by blast
    then have "imc_ok t" by (simp add: shrinks_def)
    with less.hyps [OF t(3)] obtain s' where "EvictMemory_loop t = Some s'" "shrinks t s'"
      "lsize s' HitOnce + lsize s' MoreThanOnce \<le> im_max_size_in_bytes s'" by blast
    with t True show ?thesis by (subst EvictMemory_loop.simps) (auto intro: shrinks_trans)
  next
    case False
    then show ?thesis using shrinks_refl [OF less.prems] by (subst EvictMemory_loop.simps) auto
  qed
qed

lemma TrimPhantom_loop_ok:
  assumes "imc_ok s" "p \<in> {HitOncePhantom, MoreThanOncePhantom}" "l \<noteq> p" "lsize s l \<le> im_max_size_in_bytes s"
  shows "\<exists>s'. TrimPhantom_loop l p s = Some s' \<and> shrinks s s' \<and> lsize s' l + lsize s' p \<le> im_max_size_in_bytes s'
           \<and> im_memory_buffer_mapper s' = im_memory_buffer_mapper s \<and> (\<forall>m. m \<noteq> p \<longrightarrow> im_lists s' m = im_lists s m)"
  using assms(1,4)
proof (induction "weight s" arbitrary: s rule: less_induct)
  case less
  show ?case
  proof (cases "lsize s l + lsize s p > im_max_size_in_bytes s")
    case True
    then have ne: "llist s p \<noteq> []"
      using list_ok_nonempty [OF imc_okD(1) [OF less.prems(1)], of p] less.prems(2) by fastforce
    note d = drop_last_shrinks [OF less.prems(1) assms(2) ne]
    have ok: "imc_ok (drop_last p s)" "im_max_size_in_bytes (drop_last p s) = im_max_size_in_bytes s"
      using d(1) by (auto simp: shrinks_def)
    have "lsize (drop_last p s) l \<le> im_max_size_in_bytes (drop_last p s)"
      using d(4) [OF assms(3)] ok(2) less.prems(2) by simp
    with less.hyps [OF d(2) ok(1)] obtain s' where s': "TrimPhantom_loop l p (drop_last p s) = Some s'"
      "shrinks (drop_last p s) s'" "lsize s' l + lsize s' p \<le> im_max_size_in_bytes s'"
      "im_memory_buffer_mapper s' = im_memory_buffer_mapper (drop_last p s)"
      "\<forall>m. m \<noteq> p \<longrightarrow> im_lists s' m = im_lists (drop_last p s) m" by blast
    have "TrimPhantom_loop l p s = TrimPhantom_loop l p (drop_last p s)"
      using True ne by (subst TrimPhantom_loop.simps) (simp add: drop_last_def case_prod_beta)
    with s' d shrinks_trans [OF d(1) s'(2)] show ?thesis by auto
  next
    case False
    then show ?thesis using shrinks_refl [OF less.prems(1)] by (subst TrimPhantom_loop.simps) auto
  qed
qed

text \<open>The limits hold after every public operation.\<close>

definition within_limits :: "InMemoryCache \<Rightarrow> bool" where
  "within_limits s \<longleftrightarrow>
     lsize s HitOnce + lsize s MoreThanOnce \<le> im_max_size_in_bytes s
     \<and> lsize s HitOnce + lsize s HitOncePhantom \<le> im_max_size_in_bytes s
     \<and> lsize s MoreThanOnce + lsize s MoreThanOncePhantom \<le> im_max_size_in_bytes s"

lemma EvictMemoryOverflow_ok:
  assumes "imc_ok s"
  shows "\<exists>s'. EvictMemoryOverflow s = Some s' \<and> shrinks s s' \<and> within_limits s'"
proof -
  obtain s1 where s1: "EvictMemory_loop s = Some s1" "shrinks s s1"
    "lsize s1 HitOnce + lsize s1 MoreThanOnce \<le> im_max_size_in_bytes s1" using EvictMemory_loop_ok [OF assms] by blast
  then have "imc_ok s1" "lsize s1 HitOnce \<le> im_max_size_in_bytes s1" by (auto simp: shrinks_def)
  from TrimPhantom_loop_ok [OF this(1) _ _ this(2), of HitOncePhantom] obtain s2 where s2:
    "TrimPhantom_loop HitOnce HitOncePhantom s1 = Some s2" "shrinks s1 s2"
    "lsize s2 HitOnce + lsize s2 HitOncePhantom \<le> im_max_size_in_bytes s2"
    "\<forall>m. m \<noteq> HitOncePhantom \<longrightarrow> im_lists s2 m = im_lists s1 m" by auto
  then have ok2: "imc_ok s2" "im_max_size_in_bytes s2 = im_max_size_in_bytes s1" by (auto simp: shrinks_def)
  with s2(4) s1(3) have "lsize s2 MoreThanOnce \<le> im_max_size_in_bytes s2" by simp
  from TrimPhantom_loop_ok [OF ok2(1) _ _ this, of MoreThanOncePhantom] obtain s3 where s3:
    "TrimPhantom_loop MoreThanOnce MoreThanOncePhantom s2 = Some s3" "shrinks s2 s3"
    "lsize s3 MoreThanOnce + lsize s3 MoreThanOncePhantom \<le> im_max_size_in_bytes s3"
    "\<forall>m. m \<noteq> MoreThanOncePhantom \<longrightarrow> im_lists s3 m = im_lists s2 m" by auto
  have "im_max_size_in_bytes s3 = im_max_size_in_bytes s1" using s3(2) ok2(2) by (simp add: shrinks_def)
  then have "within_limits s3" using s1(3) s2(3,4) s3(3,4) ok2(2) by (simp add: within_limits_def)
  moreover have "shrinks s s3" using s1(2) s2(2) s3(2) shrinks_trans by blast
  ultimately show ?thesis using s1(1) s2(1) s3(1) by (simp add: EvictMemoryOverflow_def)
qed

section \<open>Public operations\<close>

text \<open>Storing a new entry at the front of a memory list, out of nowhere or out of a phantom list.\<close>

lemma insert_entry_ok:
  assumes "imc_ok s" "map_of (im_memory_buffer_mapper s) k = None" "dst \<in> {HitOnce, MoreThanOnce}"
    "ce_belonging_list e = None \<and> im_phantom_entry_mapper s k = None
     \<or> (\<exists>i. im_phantom_entry_mapper s k = Some i
          \<and> ce_belonging_list e = Some (if i = 1 then HitOncePhantom else MoreThanOncePhantom))"
  shows "\<exists>s'. UnsafePutEntryIntoList k e dst s = Some (e\<lparr>ce_belonging_list := Some dst\<rparr>, s')
     \<and> imc_ok (s'\<lparr>im_memory_buffer_mapper := umap_set k (e\<lparr>ce_belonging_list := Some dst\<rparr>) (im_memory_buffer_mapper s'),
                  im_phantom_entry_mapper := (im_phantom_entry_mapper s')(k := None)\<rparr>)
     \<and> im_max_size_in_bytes s' = im_max_size_in_bytes s
     \<and> im_memory_buffer_mapper s' = im_memory_buffer_mapper s \<and> im_phantom_entry_mapper s' = im_phantom_entry_mapper s"
proof -
  note ok = imc_okD(4) [OF assms(1), of k]
  let ?n = "length (ce_buffer e)"
  show ?thesis
  proof (cases "ce_belonging_list e")
    case None
    with assms(4) have ph: "im_phantom_entry_mapper s k = None" by auto
    have nowhere: "map_of (llist s l) k = None" for l
      using key_okD(1) [OF ok, of l] assms(2) ph by (cases "map_of (llist s l) k") (auto simp: home_of_def)
    let ?s' = "set_list dst (lpush k ?n (im_lists s dst)) s"
    let ?t = "?s'\<lparr>im_memory_buffer_mapper := umap_set k (e\<lparr>ce_belonging_list := Some dst\<rparr>) (im_memory_buffer_mapper ?s'),
        im_phantom_entry_mapper := (im_phantom_entry_mapper ?s')(k := None)\<rparr>"
    have "list_ok (lpush k ?n (im_lists s dst))"
      using list_ok_lpush [OF imc_okD(1) [OF assms(1)] map_of_None_key [OF nowhere]] .
    then have "list_ok (im_lists ?t l)" for l using imc_okD(1) [OF assms(1)] by simp
    moreover have "key_state_ok ?t k"
      using assms(3) nowhere by (auto simp: key_ok_def home_of_def umap_simps)
    ultimately have "imc_ok ?t"
      by (intro imc_ok_one_key [OF assms(1), of k])
        (use imc_okD(2,5) [OF assms(1)] in \<open>auto simp: umap_simps distinct_umap_set\<close>)
    with None show ?thesis by (simp add: UnsafePutEntryIntoList_def lpush_def Let_def)
  next
    case (Some l)
    with assms(4) obtain i where i: "im_phantom_entry_mapper s k = Some i"
      "l = (if i = 1 then HitOncePhantom else MoreThanOncePhantom)" by auto
    then obtain n where n: "map_of (llist s l) k = Some n"
      using key_okD(2) [OF ok, of l] assms(2) by (auto simp: home_of_def)
    have dl: "dst \<noteq> l" using assms(3) i(2) by (auto split: if_splits)
    have other: "\<And>m. m \<noteq> l \<Longrightarrow> map_of (llist s m) k = None" by (rule key_elsewhere [OF assms(1) n])
    let ?s' = "s\<lparr>im_lists := (im_lists s)(l := lrem k n (im_lists s l), dst := lpush k ?n (im_lists s dst))\<rparr>"
    let ?t = "?s'\<lparr>im_memory_buffer_mapper := umap_set k (e\<lparr>ce_belonging_list := Some dst\<rparr>) (im_memory_buffer_mapper ?s'),
        im_phantom_entry_mapper := (im_phantom_entry_mapper ?s')(k := None)\<rparr>"
    have "list_ok (lpush k ?n (im_lists s dst))" "list_ok (lrem k n (im_lists s l))"
      using list_ok_lpush [OF imc_okD(1) [OF assms(1)] map_of_None_key [OF other [OF dl]]]
        list_ok_lrem(1) [OF imc_okD(1) [OF assms(1)] n] by auto
    then have "list_ok (im_lists ?t m)" for m using imc_okD(1) [OF assms(1)] by simp
    moreover have "key_state_ok ?t k"
      using assms(3) other dl by (auto simp: key_ok_def home_of_def umap_simps)
    ultimately have "imc_ok ?t"
      by (intro imc_ok_one_key [OF assms(1), of k])
        (use imc_okD(2,5) [OF assms(1)] in \<open>auto simp: umap_simps distinct_umap_set\<close>)
    with UnsafePut_move [OF Some n dl] show ?thesis by simp
  qed
qed

lemma adapt_simps [simp]:
  "im_lists (adapt dbl i n s) = im_lists s" "im_memory_buffer_mapper (adapt dbl i n s) = im_memory_buffer_mapper s"
  "im_phantom_entry_mapper (adapt dbl i n s) = im_phantom_entry_mapper s"
  "im_max_size_in_bytes (adapt dbl i n s) = im_max_size_in_bytes s"
  by (simp_all add: adapt_def Let_def)

lemma adapt_ok: "imc_ok s \<Longrightarrow> imc_ok (adapt dbl i n s)"
  unfolding imc_ok_def by (auto simp: adapt_def Let_def)

text \<open>The effect of a store: the cache is well formed, and its entries are old ones or the new one.\<close>

definition stores :: "string \<Rightarrow> bytes \<Rightarrow> InMemoryCache \<Rightarrow> InMemoryCache \<Rightarrow> bool" where
  "stores k b s s' \<longleftrightarrow>
     imc_ok s' \<and> im_max_size_in_bytes s' = im_max_size_in_bytes s
     \<and> (\<forall>e. map_of (im_memory_buffer_mapper s') k = Some e \<longrightarrow> ce_buffer e = b)
     \<and> (\<forall>q e. q \<noteq> k \<longrightarrow> map_of (im_memory_buffer_mapper s') q = Some e \<longrightarrow>
          map_option ce_buffer (map_of (im_memory_buffer_mapper s) q) = Some (ce_buffer e))"

lemma stores_shrinks: "stores k b s t \<Longrightarrow> shrinks t u \<Longrightarrow> stores k b s u"
proof -
  assume a: "stores k b s t" "shrinks t u"
  have "map_of (im_memory_buffer_mapper t) q = Some e" if "map_of (im_memory_buffer_mapper u) q = Some e" for q e
    using a(2) that unfolding shrinks_def map_le_def by (metis domI)
  with a show ?thesis unfolding stores_def shrinks_def by (metis (lifting))
qed

lemma UnsafeCacheInPhantom_ok:
  assumes "imc_ok s" "map_of (im_memory_buffer_mapper s) k = None" "im_phantom_entry_mapper s k = Some i"
  shows "\<exists>s'. UnsafeCacheInPhantom dbl i k
       \<lparr>ce_buffer = b, ce_belonging_list = Some (if i = 1 then HitOncePhantom else MoreThanOncePhantom)\<rparr> s = Some s'
     \<and> stores k b s s'"
proof -
  let ?e = "\<lparr>ce_buffer = b, ce_belonging_list = Some (if i = 1 then HitOncePhantom else MoreThanOncePhantom)\<rparr>"
  obtain s1 where s1: "UnsafeAdaptiveAdjust i (adapt dbl i (length b) s) = Some s1"
    "shrinks (adapt dbl i (length b) s) s1"
    "im_phantom_entry_mapper (adapt dbl i (length b) s) \<subseteq>\<^sub>m im_phantom_entry_mapper s1"
    using UnsafeAdaptiveAdjust_ok [OF adapt_ok [OF assms(1)]] by blast
  have mem: "map_of (im_memory_buffer_mapper s1) \<subseteq>\<^sub>m map_of (im_memory_buffer_mapper s)"
    "im_max_size_in_bytes s1 = im_max_size_in_bytes s" "imc_ok s1" using s1(2) by (simp_all add: shrinks_def)
  have ph: "im_phantom_entry_mapper s1 k = Some i"
    using s1(3) assms(3) unfolding map_le_def by (auto simp: dom_def)
  have none: "map_of (im_memory_buffer_mapper s1) k = None"
    using mem(1) assms(2) unfolding map_le_def by (metis domIff)
  obtain s2 where s2: "UnsafePutEntryIntoList k ?e MoreThanOnce s1 = Some (?e\<lparr>ce_belonging_list := Some MoreThanOnce\<rparr>, s2)"
    "imc_ok (s2\<lparr>im_memory_buffer_mapper := umap_set k (?e\<lparr>ce_belonging_list := Some MoreThanOnce\<rparr>) (im_memory_buffer_mapper s2),
        im_phantom_entry_mapper := (im_phantom_entry_mapper s2)(k := None)\<rparr>)"
    "im_max_size_in_bytes s2 = im_max_size_in_bytes s1" "im_memory_buffer_mapper s2 = im_memory_buffer_mapper s1"
    using insert_entry_ok [OF mem(3) none, of MoreThanOnce ?e] ph by auto
  have "map_of (im_memory_buffer_mapper s) q = Some e" if "map_of (im_memory_buffer_mapper s1) q = Some e" for q e
    using mem(1) that unfolding map_le_def by (metis domI)
  with s1(1) s2 mem(2) show ?thesis
    by (auto simp: UnsafeCacheInPhantom_def stores_def umap_simps)
qed

lemma EvictFrom_ok:
  assumes "imc_ok s"
  shows "\<exists>r s'. EvictFromOnce n s = Some (r, s') \<and> shrinks s s'"
    and "\<exists>r s'. EvictFromMoreThanOnce n s = Some (r, s') \<and> shrinks s s'"
proof -
  have two: "\<exists>r s'. (do { (r1, s1) \<leftarrow> (if lsize s p > 0 then UnsafeTryEvict p n False s else Some (n, s));
                 (if r1 \<noteq> 0 then UnsafeTryEvict l r1 True s1 else Some (r1, s1)) }) = Some (r, s') \<and> shrinks s s'"
    if p: "evictable p False" and l: "evictable l True" for p l
  proof -
    obtain r1 s1 where s1: "(if lsize s p > 0 then UnsafeTryEvict p n False s else Some (n, s)) = Some (r1, s1)" "shrinks s s1"
      using UnsafeTryEvict_ok [OF assms p, of n] shrinks_refl [OF assms] by (cases "lsize s p > 0") auto
    then have "imc_ok s1" by (simp add: shrinks_def)
    then obtain r2 s2 where "(if r1 \<noteq> 0 then UnsafeTryEvict l r1 True s1 else Some (r1, s1)) = Some (r2, s2)" "shrinks s1 s2"
      using UnsafeTryEvict_ok [OF _ l, of s1 r1] shrinks_refl by (cases "r1 \<noteq> 0") auto
    with s1 show ?thesis using shrinks_trans by auto
  qed
  show "\<exists>r s'. EvictFromOnce n s = Some (r, s') \<and> shrinks s s'"
    unfolding EvictFromOnce_def by (rule two) (simp_all add: evictable_def)
  show "\<exists>r s'. EvictFromMoreThanOnce n s = Some (r, s') \<and> shrinks s s'"
    unfolding EvictFromMoreThanOnce_def by (rule two) (simp_all add: evictable_def)
qed

lemma MakeRoomIfMiss_ok:
  assumes "imc_ok s"
  shows "\<exists>s'. MakeRoomIfMiss n s = Some s' \<and> shrinks s s'"
proof (cases "lsize s HitOnce + lsize s MoreThanOnce + n > im_max_size_in_bytes s")
  case True
  let ?c = "lsize s HitOnce + lsize s HitOncePhantom + n > im_max_size_in_bytes s"
  obtain r1 s1 where s1: "(if ?c then EvictFromOnce n s else Some (n, s)) = Some (r1, s1)" "shrinks s s1"
    using EvictFrom_ok(1) [OF assms, of n] shrinks_refl [OF assms] by (cases ?c) auto
  then have ok1: "imc_ok s1" by (simp add: shrinks_def)
  let ?rest = "if r1 \<noteq> 0 \<and> total_size s1 + r1 > im_max_size_in_bytes s1 then
             (if total_size s1 + r1 \<ge> 2 * im_max_size_in_bytes s1
              then map_option snd (EvictFromMoreThanOnce r1 s1)
              else UnsafeAdaptiveAdjust 1 s1)
           else Some s1"
  have "\<exists>s'. ?rest = Some s' \<and> shrinks s1 s'"
    using EvictFrom_ok(2) [OF ok1, of r1] UnsafeAdaptiveAdjust_ok [OF ok1, of 1] shrinks_refl [OF ok1] by auto
  then obtain s' where "?rest = Some s'" "shrinks s1 s'" by blast
  with s1 shrinks_trans have "MakeRoomIfMiss n s = Some s' \<and> shrinks s s'"
    unfolding MakeRoomIfMiss_def if_P [OF True] s1(1) Option.bind.simps(2) case_prod_conv by blast
  then show ?thesis by blast
next
  case False
  then show ?thesis using shrinks_refl [OF assms] by (simp add: MakeRoomIfMiss_def)
qed

lemma UnsafeCacheIfMiss_ok:
  assumes "imc_ok s" "unknown s k"
  shows "\<exists>s'. UnsafeCacheIfMiss k \<lparr>ce_buffer = b, ce_belonging_list = None\<rparr> s = Some s' \<and> stores k b s s'"
proof -
  let ?e = "\<lparr>ce_buffer = b, ce_belonging_list = None\<rparr>"
  obtain s1 where s1: "MakeRoomIfMiss (length b) s = Some s1" "shrinks s s1"
    using MakeRoomIfMiss_ok [OF assms(1)] by blast
  then have mem: "map_of (im_memory_buffer_mapper s1) \<subseteq>\<^sub>m map_of (im_memory_buffer_mapper s)"
    "im_max_size_in_bytes s1 = im_max_size_in_bytes s" "imc_ok s1" "unknown s1 k" using assms(2) by (simp_all add: shrinks_def)
  obtain s2 where s2: "UnsafePutEntryIntoList k ?e HitOnce s1 = Some (?e\<lparr>ce_belonging_list := Some HitOnce\<rparr>, s2)"
    "imc_ok (s2\<lparr>im_memory_buffer_mapper := umap_set k (?e\<lparr>ce_belonging_list := Some HitOnce\<rparr>) (im_memory_buffer_mapper s2),
        im_phantom_entry_mapper := (im_phantom_entry_mapper s2)(k := None)\<rparr>)"
    "im_max_size_in_bytes s2 = im_max_size_in_bytes s1" "im_memory_buffer_mapper s2 = im_memory_buffer_mapper s1"
    "im_phantom_entry_mapper s2 = im_phantom_entry_mapper s1"
    using insert_entry_ok [OF mem(3), of k HitOnce ?e] mem(4) by (auto simp: unknown_def)
  have "(im_phantom_entry_mapper s2)(k := None) = im_phantom_entry_mapper s2"
    using mem(4) s2(5) by (auto simp: unknown_def)
  with s2(2) have ok: "imc_ok (s2\<lparr>im_memory_buffer_mapper :=
      umap_set k (?e\<lparr>ce_belonging_list := Some HitOnce\<rparr>) (im_memory_buffer_mapper s2)\<rparr>)" by simp
  have "map_of (im_memory_buffer_mapper s) q = Some e" if "map_of (im_memory_buffer_mapper s1) q = Some e" for q e
    using mem(1) that unfolding map_le_def by (metis domI)
  with s1(1) s2 mem(2) ok show ?thesis
    by (auto simp: UnsafeCacheIfMiss_def stores_def umap_simps)
qed

text \<open>Limits that hold between public operations: the entries in memory fit, and so do the two
  phantom lists (the first together with its memory list).\<close>

definition limits_ok :: "InMemoryCache \<Rightarrow> bool" where
  "limits_ok s \<longleftrightarrow>
     lsize s HitOnce + lsize s MoreThanOnce \<le> im_max_size_in_bytes s
     \<and> lsize s HitOnce + lsize s HitOncePhantom \<le> im_max_size_in_bytes s
     \<and> lsize s MoreThanOncePhantom \<le> im_max_size_in_bytes s"

definition imc_inv :: "InMemoryCache \<Rightarrow> bool" where
  "imc_inv s \<longleftrightarrow> imc_ok s \<and> limits_ok s"

lemma within_limits_limits_ok: "within_limits s \<Longrightarrow> limits_ok s"
  by (simp add: within_limits_def limits_ok_def)

lemma sum_umap_modify:
  fixes m :: "('k \<times> nat) list"
  assumes "map_of m k = Some n"
  shows "sum_list (map snd (umap_modify k (\<lambda>_. j) m)) + n = sum_list (map snd m) + j"
  using assms by (induction m) (auto split: if_splits)

lemma list_ok_modify:
  assumes "list_ok c" "map_of (cl_list c) k = Some n"
  shows "list_ok \<lparr>cl_size = sub_sz (cl_size c) n + j, cl_list = umap_modify k (\<lambda>_. j) (cl_list c)\<rparr>"
    "sub_sz (cl_size c) n + j = cl_size c - n + j"
  using assms list_ok_lrem(2,3) [OF assms] sum_umap_modify [of "cl_list c" k n j]
  by (auto simp: list_ok_def keys_umap_modify)

lemma UnsafeOverwrite_ok:
  assumes "imc_ok s" "limits_ok s" "map_of (im_memory_buffer_mapper s) k = Some e"
  shows "\<exists>s'. UnsafeOverwrite k b s = Some s' \<and> stores k b s s' \<and> limits_ok s'"
proof -
  note ok = imc_okD(4) [OF assms(1), of k]
  obtain l where l: "ce_belonging_list e = Some l" using key_okD(5) [OF ok assms(3)] by blast
  have n: "map_of (llist s l) k = Some (length (ce_buffer e))" "l \<in> {HitOnce, MoreThanOnce}"
    using key_okD(4) [OF ok assms(3) l] by auto
  let ?n = "length (ce_buffer e)"
  let ?s1 = "s\<lparr>im_memory_buffer_mapper := umap_modify k (\<lambda>e. e\<lparr>ce_buffer := b\<rparr>) (im_memory_buffer_mapper s)\<rparr>"
  let ?s2 = "set_list l \<lparr>cl_size = sub_sz (lsize s l) ?n + length b, cl_list = umap_modify k (\<lambda>_. length b) (llist s l)\<rparr> ?s1"
  have other: "\<And>m. m \<noteq> l \<Longrightarrow> map_of (llist s m) k = None" by (rule key_elsewhere [OF assms(1) n(1)])
  note lm = list_ok_modify [OF imc_okD(1) [OF assms(1)] n(1), of "length b"]
  have "key_state_ok ?s2 k"
    using assms(3) l n other key_okD(3) [OF ok assms(3)] by (auto simp: key_ok_def home_of_def umap_simps)
  moreover have "list_ok (im_lists ?s2 m)" for m using lm(1) imc_okD(1) [OF assms(1)] by simp
  ultimately have ok2: "imc_ok ?s2"
    by (intro imc_ok_one_key [OF assms(1), of k])
      (use imc_okD(2,5) [OF assms(1)] in \<open>auto simp: umap_simps keys_umap_modify\<close>)
  have st: "stores k b s ?s2" using ok2 by (auto simp: stores_def umap_simps assms(3))
  have run: "UnsafeOverwrite k b s = (if length b > ?n then EvictMemoryOverflow ?s2 else Some ?s2)"
    using assms(3) l n by (simp add: UnsafeOverwrite_def Let_def)
  show ?thesis
  proof (cases "length b > ?n")
    case True
    then show ?thesis
      using run EvictMemoryOverflow_ok [OF ok2] stores_shrinks [OF st] within_limits_limits_ok by auto
  next
    case False
    have "lsize ?s2 l \<le> lsize s l"
      using False lm(2) list_ok_lrem(2) [OF imc_okD(1) [OF assms(1)] n(1)] by simp
    then have "lsize ?s2 m \<le> lsize s m" for m by (cases "m = l") auto
    from this [of HitOnce] this [of HitOncePhantom] this [of MoreThanOnce] this [of MoreThanOncePhantom]
    have "limits_ok ?s2" using assms(2) unfolding limits_ok_def by simp
    with False run st show ?thesis by auto
  qed
qed

lemma imc_Put_ok:
  assumes "imc_inv s"
  shows "\<exists>s'. imc_Put dbl k b s = Some (length b \<le> im_max_size_in_bytes s, s') \<and> imc_inv s'
           \<and> (if length b \<le> im_max_size_in_bytes s then stores k b s s' else s' = s)"
proof -
  have ok: "imc_ok s" "limits_ok s" using assms by (auto simp: imc_inv_def)
  consider "length b > im_max_size_in_bytes s"
    | e where "length b \<le> im_max_size_in_bytes s" "map_of (im_memory_buffer_mapper s) k = Some e"
    | "length b \<le> im_max_size_in_bytes s" "map_of (im_memory_buffer_mapper s) k = None" by fastforce
  then show ?thesis
  proof cases
    case 1
    then show ?thesis using assms by (simp add: imc_Put_def)
  next
    case (2 e)
    then show ?thesis
      using UnsafeOverwrite_ok [OF ok, of k e b] by (auto simp: imc_Put_def imc_inv_def stores_def)
  next
    case 3
    let ?put = "case im_phantom_entry_mapper s k of
                   Some i \<Rightarrow>
                     UnsafeCacheInPhantom dbl i k
                       \<lparr>ce_buffer = b,
                        ce_belonging_list = Some (if i = 1 then HitOncePhantom else MoreThanOncePhantom)\<rparr> s
                 | None \<Rightarrow> UnsafeCacheIfMiss k \<lparr>ce_buffer = b, ce_belonging_list = None\<rparr> s"
    have "\<exists>s1. ?put = Some s1 \<and> stores k b s s1"
      using UnsafeCacheInPhantom_ok [OF ok(1) 3(2)] UnsafeCacheIfMiss_ok [OF ok(1), of k b] 3(2)
      by (cases "im_phantom_entry_mapper s k") (auto simp: unknown_def)
    then obtain s1 where s1: "?put = Some s1" "stores k b s s1" by blast
    then have "imc_ok s1" by (simp add: stores_def)
    from EvictMemoryOverflow_ok [OF this] obtain s2 where
      s2: "EvictMemoryOverflow s1 = Some s2" "shrinks s1 s2" "within_limits s2" by blast
    have "stores k b s s2" using stores_shrinks [OF s1(2) s2(2)] .
    moreover have "imc_Put dbl k b s = Some (True, s2)"
      using 3 s1(1) s2(1) unfolding imc_Put_def by simp
    moreover have "imc_inv s2" using s2(2,3) within_limits_limits_ok by (simp add: imc_inv_def shrinks_def)
    ultimately show ?thesis using 3(1) by simp
  qed
qed

text \<open>A hit moves the entry to the front of the second list, whichever list it is in.\<close>

lemma imc_TryGet_ok:
  assumes "imc_inv s"
  shows "\<exists>s'. imc_TryGet k s = Some (map_option ce_buffer (map_of (im_memory_buffer_mapper s) k), s') \<and> imc_inv s'
           \<and> im_max_size_in_bytes s' = im_max_size_in_bytes s
           \<and> (\<forall>q. map_option ce_buffer (map_of (im_memory_buffer_mapper s') q) =
                  map_option ce_buffer (map_of (im_memory_buffer_mapper s) q))"
proof (cases "map_of (im_memory_buffer_mapper s) k")
  case None
  then show ?thesis
    using assms by (auto simp: imc_TryGet_def imc_inv_def imc_ok_def limits_ok_def)
next
  case (Some e)
  have ok: "imc_ok s" "limits_ok s" using assms by (auto simp: imc_inv_def)
  note kok = imc_okD(4) [OF ok(1), of k]
  obtain l where l: "ce_belonging_list e = Some l" using key_okD(5) [OF kok Some] by blast
  let ?n = "length (ce_buffer e)"
  have n: "map_of (llist s l) k = Some ?n" "l \<in> {HitOnce, MoreThanOnce}" using key_okD(4) [OF kok Some l] by auto
  have other: "\<And>m. m \<noteq> l \<Longrightarrow> map_of (llist s m) k = None" by (rule key_elsewhere [OF ok(1) n(1)])
  let ?e' = "e\<lparr>ce_belonging_list := Some MoreThanOnce\<rparr>"
  let ?s1 = "set_list l (lrem k ?n (im_lists s l)) s"
  let ?s2 = "set_list MoreThanOnce (lpush k ?n (im_lists ?s1 MoreThanOnce)) ?s1"
  let ?s' = "?s2\<lparr>im_memory_buffer_mapper := umap_modify k (\<lambda>_. ?e') (im_memory_buffer_mapper s), im_hits := im_hits s + 1\<rparr>"
  have run: "imc_TryGet k s = Some (Some (ce_buffer e), ?s')"
    using Some l n by (simp add: imc_TryGet_def UnsafePutEntryIntoList_def lrem_def lpush_def Let_def)
  note lr = list_ok_lrem [OF imc_okD(1) [OF ok(1)] n(1)]
  have absent: "map_of (llist ?s1 MoreThanOnce) k = None" using other by (auto simp: umap_simps)
  have lists1: "list_ok (im_lists ?s1 m)" for m using lr(1) imc_okD(1) [OF ok(1)] by simp
  have "list_ok (lpush k ?n (im_lists ?s1 MoreThanOnce))"
    using list_ok_lpush [OF lists1 map_of_None_key [OF absent]] .
  then have "list_ok (im_lists ?s' m)" for m using lists1 [of m] by simp
  moreover have "key_state_ok ?s' k"
    using Some other key_okD(3) [OF kok Some] by (auto simp: key_ok_def home_of_def umap_simps)
  ultimately have "imc_ok ?s'"
    by (intro imc_ok_one_key [OF ok(1), of k])
      (use imc_okD(2,5) [OF ok(1)] in \<open>auto simp: umap_simps keys_umap_modify\<close>)
  moreover have "limits_ok ?s'"
    using ok(2) lr(2,3) n(2) by (auto simp: limits_ok_def)
  ultimately show ?thesis using run Some by (auto simp: imc_inv_def umap_simps)
qed

lemma imc_Remove_ok:
  assumes "imc_inv s"
  shows "\<exists>s'. imc_Remove ks s = Some s' \<and> imc_inv s' \<and> im_max_size_in_bytes s' = im_max_size_in_bytes s
           \<and> map_of (im_memory_buffer_mapper s') = map_of (im_memory_buffer_mapper s) |` (- set ks)"
  using assms
proof (induction ks arbitrary: s)
  case Nil
  then show ?case by simp
next
  case (Cons k ks)
  show ?case
  proof (cases "map_of (im_memory_buffer_mapper s) k")
    case None
    with Cons obtain s' where "imc_Remove ks s = Some s'" "imc_inv s'" "im_max_size_in_bytes s' = im_max_size_in_bytes s"
      "map_of (im_memory_buffer_mapper s') = map_of (im_memory_buffer_mapper s) |` (- set ks)" by blast
    with None show ?thesis by (auto simp: restrict_map_def fun_eq_iff)
  next
    case (Some e)
    have ok: "imc_ok s" "limits_ok s" using Cons.prems by (auto simp: imc_inv_def)
    note kok = imc_okD(4) [OF ok(1), of k]
    obtain l where l: "ce_belonging_list e = Some l" using key_okD(5) [OF kok Some] by blast
    let ?n = "length (ce_buffer e)"
    have n: "map_of (llist s l) k = Some ?n" "l \<in> {HitOnce, MoreThanOnce}" using key_okD(4) [OF kok Some l] by auto
    have other: "\<And>m. m \<noteq> l \<Longrightarrow> map_of (llist s m) k = None" by (rule key_elsewhere [OF ok(1) n(1)])
    let ?t = "set_list l (lrem k ?n (im_lists s l)) (s\<lparr>im_memory_buffer_mapper := umap_erase k (im_memory_buffer_mapper s)\<rparr>)"
    note lr = list_ok_lrem [OF imc_okD(1) [OF ok(1)] n(1)]
    have "key_state_ok ?t k"
      using other key_okD(3) [OF kok Some] by (auto simp: key_ok_def home_of_def umap_simps)
    moreover have "list_ok (im_lists ?t m)" for m using lr(1) imc_okD(1) [OF ok(1)] by simp
    ultimately have "imc_ok ?t"
      by (intro imc_ok_one_key [OF ok(1), of k])
        (use imc_okD(2,5) [OF ok(1)] in \<open>auto simp: umap_simps\<close>)
    moreover have "limits_ok ?t" using ok(2) lr(2,3) n(2) by (auto simp: limits_ok_def)
    ultimately have "imc_inv ?t" by (simp add: imc_inv_def)
    with Cons.IH obtain s' where s': "imc_Remove ks ?t = Some s'" "imc_inv s'" "im_max_size_in_bytes s' = im_max_size_in_bytes ?t"
      "map_of (im_memory_buffer_mapper s') = map_of (im_memory_buffer_mapper ?t) |` (- set ks)" by blast
    have "imc_Remove (k # ks) s = imc_Remove ks ?t" using Some l by (simp add: lrem_def)
    with s' show ?thesis by (auto simp: restrict_map_def fun_eq_iff umap_simps)
  qed
qed

section \<open>The machine and its abstract specification\<close>

lemma imc_step_ok:
  assumes "imc_inv s"
  shows "\<exists>t. imc_step dbl c s = Some t \<and> imc_inv t"
proof (cases c)
  case (CallPut k b)
  then show ?thesis using imc_Put_ok [OF assms, of dbl k b] by auto
next
  case (CallTryGet k)
  then show ?thesis using imc_TryGet_ok [OF assms, of k] by auto
next
  case (CallRemove ks)
  then show ?thesis using imc_Remove_ok [OF assms, of ks] by auto
qed

lemma imc_step_inv: "imc_inv s \<Longrightarrow> imc_step dbl c s = Some t \<Longrightarrow> imc_inv t"
  using imc_step_ok [of s dbl c] by auto

interpretation imc: safe_machine "imc_step dbl" imc_inv for dbl
  by unfold_locales (use imc_step_ok imc_step_inv in blast)+

lemma imc_inv_ctor: "imc_inv (InMemoryCache_ctor n)"
  by (simp add: imc_inv_def imc_ok_def limits_ok_def InMemoryCache_ctor_def list_ok_def key_ok_def home_of_def)

text \<open>The specification: a map that remembers every accepted store.\<close>

definition contents :: "InMemoryCache \<Rightarrow> string \<Rightarrow> bytes option" where
  "contents s q = map_option ce_buffer (map_of (im_memory_buffer_mapper s) q)"

fun spec_step :: "nat \<Rightarrow> imc_call \<Rightarrow> (string \<Rightarrow> bytes option) \<Rightarrow> (string \<Rightarrow> bytes option)" where
  "spec_step max_size (CallPut k b) m = (if length b \<le> max_size then m(k \<mapsto> b) else m)"
| "spec_step max_size (CallTryGet k) m = m"
| "spec_step max_size (CallRemove ks) m = m |` (- set ks)"

lemma map_leD: "f \<subseteq>\<^sub>m g \<Longrightarrow> f q = Some x \<Longrightarrow> g q = Some x"
  unfolding map_le_def by (metis domI)

lemma map_leI: "(\<And>q x. f q = Some x \<Longrightarrow> g q = Some x) \<Longrightarrow> f \<subseteq>\<^sub>m g"
  unfolding map_le_def dom_def by fastforce

lemma imc_step_simulates:
  assumes "imc_inv s" "imc_step dbl c s = Some t" "contents s \<subseteq>\<^sub>m m"
  shows "contents t \<subseteq>\<^sub>m spec_step (im_max_size_in_bytes s) c m" "im_max_size_in_bytes t = im_max_size_in_bytes s"
proof -
  have "contents t \<subseteq>\<^sub>m spec_step (im_max_size_in_bytes s) c m \<and> im_max_size_in_bytes t = im_max_size_in_bytes s"
  proof (cases c)
    case (CallPut k b)
    from imc_Put_ok [OF assms(1), of dbl k b] assms(2) CallPut have
      st: "if length b \<le> im_max_size_in_bytes s then stores k b s t else t = s" by auto
    show ?thesis
    proof (cases "length b \<le> im_max_size_in_bytes s")
      case True
      with st have "stores k b s t" by simp
      then have "contents t q = Some x \<Longrightarrow> (m(k \<mapsto> b)) q = Some x" for q x
        using map_leD [OF assms(3), of q x] by (auto simp: stores_def contents_def)
      with True CallPut \<open>stores k b s t\<close> show ?thesis by (auto simp: stores_def intro!: map_leI)
    qed (use st assms(3) CallPut in simp)
  next
    case (CallTryGet k)
    with imc_TryGet_ok [OF assms(1), of k] assms(2) have "contents t = contents s" "im_max_size_in_bytes t = im_max_size_in_bytes s"
      by (auto simp: contents_def fun_eq_iff)
    with CallTryGet assms(3) show ?thesis by simp
  next
    case (CallRemove ks)
    with imc_Remove_ok [OF assms(1), of ks] assms(2) have
      "map_of (im_memory_buffer_mapper t) = map_of (im_memory_buffer_mapper s) |` (- set ks)"
      "im_max_size_in_bytes t = im_max_size_in_bytes s" by auto
    then have "contents t q = Some x \<Longrightarrow> (m |` (- set ks)) q = Some x" for q x
      using map_leD [OF assms(3), of q x] by (auto simp: contents_def restrict_map_def split: if_splits)
    with CallRemove \<open>im_max_size_in_bytes t = im_max_size_in_bytes s\<close> show ?thesis by (auto intro!: map_leI)
  qed
  then show "contents t \<subseteq>\<^sub>m spec_step (im_max_size_in_bytes s) c m" "im_max_size_in_bytes t = im_max_size_in_bytes s" by auto
qed

lemma imc_run_simulates:
  assumes "imc_inv s" "run_calls (imc_step dbl) cs s = Some t" "contents s \<subseteq>\<^sub>m m"
  shows "contents t \<subseteq>\<^sub>m fold (spec_step (im_max_size_in_bytes s)) cs m"
  using assms
proof (induction cs arbitrary: s m)
  case (Cons c cs)
  then obtain u where u: "imc_step dbl c s = Some u" "run_calls (imc_step dbl) cs u = Some t"
    by (auto split: option.splits)
  note sim = imc_step_simulates [OF Cons.prems(1) u(1) Cons.prems(3)]
  from Cons.IH [OF imc_step_inv [OF Cons.prems(1) u(1)] u(2) sim(1)] sim(2) show ?case by simp
qed simp

section \<open>Properties\<close>

abbreviation demo_double :: double_ops where
  "demo_double \<equiv> exact_double"

definition demo_cache_calls :: "imc_call list" where
  "demo_cache_calls =
     [CallPut ''a'' ''11111'', CallPut ''b'' ''222'', CallTryGet ''a'', CallPut ''c'' ''3333'', CallPut ''b'' ''2222'',
      CallPut ''d'' ''44'', CallPut ''huge'' ''aaaaaaaaaaaa'', CallRemove [''d'']]"


text \<open>The bytes held in memory never exceed the configured maximum, and the cache reports them
  exactly: after any sequence of operations the reported size is the total length of the stored
  buffers, and is at most the maximum.\<close>

theorem in_memory_cache_bounded:
  assumes "run_calls (imc_step dbl) cs (InMemoryCache_ctor max_size) = Some s"
  shows "fst (imc_DumpInternals s) = sum_list (map snd (llist s HitOnce)) + sum_list (map snd (llist s MoreThanOnce))
     \<and> fst (imc_DumpInternals s) \<le> im_max_size_in_bytes s
     \<and> lsize s HitOncePhantom \<le> im_max_size_in_bytes s \<and> lsize s MoreThanOncePhantom \<le> im_max_size_in_bytes s"
proof -
  have "imc_inv s" using imc.run_calls_inv [OF imc_inv_ctor assms] .
  then show ?thesis by (auto simp: imc_inv_def imc_ok_def list_ok_def limits_ok_def imc_DumpInternals_def)
qed

theorem in_memory_cache_bounded_witness:
  "\<exists>s. run_calls (imc_step demo_double) demo_cache_calls (InMemoryCache_ctor 10) = Some s
     \<and> fst (imc_DumpInternals s) = 8 \<and> fst (imc_DumpInternals s) \<le> im_max_size_in_bytes s"
proof -
  have "map_option (fst \<circ> imc_DumpInternals) (run_calls (imc_step demo_double) demo_cache_calls (InMemoryCache_ctor 10)) = Some 8"
    by code_simp
  then obtain s where "run_calls (imc_step demo_double) demo_cache_calls (InMemoryCache_ctor 10) = Some s"
    "fst (imc_DumpInternals s) = 8" by auto
  with in_memory_cache_bounded [OF this(1)] show ?thesis by auto
qed

text \<open>C21. The cache refines the map that remembers every accepted store: whatever a lookup returns
  after a sequence of operations is the value stored last under that key, and not one that was
  removed since; a lookup changes no contents.\<close>

theorem in_memory_cache_refines_map:
  assumes "run_calls (imc_step dbl) cs (InMemoryCache_ctor max_size) = Some s" "imc_TryGet k s = Some (r, s')"
  shows "(r = None \<or> r = fold (spec_step max_size) cs (\<lambda>_. None) k) \<and> contents s' = contents s"
proof -
  have "contents s \<subseteq>\<^sub>m fold (spec_step max_size) cs (\<lambda>_. None)"
    using imc_run_simulates [OF imc_inv_ctor assms(1), of "\<lambda>_. None"]
    by (simp add: InMemoryCache_ctor_def contents_def map_le_def dom_def)
  moreover have "imc_inv s" using imc.run_calls_inv [OF imc_inv_ctor assms(1)] .
  moreover from this have "r = contents s k" "contents s' = contents s"
    using imc_TryGet_ok [of s k] assms(2) by (auto simp: contents_def fun_eq_iff)
  ultimately show ?thesis
    using map_leD [of "contents s" "fold (spec_step max_size) cs (\<lambda>_. None)" k] by (cases "contents s k") auto
qed

theorem in_memory_cache_refines_map_witness:
  "\<exists>s s'. run_calls (imc_step demo_double) demo_cache_calls (InMemoryCache_ctor 10) = Some s
     \<and> imc_TryGet ''b'' s = Some (Some ''2222'', s') \<and> fold (spec_step 10) demo_cache_calls (\<lambda>_. None) ''b'' = Some ''2222''"
proof -
  let ?run = "run_calls (imc_step demo_double) demo_cache_calls (InMemoryCache_ctor 10)"
  have "map_option (\<lambda>s. map_option fst (imc_TryGet ''b'' s)) ?run = Some (Some (Some ''2222''))" by code_simp
  then obtain s s' where s: "?run = Some s" "imc_TryGet ''b'' s = Some (Some ''2222'', s')" by auto
  with in_memory_cache_refines_map [OF s] show ?thesis by auto
qed

text \<open>A store that does not fit is refused and changes nothing: in particular an older value
  under the same key stays, and is what the cache answers with.\<close>

theorem in_memory_cache_put_result:
  assumes "imc_inv s"
  shows "\<exists>s'. imc_Put dbl k b s = Some (length b \<le> im_max_size_in_bytes s, s') \<and> imc_inv s'
     \<and> (length b > im_max_size_in_bytes s \<longrightarrow> s' = s)
     \<and> (length b \<le> im_max_size_in_bytes s \<longrightarrow> contents s' k \<in> {None, Some b}
          \<and> (\<forall>q. q \<noteq> k \<longrightarrow> contents s' q \<in> {None, contents s q}))"
proof -
  obtain s' where s': "imc_Put dbl k b s = Some (length b \<le> im_max_size_in_bytes s, s')" "imc_inv s'"
    "if length b \<le> im_max_size_in_bytes s then stores k b s s' else s' = s" using imc_Put_ok [OF assms] by blast
  have "contents s' k \<in> {None, Some b}" if "stores k b s s'"
    using that by (cases "map_of (im_memory_buffer_mapper s') k") (auto simp: stores_def contents_def)
  moreover have "contents s' q \<in> {None, contents s q}" if "stores k b s s'" "q \<noteq> k" for q
    using that by (cases "map_of (im_memory_buffer_mapper s') q") (fastforce simp: stores_def contents_def)+
  ultimately show ?thesis using s' by auto
qed

theorem in_memory_cache_put_result_witness:
  "\<exists>s'. imc_Put demo_double ''a'' ''12345'' (InMemoryCache_ctor 4) = Some (False, s')"
  using in_memory_cache_put_result [OF imc_inv_ctor, of demo_double "''a''" "''12345''" 4]
  by (auto simp: InMemoryCache_ctor_def)

end
