(* ===== verification/Cache_Engine.thy ===== *)
theory Cache_Engine
  imports Disk_Cache_Properties In_Memory_Cache_Proofs
begin

text \<open>
  The second-level caches of the cache server behind their common interface
  (\<^verbatim>\<open>cache/cache_engine.h\<close>): the null engine (\<^verbatim>\<open>cache/null_cache_engine.cc\<close>) and the disk engine
  (\<^verbatim>\<open>cache/disk_cache_engine.cc\<close>). The interface is a record of operations on the engine's own
  state; \<open>'e\<close> is what the environment contributes to a call. The locale \<open>cache_engine\<close> is the
  contract the service relies on, and it is interpreted for both engines.
\<close>

section \<open>The interface\<close>

record ('e, 's) CacheEngine =
  ce_GetKeys :: "'s \<Rightarrow> string list"
  ce_TryGet :: "'e \<Rightarrow> string \<Rightarrow> 's \<Rightarrow> (bytes option \<times> 's) option"
  ce_Put :: "'e \<Rightarrow> string \<Rightarrow> bytes \<Rightarrow> 's \<Rightarrow> 's option"
  ce_Purge :: "'e \<Rightarrow> 's \<Rightarrow> 's option"

section \<open>The engines\<close>

definition NullCacheEngine :: "('e, unit) CacheEngine" where
  "NullCacheEngine =
     \<lparr>ce_GetKeys = (\<lambda>s. []), ce_TryGet = (\<lambda>e key s. Some (None, s)), ce_Put = (\<lambda>e key bytes s. Some s),
      ce_Purge = (\<lambda>e s. Some s)\<rparr>"

record disk_env =
  ev_now :: time_point
  ev_open_ok :: bool
  ev_read_ok :: bool
  ev_padding :: bytes

definition DiskCacheEngine :: "flare \<Rightarrow> double_ops \<Rightarrow> (disk_env, DiskCache) CacheEngine" where
  "DiskCacheEngine fl dbl =
     \<lparr>ce_GetKeys = dc_GetKeys,
      ce_TryGet = (\<lambda>e key s. dc_TryGet fl (ev_read_ok e) (ev_now e) key s),
      ce_Put = (\<lambda>e key bytes s. dc_Put fl (ev_open_ok e) (pad32 (ev_padding e)) (ev_now e) key bytes s),
      ce_Purge = (\<lambda>e s. dc_Purge fl dbl s)\<rparr>"

text \<open>The constructor reads the two flags; the other options keep their defaults.\<close>

definition DiskCacheEngine_ctor :: "flare \<Rightarrow> string \<Rightarrow> string \<Rightarrow> filesystem \<Rightarrow> DiskCache option" where
  "DiskCacheEngine_ctor fl cache_dirs action fs =
     do {
       shards \<leftarrow> ParseCacheDirs fl cache_dirs;
       act \<leftarrow> ParseActionOnMisplacedEntry action;
       DiskCache_ctor fl \<lparr>do_shards = shards, do_action_on_misplaced_cache_entry = act,
                          do_sub_dir_level = 2, do_sub_dirs = 16\<rparr> fs
     }"

section \<open>The contract\<close>

locale cache_engine =
  fixes eng :: "('e, 's) CacheEngine"
    and inv :: "'s \<Rightarrow> bool"
    and cont :: "'s \<Rightarrow> string \<Rightarrow> bytes option"
  assumes TryGet: "inv s \<Longrightarrow> \<exists>r s'. ce_TryGet eng e k s = Some (r, s') \<and> inv s' \<and> cont s' = cont s
       \<and> (r = None \<or> r = cont s k)"
    and Put: "inv s \<Longrightarrow> \<exists>s'. ce_Put eng e k b s = Some s' \<and> inv s' \<and> (cont s' k = None \<or> cont s' k = Some b)
       \<and> (\<forall>q. q \<noteq> k \<longrightarrow> cont s' q = cont s q)"
    and Purge: "inv s \<Longrightarrow> \<exists>s'. ce_Purge eng e s = Some s' \<and> inv s' \<and> cont s' \<subseteq>\<^sub>m cont s"
    and GetKeys: "inv s \<Longrightarrow> cont s k \<noteq> None \<Longrightarrow> k \<in> set (ce_GetKeys eng s)"
begin

lemma Put_refines: "inv s \<Longrightarrow> cont s \<subseteq>\<^sub>m m \<Longrightarrow> \<exists>s'. ce_Put eng e k b s = Some s' \<and> inv s' \<and> cont s' \<subseteq>\<^sub>m m(k \<mapsto> b)"
proof -
  assume "inv s" and m: "cont s \<subseteq>\<^sub>m m"
  then obtain s' where s': "ce_Put eng e k b s = Some s'" "inv s'" "cont s' k = None \<or> cont s' k = Some b"
    "\<forall>q. q \<noteq> k \<longrightarrow> cont s' q = cont s q" using Put by blast
  have "cont s' \<subseteq>\<^sub>m m(k \<mapsto> b)"
  proof (rule map_leI)
    fix q x assume "cont s' q = Some x"
    with s'(3,4) map_leD [OF m, of q x] show "(m(k \<mapsto> b)) q = Some x" by (cases "q = k") auto
  qed
  with s' show ?thesis by blast
qed

end

interpretation null_engine: cache_engine NullCacheEngine "\<lambda>_. True" "\<lambda>_ _. None"
  by unfold_locales (auto simp: NullCacheEngine_def)

lemma has_entry_GetKeys: "has_entry s d k \<Longrightarrow> k \<in> set (dc_GetKeys s)"
proof -
  assume "has_entry s d k"
  then obtain es e where "map_of (dc_entries_per_dir s) d = Some es" "map_of es k = Some e"
    by (auto simp: has_entry_def split: option.splits)
  then have "(d, es) \<in> set (dc_entries_per_dir s)" "(k, e) \<in> set es" by (auto dest: map_of_SomeD)
  then show ?thesis by (force simp: dc_GetKeys_def GetEntryKeysSnapshot_def)
qed

interpretation disk_engine: cache_engine "DiskCacheEngine fl dbl" "\<lambda>s. flare_strings fl \<and> dc_inv fl s" "dc_contents fl"
  for fl dbl
proof
  fix s k b and e :: disk_env assume i: "flare_strings fl \<and> dc_inv fl s"
  then have fl: "flare_strings fl" and inv: "dc_inv fl s" by auto
  obtain r s' where "dc_TryGet fl (ev_read_ok e) (ev_now e) k s = Some (r, s')" "dc_inv fl s'"
    "dc_contents fl s' = dc_contents fl s" "r = (if ev_read_ok e then dc_contents fl s k else None)"
    using dc_TryGet_ok [OF inv fl] by blast
  then show "\<exists>r s'. ce_TryGet (DiskCacheEngine fl dbl) e k s = Some (r, s') \<and> (flare_strings fl \<and> dc_inv fl s')
     \<and> dc_contents fl s' = dc_contents fl s \<and> (r = None \<or> r = dc_contents fl s k)"
    using fl by (intro exI [of _ r] exI [of _ s']) (simp add: DiskCacheEngine_def)
  obtain s2 where "dc_Put fl (ev_open_ok e) (pad32 (ev_padding e)) (ev_now e) k b s = Some s2" "dc_inv fl s2"
    "dc_contents fl s2 = (dc_contents fl s)(k := if storable fl (ev_open_ok e) k s then Some b else None)"
    using dc_Put_ok [OF inv fl length_pad32] by blast
  then show "\<exists>s'. ce_Put (DiskCacheEngine fl dbl) e k b s = Some s' \<and> (flare_strings fl \<and> dc_inv fl s')
     \<and> (dc_contents fl s' k = None \<or> dc_contents fl s' k = Some b) \<and> (\<forall>q. q \<noteq> k \<longrightarrow> dc_contents fl s' q = dc_contents fl s q)"
    using fl by (intro exI [of _ s2]) (simp add: DiskCacheEngine_def)
  obtain s3 where "dc_Purge fl dbl s = Some s3" "dc_inv fl s3" "dc_contents fl s3 \<subseteq>\<^sub>m dc_contents fl s"
    using dc_Purge_ok [OF inv fl] by blast
  then show "\<exists>s'. ce_Purge (DiskCacheEngine fl dbl) e s = Some s' \<and> (flare_strings fl \<and> dc_inv fl s') \<and> dc_contents fl s' \<subseteq>\<^sub>m dc_contents fl s"
    using fl by (intro exI [of _ s3]) (simp add: DiskCacheEngine_def)
  assume "dc_contents fl s k \<noteq> None"
  then have "\<exists>d. has_entry s d k" by (auto simp: dc_contents_def split: option.splits if_splits)
  then show "k \<in> set (ce_GetKeys (DiskCacheEngine fl dbl) s)" using has_entry_GetKeys by (auto simp: DiskCacheEngine_def)
qed

end
