(* ===== verification/Bloom_Filter_Generator.thy ===== *)
theory Bloom_Filter_Generator
  imports Flare_Api
begin

text \<open>
  The cache server's summary of its keys (\<^verbatim>\<open>cache/bloom_filter_generator.cc\<close>): a Bloom filter and
  the keys populated in the last hour, oldest first. The filter itself is Flare's
  \<open>SaltedBloomFilter\<close>; its operations are the fields of \<open>bloom_ops\<close>, and \<open>bloom_laws\<close> is what the
  program relies on (a key that was added is always reported as possibly contained).
\<close>

section \<open>Definitions\<close>

record 'f bloom_ops =
  bf_new :: "nat \<Rightarrow> nat \<Rightarrow> 'f"
  bf_Add :: "'f \<Rightarrow> string \<Rightarrow> 'f"
  bf_PossiblyContains :: "'f \<Rightarrow> string \<Rightarrow> bool"
  bf_GetBytes :: "'f \<Rightarrow> bytes"
  bf_GetIterationCount :: "'f \<Rightarrow> nat"

definition bloom_laws :: "'f bloom_ops \<Rightarrow> bool" where
  "bloom_laws bo \<longleftrightarrow> (\<forall>f k. bf_PossiblyContains bo (bf_Add bo f k) k)
     \<and> (\<forall>f k q. bf_PossiblyContains bo f q \<longrightarrow> bf_PossiblyContains bo (bf_Add bo f k) q)"

record 'f BloomFilterGenerator =
  bg_current_bf :: 'f
  bg_newly_populated_keys :: "(string \<times> time_point) list"

abbreviation kHashIterationCount :: nat where "kHashIterationCount \<equiv> 10"
abbreviation kBloomFilterSizeInBits :: nat where "kBloomFilterSizeInBits \<equiv> 27584639"
abbreviation kNewlyPopulatedKeyHistory :: nanoseconds where "kNewlyPopulatedKeyHistory \<equiv> seconds 3600"

definition BloomFilterGenerator_ctor :: "'f bloom_ops \<Rightarrow> 'f BloomFilterGenerator" where
  "BloomFilterGenerator_ctor bo =
     \<lparr>bg_current_bf = bf_new bo kBloomFilterSizeInBits kHashIterationCount, bg_newly_populated_keys = []\<rparr>"

definition UnsafeGetNewlyPopulatedKeys ::
  "time_point \<Rightarrow> nanoseconds \<Rightarrow> 'f BloomFilterGenerator \<Rightarrow> string list \<times> 'f BloomFilterGenerator" where
  "UnsafeGetNewlyPopulatedKeys now recent g =
     (let since = now - recent; keep_since = now - kNewlyPopulatedKeyHistory;
          kept = dropWhile (\<lambda>e. snd e < keep_since) (bg_newly_populated_keys g)
      in (map fst (takeWhile (\<lambda>e. \<not> snd e < since) (rev kept)), g\<lparr>bg_newly_populated_keys := kept\<rparr>))"

definition Rebuild ::
  "'f bloom_ops \<Rightarrow> time_point \<Rightarrow> string list \<Rightarrow> nanoseconds \<Rightarrow> 'f BloomFilterGenerator \<Rightarrow> 'f BloomFilterGenerator" where
  "Rebuild bo now keys key_generation_compensation g =
     (let (compensation, g1) = UnsafeGetNewlyPopulatedKeys now key_generation_compensation g;
          filter1 = fold (\<lambda>e f. bf_Add bo f e) keys (bf_new bo kBloomFilterSizeInBits kHashIterationCount);
          filter2 = fold (\<lambda>e f. bf_Add bo f e) compensation filter1
      in g1\<lparr>bg_current_bf := filter2\<rparr>)"

definition bg_Add :: "'f bloom_ops \<Rightarrow> time_point \<Rightarrow> string \<Rightarrow> 'f BloomFilterGenerator \<Rightarrow> 'f BloomFilterGenerator" where
  "bg_Add bo now cache_key g =
     g\<lparr>bg_current_bf := bf_Add bo (bg_current_bf g) cache_key,
       bg_newly_populated_keys := bg_newly_populated_keys g @ [(cache_key, now)]\<rparr>"

definition GetNewlyPopulatedKeys ::
  "time_point \<Rightarrow> nanoseconds \<Rightarrow> 'f BloomFilterGenerator \<Rightarrow> string list \<times> 'f BloomFilterGenerator" where
  "GetNewlyPopulatedKeys now recent g = UnsafeGetNewlyPopulatedKeys now recent g"

definition GetBloomFilter :: "'f BloomFilterGenerator \<Rightarrow> 'f" where
  "GetBloomFilter g = bg_current_bf g"

section \<open>Lemmas\<close>

abbreviation may_contain :: "'f bloom_ops \<Rightarrow> 'f BloomFilterGenerator \<Rightarrow> string \<Rightarrow> bool" where
  "may_contain bo g k \<equiv> bf_PossiblyContains bo (bg_current_bf g) k"

lemma fold_bf_Add:
  assumes "bloom_laws bo" "k \<in> set ks \<or> bf_PossiblyContains bo f k"
  shows "bf_PossiblyContains bo (fold (\<lambda>e f. bf_Add bo f e) ks f) k"
  using assms(2)
proof (induction ks arbitrary: f)
  case (Cons e ks)
  then have "k \<in> set ks \<or> bf_PossiblyContains bo (bf_Add bo f e) k" using assms(1) by (auto simp: bloom_laws_def)
  with Cons.IH show ?case by simp
qed simp

lemma dropWhile_sorted:
  "sorted (map snd xs) \<Longrightarrow> dropWhile (\<lambda>e. snd e < t) xs = filter (\<lambda>e. \<not> snd e < t) xs"
proof (induction xs)
  case (Cons x xs)
  show ?case
  proof (cases "snd x < t")
    case False
    then have "filter (\<lambda>e. \<not> snd e < t) xs = xs" using Cons.prems by (auto simp: filter_id_conv)
    with False show ?thesis by simp
  qed (use Cons in simp)
qed simp

lemma takeWhile_rev_sorted:
  "sorted (map snd xs) \<Longrightarrow> takeWhile (\<lambda>e. \<not> snd e < t) (rev xs) = rev (filter (\<lambda>e. \<not> snd e < t) xs)"
proof (induction xs rule: rev_induct)
  case (snoc x xs)
  show ?case
  proof (cases "snd x < t")
    case True
    then have "filter (\<lambda>e. \<not> snd e < t) xs = []" using snoc.prems by (auto simp: sorted_append filter_empty_conv)
    with True show ?thesis by simp
  qed (use snoc in \<open>simp add: sorted_append\<close>)
qed simp

text \<open>The history read at a time: the keys added within the given period and within the last hour,
  newest first.\<close>

lemma UnsafeGetNewlyPopulatedKeys_eq:
  assumes "sorted (map snd (bg_newly_populated_keys g))"
  shows "UnsafeGetNewlyPopulatedKeys now recent g =
    (rev (map fst (filter (\<lambda>e. now - kNewlyPopulatedKeyHistory \<le> snd e \<and> now - recent \<le> snd e) (bg_newly_populated_keys g))),
     g\<lparr>bg_newly_populated_keys := filter (\<lambda>e. now - kNewlyPopulatedKeyHistory \<le> snd e) (bg_newly_populated_keys g)\<rparr>)"
proof -
  let ?xs = "bg_newly_populated_keys g" and ?t = "now - kNewlyPopulatedKeyHistory"
  have "sorted (map snd (filter (\<lambda>e. \<not> snd e < ?t) ?xs))"
    using assms by (rule sorted_filter)
  from takeWhile_rev_sorted [OF this] dropWhile_sorted [OF assms] show ?thesis
    by (simp add: UnsafeGetNewlyPopulatedKeys_def Let_def not_less rev_map)
qed

text \<open>The history against the list of all keys added so far: everything added from some time on,
  which is at least an hour back.\<close>

definition records :: "(string \<times> time_point) list \<Rightarrow> time_point \<Rightarrow> 'f BloomFilterGenerator \<Rightarrow> bool" where
  "records puts clock g \<longleftrightarrow> sorted (map snd puts) \<and> (\<forall>e\<in>set puts. snd e \<le> clock)
     \<and> (\<exists>c \<le> clock - kNewlyPopulatedKeyHistory. bg_newly_populated_keys g = filter (\<lambda>e. c \<le> snd e) puts)"

lemma records_empty: "bg_newly_populated_keys g = [] \<Longrightarrow> records [] clock g"
  by (auto simp: records_def)

lemma records_later: "records puts clock g \<Longrightarrow> clock \<le> clock' \<Longrightarrow> records puts clock' g"
  unfolding records_def by (elim conjE exE) (intro conjI exI, auto)

lemma records_Add:
  assumes "records puts clock g" "clock \<le> now"
  shows "records (puts @ [(k, now)]) now (bg_Add bo now k g)"
proof -
  obtain c where c: "c \<le> clock - kNewlyPopulatedKeyHistory" "bg_newly_populated_keys g = filter (\<lambda>e. c \<le> snd e) puts"
    and p: "sorted (map snd puts)" "\<forall>e\<in>set puts. snd e \<le> clock" using assms(1) by (auto simp: records_def)
  have "bg_newly_populated_keys (bg_Add bo now k g) = filter (\<lambda>e. c \<le> snd e) (puts @ [(k, now)])" "c \<le> now - kNewlyPopulatedKeyHistory"
    using c assms(2) by (auto simp: bg_Add_def)
  moreover have "sorted (map snd (puts @ [(k, now)]))" "\<forall>e\<in>set (puts @ [(k, now)]). snd e \<le> now"
    using p assms(2) by (auto simp: sorted_append)
  ultimately show ?thesis unfolding records_def by blast
qed

lemma records_Get:
  assumes "records puts clock g" "clock \<le> now"
  obtains g' where "UnsafeGetNewlyPopulatedKeys now recent g =
      (rev (map fst (filter (\<lambda>e. now - kNewlyPopulatedKeyHistory \<le> snd e \<and> now - recent \<le> snd e) puts)), g')"
    "records puts now g'" "bg_current_bf g' = bg_current_bf g"
proof -
  obtain c where c: "c \<le> clock - kNewlyPopulatedKeyHistory" "bg_newly_populated_keys g = filter (\<lambda>e. c \<le> snd e) puts"
    and p: "sorted (map snd puts)" "\<forall>e\<in>set puts. snd e \<le> clock" using assms(1) by (auto simp: records_def)
  let ?t = "now - kNewlyPopulatedKeyHistory"
  have t: "c \<le> ?t" using c(1) assms(2) by simp
  have "sorted (map snd (bg_newly_populated_keys g))" unfolding c(2) using p(1) by (rule sorted_filter)
  note eq = UnsafeGetNewlyPopulatedKeys_eq [OF this, of now recent]
  have f: "filter (\<lambda>e. ?t \<le> snd e \<and> P e) (bg_newly_populated_keys g) = filter (\<lambda>e. ?t \<le> snd e \<and> P e) puts" for P
    unfolding c(2) filter_filter using t by (intro filter_cong) auto
  have "records puts now (g\<lparr>bg_newly_populated_keys := filter (\<lambda>e. ?t \<le> snd e) (bg_newly_populated_keys g)\<rparr>)"
    using p assms(2) f [of "\<lambda>_. True"] unfolding records_def by (auto intro!: exI [of _ ?t])
  with eq f that show thesis by simp
qed

lemma records_Rebuild:
  assumes "records puts clock g" "clock \<le> now" "bloom_laws bo" "cpn \<le> kNewlyPopulatedKeyHistory"
  shows "records puts now (Rebuild bo now keys cpn g)"
    and "k \<in> set keys \<or> (\<exists>t \<ge> now - cpn. (k, t) \<in> set puts) \<Longrightarrow> may_contain bo (Rebuild bo now keys cpn g) k"
proof -
  obtain g' where g': "UnsafeGetNewlyPopulatedKeys now cpn g =
      (rev (map fst (filter (\<lambda>e. now - kNewlyPopulatedKeyHistory \<le> snd e \<and> now - cpn \<le> snd e) puts)), g')"
    "records puts now g'" "bg_current_bf g' = bg_current_bf g" using records_Get [OF assms(1,2)] .
  show "records puts now (Rebuild bo now keys cpn g)" using g' by (simp add: Rebuild_def records_def)
  assume k: "k \<in> set keys \<or> (\<exists>t \<ge> now - cpn. (k, t) \<in> set puts)"
  let ?cpn = "rev (map fst (filter (\<lambda>e. now - kNewlyPopulatedKeyHistory \<le> snd e \<and> now - cpn \<le> snd e) puts))"
  have "k \<in> set ?cpn \<or> k \<in> set keys" using k assms(4) by (force simp: image_iff)
  then have "bf_PossiblyContains bo (fold (\<lambda>e f. bf_Add bo f e) ?cpn
      (fold (\<lambda>e f. bf_Add bo f e) keys (bf_new bo kBloomFilterSizeInBits kHashIterationCount))) k"
    by (metis (no_types, lifting) fold_bf_Add [OF assms(3)])
  then show "may_contain bo (Rebuild bo now keys cpn g) k" using g'(1) by (simp add: Rebuild_def)
qed

lemma may_contain_Add: "bloom_laws bo \<Longrightarrow> q = k \<or> may_contain bo g q \<Longrightarrow> may_contain bo (bg_Add bo now k g) q"
  by (auto simp: bg_Add_def bloom_laws_def)

end
