(* ===== verification/Token_Verifier.thy ===== *)
theory Token_Verifier
  imports Flare_Api
begin

text \<open>
  Token verification (\<^verbatim>\<open>common/token_verifier.cc\<close>), used by the scheduler, the cache server and
  the serving daemons. The recognised tokens are a set; only membership is observed.
\<close>

section \<open>Definitions\<close>

record TokenVerifier =
  tv_recognized_tokens :: "string set"

text \<open>The default-constructed verifier allows no token.\<close>

definition TokenVerifier_default :: TokenVerifier where
  "TokenVerifier_default = \<lparr>tv_recognized_tokens = {}\<rparr>"

definition Verify :: "TokenVerifier \<Rightarrow> string \<Rightarrow> bool" where
  "Verify v token \<longleftrightarrow> token \<in> tv_recognized_tokens v"

definition MakeTokenVerifierFromFlag :: "flare \<Rightarrow> string \<Rightarrow> TokenVerifier option" where
  "MakeTokenVerifierFromFlag fl flags =
     (if flags = [] then None
      else Some \<lparr>tv_recognized_tokens = set (fl_Split fl flags CHR '','' True)\<rparr>)"

section \<open>Lemmas\<close>

lemma Verify_default [simp]: "\<not> Verify TokenVerifier_default t"
  by (simp add: Verify_def TokenVerifier_default_def)

lemma Verify_from_flag:
  assumes "flare_strings fl" "MakeTokenVerifierFromFlag fl flags = Some v"
  shows "Verify v t \<longleftrightarrow> t \<in> set (split_at_char CHR '','' flags)"
  using assms by (auto simp: MakeTokenVerifierFromFlag_def Verify_def flare_strings.Split_keep split: if_splits)

text \<open>A stray comma in the flag admits the empty token, which any client can send.\<close>

lemma Verify_empty_token:
  assumes "flare_strings fl"
  shows "\<exists>v. MakeTokenVerifierFromFlag fl (t @ '','') = Some v \<and> Verify v []"
proof -
  have "split_at_char CHR '','' (s @ '','') = split_at_char CHR '','' s @ [[]]" for s
    by (induction s) (auto split: list.splits)
  then have "[] \<in> set (split_at_char CHR '','' (s @ '',''))" for s by simp
  then show ?thesis
    by (auto simp: MakeTokenVerifierFromFlag_def Verify_def flare_strings.Split_keep [OF assms])
qed

end
