(* ===== verification/Cache_Service.thy ===== *)
theory Cache_Service
  imports Cache_Engine Bloom_Filter_Generator Token_Verifier Parse_Size
begin

text \<open>
  The cache server's RPC service (\<^verbatim>\<open>cache/cache_service_impl.cc\<close>): a two-level cache (in memory, in
  front of a cache engine) and the Bloom filter handed to the clients. A handler returns an error
  status or its response, and the new state; \<open>None\<close> is an abort. \<open>Start\<close> and the timers are
  steps of their own; the rebuilding of the filter is split where the code releases all locks,
  between collecting the keys and the rebuilding proper.
\<close>

section \<open>Definitions\<close>

datatype CacheStatus = STATUS_CACHE_NOT_FOUND | STATUS_CACHE_ACCESS_DENIED | STATUS_CACHE_INVALID_ARGUMENT

record ('s, 'f) CacheServiceImpl =
  cs_is_user_verifier :: TokenVerifier
  cs_is_servant_verifier :: TokenVerifier
  cs_cache :: 's
  cs_in_memory_cache :: InMemoryCache
  cs_cache_hits :: nat
  cs_cache_miss :: nat
  cs_bf_gen :: "'f BloomFilterGenerator"

record FetchBloomFilterRequest =
  fb_token :: string
  fb_seconds_since_last_full_fetch :: nat
  fb_seconds_since_last_fetch :: nat

datatype FetchBloomFilterResponse = IncrementalKeys "string list" | FullFilter (num_hashes: nat) (attachment: bytes)

record cache_service_flags =
  cf_max_in_memory_cache_size :: string
  cf_acceptable_user_tokens :: string
  cf_acceptable_servant_tokens :: string

definition CacheServiceImpl_ctor ::
  "flare \<Rightarrow> 'f bloom_ops \<Rightarrow> cache_service_flags \<Rightarrow> 's \<Rightarrow> ('s, 'f) CacheServiceImpl option" where
  "CacheServiceImpl_ctor fl bo flags engine =
     (case TryParseSize fl (cf_max_in_memory_cache_size flags) of
        Some (Some max_size) \<Rightarrow>
          do {
            user \<leftarrow> MakeTokenVerifierFromFlag fl (cf_acceptable_user_tokens flags);
            servant \<leftarrow> MakeTokenVerifierFromFlag fl (cf_acceptable_servant_tokens flags);
            Some \<lparr>cs_is_user_verifier = user, cs_is_servant_verifier = servant, cs_cache = engine,
                  cs_in_memory_cache = InMemoryCache_ctor max_size, cs_cache_hits = 0, cs_cache_miss = 0,
                  cs_bf_gen = BloomFilterGenerator_ctor bo\<rparr>
          }
      | _ \<Rightarrow> None)"

text \<open>In seconds; \<open>client_hash\<close> is the hash of the peer's address and \<open>random_delay\<close> the random
  number drawn, at most 120.\<close>

definition GetBloomFilterFullFetchIntervalFor :: "nat \<Rightarrow> nat \<Rightarrow> nat" where
  "GetBloomFilterFullFetchIntervalFor client_hash random_delay = 600 + client_hash mod 120 + random_delay"

definition FetchBloomFilter ::
  "'f bloom_ops \<Rightarrow> (bytes \<Rightarrow> bytes option) \<Rightarrow> time_point \<Rightarrow> nat \<Rightarrow> nat \<Rightarrow> FetchBloomFilterRequest \<Rightarrow>
   ('s, 'f) CacheServiceImpl \<Rightarrow> ((CacheStatus + FetchBloomFilterResponse) \<times> ('s, 'f) CacheServiceImpl) option" where
  "FetchBloomFilter bo compress now client_hash random_delay request s =
     (if \<not> Verify (cs_is_user_verifier s) (fb_token request) then Some (Inl STATUS_CACHE_ACCESS_DENIED, s)
      else if fb_seconds_since_last_fetch request > fb_seconds_since_last_full_fetch request
      then Some (Inl STATUS_CACHE_INVALID_ARGUMENT, s)
      else if fb_seconds_since_last_full_fetch request < GetBloomFilterFullFetchIntervalFor client_hash random_delay
      then
        (let (keys, g) = GetNewlyPopulatedKeys now (seconds (int (fb_seconds_since_last_fetch request)) + seconds 5) (cs_bf_gen s)
         in Some (Inr (IncrementalKeys keys), s\<lparr>cs_bf_gen := g\<rparr>))
      else
        (let filter = GetBloomFilter (cs_bf_gen s) in
         case compress (bf_GetBytes bo filter) of
           None \<Rightarrow> None
         | Some compressed_bytes \<Rightarrow> Some (Inr (FullFilter (bf_GetIterationCount bo filter) compressed_bytes), s)))"

definition TryGetEntry ::
  "double_ops \<Rightarrow> ('e, 's) CacheEngine \<Rightarrow> 'e \<Rightarrow> string \<Rightarrow> string \<Rightarrow> ('s, 'f) CacheServiceImpl \<Rightarrow>
   ((CacheStatus + bytes) \<times> ('s, 'f) CacheServiceImpl) option" where
  "TryGetEntry dbl eng e token key s =
     (if \<not> Verify (cs_is_user_verifier s) token then Some (Inl STATUS_CACHE_ACCESS_DENIED, s)
      else
        do {
          (bytes1, l1) \<leftarrow> imc_TryGet key (cs_in_memory_cache s);
          (bytes, l2) \<leftarrow> (case bytes1 of Some b \<Rightarrow> Some (Some b, cs_cache s) | None \<Rightarrow> ce_TryGet eng e key (cs_cache s));
          (case bytes of
             None \<Rightarrow>
               Some (Inl STATUS_CACHE_NOT_FOUND,
                     s\<lparr>cs_cache := l2, cs_in_memory_cache := l1, cs_cache_miss := cs_cache_miss s + 1\<rparr>)
           | Some b \<Rightarrow>
               do {
                 (stored, l1') \<leftarrow> imc_Put dbl key b l1;
                 Some (Inr b, s\<lparr>cs_cache := l2, cs_in_memory_cache := l1', cs_cache_hits := cs_cache_hits s + 1\<rparr>)
               })
        })"

definition PutEntry ::
  "double_ops \<Rightarrow> ('e, 's) CacheEngine \<Rightarrow> 'f bloom_ops \<Rightarrow> 'e \<Rightarrow> time_point \<Rightarrow> string \<Rightarrow> string \<Rightarrow> bytes \<Rightarrow>
   ('s, 'f) CacheServiceImpl \<Rightarrow> ((CacheStatus + unit) \<times> ('s, 'f) CacheServiceImpl) option" where
  "PutEntry dbl eng bo e now token key body s =
     (if \<not> Verify (cs_is_servant_verifier s) token then Some (Inl STATUS_CACHE_ACCESS_DENIED, s)
      else
        do {
          l2 \<leftarrow> ce_Put eng e key body (cs_cache s);
          (stored, l1) \<leftarrow> imc_Put dbl key body (cs_in_memory_cache s);
          Some (Inr (), s\<lparr>cs_cache := l2, cs_in_memory_cache := l1, cs_bf_gen := bg_Add bo now key (cs_bf_gen s)\<rparr>)
        })"

definition service_GetKeys :: "('e, 's) CacheEngine \<Rightarrow> ('s, 'f) CacheServiceImpl \<Rightarrow> string list" where
  "service_GetKeys eng s = imc_GetKeys (cs_in_memory_cache s) @ ce_GetKeys eng (cs_cache s)"

definition service_Start :: "('e, 's) CacheEngine \<Rightarrow> 'f bloom_ops \<Rightarrow> time_point \<Rightarrow> ('s, 'f) CacheServiceImpl \<Rightarrow> ('s, 'f) CacheServiceImpl" where
  "service_Start eng bo now s = s\<lparr>cs_bf_gen := Rebuild bo now (service_GetKeys eng s) 0 (cs_bf_gen s)\<rparr>"

definition OnPurgeTimer :: "('e, 's) CacheEngine \<Rightarrow> 'e \<Rightarrow> ('s, 'f) CacheServiceImpl \<Rightarrow> ('s, 'f) CacheServiceImpl option" where
  "OnPurgeTimer eng e s = map_option (\<lambda>c. s\<lparr>cs_cache := c\<rparr>) (ce_Purge eng e (cs_cache s))"

text \<open>\<open>keys\<close> are the ones \<open>GetKeys\<close> returned earlier.\<close>

definition OnRebuildTimer :: "'f bloom_ops \<Rightarrow> time_point \<Rightarrow> string list \<Rightarrow> ('s, 'f) CacheServiceImpl \<Rightarrow> ('s, 'f) CacheServiceImpl" where
  "OnRebuildTimer bo now keys s = s\<lparr>cs_bf_gen := Rebuild bo now keys (seconds 10) (cs_bf_gen s)\<rparr>"

section \<open>Runs of the service\<close>

text \<open>
  A run, as an inductive relation on the state of the service, the keys being collected for the
  filter (with the time of the collection), the clock, and ghost components: the stores accepted so
  far with their times, the value last written under each key, and whether all bodies written fit the
  in-memory cache. Requests and timers come in any order with a clock that does not go back; a
  collection is turned into a filter within 10 seconds.
\<close>

record ('s, 'f) service_run =
  sr_service :: "('s, 'f) CacheServiceImpl"
  sr_collected :: "(string list \<times> time_point) option"
  sr_clock :: time_point
  sr_puts :: "(string \<times> time_point) list"
  sr_written :: "string \<Rightarrow> bytes option"
  sr_fits :: bool

text \<open>The run begins when \<open>Start\<close> returns; \<open>m\<close> is what the engine holds from earlier.\<close>

definition service_started ::
  "('e, 's) CacheEngine \<Rightarrow> 'f bloom_ops \<Rightarrow> time_point \<Rightarrow> (string \<Rightarrow> bytes option) \<Rightarrow> ('s, 'f) CacheServiceImpl \<Rightarrow> ('s, 'f) service_run" where
  "service_started eng bo now m s =
     \<lparr>sr_service = service_Start eng bo now s, sr_collected = None, sr_clock = now, sr_puts = [], sr_written = m, sr_fits = True\<rparr>"

inductive service_reach ::
  "double_ops \<Rightarrow> ('e, 's) CacheEngine \<Rightarrow> 'f bloom_ops \<Rightarrow> (bytes \<Rightarrow> bytes option) \<Rightarrow> ('s, 'f) service_run \<Rightarrow> ('s, 'f) service_run \<Rightarrow> bool"
  for dbl eng bo compress r0 where
  sr_start: "service_reach dbl eng bo compress r0 r0"
| sr_get: "service_reach dbl eng bo compress r0 r \<Longrightarrow> TryGetEntry dbl eng e token key (sr_service r) = Some (res, s') \<Longrightarrow>
     service_reach dbl eng bo compress r0 (r\<lparr>sr_service := s'\<rparr>)"
| sr_put: "service_reach dbl eng bo compress r0 r \<Longrightarrow> sr_clock r \<le> now \<Longrightarrow>
     PutEntry dbl eng bo e now token key body (sr_service r) = Some (Inr (), s') \<Longrightarrow>
     service_reach dbl eng bo compress r0
       (r\<lparr>sr_service := s', sr_clock := now, sr_puts := sr_puts r @ [(key, now)], sr_written := (sr_written r)(key \<mapsto> body),
          sr_fits := (sr_fits r \<and> length body \<le> im_max_size_in_bytes (cs_in_memory_cache (sr_service r)))\<rparr>)"
| sr_put_denied: "service_reach dbl eng bo compress r0 r \<Longrightarrow>
     PutEntry dbl eng bo e now token key body (sr_service r) = Some (Inl st, s') \<Longrightarrow>
     service_reach dbl eng bo compress r0 (r\<lparr>sr_service := s'\<rparr>)"
| sr_fetch: "service_reach dbl eng bo compress r0 r \<Longrightarrow> sr_clock r \<le> now \<Longrightarrow>
     FetchBloomFilter bo compress now client_hash random_delay request (sr_service r) = Some (res', s') \<Longrightarrow>
     service_reach dbl eng bo compress r0 (r\<lparr>sr_service := s', sr_clock := now\<rparr>)"
| sr_purge: "service_reach dbl eng bo compress r0 r \<Longrightarrow> OnPurgeTimer eng e (sr_service r) = Some s' \<Longrightarrow>
     service_reach dbl eng bo compress r0 (r\<lparr>sr_service := s'\<rparr>)"
| sr_collect: "service_reach dbl eng bo compress r0 r \<Longrightarrow> sr_clock r \<le> now \<Longrightarrow>
     service_reach dbl eng bo compress r0
       (r\<lparr>sr_collected := Some (service_GetKeys eng (sr_service r), now), sr_clock := now\<rparr>)"
| sr_rebuild: "service_reach dbl eng bo compress r0 r \<Longrightarrow> sr_clock r \<le> now \<Longrightarrow> sr_collected r = Some (keys, t) \<Longrightarrow>
     now - t \<le> seconds 10 \<Longrightarrow>
     service_reach dbl eng bo compress r0
       (r\<lparr>sr_service := OnRebuildTimer bo now keys (sr_service r), sr_collected := None, sr_clock := now\<rparr>)"

section \<open>What each operation does to the two levels\<close>

lemma imc_Put_holds:
  assumes "imc_inv s"
  obtains s' where "imc_Put dbl k b s = Some (length b \<le> im_max_size_in_bytes s, s')" "imc_inv s'"
    "\<And>q x. contents s' q = Some x \<Longrightarrow>
       (q = k \<and> x = b) \<or> (contents s q = Some x \<and> (q = k \<longrightarrow> length b > im_max_size_in_bytes s))"
proof -
  from imc_Put_ok [OF assms, of dbl k b] obtain s' where
    s': "imc_Put dbl k b s = Some (length b \<le> im_max_size_in_bytes s, s')" "imc_inv s'"
      "if length b \<le> im_max_size_in_bytes s then stores k b s s' else s' = s" by blast
  have "(q = k \<and> x = b) \<or> (contents s q = Some x \<and> (q = k \<longrightarrow> length b > im_max_size_in_bytes s))"
    if c: "contents s' q = Some x" for q x
  proof (cases "length b \<le> im_max_size_in_bytes s")
    case True
    with s'(3) have st: "stores k b s s'" by simp
    from c obtain e where "map_of (im_memory_buffer_mapper s') q = Some e" "x = ce_buffer e" by (auto simp: contents_def)
    with st show ?thesis by (cases "q = k") (auto simp: stores_def contents_def)
  qed (use s'(3) c in auto)
  with s' that show thesis by blast
qed

lemma imc_TryGet_holds:
  assumes "imc_inv s"
  obtains s' where "imc_TryGet k s = Some (contents s k, s')" "imc_inv s'" "contents s' = contents s"
proof -
  from imc_TryGet_ok [OF assms, of k] obtain s' where
    "imc_TryGet k s = Some (contents s k, s')" "imc_inv s'" "\<forall>q. contents s' q = contents s q"
    by (auto simp: contents_def)
  with that show thesis by (simp add: fun_eq_iff)
qed

lemma contents_GetKeys: "contents s k = Some b \<Longrightarrow> k \<in> set (imc_GetKeys s)"
  by (auto simp: contents_def imc_GetKeys_def dest!: map_of_SomeD intro: rev_image_eqI)

end
