(* ===== verification/Cache_Service_Properties.thy ===== *)
theory Cache_Service_Properties
  imports Cache_Service
begin

text \<open>
  The properties of the cache service. The lemmas on its handlers, and the invariant of its runs, are
  proved once for any cache engine that meets the contract of \<open>cache_engine\<close>; the properties are
  stated for the disk engine.
\<close>

section \<open>The handlers over any engine\<close>

context cache_engine
begin

definition holds :: "('s, 'f) CacheServiceImpl \<Rightarrow> string \<Rightarrow> bytes \<Rightarrow> bool" where
  "holds s k b \<longleftrightarrow> contents (cs_in_memory_cache s) k = Some b \<or> cont (cs_cache s) k = Some b"

definition levels_ok :: "('s, 'f) CacheServiceImpl \<Rightarrow> bool" where
  "levels_ok s \<longleftrightarrow> imc_inv (cs_in_memory_cache s) \<and> inv (cs_cache s)"

lemma TryGetEntry_ok:
  assumes "levels_ok s"
  obtains res s' where "TryGetEntry dbl eng e token k s = Some (res, s')" "levels_ok s'" "cs_bf_gen s' = cs_bf_gen s"
    "\<And>q x. holds s' q x \<Longrightarrow> holds s q x" "\<And>b. res = Inr b \<Longrightarrow> holds s k b"
proof (cases "Verify (cs_is_user_verifier s) token")
  case True
  have inv: "imc_inv (cs_in_memory_cache s)" "inv (cs_cache s)" using assms by (auto simp: levels_ok_def)
  obtain l1 where l1: "imc_TryGet k (cs_in_memory_cache s) = Some (contents (cs_in_memory_cache s) k, l1)" "imc_inv l1"
    "contents l1 = contents (cs_in_memory_cache s)" using imc_TryGet_holds [OF inv(1)] .
  obtain r l2 where l2: "ce_TryGet eng e k (cs_cache s) = Some (r, l2)" "inv l2" "cont l2 = cont (cs_cache s)"
    "r = None \<or> r = cont (cs_cache s) k" using TryGet [OF inv(2)] by blast
  let ?c1 = "contents (cs_in_memory_cache s) k"
  let ?bytes = "if ?c1 = None then r else ?c1" and ?l2 = "if ?c1 = None then l2 else cs_cache s"
  have run: "(case ?c1 of Some b \<Rightarrow> Some (Some b, cs_cache s) | None \<Rightarrow> ce_TryGet eng e k (cs_cache s)) = Some (?bytes, ?l2)"
    using l2(1) by (cases ?c1) simp_all
  have q2: "inv ?l2" "cont ?l2 = cont (cs_cache s)" using inv l2 by auto
  show thesis
  proof (cases ?bytes)
    case None
    let ?s' = "s\<lparr>cs_cache := ?l2, cs_in_memory_cache := l1, cs_cache_miss := cs_cache_miss s + 1\<rparr>"
    have "TryGetEntry dbl eng e token k s = Some (Inl STATUS_CACHE_NOT_FOUND, ?s')"
      using True l1(1) run None by (simp add: TryGetEntry_def)
    then show thesis by (rule that) (use l1(2,3) q2 in \<open>auto simp: levels_ok_def holds_def\<close>)
  next
    case (Some b)
    obtain l1' where l1': "imc_Put dbl k b l1 = Some (length b \<le> im_max_size_in_bytes l1, l1')" "imc_inv l1'"
      "\<And>q x. contents l1' q = Some x \<Longrightarrow>
         (q = k \<and> x = b) \<or> (contents l1 q = Some x \<and> (q = k \<longrightarrow> length b > im_max_size_in_bytes l1))"
      using imc_Put_holds [OF l1(2)] by blast
    have hb: "holds s k b" using Some l2(4) by (auto simp: holds_def split: if_splits)
    let ?s' = "s\<lparr>cs_cache := ?l2, cs_in_memory_cache := l1', cs_cache_hits := cs_cache_hits s + 1\<rparr>"
    have eq: "TryGetEntry dbl eng e token k s = Some (Inr b, ?s')"
      using True l1(1) run Some l1'(1) by (simp add: TryGetEntry_def)
    have sub: "holds s q x" if "holds ?s' q x" for q x
      using that hb l1'(3) [of q x] l1(3) q2(2) by (auto simp: holds_def)
    show thesis
      by (rule that [OF eq]) (use l1'(2) q2(1) hb sub in \<open>auto simp: levels_ok_def\<close>)
  qed
qed (use assms that in \<open>auto simp: TryGetEntry_def\<close>)

lemma PutEntry_ok:
  assumes "levels_ok s" "Verify (cs_is_servant_verifier s) token"
  obtains s' where "PutEntry dbl eng bo e now token k b s = Some (Inr (), s')" "levels_ok s'"
    "cs_bf_gen s' = bg_Add bo now k (cs_bf_gen s)"
    "\<And>q x. holds s' q x \<Longrightarrow>
       (q = k \<and> x = b) \<or> (holds s q x \<and> (q = k \<longrightarrow> length b > im_max_size_in_bytes (cs_in_memory_cache s)))"
proof -
  have inv: "imc_inv (cs_in_memory_cache s)" "inv (cs_cache s)" using assms by (auto simp: levels_ok_def)
  obtain l2 where l2: "ce_Put eng e k b (cs_cache s) = Some l2" "inv l2" "cont l2 k = None \<or> cont l2 k = Some b"
    "\<forall>q. q \<noteq> k \<longrightarrow> cont l2 q = cont (cs_cache s) q" using Put [OF inv(2)] by blast
  obtain l1 where l1: "imc_Put dbl k b (cs_in_memory_cache s) = Some (length b \<le> im_max_size_in_bytes (cs_in_memory_cache s), l1)"
    "imc_inv l1" "\<And>q x. contents l1 q = Some x \<Longrightarrow>
       (q = k \<and> x = b) \<or> (contents (cs_in_memory_cache s) q = Some x \<and> (q = k \<longrightarrow> length b > im_max_size_in_bytes (cs_in_memory_cache s)))"
    using imc_Put_holds [OF inv(1)] by blast
  let ?s' = "s\<lparr>cs_cache := l2, cs_in_memory_cache := l1, cs_bf_gen := bg_Add bo now k (cs_bf_gen s)\<rparr>"
  have eq: "PutEntry dbl eng bo e now token k b s = Some (Inr (), ?s')"
    using assms(2) l1(1) l2(1) by (simp add: PutEntry_def)
  have "(q = k \<and> x = b) \<or> (holds s q x \<and> (q = k \<longrightarrow> length b > im_max_size_in_bytes (cs_in_memory_cache s)))"
    if "holds ?s' q x" for q x
    using that l1(3) [of q x] l2(3,4) by (cases "q = k") (auto simp: holds_def)
  then show thesis using eq l1(2) l2(2) by (intro that [OF eq]) (auto simp: levels_ok_def)
qed

lemma OnPurgeTimer_ok:
  assumes "levels_ok s"
  obtains s' where "OnPurgeTimer eng e s = Some s'" "levels_ok s'" "cs_bf_gen s' = cs_bf_gen s"
    "\<And>q x. holds s' q x \<Longrightarrow> holds s q x"
proof -
  obtain c where c: "ce_Purge eng e (cs_cache s) = Some c" "inv c" "cont c \<subseteq>\<^sub>m cont (cs_cache s)"
    using Purge assms by (auto simp: levels_ok_def)
  then show thesis using assms
    by (intro that [of "s\<lparr>cs_cache := c\<rparr>"]) (auto simp: OnPurgeTimer_def levels_ok_def holds_def dest: map_leD)
qed

lemma service_GetKeys_holds: "levels_ok s \<Longrightarrow> holds s k b \<Longrightarrow> k \<in> set (service_GetKeys eng s)"
  using GetKeys [of "cs_cache s" k] by (auto simp: levels_ok_def holds_def service_GetKeys_def dest: contents_GetKeys)

end

section \<open>The invariant of a run\<close>

context cache_engine
begin

definition run_inv :: "'f bloom_ops \<Rightarrow> ('s, 'f) service_run \<Rightarrow> bool" where
  "run_inv bo r \<longleftrightarrow> levels_ok (sr_service r) \<and> records (sr_puts r) (sr_clock r) (cs_bf_gen (sr_service r))
     \<and> (\<forall>keys t. sr_collected r = Some (keys, t) \<longrightarrow> t \<le> sr_clock r)
     \<and> (\<forall>k b. holds (sr_service r) k b \<longrightarrow>
          may_contain bo (cs_bf_gen (sr_service r)) k
          \<and> (\<forall>keys t. sr_collected r = Some (keys, t) \<longrightarrow> k \<in> set keys \<or> (\<exists>t' \<ge> t. (k, t') \<in> set (sr_puts r)))
          \<and> (sr_fits r \<longrightarrow> sr_written r k = Some b))"

lemma run_invD:
  assumes "run_inv bo r"
  shows "levels_ok (sr_service r)" "records (sr_puts r) (sr_clock r) (cs_bf_gen (sr_service r))"
    "sr_collected r = Some (keys, t) \<Longrightarrow> t \<le> sr_clock r"
    "holds (sr_service r) k b \<Longrightarrow> may_contain bo (cs_bf_gen (sr_service r)) k"
    "holds (sr_service r) k b \<Longrightarrow> sr_collected r = Some (keys, t) \<Longrightarrow> k \<in> set keys \<or> (\<exists>t' \<ge> t. (k, t') \<in> set (sr_puts r))"
    "holds (sr_service r) k b \<Longrightarrow> sr_fits r \<Longrightarrow> sr_written r k = Some b"
  using assms unfolding run_inv_def by blast+

lemma run_invI:
  assumes "levels_ok (sr_service r)" "records (sr_puts r) (sr_clock r) (cs_bf_gen (sr_service r))"
    "\<And>keys t. sr_collected r = Some (keys, t) \<Longrightarrow> t \<le> sr_clock r"
    "\<And>k b. holds (sr_service r) k b \<Longrightarrow> may_contain bo (cs_bf_gen (sr_service r)) k"
    "\<And>k b keys t. holds (sr_service r) k b \<Longrightarrow> sr_collected r = Some (keys, t) \<Longrightarrow> k \<in> set keys \<or> (\<exists>t' \<ge> t. (k, t') \<in> set (sr_puts r))"
    "\<And>k b. holds (sr_service r) k b \<Longrightarrow> sr_fits r \<Longrightarrow> sr_written r k = Some b"
  shows "run_inv bo r"
  using assms unfolding run_inv_def by blast

lemma run_inv_shrink:
  assumes "run_inv bo r" "levels_ok s'" "cs_bf_gen s' = cs_bf_gen (sr_service r)"
    "\<And>q x. holds s' q x \<Longrightarrow> holds (sr_service r) q x"
  shows "run_inv bo (r\<lparr>sr_service := s'\<rparr>)"
  using assms(2-4) run_invD [OF assms(1)] by (intro run_invI) (simp_all, blast+)

lemma run_inv_put:
  assumes inv: "run_inv bo r" and bo: "bloom_laws bo" and now: "sr_clock r \<le> now"
    and run: "PutEntry dbl eng bo e now token key body (sr_service r) = Some (Inr (), s')"
  shows "run_inv bo (r\<lparr>sr_service := s', sr_clock := now, sr_puts := sr_puts r @ [(key, now)], sr_written := (sr_written r)(key \<mapsto> body),
          sr_fits := (sr_fits r \<and> length body \<le> im_max_size_in_bytes (cs_in_memory_cache (sr_service r)))\<rparr>)" (is "run_inv bo ?r")
proof -
  have "Verify (cs_is_servant_verifier (sr_service r)) token" using run by (auto simp: PutEntry_def split: if_splits)
  from PutEntry_ok [OF run_invD(1) [OF inv] this, of dbl bo e now key body] run have
    s': "levels_ok s'" "cs_bf_gen s' = bg_Add bo now key (cs_bf_gen (sr_service r))"
      "\<And>q x. holds s' q x \<Longrightarrow> (q = key \<and> x = body) \<or>
         (holds (sr_service r) q x \<and> (q = key \<longrightarrow> length body > im_max_size_in_bytes (cs_in_memory_cache (sr_service r))))"
    by (metis (lifting) option.inject prod.inject)+
  show ?thesis
  proof (rule run_invI)
    show "levels_ok (sr_service ?r)" "records (sr_puts ?r) (sr_clock ?r) (cs_bf_gen (sr_service ?r))"
      using s'(1,2) records_Add [OF run_invD(2) [OF inv] now] by simp_all
    show "t \<le> sr_clock ?r" if "sr_collected ?r = Some (keys, t)" for keys t
      using run_invD(3) [OF inv] that now by fastforce
    show "may_contain bo (cs_bf_gen (sr_service ?r)) k" if "holds (sr_service ?r) k b" for k b
    proof -
      have "k = key \<or> may_contain bo (cs_bf_gen (sr_service r)) k"
        using s'(3) [of k b] that run_invD(4) [OF inv, of k b] by auto
      then show ?thesis using s'(2) may_contain_Add [OF bo] by simp
    qed
    show "k \<in> set keys \<or> (\<exists>t' \<ge> t. (k, t') \<in> set (sr_puts ?r))"
      if "holds (sr_service ?r) k b" "sr_collected ?r = Some (keys, t)" for k b keys t
    proof (cases "k = key")
      case True
      have "t \<le> now" using run_invD(3) [OF inv, of keys t] that(2) now by simp
      with True show ?thesis by auto
    next
      case False
      then have "holds (sr_service r) k b" using s'(3) [of k b] that(1) by simp
      from run_invD(5) [OF inv this, of keys t] that(2) show ?thesis by auto
    qed
    show "sr_written ?r k = Some b" if "holds (sr_service ?r) k b" "sr_fits ?r" for k b
      using s'(3) [of k b] that run_invD(6) [OF inv] by auto
  qed
qed

lemma run_inv_filter:
  assumes inv: "run_inv bo r" and now: "sr_clock r \<le> now" and c: "c = sr_collected r \<or> c = None"
    and s': "cs_cache s' = cs_cache (sr_service r)" "cs_in_memory_cache s' = cs_in_memory_cache (sr_service r)"
    and bf: "records (sr_puts r) now (cs_bf_gen s')"
      "\<And>k b. holds (sr_service r) k b \<Longrightarrow> may_contain bo (cs_bf_gen s') k"
  shows "run_inv bo (r\<lparr>sr_service := s', sr_collected := c, sr_clock := now\<rparr>)" (is "run_inv bo ?r")
proof (rule run_invI)
  have h: "holds s' = holds (sr_service r)" using s' by (simp add: holds_def fun_eq_iff)
  show "levels_ok (sr_service ?r)" "records (sr_puts ?r) (sr_clock ?r) (cs_bf_gen (sr_service ?r))"
    using run_invD(1) [OF inv] s' bf by (simp_all add: levels_ok_def)
  show "t \<le> sr_clock ?r" if "sr_collected ?r = Some (keys, t)" for keys t
    using run_invD(3) [OF inv] that c now by fastforce
  show "may_contain bo (cs_bf_gen (sr_service ?r)) k" if "holds (sr_service ?r) k b" for k b
    using bf(2) [of k b] h that by simp
  show "k \<in> set keys \<or> (\<exists>t' \<ge> t. (k, t') \<in> set (sr_puts ?r))"
    if "holds (sr_service ?r) k b" "sr_collected ?r = Some (keys, t)" for k b keys t
    using run_invD(5) [OF inv, of k b keys t] h that c by auto
  show "sr_written ?r k = Some b" if "holds (sr_service ?r) k b" "sr_fits ?r" for k b
    using run_invD(6) [OF inv, of k b] h that by simp
qed

lemma run_inv_fetch:
  assumes inv: "run_inv bo r" and now: "sr_clock r \<le> now"
    and run: "FetchBloomFilter bo compress now client_hash random_delay request (sr_service r) = Some (res, s')"
  shows "run_inv bo (r\<lparr>sr_service := s', sr_clock := now\<rparr>)"
proof -
  let ?s = "sr_service r" and ?recent = "seconds (int (fb_seconds_since_last_fetch request)) + seconds 5"
  obtain g' where g': "UnsafeGetNewlyPopulatedKeys now ?recent (cs_bf_gen ?s) =
      (rev (map fst (filter (\<lambda>e. now - kNewlyPopulatedKeyHistory \<le> snd e \<and> now - ?recent \<le> snd e) (sr_puts r))), g')"
    "records (sr_puts r) now g'" "bg_current_bf g' = bg_current_bf (cs_bf_gen ?s)"
    using records_Get [OF run_invD(2) [OF inv] now] .
  have "s' = ?s \<or> s' = ?s\<lparr>cs_bf_gen := g'\<rparr>"
    using run g'(1) by (auto simp: FetchBloomFilter_def GetNewlyPopulatedKeys_def Let_def split: if_splits option.splits)
  then have "run_inv bo (r\<lparr>sr_service := s', sr_collected := sr_collected r, sr_clock := now\<rparr>)"
    using records_later [OF run_invD(2) [OF inv] now] g'(2,3) run_invD(4) [OF inv]
    by (elim disjE) (rule run_inv_filter [OF inv now]; auto)+
  then show ?thesis by simp
qed

lemma run_inv_rebuild:
  assumes inv: "run_inv bo r" and bo: "bloom_laws bo" and now: "sr_clock r \<le> now"
    and c: "sr_collected r = Some (keys, t)" "now - t \<le> seconds 10"
  shows "run_inv bo (r\<lparr>sr_service := OnRebuildTimer bo now keys (sr_service r), sr_collected := None, sr_clock := now\<rparr>)"
proof (rule run_inv_filter [OF inv now])
  have s: "seconds 10 \<le> kNewlyPopulatedKeyHistory" by simp
  note rb = records_Rebuild [OF run_invD(2) [OF inv] now bo s, where keys = keys]
  show "records (sr_puts r) now (cs_bf_gen (OnRebuildTimer bo now keys (sr_service r)))"
    using rb(1) by (simp add: OnRebuildTimer_def)
  fix k b assume "holds (sr_service r) k b"
  from run_invD(5) [OF inv this c(1)] have "k \<in> set keys \<or> (\<exists>t' \<ge> now - seconds 10. (k, t') \<in> set (sr_puts r))"
    using c(2) by force
  from rb(2) [OF this] show "may_contain bo (cs_bf_gen (OnRebuildTimer bo now keys (sr_service r))) k"
    by (simp add: OnRebuildTimer_def)
qed (simp_all add: OnRebuildTimer_def)

lemma run_inv_collect:
  assumes inv: "run_inv bo r" and now: "sr_clock r \<le> now"
  shows "run_inv bo (r\<lparr>sr_collected := Some (service_GetKeys eng (sr_service r), now), sr_clock := now\<rparr>)"
  using run_invD(1,4,6) [OF inv] records_later [OF run_invD(2) [OF inv] now] service_GetKeys_holds [OF run_invD(1) [OF inv]]
  by (intro run_invI) auto

lemma service_reach_inv:
  assumes "service_reach dbl eng bo compress r0 r" "run_inv bo r0" "bloom_laws bo"
  shows "run_inv bo r"
  using assms(1)
proof induction
  case (sr_get r e token key res s')
  from TryGetEntry_ok [OF run_invD(1) [OF sr_get.IH], of dbl e token key] sr_get.hyps(2)
  show ?case by (metis (no_types, lifting) option.inject prod.inject run_inv_shrink [OF sr_get.IH])
next
  case (sr_put_denied r e now token key body st s')
  then have "s' = sr_service r" by (auto simp: PutEntry_def split: if_splits bind_splits)
  with sr_put_denied.IH show ?case by simp
next
  case (sr_purge r e s')
  from OnPurgeTimer_ok [OF run_invD(1) [OF sr_purge.IH], of e] sr_purge.hyps(2)
  show ?case by (metis (no_types, lifting) option.inject run_inv_shrink [OF sr_purge.IH])
next
  case (sr_put r now e token key body s')
  from run_inv_put [OF sr_put.IH assms(3) sr_put.hyps(2,3)] show ?case .
next
  case (sr_fetch r now client_hash random_delay request res' s')
  from run_inv_fetch [OF sr_fetch.IH sr_fetch.hyps(2,3)] show ?case .
next
  case (sr_collect r now)
  from run_inv_collect [OF sr_collect.IH sr_collect.hyps(2)] show ?case .
next
  case (sr_rebuild r now keys t)
  from run_inv_rebuild [OF sr_rebuild.IH assms(3) sr_rebuild.hyps(2-4)] show ?case .
qed (rule assms(2))

lemma service_started_inv:
  assumes "bloom_laws bo" "inv (cs_cache s)" "cont (cs_cache s) = m" "cs_in_memory_cache s = InMemoryCache_ctor n"
    "bg_newly_populated_keys (cs_bf_gen s) = []"
  shows "run_inv bo (service_started eng bo now m s)"
proof -
  have c: "contents (cs_in_memory_cache s) k = None" for k using assms(4) by (simp add: contents_def InMemoryCache_ctor_def)
  have l: "levels_ok s" using assms imc_inv_ctor by (simp add: levels_ok_def)
  have s: "0 \<le> kNewlyPopulatedKeyHistory" by simp
  note rb = records_Rebuild [OF records_empty [OF assms(5)] order_refl assms(1) s, where keys = "service_GetKeys eng s"]
  have h: "holds (service_Start eng bo now s) k b \<longleftrightarrow> cont (cs_cache s) k = Some b" for k b
    using c by (simp add: holds_def service_Start_def)
  have "k \<in> set (service_GetKeys eng s)" if "cont (cs_cache s) k = Some b" for k b
    using service_GetKeys_holds [OF l, of k b] that by (simp add: holds_def)
  then show ?thesis
    by (intro run_invI) (use l rb assms(3) in \<open>auto simp: service_started_def h\<close>, auto simp: levels_ok_def service_Start_def)
qed

end

section \<open>The server with a disk engine\<close>

definition cache_server_start ::
  "flare \<Rightarrow> double_ops \<Rightarrow> 'f bloom_ops \<Rightarrow> cache_service_flags \<Rightarrow> DiskCacheOptions \<Rightarrow> filesystem \<Rightarrow> time_point \<Rightarrow>
   (DiskCache, 'f) service_run option" where
  "cache_server_start fl dbl bo flags options fs now =
     do {
       d \<leftarrow> DiskCache_ctor fl options fs;
       s \<leftarrow> CacheServiceImpl_ctor fl bo flags d;
       Some (service_started (DiskCacheEngine fl dbl) bo now (dc_contents fl d) s)
     }"

lemma cache_server_start_inv:
  assumes "flare_strings fl" "options_ok options" "workspace_ok fl options fs" "bloom_laws bo"
    "cache_server_start fl dbl bo flags options fs now = Some r0"
  shows "disk_engine.run_inv fl bo r0"
proof -
  obtain d s where d: "DiskCache_ctor fl options fs = Some d" "CacheServiceImpl_ctor fl bo flags d = Some s"
    "r0 = service_started (DiskCacheEngine fl dbl) bo now (dc_contents fl d) s"
    using assms(5) by (auto simp: cache_server_start_def bind_eq_Some_conv)
  have "dc_inv fl d" using DiskCache_ctor_loading [OF assms(1-3) d(1)] by (simp add: loading_def)
  moreover obtain n where "cs_cache s = d" "cs_in_memory_cache s = InMemoryCache_ctor n"
    "bg_newly_populated_keys (cs_bf_gen s) = []"
    using d(2) by (auto simp: CacheServiceImpl_ctor_def BloomFilterGenerator_ctor_def bind_eq_Some_conv split: option.splits)
  ultimately show ?thesis unfolding d(3) using assms(1,4) by (intro disk_engine.service_started_inv) auto
qed

lemmas server_run_inv = disk_engine.service_reach_inv [OF _ cache_server_start_inv]

definition list_bloom :: "string list bloom_ops" where
  "list_bloom = \<lparr>bf_new = (\<lambda>_ _. []), bf_Add = (\<lambda>f k. k # f), bf_PossiblyContains = (\<lambda>f k. k \<in> set f),
                 bf_GetBytes = concat, bf_GetIterationCount = (\<lambda>_. 10)\<rparr>"

lemma bloom_laws_list: "bloom_laws list_bloom"
  by (simp add: bloom_laws_def list_bloom_def)

definition demo_server_flags :: cache_service_flags where
  "demo_server_flags = \<lparr>cf_max_in_memory_cache_size = ''8'', cf_acceptable_user_tokens = ''user'', cf_acceptable_servant_tokens = ''servant''\<rparr>"

abbreviation demo_engine :: "(disk_env, DiskCache) CacheEngine" where
  "demo_engine \<equiv> DiskCacheEngine demo_flare exact_double"

abbreviation demo_server :: "(DiskCache, string list) service_run option" where
  "demo_server \<equiv> cache_server_start demo_flare exact_double list_bloom demo_server_flags demo_disk_options demo_disk_fs (seconds 100)"

abbreviation demo_env :: disk_env where
  "demo_env \<equiv> \<lparr>ev_now = seconds 200, ev_open_ok = True, ev_read_ok = True, ev_padding = []\<rparr>"

abbreviation demo_put :: "bytes \<Rightarrow> (DiskCache, string list) CacheServiceImpl \<Rightarrow> ((CacheStatus + unit) \<times> (DiskCache, string list) CacheServiceImpl) option" where
  "demo_put \<equiv> PutEntry exact_double demo_engine list_bloom demo_env (seconds 200) ''servant'' ''k''"

abbreviation demo_get :: "string \<Rightarrow> (DiskCache, string list) CacheServiceImpl \<Rightarrow> ((CacheStatus + bytes) \<times> (DiskCache, string list) CacheServiceImpl) option" where
  "demo_get \<equiv> TryGetEntry exact_double demo_engine demo_env ''user''"

abbreviation demo_fetch :: "(DiskCache, string list) CacheServiceImpl \<Rightarrow> ((CacheStatus + FetchBloomFilterResponse) \<times> (DiskCache, string list) CacheServiceImpl) option" where
  "demo_fetch \<equiv> FetchBloomFilter list_bloom Some (seconds 210) 7 60
     \<lparr>fb_token = ''user'', fb_seconds_since_last_full_fetch = 300, fb_seconds_since_last_fetch = 20\<rparr>"

lemma demo_server_run:
  obtains r0 s1 s2 s3 where "demo_server = Some r0" "demo_put ''v1'' (sr_service r0) = Some (Inr (), s1)"
    "demo_get ''k'' s1 = Some (Inr ''v1'', s2)" "sr_clock r0 = seconds 100" "im_max_size_in_bytes (cs_in_memory_cache (sr_service r0)) = 8"
    "sr_puts r0 = []" "sr_fits r0" "im_max_size_in_bytes (cs_in_memory_cache s1) = 8"
    "contents (cs_in_memory_cache s1) ''k'' = Some ''v1''" "demo_fetch s1 = Some (Inr (IncrementalKeys [''k'']), s3)"
proof -
  have "do { r0 \<leftarrow> demo_server; (x, s1) \<leftarrow> demo_put ''v1'' (sr_service r0); (y, s2) \<leftarrow> demo_get ''k'' s1; (z, s3) \<leftarrow> demo_fetch s1;
             Some (x, y, z, sr_clock r0, im_max_size_in_bytes (cs_in_memory_cache (sr_service r0)), sr_puts r0, sr_fits r0, im_max_size_in_bytes (cs_in_memory_cache s1),
                   contents (cs_in_memory_cache s1) ''k'') }
      = Some (Inr (), Inr ''v1'', Inr (IncrementalKeys [''k'']), seconds 100, 8, [], True, 8, Some ''v1'')" by code_simp
  then show thesis by (auto simp: bind_eq_Some_conv intro: that)
qed

lemma demo_server_reach:
  obtains r0 r where "demo_server = Some r0" "service_reach exact_double demo_engine list_bloom Some r0 r"
    "sr_fits r" "sr_clock r = seconds 200" "\<exists>s. demo_get ''k'' (sr_service r) = Some (Inr ''v1'', s)"
    "\<exists>s. demo_fetch (sr_service r) = Some (Inr (IncrementalKeys [''k'']), s)"
proof -
  obtain r0 s1 s2 s3 where r: "demo_server = Some r0" "demo_put ''v1'' (sr_service r0) = Some (Inr (), s1)"
    "demo_get ''k'' s1 = Some (Inr ''v1'', s2)" "sr_clock r0 = seconds 100" "im_max_size_in_bytes (cs_in_memory_cache (sr_service r0)) = 8"
    "sr_fits r0" "demo_fetch s1 = Some (Inr (IncrementalKeys [''k'']), s3)" by (rule demo_server_run)
  have now: "sr_clock r0 \<le> seconds 200" using r(4) by simp
  show thesis by (rule that [OF r(1) sr_put [OF sr_start now r(2)]]) (use r(3-7) in simp_all)
qed

section \<open>Properties\<close>





text \<open>An incremental fetch of the filter loses nothing: it returns exactly the keys stored since
  five seconds before the client's last fetch. The hour of history the server keeps is always
  enough, since a client that has not fetched the whole filter for 14 minutes is sent all of it.\<close>

theorem incremental_fetch_complete:
  assumes "flare_strings fl" "options_ok options" "workspace_ok fl options fs" "bloom_laws bo"
    and "cache_server_start fl dbl bo flags options fs start = Some r0"
    and "service_reach dbl (DiskCacheEngine fl dbl) bo compress r0 r" "sr_clock r \<le> now" "random_delay \<le> 120"
    and "FetchBloomFilter bo compress now client_hash random_delay request (sr_service r) = Some (Inr (IncrementalKeys ks), s')"
  shows "set ks = {k. \<exists>t \<ge> now - (seconds (int (fb_seconds_since_last_fetch request)) + seconds 5). (k, t) \<in> set (sr_puts r)}"
proof -
  have inv: "disk_engine.run_inv fl bo r" using server_run_inv [OF assms(6,1-5)] assms(4) .
  let ?recent = "seconds (int (fb_seconds_since_last_fetch request)) + seconds 5"
  obtain g' where g': "UnsafeGetNewlyPopulatedKeys now ?recent (cs_bf_gen (sr_service r)) =
      (rev (map fst (filter (\<lambda>e. now - kNewlyPopulatedKeyHistory \<le> snd e \<and> now - ?recent \<le> snd e) (sr_puts r))), g')"
    "records (sr_puts r) now g'" "bg_current_bf g' = bg_current_bf (cs_bf_gen (sr_service r))"
    using records_Get [OF disk_engine.run_invD(2) [OF inv] assms(7)] .
  have "client_hash mod 120 < 120" by simp
  then have "fb_seconds_since_last_fetch request \<le> 840"
    and ks: "ks = rev (map fst (filter (\<lambda>e. now - kNewlyPopulatedKeyHistory \<le> snd e \<and> now - ?recent \<le> snd e) (sr_puts r)))"
    using assms(8,9) g'(1)
    by (auto simp: FetchBloomFilter_def GetNewlyPopulatedKeys_def GetBloomFilterFullFetchIntervalFor_def Let_def split: if_splits option.splits)
  then have "?recent \<le> kNewlyPopulatedKeyHistory" by simp
  then have eq: "filter (\<lambda>e. now - kNewlyPopulatedKeyHistory \<le> snd e \<and> now - ?recent \<le> snd e) (sr_puts r) =
      filter (\<lambda>e. now - ?recent \<le> snd e) (sr_puts r)" by (intro filter_cong) auto
  show ?thesis unfolding ks eq by (force simp: image_iff)
qed

theorem incremental_fetch_complete_witness:
  "\<exists>r0 r s'. demo_server = Some r0 \<and> service_reach exact_double demo_engine list_bloom Some r0 r
     \<and> demo_fetch (sr_service r) = Some (Inr (IncrementalKeys [''k'']), s')
     \<and> {k. \<exists>t \<ge> seconds 185. (k, t) \<in> set (sr_puts r)} = {''k''}"
proof -
  obtain r0 r where r: "demo_server = Some r0" "service_reach exact_double demo_engine list_bloom Some r0 r"
    "sr_clock r = seconds 200" "\<exists>s. demo_fetch (sr_service r) = Some (Inr (IncrementalKeys [''k'']), s)" by (rule demo_server_reach)
  then obtain s where s: "demo_fetch (sr_service r) = Some (Inr (IncrementalKeys [''k'']), s)" by blast
  have t: "sr_clock r \<le> seconds 210" "(60::nat) \<le> 120" using r(3) by simp_all
  have "{k. \<exists>t \<ge> seconds 185. (k, t) \<in> set (sr_puts r)} = {''k''}"
    using incremental_fetch_complete [OF flare_strings_demo demo_ok bloom_laws_list r(1,2) t s] by simp
  with r(1,2) s show ?thesis by (intro exI conjI)
qed

text \<open>A store whose body exceeds the in-memory cache succeeds but leaves an older body of the
  same key in memory, and the following lookups return that older body, not the one just stored.\<close>

theorem oversized_store_serves_stale_body:
  assumes "flare_strings fl" "imc_inv (cs_in_memory_cache s)" "dc_inv fl (cs_cache s)"
    and "contents (cs_in_memory_cache s) key = Some old" "length body > im_max_size_in_bytes (cs_in_memory_cache s)"
    and "Verify (cs_is_servant_verifier s) servant" "Verify (cs_is_user_verifier s) user"
  shows "\<exists>s' s''. PutEntry dbl (DiskCacheEngine fl dbl) bo e now servant key body s = Some (Inr (), s')
     \<and> TryGetEntry dbl (DiskCacheEngine fl dbl) e' user key s' = Some (Inr old, s'')"
proof -
  obtain l2 where l2: "ce_Put (DiskCacheEngine fl dbl) e key body (cs_cache s) = Some l2"
    using disk_engine.Put [of fl "cs_cache s" dbl e key body] assms(1,3) by blast
  let ?s' = "s\<lparr>cs_cache := l2, cs_bf_gen := bg_Add bo now key (cs_bf_gen s)\<rparr>"
  have put: "PutEntry dbl (DiskCacheEngine fl dbl) bo e now servant key body s = Some (Inr (), ?s')"
    using l2 assms(5,6) by (simp add: PutEntry_def imc_Put_def)
  obtain l1 where l1: "imc_TryGet key (cs_in_memory_cache s) = Some (Some old, l1)" "imc_inv l1"
    using imc_TryGet_holds [OF assms(2), of key] assms(4) by metis
  obtain l1' where "imc_Put dbl key old l1 = Some (length old \<le> im_max_size_in_bytes l1, l1')"
    using imc_Put_holds [OF l1(2)] by blast
  with put l1(1) assms(7) show ?thesis by (simp add: TryGetEntry_def)
qed

theorem oversized_store_serves_stale_body_witness:
  "\<exists>s s' s''. contents (cs_in_memory_cache s) ''k'' = Some ''v1'' \<and> demo_put ''v2 is too long'' s = Some (Inr (), s')
     \<and> demo_get ''k'' s' = Some (Inr ''v1'', s'')"
proof -
  obtain r0 s1 s2 where r: "demo_server = Some r0" "demo_put ''v1'' (sr_service r0) = Some (Inr (), s1)" "demo_get ''k'' s1 = Some (Inr ''v1'', s2)"
    "sr_clock r0 = seconds 100" "contents (cs_in_memory_cache s1) ''k'' = Some ''v1''" "im_max_size_in_bytes (cs_in_memory_cache s1) = 8"
    by (rule demo_server_run)
  have now: "sr_clock r0 \<le> seconds 200" using r(4) by simp
  have "disk_engine.levels_ok demo_flare s1"
    using disk_engine.run_invD(1) [OF server_run_inv [OF sr_put [OF sr_start now r(2)] flare_strings_demo demo_ok bloom_laws_list r(1) bloom_laws_list]]
    by simp
  then have "imc_inv (cs_in_memory_cache s1)" "dc_inv demo_flare (cs_cache s1)" by (auto simp: disk_engine.levels_ok_def)
  moreover have "Verify (cs_is_servant_verifier s1) ''servant''" "Verify (cs_is_user_verifier s1) ''user''"
    using r(2,3) by (auto simp: PutEntry_def TryGetEntry_def bind_eq_Some_conv split: if_splits)
  moreover have "im_max_size_in_bytes (cs_in_memory_cache s1) < length ''v2 is too long''" using r(6) by simp
  ultimately obtain s' s'' where "demo_put ''v2 is too long'' s1 = Some (Inr (), s')" "demo_get ''k'' s' = Some (Inr ''v1'', s'')"
    using oversized_store_serves_stale_body [OF flare_strings_demo _ _ r(5)] by blast
  with r(5) show ?thesis by (intro exI conjI)
qed

text \<open>The service never aborts and checks every token: in any reachable state a request with an
  unknown token is refused without any change of state, and every other request is served.\<close>

theorem cache_service_total:
  assumes "flare_strings fl" "options_ok options" "workspace_ok fl options fs" "bloom_laws bo"
    and "cache_server_start fl dbl bo flags options fs start = Some r0"
    and "service_reach dbl (DiskCacheEngine fl dbl) bo compress r0 r"
  shows "\<exists>get put. TryGetEntry dbl (DiskCacheEngine fl dbl) e token key (sr_service r) = Some get
     \<and> PutEntry dbl (DiskCacheEngine fl dbl) bo e now token key body (sr_service r) = Some put
     \<and> (fst get = Inl STATUS_CACHE_ACCESS_DENIED \<longleftrightarrow> \<not> Verify (cs_is_user_verifier (sr_service r)) token)
     \<and> (fst put = Inl STATUS_CACHE_ACCESS_DENIED \<longleftrightarrow> \<not> Verify (cs_is_servant_verifier (sr_service r)) token)
     \<and> (fst get = Inl STATUS_CACHE_ACCESS_DENIED \<longrightarrow> snd get = sr_service r)
     \<and> (fst put = Inl STATUS_CACHE_ACCESS_DENIED \<longrightarrow> snd put = sr_service r)
     \<and> OnPurgeTimer (DiskCacheEngine fl dbl) e (sr_service r) \<noteq> None"
proof -
  have ok: "disk_engine.levels_ok fl (sr_service r)"
    using disk_engine.run_invD(1) [OF server_run_inv [OF assms(6,1-5,4)]] .
  obtain res s' where get: "TryGetEntry dbl (DiskCacheEngine fl dbl) e token key (sr_service r) = Some (res, s')"
    by (rule disk_engine.TryGetEntry_ok [OF ok])
  have put: "\<exists>s''. PutEntry dbl (DiskCacheEngine fl dbl) bo e now token key body (sr_service r) = Some (Inr (), s'')"
    if v: "Verify (cs_is_servant_verifier (sr_service r)) token"
    by (rule disk_engine.PutEntry_ok [OF ok v]) (rule exI)
  have "(res = Inl STATUS_CACHE_ACCESS_DENIED \<longleftrightarrow> \<not> Verify (cs_is_user_verifier (sr_service r)) token)"
    "res = Inl STATUS_CACHE_ACCESS_DENIED \<longrightarrow> s' = sr_service r"
    using get by (auto simp: TryGetEntry_def bind_eq_Some_conv split: if_splits option.splits)
  moreover have "OnPurgeTimer (DiskCacheEngine fl dbl) e (sr_service r) \<noteq> None"
    by (rule disk_engine.OnPurgeTimer_ok [OF ok, of dbl e]) simp
  moreover obtain pres ps where "PutEntry dbl (DiskCacheEngine fl dbl) bo e now token key body (sr_service r) = Some (pres, ps)"
    "pres = Inl STATUS_CACHE_ACCESS_DENIED \<longleftrightarrow> \<not> Verify (cs_is_servant_verifier (sr_service r)) token"
    "pres = Inl STATUS_CACHE_ACCESS_DENIED \<longrightarrow> ps = sr_service r"
    using put by (cases "Verify (cs_is_servant_verifier (sr_service r)) token") (auto simp: PutEntry_def)
  ultimately show ?thesis using get by auto
qed

theorem cache_service_total_witness:
  "\<exists>r0 r get. demo_server = Some r0 \<and> service_reach exact_double demo_engine list_bloom Some r0 r
     \<and> TryGetEntry exact_double demo_engine demo_env ''user'' ''k'' (sr_service r) = Some get \<and> fst get \<noteq> Inl STATUS_CACHE_ACCESS_DENIED"
proof -
  obtain r0 r where r: "demo_server = Some r0" "service_reach exact_double demo_engine list_bloom Some r0 r"
    "\<exists>s. demo_get ''k'' (sr_service r) = Some (Inr ''v1'', s)" by (rule demo_server_reach)
  from cache_service_total [OF flare_strings_demo demo_ok bloom_laws_list r(1,2), of demo_env "''user''" "''k''" "seconds 1" "[]"] r
  show ?thesis by (metis fst_conv option.inject sum.distinct(1))
qed

end
