(* ===== verification/Running_Task_Bookkeeper.thy ===== *)
theory Running_Task_Bookkeeper
  imports Yadcc_Prelude
begin

text \<open>
  The scheduler's record of what every servant reports to be running
  (\<^verbatim>\<open>scheduler/running_task_bookkeeper.cc\<close>), and the message type \<open>RunningTask\<close> of
  \<^verbatim>\<open>api/scheduler.proto\<close>.
\<close>

section \<open>Definitions\<close>

record RunningTask =
  rt_servant_task_id :: nat
  rt_task_grant_id :: nat
  rt_servant_location :: string
  rt_task_digest :: string

type_synonym RunningTaskBookkeeper = "(string, RunningTask list) umap"

text \<open>\<open>erase\<close> and then \<open>emplace\<close>, as the code does.\<close>

definition SetServantRunningTasks ::
  "string \<Rightarrow> RunningTask list \<Rightarrow> RunningTaskBookkeeper \<Rightarrow> RunningTaskBookkeeper" where
  "SetServantRunningTasks servant_location tasks b = (servant_location, tasks) # umap_erase servant_location b"

definition DropServant :: "string \<Rightarrow> RunningTaskBookkeeper \<Rightarrow> RunningTaskBookkeeper" where
  "DropServant servant_location b = umap_erase servant_location b"

text \<open>Each servant's tasks are inserted at the front of the result.\<close>

fun bookkeeper_GetRunningTasks :: "RunningTaskBookkeeper \<Rightarrow> RunningTask list" where
  "bookkeeper_GetRunningTasks b = fold (\<lambda>(k, v) result. v @ result) b []"

section \<open>Lemmas\<close>

abbreviation bookkeeper_ok :: "RunningTaskBookkeeper \<Rightarrow> bool" where
  "bookkeeper_ok b \<equiv> distinct (umap_keys b)"

lemma map_of_SetServantRunningTasks [umap_simps]:
  "map_of (SetServantRunningTasks l ts b) = (map_of b)(l \<mapsto> ts)"
  by (simp add: SetServantRunningTasks_def umap_simps)

lemma map_of_DropServant [umap_simps]: "map_of (DropServant l b) = (map_of b)(l := None)"
  by (simp add: DropServant_def umap_simps)

lemma bookkeeper_ok_Set [intro]: "bookkeeper_ok b \<Longrightarrow> bookkeeper_ok (SetServantRunningTasks l ts b)"
  by (auto simp: SetServantRunningTasks_def umap_simps)

lemma bookkeeper_ok_Drop [intro]: "bookkeeper_ok b \<Longrightarrow> bookkeeper_ok (DropServant l b)"
  by (auto simp: DropServant_def)

lemma set_fold_append: "set (fold (\<lambda>(k, v) r. v @ r) b acc) = \<Union> (set ` snd ` set b) \<union> set acc"
  by (induction b arbitrary: acc) auto

lemma set_GetRunningTasks:
  "bookkeeper_ok b \<Longrightarrow>
   t \<in> set (bookkeeper_GetRunningTasks b) \<longleftrightarrow> (\<exists>l ts. map_of b l = Some ts \<and> t \<in> set ts)"
  by (auto simp: set_fold_append) (force dest: map_of_SomeD)+

end
