(* ===== verification/Task_Dispatcher.thy ===== *)
theory Task_Dispatcher
  imports Complex_Main Running_Task_Bookkeeper Parse_Size
begin

text \<open>
  The scheduler's core (\<^verbatim>\<open>scheduler/task_dispatcher.cc\<close>): which servant a compilation task is
  assigned to, and the life cycle of tasks and servants.

  Servant descriptors are reference-counted objects shared by the registry and by the tasks
  assigned to them. They live in a heap (address to descriptor); the registry is a list of
  addresses, and a task keeps the address of the servant it belongs to, so a descriptor
  that was dropped from the registry stays reachable from its tasks, as in the code.

  Every operation holds \<open>allocation_lock_\<close>, so a run of the dispatcher is a sequence
  of operations. \<open>WaitForStartingNewTask\<close> releases the lock while it waits: a wake-up
  carries the operations that other threads performed in between. The condition variable
  is a counter of \<open>notify_all\<close> calls. Utilisations are compared as exact fractions
  (the code rounds them to \<open>double\<close>, which preserves the strict order of fractions whose
  terms are below 2 to the power 26).
\<close>

section \<open>Data\<close>

datatype WaitStatus = EnvironmentNotFound | Timeout

datatype ServantPriority = SERVANT_PRIORITY_UNKNOWN | SERVANT_PRIORITY_USER | SERVANT_PRIORITY_DEDICATED

datatype NotAcceptingTaskReason =
    NOT_ACCEPTING_TASK_REASON_UNKNOWN | NOT_ACCEPTING_TASK_REASON_USER_INSTRUCTED
  | NOT_ACCEPTING_TASK_REASON_POOR_MACHINE | NOT_ACCEPTING_TASK_REASON_CGROUPS_PRESENT
  | NOT_ACCEPTING_TASK_REASON_BEHIND_NAT | NOT_ACCEPTING_TASK_REASON_NOT_VERIFIED
  | NOT_ACCEPTING_TASK_REASON_unnamed nat

record EnvironmentDesc =
  ed_compiler_digest :: string

record TaskPersonality =
  tp_requestor_ip :: string
  tp_min_version :: nat
  tp_env_desc :: EnvironmentDesc

record TaskAllocation =
  ta_task_id :: nat
  ta_servant_location :: string

record ServantPersonality =
  sp_version :: int
  sp_observed_location :: string
  sp_reported_location :: string
  sp_environments :: "EnvironmentDesc list"
  sp_num_processors :: nat
  sp_current_load :: nat
  sp_total_memory_in_bytes :: nat
  sp_memory_available_in_bytes :: nat
  sp_max_tasks :: nat
  sp_priority :: ServantPriority
  sp_not_accepting_task_reason :: NotAcceptingTaskReason

record ServantDesc =
  sd_personality :: ServantPersonality
  sd_discovered_at :: time_point
  sd_expires_at :: time_point
  sd_running_tasks :: nat
  sd_ever_assigned_tasks :: nat

type_synonym servant_ref = nat

record TaskDesc =
  tk_task_id :: nat
  tk_personality :: TaskPersonality
  tk_belonging_servant :: servant_ref
  tk_started_at :: time_point
  tk_expires_at :: time_point
  tk_is_prefetch :: bool
  tk_zombie :: bool

record TaskDispatcher =
  td_servants :: "servant_ref list"
  td_heap :: "servant_ref \<Rightarrow> ServantDesc"
  td_next_ref :: servant_ref
  td_next_task_id :: nat
  td_tasks :: "(nat, TaskDesc) umap"
  td_bookkeeper :: RunningTaskBookkeeper
  td_min_memory_for_new_task :: nat
  td_notifications :: nat

abbreviation servant_location_of :: "TaskDispatcher \<Rightarrow> servant_ref \<Rightarrow> string" where
  "servant_location_of d r \<equiv> sp_observed_location (sd_personality (td_heap d r))"

text \<open>Writing through a pointer to a descriptor.\<close>

definition update_servant ::
  "servant_ref \<Rightarrow> (ServantDesc \<Rightarrow> ServantDesc) \<Rightarrow> TaskDispatcher \<Rightarrow> TaskDispatcher" where
  "update_servant r f d = d\<lparr>td_heap := (td_heap d)(r := f (td_heap d r))\<rparr>"

section \<open>Operations\<close>

definition ContainsEnvironmentSlow :: "EnvironmentDesc list \<Rightarrow> EnvironmentDesc \<Rightarrow> bool" where
  "ContainsEnvironmentSlow envs looking_for \<longleftrightarrow>
     list_ex (\<lambda>e. ed_compiler_digest e = ed_compiler_digest looking_for) envs"

definition IsNetworkAddressEqual :: "flare \<Rightarrow> string \<Rightarrow> string \<Rightarrow> bool" where
  "IsNetworkAddressEqual fl ip_port ip2 \<longleftrightarrow>
     length ip_port > length ip2 \<and> ip_port ! length ip2 = CHR '':'' \<and> fl_StartsWith fl ip_port ip2"

text \<open>The constructor: \<open>None\<close> when the memory flag is not a size.\<close>

definition TaskDispatcher_ctor :: "flare \<Rightarrow> string \<Rightarrow> (servant_ref \<Rightarrow> ServantDesc) \<Rightarrow> TaskDispatcher option" where
  "TaskDispatcher_ctor fl flag_min_memory heap0 =
     (case TryParseSize fl flag_min_memory of
        Some (Some memory_demand) \<Rightarrow>
          Some \<lparr>td_servants = [], td_heap = heap0, td_next_ref = 0, td_next_task_id = 0, td_tasks = [],
                td_bookkeeper = [], td_min_memory_for_new_task = memory_demand, td_notifications = 0\<rparr>
      | _ \<Rightarrow> None)"

text \<open>
  The subtractions are on \<open>std::size_t\<close> and are then converted to \<open>std::int64_t\<close>.
\<close>

definition GetCapacityAvailable :: "TaskDispatcher \<Rightarrow> ServantDesc \<Rightarrow> nat" where
  "GetCapacityAvailable d s =
     (let p = sd_personality s in
      if sp_total_memory_in_bytes p \<noteq> 0 \<and> sp_memory_available_in_bytes p < td_min_memory_for_new_task d
      then sd_running_tasks s
      else
        (let foreign_load = max (to_int64 (int (sp_current_load p) - int (sd_running_tasks s))) 0;
             capacity_available = nat (max (to_int64 (int (sp_num_processors p) - foreign_load)) 0)
         in min (sp_max_tasks p) capacity_available))"

text \<open>\<open>version\<close> is an \<open>int\<close> compared with a \<open>std::uint32_t\<close>: it is converted to unsigned.\<close>

definition UnsafeEnumerateEligibleServants :: "TaskPersonality \<Rightarrow> TaskDispatcher \<Rightarrow> servant_ref list" where
  "UnsafeEnumerateEligibleServants requesting_task d =
     filter (\<lambda>e. let p = sd_personality (td_heap d e) in
               ContainsEnvironmentSlow (sp_environments p) (tp_env_desc requesting_task)
               \<and> sp_max_tasks p \<noteq> 0
               \<and> \<not> (to_uint32 (sp_version p) < tp_min_version requesting_task))
       (td_servants d)"

definition UnsafeEnumerateFreeServants :: "servant_ref list \<Rightarrow> TaskDispatcher \<Rightarrow> servant_ref list" where
  "UnsafeEnumerateFreeServants eligible_servants d =
     filter (\<lambda>e. \<not> (sd_running_tasks (td_heap d e) \<ge> GetCapacityAvailable d (td_heap d e))) eligible_servants"

definition utilization_of :: "TaskDispatcher \<Rightarrow> servant_ref \<Rightarrow> rat" where
  "utilization_of d e = of_nat (sd_running_tasks (td_heap d e)) / of_nat (GetCapacityAvailable d (td_heap d e))"

text \<open>
  The loop over the candidates. The accumulator is \<open>result\<close> with \<open>min_utilization\<close>;
  the outer option is an abort by one of the three checks.
\<close>

fun TryPick_loop ::
  "TaskDispatcher \<Rightarrow> (ServantDesc \<Rightarrow> bool) \<Rightarrow> servant_ref list \<Rightarrow> (servant_ref \<times> rat) option
   \<Rightarrow> (servant_ref \<times> rat) option option" where
  "TryPick_loop d pred [] acc = Some acc"
| "TryPick_loop d pred (e # es) acc =
     (let s = td_heap d e in
      if \<not> (sp_max_tasks (sd_personality s) > sd_running_tasks s) then None
      else if sp_max_tasks (sd_personality s) = 0 then None
      else if GetCapacityAvailable d s = 0 then None
      else if \<not> pred s then TryPick_loop d pred es acc
      else
        (case acc of
           None \<Rightarrow> TryPick_loop d pred es (Some (e, utilization_of d e))
         | Some (result, min_utilization) \<Rightarrow>
             if utilization_of d e < min_utilization
             then TryPick_loop d pred es (Some (e, utilization_of d e))
             else TryPick_loop d pred es acc))"

definition UnsafeTryPickServantFor ::
  "TaskDispatcher \<Rightarrow> servant_ref list \<Rightarrow> (ServantDesc \<Rightarrow> bool) \<Rightarrow> servant_ref option option" where
  "UnsafeTryPickServantFor d servants pred =
     (if servants = [] then Some None
      else map_option (map_option fst) (TryPick_loop d pred servants None))"

definition is_idle_dedicated :: "ServantDesc \<Rightarrow> bool" where
  "is_idle_dedicated e \<longleftrightarrow>
     sp_priority (sd_personality e) = SERVANT_PRIORITY_DEDICATED
     \<and> sd_running_tasks e * 2 < sp_num_processors (sd_personality e)"

definition UnsafeTryPickDedicatedServantFor :: "TaskDispatcher \<Rightarrow> servant_ref list \<Rightarrow> servant_ref option option" where
  "UnsafeTryPickDedicatedServantFor d servants = UnsafeTryPickServantFor d servants is_idle_dedicated"

definition UnsafeTryPickAvailableServantFor :: "TaskDispatcher \<Rightarrow> servant_ref list \<Rightarrow> servant_ref option option" where
  "UnsafeTryPickAvailableServantFor d servants = UnsafeTryPickServantFor d servants (\<lambda>_. True)"

text \<open>\<open>find_if\<close> and \<open>erase\<close> of the requestor's own servant.\<close>

fun extract_first :: "('a \<Rightarrow> bool) \<Rightarrow> 'a list \<Rightarrow> 'a option \<times> 'a list" where
  "extract_first P [] = (None, [])"
| "extract_first P (x # xs) =
     (if P x then (Some x, xs) else (let (r, ys) = extract_first P xs in (r, x # ys)))"

definition UnsafePickServantFor ::
  "flare \<Rightarrow> TaskDispatcher \<Rightarrow> servant_ref list \<Rightarrow> string \<Rightarrow> servant_ref option" where
  "UnsafePickServantFor fl d servants requestor =
     (let (self, others) = extract_first (\<lambda>e. IsNetworkAddressEqual fl (servant_location_of d e) requestor) servants
      in case UnsafeTryPickDedicatedServantFor d others of
           None \<Rightarrow> None
         | Some (Some ptr) \<Rightarrow> Some ptr
         | Some None \<Rightarrow>
             (case UnsafeTryPickAvailableServantFor d others of
                None \<Rightarrow> None
              | Some (Some ptr) \<Rightarrow> Some ptr
              | Some None \<Rightarrow>
                  (case self of
                     None \<Rightarrow> None
                   | Some s \<Rightarrow> if GetCapacityAvailable d (td_heap d s) = 0 then None else Some s)))"

text \<open>
  One pass of the body of \<open>WaitForStartingNewTask\<close>: it returns, or has to wait on the
  condition variable (the state is then unchanged).
\<close>

datatype pass_result = PassReturn "WaitStatus + TaskAllocation" | PassMustWait

definition record_allocation ::
  "TaskPersonality \<Rightarrow> nanoseconds \<Rightarrow> bool \<Rightarrow> time_point \<Rightarrow> servant_ref \<Rightarrow> TaskDispatcher
   \<Rightarrow> (TaskAllocation \<times> TaskDispatcher) option" where
  "record_allocation personality expires_in prefetching now pick d =
     (let d1 = update_servant pick
                 (\<lambda>s. s\<lparr>sd_running_tasks := sd_running_tasks s + 1,
                        sd_ever_assigned_tasks := sd_ever_assigned_tasks s + 1\<rparr>) d;
          task_id = td_next_task_id d1;
          d2 = d1\<lparr>td_next_task_id := (task_id + 1) mod 2 ^ 64\<rparr>
      in if map_of (td_tasks d2) task_id \<noteq> None then None
         else
           (let task = \<lparr>tk_task_id = task_id, tk_personality = personality, tk_belonging_servant = pick,
                        tk_started_at = now, tk_expires_at = now + expires_in,
                        tk_is_prefetch = prefetching, tk_zombie = False\<rparr>
            in Some (\<lparr>ta_task_id = task_id, ta_servant_location = servant_location_of d pick\<rparr>,
                     d2\<lparr>td_tasks := (task_id, task) # td_tasks d2\<rparr>)))"

definition StartNewTask_pass ::
  "flare \<Rightarrow> TaskPersonality \<Rightarrow> nanoseconds \<Rightarrow> bool \<Rightarrow> time_point \<Rightarrow> TaskDispatcher
   \<Rightarrow> (pass_result \<times> TaskDispatcher) option" where
  "StartNewTask_pass fl personality expires_in prefetching now d =
     (let servants_eligible = UnsafeEnumerateEligibleServants personality d in
      if servants_eligible = [] then Some (PassReturn (Inl EnvironmentNotFound), d)
      else
        (let servants_free = UnsafeEnumerateFreeServants servants_eligible d in
         if servants_free = [] then Some (PassMustWait, d)
         else
           (case UnsafePickServantFor fl d servants_free (tp_requestor_ip personality) of
              None \<Rightarrow> None
            | Some pick \<Rightarrow>
                (case record_allocation personality expires_in prefetching now pick d of
                   None \<Rightarrow> None
                 | Some (alloc, d') \<Rightarrow> Some (PassReturn (Inr alloc), d')))))"

definition KeepTaskAlive :: "nat \<Rightarrow> nanoseconds \<Rightarrow> time_point \<Rightarrow> TaskDispatcher \<Rightarrow> bool \<times> TaskDispatcher" where
  "KeepTaskAlive task_id new_expires_in now d =
     (case map_of (td_tasks d) task_id of
        None \<Rightarrow> (False, d)
      | Some t \<Rightarrow>
          if tk_zombie t then (False, d)
          else (True, d\<lparr>td_tasks := umap_modify task_id (\<lambda>t. t\<lparr>tk_expires_at := now + new_expires_in\<rparr>) (td_tasks d)\<rparr>))"

text \<open>\<open>--running_tasks\<close> on a \<open>std::size_t\<close> wraps at zero.\<close>

definition dec_size :: "nat \<Rightarrow> nat" where
  "dec_size n = (if n = 0 then 2 ^ 64 - 1 else n - 1)"

text \<open>
  The loop returns at the first unknown id: the rest is not freed and nobody is notified.
\<close>

fun UnsafeFreeTasks :: "nat list \<Rightarrow> TaskDispatcher \<Rightarrow> TaskDispatcher" where
  "UnsafeFreeTasks [] d = d\<lparr>td_notifications := td_notifications d + 1\<rparr>"
| "UnsafeFreeTasks (e # es) d =
     (case map_of (td_tasks d) e of
        None \<Rightarrow> d
      | Some t \<Rightarrow>
          (let d1 = update_servant (tk_belonging_servant t)
                      (\<lambda>s. s\<lparr>sd_running_tasks := dec_size (sd_running_tasks s)\<rparr>) d
           in UnsafeFreeTasks es (d1\<lparr>td_tasks := umap_erase e (td_tasks d1)\<rparr>)))"

definition FreeTask :: "nat \<Rightarrow> TaskDispatcher \<Rightarrow> TaskDispatcher" where
  "FreeTask task_id d = UnsafeFreeTasks [task_id] d"

definition find_servant :: "string \<Rightarrow> TaskDispatcher \<Rightarrow> servant_ref option" where
  "find_servant location d = find (\<lambda>e. servant_location_of d e = location) (td_servants d)"

definition KeepServantAlive ::
  "ServantPersonality \<Rightarrow> nanoseconds \<Rightarrow> time_point \<Rightarrow> TaskDispatcher \<Rightarrow> TaskDispatcher" where
  "KeepServantAlive servant expires_in now d =
     (case find_servant (sp_observed_location servant) d of
        Some e \<Rightarrow> update_servant e (\<lambda>s. s\<lparr>sd_personality := servant, sd_expires_at := now + expires_in\<rparr>) d
      | None \<Rightarrow>
          d\<lparr>td_servants := td_servants d @ [td_next_ref d],
            td_heap := (td_heap d)(td_next_ref d :=
               \<lparr>sd_personality = servant, sd_discovered_at = now, sd_expires_at = now + expires_in,
                sd_running_tasks = 0, sd_ever_assigned_tasks = 0\<rparr>),
            td_next_ref := td_next_ref d + 1\<rparr>)"

definition UnsafeSweepZombiesOf :: "servant_ref \<Rightarrow> nat set \<Rightarrow> TaskDispatcher \<Rightarrow> TaskDispatcher" where
  "UnsafeSweepZombiesOf servant running_tasks d =
     UnsafeFreeTasks
       (map fst (filter (\<lambda>e. tk_belonging_servant (snd e) = servant \<and> tk_zombie (snd e) \<and> fst e \<notin> running_tasks)
                  (td_tasks d))) d"

definition UnsafeSweepOrphans :: "TaskDispatcher \<Rightarrow> TaskDispatcher" where
  "UnsafeSweepOrphans d =
     UnsafeFreeTasks
       (map fst (filter (\<lambda>e. tk_belonging_servant (snd e) \<notin> set (td_servants d)) (td_tasks d))) d"

definition NotifyServantRunningTasks ::
  "string \<Rightarrow> RunningTask list \<Rightarrow> TaskDispatcher \<Rightarrow> nat list \<times> TaskDispatcher" where
  "NotifyServantRunningTasks servant_location tasks d =
     (let task_grant_ids = map rt_task_grant_id tasks in
      case find_servant servant_location d of
        None \<Rightarrow> (task_grant_ids, d)
      | Some servant \<Rightarrow>
          (let d1 = UnsafeSweepZombiesOf servant (set task_grant_ids) d;
               permitted_tasks =
                 fst ` set (filter (\<lambda>e. tk_belonging_servant (snd e) = servant \<and> \<not> tk_zombie (snd e)) (td_tasks d1));
               unknown_tasks = map rt_task_grant_id (filter (\<lambda>t. rt_task_grant_id t \<notin> permitted_tasks) tasks);
               kept = filter (\<lambda>t. rt_task_grant_id t \<in> permitted_tasks) tasks
           in (unknown_tasks,
               d1\<lparr>td_bookkeeper := SetServantRunningTasks servant_location kept (td_bookkeeper d1)\<rparr>)))"

definition GetRunningTasks :: "TaskDispatcher \<Rightarrow> RunningTask list" where
  "GetRunningTasks d = bookkeeper_GetRunningTasks (td_bookkeeper d)"

fun RemoveExpiredServants_loop ::
  "time_point \<Rightarrow> (servant_ref \<Rightarrow> ServantDesc) \<Rightarrow> servant_ref list \<Rightarrow> RunningTaskBookkeeper
   \<Rightarrow> servant_ref list \<times> RunningTaskBookkeeper" where
  "RemoveExpiredServants_loop now h [] b = ([], b)"
| "RemoveExpiredServants_loop now h (e # es) b =
     (if sd_expires_at (h e) < now
      then RemoveExpiredServants_loop now h es (DropServant (sp_observed_location (sd_personality (h e))) b)
      else (let (rest, b') = RemoveExpiredServants_loop now h es b in (e # rest, b')))"

definition MakeExpiredTasksZombie :: "time_point \<Rightarrow> (nat, TaskDesc) umap \<Rightarrow> (nat, TaskDesc) umap" where
  "MakeExpiredTasksZombie now tasks =
     map (\<lambda>(k, t). (k, if tk_expires_at t < now then t\<lparr>tk_zombie := True\<rparr> else t)) tasks"

definition OnExpirationTimer :: "time_point \<Rightarrow> TaskDispatcher \<Rightarrow> TaskDispatcher" where
  "OnExpirationTimer now d =
     (let (alive, b) = RemoveExpiredServants_loop now (td_heap d) (td_servants d) (td_bookkeeper d);
          d1 = d\<lparr>td_servants := alive, td_bookkeeper := b\<rparr>;
          d2 = UnsafeSweepOrphans d1
      in d2\<lparr>td_tasks := MakeExpiredTasksZombie now (td_tasks d2)\<rparr>)"

text \<open>
  The cluster-wide numbers of \<open>DumpInternals\<close> (\<open>std::uint64_t\<close> accumulators).
\<close>

record ClusterStats =
  cs_servants_up :: nat
  cs_running_tasks :: nat
  cs_capacity :: nat
  cs_capacity_available :: nat
  cs_capacity_unavailable :: nat

fun DumpInternals_loop ::
  "TaskDispatcher \<Rightarrow> servant_ref list \<Rightarrow> nat \<times> nat \<times> nat \<Rightarrow> nat \<times> nat \<times> nat" where
  "DumpInternals_loop d [] acc = acc"
| "DumpInternals_loop d (e # es) (total_running, cluster_capacity, capacity_unavailable) =
     (let s = td_heap d e in
      DumpInternals_loop d es
        (to_uint64 (int total_running + int (sd_running_tasks s)),
         to_uint64 (int cluster_capacity + int (sp_max_tasks (sd_personality s))),
         to_uint64 (int capacity_unavailable
                    + (int (sp_max_tasks (sd_personality s)) - int (GetCapacityAvailable d s)))))"

definition DumpInternals :: "TaskDispatcher \<Rightarrow> ClusterStats" where
  "DumpInternals d =
     (let (total_running, cluster_capacity, capacity_unavailable) =
            DumpInternals_loop d (td_servants d) (0, 0, 0)
      in \<lparr>cs_servants_up = length (td_servants d), cs_running_tasks = total_running,
          cs_capacity = cluster_capacity,
          cs_capacity_available =
            nat (max (to_int64 (int cluster_capacity - int total_running - int capacity_unavailable)) 0),
          cs_capacity_unavailable = capacity_unavailable\<rparr>)"

section \<open>The dispatcher as a machine\<close>

datatype dispatcher_call =
    CallStartNewTask TaskPersonality nanoseconds bool time_point
  | CallKeepTaskAlive nat nanoseconds time_point
  | CallFreeTask nat
  | CallKeepServantAlive ServantPersonality nanoseconds time_point
  | CallNotifyServantRunningTasks string "RunningTask list"
  | CallOnExpirationTimer time_point

fun dispatcher_step :: "flare \<Rightarrow> dispatcher_call \<Rightarrow> TaskDispatcher \<Rightarrow> TaskDispatcher option" where
  "dispatcher_step fl (CallStartNewTask p expires_in prefetching now) d =
     map_option snd (StartNewTask_pass fl p expires_in prefetching now d)"
| "dispatcher_step fl (CallKeepTaskAlive task_id expires_in now) d =
     Some (snd (KeepTaskAlive task_id expires_in now d))"
| "dispatcher_step fl (CallFreeTask task_id) d = Some (FreeTask task_id d)"
| "dispatcher_step fl (CallKeepServantAlive servant expires_in now) d =
     Some (KeepServantAlive servant expires_in now d)"
| "dispatcher_step fl (CallNotifyServantRunningTasks location tasks) d =
     Some (snd (NotifyServantRunningTasks location tasks d))"
| "dispatcher_step fl (CallOnExpirationTimer now) d = Some (OnExpirationTimer now d)"

text \<open>
  The whole of \<open>WaitForStartingNewTask\<close>: the calls of other threads during each wait, the
  clock after the wait, and whether the wait timed out. \<open>None\<close> in the second component
  means that the caller is still waiting at the end of the given wake-ups.
\<close>

record wakeup =
  wu_calls :: "dispatcher_call list"
  wu_timed_out :: bool
  wu_now :: time_point

fun WaitForStartingNewTask ::
  "flare \<Rightarrow> TaskPersonality \<Rightarrow> nanoseconds \<Rightarrow> bool \<Rightarrow> time_point \<Rightarrow> wakeup list \<Rightarrow> TaskDispatcher
   \<Rightarrow> ((WaitStatus + TaskAllocation) option \<times> TaskDispatcher) option" where
  "WaitForStartingNewTask fl p expires_in prefetching now wakes d =
     (case StartNewTask_pass fl p expires_in prefetching now d of
        None \<Rightarrow> None
      | Some (PassReturn r, d') \<Rightarrow> Some (Some r, d')
      | Some (PassMustWait, d') \<Rightarrow>
          (case wakes of
             [] \<Rightarrow> Some (None, d')
           | w # ws \<Rightarrow>
               (case run_calls (dispatcher_step fl) (wu_calls w) d' of
                  None \<Rightarrow> None
                | Some d'' \<Rightarrow>
                    if wu_timed_out w then Some (Some (Inl Timeout), d'')
                    else WaitForStartingNewTask fl p expires_in prefetching (wu_now w) ws d'')))"

end
