(* ===== verification/Task_Grant_Keeper.thy ===== *)
theory Task_Grant_Keeper
  imports Task_Dispatcher
begin

text \<open>
  The local daemon's three clients of the scheduler: the fetched configuration
  (\<^verbatim>\<open>daemon/local/config_keeper.cc\<close>), the copy of the cluster's running tasks
  (\<^verbatim>\<open>daemon/local/running_task_keeper.cc\<close>) and the store of prefetched task grants
  (\<^verbatim>\<open>daemon/local/task_grant_keeper.cc\<close>). Replies of the scheduler are arguments (\<open>None\<close> is a
  failed call). \<open>Get\<close> and the fetcher fiber of the grant keeper are split where they wait on a
  condition variable or a call.
\<close>

section \<open>Configuration\<close>

record ConfigKeeper =
  ck_serving_daemon_token :: string

definition GetServingDaemonToken :: "ConfigKeeper \<Rightarrow> string" where
  "GetServingDaemonToken k = ck_serving_daemon_token k"

definition OnFetchConfig :: "string option \<Rightarrow> ConfigKeeper \<Rightarrow> ConfigKeeper" where
  "OnFetchConfig result k = (case result of None \<Rightarrow> k | Some token \<Rightarrow> k\<lparr>ck_serving_daemon_token := token\<rparr>)"

section \<open>Running tasks of the cluster\<close>

record RunningTaskDesc =
  rd_servant_location :: string
  rd_servant_task_id :: nat

record RunningTaskKeeper =
  rk_running_tasks :: "string \<Rightarrow> RunningTaskDesc option"
  rk_last_update_time :: time_point

definition RunningTaskKeeper_ctor :: "time_point \<Rightarrow> RunningTaskKeeper" where
  "RunningTaskKeeper_ctor now = \<lparr>rk_running_tasks = (\<lambda>_. None), rk_last_update_time = now\<rparr>"

text \<open>Each element of a reply is a task digest with the location and id of the task; the last one of
  a digest wins.\<close>

definition Refresh :: "time_point \<Rightarrow> (string \<times> RunningTaskDesc) list option \<Rightarrow> RunningTaskKeeper \<Rightarrow> RunningTaskKeeper" where
  "Refresh now result k =
     (case result of
        None \<Rightarrow> if now - rk_last_update_time k > seconds 5 then k\<lparr>rk_running_tasks := (\<lambda>_. None)\<rparr> else k
      | Some running_tasks \<Rightarrow>
          k\<lparr>rk_running_tasks := fold (\<lambda>(digest, t) m. m(digest \<mapsto> t)) running_tasks (\<lambda>_. None),
            rk_last_update_time := now\<rparr>)"

definition TryFindTask :: "string \<Rightarrow> RunningTaskKeeper \<Rightarrow> RunningTaskDesc option" where
  "TryFindTask task_digest k = rk_running_tasks k task_digest"

section \<open>Task grants\<close>

record GrantDesc =
  gd_expires_at :: time_point
  gd_grant_id :: nat
  gd_servant_location :: string

record PerEnvGrantKeeper =
  pk_env_desc :: EnvironmentDesc
  pk_waiters :: int
  pk_remaining :: "GrantDesc list"

record TaskGrantKeeper =
  gk_leaving :: bool
  gk_keepers :: "string \<Rightarrow> PerEnvGrantKeeper option"

definition TaskGrantKeeper_ctor :: TaskGrantKeeper where
  "TaskGrantKeeper_ctor = \<lparr>gk_leaving = False, gk_keepers = (\<lambda>_. None)\<rparr>"

definition set_keeper :: "string \<Rightarrow> PerEnvGrantKeeper \<Rightarrow> TaskGrantKeeper \<Rightarrow> TaskGrantKeeper" where
  "set_keeper env p k = k\<lparr>gk_keepers := (gk_keepers k)(env \<mapsto> p)\<rparr>"

text \<open>The keeper of an environment, created on first use (with a fetcher fiber of its own).\<close>

definition keeper_for :: "EnvironmentDesc \<Rightarrow> TaskGrantKeeper \<Rightarrow> PerEnvGrantKeeper" where
  "keeper_for desc k =
     (case gk_keepers k (ed_compiler_digest desc) of
        Some p \<Rightarrow> p
      | None \<Rightarrow> \<lparr>pk_env_desc = desc, pk_waiters = 0, pk_remaining = []\<rparr>)"

text \<open>\<open>Get\<close> up to the wait: \<open>Some g\<close> when a grant is at hand, \<open>None\<close> when the caller now waits.\<close>

definition Get_begin :: "time_point \<Rightarrow> EnvironmentDesc \<Rightarrow> TaskGrantKeeper \<Rightarrow> GrantDesc option \<times> TaskGrantKeeper" where
  "Get_begin now desc k =
     (let p = keeper_for desc k;
          remaining = dropWhile (\<lambda>g. gd_expires_at g < now) (pk_remaining p)
      in case remaining of
           g # rest \<Rightarrow> (Some g, set_keeper (ed_compiler_digest desc) (p\<lparr>pk_remaining := rest\<rparr>) k)
         | [] \<Rightarrow> (None, set_keeper (ed_compiler_digest desc) (p\<lparr>pk_remaining := [], pk_waiters := pk_waiters p + 1\<rparr>) k))"

text \<open>\<open>Get\<close> after the wait: the wait ends with a grant if there is one, and without one only when it
  timed out. The outer option is the check on the number of waiters.\<close>

definition Get_end :: "EnvironmentDesc \<Rightarrow> TaskGrantKeeper \<Rightarrow> (GrantDesc option \<times> TaskGrantKeeper) option" where
  "Get_end desc k =
     (let p = keeper_for desc k; p' = p\<lparr>pk_waiters := pk_waiters p - 1\<rparr>
      in if pk_waiters p' < 0 then None
         else Some (case pk_remaining p of
             g # rest \<Rightarrow> (Some g, set_keeper (ed_compiler_digest desc) (p'\<lparr>pk_remaining := rest\<rparr>) k)
           | [] \<Rightarrow> (None, set_keeper (ed_compiler_digest desc) p' k)))"

definition keeper_Stop :: "TaskGrantKeeper \<Rightarrow> TaskGrantKeeper" where
  "keeper_Stop k = k\<lparr>gk_leaving := True\<rparr>"

text \<open>The fetcher up to its call: it proceeds only when there is no grant left, and the request asks
  for a grant for every waiter and one more. \<open>None\<close>: the fiber leaves or keeps waiting.\<close>

record grant_request =
  gr_milliseconds_to_wait :: nat
  gr_next_keep_alive_in_ms :: nat
  gr_env_desc :: EnvironmentDesc
  gr_immediate_reqs :: int
  gr_prefetch_reqs :: nat

definition GrantFetcherProc_begin :: "string \<Rightarrow> TaskGrantKeeper \<Rightarrow> grant_request option" where
  "GrantFetcherProc_begin env k =
     (case gk_keepers k env of
        Some p \<Rightarrow>
          if gk_leaving k \<or> pk_remaining p \<noteq> [] then None
          else Some \<lparr>gr_milliseconds_to_wait = 5000, gr_next_keep_alive_in_ms = 15000, gr_env_desc = pk_env_desc p,
                     gr_immediate_reqs = pk_waiters p, gr_prefetch_reqs = 1\<rparr>
      | None \<Rightarrow> None)"

text \<open>The fetcher after its call, made at \<open>before_rpc_now\<close>; a reply is the list of grants.\<close>

definition GrantFetcherProc_end ::
  "time_point \<Rightarrow> (nat \<times> string) list option \<Rightarrow> string \<Rightarrow> TaskGrantKeeper \<Rightarrow> TaskGrantKeeper" where
  "GrantFetcherProc_end before_rpc_now result env k =
     (case (gk_keepers k env, result) of
        (Some p, Some grants) \<Rightarrow>
          set_keeper env
            (p\<lparr>pk_remaining := pk_remaining p @
                 map (\<lambda>(grant_id, servant_location).
                        \<lparr>gd_expires_at = before_rpc_now + seconds 15 - seconds 5, gd_grant_id = grant_id,
                         gd_servant_location = servant_location\<rparr>) grants\<rparr>) k
      | _ \<Rightarrow> k)"

end
