(* ===== verification/Cache_Format.thy ===== *)
theory Cache_Format
  imports Flare_Api Task_Dispatcher
begin

text \<open>
  The format of compilation results in the distributed cache (\<^verbatim>\<open>daemon/cache_format.cc\<close>) and the keys
  derived from a compilation (\<^verbatim>\<open>daemon/task_digest.cc\<close>). The meta data is a Protocol Buffers message;
  its serialisation is a parameter, \<open>proto_meta\<close> is that parsing undoes it.
\<close>

section \<open>Definitions\<close>

record daemon_CacheEntry =
  de_exit_code :: int
  de_standard_output :: string
  de_standard_error :: string
  de_extra_info :: bytes
  de_files :: bytes

record CacheMeta =
  cm_exit_code :: int
  cm_standard_output :: bytes
  cm_standard_error :: bytes
  cm_extra_info :: bytes
  cm_files_digest :: bytes

record proto_ops =
  pb_SerializeCacheMeta :: "CacheMeta \<Rightarrow> bytes"
  pb_ParseCacheMeta :: "bytes \<Rightarrow> CacheMeta option"

definition proto_meta :: "proto_ops \<Rightarrow> bool" where
  "proto_meta pb \<longleftrightarrow> (\<forall>m. pb_ParseCacheMeta pb (pb_SerializeCacheMeta pb m) = Some m)"

text \<open>An \<open>n\<close>-byte unsigned integer in little endian.\<close>

fun to_little_endian :: "nat \<Rightarrow> nat \<Rightarrow> bytes" where
  "to_little_endian 0 v = []"
| "to_little_endian (Suc n) v = char_of (v mod 256) # to_little_endian n (v div 256)"

fun from_little_endian :: "bytes \<Rightarrow> nat" where
  "from_little_endian [] = 0"
| "from_little_endian (b # bs) = of_char b + 256 * from_little_endian bs"

text \<open>The header is the three 32-bit members of \<open>CacheEntryHeader\<close>; the last one is never assigned,
  \<open>junk\<close> is what it happens to hold.\<close>

abbreviation header_size :: nat where "header_size \<equiv> 12"

definition WriteCacheEntry :: "flare \<Rightarrow> proto_ops \<Rightarrow> nat \<Rightarrow> daemon_CacheEntry \<Rightarrow> bytes" where
  "WriteCacheEntry fl pb junk result =
     (let meta = pb_SerializeCacheMeta pb
            \<lparr>cm_exit_code = de_exit_code result, cm_standard_output = de_standard_output result,
             cm_standard_error = de_standard_error result, cm_extra_info = de_extra_info result,
             cm_files_digest = fl_Blake3 fl (de_files result)\<rparr>
      in to_little_endian 4 (length meta) @ to_little_endian 4 (length (de_files result)) @ to_little_endian 4 junk
         @ meta @ de_files result)"

definition TryParseCacheEntry :: "flare \<Rightarrow> proto_ops \<Rightarrow> bytes \<Rightarrow> daemon_CacheEntry option" where
  "TryParseCacheEntry fl pb buffer =
     (if length buffer < header_size then None
      else
        (let meta_size = from_little_endian (take 4 buffer);
             files_size = from_little_endian (take 4 (drop 4 buffer));
             rest = drop header_size buffer;
             meta = take meta_size rest;
             files = take files_size (drop meta_size rest)
         in if length buffer < header_size + meta_size + files_size then None
            else
              (case pb_ParseCacheMeta pb meta of
                 None \<Rightarrow> None
               | Some meta_msg \<Rightarrow>
                   if fl_Blake3 fl files \<noteq> cm_files_digest meta_msg then None
                   else Some \<lparr>de_exit_code = cm_exit_code meta_msg, de_standard_output = cm_standard_output meta_msg,
                              de_standard_error = cm_standard_error meta_msg, de_extra_info = cm_extra_info meta_msg,
                              de_files = files\<rparr>)))"

text \<open>The key of a result, and the digest by which identical running tasks are found. \<open>Blake3_of\<close> is
  Flare's digest of a list of pieces.\<close>

definition GetCxxCacheEntryKey :: "flare \<Rightarrow> (string list \<Rightarrow> bytes) \<Rightarrow> EnvironmentDesc \<Rightarrow> string \<Rightarrow> string \<Rightarrow> string" where
  "GetCxxCacheEntryKey fl Blake3_of desc invocation_arguments source_digest =
     ''yadcc-cxx2-entry-'' @
     fl_EncodeHex fl (Blake3_of [''using-extra-info'', ed_compiler_digest desc, invocation_arguments, source_digest])"

definition GetCxxTaskDigest :: "flare \<Rightarrow> (string list \<Rightarrow> bytes) \<Rightarrow> EnvironmentDesc \<Rightarrow> string \<Rightarrow> string \<Rightarrow> string" where
  "GetCxxTaskDigest fl Blake3_of env_desc invocation_arguments source_digest =
     fl_EncodeHex fl (Blake3_of [''cxx2'', ed_compiler_digest env_desc, invocation_arguments, source_digest])"

section \<open>Lemmas\<close>

lemma length_to_little_endian [simp]: "length (to_little_endian n v) = n"
  by (induction n arbitrary: v) auto

lemma from_to_little_endian: "v < 256 ^ n \<Longrightarrow> from_little_endian (to_little_endian n v) = v"
proof (induction n arbitrary: v)
  case (Suc n)
  then have "v div 256 < 256 ^ n" by (simp add: less_mult_imp_div_less mult.commute)
  with Suc.IH show ?case by simp
qed simp

lemma TryParse_WriteCacheEntry:
  assumes "proto_meta pb" "length (de_files r) < 2 ^ 32"
    and "length (pb_SerializeCacheMeta pb \<lparr>cm_exit_code = de_exit_code r, cm_standard_output = de_standard_output r,
             cm_standard_error = de_standard_error r, cm_extra_info = de_extra_info r, cm_files_digest = fl_Blake3 fl (de_files r)\<rparr>) < 2 ^ 32"
  shows "TryParseCacheEntry fl pb (WriteCacheEntry fl pb junk r) = Some r"
proof -
  define meta where "meta = pb_SerializeCacheMeta pb \<lparr>cm_exit_code = de_exit_code r, cm_standard_output = de_standard_output r,
             cm_standard_error = de_standard_error r, cm_extra_info = de_extra_info r, cm_files_digest = fl_Blake3 fl (de_files r)\<rparr>"
  have parse: "pb_ParseCacheMeta pb meta = Some \<lparr>cm_exit_code = de_exit_code r, cm_standard_output = de_standard_output r,
             cm_standard_error = de_standard_error r, cm_extra_info = de_extra_info r, cm_files_digest = fl_Blake3 fl (de_files r)\<rparr>"
    using assms(1) by (simp add: meta_def proto_meta_def)
  have w: "WriteCacheEntry fl pb junk r = to_little_endian 4 (length meta) @ to_little_endian 4 (length (de_files r)) @ to_little_endian 4 junk @ meta @ de_files r"
    by (simp add: WriteCacheEntry_def meta_def Let_def)
  have "length meta < 256 ^ 4" "length (de_files r) < 256 ^ 4" using assms(2,3) by (simp_all add: meta_def)
  note sizes = from_to_little_endian [OF this(1)] from_to_little_endian [OF this(2)]
  show ?thesis unfolding w TryParseCacheEntry_def Let_def by (simp add: sizes parse)
qed

text \<open>A truncated entry is never accepted, and the files of an accepted one have the digest of its
  meta data.\<close>

lemma TryParseCacheEntry_checked:
  assumes "TryParseCacheEntry fl pb b = Some r"
  shows "\<exists>m. pb_ParseCacheMeta pb (take (from_little_endian (take 4 b)) (drop 12 b)) = Some m \<and> fl_Blake3 fl (de_files r) = cm_files_digest m
     \<and> length (de_files r) = from_little_endian (take 4 (drop 4 b))"
  using assms by (auto simp: TryParseCacheEntry_def Let_def split: if_splits option.splits)

end
