(* ===== verification/Distributed_Task_Dispatcher.thy ===== *)
theory Distributed_Task_Dispatcher
  imports Task_Grant_Keeper Cache_Format
begin

text \<open>
  The local daemon's dispatcher (\<^verbatim>\<open>daemon/local/distributed_task_dispatcher.cc\<close>): it takes tasks from
  the clients on its machine and brings each to completion, from the cache, by joining a task that
  already runs in the cluster, or by running it on a servant.

  Every task has a fiber running \<open>PerformOneTask\<close>; \<open>fiber_at\<close> says where the fiber of a task is, and
  each function below takes it from one blocking operation to the next. The calls sent to other
  processes are logged in \<open>dd_calls\<close>, oldest first; their replies are arguments. The kind of task is
  the class \<open>DistributedTask\<close>, whose virtual functions are the fields of \<open>task_ops\<close>. Descriptors are
  shared between the map of tasks, the fibers and the waiters: \<open>dd_descs\<close> holds them by task id, and
  \<open>dd_tasks\<close> the ids that are in the map, in its iteration order.
\<close>

section \<open>Data\<close>

datatype CacheControl = CacheDisallow | CacheAllow | CacheRefill

record DistributedTaskOutput =
  to_exit_code :: int
  to_standard_output :: string
  to_standard_error :: string
  to_extra_info :: bytes
  to_output_files :: "(string \<times> bytes) list"

record 't DistributedTask =
  GetInvokerPid :: "'t \<Rightarrow> int"
  GetCacheSetting :: "'t \<Rightarrow> CacheControl"
  GetCacheKey :: "'t \<Rightarrow> string"
  GetDigest :: "'t \<Rightarrow> string"
  GetEnvironmentDesc :: "'t \<Rightarrow> EnvironmentDesc"
  OnCompletion :: "DistributedTaskOutput \<Rightarrow> 't \<Rightarrow> 't"

datatype TaskState = Pending | ReadyToFire | Dispatched | Done

datatype dispatcher_WaitStatus = WaitTimeout | WaitNotFound

datatype ServantWaitStatus = ServantRunning | ServantRpcError | ServantFailed

text \<open>What the fiber releases when it stops waiting for the servant at a URI: the task on the servant
  whose id is \<open>free_id\<close>, and the grant, if it has one.\<close>

record servant_claim =
  sc_uri :: string
  sc_free_id :: nat
  sc_grant :: "nat option"

datatype fiber_at =
    AtStart
  | AtReadCache
  | AtFindRunning
  | InReferenceTask RunningTaskDesc string
  | AtWaitGrant
  | InGetGrant
  | InStartTask nat string
  | AtWaitServant nat servant_claim
  | InWaitServant nat servant_claim
  | Finished

record 't DistTaskDesc =
  dt_task_id :: nat
  dt_task_type :: string
  dt_task :: "'t option"
  dt_start_deadline :: time_point
  dt_completion_latch :: bool
  dt_aborted :: bool
  dt_started_at :: time_point
  dt_ready_at :: time_point
  dt_dispatched_at :: time_point
  dt_completed_at :: time_point
  dt_output :: DistributedTaskOutput
  dt_state :: TaskState
  dt_task_grant_id :: nat
  dt_servant_location :: string
  dt_servant_task_id :: nat
  dt_last_keep_alive_at :: time_point
  dt_fiber :: fiber_at

datatype daemon_call =
    CallReferenceTask string string nat
  | CallStartTask string string nat
  | CallWaitForCompilationOutput string string nat
  | CallFreeServantTask string string nat
  | CallFreeGrant nat
  | CallKeepTaskGrantsAlive "nat list"

record 't DistributedTaskDispatcher =
  dd_next_id :: nat
  dd_descs :: "nat \<Rightarrow> 't DistTaskDesc option"
  dd_tasks :: "nat list"
  dd_hit_cache :: nat
  dd_reuse_existing_result :: nat
  dd_actually_run :: nat
  dd_config_keeper :: ConfigKeeper
  dd_task_grant_keeper :: TaskGrantKeeper
  dd_running_task_keeper :: RunningTaskKeeper
  dd_calls :: "daemon_call list"

text \<open>The flag \<open>debugging_always_use_servant_at\<close> and Flare's \<open>TryParseKeyedNoncontiguousBuffers\<close>.\<close>

record daemon_env =
  dv_debugging_always_use_servant_at :: string
  dv_TryParseKeyedNoncontiguousBuffers :: "bytes \<Rightarrow> (string \<times> bytes) list option"

datatype wait_reply =
    WaitRpcFailed
  | WaitStatusRunning
  | WaitStatusOther
  | WaitStatusDone int string string bytes bytes

datatype reference_reply = ReferenceFailed | ReferenceNotFound | ReferenceOk

section \<open>Queueing and waiting\<close>

definition send_call :: "daemon_call \<Rightarrow> 't DistributedTaskDispatcher \<Rightarrow> 't DistributedTaskDispatcher" where
  "send_call c s = s\<lparr>dd_calls := dd_calls s @ [c]\<rparr>"

definition servant_uri :: "daemon_env \<Rightarrow> string \<Rightarrow> string" where
  "servant_uri env location =
     (if dv_debugging_always_use_servant_at env = [] then ''flare://'' @ location
      else dv_debugging_always_use_servant_at env)"

definition NextTaskId :: "'t DistributedTaskDispatcher \<Rightarrow> nat \<times> 't DistributedTaskDispatcher" where
  "NextTaskId s = (let n = (dd_next_id s + 1) mod 2 ^ 64 in (n, s\<lparr>dd_next_id := n\<rparr>))"

text \<open>The exit code and the times of a new descriptor are not read before they are written; they are
  \<open>0\<close> here.\<close>

definition new_desc :: "nat \<Rightarrow> string \<Rightarrow> 't \<Rightarrow> time_point \<Rightarrow> time_point \<Rightarrow> 't DistTaskDesc" where
  "new_desc task_id type task start_deadline now =
     \<lparr>dt_task_id = task_id, dt_task_type = type, dt_task = Some task, dt_start_deadline = start_deadline,
      dt_completion_latch = False, dt_aborted = False, dt_started_at = now, dt_ready_at = 0, dt_dispatched_at = 0,
      dt_completed_at = 0,
      dt_output = \<lparr>to_exit_code = 0, to_standard_output = [], to_standard_error = [], to_extra_info = [], to_output_files = []\<rparr>,
      dt_state = Pending, dt_task_grant_id = 0, dt_servant_location = [], dt_servant_task_id = 0,
      dt_last_keep_alive_at = 0, dt_fiber = AtStart\<rparr>"

definition QueueDistributedTask ::
  "time_point \<Rightarrow> string \<Rightarrow> 't \<Rightarrow> time_point \<Rightarrow> 't DistributedTaskDispatcher \<Rightarrow> nat \<times> 't DistributedTaskDispatcher" where
  "QueueDistributedTask now type task start_deadline s =
     (let (task_id, s1) = NextTaskId s
      in (task_id, s1\<lparr>dd_descs := (dd_descs s1)(task_id \<mapsto> new_desc task_id type task start_deadline now),
                     dd_tasks := (if task_id \<in> set (dd_tasks s1) then dd_tasks s1 else dd_tasks s1 @ [task_id])\<rparr>))"

text \<open>The lookup, before the wait on the latch.\<close>

definition WaitForDistributedTask_find :: "string \<Rightarrow> nat \<Rightarrow> 't DistributedTaskDispatcher \<Rightarrow> dispatcher_WaitStatus + nat" where
  "WaitForDistributedTask_find type task_id s =
     (case dd_descs s task_id of
        Some d \<Rightarrow>
          if task_id \<notin> set (dd_tasks s) \<or> dt_task_type d \<noteq> type then Inl WaitNotFound else Inr task_id
      | None \<Rightarrow> Inl WaitNotFound)"

text \<open>After the wait, for the descriptor found before. A task that was moved out already is the null
  pointer, \<open>None\<close>.\<close>

definition WaitForDistributedTask_take ::
  "nat \<Rightarrow> 't DistributedTaskDispatcher \<Rightarrow> (dispatcher_WaitStatus + 't option) \<times> 't DistributedTaskDispatcher" where
  "WaitForDistributedTask_take task_id s =
     (case dd_descs s task_id of
        Some d \<Rightarrow>
          if \<not> dt_completion_latch d then (Inl WaitTimeout, s)
          else (Inr (dt_task d),
                s\<lparr>dd_tasks := remove1 task_id (dd_tasks s), dd_descs := (dd_descs s)(task_id \<mapsto> d\<lparr>dt_task := None\<rparr>)\<rparr>)
      | None \<Rightarrow> (Inl WaitNotFound, s))"

section \<open>Performing a task\<close>

definition TryParseFiles :: "daemon_env \<Rightarrow> bytes \<Rightarrow> (string \<times> bytes) list option" where
  "TryParseFiles env bytes = dv_TryParseKeyedNoncontiguousBuffers env bytes"

text \<open>The fiber ends: the task is told its output and the waiters are woken up.\<close>

definition complete_task :: "'t DistributedTask \<Rightarrow> time_point \<Rightarrow> 't DistTaskDesc \<Rightarrow> 't DistTaskDesc" where
  "complete_task ops now d =
     d\<lparr>dt_task := map_option (OnCompletion ops (dt_output d)) (dt_task d), dt_state := Done, dt_completed_at := now,
       dt_completion_latch := True, dt_fiber := Finished\<rparr>"

definition PerformOneTask_begin :: "'t DistTaskDesc \<Rightarrow> 't DistTaskDesc" where
  "PerformOneTask_begin d = d\<lparr>dt_output := (dt_output d)\<lparr>to_exit_code := -126\<rparr>, dt_fiber := AtReadCache\<rparr>"

text \<open>\<open>cached\<close> is what the distributed cache holds under each key.\<close>

definition TryReadCacheIfAllowed ::
  "'t DistributedTask \<Rightarrow> daemon_env \<Rightarrow> (string \<Rightarrow> daemon_CacheEntry option) \<Rightarrow> 't \<Rightarrow> DistributedTaskOutput option" where
  "TryReadCacheIfAllowed ops env cached task =
     (case (if GetCacheSetting ops task = CacheAllow then cached (GetCacheKey ops task) else None) of
        None \<Rightarrow> None
      | Some cache_entry \<Rightarrow>
          (case TryParseFiles env (de_files cache_entry) of
             None \<Rightarrow> None
           | Some files \<Rightarrow>
               Some \<lparr>to_exit_code = 0, to_standard_output = de_standard_output cache_entry,
                     to_standard_error = de_standard_error cache_entry, to_extra_info = de_extra_info cache_entry,
                     to_output_files = files\<rparr>))"

definition PerformOneTask_cache ::
  "'t DistributedTask \<Rightarrow> daemon_env \<Rightarrow> time_point \<Rightarrow> (string \<Rightarrow> daemon_CacheEntry option) \<Rightarrow>
   't DistTaskDesc \<Rightarrow> 't DistributedTaskDispatcher \<Rightarrow> 't DistTaskDesc \<times> 't DistributedTaskDispatcher" where
  "PerformOneTask_cache ops env now cached d s =
     (case Option.bind (dt_task d) (TryReadCacheIfAllowed ops env cached) of
        Some output \<Rightarrow> (complete_task ops now (d\<lparr>dt_output := output\<rparr>), s\<lparr>dd_hit_cache := dd_hit_cache s + 1\<rparr>)
      | None \<Rightarrow> (d\<lparr>dt_fiber := AtFindRunning\<rparr>, s))"

text \<open>Joining a running task: the call to the servant, then what follows its reply.\<close>

definition TryGetExistingTaskResult_find ::
  "'t DistributedTask \<Rightarrow> daemon_env \<Rightarrow> 't DistTaskDesc \<Rightarrow> 't DistributedTaskDispatcher \<Rightarrow> 't DistTaskDesc \<times> 't DistributedTaskDispatcher" where
  "TryGetExistingTaskResult_find ops env d s =
     (case Option.bind (dt_task d) (\<lambda>t. TryFindTask (GetDigest ops t) (dd_running_task_keeper s)) of
        None \<Rightarrow> (d\<lparr>dt_fiber := AtWaitGrant\<rparr>, s)
      | Some running_task \<Rightarrow>
          (let uri = servant_uri env (rd_servant_location running_task)
           in (d\<lparr>dt_fiber := InReferenceTask running_task uri\<rparr>,
               send_call (CallReferenceTask uri (GetServingDaemonToken (dd_config_keeper s)) (rd_servant_task_id running_task)) s)))"

definition kRpcRetries :: nat where
  "kRpcRetries = 4"

definition TryGetExistingTaskResult_reply ::
  "time_point \<Rightarrow> reference_reply \<Rightarrow> RunningTaskDesc \<Rightarrow> string \<Rightarrow> 't DistTaskDesc \<Rightarrow> 't DistTaskDesc" where
  "TryGetExistingTaskResult_reply now reply running_task uri d =
     (case reply of
        ReferenceOk \<Rightarrow>
          d\<lparr>dt_ready_at := now, dt_last_keep_alive_at := now, dt_task_grant_id := 0,
            dt_servant_location := rd_servant_location running_task, dt_dispatched_at := now, dt_state := Dispatched,
            dt_servant_task_id := rd_servant_task_id running_task,
            dt_fiber := AtWaitServant kRpcRetries \<lparr>sc_uri = uri, sc_free_id = dt_task_id d, sc_grant = None\<rparr>\<rparr>
      | _ \<Rightarrow> d\<lparr>dt_fiber := AtWaitGrant\<rparr>)"

text \<open>Running the task on a servant: waiting for a grant, submitting the task with it.\<close>

definition ready_to_fire ::
  "daemon_env \<Rightarrow> time_point \<Rightarrow> GrantDesc \<Rightarrow> 't DistTaskDesc \<Rightarrow> 't DistributedTaskDispatcher \<Rightarrow> 't DistTaskDesc \<times> 't DistributedTaskDispatcher" where
  "ready_to_fire env now task_grant d s =
     (let uri = servant_uri env (gd_servant_location task_grant)
      in (d\<lparr>dt_ready_at := now, dt_last_keep_alive_at := now, dt_state := ReadyToFire,
            dt_task_grant_id := gd_grant_id task_grant, dt_servant_location := gd_servant_location task_grant,
            dt_fiber := InStartTask (gd_grant_id task_grant) uri\<rparr>,
          send_call (CallStartTask uri (GetServingDaemonToken (dd_config_keeper s)) (gd_grant_id task_grant)) s))"

definition actually_ran ::
  "'t DistributedTask \<Rightarrow> time_point \<Rightarrow> 't DistTaskDesc \<Rightarrow> 't DistributedTaskDispatcher \<Rightarrow> 't DistTaskDesc \<times> 't DistributedTaskDispatcher" where
  "actually_ran ops now d s = (complete_task ops now d, s\<lparr>dd_actually_run := dd_actually_run s + 1\<rparr>)"

definition StartNewServantTask_loop ::
  "'t DistributedTask \<Rightarrow> daemon_env \<Rightarrow> time_point \<Rightarrow> 't DistTaskDesc \<Rightarrow> 't DistributedTaskDispatcher \<Rightarrow> 't DistTaskDesc \<times> 't DistributedTaskDispatcher" where
  "StartNewServantTask_loop ops env now d s =
     (case dt_task d of
        None \<Rightarrow> (d, s)
      | Some t \<Rightarrow>
          if dt_aborted d then actually_ran ops now d s
          else
            (case Get_begin now (GetEnvironmentDesc ops t) (dd_task_grant_keeper s) of
               (Some task_grant, k) \<Rightarrow> ready_to_fire env now task_grant d (s\<lparr>dd_task_grant_keeper := k\<rparr>)
             | (None, k) \<Rightarrow> (d\<lparr>dt_fiber := InGetGrant\<rparr>, s\<lparr>dd_task_grant_keeper := k\<rparr>)))"

text \<open>The wait in \<open>Get\<close> is over. The outer option is its check on the waiters.\<close>

definition StartNewServantTask_got ::
  "'t DistributedTask \<Rightarrow> daemon_env \<Rightarrow> time_point \<Rightarrow> 't DistTaskDesc \<Rightarrow> 't DistributedTaskDispatcher \<Rightarrow>
   ('t DistTaskDesc \<times> 't DistributedTaskDispatcher) option" where
  "StartNewServantTask_got ops env now d s =
     (case dt_task d of
        None \<Rightarrow> None
      | Some t \<Rightarrow>
          map_option
            (\<lambda>(g, k). case g of
                Some task_grant \<Rightarrow> ready_to_fire env now task_grant d (s\<lparr>dd_task_grant_keeper := k\<rparr>)
              | None \<Rightarrow> (d\<lparr>dt_fiber := AtWaitGrant\<rparr>, s\<lparr>dd_task_grant_keeper := k\<rparr>))
            (Get_end (GetEnvironmentDesc ops t) (dd_task_grant_keeper s)))"

definition StartNewServantTask_submitted ::
  "'t DistributedTask \<Rightarrow> time_point \<Rightarrow> nat option \<Rightarrow> nat \<Rightarrow> string \<Rightarrow> 't DistTaskDesc \<Rightarrow> 't DistributedTaskDispatcher \<Rightarrow>
   't DistTaskDesc \<times> 't DistributedTaskDispatcher" where
  "StartNewServantTask_submitted ops now reply grant uri d s =
     (case reply of
        None \<Rightarrow> actually_ran ops now d (send_call (CallFreeGrant grant) s)
      | Some servant_task_id \<Rightarrow>
          (d\<lparr>dt_dispatched_at := now, dt_state := Dispatched, dt_servant_task_id := servant_task_id,
             dt_fiber := AtWaitServant kRpcRetries \<lparr>sc_uri = uri, sc_free_id = servant_task_id, sc_grant = Some grant\<rparr>\<rparr>, s))"

definition WaitServantForTask :: "daemon_env \<Rightarrow> wait_reply \<Rightarrow> ServantWaitStatus + DistributedTaskOutput" where
  "WaitServantForTask env reply =
     (case reply of
        WaitRpcFailed \<Rightarrow> Inl ServantRpcError
      | WaitStatusRunning \<Rightarrow> Inl ServantRunning
      | WaitStatusOther \<Rightarrow> Inl ServantFailed
      | WaitStatusDone exit_code out err extra_info attachment \<Rightarrow>
          if exit_code = 0 then
            (case TryParseFiles env attachment of
               None \<Rightarrow> Inl ServantFailed
             | Some files \<Rightarrow>
                 Inr \<lparr>to_exit_code = exit_code, to_standard_output = out, to_standard_error = err, to_extra_info = extra_info,
                      to_output_files = files\<rparr>)
          else Inr \<lparr>to_exit_code = exit_code, to_standard_output = out, to_standard_error = err, to_extra_info = extra_info,
                    to_output_files = []\<rparr>)"

definition FreeServantTask :: "nat \<Rightarrow> string \<Rightarrow> 't DistributedTaskDispatcher \<Rightarrow> 't DistributedTaskDispatcher" where
  "FreeServantTask servant_task_id uri s =
     send_call (CallFreeServantTask uri (GetServingDaemonToken (dd_config_keeper s)) servant_task_id) s"

text \<open>The wait for the servant is over: the deferred releases run, the innermost first, and the task
  is completed.\<close>

definition leave_servant ::
  "'t DistributedTask \<Rightarrow> time_point \<Rightarrow> servant_claim \<Rightarrow> 't DistTaskDesc \<Rightarrow> 't DistributedTaskDispatcher \<Rightarrow> 't DistTaskDesc \<times> 't DistributedTaskDispatcher" where
  "leave_servant ops now claim d s =
     (let s1 = FreeServantTask (sc_free_id claim) (sc_uri claim) s in
      case sc_grant claim of
        None \<Rightarrow> (complete_task ops now d, s1\<lparr>dd_reuse_existing_result := dd_reuse_existing_result s1 + 1\<rparr>)
      | Some grant \<Rightarrow> actually_ran ops now d (send_call (CallFreeGrant grant) s1))"

text \<open>\<open>while (retries_left-- && !aborted)\<close>, then the call.\<close>

definition WaitServantForTaskWithRetry_loop ::
  "'t DistributedTask \<Rightarrow> time_point \<Rightarrow> nat \<Rightarrow> servant_claim \<Rightarrow> 't DistTaskDesc \<Rightarrow> 't DistributedTaskDispatcher \<Rightarrow>
   't DistTaskDesc \<times> 't DistributedTaskDispatcher" where
  "WaitServantForTaskWithRetry_loop ops now retries_left claim d s =
     (if retries_left = 0 \<or> dt_aborted d then leave_servant ops now claim d s
      else (d\<lparr>dt_fiber := InWaitServant (retries_left - 1) claim\<rparr>,
            send_call (CallWaitForCompilationOutput (sc_uri claim) (GetServingDaemonToken (dd_config_keeper s)) (dt_servant_task_id d)) s))"

definition WaitServantForTaskWithRetry_reply ::
  "'t DistributedTask \<Rightarrow> daemon_env \<Rightarrow> time_point \<Rightarrow> wait_reply \<Rightarrow> nat \<Rightarrow> servant_claim \<Rightarrow> 't DistTaskDesc \<Rightarrow> 't DistributedTaskDispatcher \<Rightarrow>
   't DistTaskDesc \<times> 't DistributedTaskDispatcher" where
  "WaitServantForTaskWithRetry_reply ops env now reply retries_left claim d s =
     (case WaitServantForTask env reply of
        Inl ServantRunning \<Rightarrow> (d\<lparr>dt_fiber := AtWaitServant kRpcRetries claim\<rparr>, s)
      | Inl ServantRpcError \<Rightarrow> (d\<lparr>dt_fiber := AtWaitServant retries_left claim\<rparr>, s)
      | Inl ServantFailed \<Rightarrow> leave_servant ops now claim (d\<lparr>dt_output := (dt_output d)\<lparr>to_exit_code := -125\<rparr>\<rparr>) s
      | Inr output \<Rightarrow> leave_servant ops now claim (d\<lparr>dt_output := output\<rparr>) s)"

section \<open>Timers\<close>

text \<open>A change of every descriptor in the map.\<close>

definition update_tasks :: "('t DistTaskDesc \<Rightarrow> 't DistTaskDesc) \<Rightarrow> 't DistributedTaskDispatcher \<Rightarrow> 't DistributedTaskDispatcher" where
  "update_tasks f s =
     s\<lparr>dd_descs := (\<lambda>id. if id \<in> set (dd_tasks s) then map_option f (dd_descs s id) else dd_descs s id)\<rparr>"

definition dispatcher_OnAbortTimer :: "time_point \<Rightarrow> 't DistributedTaskDispatcher \<Rightarrow> 't DistributedTaskDispatcher" where
  "dispatcher_OnAbortTimer now s = update_tasks (\<lambda>v. if dt_start_deadline v < now then v\<lparr>dt_aborted := True\<rparr> else v) s"

definition needs_keep_alive :: "'t DistTaskDesc \<Rightarrow> bool" where
  "needs_keep_alive v \<longleftrightarrow> (dt_state v = ReadyToFire \<or> dt_state v = Dispatched) \<and> \<not> dt_aborted v"

text \<open>The keep-alive timer up to its call: tasks that were not kept alive for a minute are aborted, the
  others are put into the request. The result pairs the task ids with the grants.\<close>

definition OnKeepAliveTimer_request ::
  "time_point \<Rightarrow> 't DistributedTaskDispatcher \<Rightarrow> (nat \<times> nat) list \<times> 't DistributedTaskDispatcher" where
  "OnKeepAliveTimer_request now s =
     (let late = (\<lambda>v. now - dt_last_keep_alive_at v > seconds 60);
          reqs = concat (map (\<lambda>id. case dd_descs s id of
                    None \<Rightarrow> []
                  | Some v \<Rightarrow> if needs_keep_alive v \<and> \<not> late v then [(dt_task_id v, dt_task_grant_id v)] else []) (dd_tasks s));
          s1 = update_tasks (\<lambda>v. if needs_keep_alive v \<and> late v then v\<lparr>dt_aborted := True\<rparr> else v) s
      in (reqs, if reqs = [] then s1 else send_call (CallKeepTaskGrantsAlive (map snd reqs)) s1))"

text \<open>After the call, made at \<open>now\<close>; \<open>None\<close> is a failed call.\<close>

definition OnKeepAliveTimer_reply ::
  "time_point \<Rightarrow> (nat \<times> nat) list \<Rightarrow> bool list option \<Rightarrow> 't DistributedTaskDispatcher \<Rightarrow> 't DistributedTaskDispatcher" where
  "OnKeepAliveTimer_reply now reqs result s =
     (case result of
        None \<Rightarrow> s
      | Some statuses \<Rightarrow>
          if length statuses \<noteq> length reqs then s
          else
            (let renewed = map (fst \<circ> fst) (filter snd (zip reqs statuses))
             in update_tasks (\<lambda>v. if dt_task_id v \<in> set renewed then v\<lparr>dt_last_keep_alive_at := now\<rparr> else v) s))"

definition dispatcher_OnKillOrphanTimer ::
  "'t DistributedTask \<Rightarrow> (int \<Rightarrow> bool) \<Rightarrow> 't DistributedTaskDispatcher \<Rightarrow> 't DistributedTaskDispatcher" where
  "dispatcher_OnKillOrphanTimer ops IsProcessAlive s =
     update_tasks
       (\<lambda>v. if \<not> dt_aborted v \<and> (case dt_task v of None \<Rightarrow> False | Some t \<Rightarrow> \<not> IsProcessAlive (GetInvokerPid ops t))
             then v\<lparr>dt_aborted := True\<rparr> else v) s"

definition to_be_dropped :: "time_point \<Rightarrow> 't DistTaskDesc \<Rightarrow> bool" where
  "to_be_dropped now v \<longleftrightarrow> dt_state v = Done \<and> (dt_aborted v \<or> dt_completed_at v + seconds 60 < now)"

definition dispatcher_OnCleanupTimer :: "time_point \<Rightarrow> 't DistributedTaskDispatcher \<Rightarrow> 't DistributedTaskDispatcher" where
  "dispatcher_OnCleanupTimer now s =
     s\<lparr>dd_tasks := filter (\<lambda>id. case dd_descs s id of None \<Rightarrow> True | Some v \<Rightarrow> \<not> to_be_dropped now v) (dd_tasks s)\<rparr>"

section \<open>The dispatcher as a state machine\<close>

text \<open>One step of the fiber of a task, on what it waits for. \<open>None\<close>: this is not what the fiber waits
  for (or, for a grant, the check on the waiters fails).\<close>

datatype fiber_input =
    InputRun
  | InputCache "string \<Rightarrow> daemon_CacheEntry option"
  | InputReference reference_reply
  | InputGrant
  | InputStartTask "nat option"
  | InputWait wait_reply

definition fiber_step ::
  "'t DistributedTask \<Rightarrow> daemon_env \<Rightarrow> time_point \<Rightarrow> fiber_input \<Rightarrow> 't DistTaskDesc \<Rightarrow> 't DistributedTaskDispatcher \<Rightarrow>
   ('t DistTaskDesc \<times> 't DistributedTaskDispatcher) option" where
  "fiber_step ops env now i d s =
     (case dt_fiber d of
        AtStart \<Rightarrow> (case i of InputRun \<Rightarrow> Some (PerformOneTask_begin d, s) | _ \<Rightarrow> None)
      | AtReadCache \<Rightarrow> (case i of InputCache cached \<Rightarrow> Some (PerformOneTask_cache ops env now cached d s) | _ \<Rightarrow> None)
      | AtFindRunning \<Rightarrow> (case i of InputRun \<Rightarrow> Some (TryGetExistingTaskResult_find ops env d s) | _ \<Rightarrow> None)
      | InReferenceTask running_task uri \<Rightarrow>
          (case i of InputReference reply \<Rightarrow> Some (TryGetExistingTaskResult_reply now reply running_task uri d, s) | _ \<Rightarrow> None)
      | AtWaitGrant \<Rightarrow> (case i of InputRun \<Rightarrow> Some (StartNewServantTask_loop ops env now d s) | _ \<Rightarrow> None)
      | InGetGrant \<Rightarrow> (case i of InputGrant \<Rightarrow> StartNewServantTask_got ops env now d s | _ \<Rightarrow> None)
      | InStartTask grant uri \<Rightarrow>
          (case i of InputStartTask reply \<Rightarrow> Some (StartNewServantTask_submitted ops now reply grant uri d s) | _ \<Rightarrow> None)
      | AtWaitServant n claim \<Rightarrow> (case i of InputRun \<Rightarrow> Some (WaitServantForTaskWithRetry_loop ops now n claim d s) | _ \<Rightarrow> None)
      | InWaitServant n claim \<Rightarrow>
          (case i of InputWait reply \<Rightarrow> Some (WaitServantForTaskWithRetry_reply ops env now reply n claim d s) | _ \<Rightarrow> None)
      | Finished \<Rightarrow> None)"

definition run_fiber ::
  "'t DistributedTask \<Rightarrow> daemon_env \<Rightarrow> time_point \<Rightarrow> fiber_input \<Rightarrow> nat \<Rightarrow> 't DistributedTaskDispatcher \<Rightarrow> 't DistributedTaskDispatcher option" where
  "run_fiber ops env now i task_id s =
     Option.bind (dd_descs s task_id) (\<lambda>d.
       map_option (\<lambda>(d', s'). s'\<lparr>dd_descs := (dd_descs s')(task_id \<mapsto> d')\<rparr>) (fiber_step ops env now i d s))"

datatype 't dispatcher_event =
    EvQueue time_point string 't time_point
  | EvTake nat
  | EvFiber time_point fiber_input nat
  | EvAbort time_point
  | EvKeepAlive time_point
  | EvKeepAliveReply time_point "(nat \<times> nat) list" "bool list option"
  | EvKillOrphan "int \<Rightarrow> bool"
  | EvCleanup time_point
  | EvConfig "string option"
  | EvRefresh time_point "(string \<times> RunningTaskDesc) list option"
  | EvGrants time_point "(nat \<times> string) list option" string

text \<open>Ids are reused only after \<open>2 ^ 64\<close> tasks, which runs do not reach.\<close>

fun dispatch_event ::
  "'t DistributedTask \<Rightarrow> daemon_env \<Rightarrow> 't dispatcher_event \<Rightarrow> 't DistributedTaskDispatcher \<Rightarrow> 't DistributedTaskDispatcher option" where
  "dispatch_event ops env (EvQueue now type task deadline) s =
     (if dd_next_id s + 1 < 2 ^ 64 then Some (snd (QueueDistributedTask now type task deadline s)) else None)"
| "dispatch_event ops env (EvTake task_id) s = Some (snd (WaitForDistributedTask_take task_id s))"
| "dispatch_event ops env (EvFiber now i task_id) s = run_fiber ops env now i task_id s"
| "dispatch_event ops env (EvAbort now) s = Some (dispatcher_OnAbortTimer now s)"
| "dispatch_event ops env (EvKeepAlive now) s = Some (snd (OnKeepAliveTimer_request now s))"
| "dispatch_event ops env (EvKeepAliveReply now reqs result) s = Some (OnKeepAliveTimer_reply now reqs result s)"
| "dispatch_event ops env (EvKillOrphan alive) s = Some (dispatcher_OnKillOrphanTimer ops alive s)"
| "dispatch_event ops env (EvCleanup now) s = Some (dispatcher_OnCleanupTimer now s)"
| "dispatch_event ops env (EvConfig result) s = Some (s\<lparr>dd_config_keeper := OnFetchConfig result (dd_config_keeper s)\<rparr>)"
| "dispatch_event ops env (EvRefresh now result) s = Some (s\<lparr>dd_running_task_keeper := Refresh now result (dd_running_task_keeper s)\<rparr>)"
| "dispatch_event ops env (EvGrants before result e) s =
     Some (s\<lparr>dd_task_grant_keeper := GrantFetcherProc_end before result e (dd_task_grant_keeper s)\<rparr>)"

definition DistributedTaskDispatcher_ctor :: "time_point \<Rightarrow> string option \<Rightarrow> 't DistributedTaskDispatcher" where
  "DistributedTaskDispatcher_ctor now config =
     \<lparr>dd_next_id = 0, dd_descs = (\<lambda>_. None), dd_tasks = [], dd_hit_cache = 0, dd_reuse_existing_result = 0, dd_actually_run = 0,
      dd_config_keeper = OnFetchConfig config \<lparr>ck_serving_daemon_token = []\<rparr>, dd_task_grant_keeper = TaskGrantKeeper_ctor,
      dd_running_task_keeper = RunningTaskKeeper_ctor now, dd_calls = []\<rparr>"

end
