(* ===== verification/Distributed_Task_Dispatcher_Proofs.thy ===== *)
theory Distributed_Task_Dispatcher_Proofs
  imports Distributed_Task_Dispatcher "HOL-Library.Multiset"
begin

text \<open>
  Correctness of the local daemon's dispatcher. A run is any sequence of events; the invariant ties
  the state of every task to the place of its fiber, the grants taken to the calls that free them,
  and the number of waiters of the grant keeper to the fibers waiting in it.
\<close>

section \<open>The invariant of a descriptor\<close>

fun state_at :: "fiber_at \<Rightarrow> TaskState" where
  "state_at (InStartTask _ _) = ReadyToFire"
| "state_at (AtWaitServant _ _) = Dispatched"
| "state_at (InWaitServant _ _) = Dispatched"
| "state_at Finished = Done"
| "state_at _ = Pending"

text \<open>The grant a fiber holds.\<close>

fun held_grant :: "fiber_at \<Rightarrow> nat option" where
  "held_grant (InStartTask g _) = Some g"
| "held_grant (AtWaitServant _ c) = sc_grant c"
| "held_grant (InWaitServant _ c) = sc_grant c"
| "held_grant _ = None"

definition failed_output :: "int \<Rightarrow> DistributedTaskOutput" where
  "failed_output c = \<lparr>to_exit_code = c, to_standard_output = [], to_standard_error = [], to_extra_info = [], to_output_files = []\<rparr>"

definition desc_ok :: "nat \<Rightarrow> 't DistTaskDesc \<Rightarrow> bool" where
  "desc_ok n d \<longleftrightarrow> dt_task_id d = n \<and> dt_state d = state_at (dt_fiber d)
     \<and> (dt_completion_latch d \<longleftrightarrow> dt_fiber d = Finished) \<and> (dt_task d = None \<longrightarrow> dt_fiber d = Finished)
     \<and> (case dt_fiber d of AtStart \<Rightarrow> dt_output d = failed_output 0 | Finished \<Rightarrow> True | _ \<Rightarrow> dt_output d = failed_output (-126))
     \<and> (case dt_fiber d of
          AtWaitServant _ c \<Rightarrow> if sc_grant c = None then dt_task_grant_id d = 0 \<and> sc_free_id c = n
                               else sc_grant c = Some (dt_task_grant_id d) \<and> sc_free_id c = dt_servant_task_id d
        | InWaitServant _ c \<Rightarrow> if sc_grant c = None then dt_task_grant_id d = 0 \<and> sc_free_id c = n
                               else sc_grant c = Some (dt_task_grant_id d) \<and> sc_free_id c = dt_servant_task_id d
        | InStartTask g _ \<Rightarrow> g = dt_task_grant_id d
        | _ \<Rightarrow> True)"

lemmas fiber_defs = PerformOneTask_begin_def PerformOneTask_cache_def TryGetExistingTaskResult_find_def
  TryGetExistingTaskResult_reply_def StartNewServantTask_loop_def StartNewServantTask_got_def ready_to_fire_def
  StartNewServantTask_submitted_def WaitServantForTaskWithRetry_loop_def WaitServantForTaskWithRetry_reply_def
  leave_servant_def actually_ran_def complete_task_def FreeServantTask_def send_call_def

lemma new_desc_ok: "desc_ok n (new_desc n type t deadline now)"
  by (simp add: desc_ok_def new_desc_def failed_output_def)

lemma desc_ok_update [simp]:
  "desc_ok n (v\<lparr>dt_aborted := b\<rparr>) = desc_ok n v" "desc_ok n (v\<lparr>dt_last_keep_alive_at := t\<rparr>) = desc_ok n v"
  by (simp_all add: desc_ok_def cong: fiber_at.case_cong)

lemma fiber_step_ok:
  assumes "desc_ok n d" "fiber_step ops env now i d s = Some (d', s')"
  shows "desc_ok n d'"
proof (cases "dt_fiber d")
  case AtStart
  with assms show ?thesis by (auto simp: fiber_step_def desc_ok_def fiber_defs failed_output_def split: fiber_input.splits)
next
  case AtReadCache
  with assms show ?thesis by (auto simp: fiber_step_def desc_ok_def fiber_defs split: fiber_input.splits option.splits)
next
  case AtFindRunning
  with assms show ?thesis by (auto simp: fiber_step_def desc_ok_def fiber_defs Let_def split: fiber_input.splits option.splits)
next
  case (InReferenceTask rt uri)
  with assms show ?thesis by (auto simp: fiber_step_def desc_ok_def fiber_defs split: fiber_input.splits reference_reply.splits)
next
  case AtWaitGrant
  with assms show ?thesis
    by (auto simp: fiber_step_def desc_ok_def fiber_defs Let_def split: fiber_input.splits option.splits prod.splits if_splits)
next
  case InGetGrant
  with assms show ?thesis
    by (auto simp: fiber_step_def desc_ok_def fiber_defs Let_def split: fiber_input.splits option.splits prod.splits)
next
  case (InStartTask g uri)
  with assms show ?thesis by (auto simp: fiber_step_def desc_ok_def fiber_defs split: fiber_input.splits option.splits)
next
  case (AtWaitServant m c)
  with assms show ?thesis
    by (auto simp: fiber_step_def desc_ok_def fiber_defs Let_def split: fiber_input.splits option.splits if_splits)
next
  case (InWaitServant m c)
  with assms show ?thesis
    by (auto simp: fiber_step_def desc_ok_def fiber_defs Let_def
        split: fiber_input.splits option.splits sum.splits ServantWaitStatus.splits if_splits)
qed (use assms in \<open>simp add: fiber_step_def\<close>)

section \<open>Grants and waiters\<close>

fun started_grants :: "daemon_call list \<Rightarrow> nat multiset" where
  "started_grants [] = {#}"
| "started_grants (CallStartTask _ _ g # cs) = add_mset g (started_grants cs)"
| "started_grants (_ # cs) = started_grants cs"

fun freed_grants :: "daemon_call list \<Rightarrow> nat multiset" where
  "freed_grants [] = {#}"
| "freed_grants (CallFreeGrant g # cs) = add_mset g (freed_grants cs)"
| "freed_grants (_ # cs) = freed_grants cs"

lemma started_grants_append [simp]: "started_grants (xs @ ys) = started_grants xs + started_grants ys"
  by (induction xs rule: started_grants.induct) auto

lemma freed_grants_append [simp]: "freed_grants (xs @ ys) = freed_grants xs + freed_grants ys"
  by (induction xs rule: freed_grants.induct) auto

definition held_by :: "'t DistTaskDesc option \<Rightarrow> nat multiset" where
  "held_by d = (case Option.bind d (held_grant \<circ> dt_fiber) of None \<Rightarrow> {#} | Some g \<Rightarrow> {#g#})"

definition waits_for :: "'t DistributedTask \<Rightarrow> string \<Rightarrow> 't DistTaskDesc option \<Rightarrow> int" where
  "waits_for ops e d =
     (case d of
        Some v \<Rightarrow> if dt_fiber v = InGetGrant \<and> map_option (\<lambda>t. ed_compiler_digest (GetEnvironmentDesc ops t)) (dt_task v) = Some e then 1 else 0
      | None \<Rightarrow> 0)"

definition waiters_of :: "string \<Rightarrow> TaskGrantKeeper \<Rightarrow> int" where
  "waiters_of e k = (case gk_keepers k e of None \<Rightarrow> 0 | Some p \<Rightarrow> pk_waiters p)"

lemma waiters_keeper_for: "pk_waiters (keeper_for desc k) = waiters_of (ed_compiler_digest desc) k"
  by (simp add: keeper_for_def waiters_of_def split: option.splits)

lemma waiters_set_keeper: "waiters_of e (set_keeper e' p k) = (if e = e' then pk_waiters p else waiters_of e k)"
  by (simp add: waiters_of_def set_keeper_def)

lemma Get_begin_waiters:
  "Get_begin now desc k = (g, k') \<Longrightarrow>
     waiters_of e k' = waiters_of e k + (if g = None \<and> e = ed_compiler_digest desc then 1 else 0)"
  by (auto simp: Get_begin_def Let_def waiters_set_keeper waiters_keeper_for split: list.splits)

lemma Get_end_waiters:
  "Get_end desc k = Some (g, k') \<Longrightarrow> waiters_of e k' = waiters_of e k - (if e = ed_compiler_digest desc then 1 else 0)"
  by (auto simp: Get_end_def Let_def waiters_set_keeper waiters_keeper_for split: list.splits if_splits)

lemma GrantFetcherProc_end_waiters: "waiters_of e (GrantFetcherProc_end before result env k) = waiters_of e k"
  by (auto simp: GrantFetcherProc_end_def waiters_set_keeper split: option.splits) (simp_all add: waiters_of_def)

text \<open>A step of a fiber changes nothing of the shared state but the keeper, the calls and the counters;
  grants that are submitted are held, and those no longer held are freed.\<close>

lemma fiber_step_shared:
  assumes "desc_ok n d" "fiber_step ops env now i d s = Some (d', s')"
  shows "dd_descs s' = dd_descs s" "dd_tasks s' = dd_tasks s" "dd_next_id s' = dd_next_id s"
    "(dt_task d' = None) = (dt_task d = None)" "dt_aborted d' = dt_aborted d"
  using assms(2)
  by (auto simp: fiber_step_def fiber_defs Let_def
      split: fiber_at.splits fiber_input.splits option.splits prod.splits reference_reply.splits if_splits sum.splits ServantWaitStatus.splits)

lemma fiber_step_grants:
  assumes "fiber_step ops env now i d s = Some (d', s')"
  shows "started_grants (dd_calls s') + freed_grants (dd_calls s) + held_by (Some d) =
         started_grants (dd_calls s) + freed_grants (dd_calls s') + held_by (Some d')"
  using assms
  by (auto simp: fiber_step_def fiber_defs Let_def held_by_def
      split: fiber_at.splits fiber_input.splits option.splits prod.splits reference_reply.splits if_splits sum.splits ServantWaitStatus.splits)

lemma fiber_step_waiters:
  assumes "fiber_step ops env now i d s = Some (d', s')"
  shows "waiters_of e (dd_task_grant_keeper s') + waits_for ops e (Some d) =
         waiters_of e (dd_task_grant_keeper s) + waits_for ops e (Some d')"
proof -
  consider "dt_fiber d = AtWaitGrant" | "dt_fiber d = InGetGrant" | "dt_fiber d \<noteq> AtWaitGrant" "dt_fiber d \<noteq> InGetGrant" by blast
  then show ?thesis
  proof cases
    case 1
    show ?thesis
    proof (cases "Get_begin now (GetEnvironmentDesc ops (the (dt_task d))) (dd_task_grant_keeper s)")
      case (Pair g k)
      with 1 assms Get_begin_waiters [OF Pair, of e] show ?thesis
        by (auto simp: fiber_step_def fiber_defs Let_def waits_for_def split: fiber_input.splits option.splits if_splits)
    qed
  next
    case 2
    then obtain t g k where t: "dt_task d = Some t" "Get_end (GetEnvironmentDesc ops t) (dd_task_grant_keeper s) = Some (g, k)"
      "dd_task_grant_keeper s' = k" "dt_fiber d' \<noteq> InGetGrant"
      using assms by (auto simp: fiber_step_def fiber_defs Let_def split: fiber_input.splits option.splits)
    with 2 Get_end_waiters [OF t(2), of e] show ?thesis by (simp add: waits_for_def)
  next
    case 3
    then have "dd_task_grant_keeper s' = dd_task_grant_keeper s" "dt_fiber d' \<noteq> InGetGrant"
      using assms
      by (auto simp: fiber_step_def fiber_defs Let_def
          split: fiber_at.splits fiber_input.splits option.splits prod.splits reference_reply.splits if_splits sum.splits ServantWaitStatus.splits)
    with 3 show ?thesis by (simp add: waits_for_def)
  qed
qed

section \<open>The invariant of the dispatcher\<close>

definition dd_inv :: "'t DistributedTask \<Rightarrow> 't DistributedTaskDispatcher \<Rightarrow> bool" where
  "dd_inv ops s \<longleftrightarrow> (\<forall>n d. dd_descs s n = Some d \<longrightarrow> desc_ok n d \<and> n \<le> dd_next_id s)
     \<and> distinct (dd_tasks s) \<and> (\<forall>n\<in>set (dd_tasks s). \<exists>d. dd_descs s n = Some d \<and> dt_task d \<noteq> None)
     \<and> (\<forall>e. waiters_of e (dd_task_grant_keeper s) = (\<Sum>n\<le>dd_next_id s. waits_for ops e (dd_descs s n)))
     \<and> started_grants (dd_calls s) = freed_grants (dd_calls s) + (\<Sum>n\<le>dd_next_id s. held_by (dd_descs s n))"

lemma dd_invI:
  assumes "\<And>n d. dd_descs s n = Some d \<Longrightarrow> desc_ok n d \<and> n \<le> dd_next_id s" "distinct (dd_tasks s)"
    "\<And>n. n \<in> set (dd_tasks s) \<Longrightarrow> \<exists>d. dd_descs s n = Some d \<and> dt_task d \<noteq> None"
    "\<And>e. waiters_of e (dd_task_grant_keeper s) = (\<Sum>n\<le>dd_next_id s. waits_for ops e (dd_descs s n))"
    "started_grants (dd_calls s) = freed_grants (dd_calls s) + (\<Sum>n\<le>dd_next_id s. held_by (dd_descs s n))"
  shows "dd_inv ops s"
  using assms unfolding dd_inv_def by blast

lemma dd_invD:
  assumes "dd_inv ops s"
  shows "dd_descs s n = Some d \<Longrightarrow> desc_ok n d" "dd_descs s n = Some d \<Longrightarrow> n \<le> dd_next_id s" "distinct (dd_tasks s)"
    "n \<in> set (dd_tasks s) \<Longrightarrow> \<exists>d. dd_descs s n = Some d \<and> dt_task d \<noteq> None"
    "waiters_of e (dd_task_grant_keeper s) = (\<Sum>n\<le>dd_next_id s. waits_for ops e (dd_descs s n))"
    "started_grants (dd_calls s) = freed_grants (dd_calls s) + (\<Sum>n\<le>dd_next_id s. held_by (dd_descs s n))"
  using assms unfolding dd_inv_def by blast+

lemma sum_fun_upd:
  fixes f :: "'a option \<Rightarrow> 'b :: cancel_comm_monoid_add"
  assumes "n \<le> N"
  shows "(\<Sum>m\<le>(N::nat). f ((g(n := x)) m)) + f (g n) = (\<Sum>m\<le>N. f (g m)) + f x"
proof -
  have n: "n \<in> {..N}" using assms by simp
  have "(\<Sum>m\<in>{..N} - {n}. f ((g(n := x)) m)) = (\<Sum>m\<in>{..N} - {n}. f (g m))" by (intro sum.cong) auto
  then show ?thesis using n by (simp add: sum.remove [OF _ n] ac_simps)
qed

lemma sum_fun_extend: "f x = 0 \<Longrightarrow> (\<Sum>m\<le>Suc N. f ((g(Suc N := x)) m)) = (\<Sum>m\<le>N. f (g m))"
proof -
  assume "f x = 0"
  moreover have "(\<Sum>m\<le>N. f ((g(Suc N := x)) m)) = (\<Sum>m\<le>N. f (g m))" by (intro sum.cong) auto
  ultimately show ?thesis by simp
qed

lemma mset_balance:
  assumes "S' + F + H = S + F' + H'" "T' + H = T + H'" "S = F + T"
  shows "S' = F' + (T' :: 'a multiset)"
proof (rule multiset_eqI)
  fix x
  show "count S' x = count (F' + T') x"
    using arg_cong [OF assms(1), of "\<lambda>m. count m x"] arg_cong [OF assms(2), of "\<lambda>m. count m x"] arg_cong [OF assms(3), of "\<lambda>m. count m x"] by simp
qed

lemma run_fiber_inv:
  assumes inv: "dd_inv ops s" and run: "run_fiber ops env now i n s = Some s'"
  shows "dd_inv ops s'"
proof -
  obtain d d' s1 where d: "dd_descs s n = Some d" "fiber_step ops env now i d s = Some (d', s1)"
    "s' = s1\<lparr>dd_descs := (dd_descs s1)(n \<mapsto> d')\<rparr>"
    using run by (auto simp: run_fiber_def bind_eq_Some_conv)
  note ok = dd_invD(1,2) [OF inv d(1)]
  note sh = fiber_step_shared [OF ok(1) d(2)]
  have desc: "dd_descs s' = (dd_descs s)(n \<mapsto> d')" and next_id: "dd_next_id s' = dd_next_id s" using d(3) sh(1,3) by simp_all
  show ?thesis
  proof (rule dd_invI)
    show "desc_ok m v \<and> m \<le> dd_next_id s'" if "dd_descs s' m = Some v" for m v
      using that desc ok fiber_step_ok [OF ok(1) d(2)] dd_invD(1,2) [OF inv, of m v] next_id by (auto split: if_splits)
    show "distinct (dd_tasks s')" using dd_invD(3) [OF inv] d(3) sh(2) by simp
    show "\<exists>v. dd_descs s' m = Some v \<and> dt_task v \<noteq> None" if "m \<in> set (dd_tasks s')" for m
      using dd_invD(4) [OF inv, of m] that d sh(2,4) desc by (cases "m = n") auto
    show "waiters_of e (dd_task_grant_keeper s') = (\<Sum>m\<le>dd_next_id s'. waits_for ops e (dd_descs s' m))" for e
      using fiber_step_waiters [OF d(2), of e] dd_invD(5) [OF inv, of e] sum_fun_upd [OF ok(2), of "waits_for ops e" "dd_descs s" "Some d'"]
        d(1,3) sh(3) desc by simp
    have "(\<Sum>m\<le>dd_next_id s. held_by (dd_descs s' m)) + held_by (Some d) = (\<Sum>m\<le>dd_next_id s. held_by (dd_descs s m)) + held_by (Some d')"
      using sum_fun_upd [OF ok(2), of held_by "dd_descs s" "Some d'"] d(1) desc by simp
    moreover have "dd_next_id s' = dd_next_id s" "dd_calls s' = dd_calls s1" using d(3) sh(3) by simp_all
    ultimately show "started_grants (dd_calls s') = freed_grants (dd_calls s') + (\<Sum>m\<le>dd_next_id s'. held_by (dd_descs s' m))"
      using mset_balance [OF fiber_step_grants [OF d(2)] _ dd_invD(6) [OF inv]] by simp
  qed
qed

lemma update_tasks_inv:
  assumes inv: "dd_inv ops s"
    and f: "\<And>v n. desc_ok n v \<Longrightarrow> desc_ok n (f v)" "\<And>v. dt_fiber (f v) = dt_fiber v" "\<And>v. dt_task (f v) = dt_task v"
  shows "dd_inv ops (update_tasks f s)"
proof -
  let ?s = "update_tasks f s"
  have eq: "waits_for ops e (dd_descs ?s n) = waits_for ops e (dd_descs s n)" "held_by (dd_descs ?s n) = held_by (dd_descs s n)" for e n
    using f(2,3) by (cases "dd_descs s n"; simp add: update_tasks_def waits_for_def held_by_def)+
  have frame: "dd_next_id ?s = dd_next_id s" "dd_tasks ?s = dd_tasks s" "dd_task_grant_keeper ?s = dd_task_grant_keeper s" "dd_calls ?s = dd_calls s"
    by (simp_all add: update_tasks_def)
  show ?thesis
  proof (rule dd_invI)
    show "desc_ok m v \<and> m \<le> dd_next_id ?s" if "dd_descs ?s m = Some v" for m v
      using that dd_invD(1,2) [OF inv, of m] f(1) frame(1) by (auto simp: update_tasks_def split: if_splits)
    show "\<exists>v. dd_descs ?s m = Some v \<and> dt_task v \<noteq> None" if "m \<in> set (dd_tasks ?s)" for m
      using that dd_invD(4) [OF inv, of m] f(3) by (auto simp: update_tasks_def)
  qed (use dd_invD(3,5,6) [OF inv] in \<open>simp_all add: frame eq\<close>)
qed

lemma QueueDistributedTask_inv:
  assumes inv: "dd_inv ops s" and n: "dd_next_id s + 1 < 2 ^ 64"
  shows "dd_inv ops (snd (QueueDistributedTask now type task deadline s))"
proof -
  let ?n = "Suc (dd_next_id s)" and ?d = "new_desc (Suc (dd_next_id s)) type task deadline now"
  have fresh: "dd_descs s ?n = None" using dd_invD(2) [OF inv, of ?n] by (cases "dd_descs s ?n") auto
  then have nt: "?n \<notin> set (dd_tasks s)" using dd_invD(4) [OF inv, of ?n] by auto
  have q: "snd (QueueDistributedTask now type task deadline s) =
      s\<lparr>dd_next_id := ?n, dd_descs := (dd_descs s)(?n \<mapsto> ?d), dd_tasks := dd_tasks s @ [?n]\<rparr>" (is "_ = ?s")
    using n nt by (simp add: QueueDistributedTask_def NextTaskId_def Let_def)
  have z: "waits_for ops e (Some ?d) = 0" "held_by (Some ?d) = {#}" for e by (simp_all add: waits_for_def held_by_def new_desc_def)
  show ?thesis unfolding q
  proof (rule dd_invI)
    show "desc_ok m v \<and> m \<le> dd_next_id ?s" if "dd_descs ?s m = Some v" for m v
      using that dd_invD(1,2) [OF inv, of m v] new_desc_ok by (cases "m = ?n") auto
    show "\<exists>v. dd_descs ?s m = Some v \<and> dt_task v \<noteq> None" if "m \<in> set (dd_tasks ?s)" for m
      using that dd_invD(4) [OF inv, of m] by (cases "m = ?n") (auto simp: new_desc_def)
    show "waiters_of e (dd_task_grant_keeper ?s) = (\<Sum>n\<le>dd_next_id ?s. waits_for ops e (dd_descs ?s n))" for e
      using sum_fun_extend [of "waits_for ops e", OF z(1)] dd_invD(5) [OF inv, of e] by simp
    show "started_grants (dd_calls ?s) = freed_grants (dd_calls ?s) + (\<Sum>n\<le>dd_next_id ?s. held_by (dd_descs ?s n))"
      using sum_fun_extend [of held_by, OF z(2)] dd_invD(6) [OF inv] by simp
  qed (use dd_invD(3) [OF inv] nt in simp)
qed

lemma WaitForDistributedTask_take_inv:
  assumes inv: "dd_inv ops s"
  shows "dd_inv ops (snd (WaitForDistributedTask_take n s))"
proof (cases "\<exists>d. dd_descs s n = Some d \<and> dt_completion_latch d")
  case True
  then obtain d where d: "dd_descs s n = Some d" "dt_completion_latch d" by blast
  note ok = dd_invD(1) [OF inv d(1)]
  then have fin: "dt_fiber d = Finished" using d(2) by (simp add: desc_ok_def)
  let ?d = "d\<lparr>dt_task := None\<rparr>" and ?s = "s\<lparr>dd_tasks := remove1 n (dd_tasks s), dd_descs := (dd_descs s)(n \<mapsto> d\<lparr>dt_task := None\<rparr>)\<rparr>"
  have q: "snd (WaitForDistributedTask_take n s) = ?s" using d by (simp add: WaitForDistributedTask_take_def)
  have eq: "waits_for ops e (dd_descs ?s m) = waits_for ops e (dd_descs s m)" "held_by (dd_descs ?s m) = held_by (dd_descs s m)" for e m
    using d(1) fin by (simp_all add: waits_for_def held_by_def)
  show ?thesis unfolding q
  proof (rule dd_invI)
    show "desc_ok m v \<and> m \<le> dd_next_id ?s" if "dd_descs ?s m = Some v" for m v
      using that dd_invD(1,2) [OF inv, of m] ok fin d(1) by (cases "m = n") (auto simp: desc_ok_def)
    show "\<exists>v. dd_descs ?s m = Some v \<and> dt_task v \<noteq> None" if "m \<in> set (dd_tasks ?s)" for m
      using that dd_invD(3) [OF inv] dd_invD(4) [OF inv, of m] by auto
  qed (use dd_invD(3,5,6) [OF inv] in \<open>simp_all only: eq, simp_all\<close>)
qed (use inv in \<open>auto simp: WaitForDistributedTask_take_def split: option.splits\<close>)

lemma dispatch_event_inv:
  assumes inv: "dd_inv ops s" and ev: "dispatch_event ops env ev s = Some s'"
  shows "dd_inv ops s'"
proof (cases ev)
  case (EvQueue now type task deadline)
  with ev QueueDistributedTask_inv [OF inv] show ?thesis by (auto split: if_splits)
next
  case (EvTake n)
  with ev WaitForDistributedTask_take_inv [OF inv] show ?thesis by auto
next
  case (EvFiber now i n)
  with ev run_fiber_inv [OF inv] show ?thesis by auto
next
  case (EvAbort now)
  with ev show ?thesis by (auto simp: dispatcher_OnAbortTimer_def intro!: update_tasks_inv [OF inv])
next
  case (EvKeepAlive now)
  let ?f = "\<lambda>v. if needs_keep_alive v \<and> now - dt_last_keep_alive_at v > seconds 60 then v\<lparr>dt_aborted := True\<rparr> else v"
  have "dd_inv ops (update_tasks ?f s)" by (rule update_tasks_inv [OF inv]) auto
  then have "dd_inv ops (send_call (CallKeepTaskGrantsAlive gs) (update_tasks ?f s))" for gs by (simp add: dd_inv_def send_call_def)
  with \<open>dd_inv ops (update_tasks ?f s)\<close> ev EvKeepAlive show ?thesis
    by (auto simp: OnKeepAliveTimer_request_def Let_def split: if_splits)
next
  case (EvKeepAliveReply now reqs result)
  with ev inv show ?thesis
    by (auto simp: OnKeepAliveTimer_reply_def Let_def split: option.splits intro!: update_tasks_inv)
next
  case (EvKillOrphan alive)
  with ev show ?thesis by (auto simp: dispatcher_OnKillOrphanTimer_def split: option.splits intro!: update_tasks_inv [OF inv])
next
  case (EvCleanup now)
  with ev inv show ?thesis by (auto simp: dispatcher_OnCleanupTimer_def dd_inv_def)
next
  case (EvGrants before result e)
  with ev inv show ?thesis by (auto simp: dd_inv_def GrantFetcherProc_end_waiters)
qed (use ev inv in \<open>auto simp: dd_inv_def\<close>)

lemma dd_inv_ctor: "dd_inv ops (DistributedTaskDispatcher_ctor now config)"
  by (simp add: dd_inv_def DistributedTaskDispatcher_ctor_def waiters_of_def TaskGrantKeeper_ctor_def waits_for_def held_by_def)

interpretation dist_dispatcher: checked_machine "dispatch_event ops env" "dd_inv ops"
  for ops env by unfold_locales (rule dispatch_event_inv)

abbreviation daemon_run ::
  "'t DistributedTask \<Rightarrow> daemon_env \<Rightarrow> time_point \<Rightarrow> string option \<Rightarrow> 't dispatcher_event list \<Rightarrow> 't DistributedTaskDispatcher option" where
  "daemon_run ops env start config evs \<equiv> run_calls (dispatch_event ops env) evs (DistributedTaskDispatcher_ctor start config)"

lemmas daemon_run_inv = dist_dispatcher.run_calls_inv [OF dd_inv_ctor]

section \<open>Aborted tasks\<close>

text \<open>The steps an aborted task still takes before it is finished, at most.\<close>

fun steps_left :: "fiber_at \<Rightarrow> nat" where
  "steps_left AtStart = 5"
| "steps_left AtReadCache = 4"
| "steps_left AtFindRunning = 3"
| "steps_left (InReferenceTask _ _) = 2"
| "steps_left AtWaitGrant = 1"
| "steps_left InGetGrant = 3"
| "steps_left (InStartTask _ _) = 2"
| "steps_left (AtWaitServant _ _) = 1"
| "steps_left (InWaitServant _ _) = 2"
| "steps_left Finished = 0"

lemma fiber_step_steps_left:
  assumes "desc_ok n d" "dt_aborted d" "fiber_step ops env now i d s = Some (d', s')"
  shows "steps_left (dt_fiber d') < steps_left (dt_fiber d)"
  using assms
  by (auto simp: fiber_step_def fiber_defs Let_def desc_ok_def
      split: fiber_at.splits fiber_input.splits option.splits prod.splits reference_reply.splits if_splits sum.splits ServantWaitStatus.splits)

lemma fiber_step_enabled:
  assumes "desc_ok n d" "dt_fiber d \<noteq> Finished" "dt_fiber d = InGetGrant \<longrightarrow> Get_end (GetEnvironmentDesc ops (the (dt_task d))) (dd_task_grant_keeper s) \<noteq> None"
  shows "\<exists>i d' s'. fiber_step ops env now i d s = Some (d', s')"
proof -
  have t: "dt_task d \<noteq> None" using assms(1,2) by (auto simp: desc_ok_def)
  show ?thesis
  proof (cases "dt_fiber d")
    case (InReferenceTask rt uri)
    then show ?thesis by (intro exI [of _ "InputReference ReferenceOk"]) (simp add: fiber_step_def)
  next
    case InGetGrant
    with assms(3) t show ?thesis
      by (intro exI [of _ InputGrant]) (auto simp: fiber_step_def StartNewServantTask_got_def)
  next
    case (InStartTask g uri)
    then show ?thesis by (intro exI [of _ "InputStartTask None"]) (simp add: fiber_step_def StartNewServantTask_submitted_def actually_ran_def)
  next
    case (InWaitServant m c)
    then show ?thesis
      by (intro exI [of _ "InputWait WaitRpcFailed"]) (simp add: fiber_step_def WaitServantForTaskWithRetry_reply_def WaitServantForTask_def)
  next
    case AtReadCache
    show ?thesis
      by (cases "PerformOneTask_cache ops env now (\<lambda>_. None) d s")
        (intro exI [of _ "InputCache (\<lambda>_. None)"], simp add: fiber_step_def AtReadCache)
  next
    case AtStart
    then show ?thesis by (intro exI [of _ InputRun]) (simp add: fiber_step_def)
  next
    case AtFindRunning
    show ?thesis
      by (cases "TryGetExistingTaskResult_find ops env d s") (intro exI [of _ InputRun], simp add: fiber_step_def AtFindRunning)
  next
    case AtWaitGrant
    show ?thesis
      by (cases "StartNewServantTask_loop ops env now d s") (intro exI [of _ InputRun], simp add: fiber_step_def AtWaitGrant)
  next
    case (AtWaitServant m c)
    show ?thesis
      by (cases "WaitServantForTaskWithRetry_loop ops now m c d s") (intro exI [of _ InputRun], simp add: fiber_step_def AtWaitServant)
  qed (use assms(2) in simp)
qed

text \<open>The check on the number of waiters in \<open>Get\<close> never fails: every waiting fiber is counted.\<close>

lemma Get_end_defined:
  assumes inv: "dd_inv ops s" and d: "dd_descs s n = Some d" "dt_fiber d = InGetGrant" "dt_task d = Some t"
  shows "Get_end (GetEnvironmentDesc ops t) (dd_task_grant_keeper s) \<noteq> None"
proof -
  let ?e = "ed_compiler_digest (GetEnvironmentDesc ops t)"
  have "waits_for ops ?e (dd_descs s n) \<le> (\<Sum>m\<le>dd_next_id s. waits_for ops ?e (dd_descs s m))"
    using dd_invD(2) [OF inv d(1)] by (intro member_le_sum) (auto simp: waits_for_def split: option.splits)
  then have "waiters_of ?e (dd_task_grant_keeper s) \<ge> 1" using d dd_invD(5) [OF inv, of ?e] by (simp add: waits_for_def)
  then show ?thesis by (simp add: Get_end_def Let_def waiters_keeper_for)
qed

lemma run_fiber_enabled:
  assumes inv: "dd_inv ops s" and d: "dd_descs s n = Some d" "dt_fiber d \<noteq> Finished"
  shows "\<exists>i s'. run_fiber ops env now i n s = Some s'"
proof -
  have ok: "desc_ok n d" using dd_invD(1) [OF inv d(1)] .
  have "Get_end (GetEnvironmentDesc ops (the (dt_task d))) (dd_task_grant_keeper s) \<noteq> None" if "dt_fiber d = InGetGrant"
    using Get_end_defined [OF inv d(1) that] ok d(2) by (cases "dt_task d") (auto simp: desc_ok_def)
  then obtain i d' s' where "fiber_step ops env now i d s = Some (d', s')" using fiber_step_enabled [OF ok d(2)] by blast
  with d(1) show ?thesis by (auto simp: run_fiber_def)
qed

fun fiber_event_of :: "nat \<Rightarrow> 't dispatcher_event \<Rightarrow> bool" where
  "fiber_event_of n (EvFiber _ _ m) = (m = n)"
| "fiber_event_of n _ = False"

lemma update_tasks_desc: "dd_descs s n = Some d \<Longrightarrow> dd_descs (update_tasks f s) n = Some (if n \<in> set (dd_tasks s) then f d else d)"
  by (simp add: update_tasks_def)

lemma dispatch_event_steps_left:
  assumes inv: "dd_inv ops s" and d: "dd_descs s n = Some d" "dt_aborted d" and ev: "dispatch_event ops env ev s = Some s'"
  shows "\<exists>d'. dd_descs s' n = Some d' \<and> dt_aborted d' \<and>
     steps_left (dt_fiber d') + (if fiber_event_of n ev then 1 else 0) \<le> steps_left (dt_fiber d)"
proof (cases ev)
  case (EvQueue now type task deadline)
  have "n \<noteq> Suc (dd_next_id s)" using dd_invD(2) [OF inv d(1)] by simp
  with EvQueue ev d show ?thesis by (auto simp: QueueDistributedTask_def NextTaskId_def Let_def split: if_splits)
next
  case (EvTake m)
  with ev d show ?thesis by (auto simp: WaitForDistributedTask_take_def split: option.splits)
next
  case (EvFiber now i m)
  then obtain v v' s1 where v: "dd_descs s m = Some v" "fiber_step ops env now i v s = Some (v', s1)" "s' = s1\<lparr>dd_descs := (dd_descs s1)(m \<mapsto> v')\<rparr>"
    using ev by (auto simp: run_fiber_def bind_eq_Some_conv)
  note ok = dd_invD(1) [OF inv v(1)]
  from fiber_step_shared [OF ok v(2)] have sh: "dd_descs s1 = dd_descs s" "dt_aborted v' = dt_aborted v" by simp_all
  show ?thesis
  proof (cases "m = n")
    case True
    then have "v = d" using v(1) d(1) by simp
    with fiber_step_steps_left [OF ok _ v(2)] d(2) v(3) sh True EvFiber show ?thesis by auto
  qed (use v(3) sh d EvFiber in auto)
next
  case (EvKeepAlive now)
  then show ?thesis using ev d by (auto simp: OnKeepAliveTimer_request_def Let_def send_call_def update_tasks_def split: if_splits)
qed (use ev d in \<open>auto simp: dispatcher_OnAbortTimer_def OnKeepAliveTimer_reply_def dispatcher_OnKillOrphanTimer_def
   dispatcher_OnCleanupTimer_def update_tasks_desc Let_def split: option.splits\<close>)

lemma run_calls_steps_left:
  assumes "dd_inv ops s" "dd_descs s n = Some d" "dt_aborted d" "run_calls (dispatch_event ops env) evs s = Some s'"
  shows "\<exists>d'. dd_descs s' n = Some d' \<and> steps_left (dt_fiber d') + length (filter (fiber_event_of n) evs) \<le> steps_left (dt_fiber d)"
  using assms
proof (induction evs arbitrary: s d)
  case (Cons ev evs)
  then obtain s1 where s1: "dispatch_event ops env ev s = Some s1" "run_calls (dispatch_event ops env) evs s1 = Some s'"
    by (auto split: option.splits)
  from dispatch_event_steps_left [OF Cons.prems(1-3) s1(1)] obtain d1 where
    d1: "dd_descs s1 n = Some d1" "dt_aborted d1" "steps_left (dt_fiber d1) + (if fiber_event_of n ev then 1 else 0) \<le> steps_left (dt_fiber d)" by blast
  from Cons.IH [OF dispatch_event_inv [OF Cons.prems(1) s1(1)] d1(1,2) s1(2)] d1(3) show ?case by auto
qed simp

end
