(* ===== verification/Distributed_Task_Dispatcher_Properties.thy ===== *)
theory Distributed_Task_Dispatcher_Properties
  imports Distributed_Task_Dispatcher_Proofs
begin

text \<open>
  The properties of the local daemon's dispatcher, over every sequence of events: new tasks, waiters,
  the steps of the fibers on any replies, the timers, and the replies of the scheduler.
\<close>

section \<open>A concrete run\<close>

definition demo_task_ops :: "DistributedTaskOutput option DistributedTask" where
  "demo_task_ops =
     \<lparr>GetInvokerPid = (\<lambda>_. 7), GetCacheSetting = (\<lambda>_. CacheAllow), GetCacheKey = (\<lambda>_. ''key''), GetDigest = (\<lambda>_. ''digest''),
      GetEnvironmentDesc = (\<lambda>_. \<lparr>ed_compiler_digest = ''gcc''\<rparr>), OnCompletion = (\<lambda>out _. Some out)\<rparr>"

definition demo_daemon_env :: daemon_env where
  "demo_daemon_env = \<lparr>dv_debugging_always_use_servant_at = [], dv_TryParseKeyedNoncontiguousBuffers = (\<lambda>b. Some [(''.o'', b)])\<rparr>"

abbreviation demo_daemon :: "DistributedTaskOutput option dispatcher_event list \<Rightarrow> DistributedTaskOutput option DistributedTaskDispatcher option" where
  "demo_daemon \<equiv> daemon_run demo_task_ops demo_daemon_env 0 (Some ''tok'')"

text \<open>Task 1 waits for a grant, is submitted with it and waits for the servant.\<close>

definition demo_granted :: "DistributedTaskOutput option dispatcher_event list" where
  "demo_granted =
     [EvQueue (seconds 1) ''cxx'' None (seconds 300), EvFiber (seconds 1) InputRun 1, EvFiber (seconds 1) (InputCache (\<lambda>_. None)) 1,
      EvFiber (seconds 1) InputRun 1, EvFiber (seconds 1) InputRun 1, EvGrants (seconds 1) (Some [(9, ''s1'')]) ''gcc'',
      EvFiber (seconds 2) InputGrant 1, EvFiber (seconds 3) (InputStartTask (Some 77)) 1, EvFiber (seconds 3) InputRun 1]"

text \<open>Task 1 joins task 55 of another servant.\<close>

definition demo_joined :: "DistributedTaskOutput option dispatcher_event list" where
  "demo_joined =
     [EvRefresh 0 (Some [(''digest'', \<lparr>rd_servant_location = ''s2'', rd_servant_task_id = 55\<rparr>)]),
      EvQueue (seconds 1) ''cxx'' None (seconds 300), EvFiber (seconds 1) InputRun 1, EvFiber (seconds 1) (InputCache (\<lambda>_. None)) 1,
      EvFiber (seconds 1) InputRun 1, EvFiber (seconds 1) (InputReference ReferenceOk) 1]"

definition demo_done :: "DistributedTaskOutput option dispatcher_event" where
  "demo_done = EvFiber (seconds 9) (InputWait (WaitStatusDone 0 ''out'' ''err'' [] ''obj'')) 1"

lemma demo_granted_run:
  obtains s d where "demo_daemon demo_granted = Some s" "dd_descs s 1 = Some d" "dt_start_deadline d = seconds 300"
    "dt_fiber d = InWaitServant 3 \<lparr>sc_uri = ''flare://s1'', sc_free_id = 77, sc_grant = Some 9\<rparr>" "dd_tasks s = [1]"
proof -
  have "map_option (\<lambda>s. (map_option (\<lambda>d. (dt_start_deadline d, dt_fiber d)) (dd_descs s 1), dd_tasks s)) (demo_daemon demo_granted) =
      Some (Some (seconds 300, InWaitServant 3 \<lparr>sc_uri = ''flare://s1'', sc_free_id = 77, sc_grant = Some 9\<rparr>), [1])" by code_simp
  then show thesis using that by auto
qed

lemma demo_joined_run:
  obtains s d where "demo_daemon demo_joined = Some s" "dd_descs s 1 = Some d" "dt_state d = Dispatched" "dt_task_grant_id d = 0"
    "dt_fiber d = AtWaitServant 4 \<lparr>sc_uri = ''flare://s2'', sc_free_id = 1, sc_grant = None\<rparr>" "dd_tasks s = [1]" "\<not> dt_aborted d"
    "dt_last_keep_alive_at d = seconds 1" "dt_servant_task_id d = 55"
proof -
  have "map_option (\<lambda>s. (map_option (\<lambda>d. (dt_state d, dt_task_grant_id d, dt_fiber d, dt_aborted d, dt_last_keep_alive_at d, dt_servant_task_id d)) (dd_descs s 1), dd_tasks s))
      (demo_daemon demo_joined) =
      Some (Some (Dispatched, 0, AtWaitServant 4 \<lparr>sc_uri = ''flare://s2'', sc_free_id = 1, sc_grant = None\<rparr>, False, seconds 1, 55), [1])" by code_simp
  then show thesis using that by auto
qed

lemma keep_alive_requested:
  assumes "r \<in> set (fst (OnKeepAliveTimer_request now s))"
  shows "\<exists>k v. k \<in> set (dd_tasks s) \<and> dd_descs s k = Some v \<and> r = (dt_task_id v, dt_task_grant_id v)"
proof -
  obtain k where k: "k \<in> set (dd_tasks s)" "r \<in> set (case dd_descs s k of None \<Rightarrow> []
      | Some v \<Rightarrow> if needs_keep_alive v \<and> \<not> now - dt_last_keep_alive_at v > seconds 60 then [(dt_task_id v, dt_task_grant_id v)] else [])"
    using assms unfolding OnKeepAliveTimer_request_def Let_def fst_conv set_concat set_map by blast
  then show ?thesis by (cases "dd_descs s k") (auto split: if_splits)
qed

section \<open>Properties\<close>

text \<open>C27. The dispatcher's data is well formed after any sequence of events: every task in the map has
  a descriptor of its own id that still owns its task; the state of a descriptor is the one its fiber
  implies, its latch is down exactly when the fiber has finished; and a fiber waiting for a grant is
  never stopped by the check on the number of waiters.\<close>

theorem dispatcher_tasks_well_formed:
  assumes "daemon_run ops env start config evs = Some s"
  shows "distinct (dd_tasks s)
     \<and> (\<forall>n\<in>set (dd_tasks s). \<exists>d. dd_descs s n = Some d \<and> dt_task d \<noteq> None)
     \<and> (\<forall>n d. dd_descs s n = Some d \<longrightarrow>
          dt_task_id d = n \<and> dt_state d = state_at (dt_fiber d) \<and> (dt_completion_latch d \<longleftrightarrow> dt_state d = Done)
          \<and> (dt_fiber d = InGetGrant \<longrightarrow> run_fiber ops env now InputGrant n s \<noteq> None))"
proof -
  have inv: "dd_inv ops s" using daemon_run_inv [OF assms] .
  have "run_fiber ops env now InputGrant n s \<noteq> None" if d: "dd_descs s n = Some d" "dt_fiber d = InGetGrant" for n d
  proof -
    have "desc_ok n d" using dd_invD(1) [OF inv d(1)] .
    with d(2) obtain t where t: "dt_task d = Some t" by (cases "dt_task d") (auto simp: desc_ok_def)
    from Get_end_defined [OF inv d t] d t show ?thesis by (auto simp: run_fiber_def fiber_step_def StartNewServantTask_got_def)
  qed
  moreover have "dt_task_id d = n \<and> dt_state d = state_at (dt_fiber d) \<and> (dt_completion_latch d \<longleftrightarrow> dt_state d = Done)"
    if "dd_descs s n = Some d" for n d
    using dd_invD(1) [OF inv that] by (cases "dt_fiber d") (auto simp: desc_ok_def)
  ultimately show ?thesis using dd_invD(3,4) [OF inv] by blast
qed

theorem dispatcher_tasks_well_formed_witness:
  "\<exists>s d. demo_daemon demo_granted = Some s \<and> dd_descs s 1 = Some d \<and> dt_state d = Dispatched \<and> \<not> dt_completion_latch d"
proof -
  obtain s d where s: "demo_daemon demo_granted = Some s" "dd_descs s 1 = Some d"
    "dt_fiber d = InWaitServant 3 \<lparr>sc_uri = ''flare://s1'', sc_free_id = 77, sc_grant = Some 9\<rparr>" by (rule demo_granted_run)
  from dispatcher_tasks_well_formed [OF s(1)] s show ?thesis by force
qed

text \<open>C28. Every grant is freed exactly once: the grants with which tasks were submitted are those freed
  so far and those still held by a running fiber, each counted with its multiplicity. So no grant is
  freed early or twice, and when all fibers have finished (with or without error) none is left.\<close>

theorem grants_freed_exactly_once:
  assumes "daemon_run ops env start config evs = Some s"
  shows "started_grants (dd_calls s) = freed_grants (dd_calls s) + (\<Sum>n\<le>dd_next_id s. held_by (dd_descs s n))
     \<and> ((\<forall>n d. dd_descs s n = Some d \<longrightarrow> dt_state d = Done) \<longrightarrow> started_grants (dd_calls s) = freed_grants (dd_calls s))"
proof -
  have inv: "dd_inv ops s" using daemon_run_inv [OF assms] .
  have "held_by (dd_descs s n) = {#}" if "\<forall>n d. dd_descs s n = Some d \<longrightarrow> dt_state d = Done" for n
  proof (cases "dd_descs s n")
    case (Some d)
    with that have "dt_state d = Done" by blast
    then show ?thesis using dd_invD(1) [OF inv Some] Some by (cases "dt_fiber d") (auto simp: desc_ok_def held_by_def)
  qed (simp add: held_by_def)
  with dd_invD(6) [OF inv] show ?thesis by simp
qed

theorem grants_freed_exactly_once_witness:
  "\<exists>s. demo_daemon (demo_granted @ [demo_done]) = Some s \<and> started_grants (dd_calls s) = {#9#} \<and> freed_grants (dd_calls s) = {#9#}"
proof -
  have "map_option (\<lambda>s. (dd_next_id s, map_option dt_state (dd_descs s 0), map_option dt_state (dd_descs s 1), dd_calls s)) (demo_daemon (demo_granted @ [demo_done])) =
      Some (1, None, Some Done, [CallStartTask ''flare://s1'' ''tok'' 9, CallWaitForCompilationOutput ''flare://s1'' ''tok'' 77,
            CallFreeServantTask ''flare://s1'' ''tok'' 77, CallFreeGrant 9])" by code_simp
  then obtain s where s: "demo_daemon (demo_granted @ [demo_done]) = Some s" "dd_next_id s = 1"
    "map_option dt_state (dd_descs s 1) = Some Done" "map_option dt_state (dd_descs s 0) = None" "started_grants (dd_calls s) = {#9#}" by auto
  have "dt_state d = Done" if d: "dd_descs s n = Some d" for n d
  proof -
    have "n \<le> 1" using dd_invD(2) [OF daemon_run_inv [OF s(1)] d] s(2) by simp
    with d s(3,4) show ?thesis by (cases n) auto
  qed
  with grants_freed_exactly_once [OF s(1)] s(1,5) show ?thesis by metis
qed

text \<open>A task ends with the output it should have: when its fiber finishes, the task is told the output
  of the cache entry, or of the servant's final reply, or a failure with exit code -126 (never started,
  aborted or the servant cannot be reached) or -125 (unusable reply) and no files.\<close>

theorem completed_output_source:
  assumes "daemon_run ops env start config evs = Some s"
    and "dd_descs s n = Some d" "dt_task d = Some t" "run_fiber ops env now i n s = Some s'" "dd_descs s' n = Some d'" "dt_state d' = Done"
  shows "dt_task d' = Some (OnCompletion ops (dt_output d') t)
     \<and> ((\<exists>cached. i = InputCache cached \<and> TryReadCacheIfAllowed ops env cached t = Some (dt_output d'))
        \<or> (\<exists>reply. i = InputWait reply \<and> WaitServantForTask env reply = Inr (dt_output d'))
        \<or> dt_output d' = failed_output (-126) \<or> dt_output d' = failed_output (-125))"
proof -
  have inv: "dd_inv ops s" using daemon_run_inv [OF assms(1)] .
  note ok = dd_invD(1) [OF inv assms(2)]
  obtain s1 where s1: "fiber_step ops env now i d s = Some (d', s1)"
    using assms(2,4,5) by (auto simp: run_fiber_def)
  have "dt_state d' = state_at (dt_fiber d')" using fiber_step_ok [OF ok s1] by (simp add: desc_ok_def)
  then have fin: "dt_fiber d' = Finished" using assms(6) by (cases "dt_fiber d'") auto
  show ?thesis
  proof (cases "dt_fiber d")
    case AtReadCache
    with s1 fin assms(3) show ?thesis by (auto simp: fiber_step_def fiber_defs split: fiber_input.splits option.splits)
  next
    case (InWaitServant m c)
    with s1 fin assms(3) ok show ?thesis
      by (auto simp: fiber_step_def fiber_defs Let_def desc_ok_def failed_output_def
          split: fiber_input.splits option.splits sum.splits ServantWaitStatus.splits)
  qed (use s1 fin assms(3) ok in \<open>auto simp: fiber_step_def fiber_defs Let_def desc_ok_def
         split: fiber_input.splits option.splits prod.splits reference_reply.splits if_splits\<close>)
qed

theorem completed_output_source_witness:
  "\<exists>s s' d'. demo_daemon demo_granted = Some s
     \<and> run_fiber demo_task_ops demo_daemon_env (seconds 9) (InputWait (WaitStatusDone 0 ''out'' ''err'' [] ''obj'')) 1 s = Some s'
     \<and> dd_descs s' 1 = Some d' \<and> dt_task d' = Some (Some (dt_output d')) \<and> to_output_files (dt_output d') = [(''.o'', ''obj'')]"
proof -
  have "do { s \<leftarrow> demo_daemon demo_granted;
             s' \<leftarrow> run_fiber demo_task_ops demo_daemon_env (seconds 9) (InputWait (WaitStatusDone 0 ''out'' ''err'' [] ''obj'')) 1 s;
             d \<leftarrow> dd_descs s 1; d' \<leftarrow> dd_descs s' 1; Some (dt_task d, dt_state d', to_output_files (dt_output d')) } =
      Some (Some None, Done, [(''.o'', ''obj'')])" by code_simp
  then obtain s s' d d' where s: "demo_daemon demo_granted = Some s" "dd_descs s 1 = Some d" "dt_task d = Some None"
    "run_fiber demo_task_ops demo_daemon_env (seconds 9) (InputWait (WaitStatusDone 0 ''out'' ''err'' [] ''obj'')) 1 s = Some s'"
    "dd_descs s' 1 = Some d'" "dt_state d' = Done" "to_output_files (dt_output d') = [(''.o'', ''obj'')]"
    by (auto simp: bind_eq_Some_conv)
  from completed_output_source [OF s(1-6)] have "dt_task d' = Some (Some (dt_output d'))" by (simp add: demo_task_ops_def)
  with s show ?thesis by blast
qed

text \<open>C29. An aborted task comes to an end: once its flag is set, its fiber takes at most five more steps,
  whatever the other events and replies are; and as long as it has not finished, there is a reply on
  which it takes a step.\<close>

theorem aborted_task_finishes:
  assumes "daemon_run ops env start config evs = Some s" "dd_descs s n = Some d" "dt_aborted d"
    and "run_calls (dispatch_event ops env) evs' s = Some s'"
  shows "length (filter (fiber_event_of n) evs') \<le> 5
     \<and> (\<exists>d'. dd_descs s' n = Some d' \<and> (dt_state d' \<noteq> Done \<longrightarrow> (\<exists>i. run_fiber ops env now i n s' \<noteq> None)))"
proof -
  have inv: "dd_inv ops s" using daemon_run_inv [OF assms(1)] .
  have inv': "dd_inv ops s'" using dist_dispatcher.run_calls_inv [OF inv assms(4)] .
  from run_calls_steps_left [OF inv assms(2-4)] obtain d' where
    d': "dd_descs s' n = Some d'" "steps_left (dt_fiber d') + length (filter (fiber_event_of n) evs') \<le> steps_left (dt_fiber d)" by blast
  have "steps_left (dt_fiber d) \<le> 5" by (cases "dt_fiber d") auto
  moreover have "\<exists>i. run_fiber ops env now i n s' \<noteq> None" if "dt_state d' \<noteq> Done"
  proof -
    have "dt_fiber d' \<noteq> Finished" using that dd_invD(1) [OF inv' d'(1)] by (auto simp: desc_ok_def)
    from run_fiber_enabled [OF inv' d'(1) this, of env now] show ?thesis by auto
  qed
  ultimately show ?thesis using d' by auto
qed

theorem aborted_task_finishes_witness:
  "\<exists>s d s'. demo_daemon (demo_granted @ [EvAbort (seconds 301)]) = Some s \<and> dd_descs s 1 = Some d \<and> dt_aborted d
     \<and> run_calls (dispatch_event demo_task_ops demo_daemon_env) [EvFiber (seconds 302) (InputWait WaitStatusRunning) 1, EvFiber (seconds 302) InputRun 1] s = Some s'
     \<and> (\<exists>d'. dd_descs s' 1 = Some d' \<and> dt_state d' = Done)"
proof -
  have "do { s \<leftarrow> demo_daemon (demo_granted @ [EvAbort (seconds 301)]);
             s' \<leftarrow> run_calls (dispatch_event demo_task_ops demo_daemon_env) [EvFiber (seconds 302) (InputWait WaitStatusRunning) 1, EvFiber (seconds 302) InputRun 1] s;
             d \<leftarrow> dd_descs s 1; d' \<leftarrow> dd_descs s' 1; Some (dt_aborted d, dt_state d') } = Some (True, Done)" by code_simp
  then obtain s s' d d' where s: "demo_daemon (demo_granted @ [EvAbort (seconds 301)]) = Some s" "dd_descs s 1 = Some d" "dt_aborted d"
    "run_calls (dispatch_event demo_task_ops demo_daemon_env) [EvFiber (seconds 302) (InputWait WaitStatusRunning) 1, EvFiber (seconds 302) InputRun 1] s = Some s'"
    "dd_descs s' 1 = Some d'" "dt_state d' = Done" by (auto simp: bind_eq_Some_conv)
  from aborted_task_finishes [OF s(1-4)] s show ?thesis by blast
qed

text \<open>The abort timer also aborts tasks that were started in time: a task that is running on a servant
  when its start deadline passes is aborted by the timer, and when its wait for the servant next returns
  with "still running" it leaves the servant, frees its task there and ends with exit code -126.\<close>

theorem abort_timer_aborts_running_task:
  assumes "daemon_run ops env start config evs = Some s" "n \<in> set (dd_tasks s)" "dd_descs s n = Some d"
    and "dt_fiber d = InWaitServant m c" "dt_start_deadline d < now"
  shows "\<exists>s1 s2 d2. run_fiber ops env t1 (InputWait WaitStatusRunning) n (dispatcher_OnAbortTimer now s) = Some s1
     \<and> run_fiber ops env t2 InputRun n s1 = Some s2 \<and> dd_descs s2 n = Some d2 \<and> dt_state d2 = Done \<and> dt_output d2 = failed_output (-126)
     \<and> CallFreeServantTask (sc_uri c) (GetServingDaemonToken (dd_config_keeper s)) (sc_free_id c) \<in> set (dd_calls s2)"
proof -
  have ok: "desc_ok n d" using dd_invD(1) [OF daemon_run_inv [OF assms(1)] assms(3)] .
  then have out: "dt_output d = failed_output (-126)" using assms(4) by (simp add: desc_ok_def)
  let ?d = "d\<lparr>dt_aborted := True\<rparr>" and ?s = "dispatcher_OnAbortTimer now s"
  have d: "dd_descs ?s n = Some ?d" using assms(2,3,5) by (simp add: dispatcher_OnAbortTimer_def update_tasks_desc)
  have conf: "dd_config_keeper ?s = dd_config_keeper s" by (simp add: dispatcher_OnAbortTimer_def update_tasks_def)
  let ?d1 = "?d\<lparr>dt_fiber := AtWaitServant kRpcRetries c\<rparr>" and ?s1 = "?s\<lparr>dd_descs := (dd_descs ?s)(n \<mapsto> ?d\<lparr>dt_fiber := AtWaitServant kRpcRetries c\<rparr>)\<rparr>"
  have r1: "run_fiber ops env t1 (InputWait WaitStatusRunning) n ?s = Some ?s1"
    using d assms(4) by (simp add: run_fiber_def fiber_step_def WaitServantForTaskWithRetry_reply_def WaitServantForTask_def)
  obtain d2 s2 where l: "leave_servant ops t2 c ?d1 ?s1 = (d2, s2)" by fastforce
  then have d2: "dt_state d2 = Done" "dt_output d2 = failed_output (-126)"
    "CallFreeServantTask (sc_uri c) (GetServingDaemonToken (dd_config_keeper s)) (sc_free_id c) \<in> set (dd_calls s2)"
    using out conf by (auto simp: fiber_defs Let_def split: option.splits)
  have r2: "run_fiber ops env t2 InputRun n ?s1 = Some (s2\<lparr>dd_descs := (dd_descs s2)(n \<mapsto> d2)\<rparr>)"
    using l by (simp add: run_fiber_def fiber_step_def WaitServantForTaskWithRetry_loop_def)
  show ?thesis
    by (rule exI [of _ ?s1], rule exI [of _ "s2\<lparr>dd_descs := (dd_descs s2)(n \<mapsto> d2)\<rparr>"], rule exI [of _ d2]) (use r1 r2 d2 in simp)
qed

theorem abort_timer_aborts_running_task_witness:
  "\<exists>s s1 s2 d2. demo_daemon demo_granted = Some s
     \<and> run_fiber demo_task_ops demo_daemon_env (seconds 302) (InputWait WaitStatusRunning) 1 (dispatcher_OnAbortTimer (seconds 301) s) = Some s1
     \<and> run_fiber demo_task_ops demo_daemon_env (seconds 303) InputRun 1 s1 = Some s2 \<and> dd_descs s2 1 = Some d2 \<and> dt_output d2 = failed_output (-126)"
proof -
  obtain s d where s: "demo_daemon demo_granted = Some s" "dd_descs s 1 = Some d" "dt_start_deadline d = seconds 300"
    "dt_fiber d = InWaitServant 3 \<lparr>sc_uri = ''flare://s1'', sc_free_id = 77, sc_grant = Some 9\<rparr>" "dd_tasks s = [1]" by (rule demo_granted_run)
  have "1 \<in> set (dd_tasks s)" "dt_start_deadline d < seconds 301" using s(3,5) by simp_all
  from abort_timer_aborts_running_task [OF s(1) this(1) s(2,4) this(2)] s(1) show ?thesis by blast
qed



text \<open>A task that joined a running one frees the wrong task when it leaves: the id it sends to the
  servant is its own id in this daemon, not the id of the task it has referenced there.\<close>

theorem joined_task_frees_wrong_id:
  assumes "daemon_run ops env start config evs = Some s" "dd_descs s n = Some d"
    and "dt_fiber d = AtWaitServant m c \<or> dt_fiber d = InWaitServant m c" "sc_grant c = None"
    and "run_fiber ops env now i n s = Some s'" "dd_descs s' n = Some d'" "dt_state d' = Done"
  shows "dd_calls s' = dd_calls s @ [CallFreeServantTask (sc_uri c) (GetServingDaemonToken (dd_config_keeper s)) n]"
proof -
  have inv: "dd_inv ops s" using daemon_run_inv [OF assms(1)] .
  have ok: "desc_ok n d" using dd_invD(1) [OF inv assms(2)] .
  then have g: "sc_free_id c = n" using assms(3,4) by (auto simp: desc_ok_def)
  obtain s1 where s1: "fiber_step ops env now i d s = Some (d', s1)" "dd_calls s' = dd_calls s1" using assms(2,5,6) by (auto simp: run_fiber_def)
  have "dt_state d = Dispatched" using ok assms(3) by (auto simp: desc_ok_def)
  with s1 g assms(3,4,7) show ?thesis
    by (auto simp: fiber_step_def fiber_defs Let_def split: fiber_input.splits if_splits sum.splits ServantWaitStatus.splits)
qed

theorem joined_task_frees_wrong_id_witness:
  "\<exists>s d s'. demo_daemon (demo_joined @ [EvFiber (seconds 2) InputRun 1]) = Some s \<and> dd_descs s 1 = Some d \<and> dt_servant_task_id d = 55
     \<and> dispatch_event demo_task_ops demo_daemon_env demo_done s = Some s' \<and> last (dd_calls s') = CallFreeServantTask ''flare://s2'' ''tok'' 1"
proof -
  have "do { s \<leftarrow> demo_daemon (demo_joined @ [EvFiber (seconds 2) InputRun 1]); s' \<leftarrow> dispatch_event demo_task_ops demo_daemon_env demo_done s;
             d \<leftarrow> dd_descs s 1; d' \<leftarrow> dd_descs s' 1; Some (dt_servant_task_id d, dt_fiber d, dt_state d', ck_serving_daemon_token (dd_config_keeper s)) } =
      Some (55, InWaitServant 3 \<lparr>sc_uri = ''flare://s2'', sc_free_id = 1, sc_grant = None\<rparr>, Done, ''tok'')" by code_simp
  then obtain s s' d d' where s: "demo_daemon (demo_joined @ [EvFiber (seconds 2) InputRun 1]) = Some s" "dd_descs s 1 = Some d"
    "dt_fiber d = InWaitServant 3 \<lparr>sc_uri = ''flare://s2'', sc_free_id = 1, sc_grant = None\<rparr>" "dt_servant_task_id d = 55"
    "dispatch_event demo_task_ops demo_daemon_env demo_done s = Some s'" "dd_descs s' 1 = Some d'" "dt_state d' = Done"
    "ck_serving_daemon_token (dd_config_keeper s) = ''tok''" by (auto simp: bind_eq_Some_conv)
  have run: "run_fiber demo_task_ops demo_daemon_env (seconds 9) (InputWait (WaitStatusDone 0 ''out'' ''err'' [] ''obj'')) 1 s = Some s'"
    using s(5) by (simp add: demo_done_def)
  have "last (dd_calls s') = CallFreeServantTask ''flare://s2'' ''tok'' 1"
    using joined_task_frees_wrong_id [OF s(1,2) disjI2 [OF s(3)] _ run s(6,7)] s(8) by (simp add: GetServingDaemonToken_def)
  with s show ?thesis by blast
qed

end
