(* ===== verification/Distributed_Cache.thy ===== *)
theory Distributed_Cache
  imports Cache_Service_Properties Cache_Format
begin

text \<open>
  The two clients of the cache server: the servant's writer (\<^verbatim>\<open>daemon/cloud/distributed_cache_writer.cc\<close>)
  and the local daemon's reader (\<^verbatim>\<open>daemon/local/distributed_cache_reader.cc\<close>), which keeps a copy of the
  server's Bloom filter. The server is a function argument of the operations that call it: \<open>None\<close> is
  a failed call.
\<close>

section \<open>The writer\<close>

text \<open>The result is what the returned future is going to hold, and the call sent, if one is sent: a
  key and the attachment.\<close>

definition AsyncWrite ::
  "flare \<Rightarrow> proto_ops \<Rightarrow> bool \<Rightarrow> (string \<Rightarrow> bytes \<Rightarrow> bool) \<Rightarrow> nat \<Rightarrow> string \<Rightarrow> daemon_CacheEntry \<Rightarrow> bool \<times> (string \<times> bytes) option" where
  "AsyncWrite fl pb cache_stub PutEntry_call junk key cache_entry =
     (if \<not> cache_stub then (True, None)
      else if de_exit_code cache_entry \<noteq> 0 then (True, None)
      else (let body = WriteCacheEntry fl pb junk cache_entry in (PutEntry_call key body, Some (key, body))))"

section \<open>The reader\<close>

record 'f DistributedCacheReader =
  cr_cache_stub :: bool
  cr_last_bf_full_update :: time_point
  cr_last_bf_update :: time_point
  cr_cache_bf :: 'f

definition TryRead ::
  "flare \<Rightarrow> proto_ops \<Rightarrow> 'f bloom_ops \<Rightarrow> (string \<Rightarrow> bytes option) \<Rightarrow> time_point \<Rightarrow> string \<Rightarrow> 'f DistributedCacheReader \<Rightarrow> daemon_CacheEntry option" where
  "TryRead fl pb bo TryGetEntry_call now key r =
     (if \<not> cr_cache_stub r then None
      else if cr_last_bf_update r + seconds 600 > now \<and> \<not> bf_PossiblyContains bo (cr_cache_bf r) key then None
      else
        (case TryGetEntry_call key of
           None \<Rightarrow> None
         | Some body \<Rightarrow> TryParseCacheEntry fl pb body))"

definition LoadCacheBloomFilter_request :: "string \<Rightarrow> time_point \<Rightarrow> 'f DistributedCacheReader \<Rightarrow> FetchBloomFilterRequest" where
  "LoadCacheBloomFilter_request token now r =
     (if cr_last_bf_full_update r = 0
      then \<lparr>fb_token = token, fb_seconds_since_last_full_fetch = 2147483647, fb_seconds_since_last_fetch = 2147483647\<rparr>
      else \<lparr>fb_token = token,
            fb_seconds_since_last_full_fetch = to_uint32 ((now - cr_last_bf_full_update r) div seconds 1),
            fb_seconds_since_last_fetch = to_uint32 ((now - cr_last_bf_update r) div seconds 1)\<rparr>)"

text \<open>\<open>bf_from\<close> is the constructor of a filter from its bytes.\<close>

definition LoadCacheBloomFilter_reply ::
  "'f bloom_ops \<Rightarrow> (bytes \<Rightarrow> nat \<Rightarrow> 'f) \<Rightarrow> (bytes \<Rightarrow> bytes option) \<Rightarrow> time_point \<Rightarrow> FetchBloomFilterResponse option \<Rightarrow>
   'f DistributedCacheReader \<Rightarrow> 'f DistributedCacheReader" where
  "LoadCacheBloomFilter_reply bo bf_from decompress now result r =
     (case result of
        None \<Rightarrow> r
      | Some (IncrementalKeys keys) \<Rightarrow>
          r\<lparr>cr_last_bf_update := now, cr_cache_bf := fold (\<lambda>e f. bf_Add bo f e) keys (cr_cache_bf r)\<rparr>
      | Some (FullFilter hashes attached) \<Rightarrow>
          (let r1 = r\<lparr>cr_last_bf_full_update := now, cr_last_bf_update := now\<rparr> in
           case decompress attached of
             None \<Rightarrow> r1
           | Some bytes \<Rightarrow>
               if and (length bytes) (length bytes - 1) \<noteq> 0 then r1
               else r1\<lparr>cr_cache_bf := bf_from bytes hashes\<rparr>))"

text \<open>The constructor, with the reply to its first load.\<close>

definition DistributedCacheReader_ctor ::
  "'f bloom_ops \<Rightarrow> (bytes \<Rightarrow> nat \<Rightarrow> 'f) \<Rightarrow> (bytes \<Rightarrow> bytes option) \<Rightarrow> string \<Rightarrow> time_point \<Rightarrow> time_point \<Rightarrow>
   FetchBloomFilterResponse option \<Rightarrow> 'f DistributedCacheReader" where
  "DistributedCacheReader_ctor bo bf_from decompress cache_server_uri now later result =
     (let r = \<lparr>cr_cache_stub = (cache_server_uri \<noteq> []), cr_last_bf_full_update = 0, cr_last_bf_update = 0, cr_cache_bf = bf_new bo 1000 100\<rparr>
      in if cache_server_uri = [] then r
         else (LoadCacheBloomFilter_reply bo bf_from decompress now result r)
                \<lparr>cr_last_bf_full_update := later, cr_last_bf_update := later\<rparr>)"

section \<open>Lemmas\<close>

lemma AsyncWrite_sent:
  "AsyncWrite fl pb stub call junk key e = (ok, Some (k, body)) \<Longrightarrow> k = key \<and> body = WriteCacheEntry fl pb junk e \<and> de_exit_code e = 0"
  by (auto simp: AsyncWrite_def Let_def split: if_splits)

text \<open>When the first load fails, the reader believes its empty filter for ten minutes: no cached result
  is found until the key is announced anew.\<close>

lemma reader_failed_first_load:
  assumes "\<not> bf_PossiblyContains bo (bf_new bo 1000 100) key" "now < later + seconds 600"
  shows "TryRead fl pb bo call now key (DistributedCacheReader_ctor bo bf_from decompress uri start later None) = None"
  using assms by (cases "uri = []") (simp_all add: TryRead_def DistributedCacheReader_ctor_def LoadCacheBloomFilter_reply_def Let_def)

lemma reader_incremental:
  assumes "bloom_laws bo" "k \<in> set keys \<or> bf_PossiblyContains bo (cr_cache_bf r) k"
  shows "bf_PossiblyContains bo (cr_cache_bf (LoadCacheBloomFilter_reply bo bf_from decompress now (Some (IncrementalKeys keys)) r)) k"
  using fold_bf_Add [OF assms] by (simp add: LoadCacheBloomFilter_reply_def)

section \<open>From writer to reader\<close>

text \<open>The server as the reader sees it: the attachment of a successful \<open>TryGetEntry\<close>.\<close>

definition server_lookup ::
  "double_ops \<Rightarrow> ('e, 's) CacheEngine \<Rightarrow> 'e \<Rightarrow> string \<Rightarrow> ('s, 'f) CacheServiceImpl \<Rightarrow> string \<Rightarrow> bytes option" where
  "server_lookup dbl eng e token s key = (case TryGetEntry dbl eng e token key s of Some (Inr b, _) \<Rightarrow> Some b | _ \<Rightarrow> None)"

lemma server_lookup_written:
  assumes "flare_strings fl" "options_ok options" "workspace_ok fl options fs" "bloom_laws bo"
    and "cache_server_start fl dbl bo flags options fs start = Some r0"
    and "service_reach dbl (DiskCacheEngine fl dbl) bo compress r0 r" "sr_fits r"
    and "server_lookup dbl (DiskCacheEngine fl dbl) e token (sr_service r) key = Some b"
  shows "sr_written r key = Some b"
proof -
  have inv: "disk_engine.run_inv fl bo r" using server_run_inv [OF assms(6,1-5)] assms(4) .
  obtain s' where "TryGetEntry dbl (DiskCacheEngine fl dbl) e token key (sr_service r) = Some (Inr b, s')"
    using assms(8) by (auto simp: server_lookup_def split: option.splits prod.splits sum.splits)
  then have "disk_engine.holds fl (sr_service r) key b"
    using disk_engine.TryGetEntry_ok [OF disk_engine.run_invD(1) [OF inv], of dbl dbl e token key] by auto
  from disk_engine.run_invD(6) [OF inv this assms(7)] show ?thesis .
qed

text \<open>A self-delimiting encoding of strings and integers, as an instance of the serialisation.\<close>

fun enc_string :: "string \<Rightarrow> bytes" where
  "enc_string [] = ''.''"
| "enc_string (c # s) = CHR ''+'' # c # enc_string s"

fun dec_string :: "bytes \<Rightarrow> (string \<times> bytes) option" where
  "dec_string (a # bs) =
     (if a = CHR ''.'' then Some ([], bs)
      else case bs of [] \<Rightarrow> None | c # bs' \<Rightarrow> map_option (\<lambda>(s, r). (c # s, r)) (dec_string bs'))"
| "dec_string [] = None"

lemma dec_enc_string [simp]: "dec_string (enc_string s @ r) = Some (s, r)"
  by (induction s) auto

definition enc_int :: "int \<Rightarrow> bytes" where
  "enc_int i = enc_string ((if i < 0 then CHR ''-'' else CHR ''+'') # replicate (nat (abs i)) CHR ''1'')"

definition dec_int :: "string \<Rightarrow> int" where
  "dec_int s = (case s of [] \<Rightarrow> 0 | c # r \<Rightarrow> if c = CHR ''-'' then - int (length r) else int (length r))"

definition demo_proto :: proto_ops where
  "demo_proto =
     \<lparr>pb_SerializeCacheMeta = (\<lambda>m. enc_int (cm_exit_code m) @ enc_string (cm_standard_output m) @ enc_string (cm_standard_error m)
            @ enc_string (cm_extra_info m) @ enc_string (cm_files_digest m)),
      pb_ParseCacheMeta = (\<lambda>b. do {
            (code, b1) \<leftarrow> dec_string b;
            (out, b2) \<leftarrow> dec_string b1;
            (err, b3) \<leftarrow> dec_string b2;
            (extra, b4) \<leftarrow> dec_string b3;
            (digest, b5) \<leftarrow> dec_string b4;
            Some \<lparr>cm_exit_code = dec_int code, cm_standard_output = out, cm_standard_error = err, cm_extra_info = extra, cm_files_digest = digest\<rparr>
          })\<rparr>"

lemma proto_meta_demo: "proto_meta demo_proto"
proof -
  have "dec_string (enc_string s) = Some (s, [])" for s using dec_enc_string [of s "[]"] by simp
  then show ?thesis by (simp add: proto_meta_def demo_proto_def enc_int_def dec_int_def)
qed

definition demo_entry :: daemon_CacheEntry where
  "demo_entry = \<lparr>de_exit_code = 0, de_standard_output = ''o'', de_standard_error = [], de_extra_info = [], de_files = ''f''\<rparr>"

abbreviation demo_body :: bytes where
  "demo_body \<equiv> WriteCacheEntry demo_flare demo_proto 0 demo_entry"

definition demo_reader :: "string list DistributedCacheReader" where
  "demo_reader = \<lparr>cr_cache_stub = True, cr_last_bf_full_update = seconds 205, cr_last_bf_update = seconds 205, cr_cache_bf = [''k'']\<rparr>"

abbreviation large_server :: "(DiskCache, string list) service_run option" where
  "large_server \<equiv> cache_server_start demo_flare exact_double list_bloom (demo_server_flags\<lparr>cf_max_in_memory_cache_size := ''1000''\<rparr>)
     demo_disk_options demo_disk_fs (seconds 100)"

lemma demo_cache_run:
  obtains r0 s1 where "large_server = Some r0" "sr_clock r0 = seconds 100" "sr_fits r0"
    "demo_put demo_body (sr_service r0) = Some (Inr (), s1)" "length demo_body \<le> im_max_size_in_bytes (cs_in_memory_cache (sr_service r0))"
    "TryRead demo_flare demo_proto list_bloom (server_lookup exact_double demo_engine demo_env ''user'' s1) (seconds 210) ''k'' demo_reader = Some demo_entry"
proof -
  have "do { r0 \<leftarrow> large_server; (x, s1) \<leftarrow> demo_put demo_body (sr_service r0);
             Some (x, sr_clock r0, sr_fits r0, length demo_body \<le> im_max_size_in_bytes (cs_in_memory_cache (sr_service r0)),
                   TryRead demo_flare demo_proto list_bloom (server_lookup exact_double demo_engine demo_env ''user'' s1) (seconds 210) ''k'' demo_reader) }
      = Some (Inr (), seconds 100, True, True, Some demo_entry)" by code_simp
  then show thesis by (auto simp: bind_eq_Some_conv intro: that)
qed

section \<open>Properties\<close>



end
