(* ===== verification/Cos_Cache_Engine.thy ===== *)
theory Cos_Cache_Engine
  imports Parse_Size Flare_Api
begin

text \<open>
  The cache engine that keeps its entries in an object storage service (\<^verbatim>\<open>cache/cos_cache_engine.cc\<close>). The
  client of the service is a record of requests on the state of the service, which may answer with a
  failure at any time; \<open>None\<close> is an abort of the process or an enumeration that does not end.
\<close>

section \<open>The service\<close>

record listed_object =
  lo_key :: string
  lo_size :: nat
  lo_last_modified :: string

record bucket_page =
  bp_contents :: "listed_object list"
  bp_next_marker :: string
  bp_is_truncated :: bool

record 'b cos_client =
  cc_Get :: "string \<Rightarrow> 'b \<Rightarrow> bytes option \<times> 'b"
  cc_Put :: "string \<Rightarrow> bytes \<Rightarrow> 'b \<Rightarrow> bool \<times> 'b"
  cc_Delete :: "string list \<Rightarrow> 'b \<Rightarrow> bool \<times> 'b"
  cc_List :: "string \<Rightarrow> string \<Rightarrow> 'b \<Rightarrow> bucket_page option \<times> 'b"

record CosEntryDesc =
  en_key :: string
  en_timestamp :: int
  en_size :: nat

text \<open>Flare's strings, its parser of 32-bit numbers, the flag for the directory, the offset of the time zone,
  the service, and the order \<open>std::sort\<close> takes entries of the same time in.\<close>

record 'b cos_env =
  cv_flare :: flare
  cv_TryParse_uint32 :: "string \<Rightarrow> nat option"
  cv_dir :: string
  cv_time_zone :: int
  cv_client :: "'b cos_client"
  cv_ties :: "CosEntryDesc list \<Rightarrow> CosEntryDesc list"

section \<open>Names and times\<close>

abbreviation kSubDirs :: nat where "kSubDirs \<equiv> 128"

definition MakeObjectKey :: "'b cos_env \<Rightarrow> string \<Rightarrow> string" where
  "MakeObjectKey env key = cv_dir env @ ''/'' @ to_string (fl_XXH64 (cv_flare env) key mod kSubDirs) @ ''/'' @ key"

text \<open>\<open>mktime\<close>: broken-down time, whose month counts from 0 and whose year counts from 1900, to seconds.\<close>

record broken_down_time =
  tm_sec :: int
  tm_min :: int
  tm_hour :: int
  tm_mday :: int
  tm_mon :: int
  tm_year :: int

definition leap_years_until :: "int \<Rightarrow> int" where
  "leap_years_until y = y div 4 - y div 100 + y div 400"

definition is_leap_year :: "int \<Rightarrow> bool" where
  "is_leap_year y \<longleftrightarrow> y mod 4 = 0 \<and> (y mod 100 \<noteq> 0 \<or> y mod 400 = 0)"

definition days_before_month :: "int \<Rightarrow> int \<Rightarrow> int" where
  "days_before_month y m =
     [0, 31, 59, 90, 120, 151, 181, 212, 243, 273, 304, 334] ! nat m + (if m \<ge> 2 \<and> is_leap_year y then 1 else 0)"

definition mktime :: "int \<Rightarrow> broken_down_time \<Rightarrow> int" where
  "mktime time_zone t =
     (let y = 1900 + tm_year t + tm_mon t div 12; m = tm_mon t mod 12;
          days = 365 * (y - 1970) + leap_years_until (y - 1) - leap_years_until 1969 + days_before_month y m + tm_mday t - 1
      in days * 86400 + tm_hour t * 3600 + tm_min t * 60 + tm_sec t - time_zone)"

text \<open>The clock counts nanoseconds in a signed 64-bit integer. The product is not checked: it wraps around.\<close>

definition from_time_t :: "int \<Rightarrow> int" where
  "from_time_t t = (t * 10 ^ 9 + 2 ^ 63) mod 2 ^ 64 - 2 ^ 63"

definition FromIso8601Timestamp :: "'b cos_env \<Rightarrow> string \<Rightarrow> int option" where
  "FromIso8601Timestamp env str =
     (if length str \<noteq> length ''2020-12-10T03:37:30.000Z'' then None
      else
        (let field = (\<lambda>offset n. cv_TryParse_uint32 env (take n (drop offset str))) in
         case (field 0 4, field 5 2, field 8 2, field 11 2, field 14 2, field 17 2) of
           (Some y, Some mon, Some d, Some h, Some mi, Some s) \<Rightarrow>
             Some (from_time_t (mktime (cv_time_zone env)
               \<lparr> tm_sec = int s, tm_min = int mi, tm_hour = int h, tm_mday = int d, tm_mon = int mon, tm_year = int y \<rparr>))
         | _ \<Rightarrow> None))"

section \<open>The engine\<close>

record 'b CosCacheEngine =
  cx_capacity :: nat
  cx_client :: 'b
  cx_pending_removal :: "string list"

definition CosCacheEngine_ctor :: "'b cos_env \<Rightarrow> bool \<Rightarrow> string \<Rightarrow> 'b \<Rightarrow> 'b CosCacheEngine option" where
  "CosCacheEngine_ctor env opened capacity_flag service =
     (if \<not> opened then None
      else case TryParseSize (cv_flare env) capacity_flag of
             Some (Some sz) \<Rightarrow> Some \<lparr> cx_capacity = sz, cx_client = service, cx_pending_removal = [] \<rparr>
           | _ \<Rightarrow> None)"

definition cos_TryGet :: "'b cos_env \<Rightarrow> string \<Rightarrow> 'b CosCacheEngine \<Rightarrow> bytes option \<times> 'b CosCacheEngine" where
  "cos_TryGet env key s =
     (let (result, b) = cc_Get (cv_client env) (MakeObjectKey env key) (cx_client s) in (result, s\<lparr>cx_client := b\<rparr>))"

definition cos_Put :: "'b cos_env \<Rightarrow> string \<Rightarrow> bytes \<Rightarrow> 'b CosCacheEngine \<Rightarrow> 'b CosCacheEngine" where
  "cos_Put env key data s = s\<lparr>cx_client := snd (cc_Put (cv_client env) (MakeObjectKey env key) data (cx_client s))\<rparr>"

abbreviation kBatchSize :: nat where "kBatchSize \<equiv> 1000"

function purge_batches :: "string list \<Rightarrow> string list list" where
  "purge_batches keys = (if keys = [] then [] else take kBatchSize keys # purge_batches (drop kBatchSize keys))"
  by pat_completeness auto
termination
  by (relation "measure length") auto

declare purge_batches.simps [simp del]

definition cos_Purge :: "'b cos_env \<Rightarrow> 'b CosCacheEngine \<Rightarrow> 'b CosCacheEngine" where
  "cos_Purge env s =
     s\<lparr>cx_pending_removal := [],
       cx_client := fold (\<lambda>keys b. snd (cc_Delete (cv_client env) (map (MakeObjectKey env) keys) b))
                      (purge_batches (cx_pending_removal s)) (cx_client s)\<rparr>"

text \<open>A page of the listing, requested again up to three times.\<close>

fun list_retrying :: "'b cos_env \<Rightarrow> nat \<Rightarrow> string \<Rightarrow> string \<Rightarrow> 'b \<Rightarrow> bucket_page option \<times> 'b" where
  "list_retrying env retries marker subdir b =
     (case cc_List (cv_client env) marker subdir b of
        (Some page, b) \<Rightarrow> (Some page, b)
      | (None, b) \<Rightarrow> (case retries of 0 \<Rightarrow> (None, b) | Suc n \<Rightarrow> list_retrying env n marker subdir b))"

text \<open>An object outside the directory leaves an empty entry behind.\<close>

definition read_entry :: "'b cos_env \<Rightarrow> string \<Rightarrow> listed_object \<Rightarrow> CosEntryDesc" where
  "read_entry env subdir e =
     (if \<not> fl_StartsWith (cv_flare env) (lo_key e) subdir then \<lparr> en_key = [], en_timestamp = 0, en_size = 0 \<rparr>
      else \<lparr> en_key = drop (length subdir) (lo_key e),
             en_timestamp = (case FromIso8601Timestamp env (lo_last_modified e) of Some t \<Rightarrow> t | None \<Rightarrow> 0),
             en_size = lo_size e \<rparr>)"

abbreviation kMaxEntries :: nat where "kMaxEntries \<equiv> 1048576"

partial_function (option) GetEntriesIn_loop :: "'b cos_env \<Rightarrow> string \<Rightarrow> string \<Rightarrow> CosEntryDesc list \<Rightarrow> 'b \<Rightarrow> (CosEntryDesc list \<times> 'b) option" where
  "GetEntriesIn_loop env subdir marker entries b =
     (let r = list_retrying env 3 marker subdir b in
      case fst r of
        None \<Rightarrow> Some (entries, snd r)
      | Some page \<Rightarrow>
          (let entries' = entries @ map (read_entry env subdir) (bp_contents page) in
           if length entries' > kMaxEntries \<or> \<not> bp_is_truncated page then Some (entries', snd r)
           else GetEntriesIn_loop env subdir (bp_next_marker page) entries' (snd r)))"

definition GetEntriesIn :: "'b cos_env \<Rightarrow> string \<Rightarrow> 'b \<Rightarrow> (CosEntryDesc list \<times> 'b) option" where
  "GetEntriesIn env subdir b = GetEntriesIn_loop env subdir [] [] b"

definition cos_subdir :: "'b cos_env \<Rightarrow> nat \<Rightarrow> string" where
  "cos_subdir env i = cv_dir env @ ''/'' @ to_string i @ ''/''"

text \<open>The directories are listed concurrently; their results are merged in order.\<close>

fun GetEntries_dirs :: "'b cos_env \<Rightarrow> nat list \<Rightarrow> 'b \<Rightarrow> (CosEntryDesc list \<times> 'b) option" where
  "GetEntries_dirs env [] b = Some ([], b)"
| "GetEntries_dirs env (i # is) b =
     (case GetEntriesIn env (cos_subdir env i) b of
        None \<Rightarrow> None
      | Some (es, b) \<Rightarrow> map_option (\<lambda>(es', b). (es @ es', b)) (GetEntries_dirs env is b))"

text \<open>What is left of the entries, newest first, when the capacity has been used up.\<close>

fun over_capacity :: "nat \<Rightarrow> CosEntryDesc list \<Rightarrow> nat \<Rightarrow> CosEntryDesc list" where
  "over_capacity capacity [] total_size = []"
| "over_capacity capacity (e # es) total_size =
     (if total_size < capacity then over_capacity capacity es ((total_size + en_size e) mod 2 ^ 64) else e # es)"

text \<open>\<open>std::sort\<close> gives the latest entries first; it does not say how it orders entries of the same time.\<close>

definition sort_entries :: "'b cos_env \<Rightarrow> CosEntryDesc list \<Rightarrow> CosEntryDesc list" where
  "sort_entries env merged = sort_key (\<lambda>e. - en_timestamp e) (cv_ties env merged)"

definition GetEntries :: "'b cos_env \<Rightarrow> 'b CosCacheEngine \<Rightarrow> (CosEntryDesc list \<times> 'b CosCacheEngine) option" where
  "GetEntries env s =
     (case GetEntries_dirs env [0..<kSubDirs] (cx_client s) of
        None \<Rightarrow> None
      | Some (merged, b) \<Rightarrow>
          (let sorted = sort_entries env merged
           in Some (sorted, s\<lparr>cx_client := b,
                cx_pending_removal := cx_pending_removal s @ map en_key (over_capacity (cx_capacity s) sorted 0)\<rparr>)))"

definition cos_GetKeys :: "'b cos_env \<Rightarrow> 'b CosCacheEngine \<Rightarrow> (string list \<times> 'b CosCacheEngine) option" where
  "cos_GetKeys env s = map_option (\<lambda>(entries, s). (map en_key entries, s)) (GetEntries env s)"

text \<open>The number of entries and their total size.\<close>

definition cos_DumpInternals :: "'b cos_env \<Rightarrow> 'b CosCacheEngine \<Rightarrow> ((nat \<times> nat) \<times> 'b CosCacheEngine) option" where
  "cos_DumpInternals env s =
     map_option (\<lambda>(entries, s). ((length entries, sum_list (map en_size entries) mod 2 ^ 64), s)) (GetEntries env s)"

section \<open>Keys of objects\<close>

lemma no_slash_in_to_string: "CHR ''/'' \<notin> set (to_string n)"
  using digit_value_to_string [of "CHR ''/''" n] by (auto simp: digit_value_def)

lemma takeWhile_to_string: "takeWhile (\<lambda>c. c \<noteq> CHR ''/'') (to_string n @ CHR ''/'' # t) = to_string n"
  using no_slash_in_to_string [of n] by (subst takeWhile_append2) auto

lemma directory_of_key:
  "to_string m @ CHR ''/'' # s = to_string n @ CHR ''/'' # t \<longleftrightarrow> m = n \<and> s = t"
proof
  assume eq: "to_string m @ CHR ''/'' # s = to_string n @ CHR ''/'' # t"
  then have "to_string m = to_string n" by (metis takeWhile_to_string)
  with eq show "m = n \<and> s = t" using to_string_inject by simp
qed simp

lemma MakeObjectKey_eq_iff [simp]: "MakeObjectKey env k = MakeObjectKey env l \<longleftrightarrow> k = l"
  by (simp add: MakeObjectKey_def directory_of_key) auto

lemma MakeObjectKey_in_subdir:
  "MakeObjectKey env key = cos_subdir env (fl_XXH64 (cv_flare env) key mod kSubDirs) @ key"
  by (simp add: MakeObjectKey_def cos_subdir_def)

section \<open>What the service promises\<close>

text \<open>
  \<open>objects\<close> reads the bucket from the state of the service. A request that fails may or may not have
  taken effect; no request touches an object it does not name.
\<close>

definition cos_laws :: "('b \<Rightarrow> string \<rightharpoonup> bytes) \<Rightarrow> 'b cos_client \<Rightarrow> bool" where
  "cos_laws objects c \<longleftrightarrow>
     (\<forall>k b. objects (snd (cc_Get c k b)) = objects b \<and> (\<forall>v. fst (cc_Get c k b) = Some v \<longrightarrow> objects b k = Some v)) \<and>
     (\<forall>k v b. objects (snd (cc_Put c k v b)) = (objects b)(k \<mapsto> v)
              \<or> \<not> fst (cc_Put c k v b) \<and> objects (snd (cc_Put c k v b)) = objects b) \<and>
     (\<forall>ks b. objects (snd (cc_Delete c ks b)) \<subseteq>\<^sub>m objects b
             \<and> (\<forall>k. k \<notin> set ks \<longrightarrow> objects (snd (cc_Delete c ks b)) k = objects b k)
             \<and> (fst (cc_Delete c ks b) \<longrightarrow> (\<forall>k\<in>set ks. objects (snd (cc_Delete c ks b)) k = None))) \<and>
     (\<forall>m d b. objects (snd (cc_List c m d b)) = objects b)"

text \<open>The cache a state of the engine stands for.\<close>

definition cos_cache :: "('b \<Rightarrow> string \<rightharpoonup> bytes) \<Rightarrow> 'b cos_env \<Rightarrow> 'b CosCacheEngine \<Rightarrow> string \<rightharpoonup> bytes" where
  "cos_cache objects env s = (\<lambda>key. objects (cx_client s) (MakeObjectKey env key))"

lemma cos_laws_Get:
  assumes "cos_laws objects c"
  shows "objects (snd (cc_Get c k b)) = objects b" and "fst (cc_Get c k b) = Some v \<Longrightarrow> objects b k = Some v"
  using assms by (auto simp: cos_laws_def)

lemma cos_laws_Put:
  assumes "cos_laws objects c"
  shows "objects (snd (cc_Put c k v b)) = (objects b)(k \<mapsto> v)
    \<or> \<not> fst (cc_Put c k v b) \<and> objects (snd (cc_Put c k v b)) = objects b"
  using assms unfolding cos_laws_def by blast

lemma cos_laws_Delete:
  assumes "cos_laws objects c"
  shows "objects (snd (cc_Delete c ks b)) \<subseteq>\<^sub>m objects b"
    and "k \<notin> set ks \<Longrightarrow> objects (snd (cc_Delete c ks b)) k = objects b k"
    and "fst (cc_Delete c ks b) \<Longrightarrow> k \<in> set ks \<Longrightarrow> objects (snd (cc_Delete c ks b)) k = None"
  using assms unfolding cos_laws_def by blast+

lemma cos_laws_List: "cos_laws objects c \<Longrightarrow> objects (snd (cc_List c m d b)) = objects b"
  unfolding cos_laws_def by blast

section \<open>The listing\<close>

lemma list_retrying_objects:
  assumes "cos_laws objects (cv_client env)"
  shows "objects (snd (list_retrying env n marker subdir b)) = objects b"
proof (induction n arbitrary: b)
  case 0
  show ?case using cos_laws_List [OF assms, of marker subdir b] by (auto split: prod.splits option.splits)
next
  case (Suc n)
  show ?case using cos_laws_List [OF assms, of marker subdir b] Suc
    by (subst list_retrying.simps) (auto simp del: list_retrying.simps split: prod.splits option.splits)
qed

lemma GetEntriesIn_loop_objects:
  assumes laws: "cos_laws objects (cv_client env)"
    and run: "GetEntriesIn_loop env subdir marker es b = Some (es', b')"
  shows "objects b' = objects b"
proof -
  have "env = env \<longrightarrow> objects (snd (es', b')) = objects b"
  proof (rule GetEntriesIn_loop.raw_induct [OF _ run, of "\<lambda>env' subdir marker es b r. env' = env \<longrightarrow> objects (snd r) = objects b"])
    fix loop env' subdir marker es b r
    assume ih: "\<And>env' subdir marker es b r. loop env' subdir marker es b = Some r \<Longrightarrow> env' = env \<longrightarrow> objects (snd r) = objects b"
      and step: "(let r = list_retrying env' 3 marker subdir b in
        case fst r of
          None \<Rightarrow> Some (es, snd r)
        | Some page \<Rightarrow>
            (let entries' = es @ map (read_entry env' subdir) (bp_contents page) in
             if length entries' > kMaxEntries \<or> \<not> bp_is_truncated page then Some (entries', snd r)
             else loop env' subdir (bp_next_marker page) entries' (snd r))) = Some r"
    show "env' = env \<longrightarrow> objects (snd r) = objects b"
      using step list_retrying_objects [OF laws, of 3 marker subdir b]
      by (auto simp: Let_def simp del: list_retrying.simps split: option.splits if_splits dest!: ih)
  qed
  then show ?thesis by simp
qed

lemma GetEntries_dirs_objects:
  assumes "cos_laws objects (cv_client env)"
  shows "GetEntries_dirs env is b = Some (es, b') \<Longrightarrow> objects b' = objects b"
proof (induction "is" arbitrary: b es)
  case (Cons i "is")
  then show ?case
    by (fastforce simp: GetEntriesIn_def split: option.splits dest: GetEntriesIn_loop_objects [OF assms])
qed simp

lemma GetEntries_dest:
  assumes "GetEntries env s = Some (entries, s')"
  obtains merged b where "GetEntries_dirs env [0..<kSubDirs] (cx_client s) = Some (merged, b)"
    "entries = sort_entries env merged"
    "s' = s\<lparr>cx_client := b, cx_pending_removal := cx_pending_removal s @ map en_key (over_capacity (cx_capacity s) entries 0)\<rparr>"
  using assms by (auto simp: GetEntries_def Let_def split: option.splits)

lemma GetEntries_cache:
  assumes "cos_laws objects (cv_client env)" and "GetEntries env s = Some (entries, s')"
  shows "cos_cache objects env s' = cos_cache objects env s"
  using assms(2) by (elim GetEntries_dest) (auto simp: cos_cache_def dest: GetEntries_dirs_objects [OF assms(1)])

text \<open>A listing whose truncated pages are not empty comes to an end.\<close>

definition pages_progress :: "'b cos_client \<Rightarrow> bool" where
  "pages_progress c \<longleftrightarrow> (\<forall>m d b page. fst (cc_List c m d b) = Some page \<longrightarrow> bp_is_truncated page \<longrightarrow> bp_contents page \<noteq> [])"

lemma list_retrying_page:
  "fst (list_retrying env n m d b) = Some page \<Longrightarrow> \<exists>b. fst (cc_List (cv_client env) m d b) = Some page"
proof (induction n arbitrary: b)
  case 0
  then show ?case by (auto split: prod.splits option.splits intro!: exI [of _ b])
next
  case (Suc n)
  show ?case
  proof (cases "fst (cc_List (cv_client env) m d b)")
    case None
    with Suc.prems have "fst (list_retrying env n m d (snd (cc_List (cv_client env) m d b))) = Some page"
      by (subst (asm) list_retrying.simps) (auto simp del: list_retrying.simps split: prod.splits option.splits)
    then show ?thesis by (rule Suc.IH)
  next
    case (Some p)
    with Suc.prems show ?thesis
      by (subst (asm) list_retrying.simps) (auto simp del: list_retrying.simps split: prod.splits option.splits intro!: exI [of _ b])
  qed
qed

lemma GetEntriesIn_loop_ends:
  assumes "pages_progress (cv_client env)"
  shows "\<exists>r. GetEntriesIn_loop env subdir marker es b = Some r"
proof (induction "Suc kMaxEntries - length es" arbitrary: marker es b rule: less_induct)
  case less
  let ?r = "list_retrying env 3 marker subdir b"
  show ?case
  proof (cases "fst ?r")
    case None
    then show ?thesis by (subst GetEntriesIn_loop.simps) (simp add: Let_def del: list_retrying.simps)
  next
    case (Some page)
    let ?es = "es @ map (read_entry env subdir) (bp_contents page)"
    show ?thesis
    proof (cases "length ?es > kMaxEntries \<or> \<not> bp_is_truncated page")
      case True
      with Some show ?thesis by (subst GetEntriesIn_loop.simps) (simp add: Let_def del: list_retrying.simps)
    next
      case False
      then have "bp_contents page \<noteq> []"
        using assms list_retrying_page [OF Some] by (auto simp: pages_progress_def)
      then have "Suc kMaxEntries - length ?es < Suc kMaxEntries - length es"
        using False by (cases "bp_contents page") auto
      from less [OF this] False Some show ?thesis
        by (subst GetEntriesIn_loop.simps) (simp add: Let_def del: list_retrying.simps)
    qed
  qed
qed

lemma GetEntries_dirs_ends: "pages_progress (cv_client env) \<Longrightarrow> \<exists>r. GetEntries_dirs env is b = Some r"
proof (induction "is" arbitrary: b)
  case (Cons i "is")
  then obtain es b' where "GetEntriesIn env (cos_subdir env i) b = Some (es, b')"
    using GetEntriesIn_loop_ends [OF Cons.prems] unfolding GetEntriesIn_def by fast
  with Cons show ?case by fastforce
qed simp

section \<open>What is removed\<close>

lemma sort_entries_newest_first: "sorted (map (\<lambda>e. - en_timestamp e) (sort_entries env merged))"
  by (simp add: sort_entries_def)

lemma over_capacity_split:
  assumes "used + sum_list (map en_size es) < 2 ^ 64"
  obtains kept where "es = kept @ over_capacity capacity es used"
    and "over_capacity capacity es used \<noteq> [] \<Longrightarrow> capacity \<le> used + sum_list (map en_size kept)"
    and "kept \<noteq> [] \<Longrightarrow> used + sum_list (map en_size (butlast kept)) < capacity"
  using assms
proof (induction es arbitrary: used thesis)
  case Nil
  show ?case by (rule Nil.prems(1) [of "[]"]) simp_all
next
  case (Cons e es)
  show ?case
  proof (cases "used < capacity")
    case True
    have small: "(used + en_size e) mod 2 ^ 64 = used + en_size e" using Cons.prems(2) by simp
    obtain kept where kept: "es = kept @ over_capacity capacity es (used + en_size e)"
      "over_capacity capacity es (used + en_size e) \<noteq> [] \<Longrightarrow> capacity \<le> used + en_size e + sum_list (map en_size kept)"
      "kept \<noteq> [] \<Longrightarrow> used + en_size e + sum_list (map en_size (butlast kept)) < capacity"
      using Cons.IH [of "used + en_size e"] Cons.prems(2) by (metis add.assoc list.simps(9) sum_list.Cons)
    show ?thesis
      by (rule Cons.prems(1) [of "e # kept"]) (use True kept small in \<open>auto simp: add.assoc\<close>)
  next
    case False
    show ?thesis by (rule Cons.prems(1) [of "[]"]) (use False in simp_all)
  qed
qed

lemma sorted_append_newest:
  assumes "sorted (map (\<lambda>e. - en_timestamp e) (kept @ removed))" and "e \<in> set kept" and "f \<in> set removed"
  shows "en_timestamp f \<le> en_timestamp e"
  using assms by (force simp: sorted_append)

lemma concat_purge_batches: "concat (purge_batches keys) = keys"
  by (induction keys rule: purge_batches.induct) (subst purge_batches.simps, auto)

lemma length_purge_batches: "ks \<in> set (purge_batches keys) \<Longrightarrow> ks \<noteq> [] \<and> length ks \<le> kBatchSize"
  by (induction keys rule: purge_batches.induct) (subst (asm) (2) purge_batches.simps, auto split: if_splits)

text \<open>Removing batches leaves every object alone that no batch names.\<close>

lemma delete_batches:
  fixes env :: "'b cos_env" and objects :: "'b \<Rightarrow> string \<rightharpoonup> bytes"
  defines "delete \<equiv> \<lambda>keys b. snd (cc_Delete (cv_client env) (map (MakeObjectKey env) keys) b)"
  assumes laws: "cos_laws objects (cv_client env)"
  shows "objects (fold delete batches b) \<subseteq>\<^sub>m objects b"
    and "k \<notin> set (concat batches) \<Longrightarrow> objects (fold delete batches b) (MakeObjectKey env k) = objects b (MakeObjectKey env k)"
    and "\<forall>ks b. fst (cc_Delete (cv_client env) ks b) \<Longrightarrow> k \<in> set (concat batches) \<Longrightarrow>
           objects (fold delete batches b) (MakeObjectKey env k) = None"
proof (induction batches arbitrary: b)
  case (Cons ks batches)
  note del = cos_laws_Delete [OF laws, where ks = "map (MakeObjectKey env) ks"]
  { case 1 show ?case using Cons.IH(1) [of "delete ks b"] del(1) [of b] map_le_trans
      by (fastforce simp: delete_def) }
  { case 2 then show ?case using Cons.IH(2) [of "delete ks b"] del(2) [where b = b and k = "MakeObjectKey env k"] by (auto simp: delete_def image_iff) }
  { case 3
    show ?case
    proof (cases "k \<in> set (concat batches)")
      case True
      with Cons.IH(3) 3 show ?thesis by simp
    next
      case False
      with 3 have "objects (delete ks b) (MakeObjectKey env k) = None" using del(3) [where b = b] by (auto simp: delete_def)
      with Cons.IH(2) [of "delete ks b"] False show ?thesis by simp
    qed }
qed (auto simp: map_le_refl)

lemma cos_Purge_pending [simp]: "cx_pending_removal (cos_Purge env s) = []"
  by (simp add: cos_Purge_def)

lemma cos_Purge_cache:
  assumes "cos_laws objects (cv_client env)"
  shows "cos_cache objects env (cos_Purge env s) \<subseteq>\<^sub>m cos_cache objects env s"
    and "k \<notin> set (cx_pending_removal s) \<Longrightarrow> cos_cache objects env (cos_Purge env s) k = cos_cache objects env s k"
    and "\<forall>ks b. fst (cc_Delete (cv_client env) ks b) \<Longrightarrow> k \<in> set (cx_pending_removal s) \<Longrightarrow>
           cos_cache objects env (cos_Purge env s) k = None"
  using delete_batches [OF assms, where batches = "purge_batches (cx_pending_removal s)" and b = "cx_client s"]
  by (auto simp: cos_cache_def cos_Purge_def concat_purge_batches map_le_def dom_def)

section \<open>Properties\<close>

text \<open>C34. The engine is a cache, whatever requests fail: a hit is what the cache holds under that key; a store changes
  the key it names and no other, and takes effect when it is acknowledged; a purge only forgets keys
  marked for removal, and listing the keys changes nothing.
\<close>

theorem cos_engine_refines_cache:
  assumes "cos_laws objects (cv_client env)"
  shows "(\<forall>r s1. cos_TryGet env key s = (r, s1) \<longrightarrow>
            cos_cache objects env s1 = cos_cache objects env s \<and> (r = None \<or> r = cos_cache objects env s key))
    \<and> (cos_cache objects env (cos_Put env key data s) = (cos_cache objects env s)(key \<mapsto> data)
       \<or> \<not> fst (cc_Put (cv_client env) (MakeObjectKey env key) data (cx_client s))
         \<and> cos_cache objects env (cos_Put env key data s) = cos_cache objects env s)
    \<and> (\<forall>keys s2. cos_GetKeys env s = Some (keys, s2) \<longrightarrow> cos_cache objects env s2 = cos_cache objects env s)
    \<and> cos_cache objects env (cos_Purge env s) \<subseteq>\<^sub>m cos_cache objects env s
    \<and> (\<forall>k. k \<notin> set (cx_pending_removal s) \<longrightarrow> cos_cache objects env (cos_Purge env s) k = cos_cache objects env s k)"
proof -
  have "cos_cache objects env s1 = cos_cache objects env s \<and> (r = None \<or> r = cos_cache objects env s key)"
    if "cos_TryGet env key s = (r, s1)" for r s1
    using that cos_laws_Get [OF assms, where k = "MakeObjectKey env key" and b = "cx_client s"]
    by (cases r) (auto simp: cos_TryGet_def cos_cache_def split: prod.splits)
  moreover have "cos_cache objects env (cos_Put env key data s) = (cos_cache objects env s)(key \<mapsto> data)
       \<or> \<not> fst (cc_Put (cv_client env) (MakeObjectKey env key) data (cx_client s))
         \<and> cos_cache objects env (cos_Put env key data s) = cos_cache objects env s"
    using cos_laws_Put [OF assms, of "MakeObjectKey env key" data "cx_client s"]
    by (auto simp: cos_Put_def cos_cache_def fun_eq_iff)
  moreover have "cos_cache objects env s2 = cos_cache objects env s" if "cos_GetKeys env s = Some (keys, s2)" for keys s2
    using that GetEntries_cache [OF assms] by (auto simp: cos_GetKeys_def)
  ultimately show ?thesis using cos_Purge_cache(1,2) [OF assms] by blast
qed


text \<open>A scan of the bucket ends when no truncated page is empty, whatever requests fail, and marks nothing for
  removal that it did not list.
\<close>

theorem cos_scan_ends:
  assumes "pages_progress (cv_client env)"
  shows "\<exists>keys s'. cos_GetKeys env s = Some (keys, s') \<and> cx_capacity s' = cx_capacity s
    \<and> (\<exists>marked. cx_pending_removal s' = cx_pending_removal s @ marked \<and> set marked \<subseteq> set keys)"
proof -
  obtain merged b where dirs: "GetEntries_dirs env [0..<kSubDirs] (cx_client s) = Some (merged, b)"
    using GetEntries_dirs_ends [OF assms] by fastforce
  have "set (over_capacity c es t) \<subseteq> set es" for c es t by (induction c es t rule: over_capacity.induct) auto
  then have "en_key ` set (over_capacity (cx_capacity s) (sort_entries env merged) 0) \<subseteq> en_key ` set (sort_entries env merged)"
    by blast
  with dirs show ?thesis by (auto simp: cos_GetKeys_def GetEntries_def Let_def)
qed

text \<open>An object listed in the directory of its key is an entry of that key.\<close>

lemma read_entry_roundtrip:
  assumes "\<forall>s p. fl_StartsWith (cv_flare env) s p \<longleftrightarrow> prefix p s" and "lo_key e = MakeObjectKey env key"
  shows "en_key (read_entry env (cos_subdir env (fl_XXH64 (cv_flare env) key mod kSubDirs)) e) = key"
  using assms by (simp add: read_entry_def MakeObjectKey_in_subdir)

section \<open>Times\<close>

lemma leap_years_until_nonneg: "0 \<le> y \<Longrightarrow> 0 \<le> leap_years_until y"
  using zdiv_mono2 [of y 4 100] by (simp add: leap_years_until_def)

lemma days_before_month_nonneg:
  assumes "0 \<le> m" and "m < 12"
  shows "0 \<le> days_before_month y m"
proof -
  let ?days = "[0, 31, 59, 90, 120, 151, 181, 212, 243, 273, 304, 334] :: int list"
  have "?days ! nat m \<in> set ?days" using assms by (intro nth_mem) simp
  moreover have "\<forall>d\<in>set ?days. 0 \<le> d" by simp
  ultimately have "0 \<le> ?days ! nat m" by blast
  then show ?thesis unfolding days_before_month_def by (simp del: nth_Cons_numeral)
qed

text \<open>The fields of a timestamp go into the broken-down time as they are, although its year counts from 1900 and its
  month from 0. Every time since 1970 is therefore beyond what the clock can represent, and the order is not that of the
  calendar: the 31st of January is later than the 1st of February.
\<close>

theorem cos_timestamps_not_monotone:
  assumes "\<forall>t. length t \<le> 4 \<longrightarrow> cv_TryParse_uint32 env t = parse_decimal t" and "cv_time_zone env = 0"
  shows "(\<forall>t. 1970 \<le> tm_year t \<and> 0 \<le> tm_mon t \<and> 0 \<le> tm_mday t \<and> 0 \<le> tm_hour t \<and> 0 \<le> tm_min t \<and> 0 \<le> tm_sec t
            \<longrightarrow> 2 ^ 63 \<le> mktime 0 t * 10 ^ 9)
    \<and> (\<exists>january february.
         FromIso8601Timestamp env ''2021-01-31T12:00:00.000Z'' = Some january \<and>
         FromIso8601Timestamp env ''2021-02-01T12:00:00.000Z'' = Some february \<and> february < january)"
proof (intro conjI allI impI)
  fix t :: broken_down_time
  assume t: "1970 \<le> tm_year t \<and> 0 \<le> tm_mon t \<and> 0 \<le> tm_mday t \<and> 0 \<le> tm_hour t \<and> 0 \<le> tm_min t \<and> 0 \<le> tm_sec t"
  define y where "y = 1900 + tm_year t + tm_mon t div 12"
  have "3870 \<le> y" "0 \<le> tm_mon t div 12" using t by (auto simp: y_def intro: add_mono pos_imp_zdiv_nonneg_iff [THEN iffD2])
  moreover have "0 \<le> leap_years_until (y - 1)" using \<open>3870 \<le> y\<close> by (intro leap_years_until_nonneg) simp
  moreover have "0 \<le> days_before_month y (tm_mon t mod 12)" by (rule days_before_month_nonneg) auto
  moreover have "leap_years_until 1969 = 477" by (simp add: leap_years_until_def)
  ultimately show "2 ^ 63 \<le> mktime 0 t * 10 ^ 9"
    using t unfolding mktime_def Let_def y_def [symmetric] by simp
next
  show "\<exists>january february.
         FromIso8601Timestamp env ''2021-01-31T12:00:00.000Z'' = Some january \<and>
         FromIso8601Timestamp env ''2021-02-01T12:00:00.000Z'' = Some february \<and> february < january"
    using assms by (simp add: FromIso8601Timestamp_def parse_decimal_def digit_value_def mktime_def from_time_t_def
        leap_years_until_def days_before_month_def is_leap_year_def)
qed

section \<open>A service that never fails\<close>

definition demo_listing :: "string \<Rightarrow> listed_object list" where
  "demo_listing d = (if d = ''c/0/''
     then [\<lparr> lo_key = ''c/0/old'', lo_size = 10, lo_last_modified = ''2021-02-01T12:00:00.000Z'' \<rparr>,
           \<lparr> lo_key = ''c/0/new'', lo_size = 10, lo_last_modified = ''2021-02-02T12:00:00.000Z'' \<rparr>]
     else [])"

definition demo_cos_client :: "(string \<rightharpoonup> bytes) cos_client" where
  "demo_cos_client = \<lparr>
     cc_Get = \<lambda>k m. (m k, m), cc_Put = \<lambda>k v m. (True, m(k \<mapsto> v)), cc_Delete = \<lambda>ks m. (True, m |` (- set ks)),
     cc_List = \<lambda>marker d m. (Some \<lparr> bp_contents = demo_listing d, bp_next_marker = [], bp_is_truncated = False \<rparr>, m) \<rparr>"

definition demo_cos :: "(string \<rightharpoonup> bytes) cos_env" where
  "demo_cos = \<lparr> cv_flare = reference_flare, cv_TryParse_uint32 = parse_decimal, cv_dir = ''c'', cv_time_zone = 0,
     cv_client = demo_cos_client, cv_ties = (\<lambda>es. es) \<rparr>"

definition demo_cos_engine :: "(string \<rightharpoonup> bytes) CosCacheEngine" where
  "demo_cos_engine = \<lparr> cx_capacity = 5, cx_client = Map.empty, cx_pending_removal = [] \<rparr>"

lemma demo_cos_laws: "cos_laws (\<lambda>m. m) (cv_client demo_cos)"
  by (auto simp: cos_laws_def demo_cos_def demo_cos_client_def map_le_def restrict_map_def)

lemma demo_pages_progress: "pages_progress (cv_client demo_cos)"
  by (simp add: pages_progress_def demo_cos_def demo_cos_client_def)

lemma demo_GetEntriesIn: "GetEntriesIn demo_cos d m = Some (map (read_entry demo_cos d) (demo_listing d), m)"
  unfolding GetEntriesIn_def
  by (subst GetEntriesIn_loop.simps) (simp add: Let_def numeral_3_eq_3 demo_cos_def demo_cos_client_def)

lemma demo_dirs:
  "GetEntries_dirs demo_cos is m =
     Some (concat (map (\<lambda>i. map (read_entry demo_cos (cos_subdir demo_cos i)) (demo_listing (cos_subdir demo_cos i))) is), m)"
  by (induction "is") (simp_all add: demo_GetEntriesIn)

lemma demo_subdir: "cos_subdir demo_cos i = ''c/0/'' \<longleftrightarrow> i = 0"
proof -
  have "to_string 0 = ''0''" by code_simp
  then show ?thesis using directory_of_key [of i "[]" 0 "[]"] by (simp add: cos_subdir_def demo_cos_def)
qed

definition demo_entries :: "CosEntryDesc list" where
  "demo_entries =
     [\<lparr> en_key = ''new'', en_timestamp = 6232598178871345152, en_size = 10 \<rparr>,
      \<lparr> en_key = ''old'', en_timestamp = 6232511778871345152, en_size = 10 \<rparr>]"

lemma demo_listed: "map (read_entry demo_cos ''c/0/'') (demo_listing ''c/0/'') = rev demo_entries"
  by (simp add: demo_entries_def demo_listing_def read_entry_def demo_cos_def reference_flare_def FromIso8601Timestamp_def
      parse_decimal_def digit_value_def mktime_def from_time_t_def leap_years_until_def days_before_month_def is_leap_year_def)

lemma demo_merged: "GetEntries_dirs demo_cos [0..<kSubDirs] m = Some (rev demo_entries, m)"
proof -
  have dirs: "[0..<kSubDirs] = 0 # [Suc 0..<kSubDirs]" by (rule upt_conv_Cons) simp
  have zero: "cos_subdir demo_cos 0 = ''c/0/''" by (simp add: demo_subdir)
  show ?thesis unfolding demo_dirs dirs list.map concat.simps zero demo_listed by (simp add: demo_listing_def demo_subdir)
qed

lemma demo_scan: "GetEntries demo_cos demo_cos_engine = Some (demo_entries, demo_cos_engine\<lparr>cx_pending_removal := [''old'']\<rparr>)"
proof -
  have "sort_entries demo_cos (rev demo_entries) = demo_entries"
    by (simp add: sort_entries_def demo_cos_def demo_entries_def)
  moreover have "map en_key (over_capacity 5 demo_entries 0) = [''old'']" by (simp add: demo_entries_def)
  ultimately show ?thesis by (simp add: GetEntries_def demo_merged Let_def demo_cos_engine_def)
qed

lemma cos_engine_refines_cache_witness:
  "cos_cache (\<lambda>m. m) demo_cos (cos_Put demo_cos ''key'' ''v'' demo_cos_engine) ''key'' = Some ''v''"
  using cos_engine_refines_cache [OF demo_cos_laws, of "''key''" demo_cos_engine "''v''"]
  by (simp add: demo_cos_def demo_cos_client_def)


lemma cos_scan_ends_witness: "\<exists>keys s'. cos_GetKeys demo_cos demo_cos_engine = Some (keys, s')"
  using cos_scan_ends [OF demo_pages_progress, of demo_cos_engine] by blast

lemma cos_timestamps_not_monotone_witness:
  "\<exists>january february. FromIso8601Timestamp demo_cos ''2021-01-31T12:00:00.000Z'' = Some january \<and>
     FromIso8601Timestamp demo_cos ''2021-02-01T12:00:00.000Z'' = Some february \<and> february < january"
  using cos_timestamps_not_monotone [of demo_cos] by (simp add: demo_cos_def)

end
