(* ===== verification/Json_Value.thy ===== *)
theory Json_Value
  imports Flare_Api
begin

text \<open>
  The values of JsonCpp (\<open>Json::Value\<close>) and the accessors the program uses, as its documentation
  describes them; an accessor that throws is the value \<open>None\<close>. A number that is not written as an integer
  carries whether it is one, its integral part and its text.
\<close>

datatype json =
    JNull
  | JBool bool
  | JInt int
  | JReal bool int string
  | JString string
  | JArray "json list"
  | JObject "(string \<times> json) list"

text \<open>\<open>value[key]\<close>: a missing member is null, and so are the members of null.\<close>

fun json_member :: "json \<Rightarrow> string \<Rightarrow> json option" where
  "json_member JNull key = Some JNull"
| "json_member (JObject ms) key = Some (case map_of ms key of Some v \<Rightarrow> v | None \<Rightarrow> JNull)"
| "json_member _ key = None"

text \<open>\<open>value[index]\<close>\<close>

fun json_index :: "json \<Rightarrow> nat \<Rightarrow> json option" where
  "json_index JNull i = Some JNull"
| "json_index (JArray vs) i = Some (if i < length vs then vs ! i else JNull)"
| "json_index _ i = None"

fun json_size :: "json \<Rightarrow> nat" where
  "json_size (JArray vs) = length vs"
| "json_size (JObject ms) = length ms"
| "json_size _ = 0"

text \<open>The values a loop over \<open>value\<close> visits; those of an object are ordered by key.\<close>

fun json_elements :: "json \<Rightarrow> json list" where
  "json_elements (JArray vs) = vs"
| "json_elements (JObject ms) = map snd ms"
| "json_elements _ = []"

definition decimal :: "int \<Rightarrow> string" where
  "decimal i = (if i < 0 then ''-'' @ to_string (nat (- i)) else to_string (nat i))"

fun json_asString :: "json \<Rightarrow> string option" where
  "json_asString JNull = Some []"
| "json_asString (JBool b) = Some (if b then ''true'' else ''false'')"
| "json_asString (JInt i) = Some (decimal i)"
| "json_asString (JReal _ _ t) = Some t"
| "json_asString (JString s) = Some s"
| "json_asString _ = None"

definition in_range :: "int \<Rightarrow> int \<Rightarrow> int \<Rightarrow> int option" where
  "in_range lo hi i = (if lo \<le> i \<and> i < hi then Some i else None)"

fun json_asInt :: "json \<Rightarrow> int option" where
  "json_asInt JNull = Some 0"
| "json_asInt (JBool b) = Some (if b then 1 else 0)"
| "json_asInt (JInt i) = in_range (- (2 ^ 31)) (2 ^ 31) i"
| "json_asInt (JReal _ i _) = in_range (- (2 ^ 31)) (2 ^ 31) i"
| "json_asInt _ = None"

fun json_isUnsigned :: "nat \<Rightarrow> json \<Rightarrow> bool" where
  "json_isUnsigned bits (JInt i) = (0 \<le> i \<and> i < 2 ^ bits)"
| "json_isUnsigned bits (JReal integral i _) = (integral \<and> 0 \<le> i \<and> i < 2 ^ bits)"
| "json_isUnsigned bits _ = False"

abbreviation json_isUInt :: "json \<Rightarrow> bool" where "json_isUInt \<equiv> json_isUnsigned 32"
abbreviation json_isUInt64 :: "json \<Rightarrow> bool" where "json_isUInt64 \<equiv> json_isUnsigned 64"

text \<open>\<open>asUInt\<close> and \<open>asUInt64\<close>, which the program calls on values it has tested.\<close>

fun json_asUnsigned :: "json \<Rightarrow> nat" where
  "json_asUnsigned (JInt i) = nat i"
| "json_asUnsigned (JReal _ i _) = nat i"
| "json_asUnsigned _ = 0"

fun json_isBool :: "json \<Rightarrow> bool" where
  "json_isBool (JBool b) = True"
| "json_isBool _ = False"

fun json_isObject :: "json \<Rightarrow> bool" where
  "json_isObject JNull = False"
| "json_isObject (JObject ms) = True"
| "json_isObject _ = False"

end
