(* ===== verification/Scheduler_Console.thy ===== *)
theory Scheduler_Console
  imports Task_Dispatcher Json_Value Double_Arith "HOL-Library.Monad_Syntax"
begin

text \<open>
  The console of the scheduler (\<^verbatim>\<open>scheduler/console/\<close>): it reads the JSON the dispatcher dumps, and shows a
  scrollable list of nodes and a panel for one of them. A JSON accessor that throws and an overflow of a
  signed integer are the value \<open>None\<close>.
\<close>

section \<open>What the dispatcher dumps\<close>

fun ServantPriority_Name :: "ServantPriority \<Rightarrow> string" where
  "ServantPriority_Name SERVANT_PRIORITY_UNKNOWN = ''SERVANT_PRIORITY_UNKNOWN''"
| "ServantPriority_Name SERVANT_PRIORITY_DEDICATED = ''SERVANT_PRIORITY_DEDICATED''"
| "ServantPriority_Name SERVANT_PRIORITY_USER = ''SERVANT_PRIORITY_USER''"

fun NotAcceptingTaskReason_Name :: "NotAcceptingTaskReason \<Rightarrow> string" where
  "NotAcceptingTaskReason_Name NOT_ACCEPTING_TASK_REASON_UNKNOWN = ''NOT_ACCEPTING_TASK_REASON_UNKNOWN''"
| "NotAcceptingTaskReason_Name NOT_ACCEPTING_TASK_REASON_USER_INSTRUCTED = ''NOT_ACCEPTING_TASK_REASON_USER_INSTRUCTED''"
| "NotAcceptingTaskReason_Name NOT_ACCEPTING_TASK_REASON_POOR_MACHINE = ''NOT_ACCEPTING_TASK_REASON_POOR_MACHINE''"
| "NotAcceptingTaskReason_Name NOT_ACCEPTING_TASK_REASON_CGROUPS_PRESENT = ''NOT_ACCEPTING_TASK_REASON_CGROUPS_PRESENT''"
| "NotAcceptingTaskReason_Name NOT_ACCEPTING_TASK_REASON_BEHIND_NAT = ''NOT_ACCEPTING_TASK_REASON_BEHIND_NAT''"
| "NotAcceptingTaskReason_Name NOT_ACCEPTING_TASK_REASON_NOT_VERIFIED = ''NOT_ACCEPTING_TASK_REASON_NOT_VERIFIED''"
| "NotAcceptingTaskReason_Name (NOT_ACCEPTING_TASK_REASON_unnamed n) = ''''"

abbreviation JNat :: "nat \<Rightarrow> json" where "JNat n \<equiv> JInt (int n)"

text \<open>\<open>fmt_time\<close> prints a point in time in the local time zone (\<open>FormatTime\<close>).\<close>

definition dump_servant :: "(time_point \<Rightarrow> string) \<Rightarrow> TaskDispatcher \<Rightarrow> ServantDesc \<Rightarrow> json" where
  "dump_servant fmt_time d entry =
     (let p = sd_personality entry in
      JObject ([(''version'', JInt (sp_version p))]
        @ (if sp_observed_location p \<noteq> sp_reported_location p
           then [(''observed_location'', JString (sp_observed_location p)), (''reported_location'', JString (sp_reported_location p))]
           else [(''location'', JString (sp_observed_location p))])
        @ [(''discovered_at'', JString (fmt_time (sd_discovered_at entry))), (''expires_at'', JString (fmt_time (sd_expires_at entry)))]
        @ (if sp_environments p = [] then []
           else [(''environments'', JArray (map (\<lambda>e. JString (ed_compiler_digest e)) (sp_environments p)))])
        @ [(''priority'', JString (ServantPriority_Name (sp_priority p)))]
        @ (if sp_max_tasks p \<noteq> 0 then [(''max_tasks'', JNat (sp_max_tasks p))]
           else [(''not_accepting_task_reason'', JString (NotAcceptingTaskReason_Name (sp_not_accepting_task_reason p)))])
        @ [(''num_processors'', JNat (sp_num_processors p)), (''current_load'', JNat (sp_current_load p)),
           (''capacity_available'', JInt (to_int64 (int (GetCapacityAvailable d entry)))),
           (''total_memory_mb'', JNat (sp_total_memory_in_bytes p div 1024 div 1024)),
           (''memory_available_mb'', JNat (sp_memory_available_in_bytes p div 1024 div 1024)),
           (''running_tasks'', JNat (sd_running_tasks entry)), (''ever_assigned_tasks'', JNat (sd_ever_assigned_tasks entry))]))"

definition dump_task :: "(time_point \<Rightarrow> string) \<Rightarrow> TaskDispatcher \<Rightarrow> TaskDesc \<Rightarrow> json" where
  "dump_task fmt_time d v =
     JObject [(''task_id'', JNat (tk_task_id v)), (''requestor_ip'', JString (tp_requestor_ip (tk_personality v))),
       (''compiler_digest'', JString (ed_compiler_digest (tp_env_desc (tk_personality v)))),
       (''started_at'', JString (fmt_time (tk_started_at v))), (''expires_at'', JString (fmt_time (tk_expires_at v))),
       (''prefetched_task'', JBool (tk_is_prefetch v)),
       (''servant_location'', JString (servant_location_of d (tk_belonging_servant v))), (''zombie'', JBool (tk_zombie v))]"

definition dump_numbers :: "TaskDispatcher \<Rightarrow> (string \<times> json) list" where
  "dump_numbers d =
     (let stats = DumpInternals d in
      [(''servants_up'', JNat (cs_servants_up stats)), (''running_tasks'', JNat (cs_running_tasks stats)),
       (''capacity'', JNat (cs_capacity stats)), (''capacity_available'', JNat (cs_capacity_available stats)),
       (''capacity_unavailable'', JNat (cs_capacity_unavailable stats))])"

definition GetClusterStats :: "(time_point \<Rightarrow> string) \<Rightarrow> TaskDispatcher \<Rightarrow> json" where
  "GetClusterStats fmt_time d =
     JObject ((if td_servants d = [] then [] else [(''servants'', JArray (map (\<lambda>r. dump_servant fmt_time d (td_heap d r)) (td_servants d)))])
       @ (if td_tasks d = [] then [] else [(''tasks'', JObject (map (\<lambda>(k, v). (to_string k, dump_task fmt_time d v)) (td_tasks d)))])
       @ dump_numbers d)"

section \<open>Nodes\<close>

record NodeInfo =
  ni_observed_location :: string
  ni_reported_location :: string
  ni_version :: int
  ni_num_processors :: nat
  ni_current_load :: nat
  ni_total_memory_in_bytes :: nat
  ni_memory_available_in_bytes :: nat
  ni_max_tasks :: nat
  ni_running_tasks :: nat
  ni_ever_assigned_tasks :: nat
  ni_priority :: nat
  ni_not_accepting_task_reason :: nat
  ni_environments :: "string list"
  ni_is_nat :: bool

fun json_asUInt64 :: "json \<Rightarrow> nat option" where
  "json_asUInt64 JNull = Some 0"
| "json_asUInt64 (JBool b) = Some (if b then 1 else 0)"
| "json_asUInt64 (JInt i) = map_option nat (in_range 0 (2 ^ 64) i)"
| "json_asUInt64 (JReal _ i _) = map_option nat (in_range 0 (2 ^ 64) i)"
| "json_asUInt64 _ = None"

fun json_isMember :: "json \<Rightarrow> string \<Rightarrow> bool option" where
  "json_isMember JNull key = Some False"
| "json_isMember (JObject ms) key = Some (map_of ms key \<noteq> None)"
| "json_isMember _ key = None"

abbreviation json_get :: "(json \<Rightarrow> 'a option) \<Rightarrow> json \<Rightarrow> string \<Rightarrow> 'a option" where
  "json_get f j key \<equiv> Option.bind (json_member j key) f"

text \<open>Observed location, reported location, whether they differ.\<close>

definition fetch_location :: "json \<Rightarrow> (string \<times> string \<times> bool) option" where
  "fetch_location servant = do {
     location \<leftarrow> json_get json_asString servant ''location'';
     nat \<leftarrow> json_isMember servant ''observed_location'';
     if nat then do {
       observed \<leftarrow> json_get json_asString servant ''observed_location'';
       reported \<leftarrow> json_get json_asString servant ''reported_location'';
       Some (observed, reported, True)
     } else Some (location, location, False) }"

definition mb :: "nat \<Rightarrow> nat" where
  "mb n = n * 1024 * 1024 mod 2 ^ 64"

text \<open>The numbers, which both readers take alike.\<close>

definition read_numbers :: "json \<Rightarrow> NodeInfo \<Rightarrow> NodeInfo option" where
  "read_numbers servant info = do {
     version \<leftarrow> json_get json_asInt servant ''version'';
     num_processors \<leftarrow> json_get json_asUInt64 servant ''num_processors'';
     current_load \<leftarrow> json_get json_asUInt64 servant ''current_load'';
     total_memory \<leftarrow> json_get json_asUInt64 servant ''total_memory_mb'';
     memory_available \<leftarrow> json_get json_asUInt64 servant ''memory_available_mb'';
     max_tasks \<leftarrow> json_get json_asUInt64 servant ''max_tasks'';
     running_tasks \<leftarrow> json_get json_asUInt64 servant ''running_tasks'';
     ever_assigned_tasks \<leftarrow> json_get json_asUInt64 servant ''ever_assigned_tasks'';
     Some (info\<lparr> ni_version := version, ni_num_processors := num_processors, ni_current_load := current_load,
       ni_total_memory_in_bytes := mb total_memory, ni_memory_available_in_bytes := mb memory_available,
       ni_max_tasks := max_tasks, ni_running_tasks := running_tasks, ni_ever_assigned_tasks := ever_assigned_tasks \<rparr>) }"

definition priority_of_name :: "string \<Rightarrow> nat" where
  "priority_of_name s =
     (if s = ''SERVANT_PRIORITY_DEDICATED'' then 1 else if s = ''SERVANT_PRIORITY_USER'' then 2 else 0)"

definition reason_of_name :: "string \<Rightarrow> nat" where
  "reason_of_name s =
     (if s = ''NOT_ACCEPTING_TASK_REASON_USER_INSTRUCTED'' then 1
      else if s = ''NOT_ACCEPTING_TASK_REASON_POOR_MACHINE'' then 2
      else if s = ''NOT_ACCEPTING_TASK_REASON_CGROUPS_PRESENT'' then 3
      else if s = ''NOT_ACCEPTING_TASK_REASON_BEHIND_NAT'' then 4 else 0)"

definition read_name :: "(string \<Rightarrow> nat) \<Rightarrow> json \<Rightarrow> string \<Rightarrow> nat option" where
  "read_name f servant key = do {
     present \<leftarrow> json_isMember servant key;
     if present then map_option f (json_get json_asString servant key) else Some 0 }"

definition empty_node :: NodeInfo where
  "empty_node = \<lparr> ni_observed_location = [], ni_reported_location = [], ni_version = 0, ni_num_processors = 0, ni_current_load = 0,
     ni_total_memory_in_bytes = 0, ni_memory_available_in_bytes = 0, ni_max_tasks = 0, ni_running_tasks = 0,
     ni_ever_assigned_tasks = 0, ni_priority = 0, ni_not_accepting_task_reason = 0, ni_environments = [], ni_is_nat = False \<rparr>"

definition fetch_node :: "json \<Rightarrow> NodeInfo option" where
  "fetch_node servant = do {
     (observed, reported, nat) \<leftarrow> fetch_location servant;
     info \<leftarrow> read_numbers servant
       (empty_node\<lparr> ni_observed_location := observed, ni_reported_location := reported, ni_is_nat := nat \<rparr>);
     priority \<leftarrow> read_name priority_of_name servant ''priority'';
     reason \<leftarrow> read_name reason_of_name servant ''not_accepting_task_reason'';
     envs \<leftarrow> json_member servant ''environments'';
     environments \<leftarrow> those (map json_asString (json_elements envs));
     Some (info\<lparr> ni_priority := priority, ni_not_accepting_task_reason := reason, ni_environments := environments \<rparr>) }"

definition FetchAllNodeInfos :: "(time_point \<Rightarrow> string) \<Rightarrow> TaskDispatcher \<Rightarrow> NodeInfo list option" where
  "FetchAllNodeInfos fmt_time d =
     json_get (\<lambda>servants. those (map fetch_node (json_elements servants))) (GetClusterStats fmt_time d) ''servants''"

definition create_node :: "json \<Rightarrow> NodeInfo option" where
  "create_node servant = do {
     located \<leftarrow> json_isMember servant ''location'';
     info \<leftarrow> (if located then do {
         location \<leftarrow> json_get json_asString servant ''location'';
         Some (empty_node\<lparr> ni_observed_location := location, ni_reported_location := location \<rparr>)
       } else Some empty_node);
     nat \<leftarrow> json_isMember servant ''observed_location'';
     info \<leftarrow> (if nat then do {
         observed \<leftarrow> json_get json_asString servant ''observed_location'';
         reported \<leftarrow> json_get json_asString servant ''reported_location'';
         Some (info\<lparr> ni_observed_location := observed, ni_reported_location := reported, ni_is_nat := True \<rparr>)
       } else Some info);
     read_numbers servant info }"

definition CreateNodeInfosFromJson :: "json \<Rightarrow> NodeInfo list option" where
  "CreateNodeInfosFromJson j =
     json_get (\<lambda>servants. those (map create_node (json_elements servants))) j ''servants''"

section \<open>Rendering\<close>

definition spaces :: "nat \<Rightarrow> string" where
  "spaces n = replicate n CHR '' ''"

text \<open>\<open>std::setw\<close>\<close>

definition setw :: "nat \<Rightarrow> string \<Rightarrow> string" where
  "setw n s = spaces (n - length s) @ s"

definition newline :: string where
  "newline = [CHR 0x0A]"

definition clamp :: "int \<Rightarrow> int \<Rightarrow> int \<Rightarrow> int" where
  "clamp lo hi x = min hi (max lo x)"

definition bar :: "nat \<Rightarrow> string" where
  "bar filled = ''['' @ replicate filled CHR ''='' @ spaces (20 - filled) @ '']''"

definition escape_code :: "string \<Rightarrow> string" where
  "escape_code s = CHR 0x1B # s"

definition RenderLoadBar :: "nat \<Rightarrow> nat \<Rightarrow> string" where
  "RenderLoadBar current_load max_load =
     (if max_load = 0 then ''[N/A]''
      else
        (let percentage = nat (clamp 0 100 (to_int32 (int (current_load * 100 mod 2 ^ 64 div max_load))));
             filled = 20 * percentage div 100;
             color = escape_code (if percentage < 30 then ''[32m'' else if percentage < 70 then ''[33m'' else ''[31m'')
         in color @ bar filled @ escape_code ''[0m'' @ '' '' @ to_string percentage @ ''%''))"

definition RenderPercentageBar :: "rat \<Rightarrow> string" where
  "RenderPercentageBar percentage =
     (let percentage = min 100 (max 0 percentage);
          filled = 20 * nat \<lfloor>percentage\<rfloor> div 100;
          color = escape_code (if percentage < 30 then ''[32m'' else if percentage < 70 then ''[33m'' else ''[31m'')
      in color @ bar filled @ escape_code ''[0m'')"

text \<open>\<open>std::fixed\<close> with two digits: the nearest number of hundredths, the even one of two.\<close>

definition hundredths :: "rat \<Rightarrow> nat" where
  "hundredths x =
     (let h = \<lfloor>100 * x\<rfloor>; rest = 100 * x - of_int h
      in nat (if rest > 1 / 2 \<or> rest = 1 / 2 \<and> odd h then h + 1 else h))"

definition print_fixed2 :: "rat \<Rightarrow> string" where
  "print_fixed2 x =
     (let h = hundredths x
      in to_string (h div 100) @ ''.'' @ to_string (h mod 100 div 10) @ to_string (h mod 10))"

fun scale_memory :: "double_ops \<Rightarrow> nat \<Rightarrow> nat \<Rightarrow> rat \<Rightarrow> rat \<times> nat" where
  "scale_memory dbl 0 unit_index sz = (sz, unit_index)"
| "scale_memory dbl (Suc left) unit_index sz =
     (if sz \<ge> 1024 then scale_memory dbl left (Suc unit_index) (dbl_round dbl (sz / 1024)) else (sz, unit_index))"

definition FormatMemory :: "double_ops \<Rightarrow> nat \<Rightarrow> string" where
  "FormatMemory dbl bytes =
     (let (sz, unit_index) = scale_memory dbl 4 0 (dbl_round dbl (of_nat bytes))
      in print_fixed2 sz @ '' '' @ [''B'', ''KB'', ''MB'', ''GB'', ''TB''] ! unit_index)"

text \<open>C++ division and remainder truncate; the lines below only divide numbers that are not negative.\<close>

definition FormatDuration :: "int \<Rightarrow> string" where
  "FormatDuration s =
     (if s < 60 then decimal s @ ''s''
      else if s < 3600 then decimal (s div 60) @ ''m '' @ decimal (s mod 60) @ ''s''
      else decimal (s div 3600) @ ''h '' @ decimal (s mod 3600 div 60) @ ''m'')"

section \<open>The list\<close>

record NodeListView =
  nv_nodes :: "NodeInfo list"
  nv_selected_index :: int
  nv_scroll_offset :: int
  nv_visible_count :: int

definition NodeListView_ctor :: NodeListView where
  "NodeListView_ctor = \<lparr> nv_nodes = [], nv_selected_index = 0, nv_scroll_offset = 0, nv_visible_count = 10 \<rparr>"

text \<open>Signed additions are checked; the number of nodes fits an \<open>int\<close>.\<close>

definition add_int :: "int \<Rightarrow> int \<Rightarrow> int option" where
  "add_int i j = in_range (- (2 ^ 31)) (2 ^ 31) (i + j)"

definition last_index :: "'a list \<Rightarrow> int" where
  "last_index xs = (if xs = [] then 0 else int (length xs) - 1)"

definition SetNodes :: "NodeInfo list \<Rightarrow> NodeListView \<Rightarrow> NodeListView" where
  "SetNodes nodes v =
     v\<lparr> nv_nodes := nodes,
        nv_selected_index := (if nv_selected_index v \<ge> int (length nodes) then last_index nodes else nv_selected_index v) \<rparr>"

definition Select :: "int \<Rightarrow> NodeListView \<Rightarrow> NodeListView" where
  "Select index v =
     v\<lparr> nv_selected_index :=
          (if index < 0 then 0 else if index \<ge> int (length (nv_nodes v)) then last_index (nv_nodes v) else index) \<rparr>"

definition SetVisibleCount :: "int \<Rightarrow> NodeListView \<Rightarrow> NodeListView" where
  "SetVisibleCount count v = v\<lparr> nv_visible_count := count \<rparr>"

definition Scroll :: "int \<Rightarrow> NodeListView \<Rightarrow> NodeListView option" where
  "Scroll delta v = do {
     new_offset \<leftarrow> add_int (nv_scroll_offset v) delta;
     hidden \<leftarrow> add_int (int (length (nv_nodes v))) (- nv_visible_count v);
     let scroll_offset = min (max 0 new_offset) (max 0 hidden);
     new_selected \<leftarrow> add_int (nv_selected_index v) delta;
     bottom \<leftarrow> (if new_selected < scroll_offset then Some 0 else add_int scroll_offset (nv_visible_count v));
     let selected = (if new_selected < scroll_offset then scroll_offset
                     else if new_selected \<ge> bottom then bottom - 1 else new_selected);
     Some (v\<lparr> nv_scroll_offset := scroll_offset,
              nv_selected_index := max 0 (min selected (int (length (nv_nodes v)) - 1)) \<rparr>) }"

definition GetSelectedNode :: "NodeListView \<Rightarrow> NodeInfo option" where
  "GetSelectedNode v =
     (if nv_selected_index v \<ge> 0 \<and> nv_selected_index v < int (length (nv_nodes v))
      then Some (nv_nodes v ! nat (nv_selected_index v)) else None)"

definition node_status :: "NodeInfo \<Rightarrow> string" where
  "node_status node =
     (if ni_max_tasks node = 0 then ''DISABLED'' else if ni_running_tasks node \<ge> ni_max_tasks node then ''BUSY'' else ''OK'')"

definition render_row :: "double_ops \<Rightarrow> bool \<Rightarrow> int \<Rightarrow> NodeInfo \<Rightarrow> string" where
  "render_row dbl selected i node =
     (let location = (if length (ni_observed_location node) > 19 then take 16 (ni_observed_location node) @ ''...''
                      else ni_observed_location node);
          tasks = to_string (ni_running_tasks node) @ ''/'' @ to_string (ni_max_tasks node)
      in ''|'' @ (if selected then ''>'' else '' '') @ setw 3 (decimal (i + 1)) @ '' |'' @ setw 19 location @ '' |''
         @ setw 7 tasks @ '' |'' @ RenderLoadBar (ni_current_load node) (ni_num_processors node) @ '' |''
         @ setw 7 (FormatMemory dbl (ni_memory_available_in_bytes node)) @ '' |'' @ setw 6 (node_status node) @ '' |'' @ newline)"

definition ruler :: string where
  "ruler = ''+----+---------------------+--------+---------+--------+--------+'' @ newline"

text \<open>An index outside the list is undefined behaviour.\<close>

definition rows_shown :: "double_ops \<Rightarrow> NodeListView \<Rightarrow> int \<Rightarrow> string list option" where
  "rows_shown dbl v end_index =
     (if nv_scroll_offset v < end_index \<and> nv_scroll_offset v < 0 then None
      else Some (map (\<lambda>i. render_row dbl (i = nv_selected_index v) i (nv_nodes v ! nat i)) [nv_scroll_offset v..end_index - 1]))"

definition list_Render :: "double_ops \<Rightarrow> NodeListView \<Rightarrow> string option" where
  "list_Render dbl v = do {
     bottom \<leftarrow> add_int (nv_scroll_offset v) (nv_visible_count v);
     let end_index = min bottom (int (length (nv_nodes v)));
     rows \<leftarrow> rows_shown dbl v end_index;
     Some (ruler @ ''| Id | Location            | Tasks  | Load    | Memory | Status |'' @ newline @ ruler @ concat rows @ ruler
       @ ''Total: '' @ to_string (length (nv_nodes v)) @ '' nodes, showing '' @ decimal (end_index - nv_scroll_offset v)
       @ '' nodes from '' @ decimal (nv_scroll_offset v + 1) @ '' to '' @ decimal end_index @ newline) }"

section \<open>The panel\<close>

text \<open>The panel keeps a pointer to a node, or none.\<close>

record NodeDetailPanel =
  np_node :: "NodeInfo option"

definition SetNode :: "NodeInfo option \<Rightarrow> NodeDetailPanel \<Rightarrow> NodeDetailPanel" where
  "SetNode node p = p\<lparr> np_node := node \<rparr>"

definition panel_Clear :: "NodeDetailPanel \<Rightarrow> NodeDetailPanel" where
  "panel_Clear p = p\<lparr> np_node := None \<rparr>"

definition mem_pct :: "double_ops \<Rightarrow> NodeInfo \<Rightarrow> rat" where
  "mem_pct dbl node =
     (if ni_total_memory_in_bytes node > 0
      then (let rd = dbl_round dbl;
                used = rd (rd (of_nat (ni_memory_available_in_bytes node)) / rd (of_nat (ni_total_memory_in_bytes node)))
            in rd (100 * rd (1 - used)))
      else 0)"

definition task_pct :: "double_ops \<Rightarrow> NodeInfo \<Rightarrow> rat" where
  "task_pct dbl node =
     (if ni_max_tasks node > 0
      then (let rd = dbl_round dbl in rd (rd (100 * rd (of_nat (ni_running_tasks node))) / rd (of_nat (ni_max_tasks node))))
      else 0)"

definition priority_text :: "nat \<Rightarrow> string" where
  "priority_text priority = (if priority = 1 then ''DEDICATED'' else if priority = 2 then ''USER'' else ''UNKNOWN'')"

definition reason_text :: "nat \<Rightarrow> string" where
  "reason_text reason =
     (if reason = 1 then ''USER_INSTRUCTED'' else if reason = 2 then ''POOR_MACHINE'' else if reason = 3 then ''CGROUPS_PRESENT''
      else if reason = 4 then ''BEHIND_NAT'' else ''UNKNOWN'')"

definition panel_lines :: "double_ops \<Rightarrow> NodeInfo \<Rightarrow> string list" where
  "panel_lines dbl node =
     [''=== Node Detail ==='', [], ''Location:'', ''  Observed: '' @ ni_observed_location node, ''  Reported: '' @ ni_reported_location node]
     @ (if ni_is_nat node then [''  [WARNING: Behind NAT?]''] else [])
     @ [[], ''Version: '' @ decimal (ni_version node),
        [], ''Resources:'', ''  Processors: '' @ to_string (ni_num_processors node), ''  Current Load: '' @ to_string (ni_current_load node),
        ''  Load Bar: '' @ RenderLoadBar (ni_current_load node) (ni_num_processors node),
        [], ''Memory:'', ''  Total: '' @ FormatMemory dbl (ni_total_memory_in_bytes node),
        ''  Available: '' @ FormatMemory dbl (ni_memory_available_in_bytes node),
        ''  Usage: '' @ RenderPercentageBar (mem_pct dbl node),
        [], ''Tasks:'', ''  Running: '' @ to_string (ni_running_tasks node), ''  Max Allowed: '' @ to_string (ni_max_tasks node),
        ''  Ever Assigned: '' @ to_string (ni_ever_assigned_tasks node),
        ''  Utilization: '' @ RenderPercentageBar (task_pct dbl node),
        [], ''Priority: '' @ priority_text (ni_priority node)]
     @ (if ni_max_tasks node = 0 then [''Not Accepting Reason: '' @ reason_text (ni_not_accepting_task_reason node)] else [])
     @ [[], ''Environments ('' @ to_string (length (ni_environments node)) @ ''):'']
     @ map (\<lambda>env. ''  - '' @ env) (ni_environments node)"

definition panel_Render :: "double_ops \<Rightarrow> NodeDetailPanel \<Rightarrow> string" where
  "panel_Render dbl p =
     (case np_node p of
        None \<Rightarrow> ''No node selected.'' @ newline
      | Some node \<Rightarrow> concat (map (\<lambda>l. l @ newline) (panel_lines dbl node)))"

section \<open>What the console knows of a servant\<close>

fun reason_number :: "NotAcceptingTaskReason \<Rightarrow> nat" where
  "reason_number NOT_ACCEPTING_TASK_REASON_USER_INSTRUCTED = 1"
| "reason_number NOT_ACCEPTING_TASK_REASON_POOR_MACHINE = 2"
| "reason_number NOT_ACCEPTING_TASK_REASON_CGROUPS_PRESENT = 3"
| "reason_number NOT_ACCEPTING_TASK_REASON_BEHIND_NAT = 4"
| "reason_number _ = 0"

fun priority_number :: "ServantPriority \<Rightarrow> nat" where
  "priority_number SERVANT_PRIORITY_UNKNOWN = 0"
| "priority_number SERVANT_PRIORITY_DEDICATED = 1"
| "priority_number SERVANT_PRIORITY_USER = 2"

definition node_of :: "ServantDesc \<Rightarrow> NodeInfo" where
  "node_of entry =
     (let p = sd_personality entry in
      \<lparr> ni_observed_location = sp_observed_location p, ni_reported_location = sp_reported_location p, ni_version = sp_version p,
        ni_num_processors = sp_num_processors p, ni_current_load = sp_current_load p,
        ni_total_memory_in_bytes = sp_total_memory_in_bytes p div 2 ^ 20 * 2 ^ 20,
        ni_memory_available_in_bytes = sp_memory_available_in_bytes p div 2 ^ 20 * 2 ^ 20,
        ni_max_tasks = sp_max_tasks p, ni_running_tasks = sd_running_tasks entry, ni_ever_assigned_tasks = sd_ever_assigned_tasks entry,
        ni_priority = priority_number (sp_priority p),
        ni_not_accepting_task_reason = (if sp_max_tasks p = 0 then reason_number (sp_not_accepting_task_reason p) else 0),
        ni_environments = map ed_compiler_digest (sp_environments p),
        ni_is_nat = (sp_observed_location p \<noteq> sp_reported_location p) \<rparr>)"

text \<open>The numbers of a servant are of the types they have in the source.\<close>

definition machine_sized :: "ServantDesc \<Rightarrow> bool" where
  "machine_sized entry \<longleftrightarrow>
     (let p = sd_personality entry in
      - (2 ^ 31) \<le> sp_version p \<and> sp_version p < 2 ^ 31 \<and> sp_num_processors p < 2 ^ 64 \<and> sp_current_load p < 2 ^ 64 \<and>
      sp_total_memory_in_bytes p < 2 ^ 64 \<and> sp_memory_available_in_bytes p < 2 ^ 64 \<and> sp_max_tasks p < 2 ^ 64 \<and>
      sd_running_tasks entry < 2 ^ 64 \<and> sd_ever_assigned_tasks entry < 2 ^ 64)"

lemma json_asUInt64_JNat: "n < 2 ^ 64 \<Longrightarrow> json_asUInt64 (JNat n) = Some n"
  by (simp add: in_range_def)

lemma json_asInt_JInt: "- (2 ^ 31) \<le> i \<Longrightarrow> i < 2 ^ 31 \<Longrightarrow> json_asInt (JInt i) = Some i"
  by (simp add: in_range_def)

lemma mb_of_megabytes: "n < 2 ^ 64 \<Longrightarrow> mb (n div 1024 div 1024) = n div 2 ^ 20 * 2 ^ 20"
proof -
  assume "n < 2 ^ 64"
  moreover have "n div 2 ^ 20 * 2 ^ 20 \<le> n" by simp
  ultimately have "n div 2 ^ 20 * 2 ^ 20 < 2 ^ 64" by (rule le_less_trans [rotated])
  then show ?thesis by (simp add: mb_def div_mult2_eq [symmetric])
qed

lemma those_Somes: "(\<And>x. x \<in> set xs \<Longrightarrow> f x = Some (g x)) \<Longrightarrow> those (map f xs) = Some (map g xs)"
  by (induction xs) auto

lemma priority_of_ServantPriority_Name: "priority_of_name (ServantPriority_Name p) = priority_number p"
  by (cases p) (simp_all add: priority_of_name_def)

lemma reason_of_NotAcceptingTaskReason_Name: "reason_of_name (NotAcceptingTaskReason_Name r) = reason_number r"
  by (cases r) (simp_all add: reason_of_name_def)

lemma read_numbers_dump:
  assumes "machine_sized entry"
  shows "read_numbers (dump_servant fmt d entry) info =
    Some (info\<lparr> ni_version := ni_version (node_of entry), ni_num_processors := ni_num_processors (node_of entry),
      ni_current_load := ni_current_load (node_of entry), ni_total_memory_in_bytes := ni_total_memory_in_bytes (node_of entry),
      ni_memory_available_in_bytes := ni_memory_available_in_bytes (node_of entry), ni_max_tasks := ni_max_tasks (node_of entry),
      ni_running_tasks := ni_running_tasks (node_of entry), ni_ever_assigned_tasks := ni_ever_assigned_tasks (node_of entry) \<rparr>)"
proof -
  let ?p = "sd_personality entry"
  have small: "n < 2 ^ 64 \<Longrightarrow> n div 1024 div 1024 < 2 ^ 64" for n :: nat by (meson div_le_dividend le_less_trans)
  have "- (2 ^ 31) \<le> sp_version ?p" "sp_version ?p < 2 ^ 31" and mem: "sp_total_memory_in_bytes ?p < 2 ^ 64" "sp_memory_available_in_bytes ?p < 2 ^ 64"
    and nums: "sp_num_processors ?p < 2 ^ 64" "sp_current_load ?p < 2 ^ 64" "sp_max_tasks ?p < 2 ^ 64"
      "sd_running_tasks entry < 2 ^ 64" "sd_ever_assigned_tasks entry < 2 ^ 64"
    using assms by (auto simp: machine_sized_def Let_def)
  then have version: "json_asInt (JInt (sp_version ?p)) = Some (sp_version ?p)" by (intro json_asInt_JInt)
  note sized = nums [THEN json_asUInt64_JNat] mem [THEN small, THEN json_asUInt64_JNat] mem [THEN mb_of_megabytes]
  show ?thesis
    by (simp add: read_numbers_def dump_servant_def node_of_def Let_def version sized
        del: json_asUInt64.simps(3) json_asInt.simps(3))
qed

lemma fetch_location_dump:
  "fetch_location (dump_servant fmt d entry) =
     Some (ni_observed_location (node_of entry), ni_reported_location (node_of entry), ni_is_nat (node_of entry))"
  by (simp add: fetch_location_def dump_servant_def node_of_def Let_def)

lemma read_priority_dump:
  "read_name priority_of_name (dump_servant fmt d entry) ''priority'' = Some (ni_priority (node_of entry))"
  by (simp add: read_name_def dump_servant_def node_of_def Let_def priority_of_ServantPriority_Name)

lemma read_reason_dump:
  "read_name reason_of_name (dump_servant fmt d entry) ''not_accepting_task_reason'' = Some (ni_not_accepting_task_reason (node_of entry))"
  by (simp add: read_name_def dump_servant_def node_of_def Let_def reason_of_NotAcceptingTaskReason_Name)

lemma environments_dump:
  "\<exists>envs. json_member (dump_servant fmt d entry) ''environments'' = Some envs
     \<and> those (map json_asString (json_elements envs)) = Some (ni_environments (node_of entry))"
proof (cases "sp_environments (sd_personality entry) = []")
  case True
  then show ?thesis by (simp add: dump_servant_def node_of_def Let_def)
next
  case False
  have "those (map json_asString (map (\<lambda>e. JString (ed_compiler_digest e)) es)) = Some (map ed_compiler_digest es)"
    for es :: "EnvironmentDesc list" by (induction es) auto
  with False show ?thesis by (simp add: dump_servant_def node_of_def Let_def)
qed

lemma fetch_node_dump:
  assumes "machine_sized entry"
  shows "fetch_node (dump_servant fmt d entry) = Some (node_of entry)"
  using environments_dump [of fmt d entry]
  by (auto simp: fetch_node_def fetch_location_dump read_numbers_dump [OF assms] read_priority_dump read_reason_dump empty_node_def)

text \<open>The console shows the servants the dispatcher knows, in its order, with all that is known about them:
  sizes of memory in whole megabytes, and of the reasons a servant gives for not accepting tasks all but the one
  the scheduler gives itself, that the servant could not be verified.\<close>

theorem console_shows_cluster:
  assumes "\<forall>r\<in>set (td_servants d). machine_sized (td_heap d r)"
  shows "FetchAllNodeInfos fmt_time d = Some (map (\<lambda>r. node_of (td_heap d r)) (td_servants d))"
proof (cases "td_servants d = []")
  case True
  then show ?thesis by (simp add: FetchAllNodeInfos_def GetClusterStats_def dump_numbers_def Let_def)
next
  case False
  have "those (map (\<lambda>r. fetch_node (dump_servant fmt_time d (td_heap d r))) (td_servants d)) = Some (map (\<lambda>r. node_of (td_heap d r)) (td_servants d))"
    by (rule those_Somes) (use assms fetch_node_dump in blast)
  with False show ?thesis by (simp add: FetchAllNodeInfos_def GetClusterStats_def comp_def)
qed

section \<open>The list stays within its nodes\<close>

datatype list_call = CallSetNodes "NodeInfo list" | CallSelect int | CallScroll int | CallSetVisibleCount int

fun list_step :: "list_call \<Rightarrow> NodeListView \<Rightarrow> NodeListView option" where
  "list_step (CallSetNodes nodes) v = Some (SetNodes nodes v)"
| "list_step (CallSelect index) v = Some (Select index v)"
| "list_step (CallScroll delta) v = Scroll delta v"
| "list_step (CallSetVisibleCount count) v = Some (SetVisibleCount count v)"

definition view_inv :: "NodeListView \<Rightarrow> bool" where
  "view_inv v \<longleftrightarrow> 0 \<le> nv_selected_index v \<and> nv_selected_index v \<le> last_index (nv_nodes v) \<and> 0 \<le> nv_scroll_offset v"

lemma Scroll_dest:
  assumes "Scroll delta v = Some w"
  obtains a i where "w = v\<lparr> nv_scroll_offset := min (max 0 a) (max 0 (int (length (nv_nodes v)) - nv_visible_count v)),
    nv_selected_index := max 0 (min i (int (length (nv_nodes v)) - 1)) \<rparr>"
proof -
  obtain b where "add_int (int (length (nv_nodes v))) (- nv_visible_count v) = Some b"
    using assms by (auto simp: Scroll_def split: bind_splits)
  moreover from this have "b = int (length (nv_nodes v)) - nv_visible_count v"
    by (simp add: add_int_def in_range_def split: if_splits)
  ultimately show thesis using assms that by (auto simp: Scroll_def Let_def split: bind_splits)
qed

lemma list_step_inv: "view_inv v \<Longrightarrow> list_step c v = Some w \<Longrightarrow> view_inv w"
proof (cases c)
  case (CallScroll delta)
  assume "view_inv v" "list_step c v = Some w"
  with CallScroll have "Scroll delta v = Some w" by simp
  then show ?thesis by (rule Scroll_dest) (auto simp: view_inv_def last_index_def min_def)
qed (auto simp: view_inv_def SetNodes_def Select_def SetVisibleCount_def last_index_def)

interpretation node_list: checked_machine list_step view_inv
  by unfold_locales (rule list_step_inv)

lemma view_inv_ctor: "view_inv NodeListView_ctor"
  by (simp add: view_inv_def NodeListView_ctor_def last_index_def)

lemma add_int_small: "- (2 ^ 31) \<le> i + j \<Longrightarrow> i + j < 2 ^ 31 \<Longrightarrow> add_int i j = Some (i + j)"
  by (simp add: add_int_def in_range_def)

text \<open>Whatever nodes are set and however the list is scrolled, a node is selected exactly when there is one, and
  showing the list reads existing nodes only, at most as many as are visible.\<close>

theorem node_list_in_bounds:
  assumes "run_calls list_step cs NodeListView_ctor = Some v"
    and "0 \<le> nv_visible_count v" and "nv_scroll_offset v + nv_visible_count v < 2 ^ 31"
  shows "(GetSelectedNode v = None \<longleftrightarrow> nv_nodes v = [])
    \<and> (\<exists>end_index rows. rows_shown dbl v end_index = Some rows \<and> end_index \<le> int (length (nv_nodes v))
        \<and> int (length rows) \<le> nv_visible_count v \<and> list_Render dbl v \<noteq> None)"
proof -
  have inv: "view_inv v" using node_list.run_calls_inv [OF view_inv_ctor assms(1)] .
  then have "GetSelectedNode v = None \<longleftrightarrow> nv_nodes v = []"
    by (auto simp: GetSelectedNode_def view_inv_def last_index_def split: if_splits)
  moreover have sum: "add_int (nv_scroll_offset v) (nv_visible_count v) = Some (nv_scroll_offset v + nv_visible_count v)"
    using inv assms(2,3) by (intro add_int_small) (auto simp: view_inv_def)
  let ?last = "min (nv_scroll_offset v + nv_visible_count v) (int (length (nv_nodes v)))"
  obtain rows where rows: "rows_shown dbl v ?last = Some rows" "int (length rows) \<le> nv_visible_count v"
    using inv assms(2) by (auto simp: rows_shown_def view_inv_def min_def split: if_splits)
  moreover have "list_Render dbl v \<noteq> None" using rows(1) by (simp add: list_Render_def sum Let_def)
  ultimately show ?thesis by (metis min.cobounded2)
qed

text \<open>Setting the nodes keeps the offset of a longer list: after scrolling, the nodes that are left are not shown
  although one of them is selected, and the number of nodes shown is negative.\<close>

theorem stale_offset_hides_nodes:
  "\<exists>v. run_calls list_step [CallSetNodes (replicate 12 empty_node), CallScroll 2, CallSetNodes [empty_node]] NodeListView_ctor = Some v
     \<and> GetSelectedNode v = Some empty_node \<and> list_Render dbl v = Some (ruler
       @ ''| Id | Location            | Tasks  | Load    | Memory | Status |'' @ newline @ ruler @ ruler
       @ ''Total: 1 nodes, showing -1 nodes from 3 to 1'' @ newline)"
proof -
  let ?v = "\<lparr> nv_nodes = [empty_node], nv_selected_index = 0, nv_scroll_offset = 2, nv_visible_count = 10 \<rparr>"
  have run: "run_calls list_step [CallSetNodes (replicate 12 empty_node), CallScroll 2, CallSetNodes [empty_node]] NodeListView_ctor = Some ?v"
    by (simp add: NodeListView_ctor_def SetNodes_def Scroll_def Let_def add_int_def in_range_def last_index_def)
  have digits: "to_string 1 = ''1''" "to_string 3 = ''3''" by code_simp+
  then have "decimal (- 1) = ''-1''" "decimal 3 = ''3''" "decimal 1 = ''1''" by (simp_all add: decimal_def)
  with digits have "list_Render dbl ?v = Some (ruler
       @ ''| Id | Location            | Tasks  | Load    | Memory | Status |'' @ newline @ ruler @ ruler
       @ ''Total: 1 nodes, showing -1 nodes from 3 to 1'' @ newline)"
    by (simp add: list_Render_def Let_def add_int_def in_range_def rows_shown_def)
  with run show ?thesis by (intro exI [of _ ?v]) (simp add: GetSelectedNode_def)
qed

section \<open>Concrete instances\<close>

definition demo_console_servant :: ServantDesc where
  "demo_console_servant = \<lparr> sd_personality = \<lparr> sp_version = 8, sp_observed_location = ''10.0.0.1:1'', sp_reported_location = ''10.0.0.2:1'',
       sp_environments = [\<lparr> ed_compiler_digest = ''gcc'' \<rparr>], sp_num_processors = 8, sp_current_load = 3,
       sp_total_memory_in_bytes = 3145729, sp_memory_available_in_bytes = 1048576, sp_max_tasks = 0,
       sp_priority = SERVANT_PRIORITY_USER, sp_not_accepting_task_reason = NOT_ACCEPTING_TASK_REASON_NOT_VERIFIED \<rparr>,
     sd_discovered_at = 0, sd_expires_at = 1, sd_running_tasks = 0, sd_ever_assigned_tasks = 5 \<rparr>"

definition demo_dispatcher :: TaskDispatcher where
  "demo_dispatcher = \<lparr> td_servants = [0], td_heap = (\<lambda>_. demo_console_servant), td_next_ref = 1, td_next_task_id = 1, td_tasks = [],
     td_bookkeeper = [], td_min_memory_for_new_task = 0, td_notifications = 0 \<rparr>"

lemma console_shows_cluster_witness:
  "map_option (map ni_not_accepting_task_reason) (FetchAllNodeInfos (\<lambda>_. ''now'') demo_dispatcher) = Some [0]"
  using console_shows_cluster [of demo_dispatcher "\<lambda>_. ''now''"]
  by (simp add: demo_dispatcher_def demo_console_servant_def machine_sized_def node_of_def)

lemma node_list_in_bounds_witness:
  "GetSelectedNode \<lparr> nv_nodes = [empty_node], nv_selected_index = 0, nv_scroll_offset = 0, nv_visible_count = 10 \<rparr> \<noteq> None"
  using node_list_in_bounds [of "[CallSetNodes [empty_node]]"]
  by (simp add: NodeListView_ctor_def SetNodes_def)

text \<open>The texts the tests of the console expect.\<close>

lemma FormatMemory_kilobyte: "FormatMemory exact_double 1024 = ''1.00 KB''"
proof -
  have "scale_memory exact_double (Suc (Suc (Suc (Suc 0)))) 0 1024 = (1, 1)" by (simp add: exact_double_def)
  moreover have "print_fixed2 1 = ''1.00''"
  proof -
    have "hundredths 1 = 100" by (simp add: hundredths_def)
    moreover have "to_string 1 = ''1''" "to_string 0 = ''0''" by code_simp+
    ultimately show ?thesis by (simp add: print_fixed2_def)
  qed
  moreover have "dbl_round exact_double (of_nat 1024) = 1024" by (simp add: exact_double_def)
  ultimately show ?thesis by (simp add: FormatMemory_def numeral_nat(1) eval_nat_numeral(2,3) del: scale_memory.simps)
qed

lemma FormatDuration_hour: "FormatDuration 3665 = ''1h 1m''"
  by code_simp

end
