(* ===== verification/Multi_Chunk.thy ===== *)
theory Multi_Chunk
  imports Flare_Api
begin

text \<open>
  The framing of the messages between the compiler wrapper and the local daemon, which each side
  implements for itself: \<^verbatim>\<open>client/common/multi_chunk.cc\<close> (with the string helpers of
  \<^verbatim>\<open>client/common/utility.cc\<close> and C's \<open>strtol\<close>) and \<^verbatim>\<open>daemon/local/multi_chunk.cc\<close> (with Flare's). The
  sizes of the chunks are listed, separated by commas and ended by CR LF, and followed by the
  chunks.
\<close>

section \<open>String helpers of the client\<close>

definition client_StartsWith :: "string \<Rightarrow> string \<Rightarrow> bool" where
  "client_StartsWith s pattern \<longleftrightarrow> length s \<ge> length pattern \<and> take (length pattern) s = pattern"

definition client_EndsWith :: "string \<Rightarrow> string \<Rightarrow> bool" where
  "client_EndsWith s pattern \<longleftrightarrow> length s \<ge> length pattern \<and> drop (length s - length pattern) s = pattern"

text \<open>\<open>find\<close>: the position of the first occurrence.\<close>

fun find_substring :: "string \<Rightarrow> string \<Rightarrow> nat option" where
  "find_substring pattern [] = (if pattern = [] then Some 0 else None)"
| "find_substring pattern (c # cs) =
     (if prefix pattern (c # cs) then Some 0 else map_option Suc (find_substring pattern cs))"

lemma find_substring_bound: "find_substring p s = Some n \<Longrightarrow> n + length p \<le> length s"
  by (induction s arbitrary: n) (auto split: if_splits dest: prefix_length_le)

lemma find_substring_prefix: "find_substring p s = Some n \<Longrightarrow> prefix p (drop n s)"
  by (induction s arbitrary: n) (auto split: if_splits)

lemma find_substring_append: "find_substring p s = Some n \<Longrightarrow> find_substring p (s @ t) = Some n"
proof (induction s arbitrary: n)
  case Nil
  then show ?case by (cases t) (auto split: if_splits)
next
  case (Cons c cs)
  have "prefix p (c # cs)" if "find_substring p cs = Some z" "prefix p ((c # cs) @ t)" for z
    by (rule prefix_length_prefix [OF that(2)]) (use find_substring_bound [OF that(1)] in auto)
  moreover have "prefix p ((c # cs) @ t)" if "prefix p (c # cs)" using that by (rule prefix_prefix)
  ultimately show ?case using Cons by (auto split: if_splits)
qed

function (sequential) Split_loop :: "string \<Rightarrow> string \<Rightarrow> string list" where
  "Split_loop [] rest = []"
| "Split_loop (p # ps) rest =
     (case find_substring (p # ps) rest of
        None \<Rightarrow> (if rest = [] then [] else [rest])
      | Some pos \<Rightarrow> (if take pos rest = [] then [] else [take pos rest]) @ Split_loop (p # ps) (drop (pos + length (p # ps)) rest))"
  by pat_completeness auto
termination
  by (relation "measure (\<lambda>(p, r). length r)") (auto dest: find_substring_bound)

text \<open>The outer option is the check on the pattern.\<close>

definition client_Split :: "string \<Rightarrow> string \<Rightarrow> string list option" where
  "client_Split txt pattern = (if txt = [] then Some [] else if pattern = [] then None else Some (Split_loop pattern txt))"

definition client_Join :: "string list \<Rightarrow> string \<Rightarrow> string" where
  "client_Join parts delim =
     (let result = concat (map (\<lambda>e. e @ delim) parts)
      in if result = [] then [] else take (length result - length delim) result)"

definition client_GetBaseName :: "string \<Rightarrow> string" where
  "client_GetBaseName name = (if CHR ''/'' \<in> set name then rev (takeWhile (\<lambda>c. c \<noteq> CHR ''/'') (rev name)) else name)"

definition client_GetPathName :: "string \<Rightarrow> string option" where
  "client_GetPathName name =
     (if CHR ''/'' \<in> set name then Some (rev (tl (dropWhile (\<lambda>c. c \<noteq> CHR ''/'') (rev name)))) else None)"

abbreviation LONG_MAX :: int where "LONG_MAX \<equiv> 9223372036854775807"
abbreviation LONG_MIN :: int where "LONG_MIN \<equiv> -9223372036854775808"

text \<open>\<open>strtol\<close> in base ten: white space, a sign, digits; the value saturates.\<close>

definition strtol :: "string \<Rightarrow> int" where
  "strtol s =
     (let t = dropWhile (\<lambda>c. c \<in> {CHR '' '', CHR 0x09, CHR 0x0A, CHR 0x0B, CHR 0x0C, CHR 0x0D}) s;
          neg = (t \<noteq> [] \<and> hd t = CHR ''-'');
          u = (if t \<noteq> [] \<and> hd t \<in> {CHR ''-'', CHR ''+''} then tl t else t);
          v = (case parse_digits 0 (takeWhile (\<lambda>c. digit_value c \<noteq> None) u) of Some n \<Rightarrow> int n | None \<Rightarrow> 0)
      in max LONG_MIN (min LONG_MAX (if neg then - v else v)))"

section \<open>The client\<close>

abbreviation CRLF :: string where "CRLF \<equiv> [CHR 0x0D, CHR 0x0A]"

definition MakeMultiChunkHeader :: "string list \<Rightarrow> string" where
  "MakeMultiChunkHeader parts =
     (if parts = [] then [] else butlast (concat (map (\<lambda>e. to_string (length e) @ '','') parts)) @ CRLF)"

definition client_MakeMultiChunk :: "string list \<Rightarrow> string" where
  "client_MakeMultiChunk parts =
     (if parts = [] then []
      else butlast (concat (map (\<lambda>e. to_string (length e) @ '','') parts)) @ CRLF @ concat parts)"

text \<open>Removing a prefix longer than the rest is undefined: the outer option.\<close>

fun client_cut :: "nat list \<Rightarrow> string \<Rightarrow> string list option" where
  "client_cut [] rest_bytes = Some []"
| "client_cut (e # es) rest_bytes =
     (if e > length rest_bytes then None else map_option (Cons (take e rest_bytes)) (client_cut es (drop e rest_bytes)))"

definition client_TryParseMultiChunk :: "string \<Rightarrow> string list option option" where
  "client_TryParseMultiChunk view =
     (if view = [] then Some (Some [])
      else
        (case find_substring [CHR 0x0A] view of
           None \<Rightarrow> Some None
         | Some delim \<Rightarrow>
             if delim = 0 \<or> view ! (delim - 1) \<noteq> CHR 0x0D then Some None
             else
               (case client_Split (take (delim - 1) view) '','' of
                  None \<Rightarrow> None
                | Some sizes \<Rightarrow>
                    (let rest_bytes = drop (delim + 1) view; parsed = map strtol sizes in
                     if \<exists>v\<in>set parsed. v \<le> 0 \<or> v = LONG_MAX \<or> v = LONG_MIN then Some None
                     else if sum_list (map nat parsed) mod 2 ^ 64 \<noteq> length rest_bytes then Some None
                     else map_option Some (client_cut (map nat parsed) rest_bytes)))))"

section \<open>The daemon\<close>

definition daemon_MakeMultiChunk :: "bytes list \<Rightarrow> bytes" where
  "daemon_MakeMultiChunk buffers =
     (if buffers = [] then []
      else (butlast (concat (map (\<lambda>e. to_string (length e) @ '','') buffers)) @ CRLF) @ concat buffers)"

text \<open>\<open>FlattenSlowUntil\<close> is Flare's: the bytes up to and with the first delimiter, or as many as are
  allowed.\<close>

definition flatten_until :: "(bytes \<Rightarrow> string \<Rightarrow> nat \<Rightarrow> bytes) \<Rightarrow> bool" where
  "flatten_until f \<longleftrightarrow> (\<forall>b d n p. find_substring d b = Some p \<longrightarrow> p + length d \<le> n \<longrightarrow> f b d n = take (p + length d) b)"

fun parse_all :: "(string \<Rightarrow> nat option) \<Rightarrow> string list \<Rightarrow> nat list option" where
  "parse_all f [] = Some []"
| "parse_all f (e # es) = (case f e of None \<Rightarrow> None | Some n \<Rightarrow> map_option (Cons n) (parse_all f es))"

text \<open>Cutting more bytes than there are violates the requirement of \<open>Cut\<close>: the outer option.\<close>

definition daemon_TryParseMultiChunk ::
  "flare \<Rightarrow> (bytes \<Rightarrow> string \<Rightarrow> nat \<Rightarrow> bytes) \<Rightarrow> bytes \<Rightarrow> bytes list option option" where
  "daemon_TryParseMultiChunk fl FlattenSlowUntil buffer =
     (if buffer = [] then Some (Some [])
      else
        (let sizes = FlattenSlowUntil buffer CRLF 20480 in
         if \<not> fl_EndsWith fl sizes CRLF then Some None
         else
           (let rest = drop (length sizes) buffer in
            case parse_all (fl_TryParse_size_t fl) (fl_Split fl (butlast (butlast sizes)) CHR '','' False) of
              None \<Rightarrow> Some None
            | Some parsed_sizes \<Rightarrow>
                if length rest \<noteq> sum_list parsed_sizes mod 2 ^ 64 then Some None
                else map_option Some (client_cut parsed_sizes rest))))"

section \<open>Lemmas\<close>

lemma butlast_sizes: "butlast (concat (map (\<lambda>e. f e @ [d]) (x # xs))) = f x @ concat (map (\<lambda>e. d # f e) xs)"
proof (induction xs arbitrary: x)
  case (Cons y ys)
  have "butlast (concat (map (\<lambda>e. f e @ [d]) (x # y # ys))) = f x @ d # butlast (concat (map (\<lambda>e. f e @ [d]) (y # ys)))"
    by (simp add: butlast_append)
  with Cons show ?case by simp
qed simp

lemma split_sizes:
  assumes "\<And>e. d \<notin> set (f e)"
  shows "split_at_char d (f x @ concat (map (\<lambda>e. d # f e) xs)) = map f (x # xs)"
proof (induction xs arbitrary: x)
  case Nil
  show ?case using split_at_char_no_delim [OF assms] by simp
next
  case (Cons y ys)
  have "split_at_char d (f x @ d # (f y @ concat (map (\<lambda>e. d # f e) ys))) = f x # split_at_char d (f y @ concat (map (\<lambda>e. d # f e) ys))"
    by (rule split_at_char_append_delim [OF assms])
  with Cons show ?case by simp
qed

lemma find_char: "find_substring [d] s = (if d \<in> set s then Some (length (takeWhile (\<lambda>c. c \<noteq> d) s)) else None)"
  by (induction s) auto

lemma split_at_char_takeWhile:
  "d \<in> set s \<Longrightarrow> split_at_char d s = takeWhile (\<lambda>c. c \<noteq> d) s # split_at_char d (drop (Suc (length (takeWhile (\<lambda>c. c \<noteq> d) s))) s)"
  by (induction s) auto

text \<open>The client's splitting at one character is the one that drops empty pieces.\<close>

lemma Split_loop_char: "Split_loop [d] s = filter (\<lambda>p. p \<noteq> []) (split_at_char d s)"
proof (induction "length s" arbitrary: s rule: less_induct)
  case less
  show ?case
  proof (cases "d \<in> set s")
    case True
    let ?n = "length (takeWhile (\<lambda>c. c \<noteq> d) s)"
    have "?n < length s" using True by (induction s) auto
    then have "Split_loop [d] (drop (Suc ?n) s) = filter (\<lambda>p. p \<noteq> []) (split_at_char d (drop (Suc ?n) s))"
      by (intro less) simp
    moreover have "take ?n s = takeWhile (\<lambda>c. c \<noteq> d) s" by (simp add: takeWhile_eq_take [symmetric])
    ultimately show ?thesis using True by (simp add: find_char split_at_char_takeWhile [OF True] del: drop_Suc)
  qed (simp add: find_char split_at_char_no_delim)
qed

lemma client_cut_concat: "client_cut (map length parts) (concat parts) = Some parts"
  by (induction parts) auto

lemma takeWhile_digits_to_string: "takeWhile (\<lambda>c. digit_value c \<noteq> None) (to_string n) = to_string n"
  using digit_value_to_string by (simp add: takeWhile_eq_all_conv)

lemma to_string_no_special: "CHR '','' \<notin> set (to_string n)" "CHR 0x0D \<notin> set (to_string n)" "CHR 0x0A \<notin> set (to_string n)"
  using digit_value_to_string digit_value_special by blast+

lemma strtol_to_string: "int n < LONG_MAX \<Longrightarrow> strtol (to_string n) = int n"
proof -
  assume n: "int n < LONG_MAX"
  obtain c cs where c: "to_string n = c # cs" by (cases "to_string n") auto
  have "digit_value c \<noteq> None" using digit_value_to_string [of c n] c by simp
  then have "c \<notin> {CHR '' '', CHR 0x09, CHR 0x0A, CHR 0x0B, CHR 0x0C, CHR 0x0D}" "c \<notin> {CHR ''-'', CHR ''+''}"
    by (auto simp: digit_value_def split: if_splits)
  then show ?thesis
    using n c takeWhile_digits_to_string [of n] parse_digits_to_string [of n] by (simp add: strtol_def Let_def)
qed

text \<open>The header both sides write, and the two ways of finding its end.\<close>

definition chunk_sizes :: "string list \<Rightarrow> string" where
  "chunk_sizes parts = butlast (concat (map (\<lambda>e. to_string (length e) @ '','') parts))"

lemma chunk_sizes_chars: "c \<in> set (chunk_sizes parts) \<Longrightarrow> digit_value c \<noteq> None \<or> c = CHR '',''"
  using digit_value_to_string by (auto simp: chunk_sizes_def dest!: in_set_butlastD split: if_splits)

lemma chunk_sizes_split: "parts \<noteq> [] \<Longrightarrow> split_at_char CHR '','' (chunk_sizes parts) = map (to_string \<circ> length) parts"
proof -
  assume "parts \<noteq> []"
  then obtain x xs where p: "parts = x # xs" by (cases parts) auto
  show ?thesis
    using split_sizes [of "CHR '',''" "\<lambda>e. to_string (length e)" x xs] to_string_no_special(1)
      butlast_sizes [of "\<lambda>e. to_string (length e)" "CHR '',''" x xs]
    by (simp add: p chunk_sizes_def)
qed

lemma find_CR_LF:
  assumes "CHR 0x0D \<notin> set h"
  shows "find_substring CRLF (h @ CRLF @ r) = Some (length h)"
  using assms by (induction h) auto

lemma flatten_header:
  assumes "flatten_until f" "CHR 0x0D \<notin> set h" "length h + 2 \<le> n"
  shows "f (h @ CRLF @ r) CRLF n = h @ CRLF"
proof -
  have "f (h @ CRLF @ r) CRLF n = take (length h + length CRLF) (h @ CRLF @ r)"
    using assms(1,3) find_CR_LF [OF assms(2), of r] unfolding flatten_until_def by (metis length_Cons list.size(3) numeral_2_eq_2)
  then show ?thesis by simp
qed

lemma filter_nonempty_sizes: "filter (\<lambda>p. p \<noteq> []) (map (to_string \<circ> length) parts) = map (to_string \<circ> length) parts"
  by (simp add: filter_id_conv)

lemma parse_all_to_string:
  assumes "flare_strings fl" "\<forall>e\<in>set parts. length e < 2 ^ 64"
  shows "parse_all (fl_TryParse_size_t fl) (map (to_string \<circ> length) parts) = Some (map length parts)"
  using assms(2) by (induction parts) (auto simp: flare_strings.TryParse_to_string [OF assms(1)])

lemma client_parse_make:
  assumes "parts \<noteq> []" "\<forall>e\<in>set parts. e \<noteq> []" "int (length (concat parts)) < LONG_MAX"
  shows "client_TryParseMultiChunk (chunk_sizes parts @ CRLF @ concat parts) = Some (Some parts)"
proof -
  let ?h = "chunk_sizes parts" and ?sizes = "map (to_string \<circ> length) parts"
  have "CHR 0x0A \<notin> set ?h" "CHR 0x0D \<notin> set ?h" using chunk_sizes_chars [of _ parts] digit_value_special by force+
  then have delim: "find_substring [CHR 0x0A] (?h @ CRLF @ concat parts) = Some (Suc (length ?h))"
    by (auto simp: find_char takeWhile_append)
  have small: "int (length e) < LONG_MAX" if "e \<in> set parts" for e
    using that assms(3) member_le_sum_list [of "length e" "map length parts"] by (simp add: length_concat)
  have ne: "?h \<noteq> []" using chunk_sizes_split [OF assms(1)] assms(1) to_string_nonempty by (cases parts) (auto simp: eq_commute [of "[]"])
  have split: "client_Split ?h '','' = Some ?sizes"
    using ne chunk_sizes_split [OF assms(1)] filter_nonempty_sizes [of parts] by (simp add: client_Split_def Split_loop_char del: Split_loop.simps)
  have parsed: "map strtol ?sizes = map (int \<circ> length) parts" using strtol_to_string small by simp
  have ok: "\<not> (\<exists>v\<in>set (map (int \<circ> length) parts). v \<le> 0 \<or> v = LONG_MAX \<or> v = LONG_MIN)" using assms(2) small by fastforce
  have "sum_list (map nat (map (int \<circ> length) parts)) mod 2 ^ 64 = length (concat parts)"
    using assms(3) by (simp add: length_concat o_def)
  moreover have "client_cut (map nat (map (int \<circ> length) parts)) (concat parts) = Some parts" using client_cut_concat by (simp add: o_def)
  ultimately show ?thesis
    using delim split ok unfolding client_TryParseMultiChunk_def
    by (simp add: nth_append Let_def parsed [unfolded map_map])
qed

lemma daemon_parse_make:
  assumes "flare_strings fl" "flatten_until flatten" "parts \<noteq> []" "length (concat parts) < 2 ^ 64" "length (chunk_sizes parts) + 2 \<le> 20480"
  shows "daemon_TryParseMultiChunk fl flatten (chunk_sizes parts @ CRLF @ concat parts) = Some (Some parts)"
proof -
  let ?h = "chunk_sizes parts" and ?sizes = "map (to_string \<circ> length) parts"
  have "CHR 0x0D \<notin> set ?h" using chunk_sizes_chars [of _ parts] digit_value_special by force
  note flat = flatten_header [OF assms(2) this assms(5), of "concat parts"]
  have "\<forall>e\<in>set parts. length e < 2 ^ 64"
    using assms(4) member_le_sum_list [of _ "map length parts"] by (fastforce simp: length_concat)
  note parse = parse_all_to_string [OF assms(1) this]
  have split: "fl_Split fl ?h CHR '','' False = ?sizes"
    using flare_strings.Split_drop [OF assms(1)] chunk_sizes_split [OF assms(3)] filter_nonempty_sizes [of parts] by simp
  have "fl_EndsWith fl (?h @ CRLF) CRLF" using flare_strings.EndsWith [OF assms(1)] by (simp add: suffix_def)
  moreover have "butlast (butlast (?h @ CRLF)) = ?h" by (simp add: butlast_append)
  moreover have "length (concat parts) = sum_list (map length parts) mod 2 ^ 64" using assms(4) by (simp add: length_concat)
  ultimately show ?thesis
    using flat split parse client_cut_concat [of parts] unfolding daemon_TryParseMultiChunk_def by (simp add: Let_def)
qed

section \<open>Properties\<close>


definition ref_FlattenSlowUntil :: "bytes \<Rightarrow> string \<Rightarrow> nat \<Rightarrow> bytes" where
  "ref_FlattenSlowUntil b d n = (case find_substring d b of Some p \<Rightarrow> take (min n (p + length d)) b | None \<Rightarrow> take n b)"

lemma flatten_until_ref: "flatten_until ref_FlattenSlowUntil"
  by (simp add: flatten_until_def ref_FlattenSlowUntil_def min_absorb2)


lemma length_to_string: "k < 10 ^ Suc m \<Longrightarrow> length (to_string k) \<le> Suc m"
proof (induction m arbitrary: k)
  case 0
  then show ?case by (simp add: to_string.simps [of k])
next
  case (Suc m)
  have "k div 10 < 10 ^ Suc m" using Suc.prems by (simp add: less_mult_imp_div_less mult.commute)
  from Suc.IH [OF this] show ?case by (simp add: to_string.simps [of k])
qed

text \<open>The daemon adds the announced sizes modulo 2^64, so a header can announce chunks that are
  larger than the message and still pass the comparison with its length; the daemon then cuts more bytes than
  there are.\<close>

theorem multi_chunk_size_overflow:
  assumes "flare_strings fl" "flatten_until flatten" "0 < n" "n < 2 ^ 63" "length body < n"
  shows "daemon_TryParseMultiChunk fl flatten (to_string (2 ^ 64 - n + length body) @ '','' @ to_string n @ CRLF @ body) = None"
proof -
  define a where "a = 2 ^ 64 - n + length body"
  let ?h = "to_string a @ '','' @ to_string n"
  have a: "a < 2 ^ 64" "a > length body" "(a + n) mod 2 ^ 64 = length body" using assms(3-5) by (simp_all add: a_def)
  have "length (to_string a) \<le> 20" "length (to_string n) \<le> 20"
    using length_to_string [of a 19] length_to_string [of n 19] a(1) assms(4) by simp_all
  then have len: "length ?h + 2 \<le> 20480" by simp
  have "CHR 0x0D \<notin> set ?h" using to_string_no_special by simp
  note flat = flatten_header [OF assms(2) this len, of body]
  have split: "fl_Split fl ?h CHR '','' False = [to_string a, to_string n]"
    using to_string_no_special(1) by (simp add: flare_strings.Split_drop [OF assms(1)] split_at_char_append_delim split_at_char_no_delim)
  have parse: "parse_all (fl_TryParse_size_t fl) [to_string a, to_string n] = Some [a, n]"
    using a(1) assms(4) by (simp add: flare_strings.TryParse_to_string [OF assms(1)])
  have "fl_EndsWith fl (?h @ CRLF) CRLF" using flare_strings.EndsWith [OF assms(1)] by (simp add: suffix_def)
  moreover have "butlast (butlast (?h @ CRLF)) = ?h" by (simp add: butlast_append)
  moreover have "drop (length (?h @ CRLF)) (?h @ CRLF @ body) = body" by (metis append.assoc append_eq_conv_conj)
  moreover have "client_cut [a, n] body = None" using a(2) by simp
  moreover have "length body = sum_list [a, n] mod 2 ^ 64" using a(3) by simp
  ultimately have "daemon_TryParseMultiChunk fl flatten (?h @ CRLF @ body) = None"
    unfolding daemon_TryParseMultiChunk_def Let_def flat using split parse by (simp del: client_cut.simps sum_list.Cons)
  then show ?thesis by (simp add: a_def)
qed

theorem multi_chunk_size_overflow_witness:
  "daemon_TryParseMultiChunk reference_flare ref_FlattenSlowUntil (to_string (2 ^ 64 - 1) @ '','' @ to_string 2 @ CRLF @ ''x'') = None"
  using multi_chunk_size_overflow [OF flare_strings_reference flatten_until_ref, of 2 "''x''"] by simp

end
