(* ===== verification/Daemon_Call.thy ===== *)
theory Daemon_Call
  imports Multi_Chunk
begin

text \<open>
  The HTTP client of the wrapper (\<^verbatim>\<open>client/common/daemon_call.cc\<close>): the request header, gathering
  writes, timed reads and the reading of a response. What the operating system answers to a round of
  one of the loops (clock, \<open>poll\<close>, then \<open>read\<close> or \<open>writev\<close>) is an event of a script; a loop that has used up
  its script is still running.
\<close>

section \<open>Outcomes and events\<close>

text \<open>A call returns, aborts the process (a failed check or undefined behaviour), or is still running.\<close>

datatype 'a outcome = Return 'a | Abort | Blocked

primrec outcome_bind :: "'a outcome \<Rightarrow> ('a \<Rightarrow> 'b outcome) \<Rightarrow> 'b outcome" where
  "outcome_bind (Return x) f = f x"
| "outcome_bind Abort f = Abort"
| "outcome_bind Blocked f = Blocked"

text \<open>\<open>Expired\<close>: the clock has reached the deadline; \<open>NotReady\<close>: \<open>poll\<close> timed out; \<open>PollFailed\<close>: it returned
  an error; \<open>Again\<close>: the transfer was interrupted; \<open>Failed\<close>: it failed; \<open>Transferred n\<close>: up to \<open>n\<close> bytes
  were moved, and none when the peer has closed the connection.\<close>

datatype io_event = Expired | NotReady | PollFailed | Again | Failed | Transferred nat

record DaemonResponse =
  dr_status :: int
  dr_body :: bytes

abbreviation ERROR_FAILED_TO_CONNECT :: int where "ERROR_FAILED_TO_CONNECT \<equiv> -1"
abbreviation ERROR_FAILED_TO_WRITE :: int where "ERROR_FAILED_TO_WRITE \<equiv> -2"
abbreviation ERROR_FAILED_TO_READ :: int where "ERROR_FAILED_TO_READ \<equiv> -3"
abbreviation ERROR_MALFORMED_DATA :: int where "ERROR_MALFORMED_DATA \<equiv> -4"
abbreviation kMaxHeaderSize :: nat where "kMaxHeaderSize \<equiv> 8192"

definition HEADER_END :: string where
  "HEADER_END = CRLF @ CRLF"

section \<open>The request\<close>

text \<open>The buffer has exactly the size computed beforehand, or the check at the end fails.\<close>

definition WritePostHeader :: "string \<Rightarrow> string list \<Rightarrow> nat \<Rightarrow> string option" where
  "WritePostHeader path headers body_size =
     (let content_length_hdr = ''Content-Length: '' @ to_string body_size;
          desired_header_size =
            length ''POST '' + length path + length '' HTTP/1.1'' + length CRLF
            + sum_list (map (\<lambda>h. length h + length CRLF) headers)
            + (length content_length_hdr + length CRLF) + length CRLF;
          buffer = ''POST '' @ path @ '' HTTP/1.1'' @ CRLF @ concat (map (\<lambda>h. h @ CRLF) headers)
            @ content_length_hdr @ CRLF @ CRLF
      in if length buffer = desired_header_size then Some buffer else None)"

text \<open>What is left of the vectors when a number of bytes has been written; if nothing is left the code would
  use an uninitialised vector.\<close>

fun writing_iov :: "bytes list \<Rightarrow> nat \<Rightarrow> nat \<Rightarrow> bytes list option" where
  "writing_iov [] skipped bytes_written = None"
| "writing_iov (v # vs) skipped bytes_written =
     (if skipped + length v \<le> bytes_written then writing_iov vs (skipped + length v) bytes_written
      else (let writing_bytes = skipped + length v - bytes_written
            in Some (drop (length v - writing_bytes) v # vs)))"

text \<open>\<open>TimedWriteV\<close>; the last component but one is everything the peer has been sent.\<close>

fun TimedWriteV :: "bytes list \<Rightarrow> nat \<Rightarrow> bytes \<Rightarrow> io_event list \<Rightarrow> (bool \<times> bytes \<times> io_event list) outcome" where
  "TimedWriteV iov bytes_written sent [] =
     (if bytes_written = length (concat iov) then Return (True, sent, []) else Blocked)"
| "TimedWriteV iov bytes_written sent (e # es) =
     (if bytes_written = length (concat iov) then Return (True, sent, e # es)
      else
        (case e of
           Expired \<Rightarrow> if bytes_written \<le> length (concat iov) then Return (False, sent, es) else Abort
         | NotReady \<Rightarrow> Return (False, sent, es)
         | PollFailed \<Rightarrow> Abort
         | _ \<Rightarrow>
             if length iov > 128 then Abort
             else
               (case writing_iov iov 0 bytes_written of
                  None \<Rightarrow> Abort
                | Some writing \<Rightarrow>
                    (case e of
                       Again \<Rightarrow> TimedWriteV iov bytes_written sent es
                     | Transferred n \<Rightarrow>
                         (let bytes = min n (length (concat writing))
                          in TimedWriteV iov (bytes_written + bytes) (sent @ take bytes (concat writing)) es)
                     | _ \<Rightarrow> Return (False, sent, es)))))"

section \<open>The response\<close>

text \<open>\<open>PerformIo\<close> with \<open>read\<close>: the bytes read so far, the bytes the peer has still to deliver.\<close>

fun TimedRead :: "nat \<Rightarrow> bytes \<Rightarrow> bytes \<Rightarrow> io_event list \<Rightarrow> (bool \<times> bytes \<times> bytes \<times> io_event list) outcome" where
  "TimedRead n got incoming [] = (if length got = n then Return (True, got, incoming, []) else Blocked)"
| "TimedRead n got incoming (e # es) =
     (if length got = n then Return (True, got, incoming, e # es)
      else
        (case e of
           Expired \<Rightarrow> Return (False, got, incoming, es)
         | NotReady \<Rightarrow> Return (False, got, incoming, es)
         | PollFailed \<Rightarrow> Abort
         | Again \<Rightarrow> TimedRead n got incoming es
         | Failed \<Rightarrow> Return (False, got, incoming, es)
         | Transferred m \<Rightarrow>
             (let k = min m (n - length got) in TimedRead n (got @ take k incoming) (drop k incoming) es)))"

text \<open>\<open>sscanf\<close> with \<open>%d\<close>: the number, if there is one, and what follows it.\<close>

definition scan_int :: "string \<Rightarrow> int option \<times> string" where
  "scan_int s =
     (let t = dropWhile (\<lambda>c. c \<in> {CHR '' '', CHR 0x09, CHR 0x0A, CHR 0x0B, CHR 0x0C, CHR 0x0D}) s;
          neg = (t \<noteq> [] \<and> hd t = CHR ''-'');
          u = (if t \<noteq> [] \<and> hd t \<in> {CHR ''-'', CHR ''+''} then tl t else t);
          ds = takeWhile (\<lambda>c. digit_value c \<noteq> None) u
      in (map_option (\<lambda>n. if neg then - int n else int n) (if ds = [] then None else parse_digits 0 ds), drop (length ds) u))"

definition ReadHttpStatus :: "bytes \<Rightarrow> io_event list \<Rightarrow> (int \<times> bytes \<times> io_event list) outcome" where
  "ReadHttpStatus incoming evs =
     outcome_bind (TimedRead 13 [] incoming evs) (\<lambda>(ok, status_buffer, incoming, evs).
       if \<not> ok then Return (ERROR_FAILED_TO_READ, incoming, evs)
       else if take 9 status_buffer \<noteq> ''HTTP/1.1 '' then Return (ERROR_MALFORMED_DATA, incoming, evs)
       else
         (case fst (scan_int (take 3 (drop 9 status_buffer))) of
            None \<Rightarrow> Return (ERROR_MALFORMED_DATA, incoming, evs)
          | Some status \<Rightarrow> Return (status, incoming, evs)))"

text \<open>The loop that reads the header does not look at the clock.\<close>

fun ReadHttpHeader :: "bytes \<Rightarrow> bytes \<Rightarrow> io_event list \<Rightarrow> (bytes option \<times> bytes \<times> io_event list) outcome" where
  "ReadHttpHeader buffer incoming [] = Blocked"
| "ReadHttpHeader buffer incoming (e # es) =
     (case e of
        Expired \<Rightarrow> ReadHttpHeader buffer incoming es
      | NotReady \<Rightarrow> Return (None, incoming, es)
      | PollFailed \<Rightarrow> Abort
      | Again \<Rightarrow> ReadHttpHeader buffer incoming es
      | Failed \<Rightarrow> Return (None, incoming, es)
      | Transferred n \<Rightarrow>
          (let k = min n (kMaxHeaderSize - length buffer); buffer' = buffer @ take k incoming; incoming' = drop k incoming in
           if find_substring HEADER_END buffer' \<noteq> None then Return (Some buffer', incoming', es)
           else if length buffer' = kMaxHeaderSize then Return (None, incoming', es)
           else ReadHttpHeader buffer' incoming' es))"

text \<open>A number that runs up to the end of the bytes read continues in uninitialised memory, one that does
  not fit in an \<open>int\<close> is undefined, and a negative one becomes a size no string can have.\<close>

definition ReadHttpBody :: "bytes \<Rightarrow> io_event list \<Rightarrow> (bytes option \<times> bytes \<times> io_event list) outcome" where
  "ReadHttpBody incoming evs =
     outcome_bind (ReadHttpHeader [] incoming evs) (\<lambda>(hdr, incoming, evs).
       case hdr of
         None \<Rightarrow> Return (None, incoming, evs)
       | Some buffer \<Rightarrow>
           (case find_substring HEADER_END buffer of
              None \<Rightarrow> Abort
            | Some p \<Rightarrow>
                (let body = drop (p + 4) buffer in
                 case find_substring ''Content-Length:'' buffer of
                   None \<Rightarrow> Return (None, incoming, evs)
                 | Some q \<Rightarrow>
                     (case scan_int (drop (q + 15) buffer) of
                        (v, rest) \<Rightarrow>
                          if rest = [] then Abort
                          else
                            (case v of
                               None \<Rightarrow> Return (None, incoming, evs)
                             | Some body_size \<Rightarrow>
                                 if body_size < 0 \<or> body_size \<ge> 2 ^ 31 then Abort
                                 else if nat body_size < length body then Return (None, incoming, evs)
                                 else
                                   outcome_bind (TimedRead (nat body_size - length body) [] incoming evs)
                                     (\<lambda>(ok, more, incoming, evs). Return (if ok then Some (body @ more) else None, incoming, evs)))))))"

definition ReadDaemonResponse :: "bytes \<Rightarrow> io_event list \<Rightarrow> DaemonResponse outcome" where
  "ReadDaemonResponse incoming evs =
     outcome_bind (ReadHttpStatus incoming evs) (\<lambda>(status, incoming, evs).
       if status < 100 then Return \<lparr> dr_status = status, dr_body = [] \<rparr>
       else
         outcome_bind (ReadHttpBody incoming evs) (\<lambda>(opt, incoming, evs).
           case opt of
             Some body \<Rightarrow> Return \<lparr> dr_status = status, dr_body = body \<rparr>
           | None \<Rightarrow> Return \<lparr> dr_status = ERROR_FAILED_TO_READ, dr_body = [] \<rparr>))"

section \<open>A call\<close>

text \<open>The buffers of the rounds of gathering writes: 128 at a time, the header among the first.\<close>

function body_rounds :: "bytes list \<Rightarrow> bytes list list" where
  "body_rounds bodies = (if bodies = [] then [] else take 128 bodies # body_rounds (drop 128 bodies))"
  by pat_completeness auto
termination
  by (relation "measure length") auto

declare body_rounds.simps [simp del]

definition write_rounds :: "bytes \<Rightarrow> bytes list \<Rightarrow> bytes list list" where
  "write_rounds header bodies = (header # take 127 bodies) # body_rounds (drop 127 bodies)"

fun write_all_rounds :: "bytes list list \<Rightarrow> bytes \<Rightarrow> io_event list \<Rightarrow> (bool \<times> bytes \<times> io_event list) outcome" where
  "write_all_rounds [] sent evs = Return (True, sent, evs)"
| "write_all_rounds (iov # rounds) sent evs =
     outcome_bind (TimedWriteV iov 0 sent evs) (\<lambda>(ok, sent, evs).
       if ok then write_all_rounds rounds sent evs else Return (False, sent, evs))"

text \<open>\<open>connected\<close>: whether the connection could be opened; \<open>reply\<close>: the bytes the daemon answers with. The
  result comes with all that was sent.\<close>

definition DaemonCallGathered ::
  "bool \<Rightarrow> bytes \<Rightarrow> io_event list \<Rightarrow> string \<Rightarrow> string list \<Rightarrow> bytes list \<Rightarrow> (DaemonResponse \<times> bytes) outcome" where
  "DaemonCallGathered connected reply evs api headers bodies =
     (case WritePostHeader api headers (length (concat bodies)) of
        None \<Rightarrow> Abort
      | Some header \<Rightarrow>
          if \<not> connected then Return (\<lparr> dr_status = ERROR_FAILED_TO_CONNECT, dr_body = [] \<rparr>, [])
          else
            outcome_bind (write_all_rounds (write_rounds header bodies) [] evs) (\<lambda>(ok, sent, evs).
              if \<not> ok then Return (\<lparr> dr_status = ERROR_FAILED_TO_WRITE, dr_body = [] \<rparr>, sent)
              else outcome_bind (ReadDaemonResponse reply evs) (\<lambda>resp. Return (resp, sent))))"

definition DaemonCall ::
  "bool \<Rightarrow> bytes \<Rightarrow> io_event list \<Rightarrow> string \<Rightarrow> string list \<Rightarrow> bytes \<Rightarrow> (DaemonResponse \<times> bytes) outcome" where
  "DaemonCall connected reply evs api headers body = DaemonCallGathered connected reply evs api headers [body]"

section \<open>Lemmas: writing\<close>

lemma outcome_bind_Return: "outcome_bind m f = Return y \<longleftrightarrow> (\<exists>x. m = Return x \<and> f x = Return y)"
  by (cases m) auto

lemma outcome_bind_Abort: "outcome_bind m f = Abort \<longleftrightarrow> m = Abort \<or> (\<exists>x. m = Return x \<and> f x = Abort)"
  by (cases m) auto

lemma WritePostHeader_eq:
  "WritePostHeader path headers body_size =
     Some (''POST '' @ path @ '' HTTP/1.1'' @ CRLF @ concat (map (\<lambda>h. h @ CRLF) headers)
       @ ''Content-Length: '' @ to_string body_size @ CRLF @ CRLF)"
  by (simp add: WritePostHeader_def Let_def length_concat comp_def)

lemma writing_iov_concat:
  "skipped \<le> written \<Longrightarrow> written < skipped + length (concat iov) \<Longrightarrow>
     \<exists>w. writing_iov iov skipped written = Some w \<and> concat w = drop (written - skipped) (concat iov)"
proof (induction iov arbitrary: skipped)
  case (Cons v vs)
  show ?case
  proof (cases "skipped + length v \<le> written")
    case True
    then have "\<exists>w. writing_iov vs (skipped + length v) written = Some w \<and> concat w = drop (written - (skipped + length v)) (concat vs)"
      using Cons.prems by (intro Cons.IH) auto
    with True Cons.prems show ?thesis by (auto simp: add.commute)
  next
    case False
    then have "length v - (skipped + length v - written) = written - skipped" using Cons.prems by simp
    with False show ?thesis by (simp add: Let_def)
  qed
qed simp

text \<open>Whatever the operating system does, what has been sent is a prefix of the vectors, and all of them
  when the call succeeds.\<close>

lemma TimedWriteV_sends:
  "TimedWriteV iov written sent evs = Return (ok, sent', evs') \<Longrightarrow> written \<le> length (concat iov) \<Longrightarrow>
     sent = pre @ take written (concat iov) \<Longrightarrow>
     \<exists>n \<le> length (concat iov). sent' = pre @ take n (concat iov) \<and> (ok \<longleftrightarrow> n = length (concat iov))"
proof (induction evs arbitrary: written sent)
  case (Cons e es)
  show ?case
  proof (cases "written = length (concat iov)")
    case False
    then have lt: "written < length (concat iov)" using Cons.prems by simp
    then obtain w where w: "writing_iov iov 0 written = Some w" "concat w = drop written (concat iov)"
      using writing_iov_concat [of 0 written iov] by auto
    show ?thesis
    proof (cases e)
      case (Transferred n)
      let ?k = "min n (length (concat w))"
      have le: "written + ?k \<le> length (concat iov)" using w(2) lt by simp
      have r: "TimedWriteV iov (written + ?k) (sent @ take ?k (concat w)) es = Return (ok, sent', evs')"
        using Cons.prems(1) False Transferred w(1) by (simp add: Let_def split: if_splits)
      have s: "sent @ take ?k (concat w) = pre @ take (written + ?k) (concat iov)"
        using Cons.prems(3) w(2) by (simp add: take_add)
      show ?thesis by (rule Cons.IH [OF r le s])
    next
      case Again
      then show ?thesis using Cons False w(1) by (simp split: if_splits)
    qed (use Cons.prems False lt w(1) in \<open>auto split: if_splits intro!: exI [of _ written]\<close>)
  qed (use Cons.prems in auto)
qed (auto split: if_splits)

lemma concat_body_rounds: "concat (concat (body_rounds bodies)) = concat bodies"
proof (induction bodies rule: body_rounds.induct)
  case (1 bodies)
  show ?case
  proof (cases "bodies = []")
    case False
    then have "concat (concat (body_rounds bodies)) = concat (take 128 bodies) @ concat (drop 128 bodies)"
      using 1 by (subst body_rounds.simps) simp
    also have "\<dots> = concat (take 128 bodies @ drop 128 bodies)" by (simp only: concat_append)
    finally show ?thesis by (simp only: append_take_drop_id)
  qed (simp add: body_rounds.simps)
qed

lemma concat_write_rounds: "concat (concat (write_rounds header bodies)) = header @ concat bodies"
proof -
  have "concat (concat (write_rounds header bodies)) = header @ concat (take 127 bodies @ drop 127 bodies)"
    by (simp only: write_rounds_def concat.simps concat_append concat_body_rounds append.simps append_assoc)
  then show ?thesis by (simp only: append_take_drop_id)
qed

lemma length_body_rounds: "iov \<in> set (body_rounds bodies) \<Longrightarrow> length iov \<le> 128"
proof (induction bodies rule: body_rounds.induct)
  case (1 bodies)
  then show ?case by (subst (asm) body_rounds.simps) (auto split: if_splits)
qed

lemma write_all_rounds_sends:
  "write_all_rounds rounds sent evs = Return (ok, sent', evs') \<Longrightarrow>
     \<exists>n \<le> length (concat (concat rounds)). sent' = sent @ take n (concat (concat rounds)) \<and> (ok \<longrightarrow> n = length (concat (concat rounds)))"
proof (induction rounds arbitrary: sent evs)
  case (Cons iov rounds)
  obtain ok1 sent1 evs1 where t: "TimedWriteV iov 0 sent evs = Return (ok1, sent1, evs1)"
    and r: "(if ok1 then write_all_rounds rounds sent1 evs1 else Return (False, sent1, evs1)) = Return (ok, sent', evs')"
    using Cons.prems by (auto simp: outcome_bind_Return)
  obtain n where n: "n \<le> length (concat iov)" "sent1 = sent @ take n (concat iov)" "ok1 \<longleftrightarrow> n = length (concat iov)"
    using TimedWriteV_sends [OF t, of sent] by auto
  show ?case
  proof (cases ok1)
    case True
    with r have "write_all_rounds rounds sent1 evs1 = Return (ok, sent', evs')" by simp
    from Cons.IH [OF this] obtain m where "m \<le> length (concat (concat rounds))"
      "sent' = sent1 @ take m (concat (concat rounds))" "ok \<longrightarrow> m = length (concat (concat rounds))" by blast
    with True n show ?thesis by (intro exI [of _ "n + m"]) auto
  next
    case False
    with r n show ?thesis by (intro exI [of _ n]) auto
  qed
qed simp

text \<open>No check of the gathering write can fail: only a failing \<open>poll\<close> aborts it.\<close>

lemma TimedWriteV_no_abort:
  "PollFailed \<notin> set evs \<Longrightarrow> length iov \<le> 128 \<Longrightarrow> written \<le> length (concat iov) \<Longrightarrow> TimedWriteV iov written sent evs \<noteq> Abort"
proof (induction evs arbitrary: written sent)
  case (Cons e es)
  show ?case
  proof (cases "written = length (concat iov)")
    case False
    then have lt: "written < length (concat iov)" using Cons.prems by simp
    then obtain w where w: "writing_iov iov 0 written = Some w" "concat w = drop written (concat iov)"
      using writing_iov_concat [of 0 written iov] by auto
    then have "written + min n (length (concat w)) \<le> length (concat iov)" for n using lt by simp
    with Cons w(1) False show ?thesis by (cases e) (simp_all add: Let_def)
  qed simp
qed simp

section \<open>Lemmas: reading\<close>

lemma HEADER_END_simps [simp]: "length HEADER_END = 4" "HEADER_END \<noteq> []" "hd (HEADER_END @ s) = CHR 0x0D"
  by (simp_all add: HEADER_END_def)

lemma TimedRead_spec:
  "TimedRead n got incoming evs = Return (ok, got', incoming', evs') \<Longrightarrow> length got \<le> n \<Longrightarrow>
     got' @ incoming' = got @ incoming \<and> length got' \<le> n \<and> (ok \<longleftrightarrow> length got' = n)"
proof (induction evs arbitrary: got incoming)
  case (Cons e es)
  show ?case
  proof (cases "length got = n")
    case False
    show ?thesis
    proof (cases e)
      case (Transferred m)
      let ?k = "min m (n - length got)"
      have "TimedRead n (got @ take ?k incoming) (drop ?k incoming) es = Return (ok, got', incoming', evs')"
        using Cons.prems(1) False Transferred by (simp add: Let_def)
      moreover have "length (got @ take ?k incoming) \<le> n" using Cons.prems(2) by simp
      ultimately have "got' @ incoming' = (got @ take ?k incoming) @ drop ?k incoming \<and> length got' \<le> n \<and> (ok \<longleftrightarrow> length got' = n)"
        by (rule Cons.IH)
      then show ?thesis by (simp only: append_assoc append_take_drop_id)
    qed (use Cons False in auto)
  qed (use Cons.prems in auto)
qed (auto split: if_splits)

lemma TimedRead_ok: "TimedRead n [] incoming evs = Return (True, got, incoming', evs') \<Longrightarrow> got = take n incoming \<and> incoming' = drop n incoming \<and> n \<le> length incoming"
proof -
  assume "TimedRead n [] incoming evs = Return (True, got, incoming', evs')"
  from TimedRead_spec [OF this] have "got @ incoming' = incoming" "length got = n" by auto
  then show ?thesis by auto
qed

text \<open>The header loop reads a prefix of the stream that contains the end of the header.\<close>

lemma ReadHttpHeader_spec:
  "ReadHttpHeader buffer incoming evs = Return (Some buffer', incoming', evs') \<Longrightarrow>
     buffer' @ incoming' = buffer @ incoming \<and> find_substring HEADER_END buffer' \<noteq> None"
proof (induction evs arbitrary: buffer incoming)
  case (Cons e es)
  show ?case
  proof (cases e)
    case (Transferred n)
    let ?k = "min n (kMaxHeaderSize - length buffer)"
    consider "buffer' = buffer @ take ?k incoming" "incoming' = drop ?k incoming" "find_substring HEADER_END buffer' \<noteq> None"
      | "ReadHttpHeader (buffer @ take ?k incoming) (drop ?k incoming) es = Return (Some buffer', incoming', evs')"
      using Cons.prems Transferred by (auto simp: Let_def split: if_splits)
    then show ?thesis
    proof cases
      case 1
      then show ?thesis by (simp only: append_assoc append_take_drop_id) simp
    next
      case 2
      from Cons.IH [OF this] show ?thesis by (simp only: append_assoc append_take_drop_id) simp
    qed
  qed (use Cons in auto)
qed simp

lemma scan_int_number:
  assumes "post = [] \<or> digit_value (hd post) = None"
  shows "scan_int (CHR '' '' # to_string n @ post) = (Some (int n), post)"
proof -
  obtain c cs where c: "to_string n = c # cs" by (cases "to_string n") auto
  have dv: "digit_value c \<noteq> None" using digit_value_to_string [of c n] c by simp
  then have "c \<notin> {CHR '' '', CHR 0x09, CHR 0x0A, CHR 0x0B, CHR 0x0C, CHR 0x0D}" "c \<notin> {CHR ''-'', CHR ''+''}"
    by (auto simp: digit_value_def split: if_splits)
  moreover have "takeWhile (\<lambda>d. digit_value d \<noteq> None) (to_string n @ post) = to_string n"
    using assms digit_value_to_string by (cases post) (auto simp: takeWhile_append2 takeWhile_tail)
  ultimately show ?thesis
    using c parse_digits_to_string [of n] by (simp add: scan_int_def Let_def)
qed

text \<open>Only a failing \<open>poll\<close> aborts the reading loops, and a loop leaves later events to the next.\<close>

lemma TimedRead_abort: "TimedRead n got incoming evs = Abort \<Longrightarrow> PollFailed \<in> set evs"
  by (induction evs arbitrary: got incoming) (auto simp: Let_def split: if_splits io_event.splits)

lemma TimedRead_events: "TimedRead n got incoming evs = Return (ok, got', incoming', evs') \<Longrightarrow> set evs' \<subseteq> set evs"
proof (induction evs arbitrary: got incoming)
  case (Cons e es)
  then show ?case by (cases e) (fastforce simp: Let_def split: if_splits)+
qed (auto split: if_splits)

lemma ReadHttpHeader_abort: "ReadHttpHeader buffer incoming evs = Abort \<Longrightarrow> PollFailed \<in> set evs"
  by (induction evs arbitrary: buffer incoming) (auto simp: Let_def split: if_splits io_event.splits)

lemma ReadHttpHeader_events: "ReadHttpHeader buffer incoming evs = Return (r, incoming', evs') \<Longrightarrow> set evs' \<subseteq> set evs"
proof (induction evs arbitrary: buffer incoming)
  case (Cons e es)
  then show ?case by (cases e) (fastforce simp: Let_def split: if_splits)+
qed simp

text \<open>A header that announces a body of a given length, up to its end.\<close>

definition announces :: "bytes \<Rightarrow> nat \<Rightarrow> bool" where
  "announces hdr n \<longleftrightarrow>
     find_substring HEADER_END (hdr @ HEADER_END) = Some (length hdr)
     \<and> (case find_substring ''Content-Length:'' hdr of
          None \<Rightarrow> False
        | Some q \<Rightarrow>
            (let value = drop (q + 15) hdr; number = '' '' @ to_string n; post = drop (length number) value
             in take (length number) value = number \<and> (post = [] \<or> hd post = CHR 0x0D)))"

lemma header_buffer:
  assumes "buffer @ incoming = hdr @ HEADER_END @ rest" "find_substring HEADER_END buffer = Some p"
    "find_substring HEADER_END (hdr @ HEADER_END) = Some (length hdr)"
  shows "p = length hdr \<and> (\<exists>m. buffer = hdr @ HEADER_END @ take m rest \<and> incoming = drop m rest)"
proof -
  have "find_substring HEADER_END ((hdr @ HEADER_END) @ rest) = Some (length hdr)"
    by (rule find_substring_append [OF assms(3)])
  moreover have "find_substring HEADER_END (buffer @ incoming) = Some p"
    by (rule find_substring_append [OF assms(2)])
  ultimately have p: "p = length hdr" using assms(1) by simp
  have "length (hdr @ HEADER_END) \<le> length buffer"
    using find_substring_bound [OF assms(2)] p by simp
  then have "buffer = (hdr @ HEADER_END) @ drop (length (hdr @ HEADER_END)) buffer"
    using assms(1) by (metis append_assoc append_eq_append_conv_if append_take_drop_id)
  then obtain us where us: "buffer = (hdr @ HEADER_END) @ us" by blast
  then have "us @ incoming = rest" using assms(1) by simp
  with p us show ?thesis by (intro conjI exI [of _ "length us"]) auto
qed

lemma announced_length:
  assumes "announces hdr n"
  obtains q post where "find_substring ''Content-Length:'' (hdr @ HEADER_END @ rest) = Some q"
    "scan_int (drop (q + 15) (hdr @ HEADER_END @ rest)) = (Some (int n), post @ HEADER_END @ rest)"
proof -
  obtain q where q: "find_substring ''Content-Length:'' hdr = Some q"
    using assms by (auto simp: announces_def split: option.splits)
  let ?number = "'' '' @ to_string n"
  let ?post = "drop (length ?number) (drop (q + 15) hdr)"
  have t: "take (length ?number) (drop (q + 15) hdr) = ?number" and post: "?post = [] \<or> hd ?post = CHR 0x0D"
    using assms q by (auto simp: announces_def Let_def)
  have le: "q + 15 \<le> length hdr" using find_substring_bound [OF q] by simp
  have d: "drop (q + 15) hdr = ?number @ ?post" using t by (metis append_take_drop_id)
  have "digit_value (hd (?post @ HEADER_END @ rest)) = None"
    using post by (cases ?post) (auto simp: digit_value_def)
  then have "scan_int (CHR '' '' # to_string n @ ?post @ HEADER_END @ rest) = (Some (int n), ?post @ HEADER_END @ rest)"
    by (intro scan_int_number) blast
  moreover have "drop (q + 15) (hdr @ HEADER_END @ rest) = CHR '' '' # to_string n @ ?post @ HEADER_END @ rest"
    using le d by (metis (no_types) append_Cons append_Nil append_assoc drop_append diff_is_0_eq drop0)
  ultimately show ?thesis using find_substring_append [OF q] that by metis
qed

text \<open>Reading what the buffer of the header does not hold of a body.\<close>

lemma read_rest:
  assumes "B @ incoming = body @ extra" "length B \<le> length body"
  shows "(case outcome_bind (TimedRead (length body - length B) [] incoming es)
            (\<lambda>(ok, extra', incoming, evs). Return (if ok then Some (B @ extra') else None, incoming, evs)) of
            Return (r, _) \<Rightarrow> r = None \<or> r = Some body | Abort \<Rightarrow> PollFailed \<in> set es | Blocked \<Rightarrow> True)"
proof (cases "TimedRead (length body - length B) [] incoming es")
  case Abort
  then show ?thesis using TimedRead_abort [OF Abort] by simp
next
  case (Return y)
  obtain ok got inc' es' where y: "y = (ok, got, inc', es')" by (cases y)
  have "B @ got = body" if ok
  proof -
    have "got = take (length body - length B) incoming"
      using TimedRead_ok [of "length body - length B" incoming es got inc' es'] Return y that by simp
    then have "B @ got = take (length body) (B @ incoming)" using assms(2) by simp
    then show ?thesis by (simp add: assms(1))
  qed
  then show ?thesis using Return y by simp
qed simp

lemma ReadHttpBody_exact:
  assumes "announces hdr (length body)" "length body < 2 ^ 31"
  shows "(case ReadHttpBody (hdr @ HEADER_END @ body @ extra) evs of
            Return (r, _) \<Rightarrow> r = None \<or> r = Some body | Abort \<Rightarrow> PollFailed \<in> set evs | Blocked \<Rightarrow> True)"
proof (cases "ReadHttpHeader [] (hdr @ HEADER_END @ body @ extra) evs")
  case Abort
  then show ?thesis using ReadHttpHeader_abort [OF Abort] by (simp add: ReadHttpBody_def)
next
  case Blocked
  then show ?thesis by (simp add: ReadHttpBody_def)
next
  case (Return x)
  obtain r incoming es where x: "x = (r, incoming, es)" by (cases x)
  show ?thesis
  proof (cases r)
    case None
    then show ?thesis using Return x by (simp add: ReadHttpBody_def)
  next
    case (Some buffer)
    note h = Return [unfolded x Some]
    obtain p where p: "find_substring HEADER_END buffer = Some p" and b: "buffer @ incoming = hdr @ HEADER_END @ body @ extra"
      using ReadHttpHeader_spec [OF h] by auto
    have he: "find_substring HEADER_END (hdr @ HEADER_END) = Some (length hdr)" using assms(1) by (simp add: announces_def)
    obtain m where pl: "p = length hdr" and buf: "buffer = hdr @ HEADER_END @ take m (body @ extra)" and inc: "incoming = drop m (body @ extra)"
      using header_buffer [OF b p he] by blast
    obtain q post where q: "find_substring ''Content-Length:'' buffer = Some q"
      and scan: "scan_int (drop (q + 15) buffer) = (Some (int (length body)), post @ HEADER_END @ take m (body @ extra))"
      using announced_length [OF assms(1)] buf by metis
    define B where "B = take m (body @ extra)"
    have drp: "drop (p + 4) buffer = B" using pl buf by (simp add: B_def)
    let ?rest = "TimedRead (length body - length B) [] incoming es"
    have eq: "ReadHttpBody (hdr @ HEADER_END @ body @ extra) evs =
      (if length body < length (B) then Return (None, incoming, es)
       else outcome_bind ?rest (\<lambda>(ok, extra', incoming, evs). Return (if ok then Some (B @ extra') else None, incoming, evs)))"
      using assms(2) by (simp add: ReadHttpBody_def h p drp Let_def q scan [folded B_def])
    show ?thesis
    proof (cases "length body < length B")
      case False
      moreover have "B @ incoming = body @ extra" using inc by (simp only: B_def append_take_drop_id)
      ultimately show ?thesis
        using read_rest [of B incoming body extra es] ReadHttpHeader_events [OF h] unfolding eq by (auto split: outcome.splits)
    qed (simp add: eq)
  qed
qed

section \<open>Properties\<close>

text \<open>C9. A request is never corrupted: whatever partial writes, interruptions and timeouts occur, the bytes
  sent are a prefix of the header followed by the bodies, and the whole of them when an answer was
  read (any number of bodies, in rounds of at most 128 buffers).\<close>

theorem DaemonCallGathered_sends:
  assumes "DaemonCallGathered True reply evs api headers bodies = Return (resp, sent)"
  shows "let request = the (WritePostHeader api headers (length (concat bodies))) @ concat bodies
         in prefix sent request \<and> (dr_status resp \<noteq> ERROR_FAILED_TO_WRITE \<longrightarrow> sent = request)"
proof -
  obtain header where h: "WritePostHeader api headers (length (concat bodies)) = Some header"
    using WritePostHeader_eq by blast
  let ?r = "write_all_rounds (write_rounds header bodies) [] evs"
  obtain ok sent' evs' where w: "?r = Return (ok, sent', evs')"
    and a: "(if \<not> ok then Return (\<lparr> dr_status = ERROR_FAILED_TO_WRITE, dr_body = [] \<rparr>, sent')
             else outcome_bind (ReadDaemonResponse reply evs') (\<lambda>resp. Return (resp, sent'))) = Return (resp, sent)"
    using assms h by (auto simp: DaemonCallGathered_def outcome_bind_Return)
  obtain n where n: "sent' = take n (header @ concat bodies)" "ok \<longrightarrow> n = length (header @ concat bodies)"
    using write_all_rounds_sends [OF w] by (auto simp: concat_write_rounds)
  have "sent = sent'" using a by (auto simp: outcome_bind_Return split: if_splits)
  moreover have "dr_status resp \<noteq> ERROR_FAILED_TO_WRITE \<longrightarrow> ok" using a by (auto split: if_splits)
  moreover have "prefix sent' (header @ concat bodies)" unfolding n(1) by (rule take_is_prefix)
  ultimately show ?thesis using h n by (auto simp: Let_def)
qed

text \<open>C10. A response is never corrupted: however the bytes of a well-formed answer arrive, a call that
  returns gives either the status and the body the daemon sent, or one of the negative codes with an
  empty body; and it aborts only when \<open>poll\<close> fails.\<close>

theorem ReadDaemonResponse_exact:
  assumes "length st = 3" "fst (scan_int st) = Some code" "code \<ge> 100" "announces hdr (length body)" "length body < 2 ^ 31"
  shows "case ReadDaemonResponse (''HTTP/1.1 '' @ st @ [c] @ hdr @ HEADER_END @ body @ extra) evs of
           Return resp \<Rightarrow> resp = \<lparr> dr_status = code, dr_body = body \<rparr> \<or> (dr_status resp < 0 \<and> dr_body resp = [])
         | Abort \<Rightarrow> PollFailed \<in> set evs
         | Blocked \<Rightarrow> True"
proof (cases "TimedRead 13 [] (''HTTP/1.1 '' @ st @ [c] @ hdr @ HEADER_END @ body @ extra) evs")
  case Abort
  then show ?thesis using TimedRead_abort [OF Abort] by (simp add: ReadDaemonResponse_def ReadHttpStatus_def)
next
  case Blocked
  then show ?thesis by (simp add: ReadDaemonResponse_def ReadHttpStatus_def)
next
  case (Return x)
  obtain ok got inc es where x: "x = (ok, got, inc, es)" by (cases x)
  note t = Return [unfolded x]
  show ?thesis
  proof (cases ok)
    case True
    have "got = ''HTTP/1.1 '' @ st @ [c]" "inc = hdr @ HEADER_END @ body @ extra"
      using TimedRead_ok [of 13 "''HTTP/1.1 '' @ st @ [c] @ hdr @ HEADER_END @ body @ extra"] t True assms(1) by auto
    then have eq: "ReadDaemonResponse (''HTTP/1.1 '' @ st @ [c] @ hdr @ HEADER_END @ body @ extra) evs =
      outcome_bind (ReadHttpBody (hdr @ HEADER_END @ body @ extra) es) (\<lambda>(opt, incoming, evs).
           case opt of
             Some body \<Rightarrow> Return \<lparr> dr_status = code, dr_body = body \<rparr>
           | None \<Rightarrow> Return \<lparr> dr_status = ERROR_FAILED_TO_READ, dr_body = [] \<rparr>)"
      using assms(1-3) t True by (simp add: ReadDaemonResponse_def ReadHttpStatus_def)
    show ?thesis
      unfolding eq
      using ReadHttpBody_exact [OF assms(4,5), where extra = extra and evs = es] TimedRead_events [OF t]
      by (cases "ReadHttpBody (hdr @ HEADER_END @ body @ extra) es") (auto split: option.splits)
  qed (use t in \<open>simp add: ReadDaemonResponse_def ReadHttpStatus_def\<close>)
qed

text \<open>An answer of the daemon that is used as an example: the status line, one header, the body.\<close>

definition demo_reply :: bytes where
  "demo_reply = ''HTTP/1.1 200 OK'' @ CRLF @ ''Content-Length: 2'' @ HEADER_END @ ''{}''"

theorem DaemonCallGathered_sends_witness:
  "prefix (''POST /x HTTP/1.1'' @ CRLF @ ''Content-Length: 2'' @ HEADER_END @ ''a'')
     (the (WritePostHeader ''/x'' [] (length (concat [''ab'']))) @ concat [''ab''])"
proof -
  have "DaemonCallGathered True demo_reply [Transferred 30, Again, Transferred 10, NotReady] ''/x'' [] [''ab''] =
     Return (\<lparr> dr_status = ERROR_FAILED_TO_WRITE, dr_body = [] \<rparr>, ''POST /x HTTP/1.1'' @ CRLF @ ''Content-Length: 2'' @ HEADER_END @ ''a'')"
    by code_simp
  from DaemonCallGathered_sends [OF this] show ?thesis by (simp add: Let_def)
qed

theorem ReadDaemonResponse_exact_witness:
  "ReadDaemonResponse (''HTTP/1.1 '' @ ''200'' @ '' '' @ (''OK'' @ CRLF @ ''Content-Length: 2'') @ HEADER_END @ ''{}'' @ [])
     [Transferred 5, Again, Transferred 20, Transferred 21, Transferred 1, Transferred 9] =
   Return \<lparr> dr_status = 200, dr_body = ''{}'' \<rparr>"
proof -
  let ?r = "ReadDaemonResponse (''HTTP/1.1 '' @ ''200'' @ '' '' @ (''OK'' @ CRLF @ ''Content-Length: 2'') @ HEADER_END @ ''{}'' @ [])
     [Transferred 5, Again, Transferred 20, Transferred 21, Transferred 1, Transferred 9]"
  have "announces (''OK'' @ CRLF @ ''Content-Length: 2'') (length ''{}'')" "fst (scan_int ''200'') = Some 200" by code_simp+
  then have "case ?r of
           Return resp \<Rightarrow> resp = \<lparr> dr_status = 200, dr_body = ''{}'' \<rparr> \<or> (dr_status resp < 0 \<and> dr_body resp = [])
         | Abort \<Rightarrow> PollFailed \<in> set [Transferred 5, Again, Transferred 20, Transferred 21, Transferred 1, Transferred 9] | Blocked \<Rightarrow> True"
    by (intro ReadDaemonResponse_exact) simp_all
  moreover have "map_outcome dr_status ?r = Return 200" by code_simp
  ultimately show ?thesis by (cases ?r) auto
qed

text \<open>When the daemon closes the connection inside the header of its answer, the wrapper never returns: a
  closed socket is always ready, each read gives no byte, and neither the clock nor the end of the
  stream is looked at.\<close>

theorem ReadHttpHeader_spins:
  assumes "find_substring HEADER_END buffer = None" "length buffer < kMaxHeaderSize" "set evs \<subseteq> {Expired} \<union> range Transferred"
  shows "ReadHttpHeader buffer [] evs = Blocked"
  using assms(3) by (induction evs) (use assms(1,2) in \<open>auto simp: Let_def\<close>)

theorem ReadHttpHeader_spins_witness: "ReadHttpHeader ''OK'' [] [Transferred 8190, Expired, Transferred 8190] = Blocked"
  by (rule ReadHttpHeader_spins) (auto simp: HEADER_END_def)

text \<open>The reads with a size do look at the clock: they return once the deadline has passed.\<close>

lemma TimedRead_returns: "Expired \<in> set evs \<Longrightarrow> PollFailed \<notin> set evs \<Longrightarrow> \<exists>r. TimedRead n got incoming evs = Return r"
proof (induction evs arbitrary: got incoming)
  case (Cons e es)
  then show ?case by (cases "length got = n"; cases e) (auto simp: Let_def)
qed simp

lemma TimedWriteV_returns:
  "Expired \<in> set evs \<Longrightarrow> PollFailed \<notin> set evs \<Longrightarrow> length iov \<le> 128 \<Longrightarrow> written \<le> length (concat iov) \<Longrightarrow>
     \<exists>r. TimedWriteV iov written sent evs = Return r"
proof (induction evs arbitrary: written sent)
  case (Cons e es)
  show ?case
  proof (cases "written = length (concat iov)")
    case False
    then obtain w where w: "writing_iov iov 0 written = Some w" "concat w = drop written (concat iov)"
      using writing_iov_concat [of 0 written iov] Cons.prems by auto
    then have "written + min n (length (concat w)) \<le> length (concat iov)" for n using Cons.prems by simp
    with Cons w(1) False show ?thesis by (cases e) (auto simp: Let_def)
  qed auto
qed simp

end
