(* ===== verification/File_Io.thy ===== *)
theory File_Io
  imports Posix_Fs Daemon_Call
begin

text \<open>
  Reading and writing files and pipes: \<^verbatim>\<open>common/io.cc\<close> and the wrapper's own \<^verbatim>\<open>client/common/io.cc\<close>. What the
  system calls return is a script; a function that wants a call more than the script has is \<open>Blocked\<close>.
\<close>

section \<open>Calls\<close>

text \<open>\<open>Moved n\<close>: the call returned \<open>n\<close>, and that many bytes were transferred.\<close>

datatype call_result = Moved nat | EINTR | EAGAIN | OtherError

datatype ReadStatus = Eof | TryAgainLater | ReadFailed

section \<open>The daemon's input and output\<close>

fun ReadAppend :: "bytes \<Rightarrow> bytes \<Rightarrow> call_result list \<Rightarrow> (ReadStatus \<times> bytes \<times> bytes \<times> call_result list) outcome" where
  "ReadAppend buffer incoming [] = Blocked"
| "ReadAppend buffer incoming (r # rs) =
     (case r of
        EINTR \<Rightarrow> ReadAppend buffer incoming rs
      | EAGAIN \<Rightarrow> Return (TryAgainLater, buffer, incoming, rs)
      | OtherError \<Rightarrow> Return (ReadFailed, buffer, incoming, rs)
      | Moved n \<Rightarrow> if n = 0 then Return (Eof, buffer, incoming, rs)
                   else ReadAppend (buffer @ take n incoming) (drop n incoming) rs)"

text \<open>\<open>NoncontiguousBuffer::Skip\<close>: the buffer is a list of parts, none of them empty.\<close>

fun skip_bytes :: "nat \<Rightarrow> bytes list \<Rightarrow> bytes list" where
  "skip_bytes n [] = []"
| "skip_bytes n (v # vs) = (if n < length v then drop n v # vs else skip_bytes (n - length v) vs)"

text \<open>The number of bytes written, or -1; the bytes that arrived, after those in \<open>written\<close>.\<close>

fun WriteTo :: "bytes list \<Rightarrow> nat \<Rightarrow> bytes \<Rightarrow> call_result list \<Rightarrow> (int \<times> bytes \<times> call_result list) outcome" where
  "WriteTo [] bytes_written written rs = Return (int bytes_written, written, rs)"
| "WriteTo (v # vs) bytes_written written [] = Blocked"
| "WriteTo (v # vs) bytes_written written (r # rs) =
     (case r of
        EAGAIN \<Rightarrow> Return (int bytes_written, written, rs)
      | EINTR \<Rightarrow> WriteTo (v # vs) bytes_written written rs
      | OtherError \<Rightarrow> Return (-1, written, rs)
      | Moved n \<Rightarrow> if n = 0 then Return (int bytes_written, written, rs)
                   else WriteTo (skip_bytes n (v # vs)) (bytes_written + n) (written @ take n v) rs)"

text \<open>A file that cannot be opened or read to its end aborts the process.\<close>

definition file_bytes :: "filesystem \<Rightarrow> string \<Rightarrow> bytes option" where
  "file_bytes fs path = (case map_of fs path of Some (FileNode _ b _) \<Rightarrow> Some b | _ \<Rightarrow> None)"

definition common_ReadAll :: "string \<Rightarrow> filesystem \<Rightarrow> call_result list \<Rightarrow> bytes outcome" where
  "common_ReadAll path fs rs =
     (case file_bytes fs path of
        None \<Rightarrow> Abort
      | Some b \<Rightarrow> outcome_bind (ReadAppend [] b rs) (\<lambda>(status, buffer, _).
          if status = Eof then Return buffer else Abort))"

definition common_WriteAll :: "time_point \<Rightarrow> string \<Rightarrow> bytes list \<Rightarrow> filesystem \<Rightarrow> call_result list \<Rightarrow> filesystem outcome" where
  "common_WriteAll now path data fs rs =
     (if \<not> can_create path fs then Abort
      else outcome_bind (WriteTo data 0 [] rs) (\<lambda>(n, written, _).
        if n = int (length (concat data)) then Return (umap_set path (FileNode DT_REG written now) fs) else Abort))"

section \<open>The wrapper's input and output\<close>

text \<open>One read: what arrived, or an error.\<close>

fun ReadBytes :: "nat \<Rightarrow> bytes \<Rightarrow> call_result list \<Rightarrow> (bytes option \<times> bytes \<times> call_result list) outcome" where
  "ReadBytes n incoming [] = Blocked"
| "ReadBytes n incoming (r # rs) =
     (case r of
        EINTR \<Rightarrow> ReadBytes n incoming rs
      | Moved k \<Rightarrow> Return (Some (take (min k n) incoming), drop (min k n) incoming, rs)
      | _ \<Rightarrow> Return (None, incoming, rs))"

text \<open>One write. A write of no bytes is treated as a failure and looks at what \<open>errno\<close> holds from before: \<open>errno\<close>.\<close>

fun client_WriteTo :: "call_result \<Rightarrow> bytes \<Rightarrow> nat \<Rightarrow> call_result list \<Rightarrow> (int \<times> bytes \<times> call_result list) outcome" where
  "client_WriteTo errno data starts_at [] = (if starts_at \<le> length data then Blocked else Abort)"
| "client_WriteTo errno data starts_at (r # rs) =
     (if starts_at > length data then Abort
      else
        (case r of
           Moved n \<Rightarrow>
             if n > 0 then Return (int n, take n (drop starts_at data), rs)
             else (case errno of
                     EINTR \<Rightarrow> client_WriteTo errno data starts_at rs
                   | EAGAIN \<Rightarrow> Return (0, [], rs)
                   | _ \<Rightarrow> Return (-1, [], rs))
         | EINTR \<Rightarrow> client_WriteTo EINTR data starts_at rs
         | EAGAIN \<Rightarrow> Return (0, [], rs)
         | OtherError \<Rightarrow> Return (-1, [], rs)))"

text \<open>\<open>fread\<close> returns fewer bytes than the file has only on an error, which aborts the process.\<close>

definition client_ReadAll :: "string \<Rightarrow> filesystem \<Rightarrow> bytes option" where
  "client_ReadAll path fs = file_bytes fs path"

text \<open>The stream is tested before its buffer is flushed: of a write that fails only \<open>flushed\<close> bytes arrive.\<close>

definition client_WriteAll :: "time_point \<Rightarrow> nat option \<Rightarrow> string \<Rightarrow> bytes \<Rightarrow> filesystem \<Rightarrow> filesystem option" where
  "client_WriteAll now flushed path data fs =
     (if can_create path fs
      then Some (umap_set path (FileNode DT_REG (case flushed of None \<Rightarrow> data | Some n \<Rightarrow> take n data) now) fs) else None)"

section \<open>Lemmas\<close>

lemma concat_skip_bytes: "concat (skip_bytes n vs) = drop n (concat vs)"
  by (induction n vs rule: skip_bytes.induct) auto

lemma skip_bytes_nonempty: "[] \<notin> set vs \<Longrightarrow> [] \<notin> set (skip_bytes n vs)"
  by (induction n vs rule: skip_bytes.induct) auto

text \<open>No call reports more bytes than it was given.\<close>

fun writes_fit :: "bytes list \<Rightarrow> call_result list \<Rightarrow> bool" where
  "writes_fit (v # vs) (Moved n # rs) = (n \<le> length v \<and> writes_fit (skip_bytes n (v # vs)) rs)"
| "writes_fit vs (r # rs) = writes_fit vs rs"
| "writes_fit vs [] = True"

lemma WriteTo_prefix:
  assumes "WriteTo data k written rs = Return (n, written', rs')" and "writes_fit data rs"
  shows "\<exists>m. written' = written @ take m (concat data) \<and> m \<le> length (concat data) \<and> (n = -1 \<or> n = int (k + m))"
  using assms
proof (induction data k written rs rule: WriteTo.induct)
  case (3 v vs k written r rs)
  show ?case
  proof (cases r)
    case (Moved i)
    show ?thesis
    proof (cases "i = 0")
      case True
      with 3 Moved show ?thesis by (intro exI [of _ 0]) simp
    next
      case False
      with 3 Moved have fit: "i \<le> length v" by simp
      obtain m where m: "written' = (written @ take i v) @ take m (concat (skip_bytes i (v # vs)))"
        "m \<le> length (concat (skip_bytes i (v # vs)))" "n = -1 \<or> n = int (k + i + m)"
        using 3 Moved False by (auto simp del: skip_bytes.simps)
      have "take (i + m) (concat (v # vs)) = take i v @ take m (drop i (concat (v # vs)))"
        using fit by (simp only: take_add) simp
      with m fit show ?thesis
        by (intro exI [of _ "i + m"]) (auto simp add: concat_skip_bytes simp del: skip_bytes.simps)
    qed
  qed (use 3 in \<open>auto intro: exI [of _ 0]\<close>)
qed (auto intro: exI [of _ 0])

text \<open>A script under which a file is read to its end: reads return something until nothing is left, then nothing.\<close>

fun reads_to_end :: "nat \<Rightarrow> call_result list \<Rightarrow> bool" where
  "reads_to_end left [] = False"
| "reads_to_end left (EINTR # rs) = reads_to_end left rs"
| "reads_to_end left (Moved n # rs) = (if n = 0 then left = 0 else n \<le> left \<and> reads_to_end (left - n) rs)"
| "reads_to_end left (_ # rs) = False"

lemma ReadAppend_to_end:
  "reads_to_end (length incoming) rs \<Longrightarrow> \<exists>rest. ReadAppend buffer incoming rs = Return (Eof, buffer @ incoming, [], rest)"
proof (induction buffer incoming rs rule: ReadAppend.induct)
  case (2 buffer incoming r rs)
  then show ?case by (cases r) (auto split: if_splits)
qed simp

text \<open>A read of a file returns nothing only at its end.\<close>

fun reads_file :: "nat \<Rightarrow> call_result list \<Rightarrow> bool" where
  "reads_file left [] = True"
| "reads_file left (Moved n # rs) = ((n = 0 \<longrightarrow> left = 0) \<and> n \<le> left \<and> reads_file (left - n) rs)"
| "reads_file left (_ # rs) = reads_file left rs"

lemma ReadAppend_eof:
  "ReadAppend buffer incoming rs = Return (Eof, buffer', rest) \<Longrightarrow> reads_file (length incoming) rs \<Longrightarrow> buffer' = buffer @ incoming"
proof (induction buffer incoming rs rule: ReadAppend.induct)
  case (2 buffer incoming r rs)
  then show ?case by (cases r) (auto split: if_splits)
qed simp

text \<open>A script under which everything is written.\<close>

fun writes_all :: "bytes list \<Rightarrow> call_result list \<Rightarrow> bool" where
  "writes_all [] rs = True"
| "writes_all (v # vs) (EINTR # rs) = writes_all (v # vs) rs"
| "writes_all (v # vs) (Moved n # rs) = (0 < n \<and> n \<le> length v \<and> writes_all (skip_bytes n (v # vs)) rs)"
| "writes_all (v # vs) _ = False"

lemma WriteTo_all:
  "writes_all data rs \<Longrightarrow> \<exists>rest. WriteTo data k written rs = Return (int (k + length (concat data)), written @ concat data, rest)"
proof (induction data k written rs rule: WriteTo.induct)
  case (3 v vs k written r rs)
  show ?case
  proof (cases r)
    case (Moved n)
    then have n: "0 < n" "n \<le> length v" and rest: "writes_all (skip_bytes n (v # vs)) rs" using "3.prems" by simp_all
    from "3.IH"(1) [OF Moved _ rest] n(1) obtain rest where
      "WriteTo (skip_bytes n (v # vs)) (k + n) (written @ take n v) rs =
         Return (int (k + n + length (concat (skip_bytes n (v # vs)))), (written @ take n v) @ concat (skip_bytes n (v # vs)), rest)"
      by (auto simp del: skip_bytes.simps)
    moreover have "take n v @ drop n (v @ concat vs) = v @ concat vs" using n(2) by (simp flip: append_assoc)
    ultimately show ?thesis using Moved n by (auto simp add: concat_skip_bytes simp del: skip_bytes.simps)
  qed (use 3 in auto)
qed auto

text \<open>
  A file is never left with part of its content: when writing it returns, whatever partial writes and interruptions
  there were, it holds the data, and reading it to its end gives the data back. Both return when no call fails.
\<close>

lemma WriteAll_exact:
  assumes "common_WriteAll now path data fs rs = Return fs'" and "writes_fit data rs"
  shows "file_bytes fs' path = Some (concat data)"
    and "\<And>q. q \<noteq> path \<Longrightarrow> map_of fs' q = map_of fs q"
proof -
  obtain written rest where w: "WriteTo data 0 [] rs = Return (int (length (concat data)), written, rest)"
    and fs': "fs' = umap_set path (FileNode DT_REG written now) fs"
    using assms(1) by (auto simp: common_WriteAll_def outcome_bind_Return split: if_splits)
  have "written = concat data" using WriteTo_prefix [OF w assms(2)] by auto
  with fs' show "file_bytes fs' path = Some (concat data)" and "\<And>q. q \<noteq> path \<Longrightarrow> map_of fs' q = map_of fs q"
    by (simp_all add: file_bytes_def umap_simps)
qed

lemma ReadAll_exact:
  assumes "file_bytes fs path = Some b"
  shows "reads_to_end (length b) rs \<Longrightarrow> common_ReadAll path fs rs = Return b"
    and "reads_file (length b) rs \<Longrightarrow> common_ReadAll path fs rs = Return b' \<Longrightarrow> b' = b"
  using assms ReadAppend_to_end [of b rs "[]"] ReadAppend_eof [of "[]" b rs]
  by (auto simp: common_ReadAll_def outcome_bind_Return split: if_splits)

lemma WriteAll_returns: "can_create path fs \<Longrightarrow> writes_all data rs \<Longrightarrow> \<exists>fs'. common_WriteAll now path data fs rs = Return fs'"
  using WriteTo_all [of data rs 0 "[]"] by (auto simp: common_WriteAll_def)

lemma writes_all_fit: "writes_all data rs \<Longrightarrow> writes_fit data rs \<or> data = []"
proof (induction data rs rule: writes_all.induct)
  case (3 v vs n rs)
  moreover have "writes_fit [] rs" for rs by (induction rs) auto
  ultimately show ?case by auto
qed auto

lemma writes_fit_Nil: "writes_fit [] rs"
  by (induction rs) auto

theorem file_io_roundtrip:
  assumes "can_create path fs" and "writes_all data rs" and "reads_to_end (length (concat data)) rs'"
  shows "\<exists>fs'. common_WriteAll now path data fs rs = Return fs' \<and> common_ReadAll path fs' rs' = Return (concat data)
    \<and> (\<forall>q. q \<noteq> path \<longrightarrow> map_of fs' q = map_of fs q)"
proof -
  obtain fs' where fs': "common_WriteAll now path data fs rs = Return fs'" using WriteAll_returns assms(1,2) by blast
  have "writes_fit data rs" using writes_all_fit [OF assms(2)] writes_fit_Nil by blast
  then show ?thesis using fs' WriteAll_exact [OF fs'] ReadAll_exact(1) assms(3) by blast
qed

text \<open>Writing nothing through the wrapper's function is reported as a failure.\<close>

lemma client_WriteTo_nothing: "client_WriteTo OtherError data (length data) (Moved 0 # rs) = Return (-1, [], rs)"
  by simp

end
