(* ===== verification/Local_Task_Monitor.thy ===== *)
theory Local_Task_Monitor
  imports Flare_Api Double_Arith
begin

text \<open>
  The local daemon's limit on tasks that run on its own machine
  (\<^verbatim>\<open>daemon/local/local_task_monitor.cc\<close>). Waiting for a permission is split at the wait on the
  condition variable. What \<^verbatim>\<open>/proc\<close> and the control group files contain is an argument.
\<close>

section \<open>Definitions\<close>

record LocalTaskMonitor =
  lm_max_tasks :: nat
  lm_lightweight_task_overprovisioning :: nat
  lm_heavyweight_waiters :: nat
  lm_lightweight_waiters :: nat
  lm_permissions_granted :: "int set"

text \<open>White-space separated words, as \<open>operator>>\<close> of a stream reads them.\<close>

definition is_space :: "char \<Rightarrow> bool" where
  "is_space c \<longleftrightarrow> c \<in> {CHR '' '', CHR 0x09, CHR 0x0A, CHR 0x0B, CHR 0x0C, CHR 0x0D}"

fun next_word :: "string \<Rightarrow> string \<times> string" where
  "next_word s = (let t = dropWhile is_space s in (takeWhile (\<lambda>c. \<not> is_space c) t, dropWhile (\<lambda>c. \<not> is_space c) t))"

text \<open>\<open>lines\<close> are the lines of \<^verbatim>\<open>/proc/pid/status\<close>, \<open>None\<close> if it cannot be opened. The result is an
  abort when the state is missing.\<close>

fun state_of_status :: "flare \<Rightarrow> string list \<Rightarrow> bool option" where
  "state_of_status fl [] = None"
| "state_of_status fl (str # rest) =
     (if fl_StartsWith fl str ''State:''
      then let y = fst (next_word (snd (next_word str))) in Some (y \<noteq> ''Z'' \<and> y \<noteq> ''x'' \<and> y \<noteq> ''X'')
      else state_of_status fl rest)"

definition monitor_IsProcessAlive :: "flare \<Rightarrow> string list option \<Rightarrow> bool option" where
  "monitor_IsProcessAlive fl status = (case status of None \<Rightarrow> Some False | Some ls \<Rightarrow> state_of_status fl ls)"

text \<open>The two numbers are \<open>None\<close> when their file cannot be read as a number.\<close>

definition DetermineCGroupsProcessorQuota :: "nat \<Rightarrow> int option \<Rightarrow> int option \<Rightarrow> nat option" where
  "DetermineCGroupsProcessorQuota nprocs quota period =
     (case (quota, period) of
        (Some q, Some p) \<Rightarrow> if q \<le> 0 \<or> p \<le> 0 then None else Some (min nprocs (nat (q div p)))
      | _ \<Rightarrow> None)"

record monitor_flags =
  mf_max_local_tasks :: int
  mf_lightweight_local_task_overprovisioning_ratio :: rat

definition LocalTaskMonitor_ctor :: "double_ops \<Rightarrow> monitor_flags \<Rightarrow> nat \<Rightarrow> int option \<Rightarrow> int option \<Rightarrow> LocalTaskMonitor" where
  "LocalTaskMonitor_ctor dbl flags nprocs quota period =
     (let configured = (if mf_max_local_tasks flags \<noteq> 0 then nat (mf_max_local_tasks flags mod 2 ^ 64)
                        else case DetermineCGroupsProcessorQuota nprocs quota period of
                               Some cgroup_quota \<Rightarrow> cgroup_quota div 2
                             | None \<Rightarrow> nprocs div 2);
          max_tasks = max configured 1
      in \<lparr>lm_max_tasks = max_tasks,
          lm_lightweight_task_overprovisioning =
            nat (floor (dbl_round dbl (dbl_round dbl (of_nat max_tasks) * mf_lightweight_local_task_overprovisioning_ratio flags))),
          lm_heavyweight_waiters = 0, lm_lightweight_waiters = 0, lm_permissions_granted = {}\<rparr>)"

definition permission_limit :: "bool \<Rightarrow> LocalTaskMonitor \<Rightarrow> nat" where
  "permission_limit lightweight m = lm_max_tasks m + (if lightweight then lm_lightweight_task_overprovisioning m else 0)"

definition WaitForRunningNewTaskPermission_begin :: "bool \<Rightarrow> LocalTaskMonitor \<Rightarrow> LocalTaskMonitor" where
  "WaitForRunningNewTaskPermission_begin lightweight m =
     (if lightweight then m\<lparr>lm_lightweight_waiters := lm_lightweight_waiters m + 1\<rparr>
      else m\<lparr>lm_heavyweight_waiters := lm_heavyweight_waiters m + 1\<rparr>)"

text \<open>The wait is over, with success or because of the timeout. The waiter counters are unsigned.\<close>

definition WaitForRunningNewTaskPermission_end :: "int \<Rightarrow> bool \<Rightarrow> LocalTaskMonitor \<Rightarrow> bool \<times> LocalTaskMonitor" where
  "WaitForRunningNewTaskPermission_end starting_task_pid lightweight m =
     (let success = (card (lm_permissions_granted m) < permission_limit lightweight m);
          m1 = (if success then m\<lparr>lm_permissions_granted := insert starting_task_pid (lm_permissions_granted m)\<rparr> else m)
      in (success,
          if lightweight then m1\<lparr>lm_lightweight_waiters := (lm_lightweight_waiters m1 + (2 ^ 64 - 1)) mod 2 ^ 64\<rparr>
          else m1\<lparr>lm_heavyweight_waiters := (lm_heavyweight_waiters m1 + (2 ^ 64 - 1)) mod 2 ^ 64\<rparr>))"

text \<open>The second component tells whether the waiters are woken up.\<close>

definition DropTaskPermission :: "int \<Rightarrow> LocalTaskMonitor \<Rightarrow> LocalTaskMonitor \<times> bool" where
  "DropTaskPermission pid m =
     (if pid \<in> lm_permissions_granted m then (m\<lparr>lm_permissions_granted := lm_permissions_granted m - {pid}\<rparr>, True) else (m, False))"

definition OnAliveProcessCheck :: "(int \<Rightarrow> bool) \<Rightarrow> LocalTaskMonitor \<Rightarrow> LocalTaskMonitor" where
  "OnAliveProcessCheck IsAlive m = m\<lparr>lm_permissions_granted := Set.filter IsAlive (lm_permissions_granted m)\<rparr>"

section \<open>The limit\<close>

datatype monitor_call = MonitorWait bool | MonitorGrant int bool | MonitorDrop int | MonitorCheck "int \<Rightarrow> bool"

fun monitor_step :: "monitor_call \<Rightarrow> LocalTaskMonitor \<Rightarrow> LocalTaskMonitor option" where
  "monitor_step (MonitorWait lightweight) m = Some (WaitForRunningNewTaskPermission_begin lightweight m)"
| "monitor_step (MonitorGrant pid lightweight) m = Some (snd (WaitForRunningNewTaskPermission_end pid lightweight m))"
| "monitor_step (MonitorDrop pid) m = Some (fst (DropTaskPermission pid m))"
| "monitor_step (MonitorCheck alive) m = Some (OnAliveProcessCheck alive m)"

definition monitor_inv :: "nat \<Rightarrow> LocalTaskMonitor \<Rightarrow> bool" where
  "monitor_inv n m \<longleftrightarrow> finite (lm_permissions_granted m) \<and> permission_limit True m = n \<and> card (lm_permissions_granted m) \<le> n"

lemma monitor_step_inv: "monitor_inv n m \<Longrightarrow> \<exists>m'. monitor_step c m = Some m' \<and> monitor_inv n m'"
proof (cases c)
  case (MonitorGrant pid lightweight)
  assume "monitor_inv n m"
  then have m: "finite (lm_permissions_granted m)" "permission_limit True m = n" "card (lm_permissions_granted m) \<le> n" by (auto simp: monitor_inv_def)
  have "permission_limit lightweight m \<le> n" using m(2) by (auto simp: permission_limit_def)
  with m MonitorGrant show ?thesis
    by (auto simp: WaitForRunningNewTaskPermission_end_def Let_def monitor_inv_def permission_limit_def card_insert_if)
next
  case (MonitorDrop pid)
  assume "monitor_inv n m"
  with MonitorDrop show ?thesis
    by (auto simp: monitor_inv_def DropTaskPermission_def permission_limit_def intro: order_trans [OF card_Diff1_le])
next
  case (MonitorCheck alive)
  assume "monitor_inv n m"
  moreover have "card (Set.filter alive (lm_permissions_granted m)) \<le> card (lm_permissions_granted m)" if "finite (lm_permissions_granted m)"
    using that by (intro card_mono) auto
  ultimately show ?thesis using MonitorCheck
    by (auto simp: monitor_inv_def OnAliveProcessCheck_def permission_limit_def intro: finite_subset [of _ "lm_permissions_granted m"])
qed (auto simp: monitor_inv_def WaitForRunningNewTaskPermission_begin_def permission_limit_def)

interpretation local_monitor: safe_machine monitor_step "monitor_inv n" for n
proof
  show "monitor_inv n t" if "monitor_inv n s" "monitor_step c s = Some t" for s c t
    using monitor_step_inv [OF that(1), of c] that(2) by auto
  show "\<exists>t. monitor_step c s = Some t" if "monitor_inv n s" for s c
    using monitor_step_inv [OF that, of c] by auto
qed

lemma monitor_inv_ctor: "monitor_inv (permission_limit True (LocalTaskMonitor_ctor dbl flags nprocs quota period)) (LocalTaskMonitor_ctor dbl flags nprocs quota period)"
  by (simp add: monitor_inv_def LocalTaskMonitor_ctor_def Let_def)

lemma monitor_max_tasks: "lm_max_tasks (LocalTaskMonitor_ctor dbl flags nprocs quota period) \<ge> 1"
  by (simp add: LocalTaskMonitor_ctor_def Let_def)

text \<open>A task that is not lightweight is admitted only below \<open>max_tasks\<close>; a permission is never lost to
  another pid, and dropping an unknown pid wakes nobody up.\<close>

lemma heavy_task_admission:
  "WaitForRunningNewTaskPermission_end pid False m = (ok, m') \<Longrightarrow>
     ok = (card (lm_permissions_granted m) < lm_max_tasks m) \<and> lm_permissions_granted m' = lm_permissions_granted m \<union> (if ok then {pid} else {})"
  by (auto simp: WaitForRunningNewTaskPermission_end_def Let_def permission_limit_def split: if_splits)

end
