(* ===== verification/Execution_Engine.thy ===== *)
theory Execution_Engine
  imports Parse_Size
begin

text \<open>
  The serving daemon's process runner (\<^verbatim>\<open>daemon/cloud/execution_engine.cc\<close>). Task descriptors
  are shared objects: the table maps task ids to addresses in a heap of descriptors, so that a
  caller of \<open>WaitForTask\<close> keeps its descriptor after the task was removed from the table.

  The user's task (\<open>ExecutionTask\<close>) is of an arbitrary type; its virtual methods are the
  fields of the record \<open>execution_task_ops\<close>. Starting a program is an argument: the process
  id \<open>fork\<close> returned. Signals sent by \<open>kill\<close> are appended to the list \<open>ee_killed\<close>.
\<close>

section \<open>Data\<close>

datatype ExecutionStatus = ExecutionFailed | ExecutionRunning | ExecutionNotFound

datatype engine_NotAcceptingTaskReason = ReasonUnknown | ReasonUserInstructed | ReasonPoorMachine | ReasonCGroupsPresent

record 't execution_task_ops =
  et_GetCommandLine :: "'t \<Rightarrow> string"
  et_GetStandardInputOnce :: "'t \<Rightarrow> bytes \<times> 't"
  et_OnCompletion :: "int \<Rightarrow> bytes \<Rightarrow> bytes \<Rightarrow> 't \<Rightarrow> 't"

record 't ExecTaskDesc =
  xd_grant_id :: nat
  xd_client_ref_count :: nat
  xd_is_running :: bool
  xd_started_at :: time_point
  xd_completed_at :: time_point
  xd_process_id :: int
  xd_task :: 't
  xd_completion_latch :: bool
  xd_command :: string

record 't ExecutionEngine =
  ee_exiting :: bool
  ee_task_concurrency_limit :: nat
  ee_min_memory :: nat
  ee_not_accepting_task_reason :: engine_NotAcceptingTaskReason
  ee_tasks_run_ever :: nat
  ee_running_tasks :: nat
  ee_next_task_id :: nat
  ee_tasks :: "(nat, nat) umap"
  ee_heap :: "nat \<Rightarrow> 't ExecTaskDesc"
  ee_next_ref :: nat
  ee_waitpid_semaphore :: nat
  ee_killed :: "int list"

record engine_flags =
  ef_max_remote_tasks :: int
  ef_servant_priority :: string
  ef_min_memory_for_starting_new_task :: string
  ef_poor_machine_threshold_processors :: int

section \<open>Construction\<close>

text \<open>\<open>s\<close> is the content of \<^verbatim>\<open>/proc/self/cgroup\<close>; \<open>None\<close> is the failed check of a line's parts.\<close>

fun IsCGroupPresent_loop :: "flare \<Rightarrow> string list \<Rightarrow> bool option" where
  "IsCGroupPresent_loop fl [] = Some False"
| "IsCGroupPresent_loop fl (e # es) =
     (let parts = fl_Split fl e CHR '':'' True in
      if length parts < 3 then None
      else if (parts ! 1 = ''cpuacct,cpu'' \<or> parts ! 1 = ''memory'') \<and> parts ! 2 \<noteq> ''/'' \<and> parts ! 2 \<noteq> ''/user.slice''
      then Some True
      else IsCGroupPresent_loop fl es)"

definition IsCGroupPresent :: "flare \<Rightarrow> string \<Rightarrow> bool option" where
  "IsCGroupPresent fl s =
     (if fl_StartsWith fl s ''0::'' then Some True
      else IsCGroupPresent_loop fl (fl_Split fl s CHR 0x0A False))"

text \<open>The limit and the reason for not accepting tasks.\<close>

definition task_concurrency ::
  "flare \<Rightarrow> engine_flags \<Rightarrow> nat \<Rightarrow> string \<Rightarrow> (nat \<times> engine_NotAcceptingTaskReason) option" where
  "task_concurrency fl flags nprocs cgroup =
     (if ef_max_remote_tasks flags = - 1 then
        (if ef_servant_priority flags = ''dedicated'' then Some (nprocs * 95 div 100, ReasonUnknown)
         else if ef_servant_priority flags \<noteq> ''user'' then None
         else
           (case IsCGroupPresent fl cgroup of
              None \<Rightarrow> None
            | Some True \<Rightarrow> Some (0, ReasonCGroupsPresent)
            | Some False \<Rightarrow>
                if nprocs \<le> to_uint64 (ef_poor_machine_threshold_processors flags) then Some (0, ReasonPoorMachine)
                else Some (nprocs * 40 div 100, ReasonUnknown)))
      else if ef_max_remote_tasks flags = 0 then Some (0, ReasonUserInstructed)
      else if \<not> ef_max_remote_tasks flags > 0 then None
      else Some (nat (ef_max_remote_tasks flags), ReasonUnknown))"

definition ExecutionEngine_ctor ::
  "flare \<Rightarrow> engine_flags \<Rightarrow> nat \<Rightarrow> string \<Rightarrow> (nat \<Rightarrow> 't ExecTaskDesc) \<Rightarrow> 't ExecutionEngine option" where
  "ExecutionEngine_ctor fl flags nprocs cgroup heap0 =
     (case TryParseSize fl (ef_min_memory_for_starting_new_task flags) of
        Some (Some memory) \<Rightarrow>
          (case task_concurrency fl flags nprocs cgroup of
             None \<Rightarrow> None
           | Some (limit, reason) \<Rightarrow>
               Some \<lparr>ee_exiting = False, ee_task_concurrency_limit = limit, ee_min_memory = memory,
                     ee_not_accepting_task_reason = reason, ee_tasks_run_ever = 0, ee_running_tasks = 0,
                     ee_next_task_id = 1, ee_tasks = [], ee_heap = heap0, ee_next_ref = 0,
                     ee_waitpid_semaphore = 0, ee_killed = []\<rparr>)
      | _ \<Rightarrow> None)"

definition GetMaximumTasks :: "'t ExecutionEngine \<Rightarrow> engine_NotAcceptingTaskReason + nat" where
  "GetMaximumTasks s =
     (if ee_task_concurrency_limit s \<noteq> 0 then Inr (ee_task_concurrency_limit s)
      else Inl (ee_not_accepting_task_reason s))"

section \<open>Operations\<close>

text \<open>\<open>fetch_sub(1)\<close> on a \<open>std::size_t\<close>.\<close>

definition sub_size :: "nat \<Rightarrow> nat" where
  "sub_size n = (if n = 0 then 2 ^ 64 - 1 else n - 1)"

definition update_desc :: "nat \<Rightarrow> ('t ExecTaskDesc \<Rightarrow> 't ExecTaskDesc) \<Rightarrow> 't ExecutionEngine \<Rightarrow> 't ExecutionEngine" where
  "update_desc r f s = s\<lparr>ee_heap := (ee_heap s)(r := f (ee_heap s r))\<rparr>"

definition TryStartingNewTaskUnsafe :: "nat \<Rightarrow> 't ExecutionEngine \<Rightarrow> nat option \<times> 't ExecutionEngine" where
  "TryStartingNewTaskUnsafe memory_available s =
     (if ee_exiting s then (None, s)
      else
        (let task_id = ee_next_task_id s;
             s1 = s\<lparr>ee_next_task_id := (task_id + 1) mod 2 ^ 64, ee_running_tasks := ee_running_tasks s + 1\<rparr>
         in if ee_running_tasks s + 1 > ee_task_concurrency_limit s1
            then (None, s1\<lparr>ee_running_tasks := sub_size (ee_running_tasks s1)\<rparr>)
            else if memory_available < ee_min_memory s1
            then (None, s1\<lparr>ee_running_tasks := sub_size (ee_running_tasks s1)\<rparr>)
            else (Some task_id, s1\<lparr>ee_tasks_run_ever := ee_tasks_run_ever s1 + 1\<rparr>)))"

definition TryQueueTask ::
  "'t execution_task_ops \<Rightarrow> nat \<Rightarrow> 't \<Rightarrow> nat \<Rightarrow> int \<Rightarrow> time_point \<Rightarrow> 't ExecutionEngine
   \<Rightarrow> nat option \<times> 't ExecutionEngine" where
  "TryQueueTask ops grant_id user_task memory_available pid now s =
     (case TryStartingNewTaskUnsafe memory_available s of
        (None, s1) \<Rightarrow> (None, s1)
      | (Some task_id, s1) \<Rightarrow>
          (let cmd = et_GetCommandLine ops user_task;
               (input, user_task1) = et_GetStandardInputOnce ops user_task;
               desc = \<lparr>xd_grant_id = grant_id, xd_client_ref_count = 1, xd_is_running = True,
                       xd_started_at = now, xd_completed_at = 0, xd_process_id = pid, xd_task = user_task1,
                       xd_completion_latch = False, xd_command = cmd\<rparr>
           in (Some task_id,
               s1\<lparr>ee_tasks := umap_set task_id (ee_next_ref s1) (ee_tasks s1),
                  ee_heap := (ee_heap s1)(ee_next_ref s1 := desc),
                  ee_next_ref := ee_next_ref s1 + 1,
                  ee_waitpid_semaphore := ee_waitpid_semaphore s1 + 1\<rparr>)))"

definition TryReferenceTask :: "nat \<Rightarrow> 't ExecutionEngine \<Rightarrow> bool \<times> 't ExecutionEngine" where
  "TryReferenceTask task_id s =
     (case map_of (ee_tasks s) task_id of
        None \<Rightarrow> (False, s)
      | Some r \<Rightarrow> (True, update_desc r (\<lambda>t. t\<lparr>xd_client_ref_count := xd_client_ref_count t + 1\<rparr>) s))"

text \<open>
  \<open>WaitForTask\<close> looks the descriptor up, and later (after the lock was released, in the state
  \<open>later\<close>) finds its latch signalled or gives up.
\<close>

definition WaitForTask :: "nat \<Rightarrow> 't ExecutionEngine \<Rightarrow> 't ExecutionEngine \<Rightarrow> ExecutionStatus + 't" where
  "WaitForTask task_id s later =
     (case map_of (ee_tasks s) task_id of
        None \<Rightarrow> Inl ExecutionNotFound
      | Some r \<Rightarrow>
          if \<not> xd_completion_latch (ee_heap later r) then Inl ExecutionRunning
          else Inr (xd_task (ee_heap later r)))"

definition KillTask :: "nat \<Rightarrow> 't ExecutionEngine \<Rightarrow> 't ExecutionEngine" where
  "KillTask r s =
     (if xd_is_running (ee_heap s r) then s\<lparr>ee_killed := ee_killed s @ [- xd_process_id (ee_heap s r)]\<rparr> else s)"

text \<open>The count is unsigned; \<open>--count > 0\<close> keeps the task.\<close>

definition engine_FreeTask :: "nat \<Rightarrow> 't ExecutionEngine \<Rightarrow> 't ExecutionEngine" where
  "engine_FreeTask task_id s =
     (case map_of (ee_tasks s) task_id of
        None \<Rightarrow> s
      | Some r \<Rightarrow>
          (let count = (if xd_client_ref_count (ee_heap s r) = 0 then 2 ^ 32 - 1 else xd_client_ref_count (ee_heap s r) - 1);
               s1 = update_desc r (\<lambda>t. t\<lparr>xd_client_ref_count := count\<rparr>) s
           in if count > 0 then s1
              else KillTask r (s1\<lparr>ee_tasks := umap_erase task_id (ee_tasks s1)\<rparr>)))"

definition EnumerateTasks :: "'t ExecutionEngine \<Rightarrow> (nat \<times> nat \<times> 't) list" where
  "EnumerateTasks s = map (\<lambda>(k, r). (k, xd_grant_id (ee_heap s r), xd_task (ee_heap s r))) (ee_tasks s)"

definition KillExpiredTasks :: "nat set \<Rightarrow> 't ExecutionEngine \<Rightarrow> 't ExecutionEngine" where
  "KillExpiredTasks expired_grant_ids s =
     fold (\<lambda>(k, r) s. if xd_is_running (ee_heap s r) \<and> xd_grant_id (ee_heap s r) \<in> expired_grant_ids
                      then KillTask r s else s) (ee_tasks s) s"

definition engine_Stop :: "'t ExecutionEngine \<Rightarrow> 't ExecutionEngine" where
  "engine_Stop s =
     (let s1 = fold (\<lambda>(k, r) s. KillTask r s) (ee_tasks s) (s\<lparr>ee_exiting := True\<rparr>)
      in s1\<lparr>ee_waitpid_semaphore := ee_waitpid_semaphore s1 + 1\<rparr>)"

text \<open>The condition under which \<open>Join\<close> sleeps for another 100 ms.\<close>

definition Join_keep_sleep :: "'t ExecutionEngine \<Rightarrow> bool" where
  "Join_keep_sleep s = list_ex (\<lambda>(k, r). xd_is_running (ee_heap s r)) (ee_tasks s)"

definition OnCleanupTimer :: "time_point \<Rightarrow> 't ExecutionEngine \<Rightarrow> 't ExecutionEngine" where
  "OnCleanupTimer now s =
     s\<lparr>ee_tasks := filter (\<lambda>(k, r). \<not> (\<not> xd_is_running (ee_heap s r) \<and> xd_completed_at (ee_heap s r) + seconds 60 < now))
                     (ee_tasks s)\<rparr>"

text \<open>
  The exit callback; \<open>out\<close> and \<open>err\<close> are what the task's files hold. The descriptor is found
  by process id, the first match in iteration order.
\<close>

definition OnProcessExitCallback ::
  "'t execution_task_ops \<Rightarrow> int \<Rightarrow> int \<Rightarrow> bytes \<Rightarrow> bytes \<Rightarrow> time_point \<Rightarrow> 't ExecutionEngine \<Rightarrow> 't ExecutionEngine" where
  "OnProcessExitCallback ops pid exit_code out err now s =
     (let found = find (\<lambda>(k, r). xd_process_id (ee_heap s r) = pid) (ee_tasks s);
          s1 = s\<lparr>ee_running_tasks := sub_size (ee_running_tasks s)\<rparr>
      in case found of
           None \<Rightarrow> s1
         | Some (k, r) \<Rightarrow>
             update_desc r (\<lambda>t. t\<lparr>xd_completed_at := now, xd_is_running := False,
                                  xd_task := et_OnCompletion ops exit_code out err (xd_task t),
                                  xd_completion_latch := True\<rparr>) s1)"

text \<open>One round of the thread that waits for children.\<close>

datatype wait_result = WaitFailed | WaitChild int "int option"

datatype waiter_outcome = WaiterQuit | WaiterBlocked | WaiterCallback int int

definition more_work_to_do :: "'t ExecutionEngine \<Rightarrow> bool" where
  "more_work_to_do s \<longleftrightarrow> \<not> ee_exiting s \<or> ee_running_tasks s \<noteq> 0"

text \<open>
  \<open>None\<close> is the abort when \<open>wait\<close> fails while the daemon is not leaving. The exit status of a
  child is \<open>Some code\<close> when it exited, and the callback then gets that code, or -1.
\<close>

definition ProcessWaiterProc_iter ::
  "wait_result \<Rightarrow> 't ExecutionEngine \<Rightarrow> (waiter_outcome \<times> 't ExecutionEngine) option" where
  "ProcessWaiterProc_iter w s =
     (if \<not> more_work_to_do s then Some (WaiterQuit, s)
      else if ee_waitpid_semaphore s = 0 then Some (WaiterBlocked, s)
      else
        (let s1 = s\<lparr>ee_waitpid_semaphore := ee_waitpid_semaphore s - 1\<rparr>
         in case w of
              WaitFailed \<Rightarrow> if ee_exiting s1 then Some (WaiterQuit, s1) else None
            | WaitChild pid status \<Rightarrow>
                Some (WaiterCallback pid (case status of Some code \<Rightarrow> code | None \<Rightarrow> - 1), s1)))"

section \<open>The engine and the operating system\<close>

text \<open>
  The system state adds what the operating system knows: \<open>os_children\<close> are the processes that
  run or were not waited for yet, and \<open>os_callbacks\<close> the exit callbacks that are scheduled but
  did not run yet. A step that is not enabled is \<open>None\<close>.
\<close>

record 't engine_system =
  es_engine :: "'t ExecutionEngine"
  es_children :: "int list"
  es_callbacks :: "(int \<times> int) list"

datatype 't engine_call =
    EngTryQueueTask nat 't nat int time_point
  | EngTryReferenceTask nat
  | EngFreeTask nat
  | EngKillExpiredTasks "nat set"
  | EngStop
  | EngCleanupTimer time_point
  | EngWaitChild int "int option"
  | EngExitCallback int int bytes bytes time_point

fun engine_step :: "'t execution_task_ops \<Rightarrow> 't engine_call \<Rightarrow> 't engine_system \<Rightarrow> 't engine_system option" where
  "engine_step ops (EngTryQueueTask g t mem pid now) y =
     (if pid \<in> set (es_children y) \<or> pid \<le> 0 then None
      else (case TryQueueTask ops g t mem pid now (es_engine y) of
              (None, s) \<Rightarrow> Some (y\<lparr>es_engine := s\<rparr>)
            | (Some i, s) \<Rightarrow> Some (y\<lparr>es_engine := s, es_children := pid # es_children y\<rparr>)))"
| "engine_step ops (EngTryReferenceTask i) y = Some (y\<lparr>es_engine := snd (TryReferenceTask i (es_engine y))\<rparr>)"
| "engine_step ops (EngFreeTask i) y = Some (y\<lparr>es_engine := engine_FreeTask i (es_engine y)\<rparr>)"
| "engine_step ops (EngKillExpiredTasks g) y = Some (y\<lparr>es_engine := KillExpiredTasks g (es_engine y)\<rparr>)"
| "engine_step ops EngStop y = Some (y\<lparr>es_engine := engine_Stop (es_engine y)\<rparr>)"
| "engine_step ops (EngCleanupTimer now) y = Some (y\<lparr>es_engine := OnCleanupTimer now (es_engine y)\<rparr>)"
| "engine_step ops (EngWaitChild pid status) y =
     (if pid \<in> set (es_children y) then
        (case ProcessWaiterProc_iter (WaitChild pid status) (es_engine y) of
           Some (WaiterCallback p c, s) \<Rightarrow>
             Some (y\<lparr>es_engine := s, es_children := remove1 pid (es_children y), es_callbacks := (p, c) # es_callbacks y\<rparr>)
         | Some (_, s) \<Rightarrow> Some (y\<lparr>es_engine := s\<rparr>)
         | None \<Rightarrow> None)
      else None)"
| "engine_step ops (EngExitCallback pid code out err now) y =
     (if (pid, code) \<in> set (es_callbacks y) then
        Some (y\<lparr>es_engine := OnProcessExitCallback ops pid code out err now (es_engine y),
                es_callbacks := remove1 (pid, code) (es_callbacks y)\<rparr>)
      else None)"

section \<open>Invariant\<close>

definition engine_ok :: "'t ExecutionEngine \<Rightarrow> bool" where
  "engine_ok s \<longleftrightarrow>
     distinct (umap_keys (ee_tasks s)) \<and> distinct (map snd (ee_tasks s))
     \<and> (\<forall>e\<in>set (ee_tasks s). snd e < ee_next_ref s \<and> 0 < xd_client_ref_count (ee_heap s (snd e)))
     \<and> (\<forall>r<ee_next_ref s. xd_completion_latch (ee_heap s r) = (\<not> xd_is_running (ee_heap s r)))"

definition engine_inv :: "'t engine_system \<Rightarrow> bool" where
  "engine_inv y \<longleftrightarrow>
     engine_ok (es_engine y)
     \<and> ee_running_tasks (es_engine y) = length (es_children y) + length (es_callbacks y)
     \<and> ee_running_tasks (es_engine y) \<le> ee_task_concurrency_limit (es_engine y)
     \<and> length (es_children y) \<le> ee_waitpid_semaphore (es_engine y)
     \<and> distinct (es_children y)"

lemma engine_ok_frame [simp]:
  "engine_ok (s\<lparr>ee_waitpid_semaphore := n\<rparr>) = engine_ok s" "engine_ok (s\<lparr>ee_running_tasks := n\<rparr>) = engine_ok s"
  "engine_ok (s\<lparr>ee_next_task_id := n\<rparr>) = engine_ok s"
  by (simp_all add: engine_ok_def)

lemma KillTask_simps [simp]:
  "ee_tasks (KillTask r s) = ee_tasks s" "ee_heap (KillTask r s) = ee_heap s"
  "ee_next_ref (KillTask r s) = ee_next_ref s" "ee_running_tasks (KillTask r s) = ee_running_tasks s"
  "ee_task_concurrency_limit (KillTask r s) = ee_task_concurrency_limit s"
  "ee_waitpid_semaphore (KillTask r s) = ee_waitpid_semaphore s" "ee_exiting (KillTask r s) = ee_exiting s"
  by (simp_all add: KillTask_def)

lemma update_desc_simps [simp]:
  "ee_tasks (update_desc r f s) = ee_tasks s" "ee_heap (update_desc r f s) = (ee_heap s)(r := f (ee_heap s r))"
  "ee_next_ref (update_desc r f s) = ee_next_ref s" "ee_running_tasks (update_desc r f s) = ee_running_tasks s"
  "ee_task_concurrency_limit (update_desc r f s) = ee_task_concurrency_limit s"
  "ee_waitpid_semaphore (update_desc r f s) = ee_waitpid_semaphore s" "ee_exiting (update_desc r f s) = ee_exiting s"
  "ee_killed (update_desc r f s) = ee_killed s"
  by (simp_all add: update_desc_def)

text \<open>Loops that only send signals change nothing else.\<close>

definition same_engine :: "'t ExecutionEngine \<Rightarrow> 't ExecutionEngine \<Rightarrow> bool" where
  "same_engine s s' \<longleftrightarrow>
     ee_tasks s' = ee_tasks s \<and> ee_heap s' = ee_heap s \<and> ee_next_ref s' = ee_next_ref s
     \<and> ee_running_tasks s' = ee_running_tasks s \<and> ee_task_concurrency_limit s' = ee_task_concurrency_limit s
     \<and> ee_waitpid_semaphore s' = ee_waitpid_semaphore s"

lemma same_engine_ok: "same_engine s s' \<Longrightarrow> engine_ok s \<Longrightarrow> engine_ok s'"
  by (simp add: same_engine_def engine_ok_def)

lemma fold_kill:
  assumes "\<And>e s. f e s = (if P (ee_heap s (snd e)) then KillTask (snd e) s else s)"
  shows "same_engine s (fold f es s)"
    and "ee_killed (fold f es s) = ee_killed s @
         map (\<lambda>e. - xd_process_id (ee_heap s (snd e)))
           (filter (\<lambda>e. P (ee_heap s (snd e)) \<and> xd_is_running (ee_heap s (snd e))) es)"
proof -
  have "same_engine s (fold f es s) \<and> ee_killed (fold f es s) = ee_killed s @
         map (\<lambda>e. - xd_process_id (ee_heap s (snd e)))
           (filter (\<lambda>e. P (ee_heap s (snd e)) \<and> xd_is_running (ee_heap s (snd e))) es)"
  proof (induction es arbitrary: s)
    case (Cons e es)
    show ?case using Cons [of "f e s"] by (auto simp: assms same_engine_def KillTask_def)
  qed (simp add: same_engine_def)
  then show "same_engine s (fold f es s)"
    and "ee_killed (fold f es s) = ee_killed s @
         map (\<lambda>e. - xd_process_id (ee_heap s (snd e)))
           (filter (\<lambda>e. P (ee_heap s (snd e)) \<and> xd_is_running (ee_heap s (snd e))) es)" by auto
qed

lemma KillExpiredTasks_effect:
  "same_engine s (KillExpiredTasks G s)"
  "ee_killed (KillExpiredTasks G s) = ee_killed s @
     map (\<lambda>e. - xd_process_id (ee_heap s (snd e)))
       (filter (\<lambda>e. xd_is_running (ee_heap s (snd e)) \<and> xd_grant_id (ee_heap s (snd e)) \<in> G) (ee_tasks s))"
  unfolding KillExpiredTasks_def
  by (subst fold_kill [where P = "\<lambda>t. xd_is_running t \<and> xd_grant_id t \<in> G"]; auto intro!: arg_cong [where f = "map _"] filter_cong)+

lemma TryStartingNewTaskUnsafe_cases:
  obtains
    (exiting) "ee_exiting s" "TryStartingNewTaskUnsafe mem s = (None, s)"
  | (rejected) "\<not> ee_exiting s" "ee_running_tasks s \<ge> ee_task_concurrency_limit s \<or> mem < ee_min_memory s"
      "TryStartingNewTaskUnsafe mem s = (None, s\<lparr>ee_next_task_id := (ee_next_task_id s + 1) mod 2 ^ 64\<rparr>)"
  | (started) "\<not> ee_exiting s" "ee_running_tasks s < ee_task_concurrency_limit s" "ee_min_memory s \<le> mem"
      "TryStartingNewTaskUnsafe mem s = (Some (ee_next_task_id s),
         s\<lparr>ee_next_task_id := (ee_next_task_id s + 1) mod 2 ^ 64, ee_running_tasks := ee_running_tasks s + 1,
           ee_tasks_run_ever := ee_tasks_run_ever s + 1\<rparr>)"
proof (cases "ee_exiting s")
  case True
  then show thesis using exiting by (simp add: TryStartingNewTaskUnsafe_def)
next
  case False
  show thesis
  proof (cases "ee_running_tasks s \<ge> ee_task_concurrency_limit s \<or> mem < ee_min_memory s")
    case True
    then show thesis using False rejected by (auto simp: TryStartingNewTaskUnsafe_def Let_def sub_size_def)
  next
    case inner: False
    then show thesis using False started by (auto simp: TryStartingNewTaskUnsafe_def Let_def)
  qed
qed

lemma set_umap_modify_const: "set (umap_modify k (\<lambda>_. v) m) \<subseteq> insert (k, v) (set m)"
  by (induction m) (auto split: if_splits)

lemma set_umap_set_subset: "set (umap_set k v m) \<subseteq> insert (k, v) (set m)"
  using set_umap_modify_const [of k v m] by (auto simp: umap_set_def)

lemma distinct_snd_umap_set:
  assumes "distinct (map snd m)" "v \<notin> snd ` set m"
  shows "distinct (map snd (umap_set k v m))"
proof -
  have sub: "snd ` set (umap_modify k (\<lambda>_. v) m) \<subseteq> insert v (snd ` set m)" for m
    using image_mono [OF set_umap_modify_const [of k v m], of snd] by simp
  have "distinct (map snd (umap_modify k (\<lambda>_. v) m))"
    using assms by (induction m) (use sub in force)+
  with assms show ?thesis by (simp add: umap_set_def)
qed

lemma engine_ok_start:
  assumes "engine_ok s" "xd_client_ref_count d = 1" "xd_is_running d" "\<not> xd_completion_latch d"
    "ee_tasks s' = umap_set i (ee_next_ref s) (ee_tasks s)" "ee_heap s' = (ee_heap s)(ee_next_ref s := d)"
    "ee_next_ref s' = ee_next_ref s + 1"
  shows "engine_ok s'"
proof -
  have below: "\<forall>e\<in>set (ee_tasks s). snd e < ee_next_ref s" using assms(1) by (auto simp: engine_ok_def)
  then have "distinct (map snd (ee_tasks s'))"
    using assms(1,5) by (auto simp: engine_ok_def intro!: distinct_snd_umap_set)
  moreover have "\<forall>e\<in>set (ee_tasks s'). snd e < ee_next_ref s' \<and> 0 < xd_client_ref_count (ee_heap s' (snd e))"
    using set_umap_set_subset [of i "ee_next_ref s" "ee_tasks s"] assms by (fastforce simp: engine_ok_def)
  ultimately show ?thesis
    using assms by (auto simp: engine_ok_def less_Suc_eq)
qed

lemma TryQueueTask_effect:
  assumes "TryQueueTask ops g t mem pid now s = (r, s')" "engine_ok s"
  shows "engine_ok s' \<and> ee_task_concurrency_limit s' = ee_task_concurrency_limit s \<and>
    (case r of
       None \<Rightarrow> ee_running_tasks s' = ee_running_tasks s \<and> ee_waitpid_semaphore s' = ee_waitpid_semaphore s
     | Some i \<Rightarrow> ee_running_tasks s' = ee_running_tasks s + 1 \<and> ee_running_tasks s < ee_task_concurrency_limit s
         \<and> ee_waitpid_semaphore s' = ee_waitpid_semaphore s + 1)"
proof (cases rule: TryStartingNewTaskUnsafe_cases [where s = s and mem = mem])
  case started
  obtain inp t1 where i: "et_GetStandardInputOnce ops t = (inp, t1)" by fastforce
  let ?d = "\<lparr>xd_grant_id = g, xd_client_ref_count = 1, xd_is_running = True, xd_started_at = now,
      xd_completed_at = 0, xd_process_id = pid, xd_task = t1, xd_completion_latch = False,
      xd_command = et_GetCommandLine ops t\<rparr>"
  have "engine_ok s'"
    by (rule engine_ok_start [OF assms(2), where d = ?d and i = "ee_next_task_id s"])
      (use started i assms(1) in \<open>auto simp: TryQueueTask_def\<close>)
  with started i assms show ?thesis by (auto simp: TryQueueTask_def)
qed (use assms in \<open>auto simp: TryQueueTask_def\<close>)

lemma engine_ok_update_live:
  assumes "engine_ok s" "r < ee_next_ref s" "0 < xd_client_ref_count (f (ee_heap s r))"
    "xd_completion_latch (f (ee_heap s r)) = (\<not> xd_is_running (f (ee_heap s r)))"
  shows "engine_ok (update_desc r f s)"
  using assms by (auto simp: engine_ok_def)

lemma engine_ok_table: "engine_ok s \<Longrightarrow> map_of (ee_tasks s) i = Some r \<Longrightarrow>
    r < ee_next_ref s \<and> 0 < xd_client_ref_count (ee_heap s r)
    \<and> xd_completion_latch (ee_heap s r) = (\<not> xd_is_running (ee_heap s r))"
  by (auto simp: engine_ok_def dest!: map_of_SomeD)

lemma TryReferenceTask_ok: "engine_ok s \<Longrightarrow> engine_ok (snd (TryReferenceTask i s))"
  by (auto simp: TryReferenceTask_def dest: engine_ok_table split: option.splits intro!: engine_ok_update_live)

lemma TryReferenceTask_frame [simp]:
  "ee_running_tasks (snd (TryReferenceTask i s)) = ee_running_tasks s"
  "ee_task_concurrency_limit (snd (TryReferenceTask i s)) = ee_task_concurrency_limit s"
  "ee_waitpid_semaphore (snd (TryReferenceTask i s)) = ee_waitpid_semaphore s"
  by (auto simp: TryReferenceTask_def split: option.splits)

lemma other_refs_after_erase:
  assumes "distinct (umap_keys m)" "distinct (map snd m)" "map_of m i = Some r"
  shows "(j, r) \<in> set m \<Longrightarrow> j = i"
proof (rule ccontr)
  assume "(j, r) \<in> set m" "j \<noteq> i"
  moreover have "(i, r) \<in> set m" using assms(3) by (rule map_of_SomeD)
  ultimately show False using assms(2) by (metis distinct_map inj_onD prod.inject snd_conv)
qed

lemma engine_FreeTask_ok:
  assumes "engine_ok s"
  shows "engine_ok (engine_FreeTask i s)"
proof (cases "map_of (ee_tasks s) i")
  case (Some r)
  have d: "distinct (umap_keys (ee_tasks s))" "distinct (map snd (ee_tasks s))"
    using assms by (auto simp: engine_ok_def)
  note live = engine_ok_table [OF assms Some]
  note out = other_refs_after_erase [OF d Some]
  have "engine_ok (update_desc r (\<lambda>t. t\<lparr>xd_client_ref_count := 0\<rparr>) s\<lparr>ee_tasks := umap_erase i (ee_tasks s)\<rparr>)"
    using assms out d by (auto simp: engine_ok_def umap_simps distinct_map_filter umap_erase_def)
  then show ?thesis
    using Some live assms by (auto simp: engine_FreeTask_def Let_def KillTask_def engine_ok_def)
qed (use assms in \<open>simp add: engine_FreeTask_def\<close>)

lemma engine_FreeTask_frame [simp]:
  "ee_running_tasks (engine_FreeTask i s) = ee_running_tasks s"
  "ee_task_concurrency_limit (engine_FreeTask i s) = ee_task_concurrency_limit s"
  "ee_waitpid_semaphore (engine_FreeTask i s) = ee_waitpid_semaphore s"
  by (auto simp: engine_FreeTask_def Let_def split: option.splits)

lemma engine_Stop_effect:
  assumes "engine_ok s"
  shows "engine_ok (engine_Stop s) \<and> ee_running_tasks (engine_Stop s) = ee_running_tasks s
    \<and> ee_task_concurrency_limit (engine_Stop s) = ee_task_concurrency_limit s
    \<and> ee_waitpid_semaphore (engine_Stop s) = ee_waitpid_semaphore s + 1"
proof -
  have "same_engine (s\<lparr>ee_exiting := True\<rparr>) (fold (\<lambda>(k, r) s. KillTask r s) (ee_tasks s) (s\<lparr>ee_exiting := True\<rparr>))"
    by (rule fold_kill(1) [where P = "\<lambda>_. True"]) auto
  with assms show ?thesis by (auto simp: engine_Stop_def same_engine_def engine_ok_def Let_def)
qed

lemma OnCleanupTimer_ok: "engine_ok s \<Longrightarrow> engine_ok (OnCleanupTimer now s)"
  by (auto simp: OnCleanupTimer_def engine_ok_def distinct_map_filter)

lemma OnCleanupTimer_frame [simp]:
  "ee_running_tasks (OnCleanupTimer now s) = ee_running_tasks s"
  "ee_task_concurrency_limit (OnCleanupTimer now s) = ee_task_concurrency_limit s"
  "ee_waitpid_semaphore (OnCleanupTimer now s) = ee_waitpid_semaphore s"
  by (simp_all add: OnCleanupTimer_def)

lemma OnProcessExitCallback_ok:
  assumes "engine_ok s"
  shows "engine_ok (OnProcessExitCallback ops pid code out err now s)"
proof -
  let ?s1 = "s\<lparr>ee_running_tasks := sub_size (ee_running_tasks s)\<rparr>"
  have ok1: "engine_ok ?s1" using assms by (simp add: engine_ok_def)
  show ?thesis
  proof (cases "find (\<lambda>(k, r). xd_process_id (ee_heap s r) = pid) (ee_tasks s)")
    case (Some e)
    then have "e \<in> set (ee_tasks s)" using find_SomeD by fast
    then have "snd e < ee_next_ref s" "0 < xd_client_ref_count (ee_heap s (snd e))"
      using assms by (auto simp: engine_ok_def)
    then show ?thesis
      using Some ok1 by (cases e) (auto simp: OnProcessExitCallback_def Let_def intro!: engine_ok_update_live)
  qed (use ok1 in \<open>simp add: OnProcessExitCallback_def Let_def\<close>)
qed

lemma OnProcessExitCallback_frame [simp]:
  "ee_running_tasks (OnProcessExitCallback ops pid code out err now s) = sub_size (ee_running_tasks s)"
  "ee_task_concurrency_limit (OnProcessExitCallback ops pid code out err now s) = ee_task_concurrency_limit s"
  "ee_waitpid_semaphore (OnProcessExitCallback ops pid code out err now s) = ee_waitpid_semaphore s"
  by (auto simp: OnProcessExitCallback_def Let_def split: option.splits)

lemma ProcessWaiterProc_iter_child:
  assumes "engine_inv y" "pid \<in> set (es_children y)"
  shows "ProcessWaiterProc_iter (WaitChild pid status) (es_engine y) =
     Some (WaiterCallback pid (case status of Some code \<Rightarrow> code | None \<Rightarrow> - 1),
           (es_engine y)\<lparr>ee_waitpid_semaphore := ee_waitpid_semaphore (es_engine y) - 1\<rparr>)"
proof -
  have "0 < length (es_children y)" using assms(2) by (rule length_pos_if_in_set)
  with assms(1) have "ee_running_tasks (es_engine y) \<noteq> 0" "ee_waitpid_semaphore (es_engine y) \<noteq> 0"
    unfolding engine_inv_def by linarith+
  then show ?thesis by (simp add: ProcessWaiterProc_iter_def more_work_to_do_def Let_def)
qed

lemma engine_step_inv:
  assumes "engine_inv y" "engine_step ops c y = Some y'"
  shows "engine_inv y'"
proof (cases c)
  case (EngTryQueueTask g t mem pid now)
  obtain r s' where q: "TryQueueTask ops g t mem pid now (es_engine y) = (r, s')" by fastforce
  with TryQueueTask_effect [OF q] assms EngTryQueueTask show ?thesis
    by (cases r) (auto simp: engine_inv_def split: if_splits)
next
  case (EngKillExpiredTasks G)
  with assms KillExpiredTasks_effect(1) [of "es_engine y" G] same_engine_ok show ?thesis
    by (fastforce simp: engine_inv_def same_engine_def)
next
  case EngStop
  with assms engine_Stop_effect [of "es_engine y"] show ?thesis by (auto simp: engine_inv_def)
next
  case (EngWaitChild pid status)
  then have p: "pid \<in> set (es_children y)" using assms(2) by (auto split: if_splits)
  then have "length (es_children y) > 0" by auto
  with EngWaitChild assms p ProcessWaiterProc_iter_child [OF assms(1) p, of status] show ?thesis
    by (auto simp: engine_inv_def length_remove1)
next
  case (EngExitCallback pid code out err now)
  then have p: "(pid, code) \<in> set (es_callbacks y)" using assms(2) by (auto split: if_splits)
  then obtain n where "length (es_callbacks y) = Suc n" by (cases "es_callbacks y") auto
  with EngExitCallback assms p show ?thesis
    by (auto simp: engine_inv_def OnProcessExitCallback_ok length_remove1 sub_size_def)
next
  case (EngTryReferenceTask i)
  with assms show ?thesis by (auto simp: engine_inv_def TryReferenceTask_ok)
next
  case (EngFreeTask i)
  with assms show ?thesis by (auto simp: engine_inv_def engine_FreeTask_ok)
next
  case (EngCleanupTimer now)
  with assms show ?thesis by (auto simp: engine_inv_def OnCleanupTimer_ok)
qed

interpretation engine: checked_machine "engine_step ops" engine_inv for ops
  by unfold_locales (rule engine_step_inv)

lemma engine_inv_init:
  "ExecutionEngine_ctor fl flags nprocs cg h = Some s \<Longrightarrow>
   engine_inv \<lparr>es_engine = s, es_children = [], es_callbacks = []\<rparr>"
  by (auto simp: ExecutionEngine_ctor_def engine_inv_def engine_ok_def split: option.splits)

section \<open>A concrete engine\<close>

text \<open>A user task that collects its completion.\<close>

definition demo_ops :: "(int \<times> bytes) option execution_task_ops" where
  "demo_ops = \<lparr>et_GetCommandLine = (\<lambda>_. ''g++''), et_GetStandardInputOnce = (\<lambda>t. ([], t)),
     et_OnCompletion = (\<lambda>code out err t. Some (code, out))\<rparr>"

definition demo_desc :: "(int \<times> bytes) option ExecTaskDesc" where
  "demo_desc = \<lparr>xd_grant_id = 0, xd_client_ref_count = 0, xd_is_running = False, xd_started_at = 0,
     xd_completed_at = 0, xd_process_id = 0, xd_task = None, xd_completion_latch = True, xd_command = []\<rparr>"

definition demo_engine_flags :: engine_flags where
  "demo_engine_flags = \<lparr>ef_max_remote_tasks = 2, ef_servant_priority = ''user'',
     ef_min_memory_for_starting_new_task = ''1K'', ef_poor_machine_threshold_processors = 16\<rparr>"

definition demo_engine :: "(int \<times> bytes) option ExecutionEngine" where
  "demo_engine = the (ExecutionEngine_ctor reference_flare demo_engine_flags 8 [] (\<lambda>_. demo_desc))"

definition demo_system :: "(int \<times> bytes) option engine_system" where
  "demo_system = \<lparr>es_engine = demo_engine, es_children = [], es_callbacks = []\<rparr>"

lemma demo_engine_ctor: "ExecutionEngine_ctor reference_flare demo_engine_flags 8 [] (\<lambda>_. demo_desc) = Some demo_engine"
proof -
  have "ExecutionEngine_ctor reference_flare demo_engine_flags 8 [] (\<lambda>_. demo_desc) \<noteq> None" by code_simp
  then show ?thesis by (auto simp: demo_engine_def)
qed

lemma demo_system_inv: "engine_inv demo_system"
  unfolding demo_system_def by (rule engine_inv_init [OF demo_engine_ctor])

definition demo_engine_calls :: "(int \<times> bytes) option engine_call list" where
  "demo_engine_calls = [EngTryQueueTask 7 None 4096 100 1, EngTryReferenceTask 1]"

definition demo_system1 :: "(int \<times> bytes) option engine_system" where
  "demo_system1 = the (run_calls (engine_step demo_ops) demo_engine_calls demo_system)"

lemma demo_engine_run: "run_calls (engine_step demo_ops) demo_engine_calls demo_system = Some demo_system1"
proof -
  have "run_calls (engine_step demo_ops) demo_engine_calls demo_system \<noteq> None" by code_simp
  then show ?thesis by (auto simp: demo_system1_def)
qed

lemma demo_system1_inv: "engine_inv demo_system1"
  by (rule engine.run_calls_inv [OF demo_system_inv demo_engine_run])

section \<open>Properties\<close>



text \<open>A task is started exactly when the daemon is not leaving, the number of running tasks
  is below the limit and enough memory is available; it then gets the next id and a descriptor
  with one reference. A refused task leaves the count of running tasks and the table as they were.\<close>

theorem try_queue_task_decision:
  shows "fst (TryQueueTask ops g t mem pid now s) =
     (if \<not> ee_exiting s \<and> ee_running_tasks s < ee_task_concurrency_limit s \<and> ee_min_memory s \<le> mem
      then Some (ee_next_task_id s) else None)
   \<and> (fst (TryQueueTask ops g t mem pid now s) = None \<longrightarrow>
        ee_running_tasks (snd (TryQueueTask ops g t mem pid now s)) = ee_running_tasks s
        \<and> ee_tasks (snd (TryQueueTask ops g t mem pid now s)) = ee_tasks s)
   \<and> (\<forall>i. fst (TryQueueTask ops g t mem pid now s) = Some i \<longrightarrow>
        (let s' = snd (TryQueueTask ops g t mem pid now s) in
         ee_running_tasks s' = ee_running_tasks s + 1 \<and> ee_running_tasks s' \<le> ee_task_concurrency_limit s'
         \<and> map_of (ee_tasks s') = (map_of (ee_tasks s))(i \<mapsto> ee_next_ref s)
         \<and> xd_process_id (ee_heap s' (ee_next_ref s)) = pid \<and> xd_grant_id (ee_heap s' (ee_next_ref s)) = g
         \<and> xd_client_ref_count (ee_heap s' (ee_next_ref s)) = 1 \<and> xd_is_running (ee_heap s' (ee_next_ref s))))"
proof (cases rule: TryStartingNewTaskUnsafe_cases [where s = s and mem = mem])
  case started
  obtain inp t1 where "et_GetStandardInputOnce ops t = (inp, t1)" by fastforce
  with started show ?thesis by (simp add: TryQueueTask_def Let_def umap_simps)
qed (auto simp: TryQueueTask_def)

theorem try_queue_task_decision_witness:
  "fst (TryQueueTask demo_ops 8 None 4096 101 2 (es_engine demo_system1)) = Some 2
   \<and> fst (TryQueueTask demo_ops 8 None 1023 101 2 (es_engine demo_system1)) = None"
proof -
  have "\<not> ee_exiting (es_engine demo_system1)" "ee_running_tasks (es_engine demo_system1) = 1"
    "ee_task_concurrency_limit (es_engine demo_system1) = 2" "ee_min_memory (es_engine demo_system1) = 1024"
    "ee_next_task_id (es_engine demo_system1) = 2" by code_simp+
  with try_queue_task_decision [of demo_ops 8 None 4096 101 2 "es_engine demo_system1"]
    try_queue_task_decision [of demo_ops 8 None 1023 101 2 "es_engine demo_system1"] show ?thesis by simp
qed

lemma engine_FreeTask_keep:
  assumes "map_of (ee_tasks s) i = Some r" "xd_client_ref_count (ee_heap s r) = Suc (Suc n)"
  shows "engine_FreeTask i s = update_desc r (\<lambda>t. t\<lparr>xd_client_ref_count := Suc n\<rparr>) s"
  using assms by (simp add: engine_FreeTask_def Let_def)

lemma engine_FreeTask_keep_pow:
  assumes "map_of (ee_tasks s) i = Some r" "xd_client_ref_count (ee_heap s r) = Suc (n + k)"
  shows "let s' = (engine_FreeTask i ^^ k) s in
     ee_tasks s' = ee_tasks s \<and> xd_client_ref_count (ee_heap s' r) = Suc n \<and> ee_killed s' = ee_killed s
     \<and> xd_is_running (ee_heap s' r) = xd_is_running (ee_heap s r)
     \<and> xd_process_id (ee_heap s' r) = xd_process_id (ee_heap s r)"
  using assms(2)
proof (induction k arbitrary: n)
  case (Suc k)
  let ?s' = "(engine_FreeTask i ^^ k) s"
  have "ee_tasks ?s' = ee_tasks s" "xd_client_ref_count (ee_heap ?s' r) = Suc (Suc n)" "ee_killed ?s' = ee_killed s"
    "xd_is_running (ee_heap ?s' r) = xd_is_running (ee_heap s r)"
    "xd_process_id (ee_heap ?s' r) = xd_process_id (ee_heap s r)"
    using Suc.IH [of "Suc n"] Suc.prems by (auto simp: Let_def)
  then show ?case using engine_FreeTask_keep [of ?s' i r n] assms(1) by (simp add: Let_def)
qed (simp add: assms Let_def)

text \<open>A task with \<open>n\<close> references survives any fewer frees and is removed by the \<open>n\<close>-th; its
  process group is then killed if it still runs.\<close>

theorem free_task_counts_references:
  assumes "map_of (ee_tasks s) i = Some r" "xd_client_ref_count (ee_heap s r) = Suc n"
  shows "(\<forall>k\<le>n. map_of (ee_tasks ((engine_FreeTask i ^^ k) s)) i = Some r)
   \<and> map_of (ee_tasks ((engine_FreeTask i ^^ Suc n) s)) i = None
   \<and> ee_killed ((engine_FreeTask i ^^ Suc n) s) =
       ee_killed s @ (if xd_is_running (ee_heap s r) then [- xd_process_id (ee_heap s r)] else [])"
proof -
  have "map_of (ee_tasks ((engine_FreeTask i ^^ k) s)) i = Some r" if "k \<le> n" for k
    using engine_FreeTask_keep_pow [OF assms(1), of "n - k" k] assms that by (simp add: Let_def)
  moreover note engine_FreeTask_keep_pow [OF assms(1), of 0 n]
  ultimately show ?thesis
    using assms by (auto simp: Let_def engine_FreeTask_def [of i "(engine_FreeTask i ^^ n) s"] KillTask_def umap_simps)
qed

theorem free_task_counts_references_witness:
  "map_of (ee_tasks ((engine_FreeTask 1 ^^ 1) (es_engine demo_system1))) 1 = Some 0
   \<and> map_of (ee_tasks ((engine_FreeTask 1 ^^ 2) (es_engine demo_system1))) 1 = None
   \<and> ee_killed ((engine_FreeTask 1 ^^ 2) (es_engine demo_system1)) = [- 100]"
proof -
  have m: "map_of (ee_tasks (es_engine demo_system1)) 1 = Some 0" by code_simp
  have c: "xd_client_ref_count (ee_heap (es_engine demo_system1) 0) = Suc 1" by code_simp
  have "ee_killed (es_engine demo_system1) = []" "xd_is_running (ee_heap (es_engine demo_system1) 0)"
    "xd_process_id (ee_heap (es_engine demo_system1) 0) = 100" by code_simp+
  with free_task_counts_references [OF m c] show ?thesis by (simp add: numeral_2_eq_2 del: funpow.simps)
qed

text \<open>The thread that waits for children never blocks, quits or aborts while there is a child
  to wait for, also after \<open>Stop\<close>: in every reachable state a child that exits is handed to the
  exit callback with its exit code (-1 when it was killed).\<close>

theorem waiter_reaps_children:
  assumes "ExecutionEngine_ctor fl flags nprocs cgroup h = Some s"
    "reaches (engine_step ops) \<lparr>es_engine = s, es_children = [], es_callbacks = []\<rparr> y"
    "pid \<in> set (es_children y)"
  shows "\<exists>s'. ProcessWaiterProc_iter (WaitChild pid status) (es_engine y) =
     Some (WaiterCallback pid (case status of Some code \<Rightarrow> code | None \<Rightarrow> - 1), s')"
proof -
  have "engine_inv y" using engine.reaches_inv [OF assms(2)] engine_inv_init [OF assms(1)] by blast
  from ProcessWaiterProc_iter_child [OF this assms(3)] show ?thesis by blast
qed

theorem waiter_reaps_children_witness:
  "\<exists>s'. ProcessWaiterProc_iter (WaitChild 100 None) (es_engine demo_system1) = Some (WaiterCallback 100 (- 1), s')"
proof -
  have "reaches (engine_step demo_ops) demo_system demo_system1"
    unfolding reaches_iff_run_calls by (rule exI [of _ demo_engine_calls], rule demo_engine_run)
  moreover have "100 \<in> set (es_children demo_system1)" by code_simp
  ultimately show ?thesis
    using waiter_reaps_children [OF demo_engine_ctor, of demo_ops demo_system1 100 None] by (simp add: demo_system_def)
qed

text \<open>Killing expired tasks signals exactly the running tasks whose grants expired, each once,
  and changes nothing else.\<close>

theorem kill_expired_tasks_exact:
  "ee_killed (KillExpiredTasks G s) = ee_killed s @
     map (\<lambda>e. - xd_process_id (ee_heap s (snd e)))
       (filter (\<lambda>e. xd_is_running (ee_heap s (snd e)) \<and> xd_grant_id (ee_heap s (snd e)) \<in> G) (ee_tasks s))
   \<and> ee_tasks (KillExpiredTasks G s) = ee_tasks s \<and> ee_heap (KillExpiredTasks G s) = ee_heap s
   \<and> ee_running_tasks (KillExpiredTasks G s) = ee_running_tasks s"
  using KillExpiredTasks_effect [where s = s and G = G] by (auto simp: same_engine_def)

text \<open>The exit callback recognises a task by its process id alone, among all tasks of the
  table. If a completed task that was not freed yet has the id of a later process and comes first
  in the table, the exit of the later process is booked on the completed task, and the later task
  stays marked as running although its process is gone.\<close>

theorem exit_callback_pid_reuse:
  assumes "ee_tasks s = (i, r) # (j, q) # ts" "i \<noteq> j" "r \<noteq> q" "xd_process_id (ee_heap s r) = pid"
    "xd_process_id (ee_heap s q) = pid" "\<not> xd_is_running (ee_heap s r)" "xd_is_running (ee_heap s q)"
  shows "let s' = OnProcessExitCallback ops pid code out err now s in
     xd_is_running (ee_heap s' q) \<and> xd_task (ee_heap s' q) = xd_task (ee_heap s q)
     \<and> xd_task (ee_heap s' r) = et_OnCompletion ops code out err (xd_task (ee_heap s r))
     \<and> WaitForTask j s s' = WaitForTask j s s"
  using assms by (auto simp: OnProcessExitCallback_def WaitForTask_def Let_def)

definition demo_reuse_calls :: "(int \<times> bytes) option engine_call list" where
  "demo_reuse_calls =
     [EngTryQueueTask 7 None 4096 100 1, EngWaitChild 100 (Some 0), EngExitCallback 100 0 ''one'' [] 2,
      EngTryQueueTask 8 None 4096 100 3]"

definition demo_reuse :: "(int \<times> bytes) option engine_system" where
  "demo_reuse = (let y = the (run_calls (engine_step demo_ops) demo_reuse_calls demo_system)
     in y\<lparr>es_engine := (es_engine y)\<lparr>ee_tasks := rev (ee_tasks (es_engine y))\<rparr>\<rparr>)"

theorem exit_callback_pid_reuse_witness:
  "xd_is_running (ee_heap (OnProcessExitCallback demo_ops 100 3 ''two'' [] 4 (es_engine demo_reuse)) 1)
   \<and> xd_task (ee_heap (OnProcessExitCallback demo_ops 100 3 ''two'' [] 4 (es_engine demo_reuse)) 0) = Some (3, ''two'')"
proof -
  have t: "ee_tasks (es_engine demo_reuse) = [(1, 0), (2, 1)]" by code_simp
  have d: "xd_process_id (ee_heap (es_engine demo_reuse) 0) = 100" "xd_process_id (ee_heap (es_engine demo_reuse) 1) = 100"
    "\<not> xd_is_running (ee_heap (es_engine demo_reuse) 0)" "xd_is_running (ee_heap (es_engine demo_reuse) 1)"
    by code_simp+
  from exit_callback_pid_reuse [OF t _ _ d(1,2,3,4)] show ?thesis by (simp add: Let_def demo_ops_def)
qed

end
