(* ===== verification/Sysinfo.thy ===== *)
theory Sysinfo
  imports Local_Task_Monitor Daemon_Call Execution_Engine
begin

text \<open>
  What a daemon measures of its machine (\<^verbatim>\<open>daemon/sysinfo.cc\<close>) and where it puts temporary files
  (\<^verbatim>\<open>daemon/temp_dir.cc\<close>). The contents of \<^verbatim>\<open>/proc\<close>, the load average and the size of a disk are arguments;
  \<open>None\<close> is an abort or an undefined conversion. Floating point numbers are rationals with a rounding
  function.
\<close>

section \<open>Memory\<close>

record ProcMemInfo =
  mi_mem_total :: int
  mi_mem_free :: int
  mi_mem_available :: int
  mi_buffers :: int
  mi_cached :: int
  mi_swap_total :: int
  mi_swap_free :: int

definition empty_ProcMemInfo :: ProcMemInfo where
  "empty_ProcMemInfo =
     \<lparr> mi_mem_total = -1, mi_mem_free = -1, mi_mem_available = -1, mi_buffers = -1, mi_cached = -1, mi_swap_total = -1, mi_swap_free = -1 \<rparr>"

text \<open>\<open>sscanf\<close> of a line: a word of at most 100 characters and a number.\<close>

definition scan_meminfo_line :: "string \<Rightarrow> (string \<times> int) option" where
  "scan_meminfo_line buf =
     (let t = dropWhile is_space buf;
          key = take 100 (takeWhile (\<lambda>c. \<not> is_space c) t)
      in if key = [] then None
         else map_option (\<lambda>v. (key, max LONG_MIN (min LONG_MAX v))) (fst (scan_int (drop (length key) t))))"

definition meminfo_line :: "flare \<Rightarrow> ProcMemInfo \<Rightarrow> string \<Rightarrow> ProcMemInfo" where
  "meminfo_line fl info buf =
     (case scan_meminfo_line buf of
        None \<Rightarrow> info
      | Some (key, value) \<Rightarrow>
          if fl_StartsWith fl key ''MemTotal:'' then info\<lparr>mi_mem_total := value\<rparr>
          else if fl_StartsWith fl key ''MemFree:'' then info\<lparr>mi_mem_free := value\<rparr>
          else if fl_StartsWith fl key ''MemAvailable:'' then info\<lparr>mi_mem_available := value\<rparr>
          else if fl_StartsWith fl key ''Buffers:'' then info\<lparr>mi_buffers := value\<rparr>
          else if fl_StartsWith fl key ''Cached:'' then info\<lparr>mi_cached := value\<rparr>
          else if fl_StartsWith fl key ''SwapTotal:'' then info\<lparr>mi_swap_total := value\<rparr>
          else if fl_StartsWith fl key ''SwapFree:'' then info\<lparr>mi_swap_free := value\<rparr>
          else info)"

definition GetProcMemInfo :: "flare \<Rightarrow> string list \<Rightarrow> ProcMemInfo" where
  "GetProcMemInfo fl proc_meminfo = foldl (meminfo_line fl) empty_ProcMemInfo proc_meminfo"

definition GetMemoryAvailable :: "flare \<Rightarrow> string list \<Rightarrow> nat" where
  "GetMemoryAvailable fl proc_meminfo = to_uint64 (mi_mem_available (GetProcMemInfo fl proc_meminfo) * 1024)"

definition GetTotalMemory :: "flare \<Rightarrow> string list \<Rightarrow> nat" where
  "GetTotalMemory fl proc_meminfo = to_uint64 (mi_mem_total (GetProcMemInfo fl proc_meminfo) * 1024)"

section \<open>Processors\<close>

abbreviation kSampleCount :: nat where "kSampleCount \<equiv> 61"

text \<open>\<open>idle\<close> is the fourth number of \<^verbatim>\<open>/proc/stat\<close>, in ticks.\<close>

definition GetProcessorIdleTime :: "double_ops \<Rightarrow> nat \<Rightarrow> rat \<Rightarrow> rat option" where
  "GetProcessorIdleTime dbl kUserHz idle =
     (let idle = dbl_round dbl (idle / of_nat kUserHz) in if idle > 0 then Some idle else None)"

definition SampleProcessorIdleTime :: "double_ops \<Rightarrow> nat \<Rightarrow> rat \<Rightarrow> rat list \<Rightarrow> rat list option" where
  "SampleProcessorIdleTime dbl kUserHz idle samples =
     (case GetProcessorIdleTime dbl kUserHz idle of
        None \<Rightarrow> None
      | Some t \<Rightarrow>
          (let samples = samples @ [t] in Some (if length samples > kSampleCount then tl samples else samples)))"

text \<open>A floating point number that is not the value of a \<open>std::size_t\<close> has no defined conversion.\<close>

definition double_to_size :: "rat \<Rightarrow> nat option" where
  "double_to_size x = (if x > -1 \<and> x < 2 ^ 64 then Some (nat \<lfloor>x\<rfloor>) else None)"

text \<open>The inner option is the optional result. An interval of 0 divides zero by zero.\<close>

definition TryGetProcessorLoad :: "double_ops \<Rightarrow> nat \<Rightarrow> int \<Rightarrow> rat list \<Rightarrow> nat option option" where
  "TryGetProcessorLoad dbl nprocs interval samples =
     (if to_uint64 interval < length samples then
        (if interval = 0 then None
         else
           (let start = samples ! (length samples - 1 - nat interval);
                end = last samples;
                idle_cores = dbl_round dbl (dbl_round dbl (end - start) / dbl_round dbl (of_int interval))
            in map_option Some (double_to_size (dbl_round dbl (dbl_round dbl (of_nat nprocs) - of_int \<lfloor>idle_cores\<rfloor>)))))
      else Some None)"

definition GetProcessorLoadInLastMinute :: "rat \<Rightarrow> nat option" where
  "GetProcessorLoadInLastMinute loadavg = double_to_size (of_int \<lceil>loadavg\<rceil>)"

section \<open>Temporary files\<close>

definition GetDiskAvailableSize :: "nat \<Rightarrow> nat \<Rightarrow> nat" where
  "GetDiskAvailableSize f_bsize f_bfree = (f_bsize * f_bfree) mod 2 ^ 64"

definition DetermineTemporaryDirectory :: "string \<Rightarrow> nat \<Rightarrow> nat \<Rightarrow> string" where
  "DetermineTemporaryDirectory flag_temporary_dir shm_bsize shm_bfree =
     (if flag_temporary_dir = [] then flag_temporary_dir
      else if GetDiskAvailableSize shm_bsize shm_bfree < 10 * 1024 * 1024 * 1024 then ''/tmp''
      else ''/dev/shm'')"

section \<open>Lemmas\<close>

lemma sample_count_bounded: "SampleProcessorIdleTime dbl hz idle samples = Some samples' \<Longrightarrow> length samples \<le> kSampleCount \<Longrightarrow> length samples' \<le> kSampleCount"
  by (auto simp: SampleProcessorIdleTime_def Let_def split: option.splits if_splits)

lemma meminfo_keeps_available:
  assumes "flare_strings fl" "\<forall>l \<in> set ls. \<forall>k v. scan_meminfo_line l = Some (k, v) \<longrightarrow> \<not> prefix ''MemAvailable:'' k"
  shows "mi_mem_available (foldl (meminfo_line fl) info ls) = mi_mem_available info"
  using assms(2)
proof (induction ls arbitrary: info)
  case (Cons l ls)
  have "mi_mem_available (meminfo_line fl info l) = mi_mem_available info"
    using Cons.prems flare_strings.StartsWith [OF assms(1)] by (auto simp: meminfo_line_def split: option.splits)
  with Cons show ?case by simp
qed simp

section \<open>Properties\<close>

text \<open>On a kernel that does not report \<open>MemAvailable\<close> (before 3.14) the missing value, -1, becomes almost
  \<open>2 ^ 64\<close> bytes of free memory, and the engine's check for free memory never refuses a task.\<close>

theorem memory_unknown_is_plenty:
  assumes "flare_strings fl" "\<forall>l \<in> set ls. \<forall>k v. scan_meminfo_line l = Some (k, v) \<longrightarrow> \<not> prefix ''MemAvailable:'' k"
    "ee_min_memory s \<le> 2 ^ 64 - 1024" "\<not> ee_exiting s" "ee_running_tasks s < ee_task_concurrency_limit s"
  shows "GetMemoryAvailable fl ls = 2 ^ 64 - 1024 \<and> fst (TryStartingNewTaskUnsafe (GetMemoryAvailable fl ls) s) \<noteq> None"
proof -
  have m: "GetMemoryAvailable fl ls = 2 ^ 64 - 1024"
    using meminfo_keeps_available [OF assms(1,2), of empty_ProcMemInfo]
    by (simp add: GetMemoryAvailable_def GetProcMemInfo_def empty_ProcMemInfo_def to_uint64_def)
  have "\<not> 2 ^ 64 - 1024 < ee_min_memory s" using assms(3) by simp
  with m assms(4,5) show ?thesis by (simp add: TryStartingNewTaskUnsafe_def Let_def)
qed

text \<open>The reported load is between 0 and the number of processors as long as the idle time measured is
  not more than that of the processors available; with exact arithmetic it is the number of
  processors that were busy, rounded up.\<close>

theorem processor_load_bounds:
  assumes "length samples \<le> kSampleCount" "0 < interval" "nat interval < length samples" "nprocs < 2 ^ 53"
    "0 \<le> last samples - samples ! (length samples - 1 - nat interval)"
    "last samples - samples ! (length samples - 1 - nat interval) \<le> of_nat nprocs * of_int interval"
  shows "\<exists>load. TryGetProcessorLoad exact_double nprocs interval samples = Some (Some load) \<and> load \<le> nprocs
     \<and> int load = \<lceil>of_nat nprocs - (last samples - samples ! (length samples - 1 - nat interval)) / of_int interval\<rceil>"
proof -
  let ?idle = "(last samples - samples ! (length samples - 1 - nat interval)) / of_int interval"
  have i: "0 \<le> ?idle" "?idle \<le> of_nat nprocs"
    using assms(2,5,6) by (simp_all add: divide_le_eq)
  then have f: "0 \<le> \<lfloor>?idle\<rfloor>" "\<lfloor>?idle\<rfloor> \<le> int nprocs" by (simp_all add: floor_le_iff)
  define load where "load = nat (int nprocs - \<lfloor>?idle\<rfloor>)"
  have l: "(of_nat nprocs :: rat) - of_int \<lfloor>?idle\<rfloor> = of_nat load" using f by (simp add: load_def)
  have "load \<le> nprocs" using f unfolding load_def by linarith
  moreover have "of_nat load < (2 ^ 64 :: rat)"
    using \<open>load \<le> nprocs\<close> assms(4) of_nat_less_iff [of load "2 ^ 64", where 'a = rat] by simp
  moreover have "to_uint64 interval < length samples"
    using assms(1-3) by (simp add: to_uint64_def)
  ultimately have "TryGetProcessorLoad exact_double nprocs interval samples = Some (Some load)"
    using assms(2) l by (simp add: TryGetProcessorLoad_def exact_double_def Let_def double_to_size_def)
  moreover have "int load = \<lceil>of_nat nprocs - ?idle\<rceil>"
    using f unfolding load_def ceiling_def by (simp add: floor_diff_of_int) linarith
  ultimately show ?thesis using \<open>load \<le> nprocs\<close> by blast
qed

text \<open>When a machine shows the daemon more idle time than its own processors can have (a container that may
  use some of the processors only), the load has no defined value.\<close>

theorem processor_load_undefined:
  "TryGetProcessorLoad exact_double 4 1 [100, 132] = None"
  by code_simp

text \<open>The flag for the temporary directory is read the wrong way around: left empty it gives an empty
  directory, and set to any directory it has no effect.\<close>

theorem temporary_dir_flag_ignored:
  "DetermineTemporaryDirectory [] bsize bfree = [] \<and> DetermineTemporaryDirectory (c # dir) bsize bfree \<in> {''/tmp'', ''/dev/shm''}"
  by (simp add: DetermineTemporaryDirectory_def)

end
