(* ===== verification/Temporary_Files.thy ===== *)
theory Temporary_Files
  imports File_Io Sysinfo
begin

text \<open>
  The temporary files and directories of a servant (\<^verbatim>\<open>daemon/cloud/temporary_file.cc\<close>, \<^verbatim>\<open>temporary_dir.cc\<close>), the
  recursive listing they use (\<^verbatim>\<open>common/dir.cc\<close>), the temporary files of the wrapper, and the removal of what a crashed
  daemon left behind (\<^verbatim>\<open>daemon/entry.cc\<close>).
\<close>

section \<open>Listing a tree\<close>

text \<open>The system ignores repeated and trailing slashes; the file system of the model knows paths without them.\<close>

fun squeeze :: "string \<Rightarrow> string" where
  "squeeze [] = []"
| "squeeze [c] = (if c = slash then [] else [c])"
| "squeeze (c # d # s) = (if c = slash \<and> d = slash then squeeze (d # s) else c # squeeze (d # s))"

definition rename_below :: "string \<Rightarrow> DirEntry \<Rightarrow> DirEntry" where
  "rename_below dir e = (if dir \<noteq> [] then e\<lparr>de_name := dir @ ''/'' @ de_name e\<rparr> else e)"

partial_function (option) EnumerateDirRecursively_loop ::
  "string \<Rightarrow> string list \<Rightarrow> DirEntry list \<Rightarrow> filesystem \<Rightarrow> DirEntry list option" where
  "EnumerateDirRecursively_loop path queue result fs =
     (case queue of
        [] \<Rightarrow> Some result
      | front # queue \<Rightarrow>
          (case EnumerateDir (squeeze (path @ ''/'' @ front)) fs of
             None \<Rightarrow> None
           | Some temp \<Rightarrow>
               (let temp = map (rename_below front) temp
                in EnumerateDirRecursively_loop path (queue @ map de_name (filter de_is_dir temp)) (result @ temp) fs)))"

definition EnumerateDirRecursively :: "string \<Rightarrow> filesystem \<Rightarrow> DirEntry list option" where
  "EnumerateDirRecursively path fs = EnumerateDirRecursively_loop path [[]] [] fs"

section \<open>Lemmas: clean paths\<close>

abbreviation clean :: "string \<Rightarrow> bool" where "clean p \<equiv> squeeze p = p"

lemma squeeze_append: "clean p \<Longrightarrow> squeeze (p @ slash # r) = p @ squeeze (slash # r)"
proof (induction p rule: squeeze.induct)
  case (3 c d s)
  have "squeeze (d # s) \<noteq> c # d # s" 
  proof -
    have "length (squeeze t) \<le> length t" for t by (induction t rule: squeeze.induct) auto
    from this [of "d # s"] show ?thesis by auto
  qed
  with 3 show ?case by (auto split: if_splits)
qed (auto split: if_splits)

lemma squeeze_plain: "slash \<notin> set x \<Longrightarrow> squeeze x = x"
  by (induction x rule: squeeze.induct) auto

lemma squeeze_slash_plain: "slash \<notin> set x \<Longrightarrow> x \<noteq> [] \<Longrightarrow> squeeze (slash # x) = slash # x"
  by (cases x) (auto simp: squeeze_plain)

lemma clean_child: "clean d \<Longrightarrow> slash \<notin> set x \<Longrightarrow> x \<noteq> [] \<Longrightarrow> clean (d @ slash # x)"
  by (simp add: squeeze_append squeeze_slash_plain)

lemma squeeze_trailing: "clean p \<Longrightarrow> squeeze (p @ [slash]) = p"
  by (simp add: squeeze_append)

section \<open>Lemmas: trees\<close>

definition below :: "filesystem \<Rightarrow> string \<Rightarrow> string set" where
  "below fs d = {p. map_of fs p \<noteq> None \<and> under d p}"

lemma finite_below [simp]: "finite (below fs d)"
proof -
  have "below fs d \<subseteq> dom (map_of fs)" by (auto simp: below_def)
  then show ?thesis by (rule finite_subset) (rule finite_dom_map_of)
qed

abbreviation names :: "filesystem \<Rightarrow> string \<Rightarrow> string list" where
  "names fs d \<equiv> map fst (readdir d fs)"

lemma names_iff: "fs_wf fs \<Longrightarrow> x \<in> set (names fs d) \<longleftrightarrow> slash \<notin> set x \<and> x \<noteq> [] \<and> map_of fs (d @ slash # x) \<noteq> None"
  by (simp add: children_of_readdir)

lemma below_children:
  assumes "fs_wf fs"
  shows "below fs d = (\<lambda>x. d @ slash # x) ` set (names fs d) \<union> (\<Union>x\<in>set (names fs d). below fs (d @ slash # x))"
    (is "_ = ?here \<union> ?deeper")
proof
  show "below fs d \<subseteq> ?here \<union> ?deeper"
  proof
    fix p assume "p \<in> below fs d"
    then obtain n where p: "map_of fs p = Some n" "under d p" by (auto simp: below_def)
    obtain c where c: "slash \<notin> set c" "c \<noteq> []" "map_of fs (d @ slash # c) \<noteq> None" "p = d @ slash # c \<or> under (d @ slash # c) p"
      using fs_wf_child_below [OF assms p] by blast
    then have "c \<in> set (names fs d)" using names_iff [OF assms] by blast
    with c p show "p \<in> ?here \<union> ?deeper" by (auto simp: below_def)
  qed
  show "?here \<union> ?deeper \<subseteq> below fs d"
    using names_iff [OF assms, of _ d] under_trans [OF under_child] by (auto simp: below_def)
qed

lemma below_siblings_disjoint:
  assumes "slash \<notin> set x" and "slash \<notin> set y" and "x \<noteq> y"
  shows "below fs (d @ slash # x) \<inter> below fs (d @ slash # y) = {}"
proof -
  have "x = y" if u: "under (d @ slash # x) p" "under (d @ slash # y) p" for p
  proof -
    obtain a where a: "p = d @ slash # x @ slash # a" using u(1) by (auto simp: under_def prefix_def)
    moreover obtain b where b: "p = d @ slash # y @ slash # b" using u(2) by (auto simp: under_def prefix_def)
    ultimately have eq: "x @ slash # a = y @ slash # b" by simp
    then have "takeWhile (\<lambda>c. c \<noteq> slash) (x @ slash # a) = takeWhile (\<lambda>c. c \<noteq> slash) (y @ slash # b)" by simp
    moreover have "takeWhile (\<lambda>c. c \<noteq> slash) (z @ slash # r) = z" if "slash \<notin> set z" for z r
      using that by (induction z) auto
    ultimately show ?thesis using assms(1,2) by metis
  qed
  with assms(3) show ?thesis by (auto simp: below_def)
qed

lemma card_UN_list:
  assumes "distinct xs" and "\<And>x. x \<in> set xs \<Longrightarrow> finite (f x)" and "\<And>x y. x \<in> set xs \<Longrightarrow> y \<in> set xs \<Longrightarrow> x \<noteq> y \<Longrightarrow> f x \<inter> f y = {}"
  shows "card (\<Union>x\<in>set xs. f x) = (\<Sum>x\<leftarrow>xs. card (f x))"
proof -
  have "card (\<Union>x\<in>set xs. f x) = (\<Sum>x\<in>set xs. card (f x))" using assms(2,3) by (intro card_UN_disjoint) auto
  also have "\<dots> = (\<Sum>x\<leftarrow>xs. card (f x))" by (rule sum.distinct_set_conv_list [OF assms(1)])
  finally show ?thesis .
qed

lemma card_below:
  assumes wf: "fs_wf fs"
  shows "card (below fs d) = length (readdir d fs) + (\<Sum>x\<leftarrow>names fs d. card (below fs (d @ slash # x)))"
proof -
  let ?here = "(\<lambda>x. d @ slash # x) ` set (names fs d)" and ?deeper = "\<Union>x\<in>set (names fs d). below fs (d @ slash # x)"
  have plain: "slash \<notin> set x" if "x \<in> set (names fs d)" for x using names_iff [OF wf] that by blast
  have "?here \<inter> ?deeper = {}" using plain siblings_not_under by (fastforce simp: below_def)
  then have "card (below fs d) = card ?here + card ?deeper"
    unfolding below_children [OF wf, of d] by (intro card_Un_disjoint) auto
  also have "card ?here = length (readdir d fs)"
    using distinct_card [OF distinct_readdir [OF fs_wf_distinct [OF wf], of d]] by (simp add: card_image inj_on_def)
  also have "card ?deeper = (\<Sum>x\<leftarrow>names fs d. card (below fs (d @ slash # x)))"
    by (rule card_UN_list) (use distinct_readdir [OF fs_wf_distinct [OF wf]] plain below_siblings_disjoint in auto)
  finally show ?thesis .
qed

lemma below_file: "fs_wf fs \<Longrightarrow> is_file fs (d @ slash # x) \<Longrightarrow> below fs (d @ slash # x) = {}"
  using fs_wf_ancestor [of fs _ _ "d @ slash # x"] not_file_and_directory by (fastforce simp: below_def)

text \<open>A tree of directories and regular files.\<close>

definition plain_tree :: "filesystem \<Rightarrow> string \<Rightarrow> bool" where
  "plain_tree fs d \<longleftrightarrow> (\<forall>p\<in>below fs d. is_directory fs p \<or> (\<exists>b t. map_of fs p = Some (FileNode DT_REG b t)))"

lemma plain_tree_child: "plain_tree fs d \<Longrightarrow> plain_tree fs (d @ slash # x)"
  using under_trans [OF under_child] by (fastforce simp: plain_tree_def below_def)

text \<open>The path of a relative name.\<close>

definition absolute :: "string \<Rightarrow> string \<Rightarrow> string" where
  "absolute path r = (if r = [] then path else path @ slash # r)"

lemma absolute_Nil [simp]: "absolute path [] = path"
  by (simp add: absolute_def)

lemma squeeze_absolute: "clean (absolute path q) \<Longrightarrow> clean path \<Longrightarrow> squeeze (path @ ''/'' @ q) = absolute path q"
  by (simp add: absolute_def squeeze_trailing split: if_splits)

lemma absolute_rename_below:
  "de_name e \<noteq> [] \<Longrightarrow> absolute path (de_name (rename_below q e)) = absolute path q @ slash # de_name e \<and> de_name (rename_below q e) \<noteq> []"
  by (simp add: absolute_def rename_below_def)

text \<open>The entries a directory contributes.\<close>

lemma listed_entries:
  assumes "fs_wf fs" and "plain_tree fs (absolute path q)" and "e \<in> set (map (rename_below q) (map make_DirEntry (readdir (absolute path q) fs)))"
  obtains x where "x \<in> set (names fs (absolute path q))" "absolute path (de_name e) = absolute path q @ slash # x" "de_name e \<noteq> []"
    "de_is_regular e = is_file fs (absolute path (de_name e))" "de_is_dir e = is_directory fs (absolute path (de_name e))"
proof -
  let ?d = "absolute path q"
  obtain x t where x: "(x, t) \<in> set (readdir ?d fs)" and e: "e = rename_below q (make_DirEntry (x, t))" using assms(3) by auto
  then obtain n where n: "map_of fs (?d @ slash # x) = Some n" "t = d_type n" "x \<noteq> []" "slash \<notin> set x"
    using set_readdir [of x t ?d fs] in_fs_iff [OF assms(1)] by auto
  have "de_name (make_DirEntry (x, t)) = x" by (simp add: make_DirEntry_def)
  with absolute_rename_below [of "make_DirEntry (x, t)" path q] e n(3)
  have name: "absolute path (de_name e) = ?d @ slash # x" "de_name e \<noteq> []" by auto
  have "?d @ slash # x \<in> below fs ?d" using n(1) by (simp add: below_def)
  with assms(2) have "n = Directory \<or> (\<exists>b m. n = FileNode DT_REG b m)" using n(1) by (fastforce simp: plain_tree_def is_directory_def)
  then have "de_is_regular e = is_file fs (?d @ slash # x)" "de_is_dir e = is_directory fs (?d @ slash # x)"
    using n e by (auto simp: rename_below_def make_DirEntry_def type_bits_def d_type_def is_file_def is_directory_def)
  moreover have "x \<in> set (names fs ?d)" using x by force
  ultimately show thesis using that name by simp
qed

definition queue_size :: "filesystem \<Rightarrow> string \<Rightarrow> string list \<Rightarrow> nat" where
  "queue_size fs path queue = (\<Sum>q\<leftarrow>queue. Suc (card (below fs (absolute path q))))"

lemma sum_list_filter_le: "(\<Sum>x\<leftarrow>filter P xs. f x) \<le> (\<Sum>x\<leftarrow>xs. f x :: nat)"
  by (induction xs) auto

lemma sum_list_absent: "(\<And>x. x \<in> set xs \<Longrightarrow> \<not> P x \<Longrightarrow> f x = 0) \<Longrightarrow> (\<Sum>x\<leftarrow>filter P xs. f x) = (\<Sum>x\<leftarrow>xs. f x :: nat)"
  by (induction xs) auto

text \<open>The directories a listed directory puts into the queue hold what is deeper in it.\<close>

abbreviation entries_of :: "filesystem \<Rightarrow> string \<Rightarrow> string \<Rightarrow> DirEntry list" where
  "entries_of fs path q \<equiv> map (rename_below q) (map make_DirEntry (readdir (absolute path q) fs))"

lemma entries_absolute:
  "map (\<lambda>e. absolute path (de_name e)) (entries_of fs path q) = map (\<lambda>x. absolute path q @ slash # x) (names fs (absolute path q))"
proof -
  have "absolute path (de_name (rename_below q (make_DirEntry e))) = absolute path q @ slash # fst e"
    if "e \<in> set (readdir (absolute path q) fs)" for e
  proof -
    have "fst e \<noteq> []" using that set_readdir [of "fst e" "snd e"] by auto
    then show ?thesis using absolute_rename_below [of "make_DirEntry e" path q] by (simp add: make_DirEntry_def)
  qed
  then show ?thesis by simp
qed

lemma deeper_sum:
  assumes wf: "fs_wf fs" and plain: "plain_tree fs (absolute path q)"
  shows "(\<Sum>e\<leftarrow>filter de_is_dir (entries_of fs path q). card (below fs (absolute path (de_name e)))) =
    (\<Sum>x\<leftarrow>names fs (absolute path q). card (below fs (absolute path q @ slash # x)))"
proof -
  have none: "card (below fs (absolute path (de_name e))) = 0" if "e \<in> set (entries_of fs path q)" "\<not> de_is_dir e" for e
  proof -
    note listed = listed_entries [OF wf plain that(1)]
    obtain x where x: "x \<in> set (names fs (absolute path q))" "absolute path (de_name e) = absolute path q @ slash # x"
      "de_is_dir e = is_directory fs (absolute path (de_name e))"
      by (rule listed)
    then have "is_file fs (absolute path q @ slash # x)"
      using names_iff [OF wf] is_file_or_directory that(2) by metis
    then show ?thesis using below_file [OF wf] x(2) by simp
  qed
  have "(\<Sum>e\<leftarrow>filter de_is_dir (entries_of fs path q). card (below fs (absolute path (de_name e)))) =
      (\<Sum>e\<leftarrow>entries_of fs path q. card (below fs (absolute path (de_name e))))" by (rule sum_list_absent) (rule none)
  also have "\<dots> = sum_list (map (\<lambda>p. card (below fs p)) (map (\<lambda>e. absolute path (de_name e)) (entries_of fs path q)))"
    by (simp only: map_map comp_def)
  finally show ?thesis unfolding entries_absolute by (simp only: map_map comp_def)
qed

lemma queue_size_step:
  assumes "fs_wf fs" and "plain_tree fs (absolute path q)"
  shows "queue_size fs path (qs @ map de_name (filter de_is_dir (entries_of fs path q))) < queue_size fs path (q # qs)"
proof -
  let ?dirs = "filter de_is_dir (entries_of fs path q)"
  have "queue_size fs path (map de_name ?dirs) = length ?dirs + (\<Sum>e\<leftarrow>?dirs. card (below fs (absolute path (de_name e))))"
    unfolding queue_size_def by (induction ?dirs) (simp_all add: sum_list_Suc comp_def)
  also have "\<dots> \<le> length (entries_of fs path q) + (\<Sum>x\<leftarrow>names fs (absolute path q). card (below fs (absolute path q @ slash # x)))"
    unfolding deeper_sum [OF assms] by (rule add_right_mono) (rule length_filter_le)
  also have "\<dots> = card (below fs (absolute path q))" using card_below [OF assms(1), of "absolute path q"] by simp
  finally show ?thesis by (simp add: queue_size_def)
qed

lemma UN_filter:
  "(\<And>e. e \<in> set es \<Longrightarrow> \<not> P e \<Longrightarrow> f (g e) = {}) \<Longrightarrow> (\<Union>r\<in>set (map g (filter P es)). f r) = (\<Union>e\<in>set es. f (g e))"
  by (induction es) auto

lemma below_listed:
  assumes wf: "fs_wf fs" and plain: "plain_tree fs (absolute path q)"
  shows "(\<lambda>e. absolute path (de_name e)) ` set (entries_of fs path q)
      \<union> (\<Union>r\<in>set (map de_name (filter de_is_dir (entries_of fs path q))). below fs (absolute path r)) = below fs (absolute path q)"
    (is "?here \<union> ?deeper = _")
proof -
  let ?d = "absolute path q" and ?es = "set (entries_of fs path q)"
  have here: "?here = (\<lambda>x. ?d @ slash # x) ` set (names fs ?d)"
    using arg_cong [OF entries_absolute [where path = path and fs = fs and q = q], of set] by (simp only: set_map)
  have file_leaf: "below fs (absolute path (de_name e)) = {}" if "e \<in> ?es" "\<not> de_is_dir e" for e
  proof -
    note listed = listed_entries [OF wf plain that(1)] and no_dir = that(2)
    obtain x where x: "x \<in> set (names fs ?d)" "absolute path (de_name e) = ?d @ slash # x" "\<not> is_directory fs (?d @ slash # x)"
      using no_dir by (metis listed)
    then show ?thesis using names_iff [OF wf] is_file_or_directory below_file [OF wf] by metis
  qed
  have "?deeper = (\<Union>e\<in>?es. below fs (absolute path (de_name e)))" by (rule UN_filter) (rule file_leaf)
  also have "\<dots> = (\<Union>p\<in>?here. below fs p)" by simp
  also have "\<dots> = (\<Union>x\<in>set (names fs ?d). below fs (?d @ slash # x))" unfolding here by simp
  finally show ?thesis using below_children [OF wf, of ?d] here by simp
qed

lemma queued_directories:
  assumes wf: "fs_wf fs" and plain: "plain_tree fs (absolute path q)" and "clean (absolute path q)"
    and r: "r \<in> set (map de_name (filter de_is_dir (entries_of fs path q)))"
  shows "is_directory fs (absolute path r) \<and> clean (absolute path r) \<and> plain_tree fs (absolute path r)"
proof -
  obtain e where e: "e \<in> set (entries_of fs path q)" "de_is_dir e" "r = de_name e" using r by auto
  note listed = listed_entries [OF wf plain e(1)]
  obtain x where "x \<in> set (names fs (absolute path q))" "absolute path r = absolute path q @ slash # x" "is_directory fs (absolute path r)"
    using e(2,3) by (auto intro: listed)
  then show ?thesis using names_iff [OF wf] clean_child [OF assms(3)] plain_tree_child [OF plain] by metis
qed

lemma EnumerateDirRecursively_loop_exact:
  assumes wf: "fs_wf fs" and same: "\<And>q. squeeze (start @ ''/'' @ q) = squeeze (path @ ''/'' @ q)" and "clean path"
    and "\<forall>q\<in>set queue. is_directory fs (absolute path q) \<and> clean (absolute path q) \<and> plain_tree fs (absolute path q)"
  shows "\<exists>found. EnumerateDirRecursively_loop start queue result fs = Some (result @ found)
    \<and> length found = (\<Sum>q\<leftarrow>queue. card (below fs (absolute path q)))
    \<and> (\<lambda>e. absolute path (de_name e)) ` set found = (\<Union>q\<in>set queue. below fs (absolute path q))
    \<and> (\<forall>e\<in>set found. de_name e \<noteq> [] \<and> de_is_regular e = is_file fs (absolute path (de_name e)))"
  using assms(4)
proof (induction "queue_size fs path queue" arbitrary: queue result rule: less_induct)
  case less
  show ?case
  proof (cases queue)
    case Nil
    then show ?thesis by (subst EnumerateDirRecursively_loop.simps) simp
  next
    case (Cons q qs)
    let ?d = "absolute path q" and ?temp = "entries_of fs path q"
    let ?queue = "qs @ map de_name (filter de_is_dir ?temp)"
    have q: "is_directory fs ?d" "clean ?d" and plain: "plain_tree fs ?d" using less.prems Cons by auto
    note dirs = queued_directories [OF wf plain q(2)]
    obtain found where found: "EnumerateDirRecursively_loop start ?queue (result @ ?temp) fs = Some ((result @ ?temp) @ found)"
      "length found = (\<Sum>q\<leftarrow>?queue. card (below fs (absolute path q)))"
      "(\<lambda>e. absolute path (de_name e)) ` set found = (\<Union>q\<in>set ?queue. below fs (absolute path q))"
      "\<forall>e\<in>set found. de_name e \<noteq> [] \<and> de_is_regular e = is_file fs (absolute path (de_name e))"
      using less.hyps [of ?queue "result @ ?temp"] queue_size_step [OF wf plain, of qs] less.prems dirs Cons by fastforce
    have "EnumerateDirRecursively_loop start queue result fs = Some (result @ ?temp @ found)"
      using found(1) q squeeze_absolute [OF q(2) assms(3)] same [of q] Cons
      by (subst EnumerateDirRecursively_loop.simps) (simp add: EnumerateDir_def)
    moreover have "length (?temp @ found) = (\<Sum>q\<leftarrow>queue. card (below fs (absolute path q)))"
      using found(2) deeper_sum [OF wf plain] card_below [OF wf, of ?d] Cons by (simp add: comp_def)
    moreover have "(\<lambda>e. absolute path (de_name e)) ` set (?temp @ found) =
        (\<lambda>e. absolute path (de_name e)) ` set ?temp \<union> (\<Union>r\<in>set (map de_name (filter de_is_dir ?temp)). below fs (absolute path r))
        \<union> (\<Union>r\<in>set qs. below fs (absolute path r))"
      by (simp only: set_append image_Un found(3) UN_Un Union_Un_distrib Un_ac)
    then have "(\<lambda>e. absolute path (de_name e)) ` set (?temp @ found) = (\<Union>r\<in>set queue. below fs (absolute path r))"
      unfolding below_listed [OF wf plain] Cons by simp
    moreover have "\<forall>e\<in>set (?temp @ found). de_name e \<noteq> [] \<and> de_is_regular e = is_file fs (absolute path (de_name e))"
      using found(4) listed_entries [OF wf plain] unfolding set_append by (metis Un_iff)
    ultimately show ?thesis by (intro exI [of _ "?temp @ found"] conjI) 
  qed
qed

lemma EnumerateDirRecursively_exact:
  assumes "fs_wf fs" and "clean path" and same: "\<And>q. squeeze (start @ ''/'' @ q) = squeeze (path @ ''/'' @ q)" and "is_directory fs path" and "plain_tree fs path"
  shows "\<exists>entries. EnumerateDirRecursively start fs = Some entries \<and> distinct (map de_name entries)
    \<and> (\<lambda>e. path @ slash # de_name e) ` set entries = below fs path
    \<and> (\<forall>e\<in>set entries. de_is_regular e = is_file fs (path @ slash # de_name e))"
proof -
  obtain entries where es: "EnumerateDirRecursively start fs = Some entries" "length entries = card (below fs path)"
    "(\<lambda>e. absolute path (de_name e)) ` set entries = below fs path"
    "\<forall>e\<in>set entries. de_name e \<noteq> [] \<and> de_is_regular e = is_file fs (absolute path (de_name e))"
    using EnumerateDirRecursively_loop_exact [OF assms(1) same assms(2), of "[[]]" "[]"] assms(2,4,5)
    unfolding EnumerateDirRecursively_def by auto
  have abs: "absolute path (de_name e) = path @ slash # de_name e" if "e \<in> set entries" for e
    using es(4) that by (simp add: absolute_def)
  have "card (set (map (\<lambda>e. absolute path (de_name e)) entries)) = length (map (\<lambda>e. absolute path (de_name e)) entries)"
    using es(2,3) by simp
  then have "distinct (map (\<lambda>e. absolute path (de_name e)) entries)" by (rule card_distinct)
  then have "distinct (map de_name entries)" by (auto simp: distinct_map inj_on_def)
  with es abs show ?thesis by (intro exI [of _ entries]) (auto simp: image_def)
qed

lemma squeeze_doubled: "clean p \<Longrightarrow> squeeze ((p @ ''/'') @ ''/'' @ q) = squeeze (p @ ''/'' @ q)"
  by (simp add: squeeze_append)

section \<open>Temporary files\<close>

text \<open>An object without an open file has no path.\<close>

record TemporaryFile =
  tf_fd :: bool
  tf_path :: string

definition no_file :: TemporaryFile where
  "no_file = \<lparr> tf_fd = False, tf_path = [] \<rparr>"

text \<open>The template is cut to the size of the buffer; \<open>mkostemps\<close> replaces its last six characters by \<open>ending\<close>, under
  which there is no file, or refuses the template.\<close>

definition make_temporary :: "string \<Rightarrow> time_point \<Rightarrow> string \<Rightarrow> filesystem \<Rightarrow> (string \<times> filesystem) option" where
  "make_temporary template now ending fs =
     (let name_tmpl = take 255 template; stem = take (length name_tmpl - 6) name_tmpl; path = stem @ ending in
      if drop (length stem) name_tmpl = ''XXXXXX'' \<and> map_of fs path = None \<and> can_create path fs
      then Some (path, umap_set path (FileNode DT_REG [] now) fs) else None)"

definition TemporaryFile_ctor :: "string \<Rightarrow> nat \<Rightarrow> string \<Rightarrow> filesystem \<Rightarrow> (TemporaryFile \<times> filesystem) option" where
  "TemporaryFile_ctor pre now ending fs =
     map_option (\<lambda>(path, fs). (\<lparr> tf_fd = True, tf_path = path \<rparr>, fs))
       (make_temporary (pre @ ''/yadcc_'' @ to_string now @ ''_XXXXXX'') (int now) ending fs)"

text \<open>\<open>content\<close>: the bytes of the open file, up to the end of which it has been written and read.\<close>

definition TemporaryFile_ReadAll :: "TemporaryFile \<Rightarrow> bytes \<Rightarrow> call_result list \<Rightarrow> bytes outcome" where
  "TemporaryFile_ReadAll t content rs =
     (if \<not> tf_fd t then Abort
      else outcome_bind (ReadAppend [] content rs) (\<lambda>(status, buffer, _). if status = Eof then Return buffer else Abort))"

definition TemporaryFile_Write :: "TemporaryFile \<Rightarrow> bytes list \<Rightarrow> bytes \<Rightarrow> call_result list \<Rightarrow> bytes outcome" where
  "TemporaryFile_Write t data content rs =
     (if \<not> tf_fd t then Abort
      else outcome_bind (WriteTo data 0 content rs) (\<lambda>(n, written, _).
        if n = int (length (concat data)) then Return written else Abort))"

definition TemporaryFile_Close :: "TemporaryFile \<Rightarrow> filesystem \<Rightarrow> (TemporaryFile \<times> filesystem) option" where
  "TemporaryFile_Close t fs =
     (if \<not> tf_fd t then Some (t, fs)
      else
        (case fs_unlink (tf_path t) fs of
           Some fs' \<Rightarrow> Some (no_file, fs')
         | None \<Rightarrow> if map_of fs (tf_path t) = None then Some (no_file, fs) else None))"

text \<open>Moving: the new object and what is left of the old one. Assigning first closes the target.\<close>

definition TemporaryFile_move :: "TemporaryFile \<Rightarrow> TemporaryFile \<times> TemporaryFile" where
  "TemporaryFile_move t = (t, no_file)"

definition TemporaryFile_assign ::
  "TemporaryFile \<Rightarrow> TemporaryFile \<Rightarrow> filesystem \<Rightarrow> (TemporaryFile \<times> TemporaryFile \<times> filesystem) option" where
  "TemporaryFile_assign target t fs = map_option (\<lambda>(closed, fs). (t, closed, fs)) (TemporaryFile_Close target fs)"

text \<open>The wrapper's temporary file.\<close>

definition client_TemporaryFile_ctor :: "nat \<Rightarrow> string \<Rightarrow> filesystem \<Rightarrow> (string \<times> filesystem) option" where
  "client_TemporaryFile_ctor now ending fs = make_temporary (''/tmp/yadcc_'' @ to_string now @ ''_XXXXXX'') (int now) ending fs"

definition client_TemporaryFile_dtor :: "string \<Rightarrow> filesystem \<Rightarrow> filesystem option" where
  "client_TemporaryFile_dtor path fs =
     (case fs_unlink path fs of Some fs' \<Rightarrow> Some fs' | None \<Rightarrow> if map_of fs path = None then Some fs else None)"

definition client_TemporaryFile_ReadAll :: "bytes \<Rightarrow> call_result list \<Rightarrow> bytes outcome" where
  "client_TemporaryFile_ReadAll content rs =
     outcome_bind (ReadBytes (length content) content rs) (\<lambda>(got, _).
       case got of Some b \<Rightarrow> if length b = length content then Return b else Abort | None \<Rightarrow> Abort)"

definition client_TemporaryFile_Write :: "call_result \<Rightarrow> bytes \<Rightarrow> bytes \<Rightarrow> call_result list \<Rightarrow> bytes outcome" where
  "client_TemporaryFile_Write errno data content rs =
     outcome_bind (client_WriteTo errno data 0 rs) (\<lambda>(n, sent, _).
       if n = int (length data) then Return (content @ sent) else Abort)"

section \<open>Temporary directories\<close>

record TemporaryDir =
  tdir_dir :: string
  tdir_is_alive :: bool

definition TemporaryDir_ctor :: "string \<Rightarrow> nat \<Rightarrow> nat \<Rightarrow> filesystem \<Rightarrow> (TemporaryDir \<times> filesystem) option" where
  "TemporaryDir_ctor pre tsc random fs =
     (let dir = pre @ ''/yadcc_'' @ to_string tsc @ ''_'' @ to_string random
      in map_option (\<lambda>fs. (\<lparr> tdir_dir = dir, tdir_is_alive = True \<rparr>, fs)) (Mkdirs dir fs))"

definition TemporaryDir_Dispose :: "TemporaryDir \<Rightarrow> filesystem \<Rightarrow> (TemporaryDir \<times> filesystem) option" where
  "TemporaryDir_Dispose t fs =
     (if tdir_is_alive t then map_option (\<lambda>fs. (t\<lparr>tdir_is_alive := False\<rparr>, fs)) (RemoveDirs (tdir_dir t) fs) else Some (t, fs))"

definition TemporaryDir_move :: "TemporaryDir \<Rightarrow> TemporaryDir \<times> TemporaryDir" where
  "TemporaryDir_move t = (t, \<lparr> tdir_dir = [], tdir_is_alive = False \<rparr>)"

definition TemporaryDir_assign ::
  "TemporaryDir \<Rightarrow> TemporaryDir \<Rightarrow> filesystem \<Rightarrow> (TemporaryDir \<times> TemporaryDir \<times> filesystem) option" where
  "TemporaryDir_assign target t fs =
     map_option (\<lambda>(_, fs). (fst (TemporaryDir_move t), snd (TemporaryDir_move t), fs)) (TemporaryDir_Dispose target fs)"

text \<open>\<open>scripts\<close>: what the calls that read each file return.\<close>

fun read_workspace_files :: "(string \<Rightarrow> call_result list) \<Rightarrow> string \<Rightarrow> filesystem \<Rightarrow> string list \<Rightarrow> (string \<times> bytes) list outcome" where
  "read_workspace_files scripts root_dir fs [] = Return []"
| "read_workspace_files scripts root_dir fs (name # ns) =
     outcome_bind (common_ReadAll (squeeze (root_dir @ ''/'' @ name)) fs (scripts name)) (\<lambda>b.
       outcome_bind (read_workspace_files scripts root_dir fs ns) (\<lambda>files. Return ((name, b) # files)))"

definition TemporaryDir_ReadAll ::
  "(string \<Rightarrow> call_result list) \<Rightarrow> TemporaryDir \<Rightarrow> string \<Rightarrow> filesystem \<Rightarrow> (string \<times> bytes) list outcome" where
  "TemporaryDir_ReadAll scripts t subdir fs =
     (if \<not> tdir_is_alive t then Abort
      else
        (let root_dir = tdir_dir t @ ''/'' @ subdir in
         case EnumerateDirRecursively root_dir fs of
           None \<Rightarrow> Abort
         | Some entries \<Rightarrow> read_workspace_files scripts root_dir fs (map de_name (filter de_is_regular entries))))"

section \<open>Starting after a crash\<close>

definition remove_leftover :: "flare \<Rightarrow> string \<Rightarrow> string \<Rightarrow> filesystem \<Rightarrow> filesystem option" where
  "remove_leftover fl dir name fs =
     (if \<not> fl_StartsWith fl name ''yadcc_'' then Some fs
      else
        (case fs_unlink (dir @ ''/'' @ name) fs of
           Some fs' \<Rightarrow> Some fs'
         | None \<Rightarrow> if is_directory fs (dir @ ''/'' @ name) then RemoveDirs (dir @ ''/'' @ name) fs else Some fs))"

definition RemoveTemporaryFilesCreateDuringOurPastLife :: "flare \<Rightarrow> string \<Rightarrow> filesystem \<Rightarrow> filesystem option" where
  "RemoveTemporaryFilesCreateDuringOurPastLife fl dir fs =
     (if is_directory fs dir then run_calls (remove_leftover fl dir) (map fst (readdir dir fs)) fs else None)"

section \<open>Lemmas: leftovers\<close>

definition leftover :: "string \<Rightarrow> string \<Rightarrow> bool" where
  "leftover dir p \<longleftrightarrow> (\<exists>x. prefix ''yadcc_'' x \<and> slash \<notin> set x \<and> (p = dir @ slash # x \<or> under (dir @ slash # x) p))"

lemma remove_leftover_prune:
  assumes "\<forall>s p. fl_StartsWith fl s p \<longleftrightarrow> prefix p s" and "fs_wf fs" and "map_of fs (dir @ slash # x) \<noteq> None"
  shows "remove_leftover fl dir x fs = Some (if prefix ''yadcc_'' x then prune (dir @ slash # x) fs else fs)"
  using assms is_file_or_directory [OF assms(3)] RemoveDirs_correct [OF assms(2), of "dir @ slash # x"] prune_file [OF assms(2)]
  by (auto simp: remove_leftover_def fs_unlink_def is_file_def is_directory_def)

lemma remove_leftovers:
  assumes "\<forall>s p. fl_StartsWith fl s p \<longleftrightarrow> prefix p s"
  shows "fs_wf fs \<Longrightarrow> distinct xs \<Longrightarrow> \<forall>x\<in>set xs. slash \<notin> set x \<and> map_of fs (dir @ slash # x) \<noteq> None \<Longrightarrow>
    run_calls (remove_leftover fl dir) xs fs = Some (fold prune (map (\<lambda>x. dir @ slash # x) (filter (prefix ''yadcc_'') xs)) fs)"
proof (induction xs arbitrary: fs)
  case (Cons x xs)
  let ?fs = "if prefix ''yadcc_'' x then prune (dir @ slash # x) fs else fs"
  have "remove_leftover fl dir x fs = Some ?fs" using remove_leftover_prune [OF assms] Cons.prems by simp
  moreover have "fs_wf ?fs" using Cons.prems(1) fs_wf_prune by simp
  moreover have "\<forall>y\<in>set xs. slash \<notin> set y \<and> map_of ?fs (dir @ slash # y) \<noteq> None"
    using Cons.prems(2,3) siblings_not_under by (auto simp: map_of_prune)
  ultimately show ?case using Cons.IH [of ?fs] Cons.prems(2) by simp
qed simp

lemma map_of_past_life:
  assumes "\<forall>s p. fl_StartsWith fl s p \<longleftrightarrow> prefix p s" and wf: "fs_wf fs" and "is_directory fs dir"
  shows "\<exists>fs'. RemoveTemporaryFilesCreateDuringOurPastLife fl dir fs = Some fs'
    \<and> (\<forall>p. map_of fs' p = (if leftover dir p then None else map_of fs p))"
proof -
  let ?cs = "map (\<lambda>x. dir @ slash # x) (filter (prefix ''yadcc_'') (names fs dir))"
  have "run_calls (remove_leftover fl dir) (names fs dir) fs = Some (fold prune ?cs fs)"
    by (rule remove_leftovers) (use assms names_iff [OF wf] distinct_readdir [OF fs_wf_distinct [OF wf]] in auto)
  moreover have "map_of (fold prune ?cs fs) p = (if leftover dir p then None else map_of fs p)" for p
  proof (cases "map_of fs p")
    case (Some n)
    have "(\<exists>c\<in>set ?cs. p = c \<or> under c p) \<longleftrightarrow> leftover dir p"
    proof
      assume "leftover dir p"
      then obtain x where x: "prefix ''yadcc_'' x" "slash \<notin> set x" "p = dir @ slash # x \<or> under (dir @ slash # x) p"
        by (auto simp: leftover_def)
      then have "map_of fs (dir @ slash # x) \<noteq> None"
        using Some fs_wf_ancestor [OF wf Some, of "dir @ slash # x"] by (auto simp: is_directory_def)
      moreover have "x \<noteq> []" using x(1) by auto
      ultimately show "\<exists>c\<in>set ?cs. p = c \<or> under c p" using x names_iff [OF wf] by auto
    next
      assume "\<exists>c\<in>set ?cs. p = c \<or> under c p"
      then obtain x where "x \<in> set (names fs dir)" "prefix ''yadcc_'' x" "p = dir @ slash # x \<or> under (dir @ slash # x) p"
        by auto
      then show "leftover dir p" using names_iff [OF wf] unfolding leftover_def by blast
    qed
    then show ?thesis unfolding map_of_fold_prune by auto
  qed (simp add: map_of_fold_prune)
  ultimately show ?thesis using assms(3) by (simp add: RemoveTemporaryFilesCreateDuringOurPastLife_def)
qed

lemma make_temporary_dest:
  assumes "make_temporary (dir @ ''/yadcc_'' @ mid @ ''_XXXXXX'') now ending fs = Some (path, fs')"
    and "slash \<notin> set mid" and "slash \<notin> set ending" and "length dir + length mid \<le> 241"
  obtains x where "path = dir @ slash # ''yadcc_'' @ x" "slash \<notin> set x" "fs' = umap_set path (FileNode DT_REG [] now) fs" "map_of fs path = None"
proof -
  let ?t = "dir @ ''/yadcc_'' @ mid @ ''_XXXXXX''"
  let ?n = "take 255 ?t"
  have path: "path = take (length ?n - 6) ?n @ ending"
    and rest: "fs' = umap_set path (FileNode DT_REG [] now) fs" "map_of fs path = None"
    using assms(1) by (auto simp: make_temporary_def Let_def split: if_splits)
  have cut: "take (length (a @ b) - length b) (a @ b) = a" for a b :: string by simp
  have "?n = (dir @ ''/yadcc_'' @ mid @ ''_'') @ ''XXXXXX''" using assms(4) by simp
  then have "take (length ?n - length ''XXXXXX'') ?n = dir @ ''/yadcc_'' @ mid @ ''_''" by (simp only: cut)
  moreover have "length ''XXXXXX'' = 6" by simp
  ultimately have "take (length ?n - 6) ?n = dir @ ''/yadcc_'' @ mid @ ''_''" by (simp only:)
  with path rest assms(2,3) that [of "mid @ ''_'' @ ending"] show thesis by simp
qed

lemma no_slash_in_number: "slash \<notin> set (to_string n)"
  using digit_value_to_string [of slash n] by (auto simp: digit_value_def)


section \<open>Lemmas: the files of a directory\<close>

lemma clean_below:
  assumes wf: "fs_wf fs" and "clean d"
  shows "p \<in> below fs d \<Longrightarrow> clean p"
proof (induction "length p" arbitrary: p rule: less_induct)
  case less
  then obtain n where p: "map_of fs p = Some n" "under d p" by (auto simp: below_def)
  then have "slash \<in> set p" by (auto simp: under_def prefix_def)
  then obtain e x where x: "p = e @ slash # x" "slash \<notin> set x" by (meson split_list_last)
  then have "x \<noteq> []" using p(1) fs_wf_no_trailing [OF wf] by auto
  moreover have "clean e"
  proof (cases "d = e")
    case False
    then have "under d e" using under_parent [OF p(2) x(2,1)] by blast
    moreover have "e \<noteq> []" using \<open>under d e\<close> by (auto simp: under_def)
    ultimately have "e \<in> below fs d" using fs_wf_parent [OF wf] p(1) x by (auto simp: below_def is_directory_def)
    then show ?thesis using less.hyps x(1) by simp
  qed (use assms(2) in simp)
  ultimately show ?case using clean_child x by blast
qed

lemma read_workspace_files_all:
  assumes "\<And>n. n \<in> set ns \<Longrightarrow> file_bytes fs (squeeze (start @ ''/'' @ n)) = Some (f n) \<and> reads_to_end (length (f n)) (scripts n)"
  shows "read_workspace_files scripts start fs ns = Return (map (\<lambda>n. (n, f n)) ns)"
  using assms by (induction ns) (simp_all add: ReadAll_exact(1))

text \<open>C35. A servant collects from its workspace exactly the files below it, each once and with its bytes, however
  the reads are split, and afterwards removes the workspace and nothing else.\<close>

theorem workspace_collected_and_removed:
  assumes wf: "fs_wf fs" and t: "tdir_is_alive t" "tdir_dir t = dir" and dir: "clean dir" "dir \<noteq> []" "is_directory fs dir" "plain_tree fs dir"
    and reads: "\<And>name b. file_bytes fs (dir @ slash # name) = Some b \<Longrightarrow> reads_to_end (length b) (scripts name)"
  shows "\<exists>files fs'. TemporaryDir_ReadAll scripts t [] fs = Return files \<and> distinct (map fst files)
    \<and> set files = {(name, b). file_bytes fs (dir @ slash # name) = Some b}
    \<and> TemporaryDir_Dispose t fs = Some (t\<lparr>tdir_is_alive := False\<rparr>, fs')
    \<and> (\<forall>p. map_of fs' p = (if p = dir \<or> under dir p then None else map_of fs p))"
proof -
  let ?start = "dir @ ''/''"
  obtain es where es: "EnumerateDirRecursively ?start fs = Some es" "distinct (map de_name es)"
    "(\<lambda>e. dir @ slash # de_name e) ` set es = below fs dir" "\<forall>e\<in>set es. de_is_regular e = is_file fs (dir @ slash # de_name e)"
    using EnumerateDirRecursively_exact [OF wf dir(1) squeeze_doubled [OF dir(1)] dir(3,4)] by blast
  let ?ns = "map de_name (filter de_is_regular es)" and ?f = "\<lambda>n. the (file_bytes fs (dir @ slash # n))"
  have path: "squeeze (?start @ ''/'' @ n) = dir @ slash # n" if "dir @ slash # n \<in> below fs dir" for n
    using squeeze_doubled [OF dir(1), of n] clean_below [OF wf dir(1) that] by simp
  have listed: "n \<in> set ?ns \<longleftrightarrow> (\<exists>b. file_bytes fs (dir @ slash # n) = Some b)" for n
  proof -
    have "n \<in> set ?ns \<longleftrightarrow> dir @ slash # n \<in> (\<lambda>e. dir @ slash # de_name e) ` set es \<and> is_file fs (dir @ slash # n)"
      using es(4) by auto
    also have "\<dots> \<longleftrightarrow> (\<exists>b. file_bytes fs (dir @ slash # n) = Some b)"
      unfolding es(3) by (auto simp: below_def is_file_def file_bytes_def split: option.splits fs_node.splits)
    finally show ?thesis .
  qed
  have "file_bytes fs (squeeze (?start @ ''/'' @ n)) = Some (?f n) \<and> reads_to_end (length (?f n)) (scripts n)" if n: "n \<in> set ?ns" for n
  proof -
    obtain b where "file_bytes fs (dir @ slash # n) = Some b" using n listed by blast
    moreover from this have "dir @ slash # n \<in> below fs dir" by (auto simp: below_def file_bytes_def split: option.splits)
    ultimately show ?thesis using path reads by simp
  qed
  then have "read_workspace_files scripts ?start fs ?ns = Return (map (\<lambda>n. (n, ?f n)) ?ns)" by (rule read_workspace_files_all)
  then have "TemporaryDir_ReadAll scripts t [] fs = Return (map (\<lambda>n. (n, ?f n)) ?ns)"
    using t es(1) by (simp add: TemporaryDir_ReadAll_def)
  moreover have "distinct (map fst (map (\<lambda>n. (n, ?f n)) ?ns))" using es(2) by (simp add: comp_def distinct_map_filter)
  moreover have "set (map (\<lambda>n. (n, ?f n)) ?ns) = {(name, b). file_bytes fs (dir @ slash # name) = Some b}"
    using listed by force
  moreover have "TemporaryDir_Dispose t fs = Some (t\<lparr>tdir_is_alive := False\<rparr>, prune dir fs)"
    using t RemoveDirs_correct [OF wf dir(3,2)] by (simp add: TemporaryDir_Dispose_def)
  ultimately show ?thesis using map_of_prune [of dir fs] by (intro exI conjI) auto
qed

section \<open>Concrete instances\<close>

definition demo_tmp :: filesystem where
  "demo_tmp = [(''/tmp'', Directory), (''/tmp/yadcc_1_2'', Directory), (''/tmp/yadcc_1_2/a.o'', FileNode DT_REG ''x'' 0),
     (''/tmp/other'', FileNode DT_REG ''y'' 0)]"

lemma demo_tmp_wf: "fs_wf demo_tmp" "is_directory demo_tmp ''/tmp''" "is_directory demo_tmp ''/tmp/yadcc_1_2''"
  by code_simp+

lemma file_io_roundtrip_witness:
  "\<exists>fs'. common_WriteAll 0 ''/tmp/new'' [''ab'', ''c''] demo_tmp [Moved 1, EINTR, Moved 1, Moved 1] = Return fs'
     \<and> common_ReadAll ''/tmp/new'' fs' [Moved 2, EINTR, Moved 1, Moved 0] = Return ''abc''"
proof -
  have "can_create ''/tmp/new'' demo_tmp" by code_simp
  moreover have "writes_all [''ab'', ''c''] [Moved 1, EINTR, Moved 1, Moved 1]"
    "reads_to_end (length (concat [''ab'', ''c''])) [Moved 2, EINTR, Moved 1, Moved 0]" by simp_all
  ultimately show ?thesis using file_io_roundtrip [of "''/tmp/new''" demo_tmp "[''ab'', ''c'']"] by fastforce
qed


lemma demo_workspace: "below demo_tmp ''/tmp/yadcc_1_2'' = {''/tmp/yadcc_1_2/a.o''}"
  by (auto simp: below_def demo_tmp_def under_def prefix_def split: if_splits)

lemma demo_workspace_file: "file_bytes demo_tmp (''/tmp/yadcc_1_2'' @ slash # name) = Some b \<longleftrightarrow> name = ''a.o'' \<and> b = ''x''"
  by (auto simp: file_bytes_def demo_tmp_def)

lemma workspace_collected_and_removed_witness:
  "\<exists>files. TemporaryDir_ReadAll (\<lambda>_. [Moved 1, Moved 0]) \<lparr> tdir_dir = ''/tmp/yadcc_1_2'', tdir_is_alive = True \<rparr> [] demo_tmp = Return files
     \<and> set files = {(''a.o'', ''x'')}"
proof -
  let ?t = "\<lparr> tdir_dir = ''/tmp/yadcc_1_2'', tdir_is_alive = True \<rparr>"
  have "plain_tree demo_tmp ''/tmp/yadcc_1_2''" unfolding plain_tree_def demo_workspace by (simp add: demo_tmp_def is_directory_def)
  moreover have "clean ''/tmp/yadcc_1_2''" by simp
  moreover have "reads_to_end (length b) [Moved 1, Moved 0]" if "file_bytes demo_tmp (''/tmp/yadcc_1_2'' @ slash # name) = Some b" for name b
    using that unfolding demo_workspace_file by simp
  ultimately show ?thesis
    using workspace_collected_and_removed [OF demo_tmp_wf(1) _ _ _ _ demo_tmp_wf(3), of ?t "\<lambda>_. [Moved 1, Moved 0]"]
    unfolding demo_workspace_file by auto
qed

text \<open>Writing nothing into a temporary file of the wrapper aborts it: a write of no bytes counts as a failed one.\<close>

lemma empty_temporary_file_aborts:
  "client_TemporaryFile_Write OtherError [] content (Moved 0 # rs) = Abort"
  by (simp add: client_TemporaryFile_Write_def)

end
