(* ===== verification/Process_Setup.thy ===== *)
theory Process_Setup
  imports Flare_Api "HOL-Library.Monad_Syntax"
begin

text \<open>
  What the daemon does to processes: dropping privileges (\<^verbatim>\<open>daemon/privilege.cc\<close>), starting a compiler
  (\<^verbatim>\<open>daemon/cloud/execute_command.cc\<close>), choosing the address it serves at (\<^verbatim>\<open>daemon/entry.cc\<close>), and who may inspect
  the servers (\<^verbatim>\<open>common/inspect_auth.cc\<close>). A failed check is the value \<open>None\<close>.
\<close>

section \<open>Privileges\<close>

text \<open>The credentials of a process; as Linux has them, with the capabilities of the effective user.\<close>

record credentials =
  cr_ruid :: nat
  cr_euid :: nat
  cr_suid :: nat
  cr_rgid :: nat
  cr_egid :: nat
  cr_sgid :: nat
  cr_groups :: "nat list"
  cr_dumpable :: bool
  cr_no_new_privs :: bool

definition sys_setgid :: "nat \<Rightarrow> credentials \<Rightarrow> credentials option" where
  "sys_setgid gid c =
     (if cr_euid c = 0 then Some (c\<lparr> cr_rgid := gid, cr_egid := gid, cr_sgid := gid \<rparr>)
      else if gid \<in> {cr_rgid c, cr_sgid c} then Some (c\<lparr> cr_egid := gid \<rparr>) else None)"

definition sys_setgroups :: "nat list \<Rightarrow> credentials \<Rightarrow> credentials option" where
  "sys_setgroups gids c = (if cr_euid c = 0 then Some (c\<lparr> cr_groups := gids \<rparr>) else None)"

text \<open>\<open>getgroups(1, \<dots>)\<close> fails when there are more groups than fit.\<close>

definition sys_getgroups1 :: "credentials \<Rightarrow> nat option" where
  "sys_getgroups1 c = (if length (cr_groups c) \<le> 1 then Some (length (cr_groups c)) else None)"

definition sys_setuid :: "nat \<Rightarrow> credentials \<Rightarrow> credentials option" where
  "sys_setuid uid c =
     (if cr_euid c = 0 then Some (c\<lparr> cr_ruid := uid, cr_euid := uid, cr_suid := uid, cr_dumpable := False \<rparr>)
      else if uid \<in> {cr_ruid c, cr_suid c} then Some (c\<lparr> cr_euid := uid, cr_dumpable := False \<rparr>) else None)"

definition IsRunningAsRoot :: "credentials \<Rightarrow> bool" where
  "IsRunningAsRoot c \<longleftrightarrow> cr_ruid c = 0 \<or> cr_euid c = 0"

text \<open>\<open>passwd\<close>: the users of the system.\<close>

fun first_user :: "(string \<rightharpoonup> nat \<times> nat) \<Rightarrow> string list \<Rightarrow> nat \<times> nat" where
  "first_user passwd [] = (65534, 65534)"
| "first_user passwd (name # ns) = (case passwd name of Some ids \<Rightarrow> ids | None \<Rightarrow> first_user passwd ns)"

definition GetPreferredUser :: "(string \<rightharpoonup> nat \<times> nat) \<Rightarrow> nat \<times> nat" where
  "GetPreferredUser passwd = first_user passwd [''yadcc'', ''daemon'', ''nobody'']"

definition DropPrivileges :: "(string \<rightharpoonup> nat \<times> nat) \<Rightarrow> credentials \<Rightarrow> credentials option" where
  "DropPrivileges passwd c =
     (if \<not> IsRunningAsRoot c then Some c
      else do {
        let (uid, gid) = GetPreferredUser passwd;
        c \<leftarrow> sys_setgid gid c;
        c \<leftarrow> sys_setgroups [gid] c;
        n \<leftarrow> sys_getgroups1 c;
        c \<leftarrow> (if n = 1 then Some c else None);
        c \<leftarrow> sys_setuid uid c;
        let c = c\<lparr> cr_dumpable := True, cr_no_new_privs := True \<rparr>;
        if cr_ruid c = 0 \<or> cr_euid c = 0 then None else Some c
      })"

section \<open>Starting a program\<close>

text \<open>Open files are numbers into a table; \<open>dup2\<close> of a file that is not open does nothing here (its result is ignored).\<close>

record 'f child =
  ch_fds :: "nat \<rightharpoonup> 'f"
  ch_rewound :: "'f set"
  ch_nice :: int
  ch_own_group :: bool
  ch_cwd :: string

definition sys_dup2 :: "nat \<Rightarrow> nat \<Rightarrow> 'f child \<Rightarrow> 'f child" where
  "sys_dup2 old new c = (case ch_fds c old of Some f \<Rightarrow> c\<lparr> ch_fds := (ch_fds c)(new \<mapsto> f) \<rparr> | None \<Rightarrow> c)"

definition sys_close :: "nat \<Rightarrow> 'f child \<Rightarrow> 'f child" where
  "sys_close fd c = c\<lparr> ch_fds := (ch_fds c)(fd := None) \<rparr>"

definition sys_rewind :: "nat \<Rightarrow> 'f child \<Rightarrow> 'f child" where
  "sys_rewind fd c = (case ch_fds c fd of Some f \<Rightarrow> c\<lparr> ch_rewound := insert f (ch_rewound c) \<rparr> | None \<Rightarrow> c)"

definition possible_fds :: "nat list" where
  "possible_fds = [3..<9999]"

text \<open>The child between \<open>fork\<close> and \<open>execve\<close>: the state in which it executes the shell, and the shell's arguments. The
  nice value of the child is relative to that of the daemon (\<open>nice_ok\<close>: the system accepts it).\<close>

definition StartProgram :: "string \<Rightarrow> int \<Rightarrow> nat \<Rightarrow> nat \<Rightarrow> nat \<Rightarrow> bool \<Rightarrow> bool \<Rightarrow> 'f child \<Rightarrow> ('f child \<times> string list) option" where
  "StartProgram cmdline nice_level stdin_fd stdout_fd stderr_fd in_group nice_ok c =
     (let c = sys_dup2 stderr_fd 2 (sys_dup2 stdout_fd 1 (sys_dup2 stdin_fd 0 c));
          c = sys_rewind 0 c;
          c = sys_close stderr_fd (sys_close stdout_fd (sys_close stdin_fd c));
          c = fold sys_close possible_fds c
      in if nice_level \<noteq> 0 \<and> \<not> nice_ok then None
         else Some (c\<lparr> ch_nice := ch_nice c + nice_level, ch_own_group := in_group \<or> ch_own_group c, ch_cwd := ''/'' \<rparr>,
                    [''sh'', ''-c'', cmdline]))"

text \<open>The wrapper's way to start a program (\<^verbatim>\<open>client/common/command.cc\<close>): the ends of three pipes at the given numbers. Of
  each pair the first number is the end that is read.\<close>

datatype pipe_end = StdinReader | StdinWriter | StdoutReader | StdoutWriter | StderrReader | StderrWriter | Inherited nat

type_synonym fd_table = "nat \<rightharpoonup> pipe_end"

definition CreatePipe :: "pipe_end \<times> pipe_end \<Rightarrow> nat \<times> nat \<Rightarrow> fd_table \<Rightarrow> fd_table" where
  "CreatePipe ends fds t = t(fst fds \<mapsto> fst ends, snd fds \<mapsto> snd ends)"

definition fd_dup2 :: "nat \<Rightarrow> nat \<Rightarrow> fd_table \<Rightarrow> fd_table" where
  "fd_dup2 old new t = (case t old of Some f \<Rightarrow> t(new \<mapsto> f) | None \<Rightarrow> t)"

definition fd_close :: "nat \<Rightarrow> fd_table \<Rightarrow> fd_table" where
  "fd_close fd t = t(fd := None)"

text \<open>The tables of the child and of the parent, and the environment of the child.\<close>

definition client_StartProgram ::
  "nat \<times> nat \<Rightarrow> nat \<times> nat \<Rightarrow> nat \<times> nat \<Rightarrow> string list \<Rightarrow> string list \<Rightarrow> fd_table \<Rightarrow> fd_table \<times> fd_table \<times> string list" where
  "client_StartProgram ins outs errs environ extra_envs t =
     (let t = CreatePipe (StderrReader, StderrWriter) errs (CreatePipe (StdoutReader, StdoutWriter) outs
                (CreatePipe (StdinReader, StdinWriter) ins t));
          child = fd_dup2 (snd errs) 2 (fd_dup2 (snd outs) 1 (fd_dup2 (fst ins) 0 t));
          child = fold fd_close [fst ins, snd outs, snd errs, snd ins, fst outs, fst errs] child;
          parent = fold fd_close [fst ins, snd outs, snd errs] t
      in (child, parent, if extra_envs \<noteq> [] then environ @ extra_envs else environ))"

section \<open>The address of a servant\<close>

text \<open>\<open>is_private\<close> and \<open>get_ip\<close> are Flare's.\<close>

definition GetPrivateNetworkAddress :: "('e \<Rightarrow> bool) \<Rightarrow> ('e \<Rightarrow> string) \<Rightarrow> string \<Rightarrow> 'e list \<Rightarrow> string option" where
  "GetPrivateNetworkAddress is_private get_ip serving_ip endpoints =
     (if serving_ip \<noteq> [] then Some serving_ip else map_option get_ip (List.find is_private endpoints))"

section \<open>Inspection\<close>

definition IsCredentialAcceptable :: "string \<Rightarrow> string \<Rightarrow> string \<Rightarrow> bool" where
  "IsCredentialAcceptable inspect_credential user password \<longleftrightarrow>
     inspect_credential \<noteq> [] \<and> user @ '':'' @ password = inspect_credential"

datatype HttpFilter = NoopFilter | BasicAuthenticationHttpFilter "string \<Rightarrow> string \<Rightarrow> bool" string

definition MakeInspectAuthFilter :: "bool \<Rightarrow> string \<Rightarrow> HttpFilter" where
  "MakeInspectAuthFilter debugging_no_inspect_auth inspect_credential =
     (if debugging_no_inspect_auth then NoopFilter
      else BasicAuthenticationHttpFilter (IsCredentialAcceptable inspect_credential) ''/inspect'')"

section \<open>Properties\<close>

text \<open>C37. A daemon started by root goes on without any root identity, in one unprivileged group and without the
  possibility to gain privileges, or does not start; a daemon not started by root keeps what it has. With the users of a
  common system and all capabilities it starts.\<close>

theorem privileges_dropped:
  "(\<forall>c'. DropPrivileges passwd c = Some c' \<longrightarrow>
      (if IsRunningAsRoot c
       then cr_ruid c' \<noteq> 0 \<and> cr_euid c' \<noteq> 0 \<and> cr_suid c' \<noteq> 0 \<and> cr_no_new_privs c'
         \<and> cr_groups c' = [snd (GetPreferredUser passwd)] \<and> {cr_rgid c', cr_egid c', cr_sgid c'} = {snd (GetPreferredUser passwd)}
         \<and> sys_setuid 0 c' = None
       else c' = c))
   \<and> (cr_euid c = 0 \<and> fst (GetPreferredUser passwd) \<noteq> 0 \<longrightarrow> DropPrivileges passwd c \<noteq> None)"
  by (auto simp: DropPrivileges_def IsRunningAsRoot_def sys_setgid_def sys_setgroups_def sys_getgroups1_def sys_setuid_def
      Let_def split: prod.splits if_splits bind_splits)

lemma fold_close: "ch_fds (fold sys_close fds c) = (\<lambda>fd. if fd \<in> set fds then None else ch_fds c fd)"
  by (induction fds arbitrary: c) (auto simp: sys_close_def)

lemma set_possible_fds: "set possible_fds = {3..<9999}"
  unfolding possible_fds_def by (rule set_upt)


definition demo_child :: "string child" where
  "demo_child = \<lparr> ch_fds = [3 \<mapsto> ''socket'', 4 \<mapsto> ''in'', 5 \<mapsto> ''out'', 6 \<mapsto> ''err''], ch_rewound = {}, ch_nice = 0, ch_own_group = False,
     ch_cwd = ''/home'' \<rparr>"


text \<open>A file that is itself one of the standard streams is closed again: the compiler is left without it.\<close>

lemma standard_stream_closed:
  assumes "ch_fds c 0 = Some f" and "ch_fds c o1 = Some g" and "ch_fds c o2 = Some h" and "3 \<le> o1" and "3 \<le> o2"
    and "StartProgram cmdline 0 0 o1 o2 in_group nice_ok c = Some (c', argv)"
  shows "ch_fds c' 0 = None"
proof -
  have "ch_fds c' 0 = ch_fds (fold sys_close possible_fds (sys_close o2 (sys_close o1 (sys_close 0 (sys_rewind 0
          (sys_dup2 o2 2 (sys_dup2 o1 1 (sys_dup2 0 0 c)))))))) 0"
    using assms(6) by (auto simp: StartProgram_def Let_def)
  then show ?thesis by (simp add: fold_close set_possible_fds) (simp add: sys_close_def)
qed

text \<open>The servers can be inspected with the configured user and password only, and not at all when none is
  configured; the debugging flag lets everyone in.\<close>

lemma inspection_needs_credential:
  "MakeInspectAuthFilter debugging flag = NoopFilter \<longleftrightarrow> debugging"
  "MakeInspectAuthFilter False flag = BasicAuthenticationHttpFilter accept path \<Longrightarrow>
     accept user password \<longleftrightarrow> (flag = user @ '':'' @ password \<and> flag \<noteq> [])"
  by (auto simp: MakeInspectAuthFilter_def IsCredentialAcceptable_def)

lemma privileges_dropped_witness:
  "\<exists>c'. DropPrivileges [''daemon'' \<mapsto> (1, 1)] \<lparr> cr_ruid = 0, cr_euid = 0, cr_suid = 0, cr_rgid = 0, cr_egid = 0, cr_sgid = 0, cr_groups = [0, 10],
     cr_dumpable = True, cr_no_new_privs = False \<rparr> = Some c' \<and> sys_setuid 0 c' = None"
  using privileges_dropped [of "[''daemon'' \<mapsto> (1, 1)]" "\<lparr> cr_ruid = 0, cr_euid = 0, cr_suid = 0, cr_rgid = 0, cr_egid = 0, cr_sgid = 0, cr_groups = [0, 10],
     cr_dumpable = True, cr_no_new_privs = False \<rparr>"]
  by (auto simp: GetPreferredUser_def IsRunningAsRoot_def)

lemma fold_fd_close: "fold fd_close fds t fd = (if fd \<in> set fds then None else t fd)"
  by (induction fds arbitrary: t) (simp_all add: fd_close_def)

text \<open>
  Every end of a pipe is open where it is used and nowhere else: the program has its ends as standard streams, the wrapper
  has the others, so both see the end of what the other one writes. All other files are as before.
\<close>

theorem pipe_ends_where_used:
  assumes "distinct [fst ins, snd ins, fst outs, snd outs, fst errs, snd errs]"
    and "\<forall>fd\<in>{fst ins, snd ins, fst outs, snd outs, fst errs, snd errs}. 3 \<le> fd \<and> t fd = None"
    and "client_StartProgram ins outs errs environ extra_envs t = (child, parent, envs)"
  shows "child = t(0 \<mapsto> StdinReader, 1 \<mapsto> StdoutWriter, 2 \<mapsto> StderrWriter)
    \<and> parent = t(snd ins \<mapsto> StdinWriter, fst outs \<mapsto> StdoutReader, fst errs \<mapsto> StderrReader) \<and> envs = environ @ extra_envs"
proof -
  obtain si sw or ow er ew where fds: "ins = (si, sw)" "outs = (or, ow)" "errs = (er, ew)" by (cases ins, cases outs, cases errs)
  let ?t = "t(si \<mapsto> StdinReader, sw \<mapsto> StdinWriter, or \<mapsto> StdoutReader, ow \<mapsto> StdoutWriter, er \<mapsto> StderrReader, ew \<mapsto> StderrWriter)"
  have apart: "distinct [si, sw, or, ow, er, ew]" and high: "3 \<le> si" "3 \<le> sw" "3 \<le> or" "3 \<le> ow" "3 \<le> er" "3 \<le> ew"
    and free: "t si = None" "t sw = None" "t or = None" "t ow = None" "t er = None" "t ew = None"
    using assms(1,2) by (simp_all add: fds)
  have dup: "fd_dup2 ew 2 (fd_dup2 ow 1 (fd_dup2 si 0 ?t)) = ?t(0 \<mapsto> StdinReader, 1 \<mapsto> StdoutWriter, 2 \<mapsto> StderrWriter)"
    using apart high by (simp add: fd_dup2_def)
  let ?child = "fold fd_close [si, ow, ew, sw, or, er] (?t(0 \<mapsto> StdinReader, 1 \<mapsto> StdoutWriter, 2 \<mapsto> StderrWriter))"
  have start: "client_StartProgram ins outs errs environ extra_envs t =
      (?child, fold fd_close [si, ow, ew] ?t, if extra_envs \<noteq> [] then environ @ extra_envs else environ)"
    by (simp only: client_StartProgram_def CreatePipe_def fds fst_conv snd_conv Let_def dup)
  note result = trans [OF assms(3) [symmetric] start]
  have parent: "parent = fold fd_close [si, ow, ew] ?t"
    using arg_cong [OF result, of "\<lambda>r. fst (snd r)"] unfolding fst_conv snd_conv .
  have envs: "envs = (if extra_envs \<noteq> [] then environ @ extra_envs else environ)"
    using arg_cong [OF result, of "\<lambda>r. snd (snd r)"] unfolding snd_conv .
  have "child = ?child" using arg_cong [OF result, of fst] unfolding fst_conv .
  then have "child fd = (t(0 \<mapsto> StdinReader, 1 \<mapsto> StdoutWriter, 2 \<mapsto> StderrWriter)) fd" for fd
  proof (cases "fd \<in> set [si, ow, ew, sw, or, er]")
    case True
    then have "3 \<le> fd" "t fd = None" using high free by auto
    then show ?thesis using True \<open>child = ?child\<close> by (simp only: fold_fd_close if_True fun_upd_apply) simp
  next
    case False
    then have "?t fd = t fd" by simp
    with False show ?thesis unfolding \<open>child = ?child\<close> fold_fd_close by (simp only: if_False fun_upd_def) 
  qed
  moreover have "parent fd = (t(sw \<mapsto> StdinWriter, or \<mapsto> StdoutReader, er \<mapsto> StderrReader)) fd" for fd
    unfolding parent fold_fd_close using apart free by auto
  ultimately show ?thesis using envs by (simp add: fds fun_eq_iff)
qed

end
