(* ===== verification/Output_Stream.thy ===== *)
theory Output_Stream
  imports Flare_Api
begin

text \<open>
  The streams the wrapper sends preprocessed sources through (\<^verbatim>\<open>client/common/output_stream.cc\<close>) and its compression of
  whole strings (\<^verbatim>\<open>client/common/compress.cc\<close>). Zstd and BLAKE3 are parameters. \<open>None\<close> is an error of the library, which
  aborts the wrapper, undefined behaviour, or a loop that does not end.
\<close>

section \<open>Zstd\<close>

datatype zstd_mode = ZSTD_e_continue | ZSTD_e_end

text \<open>One call of \<open>ZSTD_compressStream2\<close> or \<open>ZSTD_decompressStream\<close> with room for so many bytes and the rest of the input: how much
  of it is consumed, what is produced, the result (0: everything is flushed), the new state. \<open>None\<close>: an error.\<close>

record 's zstd =
  zs_compress :: "'s \<Rightarrow> zstd_mode \<Rightarrow> nat \<Rightarrow> bytes \<Rightarrow> (nat \<times> bytes \<times> nat \<times> 's) option"
  zs_init :: 's
  zs_frame_size :: nat

record 's unzstd =
  uz_decompress :: "'s \<Rightarrow> nat \<Rightarrow> bytes \<Rightarrow> (nat \<times> bytes \<times> nat \<times> 's) option"
  uz_init :: 's
  uz_frame_size :: nat

section \<open>Streams\<close>

abbreviation kChunkSize :: nat where "kChunkSize \<equiv> 131072"

text \<open>A chunk is the used part of its buffer.\<close>

record 's ZstdCompressedOutputStream =
  zo_ctx :: 's
  zo_chunks :: "bytes list"

definition ZstdCompressedOutputStream_ctor :: "'s zstd \<Rightarrow> 's ZstdCompressedOutputStream" where
  "ZstdCompressedOutputStream_ctor z = \<lparr> zo_ctx = zs_init z, zo_chunks = [[]] \<rparr>"

text \<open>A new chunk when the last one is full; there is always a last one, except after \<open>FlushAndGet\<close>.\<close>

definition with_room :: "bytes list \<Rightarrow> bytes list option" where
  "with_room chunks =
     (if chunks = [] then None else Some (if length (last chunks) = kChunkSize then chunks @ [[]] else chunks))"

definition add_to_last :: "bytes \<Rightarrow> bytes list \<Rightarrow> bytes list" where
  "add_to_last b chunks = butlast chunks @ [last chunks @ b]"

partial_function (option) zstd_Write :: "'s zstd \<Rightarrow> bytes \<Rightarrow> 's ZstdCompressedOutputStream \<Rightarrow> 's ZstdCompressedOutputStream option" where
  "zstd_Write z data s =
     (if data = [] then Some s
      else
        (case with_room (zo_chunks s) of
           None \<Rightarrow> None
         | Some chunks \<Rightarrow>
             (case zs_compress z (zo_ctx s) ZSTD_e_continue (kChunkSize - length (last chunks)) data of
                None \<Rightarrow> None
              | Some r \<Rightarrow> zstd_Write z (drop (fst r) data)
                  (s\<lparr> zo_ctx := snd (snd (snd r)), zo_chunks := add_to_last (fst (snd r)) chunks \<rparr>))))"

partial_function (option) FlushCompressorBuffer :: "'s zstd \<Rightarrow> 's ZstdCompressedOutputStream \<Rightarrow> 's ZstdCompressedOutputStream option" where
  "FlushCompressorBuffer z s =
     (case with_room (zo_chunks s) of
        None \<Rightarrow> None
      | Some chunks \<Rightarrow>
          (case zs_compress z (zo_ctx s) ZSTD_e_end (kChunkSize - length (last chunks)) [] of
             None \<Rightarrow> None
           | Some r \<Rightarrow>
               (let s = s\<lparr> zo_ctx := snd (snd (snd r)), zo_chunks := add_to_last (fst (snd r)) chunks \<rparr>
                in if fst (snd (snd r)) = 0 then Some s else FlushCompressorBuffer z s)))"

definition FlushAndGet :: "'s zstd \<Rightarrow> 's ZstdCompressedOutputStream \<Rightarrow> (bytes \<times> 's ZstdCompressedOutputStream) option" where
  "FlushAndGet z s =
     map_option (\<lambda>s. (concat (zo_chunks s), s\<lparr> zo_chunks := [] \<rparr>)) (FlushCompressorBuffer z s)"

text \<open>The hasher of \<open>Blake3OutputStream\<close> is what it has been given; the digest is there once it is finalized.\<close>

record Blake3OutputStream =
  bo_state :: bytes
  bo_digest :: bytes

definition blake3_Write :: "bytes \<Rightarrow> Blake3OutputStream \<Rightarrow> Blake3OutputStream" where
  "blake3_Write data s = s\<lparr> bo_state := bo_state s @ data \<rparr>"

definition blake3_Finalize :: "flare \<Rightarrow> Blake3OutputStream \<Rightarrow> Blake3OutputStream" where
  "blake3_Finalize fl s = s\<lparr> bo_digest := fl_Blake3 fl (bo_state s) \<rparr>"

text \<open>\<open>%02x\<close>\<close>

definition hex_digit :: "nat \<Rightarrow> char" where
  "hex_digit n = ''0123456789abcdef'' ! n"

definition GetSourceDigest :: "Blake3OutputStream \<Rightarrow> string" where
  "GetSourceDigest s = concat (map (\<lambda>c. [hex_digit (of_char c div 16), hex_digit (of_char c mod 16)]) (bo_digest s))"

datatype 's OutputStream = Transparent bytes | Zstd "'s ZstdCompressedOutputStream" | Blake3 Blake3OutputStream

fun stream_Write :: "'s zstd \<Rightarrow> bytes \<Rightarrow> 's OutputStream \<Rightarrow> 's OutputStream option" where
  "stream_Write z data (Transparent buffer) = Some (Transparent (buffer @ data))"
| "stream_Write z data (Zstd s) = map_option Zstd (zstd_Write z data s)"
| "stream_Write z data (Blake3 s) = Some (Blake3 (blake3_Write data s))"

text \<open>\<open>ForwardingOutputStream\<close>\<close>

fun forward_Write :: "'s zstd \<Rightarrow> bytes \<Rightarrow> 's OutputStream list \<Rightarrow> 's OutputStream list option" where
  "forward_Write z data [] = Some []"
| "forward_Write z data (s # ss) =
     (case stream_Write z data s of
        None \<Rightarrow> None
      | Some s \<Rightarrow> map_option ((#) s) (forward_Write z data ss))"

section \<open>Whole strings\<close>

partial_function (option) compress_loop :: "'s zstd \<Rightarrow> bytes \<Rightarrow> bytes \<Rightarrow> 's \<Rightarrow> bytes option" where
  "compress_loop z input compressed ctx =
     (case zs_compress z ctx ZSTD_e_end (zs_frame_size z) input of
        None \<Rightarrow> None
      | Some r \<Rightarrow>
          (let compressed = compressed @ fst (snd r)
           in if fst (snd (snd r)) = 0 then Some compressed
              else compress_loop z (drop (fst r) input) compressed (snd (snd (snd r)))))"

definition CompressUsingZstd :: "'s zstd \<Rightarrow> bytes \<Rightarrow> bytes option" where
  "CompressUsingZstd z input = compress_loop z input [] (zs_init z)"

text \<open>Both loops, over the input and over what is left to flush, take the same step.\<close>

partial_function (option) decompress_loop :: "'s unzstd \<Rightarrow> bytes \<Rightarrow> nat \<Rightarrow> bytes \<Rightarrow> 's \<Rightarrow> bytes option" where
  "decompress_loop u input result decompressed ctx =
     (if input = [] \<and> result = 0 then Some decompressed
      else
        (case uz_decompress u ctx (uz_frame_size u) input of
           None \<Rightarrow> None
         | Some r \<Rightarrow> decompress_loop u (drop (fst r) input) (fst (snd (snd r))) (decompressed @ fst (snd r)) (snd (snd (snd r)))))"

definition DecompressUsingZstd :: "'s unzstd \<Rightarrow> bytes \<Rightarrow> bytes option" where
  "DecompressUsingZstd u input = decompress_loop u input 0 [] (uz_init u)"

section \<open>What Zstd promises\<close>

text \<open>
  What a compressor has been fed and has put out since it was initialized, and a measure of the work it has left for a
  given input. The \<open>frame\<close> of a string is decompressed to that string. Every call makes progress, and a call that ends a
  frame with the result 0 has put out a frame of everything it was fed.
\<close>

record 's zstd_view =
  zv_ok :: "'s \<Rightarrow> bool"
  zv_fed :: "'s \<Rightarrow> bytes"
  zv_out :: "'s \<Rightarrow> bytes"
  zv_work :: "'s \<Rightarrow> bytes \<Rightarrow> nat"

definition zstd_laws :: "(bytes \<Rightarrow> bytes option) \<Rightarrow> 's zstd_view \<Rightarrow> 's zstd \<Rightarrow> bool" where
  "zstd_laws frame v z \<longleftrightarrow>
     0 < zs_frame_size z \<and> zv_ok v (zs_init z) \<and> zv_fed v (zs_init z) = [] \<and> zv_out v (zs_init z) = [] \<and>
     (\<forall>s mode room input. zv_ok v s \<longrightarrow> 0 < room \<longrightarrow> mode = ZSTD_e_end \<or> input \<noteq> [] \<longrightarrow>
        (\<exists>n produced result s'. zs_compress z s mode room input = Some (n, produced, result, s') \<and>
           zv_ok v s' \<and> length produced \<le> room \<and> zv_fed v s' = zv_fed v s @ take n input \<and> zv_out v s' = zv_out v s @ produced \<and>
           (if mode = ZSTD_e_end \<and> result = 0 then drop n input = [] \<and> frame (zv_out v s') = Some (zv_fed v s')
            else zv_work v s' (drop n input) < zv_work v s input)))"

text \<open>A decompressor that is given a whole frame puts out its content; the result is 0 when it has.\<close>

definition unzstd_laws :: "(bytes \<Rightarrow> bytes option) \<Rightarrow> 's zstd_view \<Rightarrow> 's unzstd \<Rightarrow> bool" where
  "unzstd_laws frame v u \<longleftrightarrow>
     0 < uz_frame_size u \<and> zv_ok v (uz_init u) \<and> zv_fed v (uz_init u) = [] \<and> zv_out v (uz_init u) = [] \<and> frame [] = None \<and>
     (\<forall>s room input content. zv_ok v s \<longrightarrow> 0 < room \<longrightarrow> frame (zv_fed v s @ input) = Some content \<longrightarrow>
        (\<exists>n produced result s'. uz_decompress u s room input = Some (n, produced, result, s') \<and>
           length produced \<le> room \<and> zv_fed v s' = zv_fed v s @ take n input \<and> zv_out v s' = zv_out v s @ produced \<and>
           (if result = 0 then drop n input = [] \<and> zv_out v s' = content
            else zv_ok v s' \<and> zv_work v s' (drop n input) < zv_work v s input)))"

lemma zstd_laws_init:
  "zstd_laws frame v z \<Longrightarrow> 0 < zs_frame_size z \<and> zv_ok v (zs_init z) \<and> zv_fed v (zs_init z) = [] \<and> zv_out v (zs_init z) = []"
  by (simp add: zstd_laws_def)

lemma zstd_laws_step:
  assumes "zstd_laws frame v z" and "zv_ok v s" and "0 < room" and "mode = ZSTD_e_end \<or> input \<noteq> []"
  obtains n produced result s' where "zs_compress z s mode room input = Some (n, produced, result, s')"
    "zv_ok v s'" "length produced \<le> room" "zv_fed v s' = zv_fed v s @ take n input" "zv_out v s' = zv_out v s @ produced"
    "if mode = ZSTD_e_end \<and> result = 0 then drop n input = [] \<and> frame (zv_out v s') = Some (zv_fed v s')
     else zv_work v s' (drop n input) < zv_work v s input"
  using assms unfolding zstd_laws_def by metis

section \<open>The stream is lossless\<close>

definition zo_inv :: "'s zstd_view \<Rightarrow> bytes \<Rightarrow> 's ZstdCompressedOutputStream \<Rightarrow> bool" where
  "zo_inv v written s \<longleftrightarrow> zo_chunks s \<noteq> [] \<and> (\<forall>c\<in>set (zo_chunks s). length c \<le> kChunkSize) \<and> zv_ok v (zo_ctx s)
     \<and> zv_fed v (zo_ctx s) = written \<and> zv_out v (zo_ctx s) = concat (zo_chunks s)"

lemma with_room_ok:
  assumes "chunks \<noteq> []" and "\<forall>c\<in>set chunks. length c \<le> kChunkSize"
  obtains chunks' where "with_room chunks = Some chunks'" "chunks' \<noteq> []" "length (last chunks') < kChunkSize"
    "\<forall>c\<in>set chunks'. length c \<le> kChunkSize" "concat chunks' = concat chunks"
proof (cases "length (last chunks) = kChunkSize")
  case True
  with assms that [of "chunks @ [[]]"] show thesis by (simp add: with_room_def)
next
  case False
  moreover have "length (last chunks) \<le> kChunkSize" using assms last_in_set by blast
  ultimately have "length (last chunks) < kChunkSize" by (rule le_neq_implies_less [rotated])
  with assms that [of chunks] show thesis by (simp add: with_room_def)
qed

lemma concat_add_to_last: "chunks \<noteq> [] \<Longrightarrow> concat (add_to_last b chunks) = concat chunks @ b"
  by (induction chunks rule: rev_induct) (simp_all add: add_to_last_def)

lemma add_to_last_bounded:
  "\<forall>c\<in>set chunks. length c \<le> k \<Longrightarrow> chunks \<noteq> [] \<Longrightarrow> length b \<le> k - length (last chunks) \<Longrightarrow> \<forall>c\<in>set (add_to_last b chunks). length c \<le> k"
  by (induction chunks rule: rev_induct) (auto simp: add_to_last_def)

text \<open>One call of the compressor from a state of the stream.\<close>

lemma stream_step:
  assumes laws: "zstd_laws frame v z" and inv: "zo_inv v written s" and mode: "mode = ZSTD_e_end \<or> data \<noteq> []"
  obtains chunks n produced result ctx where "with_room (zo_chunks s) = Some chunks"
    "zs_compress z (zo_ctx s) mode (kChunkSize - length (last chunks)) data = Some (n, produced, result, ctx)"
    "zo_inv v (written @ take n data) (s\<lparr> zo_ctx := ctx, zo_chunks := add_to_last produced chunks \<rparr>)"
    "if mode = ZSTD_e_end \<and> result = 0 then drop n data = [] \<and> frame (zv_out v ctx) = Some (zv_fed v ctx)
     else zv_work v ctx (drop n data) < zv_work v (zo_ctx s) data"
proof -
  obtain chunks where room: "with_room (zo_chunks s) = Some chunks" "chunks \<noteq> []" "length (last chunks) < kChunkSize"
    "\<forall>c\<in>set chunks. length c \<le> kChunkSize" "concat chunks = concat (zo_chunks s)"
    using inv by (auto simp: zo_inv_def elim: with_room_ok)
  have "zv_ok v (zo_ctx s)" "0 < kChunkSize - length (last chunks)" using inv room(3) by (auto simp: zo_inv_def)
  from zstd_laws_step [OF laws this mode] obtain n produced result ctx where step:
    "zs_compress z (zo_ctx s) mode (kChunkSize - length (last chunks)) data = Some (n, produced, result, ctx)"
    "zv_ok v ctx" "length produced \<le> kChunkSize - length (last chunks)" "zv_fed v ctx = zv_fed v (zo_ctx s) @ take n data"
    "zv_out v ctx = zv_out v (zo_ctx s) @ produced"
    "if mode = ZSTD_e_end \<and> result = 0 then drop n data = [] \<and> frame (zv_out v ctx) = Some (zv_fed v ctx)
     else zv_work v ctx (drop n data) < zv_work v (zo_ctx s) data" by metis
  have "zo_inv v (written @ take n data) (s\<lparr> zo_ctx := ctx, zo_chunks := add_to_last produced chunks \<rparr>)"
    using inv step(2,4,5) room(2,5) concat_add_to_last [OF room(2)] add_to_last_bounded [OF room(4,2) step(3)]
    by (simp add: zo_inv_def) (simp add: add_to_last_def)
  with that room(1) step(1,6) show thesis by blast
qed

lemma zstd_Write_ok:
  assumes laws: "zstd_laws frame v z" and "zo_inv v written s"
  shows "\<exists>s'. zstd_Write z data s = Some s' \<and> zo_inv v (written @ data) s'"
  using assms(2)
proof (induction "zv_work v (zo_ctx s) data" arbitrary: data s written rule: less_induct)
  case less
  show ?case
  proof (cases "data = []")
    case True
    with less.prems show ?thesis by (subst zstd_Write.simps) simp
  next
    case False
    then have mode: "ZSTD_e_continue = ZSTD_e_end \<or> data \<noteq> []" by simp
    from stream_step [OF laws less.prems mode] obtain chunks n produced result ctx where step:
      "with_room (zo_chunks s) = Some chunks"
      "zs_compress z (zo_ctx s) ZSTD_e_continue (kChunkSize - length (last chunks)) data = Some (n, produced, result, ctx)"
      "zo_inv v (written @ take n data) (s\<lparr> zo_ctx := ctx, zo_chunks := add_to_last produced chunks \<rparr>)"
      "zv_work v ctx (drop n data) < zv_work v (zo_ctx s) data" by (metis zstd_mode.distinct(1))
    with less.hyps [OF _ step(3), of "drop n data"] False show ?thesis
      by (subst zstd_Write.simps) simp
  qed
qed

lemma FlushCompressorBuffer_ok:
  assumes laws: "zstd_laws frame v z" and "zo_inv v written s"
  shows "\<exists>s'. FlushCompressorBuffer z s = Some s' \<and> zo_inv v written s' \<and> frame (concat (zo_chunks s')) = Some written"
  using assms(2)
proof (induction "zv_work v (zo_ctx s) []" arbitrary: s rule: less_induct)
  case less
  have mode: "ZSTD_e_end = ZSTD_e_end \<or> [] \<noteq> ([] :: bytes)" by simp
  show ?case
  proof (rule stream_step [OF laws less.prems mode])
    fix chunks n produced result ctx
    let ?s = "s\<lparr> zo_ctx := ctx, zo_chunks := add_to_last produced chunks \<rparr>"
    assume call: "with_room (zo_chunks s) = Some chunks"
      "zs_compress z (zo_ctx s) ZSTD_e_end (kChunkSize - length (last chunks)) [] = Some (n, produced, result, ctx)"
      and "zo_inv v (written @ take n []) ?s"
      and progress: "if ZSTD_e_end = ZSTD_e_end \<and> result = 0 then drop n ([] :: bytes) = [] \<and> frame (zv_out v ctx) = Some (zv_fed v ctx)
        else zv_work v ctx (drop n []) < zv_work v (zo_ctx s) []"
    then have inv: "zo_inv v written ?s" by simp
    show ?case
    proof (cases "result = 0")
      case True
      then have "frame (concat (zo_chunks ?s)) = Some written" using progress inv by (simp add: zo_inv_def)
      with call inv True show ?thesis by (subst FlushCompressorBuffer.simps) simp
    next
      case False
      with progress have "zv_work v (zo_ctx ?s) [] < zv_work v (zo_ctx s) []" by simp
      from less.hyps [OF this inv] call False show ?thesis by (subst FlushCompressorBuffer.simps) simp
    qed
  qed
qed

fun zstd_writes :: "'s zstd \<Rightarrow> bytes list \<Rightarrow> 's ZstdCompressedOutputStream \<Rightarrow> 's ZstdCompressedOutputStream option" where
  "zstd_writes z [] s = Some s"
| "zstd_writes z (d # ds) s = Option.bind (zstd_Write z d s) (zstd_writes z ds)"

lemma zstd_writes_ok:
  "zstd_laws frame v z \<Longrightarrow> zo_inv v written s \<Longrightarrow> \<exists>s'. zstd_writes z ds s = Some s' \<and> zo_inv v (written @ concat ds) s'"
proof (induction ds arbitrary: written s)
  case (Cons d ds)
  obtain s1 where "zstd_Write z d s = Some s1" "zo_inv v (written @ d) s1" using zstd_Write_ok Cons.prems by blast
  with Cons.IH [OF Cons.prems(1), of "written @ d" s1] show ?case by simp
qed simp


section \<open>Whole strings come back\<close>

lemma compress_loop_ok:
  assumes laws: "zstd_laws frame v z"
  shows "zv_ok v ctx \<Longrightarrow> zv_out v ctx = compressed \<Longrightarrow>
    \<exists>c. compress_loop z input compressed ctx = Some c \<and> frame c = Some (zv_fed v ctx @ input)"
proof (induction "zv_work v ctx input" arbitrary: input compressed ctx rule: less_induct)
  case less
  have "0 < zs_frame_size z" using zstd_laws_init [OF laws] by simp
  from zstd_laws_step [OF laws less.prems(1) this, of ZSTD_e_end input] obtain n produced result ctx' where step:
    "zs_compress z ctx ZSTD_e_end (zs_frame_size z) input = Some (n, produced, result, ctx')" "zv_ok v ctx'"
    "zv_fed v ctx' = zv_fed v ctx @ take n input" "zv_out v ctx' = zv_out v ctx @ produced"
    "if result = 0 then drop n input = [] \<and> frame (zv_out v ctx') = Some (zv_fed v ctx')
     else zv_work v ctx' (drop n input) < zv_work v ctx input" by metis
  show ?case
  proof (cases "result = 0")
    case True
    with step(5) have all: "drop n input = []" "frame (zv_out v ctx') = Some (zv_fed v ctx')" by simp_all
    from all(1) have "take n input = input" by simp
    with True all(2) step(1,3,4) less.prems(2) show ?thesis by (subst compress_loop.simps) simp
  next
    case False
    with step(5) have "zv_work v ctx' (drop n input) < zv_work v ctx input" by simp
    from less.hyps [OF this step(2), of "compressed @ produced"] False step(1,3,4) less.prems(2) show ?thesis
      by (subst compress_loop.simps) simp
  qed
qed

lemma decompress_loop_ok:
  assumes laws: "unzstd_laws frame v u"
  shows "zv_ok v ctx \<Longrightarrow> frame (zv_fed v ctx @ input) = Some content \<Longrightarrow> zv_out v ctx = decompressed \<Longrightarrow> input \<noteq> [] \<or> result \<noteq> 0 \<Longrightarrow>
    decompress_loop u input result decompressed ctx = Some content"
proof (induction "zv_work v ctx input" arbitrary: input result decompressed ctx rule: less_induct)
  case less
  have "0 < uz_frame_size u" using laws by (simp add: unzstd_laws_def)
  then obtain n produced result' ctx' where step: "uz_decompress u ctx (uz_frame_size u) input = Some (n, produced, result', ctx')"
    "zv_fed v ctx' = zv_fed v ctx @ take n input" "zv_out v ctx' = zv_out v ctx @ produced"
    "if result' = 0 then drop n input = [] \<and> zv_out v ctx' = content
     else zv_ok v ctx' \<and> zv_work v ctx' (drop n input) < zv_work v ctx input"
    using laws less.prems(1,2) unfolding unzstd_laws_def by meson
  have unfold: "decompress_loop u input result decompressed ctx = decompress_loop u (drop n input) result' (decompressed @ produced) ctx'"
    using step(1) less.prems(4) by (subst decompress_loop.simps) auto
  show ?case
  proof (cases "result' = 0")
    case True
    then show ?thesis unfolding unfold using step(3,4) less.prems(3) by (subst decompress_loop.simps) simp
  next
    case False
    with step(4) have later: "zv_ok v ctx'" "zv_work v ctx' (drop n input) < zv_work v ctx input" by simp_all
    show ?thesis unfolding unfold
      using less.hyps [OF later(2,1), of "decompressed @ produced" result'] step(2,3) less.prems(2,3) False by simp
  qed
qed

text \<open>Compressing a string and decompressing the result, both in pieces of any size, gives the string back; neither
  loops forever.\<close>

theorem compression_roundtrip:
  assumes "zstd_laws frame v z" and "unzstd_laws frame w u"
  shows "\<exists>compressed. CompressUsingZstd z input = Some compressed \<and> DecompressUsingZstd u compressed = Some input"
proof -
  have init: "zv_ok v (zs_init z)" "zv_fed v (zs_init z) = []" "zv_out v (zs_init z) = []"
    using zstd_laws_init [OF assms(1)] by simp_all
  obtain c where c: "CompressUsingZstd z input = Some c" "frame c = Some input"
    using compress_loop_ok [OF assms(1) init(1,3), of input] init(2) by (auto simp: CompressUsingZstd_def)
  have start: "zv_ok w (uz_init u)" "zv_fed w (uz_init u) = []" "zv_out w (uz_init u) = []" "frame [] = None"
    using assms(2) by (simp_all add: unzstd_laws_def)
  then have "c \<noteq> []" using c(2) by auto
  then have "DecompressUsingZstd u c = Some input"
    using decompress_loop_ok [OF assms(2) start(1), of c input "[]" 0] start(2,3) c(2) by (simp add: DecompressUsingZstd_def)
  with c(1) show ?thesis by blast
qed

text \<open>The digest the wrapper computes does not depend on how the source was written, and every stream behind a
  forwarding stream gets all of it.\<close>

lemma digest_of_writes: "bo_state (fold blake3_Write ds s) = bo_state s @ concat ds"
  by (induction ds arbitrary: s) (simp_all add: blake3_Write_def)

lemma forward_Write_each:
  "forward_Write z data ss = Some ss' \<longleftrightarrow> list_all2 (\<lambda>s s'. stream_Write z data s = Some s') ss ss'"
proof (induction ss arbitrary: ss')
  case (Cons s ss)
  then show ?case by (cases ss') (auto split: option.splits)
qed auto

section \<open>A library that stores\<close>

text \<open>Frames are strings with a mark in front. The state of the compressor is what it was fed, what it put out and what
  it still has to put out; it consumes all of its input.\<close>

type_synonym store = "bytes \<times> bytes \<times> bytes"

definition store_frame :: "bytes \<Rightarrow> bytes option" where
  "store_frame w = (case w of [] \<Rightarrow> None | c # x \<Rightarrow> if c = CHR ''Z'' then Some x else None)"

definition store_zstd :: "store zstd" where
  "store_zstd = \<lparr>
     zs_compress = (\<lambda>(fed, out, left) mode room input.
       let left' = left @ input in
       Some (length input, take room left', length (drop room left'), (fed @ input, out @ take room left', drop room left'))),
     zs_init = ([], [], ''Z''), zs_frame_size = 2 \<rparr>"

definition store_view :: "store zstd_view" where
  "store_view = \<lparr> zv_ok = (\<lambda>(fed, out, left). out @ left = ''Z'' @ fed), zv_fed = fst, zv_out = (\<lambda>s. fst (snd s)),
     zv_work = (\<lambda>s input. 2 * length input + length (snd (snd s))) \<rparr>"

text \<open>Putting out what there is room for.\<close>

lemma store_progress:
  fixes l :: bytes
  assumes "0 < room"
  shows "drop room l = [] \<Longrightarrow> take room l = l"
  using assms by simp

lemma store_laws: "zstd_laws store_frame store_view store_zstd"
proof -
  have "\<exists>n produced result s'. zs_compress store_zstd s mode room input = Some (n, produced, result, s') \<and>
      zv_ok store_view s' \<and> length produced \<le> room \<and> zv_fed store_view s' = zv_fed store_view s @ take n input \<and>
      zv_out store_view s' = zv_out store_view s @ produced \<and>
      (if mode = ZSTD_e_end \<and> result = 0 then drop n input = [] \<and> store_frame (zv_out store_view s') = Some (zv_fed store_view s')
       else zv_work store_view s' (drop n input) < zv_work store_view s input)"
    if ok: "zv_ok store_view s" and room: "0 < room" and mode: "mode = ZSTD_e_end \<or> input \<noteq> []" for s mode room input
  proof -
    obtain fed out left where s: "s = (fed, out, left)" by (cases s)
    define l where "l = left @ input"
    have call: "zs_compress store_zstd s mode room input =
        Some (length input, take room l, length (drop room l), (fed @ input, out @ take room l, drop room l))"
      by (simp only: s l_def store_zstd_def zstd.select_convs prod.case Let_def)
    have ok: "out @ left = CHR ''Z'' # fed" using ok by (simp add: s store_view_def)
    have l: "out @ l = CHR ''Z'' # fed @ input" using ok by (simp add: l_def flip: append_assoc)
    have "(if mode = ZSTD_e_end \<and> length (drop room l) = 0 then store_frame (out @ take room l) = Some (fed @ input)
        else length (drop room l) < 2 * length input + length left)"
    proof (cases "mode = ZSTD_e_end \<and> drop room l = []")
      case True
      with store_progress [OF room] l show ?thesis by (simp add: store_frame_def)
    next
      case False
      have "length (drop room l) < length l \<or> mode \<noteq> ZSTD_e_end" using False room by (cases l) auto
      moreover have "length (drop room l) \<le> length l" by simp
      moreover have "length l = length left + length input" by (simp add: l_def)
      moreover have "mode \<noteq> ZSTD_e_end \<Longrightarrow> 0 < length input" using mode by simp
      ultimately have "length (drop room l) < 2 * length input + length left" by (cases "mode = ZSTD_e_end") linarith+
      with False show ?thesis by auto
    qed
    then show ?thesis unfolding call using l by (auto simp: s store_view_def store_frame_def split: if_splits)
  qed
  then show ?thesis unfolding zstd_laws_def by (auto simp: store_zstd_def store_view_def)
qed

definition store_unzstd :: "store unzstd" where
  "store_unzstd = \<lparr>
     uz_decompress = (\<lambda>(fed, out, left) room input.
       let left' = left @ (if fed = [] then tl input else input) in
       Some (length input, take room left', length (drop room left'), (fed @ input, out @ take room left', drop room left'))),
     uz_init = ([], [], []), uz_frame_size = 2 \<rparr>"

definition unstore_view :: "store zstd_view" where
  "unstore_view = \<lparr> zv_ok = (\<lambda>(fed, out, left). if fed = [] then out = [] \<and> left = [] else ''Z'' @ out @ left = fed \<and> left \<noteq> []),
     zv_fed = fst, zv_out = (\<lambda>s. fst (snd s)), zv_work = (\<lambda>s input. 2 * length input + length (snd (snd s))) \<rparr>"

lemma unstore_laws: "unzstd_laws store_frame unstore_view store_unzstd"
  by (auto simp: unzstd_laws_def unstore_view_def store_unzstd_def store_frame_def Let_def simp del: take_append drop_append
      split: list.splits if_splits)


lemma compression_roundtrip_witness:
  "\<exists>compressed. CompressUsingZstd store_zstd ''int x;'' = Some compressed \<and> DecompressUsingZstd store_unzstd compressed = Some ''int x;''"
  using compression_roundtrip [OF store_laws unstore_laws] .

end
