(* ===== verification/Cxx_Compilation_Task.thy ===== *)
theory Cxx_Compilation_Task
  imports Distributed_Task_Dispatcher_Proofs
begin

text \<open>
  C++ compilations as tasks of the local dispatcher (\<^verbatim>\<open>daemon/local/distributed_task/cxx_compilation_task.cc\<close>)
  and the digests of compilers the clients report (\<^verbatim>\<open>daemon/local/file_digest_cache.cc\<close>). \<open>None\<close> is an
  abort or undefined behaviour.
\<close>

section \<open>Digests of files\<close>

record FileDigest =
  fd_size :: nat
  fd_mtime :: nat
  fd_hash :: string

type_synonym FileDigestCache = "string \<Rightarrow> FileDigest option"

definition digest_TryGet :: "string \<Rightarrow> nat \<Rightarrow> nat \<Rightarrow> FileDigestCache \<Rightarrow> string option option" where
  "digest_TryGet path sz mtime digests =
     (if path = [] \<or> hd path \<noteq> CHR ''/'' then None
      else Some (case digests path of
                   None \<Rightarrow> None
                 | Some d \<Rightarrow> if fd_size d = sz \<and> fd_mtime d = mtime then Some (fd_hash d) else None))"

definition digest_Set :: "string \<Rightarrow> nat \<Rightarrow> nat \<Rightarrow> string \<Rightarrow> FileDigestCache \<Rightarrow> FileDigestCache" where
  "digest_Set path sz mtime hash digests = digests(path \<mapsto> \<lparr>fd_size = sz, fd_mtime = mtime, fd_hash = hash\<rparr>)"

section \<open>The task\<close>

datatype http_error = BadRequest | InternalServerError

text \<open>The reply to the client; \<open>unpack\<close> extracts the patches by file extension from the extra
  information (missing ones are empty), which is there after a successful compilation only.\<close>

record 'p WaitForCxxTaskResponse =
  wr_exit_code :: int
  wr_output :: string
  wr_error :: string
  wr_file_extensions :: "string list"
  wr_patches :: "'p list"

definition RebuildOutput ::
  "(bytes \<Rightarrow> (string \<Rightarrow> 'p) option) \<Rightarrow> 'p \<Rightarrow> DistributedTaskOutput \<Rightarrow> http_error + ('p WaitForCxxTaskResponse \<times> bytes list)" where
  "RebuildOutput unpack empty_patch out =
     (let resp = \<lparr>wr_exit_code = to_exit_code out, wr_output = to_standard_output out, wr_error = to_standard_error out,
                  wr_file_extensions = [], wr_patches = []\<rparr>
      in if to_exit_code out < 0 then Inr (resp, [])
         else
           (case (if to_exit_code out = 0 then unpack (to_extra_info out) else Some (\<lambda>_. empty_patch)) of
              None \<Rightarrow> Inl InternalServerError
            | Some patches \<Rightarrow>
                Inr (resp\<lparr>wr_file_extensions := map fst (to_output_files out), wr_patches := map (patches \<circ> fst) (to_output_files out)\<rparr>,
                     map snd (to_output_files out))))"

record 'p CxxCompilationTask =
  ct_requestor_pid :: int
  ct_env_desc :: EnvironmentDesc
  ct_source_path :: string
  ct_source_digest :: string
  ct_invocation_arguments :: string
  ct_cache_control :: CacheControl
  ct_preprocessed_source :: bytes
  ct_output :: "(http_error + ('p WaitForCxxTaskResponse \<times> bytes list)) option"

record FileDesc =
  fs_path :: string
  fs_size :: nat
  fs_timestamp :: nat

record SubmitCxxTaskRequest =
  sq_requestor_process_id :: int
  sq_source_path :: string
  sq_source_digest :: string
  sq_compiler_invocation_arguments :: string
  sq_cache_control :: int
  sq_compiler :: FileDesc

definition cache_control_of :: "int \<Rightarrow> CacheControl" where
  "cache_control_of n = (if n = 0 then CacheDisallow else if n = 1 then CacheAllow else CacheRefill)"

text \<open>The first attachment is read without a check that there is one.\<close>

definition Prepare ::
  "FileDigestCache \<Rightarrow> SubmitCxxTaskRequest \<Rightarrow> bytes list \<Rightarrow> (http_error + 'p CxxCompilationTask) option" where
  "Prepare digests request attachments =
     (if sq_requestor_process_id request \<le> 1 \<or> sq_source_path request = [] \<or> sq_compiler_invocation_arguments request = []
         \<or> sq_cache_control request < 0 \<or> sq_cache_control request > 2
         \<or> (sq_cache_control request \<noteq> 0 \<and> sq_source_digest request = [])
      then Some (Inl BadRequest)
      else
        (case digest_TryGet (fs_path (sq_compiler request)) (fs_size (sq_compiler request)) (fs_timestamp (sq_compiler request)) digests of
           None \<Rightarrow> None
         | Some None \<Rightarrow> Some (Inl BadRequest)
         | Some (Some file_digest) \<Rightarrow>
             (case attachments of
                [] \<Rightarrow> None
              | source # _ \<Rightarrow>
                  Some (Inr \<lparr>ct_requestor_pid = sq_requestor_process_id request, ct_env_desc = \<lparr>ed_compiler_digest = file_digest\<rparr>,
                             ct_source_path = sq_source_path request, ct_source_digest = sq_source_digest request,
                             ct_invocation_arguments = sq_compiler_invocation_arguments request,
                             ct_cache_control = cache_control_of (sq_cache_control request),
                             ct_preprocessed_source = source, ct_output = None\<rparr>))))"

record QueueCxxCompilationTaskRequest =
  qc_token :: string
  qc_task_grant_id :: nat
  qc_env_desc :: EnvironmentDesc
  qc_source_path :: string
  qc_invocation_arguments :: string
  qc_compression_algorithm :: nat
  qc_disallow_cache_fill :: bool
  qc_attachment :: bytes

abbreviation COMPRESSION_ALGORITHM_ZSTD :: nat where "COMPRESSION_ALGORITHM_ZSTD \<equiv> 2"

text \<open>The request \<open>StartTask\<close> sends; the source is released on the way.\<close>

definition StartTask :: "string \<Rightarrow> nat \<Rightarrow> 'p CxxCompilationTask \<Rightarrow> QueueCxxCompilationTaskRequest \<times> 'p CxxCompilationTask" where
  "StartTask token grant_id t =
     (\<lparr>qc_token = token, qc_task_grant_id = grant_id, qc_env_desc = ct_env_desc t, qc_source_path = ct_source_path t,
       qc_invocation_arguments = ct_invocation_arguments t,
       qc_compression_algorithm = COMPRESSION_ALGORITHM_ZSTD, qc_disallow_cache_fill = (ct_cache_control t = CacheDisallow),
       qc_attachment = ct_preprocessed_source t\<rparr>,
      t\<lparr>ct_preprocessed_source := []\<rparr>)"

definition CxxCompilationTask_ops ::
  "flare \<Rightarrow> (string list \<Rightarrow> bytes) \<Rightarrow> (bytes \<Rightarrow> (string \<Rightarrow> 'p) option) \<Rightarrow> 'p \<Rightarrow> 'p CxxCompilationTask DistributedTask" where
  "CxxCompilationTask_ops fl Blake3_of unpack empty_patch =
     \<lparr>GetInvokerPid = ct_requestor_pid, GetCacheSetting = ct_cache_control,
      GetCacheKey = (\<lambda>t. GetCxxCacheEntryKey fl Blake3_of (ct_env_desc t) (ct_invocation_arguments t) (ct_source_digest t)),
      GetDigest = (\<lambda>t. GetCxxTaskDigest fl Blake3_of (ct_env_desc t) (ct_invocation_arguments t) (ct_source_digest t)),
      GetEnvironmentDesc = ct_env_desc, OnCompletion = (\<lambda>out t. t\<lparr>ct_output := Some (RebuildOutput unpack empty_patch out)\<rparr>)\<rparr>"

section \<open>Lemmas\<close>

lemma digest_get_set:
  "hd path = CHR ''/'' \<Longrightarrow> path \<noteq> [] \<Longrightarrow>
     digest_TryGet p sz mtime (digest_Set path sz' mtime' hash digests) =
     (if p = path then Some (if sz = sz' \<and> mtime = mtime' then Some hash else None) else digest_TryGet p sz mtime digests)"
  by (auto simp: digest_TryGet_def digest_Set_def)

text \<open>A prepared task carries the request unchanged, with the digest reported for exactly this compiler
  file; a relative path of the compiler or a missing attachment takes the daemon down.\<close>

lemma Prepare_accepts:
  assumes "Prepare digests request attachments = Some (Inr t)"
  shows "digest_TryGet (fs_path (sq_compiler request)) (fs_size (sq_compiler request)) (fs_timestamp (sq_compiler request)) digests =
      Some (Some (ed_compiler_digest (ct_env_desc t)))"
    "ct_requestor_pid t = sq_requestor_process_id request" "ct_requestor_pid t > 1" "ct_preprocessed_source t = hd attachments"
    "ct_cache_control t \<noteq> CacheDisallow \<longrightarrow> ct_source_digest t \<noteq> []"
  using assms by (auto simp: Prepare_def cache_control_of_def split: if_splits option.splits list.splits)

lemma Prepare_aborts:
  assumes "sq_requestor_process_id request > 1" "sq_source_path request \<noteq> []" "sq_compiler_invocation_arguments request \<noteq> []"
    "sq_cache_control request = 0"
  shows "Prepare digests request attachments = None \<longleftrightarrow>
     fs_path (sq_compiler request) = [] \<or> hd (fs_path (sq_compiler request)) \<noteq> CHR ''/'' \<or>
     (attachments = [] \<and> (\<exists>h. digest_TryGet (fs_path (sq_compiler request)) (fs_size (sq_compiler request)) (fs_timestamp (sq_compiler request)) digests = Some (Some h)))"
  using assms by (auto simp: Prepare_def digest_TryGet_def split: option.splits list.splits if_splits)

text \<open>What the client of a finished compilation is told: the output files of a successful one with one
  patch for each, and for every failure to run it a negative exit code without files.\<close>

lemma cxx_task_reply:
  assumes "ct_output t = Some (RebuildOutput unpack empty_patch out)" "ct_output t = Some (Inr (resp, files))"
  shows "wr_exit_code resp = to_exit_code out"
    "length (wr_patches resp) = length files" "length (wr_file_extensions resp) = length files"
    "to_exit_code out \<ge> 0 \<longrightarrow> zip (wr_file_extensions resp) files = to_output_files out"
    "to_exit_code out < 0 \<longrightarrow> files = []"
  using assms by (auto simp: RebuildOutput_def Let_def zip_map_fst_snd split: if_splits option.splits)

end
