(* ===== verification/Compiler_Identity.thy ===== *)
theory Compiler_Identity
  imports File_Io Output_Stream Cxx_Compilation_Task
begin

text \<open>
  How the compiler of a task is identified: the wrapper stats it (\<open>GetMtimeAndSize\<close>) and digests it (\<open>Blake3Digest\<close>, both
  of \<^verbatim>\<open>client/common/utility.cc\<close>), the daemon remembers the digest under path, size and time
  (\<^verbatim>\<open>daemon/local/file_digest_cache.cc\<close>), and servants look their compilers up by it. Symbolic links matter here: they
  are nodes of type \<open>DT_LNK\<close> whose bytes are the target. Also the directory helpers of \<^verbatim>\<open>client/common/io.cc\<close>.
\<close>

section \<open>Links\<close>

abbreviation DT_LNK :: nat where "DT_LNK \<equiv> 10"

definition link_target :: "string \<Rightarrow> string \<Rightarrow> string" where
  "link_target path target =
     (if target \<noteq> [] \<and> hd target = slash then target else before_last_slash path @ [slash] @ target)"

text \<open>Opening a file follows at most 40 links (\<open>ELOOP\<close>); links to directories on the way are not followed here.\<close>

primrec follow_links :: "nat \<Rightarrow> string \<Rightarrow> filesystem \<Rightarrow> string option" where
  "follow_links 0 path fs = None"
| "follow_links (Suc n) path fs =
     (case map_of fs path of
        None \<Rightarrow> None
      | Some Directory \<Rightarrow> Some path
      | Some (FileNode t b _) \<Rightarrow> if t = DT_LNK then follow_links n (link_target path b) fs else Some path)"

definition open_path :: "string \<Rightarrow> filesystem \<Rightarrow> string option" where
  "open_path path fs = follow_links 41 path fs"

section \<open>The wrapper's helpers\<close>

text \<open>\<open>lstat\<close> describes a link itself. The time is in seconds, as an unsigned number; what directories report is an argument.\<close>

definition GetMtimeAndSize :: "nat \<times> nat \<Rightarrow> string \<Rightarrow> filesystem \<Rightarrow> (nat \<times> nat) option" where
  "GetMtimeAndSize dir_stat path fs =
     (case map_of fs path of
        None \<Rightarrow> None
      | Some Directory \<Rightarrow> Some dir_stat
      | Some (FileNode _ b m) \<Rightarrow> Some (nat ((m div 10 ^ 9) mod 2 ^ 64), length b))"

definition Blake3Digest :: "flare \<Rightarrow> string \<Rightarrow> filesystem \<Rightarrow> string option" where
  "Blake3Digest fl path fs =
     map_option (\<lambda>data. concat (map (\<lambda>c. [hex_digit (of_char c div 16), hex_digit (of_char c mod 16)]) (fl_Blake3 fl data)))
       (Option.bind (open_path path fs) (\<lambda>p. client_ReadAll p fs))"

definition client_Mkdirs :: "string \<Rightarrow> filesystem \<Rightarrow> filesystem option" where
  "client_Mkdirs path fs =
     run_calls mkdir_if_missing
       (map (\<lambda>i. take i path) (filter (\<lambda>i. path ! i = slash) [1..<length path]) @ [path]) fs"

text \<open>The recursion is as deep as the tree; the fuel is enough for every file system (\<open>client_RemoveDirs_correct\<close>).\<close>

primrec client_RemoveDirs_fuel :: "nat \<Rightarrow> string \<Rightarrow> filesystem \<Rightarrow> filesystem option" where
  "client_RemoveDirs_fuel 0 path fs = None"
| "client_RemoveDirs_fuel (Suc n) path fs =
     (if is_directory fs path then
        Option.bind
          (run_calls
             (\<lambda>fullname fs1. case fs_unlink fullname fs1 of
                Some fs2 \<Rightarrow> Some fs2
              | None \<Rightarrow> if is_directory fs1 fullname then client_RemoveDirs_fuel n fullname fs1 else None)
             (map (\<lambda>e. path @ [slash] @ fst e) (readdir path fs)) fs)
          (fs_rmdir path)
      else None)"

definition client_RemoveDirs :: "string \<Rightarrow> filesystem \<Rightarrow> filesystem option" where
  "client_RemoveDirs path fs = client_RemoveDirs_fuel (Suc (longest_path fs)) path fs"

section \<open>The two sides agree\<close>

text \<open>The wrapper's copies of the directory helpers are those of the daemon.\<close>

lemma client_RemoveDirs_fuel_eq: "client_RemoveDirs_fuel n = RemoveDirs_fuel n"
proof (induction n)
  case (Suc n)
  show ?case unfolding client_RemoveDirs_fuel.simps RemoveDirs_fuel.simps Suc.IH fun_eq_iff by (auto split: option.splits)
qed (intro ext, simp)

lemma client_RemoveDirs_correct:
  assumes "fs_wf fs" "is_directory fs path" "path \<noteq> []"
  shows "client_RemoveDirs path fs = Some (prune path fs)"
  using RemoveDirs_correct [OF assms] by (simp add: client_RemoveDirs_def RemoveDirs_def client_RemoveDirs_fuel_eq)

lemma client_Mkdirs_eq: "client_Mkdirs = Mkdirs"
  by (intro ext) (simp add: client_Mkdirs_def Mkdirs_def)

text \<open>A file is digested like a source: however it would be cut into pieces for the stream, the digest is the same.\<close>

lemma Blake3Digest_stream:
  assumes "open_path path fs = Some p" "file_bytes fs p = Some (concat ds)" "bo_state s = []"
  shows "Blake3Digest fl path fs = Some (GetSourceDigest (blake3_Finalize fl (fold blake3_Write ds s)))"
  using assms digest_of_writes [of ds s]
  by (simp add: Blake3Digest_def client_ReadAll_def GetSourceDigest_def blake3_Finalize_def)

text \<open>The printed digest determines the digest.\<close>

lemma hex_digit_inject: "m < 16 \<Longrightarrow> n < 16 \<Longrightarrow> hex_digit m = hex_digit n \<longleftrightarrow> m = n"
proof -
  have "distinct ''0123456789abcdef''" by simp
  then show "m < 16 \<Longrightarrow> n < 16 \<Longrightarrow> ?thesis" unfolding hex_digit_def by (simp add: nth_eq_iff_index_eq)
qed

lemma hex_char_inject:
  assumes "hex_digit (of_char c div 16) = hex_digit (of_char d div 16)" "hex_digit (of_char c mod 16) = hex_digit (of_char d mod 16)"
  shows "(c :: char) = d"
proof -
  have "of_char x div 16 < (16 :: nat)" for x :: char using nat_of_char_less_256 [of x] by (intro less_mult_imp_div_less) simp
  then have "of_char c div 16 = (of_char d div 16 :: nat)" "of_char c mod 16 = (of_char d mod 16 :: nat)"
    using assms hex_digit_inject by (simp_all add: hex_digit_inject)
  then have "of_char c = (of_char d :: nat)" by (metis div_mult_mod_eq)
  then show ?thesis by simp
qed

lemma hex_inject:
  "concat (map (\<lambda>c :: char. [hex_digit (of_char c div 16), hex_digit (of_char c mod 16)]) xs)
     = concat (map (\<lambda>c. [hex_digit (of_char c div 16), hex_digit (of_char c mod 16)]) ys) \<Longrightarrow> xs = ys"
proof (induction xs arbitrary: ys)
  case (Cons x xs)
  then show ?case by (cases ys) (auto intro: hex_char_inject)
qed simp

section \<open>Digests and the files they are of\<close>

lemma follow_file: "map_of fs path = Some (FileNode t b m) \<Longrightarrow> t \<noteq> DT_LNK \<Longrightarrow> 0 < n \<Longrightarrow> follow_links n path fs = Some path"
  by (cases n) simp_all

lemma follow_link:
  "map_of fs path = Some (FileNode DT_LNK b m) \<Longrightarrow> 0 < n \<Longrightarrow> follow_links n path fs = follow_links (n - 1) (link_target path b) fs"
  by (cases n) simp_all

text \<open>What a wrapper that is told that the compiler is unknown reports to the daemon.\<close>

definition report_digest :: "flare \<Rightarrow> nat \<times> nat \<Rightarrow> string \<Rightarrow> filesystem \<Rightarrow> FileDigestCache \<Rightarrow> FileDigestCache option" where
  "report_digest fl dir_stat path fs digests =
     (case (GetMtimeAndSize dir_stat path fs, Blake3Digest fl path fs) of
        (Some (mtime, sz), Some digest) \<Rightarrow> Some (digest_Set path sz mtime digest digests)
      | _ \<Rightarrow> None)"

abbreviation regular_at :: "string \<Rightarrow> filesystem \<Rightarrow> bool" where
  "regular_at path fs \<equiv> (\<exists>b m. map_of fs path = Some (FileNode DT_REG b m))"

lemma Blake3Digest_regular:
  "map_of fs path = Some (FileNode DT_REG b m) \<Longrightarrow>
     Blake3Digest fl path fs = Some (concat (map (\<lambda>c. [hex_digit (of_char c div 16), hex_digit (of_char c mod 16)]) (fl_Blake3 fl b)))"
  by (simp add: Blake3Digest_def open_path_def follow_file client_ReadAll_def file_bytes_def)

lemma Blake3Digest_link:
  assumes "map_of fs path = Some (FileNode DT_LNK target m)" "map_of fs (link_target path target) = Some (FileNode DT_REG b k)"
  shows "Blake3Digest fl path fs = Blake3Digest fl (link_target path target) fs"
  using assms by (simp add: Blake3Digest_def open_path_def follow_link follow_file)

lemma report_digest_at:
  assumes "report_digest fl dir_stat path fs digests = Some digests'"
  shows "\<exists>mtime sz digest. GetMtimeAndSize dir_stat path fs = Some (mtime, sz) \<and> Blake3Digest fl path fs = Some digest
    \<and> digests' path = Some \<lparr>fd_size = sz, fd_mtime = mtime, fd_hash = digest\<rparr>"
  using assms by (auto simp: report_digest_def digest_Set_def split: option.splits prod.splits)

text \<open>An entry of the cache comes from one of the reports.\<close>

lemma report_digests_from:
  assumes "run_calls (report_digest fl dir_stat path) fss digests = Some digests'" "digests' path \<noteq> digests path"
  shows "\<exists>fs\<in>set fss. \<exists>mtime sz digest. GetMtimeAndSize dir_stat path fs = Some (mtime, sz) \<and> Blake3Digest fl path fs = Some digest
    \<and> digests' path = Some \<lparr>fd_size = sz, fd_mtime = mtime, fd_hash = digest\<rparr>"
  using assms
proof (induction fss arbitrary: digests)
  case (Cons fs fss)
  then obtain d1 where d1: "report_digest fl dir_stat path fs digests = Some d1" "run_calls (report_digest fl dir_stat path) fss d1 = Some digests'"
    by (auto split: option.splits)
  show ?case
  proof (cases "digests' path = d1 path")
    case True
    with report_digest_at [OF d1(1)] show ?thesis by auto
  next
    case False
    with Cons.IH [OF d1(2)] show ?thesis by auto
  qed
qed simp

text \<open>Through any history of reports about a compiler that is a file of its own, the digest the daemon finds for what a
  wrapper sees now is that of the compiler as it is now. A compiler that is replaced by another one has another size or
  another time, in seconds.\<close>

theorem compiler_digest_current:
  assumes reports: "run_calls (report_digest fl dir_stat path) fss Map.empty = Some digests"
    and regular: "regular_at path fs" "\<forall>old\<in>set fss. regular_at path old"
    and replaced: "\<forall>old\<in>set fss. GetMtimeAndSize dir_stat path old = GetMtimeAndSize dir_stat path fs \<longrightarrow> file_bytes old path = file_bytes fs path"
    and seen: "GetMtimeAndSize dir_stat path fs = Some (mtime, sz)" "digest_TryGet path sz mtime digests = Some (Some digest)"
  shows "Blake3Digest fl path fs = Some digest"
proof -
  have entry: "digests path = Some \<lparr>fd_size = sz, fd_mtime = mtime, fd_hash = digest\<rparr>"
    using seen(2) by (auto simp: digest_TryGet_def split: if_splits option.splits)
  then have "digests path \<noteq> Map.empty path" by simp
  from report_digests_from [OF reports this] entry obtain old where old: "old \<in> set fss"
    "GetMtimeAndSize dir_stat path old = Some (mtime, sz)" "Blake3Digest fl path old = Some digest" by auto
  obtain b m where b: "map_of fs path = Some (FileNode DT_REG b m)" using regular(1) by blast
  obtain b' m' where b': "map_of old path = Some (FileNode DT_REG b' m')" using regular(2) old(1) by blast
  have "file_bytes old path = file_bytes fs path" using replaced [rule_format, OF old(1)] old(2) seen(1) by simp
  then have "b' = b" by (simp add: file_bytes_def b b')
  then show ?thesis using old(3) unfolding Blake3Digest_regular [OF b] Blake3Digest_regular [OF b'] by simp
qed

text \<open>A compiler found through a symbolic link is described by the link but digested by its target: as long as the link is
  not touched, the daemon answers with the digest reported first, whatever the link leads to by now.\<close>

theorem linked_compiler_digest_stale:
  assumes "report_digest fl dir_stat path old digests = Some digests'" "prefix ''/'' path"
    and "map_of old path = Some (FileNode DT_LNK target m)" "map_of fs path = Some (FileNode DT_LNK target m)"
    and "GetMtimeAndSize dir_stat path fs = Some (mtime, sz)"
  shows "digest_TryGet path sz mtime digests' = Some (Blake3Digest fl path old)"
proof -
  have "GetMtimeAndSize dir_stat path old = GetMtimeAndSize dir_stat path fs" using assms(3,4) by (simp add: GetMtimeAndSize_def)
  with report_digest_at [OF assms(1)] assms(5) obtain digest where
    "Blake3Digest fl path old = Some digest" "digests' path = Some \<lparr>fd_size = sz, fd_mtime = mtime, fd_hash = digest\<rparr>" by auto
  then show ?thesis using assms(2) by (auto simp: digest_TryGet_def prefix_def)
qed

section \<open>An update\<close>

definition demo_compiler :: "string \<Rightarrow> time_point \<Rightarrow> filesystem" where
  "demo_compiler version m =
     [(''/bin/g++'', FileNode DT_LNK ''g++-9'' 0), (''/bin/g++-9'', FileNode DT_REG version m), (''/bin'', Directory)]"

lemma demo_nodes:
  "map_of (demo_compiler version m) ''/bin/g++'' = Some (FileNode DT_LNK ''g++-9'' 0)"
  "map_of (demo_compiler version m) ''/bin/g++-9'' = Some (FileNode DT_REG version m)"
  by (simp_all add: demo_compiler_def)

lemma demo_target: "link_target ''/bin/g++'' ''g++-9'' = ''/bin/g++-9''"
  by (simp add: link_target_def before_last_slash_def)

lemma demo_digest:
  "Blake3Digest fl ''/bin/g++-9'' (demo_compiler version m)
    = Some (concat (map (\<lambda>c. [hex_digit (of_char c div 16), hex_digit (of_char c mod 16)]) (fl_Blake3 fl version)))"
  "Blake3Digest fl ''/bin/g++'' (demo_compiler version m) = Blake3Digest fl ''/bin/g++-9'' (demo_compiler version m)"
  by (rule Blake3Digest_regular [OF demo_nodes(2)],
      rule Blake3Digest_link [OF demo_nodes(1), unfolded demo_target, OF demo_nodes(2)])

lemma demo_stat:
  "GetMtimeAndSize d ''/bin/g++'' (demo_compiler version m) = Some (0, 5)"
  "GetMtimeAndSize d ''/bin/g++-9'' (demo_compiler version (k * 10 ^ 9)) = Some (nat (k mod 2 ^ 64), length version)"
  unfolding GetMtimeAndSize_def demo_nodes by simp_all

lemma demo_reports:
  "\<exists>digests'. report_digest fl (0, 0) ''/bin/g++'' (demo_compiler version m) digests = Some digests'"
  "\<exists>digests'. report_digest fl (0, 0) ''/bin/g++-9'' (demo_compiler version m) digests = Some digests'"
  unfolding report_digest_def demo_digest by (simp_all add: GetMtimeAndSize_def demo_nodes)

lemma compiler_digest_current_witness:
  "\<exists>digests. run_calls (report_digest reference_flare (0, 0) ''/bin/g++-9'') [demo_compiler ''v1'' 0, demo_compiler ''v2'' (10 ^ 9)] Map.empty = Some digests
    \<and> digest_TryGet ''/bin/g++-9'' 2 1 digests = Some (Blake3Digest reference_flare ''/bin/g++-9'' (demo_compiler ''v2'' (10 ^ 9)))"
proof -
  obtain d1 where d1: "report_digest reference_flare (0, 0) ''/bin/g++-9'' (demo_compiler ''v1'' 0) Map.empty = Some d1"
    using demo_reports(2) by blast
  obtain d2 where d2: "report_digest reference_flare (0, 0) ''/bin/g++-9'' (demo_compiler ''v2'' (10 ^ 9)) d1 = Some d2"
    using demo_reports(2) by blast
  have run: "run_calls (report_digest reference_flare (0, 0) ''/bin/g++-9'') [demo_compiler ''v1'' 0, demo_compiler ''v2'' (10 ^ 9)] Map.empty = Some d2"
    using d1 d2 by simp
  note stat = demo_stat(2) [of "(0, 0)" "''v2''" 1, simplified]
  obtain digest where look: "digest_TryGet ''/bin/g++-9'' 2 1 d2 = Some (Some digest)"
    using report_digest_at [OF d2] stat by (auto simp: digest_TryGet_def)
  have "Blake3Digest reference_flare ''/bin/g++-9'' (demo_compiler ''v2'' (10 ^ 9)) = Some digest"
    by (rule compiler_digest_current [OF run _ _ _ _ look])
      (use stat demo_stat(2) [of "(0, 0)" "''v1''" 0, simplified] demo_nodes(2) in auto)
  with run look show ?thesis by auto
qed

text \<open>After the update the compiler is found under the digest of the compiler that is gone.\<close>

lemma linked_compiler_digest_stale_witness:
  "\<exists>digests. report_digest reference_flare (0, 0) ''/bin/g++'' (demo_compiler ''v1'' 0) Map.empty = Some digests
    \<and> digest_TryGet ''/bin/g++'' 5 0 digests = Some (Blake3Digest reference_flare ''/bin/g++'' (demo_compiler ''v1'' 0))
    \<and> Blake3Digest reference_flare ''/bin/g++'' (demo_compiler ''v1'' 0) \<noteq> Blake3Digest reference_flare ''/bin/g++'' (demo_compiler ''v2'' (10 ^ 9))"
proof -
  obtain digests where d: "report_digest reference_flare (0, 0) ''/bin/g++'' (demo_compiler ''v1'' 0) Map.empty = Some digests"
    using demo_reports(1) by blast
  have "digest_TryGet ''/bin/g++'' 5 0 digests = Some (Blake3Digest reference_flare ''/bin/g++'' (demo_compiler ''v1'' 0))"
    by (rule linked_compiler_digest_stale [OF d, where fs = "demo_compiler ''v2'' (10 ^ 9)"]) (simp, rule demo_nodes, rule demo_nodes, rule demo_stat)
  moreover have "fl_Blake3 reference_flare ''v1'' \<noteq> fl_Blake3 reference_flare ''v2''" by code_simp
  then have "Blake3Digest reference_flare ''/bin/g++'' (demo_compiler ''v1'' 0) \<noteq> Blake3Digest reference_flare ''/bin/g++'' (demo_compiler ''v2'' (10 ^ 9))"
    unfolding demo_digest using hex_inject by blast
  ultimately show ?thesis using d by blast
qed

end
