(* ===== verification/Compiler_Args.thy ===== *)
theory Compiler_Args
  imports Multi_Chunk "HOL-Library.Multiset"
begin

text \<open>
  The command line of the compiler as the wrapper sees it: escaping for a shell
  (\<^verbatim>\<open>client/common/escape.cc\<close>), the rewritten command line (\<^verbatim>\<open>client/common/rewritten_args.cc\<close>) and the
  parsed one (\<^verbatim>\<open>client/cxx/compiler_args.cc\<close>). A failed \<open>CHECK\<close> and a read past the end of \<open>argv\<close>
  are the value \<open>None\<close>.
\<close>

section \<open>Escaping\<close>

text \<open>The control characters with a letter of their own, and the characters that get a backslash.\<close>

definition escape_letters :: "(char \<times> char) list" where
  "escape_letters =
     [(CHR 0x07, CHR ''a''), (CHR 0x08, CHR ''b''), (CHR 0x0C, CHR ''f''), (CHR 0x0A, CHR ''n''),
      (CHR 0x0D, CHR ''r''), (CHR 0x09, CHR ''t''), (CHR 0x0B, CHR ''v'')]"

definition escape_specials :: string where
  "escape_specials = '' ><!'' @ [CHR 0x22] @ ''#$&()*,:;?@['' @ [CHR 0x5C] @ '']'' @ [CHR 0x60] @ ''{}''"

definition escape_char :: "char \<Rightarrow> string" where
  "escape_char c =
     (case map_of escape_letters c of
        Some l \<Rightarrow> [CHR 0x5C, l]
      | None \<Rightarrow> if c \<in> set escape_specials then [CHR 0x5C, c] else [c])"

definition EscapeCommandArgument :: "string \<Rightarrow> string" where
  "EscapeCommandArgument str = concat (map escape_char str)"

section \<open>Rewritten arguments\<close>

record RewrittenArgs =
  ra_program :: string
  ra_args :: "string list"

definition ToCommandLine :: "RewrittenArgs \<Rightarrow> bool \<Rightarrow> string" where
  "ToCommandLine r with_program =
     (let result = (if with_program then ra_program r @ '' '' else []) @
                   concat (map (\<lambda>e. EscapeCommandArgument e @ '' '') (ra_args r))
      in if result = [] then [] else butlast result)"

definition ra_ToString :: "RewrittenArgs \<Rightarrow> string" where
  "ra_ToString r = ra_program r @ concat (map (\<lambda>e. '' '' @ e) (ra_args r))"

section \<open>Parsed arguments\<close>

definition kOneValueArguments :: "string list" where
  "kOneValueArguments =
    [''-o'', ''-x'', ''-dyld-prefix'', ''-gcc-toolchain'', ''--param'', ''--sysroot'',
     ''--system-header-prefix'', ''-target'', ''--assert'', ''--allowable_client'', ''-arch'',
     ''-arch_only'', ''-arcmt-migrate-report-output'', ''--prefix'', ''-bundle_loader'', ''-dependency-dot'',
     ''-dependency-file'', ''-dylib_file'', ''-exported_symbols_list'', ''--bootclasspath'', ''--CLASSPATH'',
     ''--classpath'', ''--resource'', ''--encoding'', ''--extdirs'', ''-filelist'',
     ''-fmodule-implementation-of'', ''-fmodule-name'', ''-fmodules-user-build-path'', ''-fnew-alignment'',
     ''-force_load'', ''--output-class-directory'', ''-framework'', ''-frewrite-map-file'',
     ''-ftrapv-handler'', ''-image_base'', ''-init'', ''-install_name'', ''-lazy_framework'',
     ''-lazy_library'', ''-meabi'', ''-mhwdiv'', ''-mllvm'', ''-module-dependency-dir'', ''-mthread-model'',
     ''-multiply_defined'', ''-multiply_defined_unused'', ''-rpath'', ''--rtlib'', ''-seg_addr_table'',
     ''-seg_addr_table_filename'', ''-segs_read_only_addr'', ''-segs_read_write_addr'',
     ''-serialize-diagnostics'', ''--serialize-diagnostics'', ''-std'', ''--stdlib'', ''--force-link'',
     ''-umbrella'', ''-unexported_symbols_list'', ''-weak_library'', ''-weak_reference_mismatches'', ''-B'',
     ''-D'', ''-U'', ''-I'', ''-i'', ''--include-directory'', ''-L'', ''-l'', ''--library-directory'',
     ''-MF'', ''-MT'', ''-MQ'', ''-cxx-isystem'', ''-c-isystem'', ''-idirafter'',
     ''--include-directory-after'', ''-iframework'', ''-iframeworkwithsysroot'', ''-imacros'',
     ''-imultilib'', ''-iprefix'', ''--include-prefix'', ''-iquote'', ''-include'', ''-include-pch'',
     ''-isysroot'', ''-isystem'', ''-isystem-after'', ''-ivfsoverlay'', ''-iwithprefix'',
     ''--include-with-prefix'', ''--include-with-prefix-after'', ''-iwithprefixbefore'',
     ''--include-with-prefix-before'', ''-iwithsysroot'']"

record CompilerArgs =
  ca_compiler :: string
  ca_args :: "(string \<times> string list) list"
  ca_filenames :: "string list"
  ca_rebuilt :: string

definition empty_CompilerArgs :: CompilerArgs where
  "empty_CompilerArgs = \<lparr> ca_compiler = [], ca_args = [], ca_filenames = [], ca_rebuilt = [] \<rparr>"

text \<open>The first loop of the constructor. When the last argument is one that takes a value, the index
  jumps over \<open>argc\<close> and the loop reads on behind the end of \<open>argv\<close>.\<close>

fun CompilerArgs_loop :: "string list \<Rightarrow> CompilerArgs \<Rightarrow> CompilerArgs option" where
  "CompilerArgs_loop [] c = Some c"
| "CompilerArgs_loop (a # rest) c =
     (if a \<in> set kOneValueArguments then
        (case rest of
           [] \<Rightarrow> None
         | v # rest' \<Rightarrow> CompilerArgs_loop rest' (c\<lparr>ca_args := ca_args c @ [(a, [v])]\<rparr>))
      else if a \<noteq> [] \<and> hd a = CHR ''-'' then CompilerArgs_loop rest (c\<lparr>ca_args := ca_args c @ [(a, [])]\<rparr>)
      else CompilerArgs_loop rest (c\<lparr>ca_filenames := ca_filenames c @ [a]\<rparr>))"

definition make_CompilerArgs :: "string list \<Rightarrow> CompilerArgs option" where
  "make_CompilerArgs argv =
     (if argv = [] then None
      else
        (case CompilerArgs_loop argv empty_CompilerArgs of
           None \<Rightarrow> None
         | Some c \<Rightarrow> Some (c\<lparr>ca_rebuilt := butlast (concat (map (\<lambda>a. EscapeCommandArgument a @ '' '') argv))\<rparr>)))"

definition SetCompiler :: "CompilerArgs \<Rightarrow> string \<Rightarrow> CompilerArgs" where
  "SetCompiler c path = c\<lparr>ca_compiler := path\<rparr>"

definition ca_Rebuild :: "CompilerArgs \<Rightarrow> string" where
  "ca_Rebuild c = ca_compiler c @ '' '' @ ca_rebuilt c"

definition TryGet :: "CompilerArgs \<Rightarrow> string \<Rightarrow> string list option" where
  "TryGet c key = map_of (ca_args c) key"

definition TryGetByPrefix :: "CompilerArgs \<Rightarrow> string \<Rightarrow> string list option" where
  "TryGetByPrefix c pre = map_option snd (find (\<lambda>(k, v). client_StartsWith k pre) (ca_args c))"

definition find_last_of :: "string \<Rightarrow> char \<Rightarrow> nat option" where
  "find_last_of s c =
     (if c \<in> set s then Some (length s - 1 - length (takeWhile (\<lambda>d. d \<noteq> c) (rev s))) else None)"

text \<open>\<open>if (auto pos = path.find_last_of('/'))\<close> is false at position 0 and true when there is no slash,
  where \<open>npos + 1\<close> is 0.\<close>

definition GetOutputFile :: "CompilerArgs \<Rightarrow> string option" where
  "GetOutputFile c =
     (case TryGet c ''-o'' of
        Some opt \<Rightarrow> (case opt of [] \<Rightarrow> None | v # _ \<Rightarrow> Some v)
      | None \<Rightarrow>
          (case ca_filenames c of
             [filename] \<Rightarrow>
               (let path = (case find_last_of filename CHR ''.'' of None \<Rightarrow> filename | Some p \<Rightarrow> take p filename);
                    path' = (case find_last_of path CHR ''/'' of
                               None \<Rightarrow> path
                             | Some pos \<Rightarrow> if pos = 0 then path else drop (pos + 1) path)
                in Some (path' @ ''.o''))
           | _ \<Rightarrow> None))"

definition Rewrite :: "CompilerArgs \<Rightarrow> string list \<Rightarrow> string list \<Rightarrow> string list \<Rightarrow> bool \<Rightarrow> RewrittenArgs" where
  "Rewrite c remove remove_prefix add keep_filenames =
     \<lparr> ra_program = ca_compiler c,
       ra_args =
         concat (map (\<lambda>(k, v). k # v)
           (filter (\<lambda>(k, v). k \<notin> set remove \<and> \<not> list_ex (client_StartsWith k) remove_prefix) (ca_args c)))
         @ add @ (if keep_filenames then ca_filenames c else []) \<rparr>"

section \<open>Specification: reading a command line\<close>

text \<open>
  How a POSIX shell splits a line of unquoted words: blanks separate words, a backslash keeps the next
  character (and removes a line break), and a line in which an operator, a quote, an expansion or a
  pattern is left unquoted is more than a list of words, the value \<open>None\<close>.
\<close>

definition shell_active :: string where
  "shell_active = ''|&;<>()$*?[{}!'' @ [CHR 0x60, CHR 0x22, CHR 0x27, CHR 0x0A]"

fun shell_lex :: "string \<Rightarrow> string option \<Rightarrow> string list option" where
  "shell_lex [] cur = Some (case cur of None \<Rightarrow> [] | Some w \<Rightarrow> [w])"
| "shell_lex (c # cs) cur =
     (if c = CHR 0x5C then
        (case cs of
           [] \<Rightarrow> None
         | d # ds \<Rightarrow> if d = CHR 0x0A then shell_lex ds cur else shell_lex ds (Some (case_option [] id cur @ [d])))
      else if c = CHR '' '' \<or> c = CHR 0x09 then
        (case cur of None \<Rightarrow> shell_lex cs None | Some w \<Rightarrow> map_option (Cons w) (shell_lex cs None))
      else if c \<in> set shell_active \<or> (cur = None \<and> (c = CHR ''~'' \<or> c = CHR ''#'')) then None
      else shell_lex cs (Some (case_option [] id cur @ [c])))"

definition shell_words :: "string \<Rightarrow> string list option" where
  "shell_words s = shell_lex s None"

text \<open>The characters that the escaping does not carry through a shell.\<close>

definition unescaped :: string where
  "unescaped = map fst escape_letters @ [CHR ''|'', CHR 0x27, CHR ''~'']"

lemmas escape_tables = escape_letters_def escape_specials_def shell_active_def unescaped_def

lemma escape_char_lex:
  assumes "c \<notin> set unescaped"
  shows "shell_lex (escape_char c @ rest) cur = shell_lex rest (Some (case_option [] id cur @ [c]))"
proof -
  have "map_of escape_letters c = None"
    using assms by (simp add: unescaped_def map_of_eq_None_iff)
  moreover have "c \<noteq> CHR 0x0A" using assms by (auto simp: escape_tables)
  moreover have "c \<notin> set escape_specials \<Longrightarrow> c \<noteq> CHR 0x5C \<and> c \<noteq> CHR '' '' \<and> c \<noteq> CHR 0x09 \<and> c \<notin> set shell_active \<and> c \<noteq> CHR ''~'' \<and> c \<noteq> CHR ''#''"
    using assms by (auto simp: escape_tables)
  ultimately show ?thesis by (auto simp: escape_char_def)
qed

lemma escape_lex:
  "set a \<inter> set unescaped = {} \<Longrightarrow>
     shell_lex (EscapeCommandArgument a @ rest) cur = shell_lex rest (if a = [] then cur else Some (case_option [] id cur @ a))"
  by (induction a arbitrary: cur) (auto simp: EscapeCommandArgument_def escape_char_lex)

lemma escape_words_lex:
  assumes "\<And>a. a \<in> set (x # xs) \<Longrightarrow> set a \<inter> set unescaped = {}"
  shows "shell_lex (EscapeCommandArgument x @ concat (map (\<lambda>e. CHR '' '' # EscapeCommandArgument e) xs)) None
       = Some (filter (\<lambda>a. a \<noteq> []) (x # xs))"
  using assms
proof (induction xs arbitrary: x)
  case (Cons y ys)
  then have "shell_lex (EscapeCommandArgument y @ concat (map (\<lambda>e. CHR '' '' # EscapeCommandArgument e) ys)) None
       = Some (filter (\<lambda>a. a \<noteq> []) (y # ys))" by simp
  then show ?case using Cons.prems [of x] by (simp add: escape_lex)
qed (use escape_lex [where rest = "[]"] in simp)

lemma ToCommandLine_words:
  "ToCommandLine r False =
     (case ra_args r of
        [] \<Rightarrow> []
      | x # xs \<Rightarrow> EscapeCommandArgument x @ concat (map (\<lambda>e. CHR '' '' # EscapeCommandArgument e) xs))"
  using butlast_sizes [of EscapeCommandArgument "CHR '' ''"]
  by (simp add: ToCommandLine_def Let_def split: list.split)



text \<open>What the escaping loses: a tab becomes the letter t, and quotes and pipes stay active.\<close>

theorem escape_losses:
  "shell_words (EscapeCommandArgument [CHR ''a'', CHR 0x09, CHR ''b'']) = Some [''atb'']"
  "shell_words (EscapeCommandArgument [CHR ''a'', CHR 0x27, CHR ''b'']) = None"
  "shell_words (EscapeCommandArgument ''a|b'') = None"
  by code_simp+

section \<open>Parsing and rewriting\<close>

definition option_words :: "(string \<times> string list) list \<Rightarrow> string list" where
  "option_words as = concat (map (\<lambda>(k, v). k # v) as)"

definition is_option :: "string \<Rightarrow> bool" where
  "is_option a \<longleftrightarrow> a \<noteq> [] \<and> hd a = CHR ''-''"

text \<open>The invariant of a parsed command line: an option has a value exactly when it is one of
  \<open>kOneValueArguments\<close>, and no file name looks like an option.\<close>

definition compiler_args_wf :: "CompilerArgs \<Rightarrow> bool" where
  "compiler_args_wf c \<longleftrightarrow>
     list_all (\<lambda>(k, v). is_option k \<and> length v = (if k \<in> set kOneValueArguments then 1 else 0)) (ca_args c)
     \<and> list_all (\<lambda>f. \<not> is_option f) (ca_filenames c)"

lemma kOneValueArguments_option: "k \<in> set kOneValueArguments \<Longrightarrow> is_option k"
proof -
  have "list_all is_option kOneValueArguments" by code_simp
  then show "k \<in> set kOneValueArguments \<Longrightarrow> is_option k" by (simp add: list_all_iff)
qed

lemma option_words_simps [simp]:
  "option_words [] = []" "option_words ((k, v) # as) = k # v @ option_words as"
  "option_words (as @ bs) = option_words as @ option_words bs"
  by (simp_all add: option_words_def)

text \<open>The grammar of a command line, as a relation between the words, the options and the file names.\<close>

inductive parsed :: "string list \<Rightarrow> (string \<times> string list) list \<Rightarrow> string list \<Rightarrow> bool" where
  parsed_nil: "parsed [] [] []"
| parsed_value: "k \<in> set kOneValueArguments \<Longrightarrow> parsed ws as fs \<Longrightarrow> parsed (k # v # ws) ((k, [v]) # as) fs"
| parsed_flag: "k \<notin> set kOneValueArguments \<Longrightarrow> is_option k \<Longrightarrow> parsed ws as fs \<Longrightarrow> parsed (k # ws) ((k, []) # as) fs"
| parsed_file: "\<not> is_option f \<Longrightarrow> parsed ws as fs \<Longrightarrow> parsed (f # ws) as (f # fs)"

lemma parsed_loop:
  "parsed ws as fs \<Longrightarrow>
     CompilerArgs_loop ws c = Some (c\<lparr>ca_args := ca_args c @ as, ca_filenames := ca_filenames c @ fs\<rparr>)"
proof (induction ws as fs arbitrary: c rule: parsed.induct)
  case (parsed_file f ws as fs)
  then have "f \<notin> set kOneValueArguments" using kOneValueArguments_option by blast
  with parsed_file show ?case by (auto simp: is_option_def)
qed (simp_all add: is_option_def)

lemma loop_parsed:
  "CompilerArgs_loop ws c = Some d \<Longrightarrow> \<exists>as fs. parsed ws as fs"
proof (induction ws c rule: CompilerArgs_loop.induct)
  case (2 a rest c)
  show ?case
  proof (cases "a \<in> set kOneValueArguments")
    case True
    then obtain v rest' where "rest = v # rest'" using 2(4) by (cases rest) simp_all
    with True 2(1,4) show ?thesis by (auto intro: parsed_value)
  next
    case False
    then obtain as fs where p: "parsed rest as fs"
      using 2(2-4) by (cases "a \<noteq> [] \<and> hd a = CHR ''-''") auto
    show ?thesis
      using parsed_flag [OF False _ p] parsed_file [OF _ p] by (cases "is_option a") blast+
  qed
qed (auto intro: parsed_nil)

lemma parsed_wf:
  "parsed ws as fs \<Longrightarrow>
     (\<forall>(k, v) \<in> set as. is_option k \<and> length v = (if k \<in> set kOneValueArguments then 1 else 0)) \<and> (\<forall>f \<in> set fs. \<not> is_option f)"
  by (induction ws as fs rule: parsed.induct) (simp_all add: kOneValueArguments_option)

lemma parsed_words: "parsed ws as fs \<Longrightarrow> mset (option_words as @ fs) = mset ws"
  by (induction ws as fs rule: parsed.induct) simp_all

lemma parsed_append: "parsed ws as fs \<Longrightarrow> parsed ws' as' fs' \<Longrightarrow> parsed (ws @ ws') (as @ as') (fs @ fs')"
  by (induction ws as fs rule: parsed.induct) (simp_all add: parsed.intros)

lemma parsed_options:
  "(\<And>k v. (k, v) \<in> set as \<Longrightarrow> is_option k \<and> length v = (if k \<in> set kOneValueArguments then 1 else 0)) \<Longrightarrow> parsed (option_words as) as []"
proof (induction as)
  case (Cons kv as)
  obtain k v where kv: "kv = (k, v)" by (cases kv)
  have "parsed (option_words as) as []" by (intro Cons.IH Cons.prems) simp
  with Cons.prems [of k v] kv show ?case
    by (cases "k \<in> set kOneValueArguments") (auto simp: length_Suc_conv intro: parsed_value parsed_flag)
qed (simp add: parsed_nil)

lemma parsed_filenames: "(\<And>f. f \<in> set fs \<Longrightarrow> \<not> is_option f) \<Longrightarrow> parsed fs [] fs"
  by (induction fs) (simp_all add: parsed.intros)

lemma make_CompilerArgs_parsed:
  assumes "make_CompilerArgs argv = Some c"
  shows "parsed argv (ca_args c) (ca_filenames c)"
proof -
  obtain d where d: "CompilerArgs_loop argv empty_CompilerArgs = Some d" and c: "ca_args c = ca_args d" "ca_filenames c = ca_filenames d"
    using assms by (auto simp: make_CompilerArgs_def split: if_splits option.splits)
  obtain as fs where p: "parsed argv as fs" using loop_parsed [OF d] by blast
  have "d = empty_CompilerArgs\<lparr>ca_args := as, ca_filenames := fs\<rparr>"
    using parsed_loop [OF p, of empty_CompilerArgs] d by (simp add: empty_CompilerArgs_def)
  with p c show ?thesis by simp
qed

text \<open>C12. The constructor implements the grammar: it accepts exactly the non-empty command lines that have a
  reading in it, with that reading as options and file names, no compiler yet, and the escaped
  original words as the rebuilt command line.\<close>

theorem make_CompilerArgs_refines:
  "make_CompilerArgs argv = Some c \<longleftrightarrow>
     argv \<noteq> [] \<and> parsed argv (ca_args c) (ca_filenames c) \<and> ca_compiler c = []
     \<and> ca_rebuilt c = ToCommandLine \<lparr> ra_program = [], ra_args = argv \<rparr> False"
proof
  assume c: "make_CompilerArgs argv = Some c"
  then have "argv \<noteq> []" and p: "parsed argv (ca_args c) (ca_filenames c)"
    by (auto simp: make_CompilerArgs_def split: if_splits intro: make_CompilerArgs_parsed)
  with c show "argv \<noteq> [] \<and> parsed argv (ca_args c) (ca_filenames c) \<and> ca_compiler c = []
     \<and> ca_rebuilt c = ToCommandLine \<lparr> ra_program = [], ra_args = argv \<rparr> False"
    using parsed_loop [OF p, of empty_CompilerArgs]
    by (cases c) (auto simp: make_CompilerArgs_def empty_CompilerArgs_def ToCommandLine_def)
next
  assume a: "argv \<noteq> [] \<and> parsed argv (ca_args c) (ca_filenames c) \<and> ca_compiler c = []
     \<and> ca_rebuilt c = ToCommandLine \<lparr> ra_program = [], ra_args = argv \<rparr> False"
  then have p: "parsed argv (ca_args c) (ca_filenames c)" by blast
  show "make_CompilerArgs argv = Some c"
    using a parsed_loop [OF p, of empty_CompilerArgs]
    by (auto simp: make_CompilerArgs_def empty_CompilerArgs_def ToCommandLine_def)
qed

lemma parsed_exists: "(ws = [] \<or> last ws \<notin> set kOneValueArguments) \<Longrightarrow> \<exists>as fs. parsed ws as fs"
proof (induction "length ws" arbitrary: ws rule: less_induct)
  case less
  show ?case
  proof (cases ws)
    case (Cons a rest)
    show ?thesis
    proof (cases "a \<in> set kOneValueArguments")
      case True
      then obtain v rest' where r: "rest = v # rest'" using less(2) Cons by (cases rest) simp_all
      have "\<exists>as fs. parsed rest' as fs" using less Cons r by (intro less(1)) (auto split: if_splits)
      then show ?thesis using True Cons r by (auto intro: parsed_value)
    next
      case False
      have "\<exists>as fs. parsed rest as fs" using less Cons by (intro less(1)) (auto split: if_splits)
      then obtain as fs where p: "parsed rest as fs" by blast
      then show ?thesis
        using parsed_flag [OF False _ p] parsed_file [OF _ p] Cons by (cases "is_option a") blast+
    qed
  qed (auto intro: parsed_nil)
qed

text \<open>The constructor returns on every non-empty command line whose last word does not ask for a value.\<close>

theorem make_CompilerArgs_total:
  assumes "argv \<noteq> []" "last argv \<notin> set kOneValueArguments"
  shows "\<exists>c. make_CompilerArgs argv = Some c"
proof -
  obtain as fs where p: "parsed argv as fs" using parsed_exists assms(2) by blast
  show ?thesis using assms(1) parsed_loop [OF p, of empty_CompilerArgs] by (simp add: make_CompilerArgs_def)
qed

theorem make_CompilerArgs_total_witness: "\<exists>c. make_CompilerArgs [''-c'', ''a.cc'', ''-o'', ''a.o''] = Some c"
  by (rule make_CompilerArgs_total; code_simp)

text \<open>Nothing of the command line is lost: options with their values and file names are the words given,
  and an option carries a value exactly when it is one that takes one.\<close>

theorem make_CompilerArgs_keeps_words:
  assumes "make_CompilerArgs argv = Some c"
  shows "mset (option_words (ca_args c) @ ca_filenames c) = mset argv \<and> compiler_args_wf c"
  using parsed_words parsed_wf make_CompilerArgs_parsed [OF assms]
  by (simp add: compiler_args_wf_def list_all_iff)

theorem make_CompilerArgs_keeps_words_witness:
  "(let c = the (make_CompilerArgs [''-c'', ''a.cc'', ''-o'', ''a.o''])
    in mset (option_words (ca_args c) @ ca_filenames c) = mset [''-c'', ''a.cc'', ''-o'', ''a.o''])"
proof -
  have "make_CompilerArgs [''-c'', ''a.cc'', ''-o'', ''a.o''] =
     Some \<lparr> ca_compiler = [], ca_args = [(''-c'', []), (''-o'', [''a.o''])], ca_filenames = [''a.cc''],
            ca_rebuilt = ''-c a.cc -o a.o'' \<rparr>" by code_simp
  from make_CompilerArgs_keeps_words [OF this] this show ?thesis by simp
qed

text \<open>Rewriting and parsing again: the result of \<open>Rewrite\<close> parses to the options that were not removed,
  then the added ones, and to the added file names with the kept ones behind them.\<close>

theorem Rewrite_reparse:
  assumes "compiler_args_wf c" "parsed add as fs"
  shows "parsed (ra_args (Rewrite c remove remove_prefix add keep))
           (filter (\<lambda>(k, v). k \<notin> set remove \<and> \<not> list_ex (client_StartsWith k) remove_prefix) (ca_args c) @ as)
           (fs @ (if keep then ca_filenames c else []))"
proof -
  let ?kept = "filter (\<lambda>(k, v). k \<notin> set remove \<and> \<not> list_ex (client_StartsWith k) remove_prefix) (ca_args c)"
  have "parsed (option_words ?kept) ?kept []"
    using assms(1) by (intro parsed_options) (auto simp: compiler_args_wf_def list_all_iff)
  moreover have "parsed (if keep then ca_filenames c else []) [] (if keep then ca_filenames c else [])"
    using assms(1) by (intro parsed_filenames) (auto simp: compiler_args_wf_def list_all_iff split: if_splits)
  ultimately show ?thesis
    using parsed_append parsed_append [OF assms(2)]
    by (fastforce simp: Rewrite_def option_words_def)
qed

end
