(* ===== verification/Client_Runtime.thy ===== *)
theory Client_Runtime
  imports Compiler_Args Daemon_Call Json_Value Cxx_Compilation_Task
begin

text \<open>
  What the compiler wrapper does on its own machine: its options (\<^verbatim>\<open>client/common/env_options.cc\<close>), the lookup
  of the compiler (\<^verbatim>\<open>client/common/utility.cc\<close>), quotas for local work (\<^verbatim>\<open>client/common/task_quota.cc\<close>), starting
  programs (\<^verbatim>\<open>client/common/command.cc\<close>) and preprocessing (\<^verbatim>\<open>client/cxx/rewrite_file.cc\<close>). Answers of the daemon and
  results of programs are scripts of the world, everything the process does is logged in it; a call
  whose script is used up is still waiting.
\<close>

section \<open>The world\<close>

datatype client_event =
    Called string bytes DaemonResponse
  | Executed "string list" "string list" int
  | Passed "string list" int
  | Wrote string bytes
  | Printed bytes bytes

text \<open>One round of the loop that serves the pipes of a child: what \<open>poll\<close> returned and, for each pipe that was
  ready, what \<open>WriteTo\<close> and \<open>ReadBytes\<close> returned (\<open>Some None\<close> is a failed read).\<close>

datatype pipe_event =
    PollInterrupted
  | PollFailure
  | Ready "int option" "bytes option option" "bytes option option"

text \<open>Programs are given by their exit status; one that did not exit by itself is \<open>None\<close>.\<close>

record client_world =
  cw_answers :: "DaemonResponse list"
  cw_runs :: "(pipe_event list \<times> int option) list"
  cw_local :: "int option list"
  cw_log :: "client_event list"

record client_env =
  ce_getenv :: "string \<Rightarrow> string option"
  ce_pid :: nat
  ce_getcwd :: string
  ce_realpath :: "string \<Rightarrow> string"
  ce_exists :: "string \<Rightarrow> bool"
  ce_self :: string
  ce_mtime_and_size :: "string \<Rightarrow> (nat \<times> nat) option"
  ce_file_digest :: "string \<Rightarrow> string option"
  ce_libfakeroot :: string
  ce_compress :: "bytes \<Rightarrow> bytes"
  ce_decompress :: "bytes \<Rightarrow> bytes option"
  ce_blake3 :: "bytes \<Rightarrow> string"
  ce_parse_json :: "bytes \<Rightarrow> json option"
  ce_writable :: "string \<Rightarrow> bytes \<Rightarrow> bool"
  ce_write_submission :: "SubmitCxxTaskRequest \<Rightarrow> bytes"

type_synonym 'a client = "client_world \<Rightarrow> ('a \<times> client_world) outcome"

definition cl_return :: "'a \<Rightarrow> 'a client" where
  "cl_return x w = Return (x, w)"

definition cl_bind :: "'a client \<Rightarrow> ('a \<Rightarrow> 'b client) \<Rightarrow> 'b client" where
  "cl_bind m f w = outcome_bind (m w) (\<lambda>(x, w). f x w)"

text \<open>A value of a function that may abort.\<close>

definition cl_option :: "'a option \<Rightarrow> 'a client" where
  "cl_option x w = (case x of Some v \<Rightarrow> Return (v, w) | None \<Rightarrow> Abort)"

definition cl_log :: "client_event \<Rightarrow> unit client" where
  "cl_log e w = Return ((), w\<lparr>cw_log := cw_log w @ [e]\<rparr>)"

text \<open>\<open>DaemonCall\<close> and \<open>DaemonCallGathered\<close> as seen by their callers, with a valid port in the environment.\<close>

definition cl_call :: "string \<Rightarrow> bytes \<Rightarrow> DaemonResponse client" where
  "cl_call api body w =
     (case cw_answers w of
        [] \<Rightarrow> Blocked
      | r # rs \<Rightarrow> Return (r, w\<lparr>cw_answers := rs, cw_log := cw_log w @ [Called api body r]\<rparr>))"

section \<open>Options\<close>

text \<open>\<open>std::stoi\<close> throws when there is no number or it does not fit.\<close>

definition stoi :: "string \<Rightarrow> int option" where
  "stoi s = (case fst (scan_int s) of Some v \<Rightarrow> if - (2 ^ 31) \<le> v \<and> v < 2 ^ 31 then Some v else None | None \<Rightarrow> None)"

definition lower :: "char \<Rightarrow> char" where
  "lower c = (if 65 \<le> (of_char c :: nat) \<and> (of_char c :: nat) \<le> 90 then char_of ((of_char c :: nat) + 32) else c)"

definition GetBooleanOption :: "client_env \<Rightarrow> string \<Rightarrow> bool" where
  "GetBooleanOption env name =
     (case ce_getenv env name of
        None \<Rightarrow> False
      | Some v \<Rightarrow> v = ''1'' \<or> map lower v \<in> {''y'', ''yes'', ''true''})"

definition GetOptionCompileOnCloudSizeThreshold :: "client_env \<Rightarrow> nat option" where
  "GetOptionCompileOnCloudSizeThreshold env =
     (case ce_getenv env ''YADCC_COMPILE_ON_CLOUD_SIZE_THRESHOLD'' of
        Some p \<Rightarrow> map_option to_uint64 (stoi p)
      | None \<Rightarrow> Some 8192)"

definition GetOptionWarnOnWaitLongerThan :: "client_env \<Rightarrow> int option" where
  "GetOptionWarnOnWaitLongerThan env =
     (case ce_getenv env ''YADCC_WARN_ON_WAIT_LONGER_THAN'' of
        Some p \<Rightarrow>
          (case fst (scan_int p) of
             Some v \<Rightarrow> if - (2 ^ 31) \<le> v \<and> v < 2 ^ 31 then Some v else None
           | None \<Rightarrow> Some 0)
      | None \<Rightarrow> Some 0)"

definition GetOptionCacheControl :: "client_env \<Rightarrow> CacheControl option" where
  "GetOptionCacheControl env =
     (case ce_getenv env ''YADCC_CACHE_CONTROL'' of
        Some v \<Rightarrow>
          (case stoi v of
             Some as_int \<Rightarrow>
               if as_int = 0 then Some CacheDisallow else if as_int = 1 then Some CacheAllow
               else if as_int = 2 then Some CacheRefill else None
           | None \<Rightarrow> None)
      | None \<Rightarrow> Some CacheAllow)"

definition GetOptionLogLevel :: "client_env \<Rightarrow> int option" where
  "GetOptionLogLevel env = (case ce_getenv env ''YADCC_LOG_LEVEL'' of Some opt \<Rightarrow> stoi opt | None \<Rightarrow> Some 2)"

definition GetOptionDaemonPort :: "client_env \<Rightarrow> nat option" where
  "GetOptionDaemonPort env =
     (case ce_getenv env ''YADCC_DAEMON_PORT'' of
        Some p \<Rightarrow> map_option (\<lambda>v. nat (v mod 2 ^ 16)) (stoi p)
      | None \<Rightarrow> Some 8334)"

definition GetOptionTreatSourceFromStdinAsLightweight :: "client_env \<Rightarrow> bool" where
  "GetOptionTreatSourceFromStdinAsLightweight env = GetBooleanOption env ''YADCC_TREAT_SOURCE_FROM_STDIN_AS_LIGHTWEIGHT''"

section \<open>Programs\<close>

text \<open>The directories of \<open>PATH\<close>, empty ones included; without a match, or without \<open>PATH\<close>, the process ends.\<close>

definition FindExecutableInPath :: "client_env \<Rightarrow> string \<Rightarrow> (string \<Rightarrow> bool) \<Rightarrow> string option" where
  "FindExecutableInPath env executable pred =
     (case ce_getenv env ''PATH'' of
        None \<Rightarrow> None
      | Some path \<Rightarrow>
          find (\<lambda>f. ce_exists env f \<and> ce_realpath env f \<noteq> ce_self env \<and> pred (ce_realpath env f))
            (map (\<lambda>dir. dir @ ''/'' @ executable) (split_at_char CHR '':'' path)))"

definition BuildArguments :: "RewrittenArgs \<Rightarrow> string list" where
  "BuildArguments command = ra_program command # ra_args command"

text \<open>The loop around \<open>poll\<close>; a pipe that is done is not polled again.\<close>

record pipes =
  pi_in_done :: bool
  pi_out_done :: bool
  pi_err_done :: bool
  pi_stdin_bytes :: nat
  pi_output :: bytes
  pi_error :: bytes

definition handle_stdin :: "bytes \<Rightarrow> int option \<Rightarrow> pipes \<Rightarrow> pipes" where
  "handle_stdin input answer p =
     (case answer of
        None \<Rightarrow> p
      | Some n \<Rightarrow>
          if pi_in_done p then p
          else if n \<ge> 0 then
            (let k = min (length input) (pi_stdin_bytes p + nat n)
             in p\<lparr>pi_stdin_bytes := k, pi_in_done := (k = length input)\<rparr>)
          else p\<lparr>pi_in_done := True\<rparr>)"

definition handle_stdout :: "bytes option option \<Rightarrow> pipes \<Rightarrow> pipes option" where
  "handle_stdout answer p =
     (if pi_out_done p then Some p
      else
        (case answer of
           None \<Rightarrow> Some p
         | Some None \<Rightarrow> None
         | Some (Some data) \<Rightarrow> Some (if data = [] then p\<lparr>pi_out_done := True\<rparr> else p\<lparr>pi_output := pi_output p @ data\<rparr>)))"

definition handle_stderr :: "bytes option option \<Rightarrow> pipes \<Rightarrow> pipes option" where
  "handle_stderr answer p =
     (if pi_err_done p then Some p
      else
        (case answer of
           None \<Rightarrow> Some p
         | Some None \<Rightarrow> None
         | Some (Some data) \<Rightarrow> Some (if data = [] then p\<lparr>pi_err_done := True\<rparr> else p\<lparr>pi_error := pi_error p @ data\<rparr>)))"

definition pipes_done :: "pipes \<Rightarrow> bool" where
  "pipes_done p \<longleftrightarrow> pi_in_done p \<and> pi_out_done p \<and> pi_err_done p"

fun HandleProgramIo_loop :: "bytes \<Rightarrow> pipe_event list \<Rightarrow> pipes \<Rightarrow> pipes outcome" where
  "HandleProgramIo_loop input [] p = (if pipes_done p then Return p else Blocked)"
| "HandleProgramIo_loop input (e # es) p =
     (if pipes_done p then Return p
      else
        (case e of
           PollInterrupted \<Rightarrow> HandleProgramIo_loop input es p
         | PollFailure \<Rightarrow> Abort
         | Ready i out err \<Rightarrow>
             (case handle_stdout out (handle_stdin input i p) of
                None \<Rightarrow> Abort
              | Some p \<Rightarrow> (case handle_stderr err p of None \<Rightarrow> Abort | Some p \<Rightarrow> HandleProgramIo_loop input es p))))"

definition HandleProgramIoAndCloseHandles :: "bytes \<Rightarrow> pipe_event list \<Rightarrow> pipes outcome" where
  "HandleProgramIoAndCloseHandles input events =
     HandleProgramIo_loop input events
       \<lparr> pi_in_done = (input = []), pi_out_done = False, pi_err_done = False, pi_stdin_bytes = 0, pi_output = [], pi_error = [] \<rparr>"

text \<open>A child that was killed fails the check of \<open>GetProgramExitCode\<close>.\<close>

definition ExecuteCommand :: "RewrittenArgs \<Rightarrow> string list \<Rightarrow> bytes \<Rightarrow> (int \<times> bytes \<times> bytes) client" where
  "ExecuteCommand command extra_envs input w =
     (case cw_runs w of
        [] \<Rightarrow> Blocked
      | (events, status) # rs \<Rightarrow>
          outcome_bind (HandleProgramIoAndCloseHandles input events) (\<lambda>p.
            case status of
              None \<Rightarrow> Abort
            | Some ec \<Rightarrow> Return ((ec, pi_output p, pi_error p),
                w\<lparr>cw_runs := rs, cw_log := cw_log w @ [Executed (BuildArguments command) extra_envs ec]\<rparr>)))"

definition PassthroughToProgram :: "string \<Rightarrow> string list \<Rightarrow> int client" where
  "PassthroughToProgram program argv w =
     (case cw_local w of
        [] \<Rightarrow> Blocked
      | None # rs \<Rightarrow> Abort
      | Some ec # rs \<Rightarrow> Return (ec, w\<lparr>cw_local := rs, cw_log := cw_log w @ [Passed (program # argv) ec]\<rparr>))"

section \<open>Quotas\<close>

definition ReleaseTaskQuota :: "client_env \<Rightarrow> unit client" where
  "ReleaseTaskQuota env =
     cl_bind (cl_call ''/local/release_quota'' (''{'' @ [CHR 0x22] @ ''requestor_pid'' @ [CHR 0x22] @ '': '' @ to_string (ce_pid env) @ ''}''))
       (\<lambda>_. cl_return ())"

definition quota_body :: "client_env \<Rightarrow> bool \<Rightarrow> nat \<Rightarrow> bytes" where
  "quota_body env lightweight_task timeout_ms =
     (let q = [CHR 0x22] in
      ''{'' @ q @ ''milliseconds_to_wait'' @ q @ '': '' @ to_string timeout_ms @ '', '' @ q @ ''lightweight_task'' @ q @ '': ''
      @ (if lightweight_task then ''true'' else ''false'') @ '', '' @ q @ ''requestor_pid'' @ q @ '': '' @ to_string (ce_pid env) @ ''}'')"

definition TryAcquireTaskQuota :: "client_env \<Rightarrow> bool \<Rightarrow> nat \<Rightarrow> bool client" where
  "TryAcquireTaskQuota env lightweight_task timeout_ms =
     cl_bind (cl_call ''/local/acquire_quota'' (quota_body env lightweight_task timeout_ms)) (\<lambda>r. cl_return (dr_status r = 200))"

lemma TryAcquireTaskQuota_consumes:
  "TryAcquireTaskQuota env l t w = Return (ok, w') \<Longrightarrow> length (cw_answers w') < length (cw_answers w)"
  by (auto simp: TryAcquireTaskQuota_def cl_bind_def cl_call_def cl_return_def split: list.splits)

text \<open>The loop ends with the quota only.\<close>

function AcquireTaskQuota :: "client_env \<Rightarrow> bool \<Rightarrow> unit client" where
  "AcquireTaskQuota env lightweight_task w =
     (case TryAcquireTaskQuota env lightweight_task 10000 w of
        Return (acquired, w') \<Rightarrow>
          if acquired then Return ((), w')
          else if GetOptionWarnOnWaitLongerThan env = None then Abort
          else AcquireTaskQuota env lightweight_task w'
      | Abort \<Rightarrow> Abort
      | Blocked \<Rightarrow> Blocked)"
  by pat_completeness auto
termination
  by (relation "measure (\<lambda>(env, l, w). length (cw_answers w))") (auto dest: TryAcquireTaskQuota_consumes)

declare AcquireTaskQuota.simps [simp del]

text \<open>Work done while the quota is held; its last owner gives it back.\<close>

definition with_quota :: "client_env \<Rightarrow> 'a client \<Rightarrow> 'a client" where
  "with_quota env m = cl_bind m (\<lambda>r. cl_bind (ReleaseTaskQuota env) (\<lambda>_. cl_return r))"

section \<open>Preprocessing\<close>

record RewriteResult =
  rw_language :: string
  rw_source_path :: string
  rw_directives_only :: bool
  rw_cache_control :: CacheControl
  rw_zstd_rewritten :: bytes
  rw_source_digest :: string

text \<open>The outer option is the check that there is exactly one file name.\<close>

definition DetermineProgramLanguage :: "CompilerArgs \<Rightarrow> string option option" where
  "DetermineProgramLanguage args =
     (case TryGet args ''-x'' of
        Some opt \<Rightarrow> (case opt of [] \<Rightarrow> None | v # _ \<Rightarrow> Some (Some v))
      | None \<Rightarrow>
          (case ca_filenames args of
             [filename] \<Rightarrow>
               Some (if client_EndsWith filename ''.cc'' \<or> client_EndsWith filename ''.cpp'' \<or> client_EndsWith filename ''.cxx'' then Some ''c++''
                     else if client_EndsWith filename ''.c'' then Some ''c'' else None)
           | _ \<Rightarrow> None))"

definition GetCompilerPathIfNeedsPatch :: "CompilerArgs \<Rightarrow> string" where
  "GetCompilerPathIfNeedsPatch args =
     (if TryGet args ''--coverage'' \<noteq> None \<or> TryGet args ''--ftest-coverage'' \<noteq> None then []
      else
        (let view = (case find_last_of (ca_compiler args) CHR ''/'' of None \<Rightarrow> ca_compiler args | Some pos \<Rightarrow> take pos (ca_compiler args)) in
         if client_StartsWith view ''/usr/bin/'' \<or> client_StartsWith view ''/opt/rh/'' then []
         else if \<not> client_EndsWith view ''/bin'' then []
         else take (length view - 4) view))"

definition TryRewriteFileWithCommandLine ::
  "client_env \<Rightarrow> CompilerArgs \<Rightarrow> RewrittenArgs \<Rightarrow> CacheControl \<Rightarrow> (bytes \<times> CacheControl \<times> string) option client" where
  "TryRewriteFileWithCommandLine env args cmdline cache_control =
     cl_bind (ExecuteCommand cmdline [''LD_PRELOAD='' @ ce_libfakeroot env, ''YADCC_INTERNAL_COMPILER_PATH='' @ GetCompilerPathIfNeedsPatch args] [])
       (\<lambda>(ec, output, error). cl_return
          (if ec = 0
           then Some (ce_compress env output, cache_control, if cache_control \<noteq> CacheDisallow then ce_blake3 env output else [])
           else None))"

definition rewrite_result :: "CompilerArgs \<Rightarrow> string \<Rightarrow> string \<Rightarrow> bytes \<times> CacheControl \<times> string \<Rightarrow> RewriteResult" where
  "rewrite_result args filename language r =
     (case r of (rewritten, cache_control, digest) \<Rightarrow>
        \<lparr> rw_language = language, rw_source_path = filename, rw_directives_only = True, rw_cache_control = cache_control,
          rw_zstd_rewritten = rewritten, rw_source_digest = digest \<rparr>)"

definition rewrite_removed :: "string list" where
  "rewrite_removed = [''-c'', ''-o'', ''-fworking-directory'']"

definition RewriteFile :: "client_env \<Rightarrow> CompilerArgs \<Rightarrow> RewriteResult option client" where
  "RewriteFile env args =
     cl_bind (cl_option (DetermineProgramLanguage args)) (\<lambda>lang.
       case lang of
         None \<Rightarrow> cl_return None
       | Some language \<Rightarrow>
           cl_bind (cl_option (GetOptionCacheControl env)) (\<lambda>cache_control.
             case ca_filenames args of
               [filename] \<Rightarrow>
                 cl_bind (AcquireTaskQuota env True) (\<lambda>_. with_quota env
                   (cl_bind (TryRewriteFileWithCommandLine env args
                       (Rewrite args rewrite_removed [] [''-fno-working-directory'', ''-E'', ''-fdirectives-only''] True) cache_control)
                     (\<lambda>opt. case opt of
                        Some r \<Rightarrow> cl_return (Some (rewrite_result args filename language r))
                      | None \<Rightarrow>
                          cl_bind (TryRewriteFileWithCommandLine env args
                              (Rewrite args rewrite_removed [] [''-fno-working-directory'', ''-E''] True) cache_control)
                            (\<lambda>opt. cl_return (map_option (rewrite_result args filename language) opt)))))
             | _ \<Rightarrow> (\<lambda>w. Abort)))"

section \<open>Traces\<close>

text \<open>The answers among the events. A program of the wrapper keeps a property of what it logs and of its result,
  whenever it returns; the answers it used are those it logged.\<close>

fun responses :: "client_event list \<Rightarrow> DaemonResponse list" where
  "responses [] = []"
| "responses (Called api body r # es) = r # responses es"
| "responses (e # es) = responses es"

lemma responses_append [simp]: "responses (es @ es') = responses es @ responses es'"
  by (induction es rule: responses.induct) auto

definition cl_spec :: "(client_event list \<Rightarrow> 'a \<Rightarrow> bool) \<Rightarrow> 'a client \<Rightarrow> bool" where
  "cl_spec Q m \<longleftrightarrow>
     (\<forall>w x w'. m w = Return (x, w') \<longrightarrow>
        (\<exists>new. cw_log w' = cw_log w @ new \<and> cw_answers w = responses new @ cw_answers w' \<and> Q new x))"

lemma cl_specD:
  "cl_spec Q m \<Longrightarrow> m w = Return (x, w') \<Longrightarrow> \<exists>new. cw_log w' = cw_log w @ new \<and> cw_answers w = responses new @ cw_answers w' \<and> Q new x"
  by (auto simp: cl_spec_def)

lemma cl_spec_weaken: "cl_spec Q m \<Longrightarrow> (\<And>new x. Q new x \<Longrightarrow> R new x) \<Longrightarrow> cl_spec R m"
  by (fastforce simp: cl_spec_def)

lemma cl_spec_bind:
  assumes "cl_spec Q m" "\<And>n x. Q n x \<Longrightarrow> cl_spec (\<lambda>n' y. R (n @ n') y) (f x)"
  shows "cl_spec R (cl_bind m f)"
  unfolding cl_spec_def
proof (intro allI impI)
  fix w y w'
  assume "cl_bind m f w = Return (y, w')"
  then obtain x w1 where m: "m w = Return (x, w1)" and f: "f x w1 = Return (y, w')"
    by (auto simp: cl_bind_def outcome_bind_Return)
  from cl_specD [OF assms(1) m] obtain n where n: "cw_log w1 = cw_log w @ n" "cw_answers w = responses n @ cw_answers w1" "Q n x" by blast
  from cl_specD [OF assms(2) [OF n(3)] f] n(1,2)
  show "\<exists>new. cw_log w' = cw_log w @ new \<and> cw_answers w = responses new @ cw_answers w' \<and> R new y" by auto
qed

lemma cl_spec_return [simp]: "cl_spec R (cl_return x) \<longleftrightarrow> R [] x"
  by (auto simp: cl_spec_def cl_return_def)

lemma cl_spec_option: "(\<And>v. x = Some v \<Longrightarrow> R [] v) \<Longrightarrow> cl_spec R (cl_option x)"
  by (auto simp: cl_spec_def cl_option_def split: option.splits)

lemma cl_spec_abort [simp]: "cl_spec R (\<lambda>w. Abort)"
  by (simp add: cl_spec_def)

lemma cl_spec_log [simp]: "responses [e] = [] \<Longrightarrow> cl_spec R (cl_log e) \<longleftrightarrow> R [e] ()"
  by (auto simp: cl_spec_def cl_log_def)

lemma cl_spec_call: "(\<And>r. R [Called api body r] r) \<Longrightarrow> cl_spec R (cl_call api body)"
  by (auto simp: cl_spec_def cl_call_def split: list.splits)

lemma cl_spec_execute: "(\<And>ec out err. R [Executed (BuildArguments command) envs ec] (ec, out, err)) \<Longrightarrow> cl_spec R (ExecuteCommand command envs input)"
  by (auto simp: cl_spec_def ExecuteCommand_def outcome_bind_Return split: list.splits option.splits)

lemma cl_spec_passthrough: "(\<And>ec. R [Passed (program # argv) ec] ec) \<Longrightarrow> cl_spec R (PassthroughToProgram program argv)"
  by (auto simp: cl_spec_def PassthroughToProgram_def split: list.splits option.splits)

text \<open>Quotas granted and given back, compilations submitted, programs run in the foreground and output.\<close>

fun is_grant :: "client_event \<Rightarrow> bool" where
  "is_grant (Called api body r) \<longleftrightarrow> api = ''/local/acquire_quota'' \<and> dr_status r = 200"
| "is_grant _ \<longleftrightarrow> False"

fun is_release :: "client_event \<Rightarrow> bool" where
  "is_release (Called api body r) \<longleftrightarrow> api = ''/local/release_quota''"
| "is_release _ \<longleftrightarrow> False"

fun is_submission :: "client_event \<Rightarrow> bool" where
  "is_submission (Called api body r) \<longleftrightarrow> api = ''/local/submit_cxx_task''"
| "is_submission _ \<longleftrightarrow> False"

fun is_passed :: "client_event \<Rightarrow> bool" where
  "is_passed (Passed argv ec) \<longleftrightarrow> True"
| "is_passed _ \<longleftrightarrow> False"

fun is_output :: "client_event \<Rightarrow> bool" where
  "is_output (Wrote f data) \<longleftrightarrow> True"
| "is_output (Printed out err) \<longleftrightarrow> True"
| "is_output _ \<longleftrightarrow> False"

definition granted :: "client_event list \<Rightarrow> nat" where
  "granted es = length (filter is_grant es)"

definition released :: "client_event list \<Rightarrow> nat" where
  "released es = length (filter is_release es)"

definition submissions :: "client_event list \<Rightarrow> nat" where
  "submissions es = length (filter is_submission es)"

definition local_runs :: "client_event list \<Rightarrow> client_event list" where
  "local_runs es = filter is_passed es"

definition outputs :: "client_event list \<Rightarrow> client_event list" where
  "outputs es = filter is_output es"

lemmas trace_defs = granted_def released_def submissions_def local_runs_def outputs_def

lemma trace_append [simp]:
  "granted (es @ es') = granted es + granted es'" "released (es @ es') = released es + released es'"
  "submissions (es @ es') = submissions es + submissions es'" "local_runs (es @ es') = local_runs es @ local_runs es'"
  "outputs (es @ es') = outputs es @ outputs es'"
  by (simp_all add: trace_defs)

lemma trace_Nil [simp]: "granted [] = 0" "released [] = 0" "submissions [] = 0" "local_runs [] = []" "outputs [] = []"
  by (simp_all add: trace_defs)

text \<open>Nothing is shown to the user and all quotas are given back.\<close>

definition quiet :: "client_event list \<Rightarrow> bool" where
  "quiet es \<longleftrightarrow> local_runs es = [] \<and> outputs es = [] \<and> granted es = released es"

lemma quiet_append: "quiet es \<Longrightarrow> quiet es' \<Longrightarrow> quiet (es @ es')"
  by (simp add: quiet_def)

lemma quiet_Nil [simp]: "quiet []"
  by (simp add: quiet_def)

text \<open>Only calls of the quota interface that were refused, and one that was not.\<close>

lemma AcquireTaskQuota_spec:
  "cl_spec (\<lambda>n _. local_runs n = [] \<and> outputs n = [] \<and> submissions n = 0 \<and> released n = 0 \<and> granted n = 1) (AcquireTaskQuota env l)"
  unfolding cl_spec_def
proof (intro allI impI)
  fix w x w'
  assume "AcquireTaskQuota env l w = Return (x, w')"
  then show "\<exists>new. cw_log w' = cw_log w @ new \<and> cw_answers w = responses new @ cw_answers w' \<and> local_runs new = [] \<and> outputs new = [] \<and> submissions new = 0 \<and> released new = 0 \<and> granted new = 1"
  proof (induction env l w rule: AcquireTaskQuota.induct)
    case (1 env l w)
    from 1(2) obtain a w1 where t: "TryAcquireTaskQuota env l 10000 w = Return (a, w1)"
      by (subst (asm) AcquireTaskQuota.simps) (auto split: outcome.splits)
    then obtain r where r: "cw_log w1 = cw_log w @ [Called ''/local/acquire_quota'' (quota_body env l 10000) r]" "cw_answers w = r # cw_answers w1" "a = (dr_status r = 200)"
      by (auto simp: TryAcquireTaskQuota_def cl_bind_def cl_call_def cl_return_def split: list.splits)
    show ?case
    proof (cases a)
      case True
      with 1(2) t have "w' = w1" by (subst (asm) AcquireTaskQuota.simps) simp
      with r True show ?thesis by (simp add: trace_defs)
    next
      case False
      with 1(2) t have "AcquireTaskQuota env l w1 = Return (x, w')" "GetOptionWarnOnWaitLongerThan env \<noteq> None"
        by (subst (asm) AcquireTaskQuota.simps, simp split: if_splits)+
      from 1(1) [OF t refl False _ this(1)] this(2) r False show ?thesis
        by (fastforce simp: trace_defs)
    qed
  qed
qed

lemma TryAcquireTaskQuota_spec:
  "cl_spec (\<lambda>n a. local_runs n = [] \<and> outputs n = [] \<and> submissions n = 0 \<and> released n = 0 \<and> granted n = (if a then 1 else 0))
     (TryAcquireTaskQuota env l t)"
  unfolding TryAcquireTaskQuota_def by (rule cl_spec_bind [OF cl_spec_call [of "\<lambda>n r. \<exists>b. n = [Called ''/local/acquire_quota'' b r]"]]) (auto simp: trace_defs)

lemma ReleaseTaskQuota_spec:
  "cl_spec (\<lambda>n _. local_runs n = [] \<and> outputs n = [] \<and> submissions n = 0 \<and> released n = 1 \<and> granted n = 0) (ReleaseTaskQuota env)"
  unfolding ReleaseTaskQuota_def by (rule cl_spec_bind [OF cl_spec_call [of "\<lambda>n r. \<exists>b. n = [Called ''/local/release_quota'' b r]"]]) (auto simp: trace_defs)

lemma with_quota_spec:
  assumes "cl_spec Q m"
    "\<And>n n' x. Q n x \<Longrightarrow> local_runs n' = [] \<Longrightarrow> outputs n' = [] \<Longrightarrow> submissions n' = 0 \<Longrightarrow> released n' = 1 \<Longrightarrow> granted n' = 0 \<Longrightarrow> R (n @ n') x"
  shows "cl_spec R (with_quota env m)"
  unfolding with_quota_def
  by (rule cl_spec_bind [OF assms(1)], rule cl_spec_bind [OF ReleaseTaskQuota_spec]) (simp add: assms(2))

text \<open>Preprocessing is invisible, whatever happens.\<close>

lemma TryRewrite_spec:
  "cl_spec (\<lambda>n _. local_runs n = [] \<and> outputs n = [] \<and> submissions n = 0 \<and> released n = 0 \<and> granted n = 0)
     (TryRewriteFileWithCommandLine env args cmdline c)"
  unfolding TryRewriteFileWithCommandLine_def
  by (rule cl_spec_bind [OF cl_spec_execute [of "\<lambda>n r. \<exists>a e c. n = [Executed a e c]"]]) (auto simp: trace_defs)

lemma RewriteFile_spec: "cl_spec (\<lambda>n r. quiet n \<and> submissions n = 0 \<and> (r \<noteq> None \<longrightarrow> granted n > 0)) (RewriteFile env args)"
proof -
  let ?Q = "\<lambda>n. local_runs n = [] \<and> outputs n = [] \<and> submissions n = 0 \<and> released n = 0 \<and> granted n = 0"
  have attempts: "cl_spec (\<lambda>n _. ?Q n) (cl_bind (TryRewriteFileWithCommandLine env args cmd c)
      (\<lambda>opt. case opt of Some r \<Rightarrow> cl_return (Some (f r)) | None \<Rightarrow>
         cl_bind (TryRewriteFileWithCommandLine env args cmd' c) (\<lambda>opt. cl_return (map_option f opt))))" for cmd cmd' c f
    by (rule cl_spec_bind [OF TryRewrite_spec]) (auto split: option.splits intro!: cl_spec_bind [OF TryRewrite_spec])
  show ?thesis
    unfolding RewriteFile_def
    by (rule cl_spec_bind [OF cl_spec_option [of _ "\<lambda>n _. n = []"]])
       (auto split: option.splits list.splits simp: quiet_def
          intro!: cl_spec_bind [OF cl_spec_option [of _ "\<lambda>n _. n = []"]] cl_spec_bind [OF AcquireTaskQuota_spec] with_quota_spec [OF attempts])
qed

section \<open>Pipes\<close>

text \<open>Specification of a stream: what was read from it until its end.\<close>

fun until_eof :: "bytes option option list \<Rightarrow> bytes" where
  "until_eof (Some (Some data) # rs) = (if data = [] then [] else data @ until_eof rs)"
| "until_eof (_ # rs) = until_eof rs"
| "until_eof [] = []"

fun stdin_answer :: "pipe_event \<Rightarrow> int option" where
  "stdin_answer (Ready i out err) = i"
| "stdin_answer _ = None"

fun stdout_answer :: "pipe_event \<Rightarrow> bytes option option" where
  "stdout_answer (Ready i out err) = out"
| "stdout_answer _ = None"

fun stderr_answer :: "pipe_event \<Rightarrow> bytes option option" where
  "stderr_answer (Ready i out err) = err"
| "stderr_answer _ = None"

lemma handle_stdin_frame [simp]:
  "pi_out_done (handle_stdin input i p) = pi_out_done p" "pi_err_done (handle_stdin input i p) = pi_err_done p"
  "pi_output (handle_stdin input i p) = pi_output p" "pi_error (handle_stdin input i p) = pi_error p"
  by (auto simp: handle_stdin_def Let_def split: option.splits)

lemma handle_stdout_frame:
  "handle_stdout out p = Some p' \<Longrightarrow>
     pi_in_done p' = pi_in_done p \<and> pi_stdin_bytes p' = pi_stdin_bytes p \<and> pi_err_done p' = pi_err_done p \<and> pi_error p' = pi_error p"
  by (auto simp: handle_stdout_def split: if_splits option.splits)

lemma handle_stderr_frame:
  "handle_stderr err p = Some p' \<Longrightarrow>
     pi_in_done p' = pi_in_done p \<and> pi_stdin_bytes p' = pi_stdin_bytes p \<and> pi_out_done p' = pi_out_done p \<and> pi_output p' = pi_output p"
  by (auto simp: handle_stderr_def split: if_splits option.splits)

lemma loop_stdout:
  "HandleProgramIo_loop input es p = Return p' \<Longrightarrow>
     pi_output p' = pi_output p @ (if pi_out_done p then [] else until_eof (map stdout_answer es))"
proof (induction input es p rule: HandleProgramIo_loop.induct)
  case (2 input e es p)
  then show ?case
    by (cases e) (auto simp: pipes_done_def handle_stdout_def dest!: handle_stderr_frame split: if_splits option.splits)
qed (auto simp: pipes_done_def split: if_splits)

lemma loop_stderr:
  "HandleProgramIo_loop input es p = Return p' \<Longrightarrow>
     pi_error p' = pi_error p @ (if pi_err_done p then [] else until_eof (map stderr_answer es))"
proof (induction input es p rule: HandleProgramIo_loop.induct)
  case (2 input e es p)
  then show ?case
    by (cases e) (auto simp: pipes_done_def handle_stderr_def dest!: handle_stdout_frame split: if_splits option.splits)
qed (auto simp: pipes_done_def split: if_splits)

lemma handle_stdin_done:
  "(pi_in_done p \<Longrightarrow> pi_stdin_bytes p = length input) \<Longrightarrow> (\<And>n. i = Some n \<Longrightarrow> n \<ge> 0) \<Longrightarrow>
     pi_in_done (handle_stdin input i p) \<Longrightarrow> pi_stdin_bytes (handle_stdin input i p) = length input"
  by (auto simp: handle_stdin_def Let_def split: option.splits if_splits)

lemma loop_stdin:
  assumes "HandleProgramIo_loop input es p = Return p'" "pi_in_done p \<Longrightarrow> pi_stdin_bytes p = length input"
    "\<forall>e\<in>set es. \<forall>n. stdin_answer e = Some n \<longrightarrow> n \<ge> 0"
  shows "pi_stdin_bytes p' = length input"
  using assms
proof (induction input es p rule: HandleProgramIo_loop.induct)
  case (2 input e es p)
  show ?case
  proof (cases "pipes_done p")
    case True
    with 2 show ?thesis by (auto simp: pipes_done_def)
  next
    case False
    show ?thesis
    proof (cases e)
      case (Ready i out err)
      with 2(3) False obtain p1 p2 where p1: "handle_stdout out (handle_stdin input i p) = Some p1" and p2: "handle_stderr err p1 = Some p2"
        and run: "HandleProgramIo_loop input es p2 = Return p'" by (auto split: option.splits)
      have "pi_in_done p2 \<Longrightarrow> pi_stdin_bytes p2 = length input"
        using handle_stdin_done [of p input i] handle_stdout_frame [OF p1] handle_stderr_frame [OF p2] 2(4,5) Ready by auto
      with 2(2) [OF False Ready p1 p2 run] 2(5) show ?thesis by auto
    qed (use 2 False in auto)
  qed
qed (auto simp: pipes_done_def split: if_splits)

text \<open>The pipes of a child are served completely: in whatever portions and order they become ready, when the loop
  ends the standard output and error are exactly what the child wrote until it closed them, and all of the
  input was written unless the child closed its standard input.\<close>

theorem pipes_complete:
  assumes "HandleProgramIoAndCloseHandles input events = Return p"
  shows "pi_output p = until_eof (map stdout_answer events) \<and> pi_error p = until_eof (map stderr_answer events)
     \<and> (pi_stdin_bytes p = length input \<or> (\<exists>e\<in>set events. \<exists>n<0. stdin_answer e = Some n))"
proof -
  note run = assms [unfolded HandleProgramIoAndCloseHandles_def]
  show ?thesis
    using loop_stdout [OF run] loop_stderr [OF run] loop_stdin [OF run] by (simp, meson not_le)
qed

theorem pipes_complete_witness:
  "\<exists>p. HandleProgramIoAndCloseHandles ''ab'' [Ready (Some 1) (Some (Some ''x'')) None, PollInterrupted, Ready None (Some (Some [])) (Some (Some ''e'')),
       Ready (Some 1) None (Some (Some []))] = Return p \<and> pi_output p = ''x'' \<and> pi_error p = ''e''"
proof -
  let ?es = "[Ready (Some 1) (Some (Some ''x'')) None, PollInterrupted, Ready None (Some (Some [])) (Some (Some ''e'')), Ready (Some 1) None (Some (Some []))]"
  have "\<exists>p. HandleProgramIoAndCloseHandles ''ab'' ?es = Return p"
    by (simp add: HandleProgramIoAndCloseHandles_def handle_stdin_def handle_stdout_def handle_stderr_def pipes_done_def Let_def)
  then obtain p where "HandleProgramIoAndCloseHandles ''ab'' ?es = Return p" ..
  with pipes_complete [OF this] show ?thesis by auto
qed

end
