(* ===== verification/Libfakeroot.thy ===== *)
theory Libfakeroot
  imports File_Io Client_Runtime
begin

text \<open>
  The library the wrapper preloads into the preprocessor (\<^verbatim>\<open>client/cxx/libfakeroot/fakeroot.c\<close>), which makes
  preprocessed sources independent of where the compiler is installed, and its extraction to the user's home
  (\<^verbatim>\<open>client/cxx/libfakeroot.cc\<close>).
\<close>

section \<open>Line markers\<close>

definition kFakeRoot :: string where
  "kFakeRoot = ''/yadcc/compiler''"

abbreviation LINUX_PATH_MAX :: nat where "LINUX_PATH_MAX \<equiv> 4096"

text \<open>\<open>GetSelfPath\<close>: the value of \<open>YADCC_INTERNAL_COMPILER_PATH\<close>, if it is set.\<close>

definition GetSelfPath :: "string option \<Rightarrow> string" where
  "GetSelfPath env = (case env of Some p \<Rightarrow> p | None \<Rightarrow> [])"

definition references_self :: "string \<Rightarrow> string \<Rightarrow> bool" where
  "references_self self_path path \<longleftrightarrow>
     \<not> (length path \<ge> LINUX_PATH_MAX \<or> length self_path = 0 \<or> length path < length self_path \<or> take (length self_path) path \<noteq> self_path)"

text \<open>The buffer the new path is put together in, a byte of it for every position that is written.\<close>

definition patched_buffer :: "string \<Rightarrow> string \<Rightarrow> string" where
  "patched_buffer self_path path = kFakeRoot @ drop (length self_path) path @ [CHR 0x00]"

text \<open>A call of \<open>fprintf\<close>: one that prints a line marker, or another one with its output.\<close>

datatype print_call = LineMarker nat string string | OtherPrint string

definition marker_text :: "nat \<Rightarrow> string \<Rightarrow> string \<Rightarrow> string" where
  "marker_text line path extra = ''# '' @ to_string line @ '' '' @ [CHR 0x22] @ path @ [CHR 0x22] @ extra"

fun fake_fprintf :: "string option \<Rightarrow> print_call \<Rightarrow> string" where
  "fake_fprintf env (OtherPrint out) = out"
| "fake_fprintf env (LineMarker line path extra) =
     (if references_self (GetSelfPath env) path
      then marker_text line (takeWhile (\<lambda>c. c \<noteq> CHR 0x00) (patched_buffer (GetSelfPath env) path)) extra
      else marker_text line path extra)"

section \<open>Extraction\<close>

text \<open>\<open>mkdir\<close> whose failure is ignored.\<close>

definition try_mkdir :: "string \<Rightarrow> filesystem \<Rightarrow> filesystem" where
  "try_mkdir p fs = (if map_of fs p = None \<and> p \<noteq> [] \<and> parent_exists p fs then (p, Directory) # fs else fs)"

definition file_length :: "filesystem \<Rightarrow> string \<Rightarrow> nat option" where
  "file_length fs p = map_option length (file_bytes fs p)"

definition GetLockPath :: "string \<Rightarrow> filesystem \<Rightarrow> string \<times> filesystem" where
  "GetLockPath home fs =
     (home @ ''/.yadcc/lock/libfakeroot.lock'', try_mkdir (home @ ''/.yadcc/lock'') (try_mkdir (home @ ''/.yadcc'') fs))"

definition LockForExtraction :: "time_point \<Rightarrow> string \<Rightarrow> filesystem \<Rightarrow> filesystem option" where
  "LockForExtraction now home fs =
     (let (path, fs) = GetLockPath home fs
      in if can_create path fs then Some (umap_set path (FileNode DT_REG [] now) fs) else None)"

text \<open>The states of the file system others can see, and whether the wrapper goes on. \<open>flushed\<close>: how much of the library a
  write that fails leaves in the file.\<close>

definition ExtractLibFakeRootTo :: "time_point \<Rightarrow> nat option \<Rightarrow> string \<Rightarrow> bytes \<Rightarrow> string \<Rightarrow> filesystem \<Rightarrow> bool \<times> filesystem list" where
  "ExtractLibFakeRootTo now flushed home payload path fs =
     (case LockForExtraction now home fs of
        None \<Rightarrow> (False, [fs])
      | Some fs1 \<Rightarrow>
          (case client_WriteAll now flushed (path @ ''.writing'') payload fs1 of
             None \<Rightarrow> (False, [fs, fs1])
           | Some fs2 \<Rightarrow>
               (case fs_rename (path @ ''.writing'') path fs2 of
                  None \<Rightarrow> (False, [fs, fs1, fs2])
                | Some fs3 \<Rightarrow> (file_length fs3 path = Some (length payload), [fs, fs1, fs2, fs3]))))"

definition GetLibFakeRootPath :: "time_point \<Rightarrow> nat option \<Rightarrow> string \<Rightarrow> bytes \<Rightarrow> filesystem \<Rightarrow> string option \<times> filesystem list" where
  "GetLibFakeRootPath now flushed home payload fs =
     (let path = home @ ''/.yadcc/lib/libfakeroot.so'' in
      if file_length fs path \<noteq> Some (length payload)
      then (let fs1 = try_mkdir (home @ ''/.yadcc/lib'') (try_mkdir (home @ ''/.yadcc'') fs);
                (ok, states) = ExtractLibFakeRootTo now flushed home payload path fs1
            in (if ok then Some path else None, fs # states))
      else (Some path, [fs]))"

section \<open>Properties\<close>

lemma references_self_iff: "self \<noteq> [] \<Longrightarrow> references_self self path \<longleftrightarrow> length path < LINUX_PATH_MAX \<and> prefix self path"
  by (auto simp: references_self_def prefix_def not_less append_eq_conv_conj dest: sym)
     (metis append_take_drop_id)

text \<open>A path in the preprocessor's output: of the compiler, relative to where it is installed, or another one.\<close>

datatype located = InCompiler string | Elsewhere string

fun path_at :: "string \<Rightarrow> located \<Rightarrow> string" where
  "path_at self (InCompiler rest) = self @ rest"
| "path_at self (Elsewhere p) = p"

fun proper_at :: "string \<Rightarrow> located \<Rightarrow> bool" where
  "proper_at self (InCompiler rest) = (length self + length rest < LINUX_PATH_MAX \<and> CHR 0x00 \<notin> set rest)"
| "proper_at self (Elsewhere p) = (\<not> prefix self p)"

lemma fake_marker:
  assumes "self \<noteq> []" and "proper_at self p"
  shows "fake_fprintf (Some self) (LineMarker line (path_at self p) extra) = marker_text line (path_at kFakeRoot p) extra"
proof (cases p)
  case (InCompiler rest)
  with assms have self: "references_self self (self @ rest)" by (simp add: references_self_iff)
  have "takeWhile (\<lambda>c. c \<noteq> CHR 0x00) (kFakeRoot @ rest @ [CHR 0x00]) = kFakeRoot @ rest"
    using assms(2) InCompiler by (subst append_assoc [symmetric], subst takeWhile_append2) (auto simp: kFakeRoot_def)
  with self InCompiler show ?thesis by (simp add: GetSelfPath_def patched_buffer_def)
next
  case (Elsewhere q)
  with assms show ?thesis by (simp add: GetSelfPath_def references_self_iff)
qed


text \<open>The comparison stops within a directory name: a compiler installed beside another one is taken for it.\<close>

lemma neighbour_taken_for_self:
  "fake_fprintf (Some ''/opt/gcc'') (LineMarker 1 ''/opt/gcc-9/include/a.h'' []) = marker_text 1 ''/yadcc/compiler-9/include/a.h'' []"
  by (simp add: GetSelfPath_def references_self_def patched_buffer_def kFakeRoot_def)

lemma file_bytes_try_mkdir: "file_bytes (try_mkdir d fs) p = file_bytes fs p"
  by (auto simp: try_mkdir_def file_bytes_def)

lemma file_bytes_umap_set: "file_bytes (umap_set q (FileNode t b now) fs) p = (if p = q then Some b else file_bytes fs p)"
  by (simp add: file_bytes_def umap_simps)

lemma file_bytes_rename:
  assumes "fs_rename src dst fs = Some fs'" and "src \<noteq> dst"
  shows "file_bytes fs' dst = file_bytes fs src"
  using assms by (auto simp: fs_rename_def file_bytes_def umap_simps split: option.splits fs_node.splits if_splits)

text \<open>The library as others see it in the states of an extraction: as it was, until the file is renamed.\<close>

lemma extraction_states:
  assumes "ExtractLibFakeRootTo now flushed home payload path fs = (ok, states)" and "path \<noteq> home @ ''/.yadcc/lock/libfakeroot.lock''"
  defines "written \<equiv> (case flushed of None \<Rightarrow> payload | Some n \<Rightarrow> take n payload)"
  shows "\<forall>s\<in>set states. file_bytes s path = file_bytes fs path \<or> file_bytes s path = Some written"
    and "ok \<Longrightarrow> file_bytes (last states) path = Some written \<and> length written = length payload"
proof -
  have lock: "file_bytes fs1 path = file_bytes fs path" if "LockForExtraction now home fs = Some fs1" for fs1
    using that assms(2) by (auto simp: LockForExtraction_def GetLockPath_def Let_def file_bytes_umap_set file_bytes_try_mkdir split: if_splits)
  have wrote: "file_bytes fs2 path = file_bytes fs1 path \<and> file_bytes fs2 (path @ ''.writing'') = Some written"
    if "client_WriteAll now flushed (path @ ''.writing'') payload fs1 = Some fs2" for fs1 fs2
    using that by (auto simp: client_WriteAll_def file_bytes_umap_set written_def split: if_splits)
  have rename: "file_bytes fs3 path = file_bytes fs2 (path @ ''.writing'')" if "fs_rename (path @ ''.writing'') path fs2 = Some fs3" for fs2 fs3
    using file_bytes_rename [OF that] by simp
  show "\<forall>s\<in>set states. file_bytes s path = file_bytes fs path \<or> file_bytes s path = Some written"
    using assms(1) by (auto simp: ExtractLibFakeRootTo_def lock wrote rename split: option.splits)
  show "file_bytes (last states) path = Some written \<and> length written = length payload" if "ok"
    using assms(1) that by (auto simp: ExtractLibFakeRootTo_def wrote rename file_length_def split: option.splits)
qed

text \<open>When the wrapper gets the path of the library there is a file of the right size, the library itself if it had
  to be extracted, and nobody ever sees a part of it, provided the write of the new file does not fail
  unnoticed.\<close>

theorem library_extraction_atomic:
  assumes "GetLibFakeRootPath now None home payload fs = (result, states)"
  defines "path \<equiv> home @ ''/.yadcc/lib/libfakeroot.so''"
  shows "(\<forall>s\<in>set states. file_bytes s path = file_bytes fs path \<or> file_bytes s path = Some payload)
    \<and> (\<forall>p. result = Some p \<longrightarrow> p = path \<and> file_length (last states) path = Some (length payload))
    \<and> (file_length fs path \<noteq> Some (length payload) \<longrightarrow> result \<noteq> None \<longrightarrow> file_bytes (last states) path = Some payload)"
proof (cases "file_length fs path = Some (length payload)")
  case True
  with assms show ?thesis by (auto simp: GetLibFakeRootPath_def Let_def)
next
  case False
  let ?fs = "try_mkdir (home @ ''/.yadcc/lib'') (try_mkdir (home @ ''/.yadcc'') fs)"
  obtain ok extracted where run: "ExtractLibFakeRootTo now None home payload path ?fs = (ok, extracted)" by fastforce
  have result: "result = (if ok then Some path else None)" "states = fs # extracted"
    using assms(1) False run by (auto simp: GetLibFakeRootPath_def path_def Let_def split: if_splits)
  have "path \<noteq> home @ ''/.yadcc/lock/libfakeroot.lock''" by (simp add: path_def)
  note states = extraction_states [OF run this, simplified]
  have "extracted \<noteq> []" using run by (auto simp: ExtractLibFakeRootTo_def split: option.splits)
  with states result show ?thesis by (auto simp: file_bytes_try_mkdir file_length_def)
qed

text \<open>A write that fails when the file is closed is not noticed before the file is renamed: when an extraction gets that
  far (five states of the file system), the wrapper stops, but the truncated library is left in place for every other
  wrapper to load.\<close>

theorem truncated_library_exposed:
  assumes "GetLibFakeRootPath now (Some n) home payload fs = (result, states)" and "length states = 5" and "n < length payload"
  shows "result = None \<and> file_bytes (last states) (home @ ''/.yadcc/lib/libfakeroot.so'') = Some (take n payload)"
proof -
  let ?path = "home @ ''/.yadcc/lib/libfakeroot.so''"
  let ?fs = "try_mkdir (home @ ''/.yadcc/lib'') (try_mkdir (home @ ''/.yadcc'') fs)"
  obtain ok extracted where run: "ExtractLibFakeRootTo now (Some n) home payload ?path ?fs = (ok, extracted)" by fastforce
  have result: "result = (if ok then Some ?path else None)" "states = fs # extracted"
    using assms(1,2) run by (auto simp: GetLibFakeRootPath_def Let_def split: if_splits)
  have "?path \<noteq> home @ ''/.yadcc/lock/libfakeroot.lock''" by simp
  from extraction_states(2) [OF run this] assms(3) have "\<not> ok" by auto
  have "length extracted = 4" using assms(2) result by simp
  then have "file_bytes (last extracted) ?path = Some (take n payload)"
    using run file_bytes_rename [of "?path @ ''.writing''" ?path]
    by (auto simp: ExtractLibFakeRootTo_def client_WriteAll_def file_bytes_umap_set split: option.splits if_splits)
  moreover have "extracted \<noteq> []" using \<open>length extracted = 4\<close> by auto
  ultimately show ?thesis using result \<open>\<not> ok\<close> by simp
qed

section \<open>Concrete instances\<close>


definition demo_home :: filesystem where
  "demo_home = [(''/h'', Directory)]"

lemma demo_extraction:
  "fst (GetLibFakeRootPath 0 None ''/h'' ''ELF'' demo_home) = Some ''/h/.yadcc/lib/libfakeroot.so''"
  "length (snd (GetLibFakeRootPath 0 (Some 1) ''/h'' ''ELF'' demo_home)) = 5"
  by code_simp+

lemma library_extraction_atomic_witness:
  "file_bytes (last (snd (GetLibFakeRootPath 0 None ''/h'' ''ELF'' demo_home))) ''/h/.yadcc/lib/libfakeroot.so'' = Some ''ELF''"
proof -
  have "file_length demo_home ''/h/.yadcc/lib/libfakeroot.so'' = None" by code_simp
  then show ?thesis
    using library_extraction_atomic [OF surjective_pairing, of 0 "''/h''" "''ELF''" demo_home] demo_extraction(1) by simp
qed

lemma truncated_library_exposed_witness:
  "file_bytes (last (snd (GetLibFakeRootPath 0 (Some 1) ''/h'' ''ELF'' demo_home))) ''/h/.yadcc/lib/libfakeroot.so'' = Some ''E''"
  using truncated_library_exposed [OF surjective_pairing demo_extraction(2)] by simp

end
