(* ===== verification/Path_Patching.thy ===== *)
theory Path_Patching
  imports Multi_Chunk
begin

text \<open>
  Object files compiled with coverage contain the path of their output. The servant compiles under a
  very long path and reports where it occurs (\<open>MakeLongLongRelativePathWith\<close> and \<open>FindAllPathLocation\<close> of
  \<^verbatim>\<open>daemon/cloud/remote_task/cxx_compilation_task.cc\<close>); the wrapper overwrites the occurrences with the
  path the user asked for (\<open>PatchPathOccurrences\<close> of \<^verbatim>\<open>client/cxx/compilation_saas.cc\<close>). \<open>None\<close> is an abort,
  undefined behaviour or a loop that does not end.
\<close>

section \<open>Data\<close>

record PatchLocation =
  pl_position :: nat
  pl_total_size :: nat
  pl_suffix_to_keep :: nat

abbreviation NUL :: char where "NUL \<equiv> CHR 0x00"
abbreviation PATH_MAX :: nat where "PATH_MAX \<equiv> 4096"
abbreviation NAME_MAX :: nat where "NAME_MAX \<equiv> 255"

section \<open>The servant\<close>

text \<open>The members of a location are 32 bits wide in the protocol.\<close>

partial_function (option) FindAllPathLocation_loop ::
  "string \<Rightarrow> bytes \<Rightarrow> nat \<Rightarrow> PatchLocation list \<Rightarrow> PatchLocation list option" where
  "FindAllPathLocation_loop pre buffer start locations =
     (case find_substring pre (drop start buffer) of
        None \<Rightarrow> Some locations
      | Some d \<Rightarrow>
          (case find_substring [NUL] (drop (start + d) buffer) of
             None \<Rightarrow> FindAllPathLocation_loop pre buffer (length buffer) locations
           | Some e \<Rightarrow>
               if e > PATH_MAX then FindAllPathLocation_loop pre buffer (start + d + e) locations
               else FindAllPathLocation_loop pre buffer (start + d + e)
                      (locations @ [\<lparr> pl_position = to_uint32 (int (start + d)), pl_total_size = to_uint32 (int e),
                                      pl_suffix_to_keep = to_uint32 (int e - int (length pre)) \<rparr>])))"

definition FindAllPathLocation :: "bytes \<Rightarrow> string \<Rightarrow> PatchLocation list option" where
  "FindAllPathLocation buffer pre = (if pre = [] then None else FindAllPathLocation_loop pre buffer 0 [])"

text \<open>The path below the workspace, without the directories it creates; 30 bytes are left for the file.\<close>

abbreviation kMaxPath :: nat where "kMaxPath \<equiv> PATH_MAX - 30"

function extend_path :: "string \<Rightarrow> string" where
  "extend_path result =
     (if length result + 1 < kMaxPath
      then extend_path (result @ replicate (min NAME_MAX (kMaxPath - length result - 1)) CHR ''A'' @ ''/'')
      else result)"
  by pat_completeness auto
termination
  by (relation "measure (\<lambda>r. kMaxPath - length r)") auto

declare extend_path.simps [simp del]

definition MakeLongLongRelativePathWith :: "string \<Rightarrow> string \<Rightarrow> string option" where
  "MakeLongLongRelativePathWith base_path salt =
     (let result = extend_path (base_path @ ''/'' @ salt @ ''/'')
      in if last result \<noteq> CHR ''/'' then None else Some (drop (length base_path + 1) (butlast result)))"

section \<open>The wrapper\<close>

text \<open>A write of bytes into a buffer; outside of it is undefined.\<close>

definition poke :: "nat \<Rightarrow> bytes \<Rightarrow> bytes \<Rightarrow> bytes option" where
  "poke position data file =
     (if position + length data \<le> length file
      then Some (take position file @ data @ drop (position + length data) file) else None)"

text \<open>One patch: \<open>memcpy\<close> of the path, \<open>memmove\<close> of the suffix, \<open>memset\<close> of the rest, whose size is computed in
  64 bits. \<open>Some None\<close> is the refusal.\<close>

definition apply_patch :: "string \<Rightarrow> bytes \<Rightarrow> PatchLocation \<Rightarrow> bytes option option" where
  "apply_patch desired_path file loc =
     (let position = pl_position loc; total_size = pl_total_size loc; suffix_size = pl_suffix_to_keep loc in
      if length desired_path > total_size then Some None
      else
        (case poke position desired_path file of
           None \<Rightarrow> None
         | Some file1 \<Rightarrow>
             if suffix_size > position + total_size \<or> position + total_size > length file1 then None
             else
               (case poke (position + length desired_path)
                       (take suffix_size (drop (position + total_size - suffix_size) file1)) file1 of
                  None \<Rightarrow> None
                | Some file2 \<Rightarrow>
                    (let new_size = length desired_path + suffix_size;
                         zeros = to_uint64 (int total_size - int new_size)
                     in if position + new_size + zeros > length file2 then None
                        else map_option Some (poke (position + new_size) (replicate zeros NUL) file2)))))"

fun apply_patches :: "string \<Rightarrow> bytes \<Rightarrow> PatchLocation list \<Rightarrow> bytes option option" where
  "apply_patches desired_path file [] = Some (Some file)"
| "apply_patches desired_path file (loc # locs) =
     (case apply_patch desired_path file loc of
        Some (Some file') \<Rightarrow> apply_patches desired_path file' locs
      | r \<Rightarrow> r)"

fun patch_files ::
  "(string, PatchLocation list) umap \<Rightarrow> string \<Rightarrow> (string \<times> bytes) list \<Rightarrow> (string \<times> bytes) list option option" where
  "patch_files patches desired_path [] = Some (Some [])"
| "patch_files patches desired_path ((suff, file) # files) =
     (case (case map_of patches suff of None \<Rightarrow> Some (Some file) | Some locs \<Rightarrow> apply_patches desired_path file locs) of
        Some (Some file') \<Rightarrow> map_option (map_option (Cons (suff, file'))) (patch_files patches desired_path files)
      | Some None \<Rightarrow> Some None
      | None \<Rightarrow> None)"

text \<open>At the end every patch must have found its file.\<close>

definition PatchPathOccurrences ::
  "(string \<times> bytes) list \<Rightarrow> (string, PatchLocation list) umap \<Rightarrow> string \<Rightarrow> (string \<times> bytes) list option option" where
  "PatchPathOccurrences output_files patches desired_path =
     (case patch_files patches desired_path output_files of
        Some (Some files) \<Rightarrow>
          if list_all (\<lambda>(suff, locs). suff \<in> fst ` set output_files) patches then Some (Some files) else Some None
      | r \<Rightarrow> r)"

section \<open>Specification\<close>

text \<open>
  A file is a sequence of strings, each but the last ended by a NUL. The reference works on the
  strings: in each terminated string that contains the prefix, the first occurrence is replaced,
  unless more than \<open>PATH_MAX\<close> characters follow its beginning, and the string is filled up with NULs.
\<close>

definition patch_string :: "string \<Rightarrow> string \<Rightarrow> string \<Rightarrow> string" where
  "patch_string pre desired s =
     (case find_substring pre s of
        None \<Rightarrow> s
      | Some d \<Rightarrow>
          if length s - d > PATH_MAX then s
          else take d s @ desired @ drop (d + length pre) s @ replicate (length pre - length desired) NUL)"

fun patch_strings :: "string \<Rightarrow> string \<Rightarrow> string list \<Rightarrow> bytes" where
  "patch_strings pre desired [] = []"
| "patch_strings pre desired [s] = s"
| "patch_strings pre desired (s # t # ss) = patch_string pre desired s @ NUL # patch_strings pre desired (t # ss)"

definition patch_reference :: "string \<Rightarrow> string \<Rightarrow> bytes \<Rightarrow> bytes" where
  "patch_reference pre desired file = patch_strings pre desired (split_at_char NUL file)"

section \<open>Lemmas\<close>

subsection \<open>Locations\<close>

definition string_locations :: "string \<Rightarrow> nat \<Rightarrow> string \<Rightarrow> PatchLocation list" where
  "string_locations pre offset s =
     (case find_substring pre s of
        None \<Rightarrow> []
      | Some d \<Rightarrow>
          if length s - d > PATH_MAX then []
          else [\<lparr> pl_position = offset + d, pl_total_size = length s - d, pl_suffix_to_keep = length s - d - length pre \<rparr>])"

fun strings_locations :: "string \<Rightarrow> nat \<Rightarrow> string list \<Rightarrow> PatchLocation list" where
  "strings_locations pre offset [] = []"
| "strings_locations pre offset [s] = []"
| "strings_locations pre offset (s # t # ss) =
     string_locations pre offset s @ strings_locations pre (offset + length s + 1) (t # ss)"

lemma prefix_not_over_delimiter: "d \<notin> set p \<Longrightarrow> prefix p (s @ d # t) \<longleftrightarrow> prefix p s"
proof
  assume "prefix p (s @ d # t)" "d \<notin> set p"
  then show "prefix p s"
  proof (cases "length p \<le> length s")
    case True
    have "prefix s (s @ d # t)" by simp
    with True \<open>prefix p (s @ d # t)\<close> show ?thesis by (blast intro: prefix_length_prefix)
  next
    case False
    obtain zs where "s @ d # t = p @ zs" using \<open>prefix p (s @ d # t)\<close> by (auto simp: prefix_def)
    then have "(p @ zs) ! length s = d" by (metis nth_append_length)
    with False have "p ! length s = d" by (simp add: nth_append)
    with False \<open>d \<notin> set p\<close> show ?thesis by (metis linorder_not_le nth_mem)
  qed
qed (simp add: prefix_prefix)

text \<open>An occurrence of a string without NUL lies within one of the strings of the file.\<close>

lemma find_substring_delimiter:
  assumes "d \<notin> set p" "p \<noteq> []"
  shows "find_substring p (s @ d # t) =
     (case find_substring p s of Some n \<Rightarrow> Some n | None \<Rightarrow> map_option (\<lambda>n. Suc (length s + n)) (find_substring p t))"
proof (induction s)
  case Nil
  have "\<not> prefix p (d # t)" using assms prefix_not_over_delimiter [of d p "[]" t] by auto
  with assms show ?case by (auto simp: comp_def option.map_comp)
next
  case (Cons c cs)
  have "prefix p (c # cs @ d # t) \<longleftrightarrow> prefix p (c # cs)"
    using prefix_not_over_delimiter [OF assms(1), of "c # cs" t] by simp
  with Cons show ?case by (auto split: option.splits simp: option.map_comp comp_def)
qed

lemma drop_into:
  assumes "drop start buffer = s @ NUL # t"
  shows "drop (start + n) buffer = drop n (s @ NUL # t)"
  using arg_cong [OF assms, of "drop n"] by (simp add: add.commute)

lemma loop_skip:
  assumes "start \<le> length buffer" "drop start buffer = s @ NUL # t" "NUL \<notin> set pre" "pre \<noteq> []" "find_substring pre s = None"
  shows "FindAllPathLocation_loop pre buffer start acc = FindAllPathLocation_loop pre buffer (start + length s + 1) acc"
proof -
  have "drop (start + length s + 1) buffer = t"
    using drop_into [OF assms(2), of "length s + 1"] by (simp add: add.assoc)
  moreover have "find_substring pre (drop start buffer) = map_option (\<lambda>n. Suc (length s + n)) (find_substring pre t)"
    using assms find_substring_delimiter by simp
  ultimately show ?thesis
    by (subst FindAllPathLocation_loop.simps, subst (2) FindAllPathLocation_loop.simps) (auto split: option.splits simp: add.assoc)
qed


lemma find_nul: "NUL \<notin> set s \<Longrightarrow> find_substring [NUL] (s @ NUL # t) = Some (length s)"
  by (simp add: find_char takeWhile_append)

lemma loop_hit:
  assumes buffer: "drop start buffer = s @ NUL # t" "NUL \<notin> set s" and pre: "NUL \<notin> set pre" "pre \<noteq> []"
    and hit: "find_substring pre s = Some d" and small: "length buffer < 2 ^ 32"
  shows "FindAllPathLocation_loop pre buffer start acc =
     FindAllPathLocation_loop pre buffer (start + length s + 1) (acc @ string_locations pre start s)"
proof -
  have le: "d + length pre \<le> length s" by (rule find_substring_bound [OF hit])
  have f: "find_substring pre (drop start buffer) = Some d"
    using buffer(1) pre hit find_substring_delimiter by simp
  have "drop (start + d) buffer = drop d s @ NUL # t"
    using drop_into [OF buffer(1), of d] le by simp
  moreover have "NUL \<notin> set (drop d s)" using buffer(2) by (meson in_set_dropD)
  ultimately have e: "find_substring [NUL] (drop (start + d) buffer) = Some (length s - d)"
    using find_nul by simp
  have at_nul: "FindAllPathLocation_loop pre buffer (start + length s) a = FindAllPathLocation_loop pre buffer (start + length s + 1) a" for a
    using loop_skip [of "start + length s" buffer "[]" t pre a] drop_into [OF buffer(1), of "length s"] pre by (cases "start + length s \<le> length buffer") auto
  have "length s < length (drop start buffer)" by (simp add: buffer(1))
  then have "start + d < 2 ^ 32" using small le by simp
  then have w: "to_uint32 (int (start + d)) = start + d" "to_uint32 (int (length s - d) - int (length pre)) = length s - d - length pre"
    "to_uint32 (int (length s - d)) = length s - d" if "length s - d \<le> PATH_MAX"
    using that le by (simp_all add: to_uint32_def nat_mod_distrib)
  show ?thesis
    using le w by (subst FindAllPathLocation_loop.simps) (simp add: f e at_nul string_locations_def hit add.assoc)
qed

lemma loop_string:
  assumes "drop start buffer = s @ NUL # t" "NUL \<notin> set s" "NUL \<notin> set pre" "pre \<noteq> []" "start \<le> length buffer" "length buffer < 2 ^ 32"
  shows "FindAllPathLocation_loop pre buffer start acc =
     FindAllPathLocation_loop pre buffer (start + length s + 1) (acc @ string_locations pre start s)"
proof (cases "find_substring pre s")
  case None
  then show ?thesis using loop_skip [OF assms(5,1,3,4) None] by (simp add: string_locations_def)
qed (use loop_hit assms in blast)

lemma loop_last:
  assumes "NUL \<notin> set (drop start buffer)" "pre \<noteq> []"
  shows "FindAllPathLocation_loop pre buffer start acc = Some acc"
proof -
  have "FindAllPathLocation_loop pre buffer (length buffer) acc = Some acc"
    using assms(2) by (subst FindAllPathLocation_loop.simps) simp
  moreover have "find_substring [NUL] (drop (start + d) buffer) = None" for d
    using assms(1) by (simp add: find_char) (metis add.commute drop_drop in_set_dropD)
  ultimately show ?thesis
    by (subst FindAllPathLocation_loop.simps) (auto split: option.splits)
qed

lemma loop_locations:
  "start \<le> length buffer \<Longrightarrow> NUL \<notin> set pre \<Longrightarrow> pre \<noteq> [] \<Longrightarrow> length buffer < 2 ^ 32 \<Longrightarrow>
     FindAllPathLocation_loop pre buffer start acc = Some (acc @ strings_locations pre start (split_at_char NUL (drop start buffer)))"
proof (induction "length buffer - start" arbitrary: start acc rule: less_induct)
  case less
  show ?case
  proof (cases "NUL \<in> set (drop start buffer)")
    case True
    then obtain s t where d: "drop start buffer = s @ NUL # t" and s: "NUL \<notin> set s" by (meson split_list_first)
    let ?start = "start + length s + 1"
    have "length (drop start buffer) = length s + 1 + length t" by (simp add: d)
    then have len: "?start \<le> length buffer" by simp
    have "FindAllPathLocation_loop pre buffer ?start (acc @ string_locations pre start s)
        = Some ((acc @ string_locations pre start s) @ strings_locations pre ?start (split_at_char NUL (drop ?start buffer)))"
      using len less.prems by (intro less.hyps) auto
    moreover have "split_at_char NUL (drop start buffer) = s # split_at_char NUL (drop ?start buffer)"
      using d drop_into [OF d, of "length s + 1"] split_at_char_append_delim [OF s] by (simp add: add.assoc)
    ultimately show ?thesis
      using loop_string [OF d s less.prems(2,3,1,4)] by (cases "split_at_char NUL (drop ?start buffer)") simp_all
  next
    case False
    then show ?thesis using loop_last less.prems by (simp add: split_at_char_no_delim)
  qed
qed

lemma FindAllPathLocation_eq:
  "NUL \<notin> set pre \<Longrightarrow> pre \<noteq> [] \<Longrightarrow> length buffer < 2 ^ 32 \<Longrightarrow> FindAllPathLocation buffer pre = Some (strings_locations pre 0 (split_at_char NUL buffer))"
  by (simp add: FindAllPathLocation_def loop_locations)

subsection \<open>Patches\<close>

lemma poke_append:
  "length data \<le> length ys \<Longrightarrow> poke (length xs) data (xs @ ys) = Some (xs @ data @ drop (length data) ys)"
  by (simp add: poke_def)

lemma apply_patch_at:
  assumes "length desired = length p1" "length (p1 @ p2) + length y \<le> PATH_MAX"
  shows "apply_patch desired (a @ p1 @ p2 @ y @ b)
           \<lparr> pl_position = length a, pl_total_size = length (p1 @ p2) + length y, pl_suffix_to_keep = length y \<rparr>
       = Some (Some (a @ desired @ y @ replicate (length p2) NUL @ b))"
proof -
  have 1: "poke (length a) desired (a @ p1 @ p2 @ y @ b) = Some (a @ desired @ p2 @ y @ b)"
    using poke_append [of desired "p1 @ p2 @ y @ b" a] assms(1) by simp
  have 2: "take (length y) (drop (length a + (length (p1 @ p2) + length y) - length y) (a @ desired @ p2 @ y @ b)) = y"
    using assms(1) by simp
  have 3: "poke (length a + length desired) y (a @ desired @ p2 @ y @ b) = Some (a @ desired @ y @ drop (length y) (p2 @ y @ b))"
    using poke_append [of y "p2 @ y @ b" "a @ desired"] by simp
  have z: "to_uint64 (int (length (p1 @ p2) + length y) - int (length desired + length y)) = length p2"
    using assms by (simp add: to_uint64_def)
  have r: "drop (length y) (p2 @ y @ b) = drop (length y) (p2 @ y) @ b" by simp
  have 4: "poke (length a + (length desired + length y)) (replicate (length p2) NUL) (a @ desired @ y @ drop (length y) (p2 @ y) @ b)
      = Some (a @ desired @ y @ replicate (length p2) NUL @ b)"
    using poke_append [of "replicate (length p2) NUL" "drop (length y) (p2 @ y) @ b" "a @ desired @ y"] by simp
  have fits: "\<not> length desired > length (p1 @ p2) + length y"
    "\<not> (length y > length a + (length (p1 @ p2) + length y) \<or> length a + (length (p1 @ p2) + length y) > length (a @ desired @ p2 @ y @ b))"
    "\<not> length a + (length desired + length y) + length p2 > length (a @ desired @ y @ drop (length y) (p2 @ y) @ b)"
    using assms(1) by auto
  show ?thesis
    unfolding apply_patch_def Let_def PatchLocation.simps
    by (simp only: fits 1 2 3 z r 4 if_False option.case option.map)
qed

fun join_nul :: "string list \<Rightarrow> bytes" where
  "join_nul [] = []"
| "join_nul [s] = s"
| "join_nul (s # t # ss) = s @ NUL # join_nul (t # ss)"

lemma join_split: "join_nul (split_at_char NUL file) = file"
proof (induction "file")
  case (Cons c cs)
  obtain p ps where p: "split_at_char NUL cs = p # ps" by (cases "split_at_char NUL cs") simp_all
  with Cons have "join_nul (p # ps) = cs" by simp
  then show ?case using p by (cases ps) auto
qed simp

lemma strings_locations_bound:
  "l \<in> set (strings_locations pre offset ss) \<Longrightarrow>
     pl_position l + pl_total_size l \<le> offset + length (join_nul ss) \<and> pl_suffix_to_keep l \<le> pl_total_size l"
proof (induction pre offset ss rule: strings_locations.induct)
  case (3 pre offset s t ss)
  then show ?case
    by (auto simp: string_locations_def dest: sym [THEN find_substring_bound] find_substring_bound split: option.splits if_splits)
qed simp_all

lemma apply_patch_string:
  assumes "length desired \<le> length pre"
  shows "apply_patches desired (a @ s @ b) (string_locations pre (length a) s @ locs) = apply_patches desired (a @ patch_string pre desired s @ b) locs
     \<and> length (patch_string pre desired s) = length s"
proof (cases "find_substring pre s")
  case None
  then show ?thesis by (simp add: string_locations_def patch_string_def)
next
  case (Some d)
  obtain y where y: "drop d s = pre @ y" using find_substring_prefix [OF Some] by (auto simp: prefix_def)
  define x where "x = take d s"
  have s: "s = x @ pre @ y" using append_take_drop_id [of d s] y by (simp add: x_def)
  have d: "length x = d" using find_substring_bound [OF Some] by (simp add: x_def)
  define p1 p2 where p_def: "p1 = take (length desired) pre" "p2 = drop (length desired) pre"
  have p: "pre = p1 @ p2" "length p1 = length desired" using assms by (simp_all add: p_def)
  show ?thesis
  proof (cases "length s - d > PATH_MAX")
    case False
    have "apply_patch desired ((a @ x) @ p1 @ p2 @ y @ b)
        \<lparr> pl_position = length (a @ x), pl_total_size = length (p1 @ p2) + length y, pl_suffix_to_keep = length y \<rparr>
      = Some (Some ((a @ x) @ desired @ y @ replicate (length p2) NUL @ b))"
      using False p s d by (intro apply_patch_at) auto
    then show ?thesis
      using False Some p d by (simp add: string_locations_def patch_string_def s add.assoc)
  qed (use Some in \<open>simp add: string_locations_def patch_string_def\<close>)
qed

lemma apply_patches_strings:
  "length desired \<le> length pre \<Longrightarrow>
     apply_patches desired (a @ join_nul ss) (strings_locations pre (length a) ss) = Some (Some (a @ patch_strings pre desired ss))"
proof (induction ss arbitrary: a rule: join_nul.induct)
  case (3 s t ss)
  let ?a = "a @ patch_string pre desired s @ [NUL]"
  have step: "apply_patches desired (a @ s @ NUL # join_nul (t # ss)) (string_locations pre (length a) s @ locs)
      = apply_patches desired (a @ patch_string pre desired s @ NUL # join_nul (t # ss)) locs" for locs
    using apply_patch_string [OF 3(2)] by blast
  have len: "length ?a = length a + length s + 1" using apply_patch_string [OF 3(2)] by simp
  have "apply_patches desired (?a @ join_nul (t # ss)) (strings_locations pre (length ?a) (t # ss))
      = Some (Some (?a @ patch_strings pre desired (t # ss)))" by (rule 3(1) [OF 3(2)])
  then show ?case by (simp only: join_nul.simps strings_locations.simps step len [symmetric]) simp
qed simp_all

section \<open>Properties\<close>

text \<open>Servant and wrapper together: whatever the bytes of an object file of less than 4 GiB, the search for the servant's
  path ends, and patching the locations it reports with a path that is not longer replaces the path in
  every string of the file and leaves everything else, the length included, as it was.\<close>

theorem path_patching_correct:
  assumes "NUL \<notin> set pre" "pre \<noteq> []" "length desired \<le> length pre" "length file < 2 ^ 32"
  shows "\<exists>locations. FindAllPathLocation file pre = Some locations
     \<and> apply_patches desired file locations = Some (Some (patch_reference pre desired file))"
proof -
  have "apply_patches desired (([] :: bytes) @ join_nul (split_at_char NUL file)) (strings_locations pre (length ([] :: bytes)) (split_at_char NUL file))
      = Some (Some ([] @ patch_strings pre desired (split_at_char NUL file)))"
    by (rule apply_patches_strings [OF assms(3)])
  with FindAllPathLocation_eq [OF assms(1,2,4)] show ?thesis
    by (simp add: join_split patch_reference_def)
qed

theorem path_patching_correct_witness:
  "patch_reference ''/tmp/AA/output'' ''/home/u/x'' (''ab'' @ [NUL] @ ''/tmp/AA/output.gcda'' @ [NUL, CHR ''z''])
     = ''ab'' @ [NUL] @ ''/home/u/x.gcda'' @ replicate 5 NUL @ [NUL, CHR ''z'']
   \<and> (\<exists>locations. FindAllPathLocation (''ab'' @ [NUL] @ ''/tmp/AA/output.gcda'' @ [NUL, CHR ''z'']) ''/tmp/AA/output'' = Some locations
     \<and> apply_patches ''/home/u/x'' (''ab'' @ [NUL] @ ''/tmp/AA/output.gcda'' @ [NUL, CHR ''z'']) locations
       = Some (Some (patch_reference ''/tmp/AA/output'' ''/home/u/x'' (''ab'' @ [NUL] @ ''/tmp/AA/output.gcda'' @ [NUL, CHR ''z'']))))"
  by (intro conjI path_patching_correct; code_simp)

lemma patch_string_length: "length desired \<le> length pre \<Longrightarrow> length (patch_string pre desired s) = length s"
  using apply_patch_string [of desired pre "[]" s "[]" "[]"] by blast

lemma patch_reference_length: "length desired \<le> length pre \<Longrightarrow> length (patch_reference pre desired file) = length file"
proof -
  assume le: "length desired \<le> length pre"
  have "length (patch_strings pre desired ss) = length (join_nul ss)" for ss
    by (induction ss rule: join_nul.induct) (simp_all add: patch_string_length [OF le])
  then show ?thesis by (simp add: patch_reference_def join_split)
qed

text \<open>All output files of a compilation: the wrapper keeps the extensions that have locations.\<close>

lemma patch_files_reference:
  assumes "\<And>suff file. (suff, file) \<in> set files \<Longrightarrow>
     apply_patches desired file (case map_of patches suff of None \<Rightarrow> [] | Some locs \<Rightarrow> locs) = Some (Some (f file))"
  shows "patch_files patches desired files = Some (Some (map (\<lambda>(suff, file). (suff, f file)) files))"
  using assms
proof (induction files)
  case (Cons e files)
  obtain suff content where e: "e = (suff, content)" by (cases e)
  have "patch_files patches desired files = Some (Some (map (\<lambda>(suff, file). (suff, f file)) files))"
    by (intro Cons.IH Cons.prems) simp
  with Cons.prems [of suff content] e show ?case by (auto split: option.splits)
qed simp

lemma to_uint64_negative: "- (2 ^ 63) < z \<Longrightarrow> z < 0 \<Longrightarrow> to_uint64 z > 2 ^ 62"
proof -
  assume z: "- (2 ^ 63) < z" "z < 0"
  have "z mod 2 ^ 64 = (z + 2 ^ 64) mod 2 ^ 64" by simp
  also have "\<dots> = z + 2 ^ 64" using z by (intro mod_pos_pos_trivial) auto
  finally show ?thesis using z by (simp add: to_uint64_def)
qed

text \<open>The check of the wrapper is not enough: a path that fits in the whole occurrence but not with the
  suffix kept passes it, the number of bytes to clear wraps around, and the wrapper writes far outside
  of the file.\<close>

theorem apply_patch_overflow:
  assumes "length desired \<le> pl_total_size loc" "pl_total_size loc < length desired + pl_suffix_to_keep loc"
    "length file < 2 ^ 62" "pl_total_size loc < 2 ^ 62" "pl_suffix_to_keep loc < 2 ^ 62"
  shows "apply_patch desired file loc = None"
proof -
  have "int (pl_total_size loc) - int (length desired + pl_suffix_to_keep loc) < 0"
    "- (2 ^ 63) < int (pl_total_size loc) - int (length desired + pl_suffix_to_keep loc)"
    using assms by simp_all
  from this(2,1) have big: "to_uint64 (int (pl_total_size loc) - int (length desired + pl_suffix_to_keep loc)) > 2 ^ 62"
    by (intro to_uint64_negative)
  have len: "length file' = length file0" if "poke p d file0 = Some file'" for p d file0 file'
    using that by (auto simp: poke_def split: if_splits)
  show ?thesis
  proof (cases "poke (pl_position loc) desired file")
    case (Some file1)
    then have "length file1 = length file" by (rule len)
    then have "\<not> position + n + to_uint64 (int (pl_total_size loc) - int (length desired + pl_suffix_to_keep loc)) \<le> length file2"
      if "poke p d file1 = Some file2" for p d file2 position n
      using big assms(3) len [OF that] by simp
    with Some assms(1) show ?thesis
      by (simp add: apply_patch_def Let_def not_le split: option.split)
  qed (use assms(1) in \<open>simp add: apply_patch_def Let_def\<close>)
qed

theorem apply_patch_overflow_witness:
  "apply_patch ''/home/u/xy'' (''/tmp/AA/o.gcda'' @ [NUL]) \<lparr> pl_position = 0, pl_total_size = 14, pl_suffix_to_keep = 5 \<rparr> = None"
  by (rule apply_patch_overflow) simp_all

lemma extend_path_length:
  "length r \<le> kMaxPath \<Longrightarrow> kMaxPath - 1 \<le> length (extend_path r) \<and> length (extend_path r) \<le> kMaxPath"
proof (induction r rule: extend_path.induct)
  case (1 r)
  then show ?case by (subst extend_path.simps, subst (2) extend_path.simps) auto
qed

lemma extend_path_last: "r \<noteq> [] \<Longrightarrow> last r = CHR ''/'' \<Longrightarrow> last (extend_path r) = CHR ''/''"
proof (induction r rule: extend_path.induct)
  case (1 r)
  then show ?case by (subst extend_path.simps) auto
qed

lemma extend_path_prefix: "prefix r (extend_path r)"
proof (induction r rule: extend_path.induct)
  case (1 r)
  then show ?case by (subst extend_path.simps) (auto dest: append_prefixD)
qed

text \<open>The servant's working path: with a workspace and a salt of ordinary length, the whole path is 31 or
  32 bytes short of \<open>PATH_MAX\<close>, so that a longer path of the user hardly ever has to be refused.\<close>

theorem MakeLongLongRelativePathWith_length:
  assumes "length base_path + length salt + 2 \<le> kMaxPath"
  shows "\<exists>rel. MakeLongLongRelativePathWith base_path salt = Some rel \<and> prefix salt rel
     \<and> PATH_MAX - 32 \<le> length (base_path @ ''/'' @ rel) \<and> length (base_path @ ''/'' @ rel) \<le> PATH_MAX - 31"
proof -
  let ?r0 = "base_path @ ''/'' @ salt @ ''/''"
  obtain zs where r: "extend_path ?r0 = ?r0 @ zs" using extend_path_prefix [of ?r0] by (auto simp: prefix_def)
  have len: "kMaxPath - 1 \<le> length (extend_path ?r0)" "length (extend_path ?r0) \<le> kMaxPath"
    using extend_path_length [of ?r0] assms by simp_all
  have "last (extend_path ?r0) = CHR ''/''" by (rule extend_path_last) simp_all
  then have m: "MakeLongLongRelativePathWith base_path salt = Some (drop (length base_path + 1) (butlast (?r0 @ zs)))"
    by (simp only: MakeLongLongRelativePathWith_def Let_def r) simp
  have b: "drop (length base_path + 1) (butlast (?r0 @ zs)) = salt @ (if zs = [] then [] else ''/'' @ butlast zs)"
    by (simp add: butlast_append)
  show ?thesis using m len unfolding b r by (auto split: if_splits)
qed


end
