(* ===== verification/Compiler_Registry.thy ===== *)
theory Compiler_Registry
  imports Posix_Fs Task_Dispatcher "HOL-Library.List_Lexorder" "HOL-Library.Char_ord"
begin

text \<open>
  The compilers a servant offers (\<^verbatim>\<open>daemon/cloud/compiler_registry.cc\<close>): a scan of the directories of
  \<open>PATH\<close> and of the command line flags, and the table from digests of compilers to their paths. The
  machine (\<open>lstat\<close>, \<open>realpath\<close>, the bytes of a file, the directories, the user, the environment) is a record.
\<close>

section \<open>The machine\<close>

record file_stat =
  st_uid :: nat
  st_gid :: nat
  st_mode :: nat

record machine =
  mc_lstat :: "string \<Rightarrow> file_stat option"
  mc_realpath :: "string \<Rightarrow> string option"
  mc_read :: "string \<Rightarrow> bytes option"
  mc_fs :: filesystem
  mc_euid :: nat
  mc_egid :: nat
  mc_PATH :: "string option"

record registry_flags =
  rf_extra_compiler_dirs :: string
  rf_extra_compiler_bundle_dirs :: string

definition S_ISDIR :: "nat \<Rightarrow> bool" where
  "S_ISDIR mode \<longleftrightarrow> and mode 0xF000 = 0x4000"

section \<open>Finding compilers\<close>

definition TryGetFileDigest :: "flare \<Rightarrow> machine \<Rightarrow> string \<Rightarrow> string option" where
  "TryGetFileDigest fl m path = map_option (\<lambda>b. fl_EncodeHex fl (fl_Blake3 fl b)) (mc_read m path)"

definition PathJoin :: "string \<Rightarrow> string \<Rightarrow> string" where
  "PathJoin x y = (if x = [] \<or> last x = slash then x @ y else x @ [slash] @ y)"

text \<open>The execute bits for the owner, the group and the others.\<close>

definition GetCanonicalPathIfExecutable :: "machine \<Rightarrow> string \<Rightarrow> string option" where
  "GetCanonicalPathIfExecutable m path =
     (case mc_lstat m path of
        None \<Rightarrow> None
      | Some st \<Rightarrow>
          (case mc_realpath m path of
             None \<Rightarrow> None
           | Some buf \<Rightarrow>
               if (mc_euid m = st_uid st \<and> bit (st_mode st) 6) \<or> (mc_egid m = st_gid st \<and> bit (st_mode st) 3)
                  \<or> bit (st_mode st) 0
               then Some buf else None))"

definition IsCompilerWrapper :: "flare \<Rightarrow> string \<Rightarrow> bool" where
  "IsCompilerWrapper fl path = list_ex (fl_EndsWith fl path) [''ccache'', ''distcc'', ''icecc'']"

definition kCompilerExecutables :: "string list" where
  "kCompilerExecutables = [''gcc'', ''g++'', ''clang'', ''clang++'']"

definition TryLookupCompilerIn :: "flare \<Rightarrow> machine \<Rightarrow> string \<Rightarrow> string list" where
  "TryLookupCompilerIn fl m dir =
     List.map_filter (\<lambda>e. case GetCanonicalPathIfExecutable m (PathJoin dir e) of
                            None \<Rightarrow> None
                          | Some path \<Rightarrow> if IsCompilerWrapper fl path then None else Some path) kCompilerExecutables"

text \<open>Without \<open>PATH\<close> the null pointer is used.\<close>

definition GetDirectoriesInPath :: "flare \<Rightarrow> machine \<Rightarrow> string list option" where
  "GetDirectoriesInPath fl m = map_option (\<lambda>p. fl_Split fl p CHR '':'' False) (mc_PATH m)"

section \<open>The registry\<close>

record CompilerRegistry =
  cg_compiler_paths :: "(string, string) umap"
  cg_environments :: "EnvironmentDesc list"

definition AddEnvironmentTo ::
  "flare \<Rightarrow> machine \<Rightarrow> string \<Rightarrow> (string, string) umap \<times> EnvironmentDesc list \<Rightarrow> (string, string) umap \<times> EnvironmentDesc list" where
  "AddEnvironmentTo fl m path temp =
     (case temp of
        (temp_paths, temp_envs) \<Rightarrow>
          (case TryGetFileDigest fl m path of
             None \<Rightarrow> (temp_paths, temp_envs)
           | Some digest \<Rightarrow>
               if map_of temp_paths digest = None
               then (umap_set digest path temp_paths, temp_envs @ [\<lparr> ed_compiler_digest = digest \<rparr>])
               else (temp_paths, temp_envs)))"

definition EnumerateEnvironments :: "CompilerRegistry \<Rightarrow> EnvironmentDesc list" where
  "EnumerateEnvironments r = cg_environments r"

definition TryGetCompilerPath :: "EnvironmentDesc \<Rightarrow> CompilerRegistry \<Rightarrow> string option" where
  "TryGetCompilerPath env r = map_of (cg_compiler_paths r) (ed_compiler_digest env)"

text \<open>The directories of the user's bundles: \<open>dir/*/bin\<close>. A directory that cannot be listed aborts.\<close>

fun bundle_dirs :: "machine \<Rightarrow> string list \<Rightarrow> string list option" where
  "bundle_dirs m [] = Some []"
| "bundle_dirs m (dir # dirs) =
     (case mc_lstat m dir of
        Some buf \<Rightarrow>
          if S_ISDIR (st_mode buf) then
            (case EnumerateDir dir (mc_fs m) of
               None \<Rightarrow> None
             | Some subdirs \<Rightarrow>
                 map_option (append (map (\<lambda>s. dir @ ''/'' @ de_name s @ ''/bin'') subdirs)) (bundle_dirs m dirs))
          else bundle_dirs m dirs
      | None \<Rightarrow> bundle_dirs m dirs)"

definition devtoolset_dirs :: "string list" where
  "devtoolset_dirs = map (\<lambda>i. ''/opt/rh/devtoolset-'' @ to_string i @ ''/root/bin'') [1..<100]"

definition add_compilers_in ::
  "flare \<Rightarrow> machine \<Rightarrow> string list \<Rightarrow> (string, string) umap \<times> EnvironmentDesc list \<Rightarrow> (string, string) umap \<times> EnvironmentDesc list" where
  "add_compilers_in fl m dirs temp =
     fold (\<lambda>dir temp. fold (AddEnvironmentTo fl m) (TryLookupCompilerIn fl m dir) temp) dirs temp"

text \<open>The result carries the compilers reported as gone and as found, each sorted.\<close>

definition UpdateEnvironment ::
  "(string, string) umap \<Rightarrow> EnvironmentDesc list \<Rightarrow> CompilerRegistry \<Rightarrow> (string list \<times> string list) \<times> CompilerRegistry" where
  "UpdateEnvironment temp_paths temp_envs r =
     (let gone = map snd (filter (\<lambda>(k, v). map_of temp_paths k = None) (cg_compiler_paths r));
          found = map snd (filter (\<lambda>(k, v). map_of (cg_compiler_paths r) k = None) temp_paths)
      in ((sort gone, sort found), \<lparr> cg_compiler_paths = temp_paths, cg_environments = temp_envs \<rparr>))"

definition OnCompilerRescanTimer ::
  "flare \<Rightarrow> registry_flags \<Rightarrow> machine \<Rightarrow> CompilerRegistry \<Rightarrow> ((string list \<times> string list) \<times> CompilerRegistry) option" where
  "OnCompilerRescanTimer fl flags m r =
     (case GetDirectoriesInPath fl m of
        None \<Rightarrow> None
      | Some path_dirs \<Rightarrow>
          (case bundle_dirs m (fl_Split fl (rf_extra_compiler_bundle_dirs flags) CHR '':'' False) of
             None \<Rightarrow> None
           | Some bundles \<Rightarrow>
               (let temp = add_compilers_in fl m devtoolset_dirs
                      (add_compilers_in fl m bundles
                        (add_compilers_in fl m (fl_Split fl (rf_extra_compiler_dirs flags) CHR '':'' False)
                          (add_compilers_in fl m path_dirs ([], []))))
                in Some (UpdateEnvironment (fst temp) (snd temp) r))))"

definition CompilerRegistry_ctor :: "flare \<Rightarrow> registry_flags \<Rightarrow> machine \<Rightarrow> CompilerRegistry option" where
  "CompilerRegistry_ctor fl flags m =
     map_option snd (OnCompilerRescanTimer fl flags m \<lparr> cg_compiler_paths = [], cg_environments = [] \<rparr>)"

section \<open>Lemmas\<close>

text \<open>What the scan keeps about the tables it builds, for the compilers at the paths \<open>ok\<close>.\<close>

definition scan_inv :: "flare \<Rightarrow> machine \<Rightarrow> (string \<Rightarrow> bool) \<Rightarrow> (string, string) umap \<times> EnvironmentDesc list \<Rightarrow> bool" where
  "scan_inv fl m ok temp \<longleftrightarrow>
     distinct (map fst (fst temp)) \<and> distinct (map ed_compiler_digest (snd temp))
     \<and> set (map ed_compiler_digest (snd temp)) = fst ` set (fst temp)
     \<and> (\<forall>(digest, path) \<in> set (fst temp). ok path \<and> TryGetFileDigest fl m path = Some digest)"

lemma scan_inv_empty: "scan_inv fl m ok ([], [])"
  by (simp add: scan_inv_def)

lemma scan_inv_add:
  assumes "scan_inv fl m ok temp" "ok path"
  shows "scan_inv fl m ok (AddEnvironmentTo fl m path temp)"
proof -
  obtain ps es where t: "temp = (ps, es)" by (cases temp)
  show ?thesis
  proof (cases "TryGetFileDigest fl m path")
    case (Some digest)
    show ?thesis
    proof (cases "map_of ps digest")
      case None
      then have "digest \<notin> fst ` set ps" by (simp add: map_of_eq_None_iff)
      moreover from this have "umap_set digest path ps = (digest, path) # ps \<or> umap_set digest path ps = ps @ [(digest, path)]"
        by (auto simp: umap_set_def umap_erase_def filter_id_conv)
      ultimately show ?thesis using assms t Some None by (auto simp: AddEnvironmentTo_def scan_inv_def)
    qed (use assms t Some in \<open>simp add: AddEnvironmentTo_def\<close>)
  qed (use assms t in \<open>simp add: AddEnvironmentTo_def\<close>)
qed

lemma scan_inv_fold: "scan_inv fl m ok temp \<Longrightarrow> (\<And>p. p \<in> set ps \<Longrightarrow> ok p) \<Longrightarrow> scan_inv fl m ok (fold (AddEnvironmentTo fl m) ps temp)"
  by (induction ps arbitrary: temp) (simp_all add: scan_inv_add)

text \<open>A path that the scan may register: an executable compiler that is not a wrapper.\<close>

definition offered_compiler :: "flare \<Rightarrow> machine \<Rightarrow> string \<Rightarrow> bool" where
  "offered_compiler fl m path \<longleftrightarrow>
     \<not> IsCompilerWrapper fl path
     \<and> (\<exists>dir. \<exists>e \<in> set kCompilerExecutables. GetCanonicalPathIfExecutable m (PathJoin dir e) = Some path)"

lemma TryLookupCompilerIn_offered: "p \<in> set (TryLookupCompilerIn fl m dir) \<Longrightarrow> offered_compiler fl m p"
proof -
  assume "p \<in> set (TryLookupCompilerIn fl m dir)"
  then obtain e where e: "e \<in> set kCompilerExecutables"
    "(case GetCanonicalPathIfExecutable m (PathJoin dir e) of
        None \<Rightarrow> None | Some path \<Rightarrow> if IsCompilerWrapper fl path then None else Some path) = Some p"
    unfolding TryLookupCompilerIn_def List.map_filter_def by fastforce
  then have "GetCanonicalPathIfExecutable m (PathJoin dir e) = Some p" "\<not> IsCompilerWrapper fl p"
    by (simp_all split: option.splits if_splits)
  with e(1) show ?thesis unfolding offered_compiler_def by blast
qed

lemma scan_inv_dirs: "scan_inv fl m (offered_compiler fl m) temp \<Longrightarrow> scan_inv fl m (offered_compiler fl m) (add_compilers_in fl m dirs temp)"
  unfolding add_compilers_in_def
  by (induction dirs arbitrary: temp) (simp_all add: scan_inv_fold TryLookupCompilerIn_offered)

text \<open>Adding never forgets a digest, and the digest of an added compiler is known afterwards.\<close>

lemma AddEnvironmentTo_keeps: "d \<in> dom (map_of (fst temp)) \<Longrightarrow> d \<in> dom (map_of (fst (AddEnvironmentTo fl m p temp)))"
  by (auto simp: AddEnvironmentTo_def umap_simps dom_def split: prod.splits option.splits)

lemma AddEnvironmentTo_adds: "TryGetFileDigest fl m p = Some d \<Longrightarrow> d \<in> dom (map_of (fst (AddEnvironmentTo fl m p temp)))"
  by (auto simp: AddEnvironmentTo_def umap_simps dom_def split: prod.splits option.splits)

lemma fold_Add_keeps: "d \<in> dom (map_of (fst temp)) \<Longrightarrow> d \<in> dom (map_of (fst (fold (AddEnvironmentTo fl m) ps temp)))"
  by (induction ps arbitrary: temp) (simp_all add: AddEnvironmentTo_keeps)

lemma fold_Add_adds:
  "p \<in> set ps \<Longrightarrow> TryGetFileDigest fl m p = Some d \<Longrightarrow> d \<in> dom (map_of (fst (fold (AddEnvironmentTo fl m) ps temp)))"
proof (induction ps arbitrary: temp)
  case (Cons x ps)
  show ?case
  proof (cases "p = x")
    case True
    then show ?thesis using fold_Add_keeps [OF AddEnvironmentTo_adds [OF Cons.prems(2)]] by simp
  next
    case False
    then show ?thesis using Cons.IH [of "AddEnvironmentTo fl m x temp"] Cons.prems by simp
  qed
qed simp

lemma add_compilers_keeps: "d \<in> dom (map_of (fst temp)) \<Longrightarrow> d \<in> dom (map_of (fst (add_compilers_in fl m dirs temp)))"
  unfolding add_compilers_in_def by (induction dirs arbitrary: temp) (simp_all add: fold_Add_keeps)

lemma add_compilers_adds:
  "dir \<in> set dirs \<Longrightarrow> p \<in> set (TryLookupCompilerIn fl m dir) \<Longrightarrow> TryGetFileDigest fl m p = Some d \<Longrightarrow>
     d \<in> dom (map_of (fst (add_compilers_in fl m dirs temp)))"
proof (induction dirs arbitrary: temp)
  case (Cons x dirs)
  have eq: "add_compilers_in fl m (x # dirs) temp = add_compilers_in fl m dirs (fold (AddEnvironmentTo fl m) (TryLookupCompilerIn fl m x) temp)"
    by (simp add: add_compilers_in_def)
  show ?case
  proof (cases "dir = x")
    case True
    then show ?thesis unfolding eq by (intro add_compilers_keeps fold_Add_adds [OF _ Cons.prems(3)]) (use Cons.prems in simp)
  next
    case False
    then show ?thesis unfolding eq by (intro Cons.IH) (use Cons.prems in simp_all)
  qed
qed simp

lemma rescan_cases:
  assumes "OnCompilerRescanTimer fl flags m r = Some (logs, r')"
  obtains path_dirs bundles temp where "GetDirectoriesInPath fl m = Some path_dirs"
    "temp = add_compilers_in fl m devtoolset_dirs (add_compilers_in fl m bundles
        (add_compilers_in fl m (fl_Split fl (rf_extra_compiler_dirs flags) CHR '':'' False) (add_compilers_in fl m path_dirs ([], []))))"
    "r' = \<lparr> cg_compiler_paths = fst temp, cg_environments = snd temp \<rparr>"
proof -
  obtain path_dirs bundles where d: "GetDirectoriesInPath fl m = Some path_dirs"
    "bundle_dirs m (fl_Split fl (rf_extra_compiler_bundle_dirs flags) CHR '':'' False) = Some bundles"
    using assms by (auto simp: OnCompilerRescanTimer_def split: option.splits)
  show thesis
    by (rule that [OF d(1) refl, of bundles]) (use assms d in \<open>simp add: OnCompilerRescanTimer_def UpdateEnvironment_def Let_def\<close>)
qed

section \<open>Properties\<close>

lemma registry_exact:
  assumes "OnCompilerRescanTimer fl flags m r = Some (logs, r')"
  shows "(\<forall>env p. TryGetCompilerPath env r' = Some p \<longrightarrow>
            offered_compiler fl m p \<and> TryGetFileDigest fl m p = Some (ed_compiler_digest env))
       \<and> distinct (EnumerateEnvironments r')
       \<and> (\<forall>env. env \<in> set (EnumerateEnvironments r') \<longleftrightarrow> TryGetCompilerPath env r' \<noteq> None)
       \<and> (\<forall>dirs dir p d. GetDirectoriesInPath fl m = Some dirs \<longrightarrow> dir \<in> set dirs \<longrightarrow> p \<in> set (TryLookupCompilerIn fl m dir)
            \<longrightarrow> TryGetFileDigest fl m p = Some d \<longrightarrow> TryGetCompilerPath \<lparr> ed_compiler_digest = d \<rparr> r' \<noteq> None)"
proof -
  obtain path_dirs bundles temp where dirs: "GetDirectoriesInPath fl m = Some path_dirs"
    and temp: "temp = add_compilers_in fl m devtoolset_dirs (add_compilers_in fl m bundles
        (add_compilers_in fl m (fl_Split fl (rf_extra_compiler_dirs flags) CHR '':'' False) (add_compilers_in fl m path_dirs ([], []))))"
    and r': "r' = \<lparr> cg_compiler_paths = fst temp, cg_environments = snd temp \<rparr>"
    using assms by (rule rescan_cases)
  have inv: "scan_inv fl m (offered_compiler fl m) temp"
    unfolding temp by (intro scan_inv_dirs scan_inv_empty)
  have "distinct (snd temp)" using inv by (simp add: scan_inv_def distinct_map)
  moreover have "env \<in> set (snd temp) \<longleftrightarrow> ed_compiler_digest env \<in> fst ` set (fst temp)" for env :: EnvironmentDesc
  proof -
    have "env \<in> set (snd temp) \<longleftrightarrow> ed_compiler_digest env \<in> ed_compiler_digest ` set (snd temp)"
      by (auto simp: image_iff) (metis (full_types) EnvironmentDesc.equality old.unit.exhaust)
    with inv show ?thesis by (simp add: scan_inv_def)
  qed
  moreover have "TryGetCompilerPath \<lparr> ed_compiler_digest = d \<rparr> r' \<noteq> None"
    if "dir \<in> set path_dirs" "p \<in> set (TryLookupCompilerIn fl m dir)" "TryGetFileDigest fl m p = Some d" for dir p d
    using add_compilers_keeps [OF add_compilers_keeps [OF add_compilers_keeps [OF add_compilers_adds [OF that]]]]
    unfolding r' temp TryGetCompilerPath_def by (simp add: domIff)
  moreover have "offered_compiler fl m p \<and> TryGetFileDigest fl m p = Some (ed_compiler_digest env)"
    if "TryGetCompilerPath env r' = Some p" for env p
    using that inv map_of_SomeD unfolding r' TryGetCompilerPath_def scan_inv_def by fastforce
  ultimately show ?thesis
    using dirs by (auto simp: r' EnumerateEnvironments_def TryGetCompilerPath_def map_of_eq_None_iff)
qed


text \<open>A machine with one compiler, in the second directory of \<open>PATH\<close>.\<close>

definition demo_machine :: machine where
  "demo_machine =
     \<lparr> mc_lstat = (\<lambda>p. if p = ''/usr/bin/g++'' then Some \<lparr> st_uid = 0, st_gid = 0, st_mode = 33261 \<rparr> else None),
       mc_realpath = (\<lambda>p. if p = ''/usr/bin/g++'' then Some ''/usr/bin/g++-9'' else None),
       mc_read = (\<lambda>p. if p = ''/usr/bin/g++-9'' then Some ''ELF'' else None),
       mc_fs = [], mc_euid = 1000, mc_egid = 1000, mc_PATH = Some ''/bin:/usr/bin'' \<rparr>"

definition plain_flare :: flare where
  "plain_flare = reference_flare\<lparr> fl_Blake3 := \<lambda>b. b \<rparr>"


end
