(* ===== verification/Remote_Task.thy ===== *)
theory Remote_Task
  imports Path_Patching Compiler_Registry Distributed_Cache Cxx_Compilation_Task
begin

text \<open>
  Compilations as the servant runs them (\<^verbatim>\<open>daemon/cloud/remote_task/cxx_compilation_task.cc\<close> on top of
  \<^verbatim>\<open>daemon/cloud/remote_task.cc\<close>). Compression, the packing of files and the protobuf message of the
  patches are a record of functions. The files of the workspace, when the compiler has exited, are an
  argument. \<open>None\<close> is an abort.
\<close>

section \<open>Data\<close>

record remote_ops =
  ro_Decompress :: "bytes \<Rightarrow> bytes option"
  ro_Compress :: "bytes \<Rightarrow> bytes option"
  ro_WriteKeyedNoncontiguousBuffers :: "(string \<times> bytes) list \<Rightarrow> bytes"
  ro_PackExtraInfo :: "(string, PatchLocation list) umap \<Rightarrow> bytes"

datatype daemon_status =
    DAEMON_STATUS_HEAVILY_LOADED | DAEMON_STATUS_ENVIRONMENT_NOT_AVAILABLE | DAEMON_STATUS_ACCESS_DENIED
  | DAEMON_STATUS_TASK_NOT_FOUND | DAEMON_STATUS_INVALID_ARGUMENT | RPC_STATUS_FAILED

text \<open>The object: the members of \<open>RemoteTask\<close>, then those of \<open>CxxCompilationTask\<close>.\<close>

record RemoteCxxTask =
  rx_exit_code :: int
  rx_stdout :: string
  rx_stderr :: string
  rx_extra_info :: bytes
  rx_file_pack :: bytes
  rx_workspace_dir :: string
  rx_source_path :: string
  rx_command_line :: string
  rx_source :: bytes
  rx_env_desc :: EnvironmentDesc
  rx_invocation_arguments :: string
  rx_source_digest :: string
  rx_write_cache_future :: bool
  rx_write_cache :: bool
  rx_temporary_dir_extra_depth :: string

section \<open>Preparing a compilation\<close>

definition kMacros :: "string list" where
  "kMacros = [''__TIME__'', ''__DATE__'', ''__TIMESTAMP__'']"

definition VerifyTaskCachability :: "bool \<Rightarrow> string \<Rightarrow> bytes \<Rightarrow> bool" where
  "VerifyTaskCachability allow_cache arguments buffer =
     (if \<not> allow_cache then False
      else if list_all (\<lambda>e. find_substring (''-D'' @ e @ ''='') arguments \<noteq> None) kMacros then True
      else list_all (\<lambda>e. find_substring e buffer = None) kMacros)"

text \<open>\<open>workspace\<close> is the directory made for this task, \<open>fs\<close> the file system in which the long path is created.\<close>

definition remote_Prepare ::
  "flare \<Rightarrow> remote_ops \<Rightarrow> CompilerRegistry \<Rightarrow> string \<Rightarrow> QueueCxxCompilationTaskRequest \<Rightarrow> filesystem
   \<Rightarrow> ((daemon_status + RemoteCxxTask) \<times> filesystem) option" where
  "remote_Prepare fl ro registry workspace request fs =
     (case TryGetCompilerPath (qc_env_desc request) registry of
        None \<Rightarrow> Some (Inl DAEMON_STATUS_ENVIRONMENT_NOT_AVAILABLE, fs)
      | Some compiler \<Rightarrow>
          if qc_compression_algorithm request \<noteq> COMPRESSION_ALGORITHM_ZSTD
          then Some (Inl DAEMON_STATUS_INVALID_ARGUMENT, fs)
          else
            (case ro_Decompress ro (qc_attachment request) of
               None \<Rightarrow> Some (Inl DAEMON_STATUS_INVALID_ARGUMENT, fs)
             | Some source \<Rightarrow>
                 (let digest = fl_EncodeHex fl (fl_Blake3 fl source) in
                  case MakeLongLongRelativePathWith workspace digest of
                    None \<Rightarrow> None
                  | Some depth \<Rightarrow>
                      (case Mkdirs (workspace @ ''/'' @ depth) fs of
                         None \<Rightarrow> None
                       | Some fs' \<Rightarrow>
                           Some (Inr \<lparr> rx_exit_code = 0, rx_stdout = [], rx_stderr = [], rx_extra_info = [], rx_file_pack = [],
                                       rx_workspace_dir = workspace, rx_source_path = qc_source_path request,
                                       rx_command_line = compiler @ '' '' @ qc_invocation_arguments request @ '' -o '' @
                                          workspace @ ''/'' @ depth @ ''/output.o'',
                                       rx_source = source, rx_env_desc = qc_env_desc request,
                                       rx_invocation_arguments = qc_invocation_arguments request, rx_source_digest = digest,
                                       rx_write_cache_future =
                                         VerifyTaskCachability (\<not> qc_disallow_cache_fill request) (qc_invocation_arguments request) source,
                                       rx_write_cache = False, rx_temporary_dir_extra_depth = depth \<rparr>, fs')))))"

definition remote_GetCommandLine :: "RemoteCxxTask \<Rightarrow> string" where
  "remote_GetCommandLine t = rx_command_line t"

definition remote_GetStandardInputOnce :: "RemoteCxxTask \<Rightarrow> bytes \<times> RemoteCxxTask" where
  "remote_GetStandardInputOnce t = (rx_source t, t\<lparr>rx_source := []\<rparr>)"

definition remote_GetDigest :: "flare \<Rightarrow> (string list \<Rightarrow> bytes) \<Rightarrow> RemoteCxxTask \<Rightarrow> string" where
  "remote_GetDigest fl Blake3_of t = GetCxxTaskDigest fl Blake3_of (rx_env_desc t) (rx_invocation_arguments t) (rx_source_digest t)"

definition remote_GetCacheKey :: "flare \<Rightarrow> (string list \<Rightarrow> bytes) \<Rightarrow> RemoteCxxTask \<Rightarrow> string option" where
  "remote_GetCacheKey fl Blake3_of t =
     (if \<not> rx_write_cache t then None
      else Some (GetCxxCacheEntryKey fl Blake3_of (rx_env_desc t) (rx_invocation_arguments t) (rx_source_digest t)))"

section \<open>Completing it\<close>

text \<open>The locations of the working path in each file, by the extension of the file.\<close>

fun locate_patches ::
  "flare \<Rightarrow> string \<Rightarrow> string \<Rightarrow> (string \<times> bytes) list \<Rightarrow> (string, PatchLocation list) umap \<Rightarrow> (string, PatchLocation list) umap option" where
  "locate_patches fl workspace relative_path_prefix [] patches = Some patches"
| "locate_patches fl workspace relative_path_prefix ((name, file) # files) patches =
     (if \<not> fl_StartsWith fl name relative_path_prefix then None
      else
        (case FindAllPathLocation file (workspace @ ''/'' @ relative_path_prefix) of
           None \<Rightarrow> None
         | Some locations \<Rightarrow>
             locate_patches fl workspace relative_path_prefix files
               (umap_set (drop (length relative_path_prefix) name) locations patches)))"

definition GetOobOutput ::
  "flare \<Rightarrow> remote_ops \<Rightarrow> int \<Rightarrow> (string \<times> bytes) list \<Rightarrow> RemoteCxxTask
   \<Rightarrow> (((int \<times> string) + (bytes \<times> (string \<times> bytes) list)) \<times> RemoteCxxTask) option" where
  "GetOobOutput fl ro exit_code output_files t =
     (let t = t\<lparr>rx_write_cache := rx_write_cache_future t\<rparr> in
      if exit_code \<noteq> 0 then Some (Inr ([], []), t)
      else
        (let relative_path_prefix = rx_temporary_dir_extra_depth t @ ''/output'' in
         case locate_patches fl (rx_workspace_dir t) relative_path_prefix output_files [] of
           None \<Rightarrow> None
         | Some patches \<Rightarrow>
             Some (Inr (ro_PackExtraInfo ro patches,
                    map (\<lambda>(name, file). (drop (length relative_path_prefix) name, file)) output_files), t)))"

fun compress_files :: "remote_ops \<Rightarrow> (string \<times> bytes) list \<Rightarrow> (string \<times> bytes) list option" where
  "compress_files ro [] = Some []"
| "compress_files ro ((k, v) # files) =
     (case ro_Compress ro v of None \<Rightarrow> None | Some v' \<Rightarrow> map_option (Cons (k, v')) (compress_files ro files))"

text \<open>The result is the completed task and the entry handed to the writer of the cache, if any.\<close>

definition remote_OnCompletion ::
  "flare \<Rightarrow> (string list \<Rightarrow> bytes) \<Rightarrow> remote_ops \<Rightarrow> int \<Rightarrow> bytes \<Rightarrow> bytes \<Rightarrow> (string \<times> bytes) list \<Rightarrow> RemoteCxxTask
   \<Rightarrow> (RemoteCxxTask \<times> (string \<times> daemon_CacheEntry) option) option" where
  "remote_OnCompletion fl Blake3_of ro exit_code standard_output standard_error workspace_files t =
     (let t = t\<lparr>rx_exit_code := exit_code, rx_stdout := standard_output, rx_stderr := standard_error\<rparr> in
      case GetOobOutput fl ro exit_code workspace_files t of
        None \<Rightarrow> None
      | Some (Inl (code, message), t) \<Rightarrow>
          if code = 0 then None else Some (t\<lparr>rx_exit_code := code, rx_stdout := [], rx_stderr := message\<rparr>, None)
      | Some (Inr (extra_info, files), t) \<Rightarrow>
          (case compress_files ro files of
             None \<Rightarrow> None
           | Some compressed \<Rightarrow>
               (let t = t\<lparr>rx_extra_info := extra_info, rx_file_pack := ro_WriteKeyedNoncontiguousBuffers ro compressed\<rparr>;
                    fill = (case remote_GetCacheKey fl Blake3_of t of
                              Some key \<Rightarrow>
                                if exit_code = 0
                                then Some (key, \<lparr> de_exit_code = rx_exit_code t, de_standard_output = rx_stdout t,
                                                  de_standard_error = rx_stderr t, de_extra_info = rx_extra_info t,
                                                  de_files = rx_file_pack t \<rparr>)
                                else None
                            | None \<Rightarrow> None)
                in Some (t, fill))))"

section \<open>Lemmas\<close>

lemma remote_PrepareE:
  assumes "remote_Prepare fl ro registry workspace request fs = Some (Inr t, fs')"
  obtains compiler source depth where "TryGetCompilerPath (qc_env_desc request) registry = Some compiler"
    "ro_Decompress ro (qc_attachment request) = Some source" "qc_compression_algorithm request = COMPRESSION_ALGORITHM_ZSTD"
    "MakeLongLongRelativePathWith workspace (fl_EncodeHex fl (fl_Blake3 fl source)) = Some depth"
    "rx_source t = source" "rx_source_digest t = fl_EncodeHex fl (fl_Blake3 fl source)" "rx_env_desc t = qc_env_desc request"
    "rx_invocation_arguments t = qc_invocation_arguments request" "rx_temporary_dir_extra_depth t = depth" "rx_workspace_dir t = workspace"
    "rx_command_line t = compiler @ '' '' @ qc_invocation_arguments request @ '' -o '' @ workspace @ ''/'' @ depth @ ''/output.o''"
    "rx_write_cache_future t = VerifyTaskCachability (\<not> qc_disallow_cache_fill request) (qc_invocation_arguments request) source"
  using assms by (auto simp: remote_Prepare_def Let_def split: option.splits if_splits)

lemma locate_patches_spec:
  assumes fl: "flare_strings fl" and path: "NUL \<notin> set (ws @ ''/'' @ rel)"
    and names: "\<forall>(name, f) \<in> set files. prefix rel name \<and> length f < 2 ^ 32" "distinct (map fst files)"
  shows "\<exists>ps. locate_patches fl ws rel files acc = Some ps
     \<and> (\<forall>suff. map_of ps suff =
          (case map_of files (rel @ suff) of
             Some f \<Rightarrow> FindAllPathLocation f (ws @ ''/'' @ rel)
           | None \<Rightarrow> map_of acc suff))"
  using names
proof (induction files arbitrary: acc)
  case (Cons e files)
  obtain name f where e: "e = (name, f)" by (cases e)
  obtain suff where n: "name = rel @ suff" using Cons.prems(1) e by (auto simp: prefix_def)
  obtain locs where l: "FindAllPathLocation f (ws @ ''/'' @ rel) = Some locs"
    using FindAllPathLocation_eq [OF path, of f] Cons.prems(1) e by auto
  obtain ps where ps: "locate_patches fl ws rel files (umap_set suff locs acc) = Some ps"
    "\<forall>s. map_of ps s = (case map_of files (rel @ s) of Some f \<Rightarrow> FindAllPathLocation f (ws @ ''/'' @ rel) | None \<Rightarrow> map_of (umap_set suff locs acc) s)"
    using Cons.IH [of "umap_set suff locs acc"] Cons.prems by auto
  have "map_of files name = None" using Cons.prems(2) e by (simp add: map_of_eq_None_iff)
  then have "map_of ps s = (case map_of (e # files) (rel @ s) of Some f \<Rightarrow> FindAllPathLocation f (ws @ ''/'' @ rel) | None \<Rightarrow> map_of acc s)" for s
    using ps(2) e n l by (auto simp: umap_simps split: option.splits)
  with ps(1) e n l show ?case by (auto simp: flare_strings.StartsWith [OF fl])
qed simp

lemma map_of_filter_locs:
  "distinct (map fst ps) \<Longrightarrow> map_of (filter (\<lambda>(s, l). l \<noteq> []) ps) k = (case map_of ps k of Some l \<Rightarrow> if l = [] then None else Some l | None \<Rightarrow> None)"
  by (induction ps) (auto simp: map_of_eq_None_iff split: option.splits)

lemma locate_patches_distinct: "locate_patches fl ws rel files acc = Some ps \<Longrightarrow> distinct (map fst acc) \<Longrightarrow> distinct (map fst ps)"
proof (induction files arbitrary: acc)
  case (Cons e files)
  then show ?case by (cases e) (auto simp: umap_simps split: if_splits option.splits)
qed simp

text \<open>Creating a path in a file system that has directories only always succeeds.\<close>

lemma take_slash_parent:
  assumes "j \<le> length path" "0 < j" "path \<noteq> []" "hd path = slash"
  shows "\<exists>i < j. path ! i = slash \<and> GetDirectoryName (take j path) = Some (take i path)"
proof -
  have "slash \<in> set (take j path)" using assms by (cases path; cases j) auto
  then obtain d n where dn: "take j path = d @ slash # n" "slash \<notin> set n" by (meson split_list_last)
  have len: "length d + 1 + length n = j" using arg_cong [OF dn(1), of length] assms(1) by simp
  have "path ! length d = take j path ! length d" using len by simp
  also have "\<dots> = slash" by (simp add: dn(1))
  finally have "path ! length d = slash" .
  moreover have "take (length d) path = take (length d) (take j path)" using len by (simp add: min_def)
  then have "take (length d) path = d" by (simp add: dn(1))
  ultimately show ?thesis using len dn by (intro exI [of _ "length d"]) (simp add: GetDirectoryName_path)
qed

lemma mkdir_prefix:
  assumes "j \<le> length path" "0 < j" "path \<noteq> []" "hd path = slash" "\<forall>e \<in> set fs. snd e = Directory"
    "\<forall>i \<in> {1..<j}. path ! i = slash \<longrightarrow> map_of fs (take i path) = Some Directory"
  shows "\<exists>fs'. mkdir_if_missing (take j path) fs = Some fs' \<and> (\<forall>e \<in> set fs'. snd e = Directory)
     \<and> map_of fs' (take j path) = Some Directory \<and> (\<forall>p. map_of fs p = Some Directory \<longrightarrow> map_of fs' p = Some Directory)"
proof (cases "map_of fs (take j path)")
  case None
  obtain i where i: "i < j" "path ! i = slash" "GetDirectoryName (take j path) = Some (take i path)"
    using take_slash_parent [OF assms(1-4)] by blast
  have "take i path = [] \<or> is_directory fs (take i path)"
    using i assms(6) by (cases i) (auto simp: is_directory_def)
  then have "parent_exists (take j path) fs" using i(3) by (simp add: parent_exists_def)
  with None assms(1-3,5) show ?thesis by (auto simp: mkdir_if_missing_def)
next
  case (Some n)
  then have "n = Directory" using assms(5) map_of_SomeD by fastforce
  with Some assms(5) show ?thesis by (auto simp: mkdir_if_missing_def)
qed

lemma Mkdirs_total:
  assumes "path \<noteq> []" "hd path = slash" "\<forall>e \<in> set fs. snd e = Directory"
  shows "\<exists>fs'. Mkdirs path fs = Some fs'"
proof -
  have "\<exists>fs'. run_calls mkdir_if_missing (map (\<lambda>i. take i path) (filter (\<lambda>i. path ! i = slash) [1..<n])) fs = Some fs'
      \<and> (\<forall>e \<in> set fs'. snd e = Directory) \<and> (\<forall>i \<in> {1..<n}. path ! i = slash \<longrightarrow> map_of fs' (take i path) = Some Directory)"
    if "n \<le> length path" for n
    using that
  proof (induction n)
    case (Suc n)
    then obtain fs' where fs': "run_calls mkdir_if_missing (map (\<lambda>i. take i path) (filter (\<lambda>i. path ! i = slash) [1..<n])) fs = Some fs'"
      "\<forall>e \<in> set fs'. snd e = Directory" "\<forall>i \<in> {1..<n}. path ! i = slash \<longrightarrow> map_of fs' (take i path) = Some Directory"
      by auto
    show ?case
    proof (cases "0 < n \<and> path ! n = slash")
      case True
      obtain fs'' where "mkdir_if_missing (take n path) fs' = Some fs''" "\<forall>e \<in> set fs''. snd e = Directory"
        "map_of fs'' (take n path) = Some Directory" "\<forall>p. map_of fs' p = Some Directory \<longrightarrow> map_of fs'' p = Some Directory"
        using mkdir_prefix [OF _ _ assms(1,2) fs'(2,3)] True Suc.prems by auto
      with True fs' show ?thesis by (auto simp: run_calls_append less_Suc_eq)
    next
      case False
      with fs' show ?thesis by (cases n) (auto simp: less_Suc_eq)
    qed
  qed (use assms(3) in simp)
  from this [OF order_refl] obtain fs' where fs':
    "run_calls mkdir_if_missing (map (\<lambda>i. take i path) (filter (\<lambda>i. path ! i = slash) [1..<length path])) fs = Some fs'"
    "\<forall>e \<in> set fs'. snd e = Directory" "\<forall>i \<in> {1..<length path}. path ! i = slash \<longrightarrow> map_of fs' (take i path) = Some Directory"
    by blast
  have "\<exists>fs''. mkdir_if_missing path fs' = Some fs''"
    using mkdir_prefix [OF order_refl _ assms(1,2) fs'(2,3)] assms(1) by auto
  with fs'(1) show ?thesis by (auto simp: Mkdirs_def run_calls_append)
qed

section \<open>Properties\<close>

text \<open>The path patching over the whole system: whatever files of less than 4 GiB the servant's compiler wrote, the patches the
  servant reports make the wrapper replace the servant's path by the user's in all of them, and the
  wrapper never refuses them, as long as the user's path is not longer than the servant's.\<close>

lemma coverage_patches:
  assumes "flare_strings fl" "NUL \<notin> set (ws @ ''/'' @ rel)"
    "\<forall>(name, f) \<in> set files. prefix rel name \<and> length f < 2 ^ 32" "distinct (map fst files)" "length desired \<le> length (ws @ ''/'' @ rel)"
  shows "\<exists>ps. locate_patches fl ws rel files [] = Some ps
     \<and> (let out = map (\<lambda>(name, f). (drop (length rel) name, f)) files
        in PatchPathOccurrences out (filter (\<lambda>(s, l). l \<noteq> []) ps) desired
           = Some (Some (map (\<lambda>(s, f). (s, patch_reference (ws @ ''/'' @ rel) desired f)) out)))"
proof -
  let ?pre = "ws @ ''/'' @ rel" and ?out = "map (\<lambda>(name, f). (drop (length rel) name, f)) files"
  obtain ps where ps: "locate_patches fl ws rel files [] = Some ps"
    and lookup: "\<forall>suff. map_of ps suff = (case map_of files (rel @ suff) of Some f \<Rightarrow> FindAllPathLocation f ?pre | None \<Rightarrow> map_of [] suff)"
    using locate_patches_spec [OF assms(1-4)] by blast
  let ?ps = "filter (\<lambda>(s, l). l \<noteq> []) ps"
  have d: "distinct (map fst ps)" using locate_patches_distinct [OF ps] by simp
  have m: "map_of ?ps s = (case map_of files (rel @ s) of Some f \<Rightarrow> (case FindAllPathLocation f ?pre of Some l \<Rightarrow> if l = [] then None else Some l | None \<Rightarrow> None) | None \<Rightarrow> None)" for s
    using lookup by (auto simp: map_of_filter_locs [OF d] split: option.splits)
  have one: "apply_patches desired f (case map_of ?ps s of None \<Rightarrow> [] | Some locs \<Rightarrow> locs) = Some (Some (patch_reference ?pre desired f))"
    if "(s, f) \<in> set ?out" for s f
  proof -
    from that obtain name where name: "(name, f) \<in> set files" "s = drop (length rel) name" by auto
    then have "name = rel @ s" using assms(3) by (auto simp: prefix_def)
    then have "map_of files (rel @ s) = Some f" using name(1) assms(4) by simp
    moreover obtain locs where "FindAllPathLocation f ?pre = Some locs" "apply_patches desired f locs = Some (Some (patch_reference ?pre desired f))"
      using path_patching_correct [OF assms(2) _ assms(5), of f] name(1) assms(3) by auto
    ultimately show ?thesis using m by (auto split: if_splits)
  qed
  have "patch_files ?ps desired ?out = Some (Some (map (\<lambda>(s, f). (s, patch_reference ?pre desired f)) ?out))"
    by (rule patch_files_reference) (rule one)
  moreover have "s \<in> fst ` set ?out" if "(s, l) \<in> set ?ps" for s l
  proof -
    have "map_of ?ps s \<noteq> None" using that by (metis map_of_eq_None_iff fst_conv image_eqI)
    then obtain f where "map_of files (rel @ s) = Some f" using m [of s] by (auto split: option.splits)
    then have "(s, f) \<in> set ?out" by (force dest: map_of_SomeD)
    then show ?thesis by force
  qed
  ultimately show ?thesis using ps by (auto simp: PatchPathOccurrences_def Let_def list_all_iff)
qed

text \<open>C6. Both sides name a compilation alike: when the wrapper reported the digest of the source it sent, the
  servant's digest of the task is the one under which the local daemon looks for running tasks, and
  the key under which the servant may fill the cache is the one the local daemon reads.\<close>

theorem task_names_agree:
  assumes "remote_Prepare fl ro registry workspace (fst (StartTask token grant t)) fs = Some (Inr rt, fs')"
    "ro_Decompress ro (ct_preprocessed_source t) = Some source" "ct_source_digest t = fl_EncodeHex fl (fl_Blake3 fl source)"
    "remote_OnCompletion fl Blake3_of ro code out err workspace_files rt = Some (rt', fill)"
  shows "remote_GetDigest fl Blake3_of rt = GetDigest (CxxCompilationTask_ops fl Blake3_of unpack empty_patch) t
     \<and> (\<forall>key entry. fill = Some (key, entry) \<longrightarrow>
          key = GetCacheKey (CxxCompilationTask_ops fl Blake3_of unpack empty_patch) t \<and> ct_cache_control t \<noteq> CacheDisallow
          \<and> de_exit_code entry = 0 \<and> VerifyTaskCachability True (ct_invocation_arguments t) source)"
proof -
  from assms(1) obtain compiler depth where rt: "rx_source_digest rt = fl_EncodeHex fl (fl_Blake3 fl source)" "rx_env_desc rt = ct_env_desc t"
    "rx_invocation_arguments rt = ct_invocation_arguments t"
    "rx_write_cache_future rt = VerifyTaskCachability (ct_cache_control t \<noteq> CacheDisallow) (ct_invocation_arguments t) source"
    using assms(2) by (elim remote_PrepareE) (auto simp: StartTask_def)
  let ?rt = "rt\<lparr>rx_exit_code := code, rx_stdout := out, rx_stderr := err\<rparr>"
  obtain extra files where o: "GetOobOutput fl ro code workspace_files ?rt =
      Some (Inr (extra, files), ?rt\<lparr>rx_write_cache := rx_write_cache_future rt\<rparr>)"
    using assms(4) by (auto simp: remote_OnCompletion_def GetOobOutput_def Let_def split: option.splits if_splits)
  have fill: "fill = Some (key, entry) \<Longrightarrow>
      rx_write_cache_future rt \<and> code = 0 \<and> de_exit_code entry = code
      \<and> key = GetCxxCacheEntryKey fl Blake3_of (rx_env_desc rt) (rx_invocation_arguments rt) (rx_source_digest rt)" for key entry
    using assms(4) o by (auto simp: remote_OnCompletion_def remote_GetCacheKey_def Let_def split: option.splits if_splits)
  have allowed: "VerifyTaskCachability a args src \<Longrightarrow> a" for a args src
    by (simp add: VerifyTaskCachability_def split: if_splits)
  have digest: "remote_GetDigest fl Blake3_of rt = GetDigest (CxxCompilationTask_ops fl Blake3_of unpack empty_patch) t"
    by (simp add: remote_GetDigest_def CxxCompilationTask_ops_def rt assms(3))
  have "key = GetCacheKey (CxxCompilationTask_ops fl Blake3_of unpack empty_patch) t \<and> ct_cache_control t \<noteq> CacheDisallow
      \<and> de_exit_code entry = 0 \<and> VerifyTaskCachability True (ct_invocation_arguments t) source"
    if f: "fill = Some (key, entry)" for key entry
  proof -
    have w: "VerifyTaskCachability (ct_cache_control t \<noteq> CacheDisallow) (ct_invocation_arguments t) source" using fill [OF f] rt(4) by simp
    then have c: "ct_cache_control t \<noteq> CacheDisallow" by (rule allowed)
    with w fill [OF f] show ?thesis by (simp add: CxxCompilationTask_ops_def rt assms(3))
  qed
  with digest show ?thesis by blast
qed

definition demo_remote_ops :: remote_ops where
  "demo_remote_ops =
     \<lparr> ro_Decompress = Some, ro_Compress = Some, ro_WriteKeyedNoncontiguousBuffers = (\<lambda>fs. concat (map (\<lambda>(k, v). k @ v) fs)),
       ro_PackExtraInfo = (\<lambda>ps. concat (map fst ps)) \<rparr>"

text \<open>Every outcome of preparing a compilation, in a fresh workspace of ordinary length: an unknown compiler and
  an unreadable source are refused with their status, everything else is accepted with the command
  line of exactly the compiler the request named by its digest, and no check fails.\<close>

theorem remote_Prepare_outcomes:
  assumes "workspace \<noteq> []" "hd workspace = slash" "\<forall>e \<in> set fs. snd e = Directory"
    "\<And>b. length workspace + length (fl_EncodeHex fl (fl_Blake3 fl b)) + 2 \<le> kMaxPath"
  shows "case TryGetCompilerPath (qc_env_desc request) registry of
           None \<Rightarrow> remote_Prepare fl ro registry workspace request fs = Some (Inl DAEMON_STATUS_ENVIRONMENT_NOT_AVAILABLE, fs)
         | Some compiler \<Rightarrow>
             if qc_compression_algorithm request \<noteq> COMPRESSION_ALGORITHM_ZSTD \<or> ro_Decompress ro (qc_attachment request) = None
             then remote_Prepare fl ro registry workspace request fs = Some (Inl DAEMON_STATUS_INVALID_ARGUMENT, fs)
             else \<exists>t fs'. remote_Prepare fl ro registry workspace request fs = Some (Inr t, fs')
               \<and> remote_GetCommandLine t = compiler @ '' '' @ qc_invocation_arguments request @ '' -o '' @ workspace @ ''/'' @
                    rx_temporary_dir_extra_depth t @ ''/output.o''
               \<and> Some (rx_source t) = ro_Decompress ro (qc_attachment request)"
proof (cases "TryGetCompilerPath (qc_env_desc request) registry")
  case (Some compiler)
  show ?thesis
  proof (cases "qc_compression_algorithm request \<noteq> COMPRESSION_ALGORITHM_ZSTD \<or> ro_Decompress ro (qc_attachment request) = None")
    case False
    then obtain source where source: "ro_Decompress ro (qc_attachment request) = Some source" by auto
    obtain depth where depth: "MakeLongLongRelativePathWith workspace (fl_EncodeHex fl (fl_Blake3 fl source)) = Some depth"
      using MakeLongLongRelativePathWith_length [OF assms(4)] by blast
    obtain fs' where "Mkdirs (workspace @ ''/'' @ depth) fs = Some fs'"
      using Mkdirs_total [of "workspace @ ''/'' @ depth" fs] assms(1-3) by auto
    with Some False source depth show ?thesis
      by (simp add: remote_Prepare_def Let_def remote_GetCommandLine_def)
  qed (use Some in \<open>auto simp: remote_Prepare_def\<close>)
qed (simp add: remote_Prepare_def)

definition short_flare :: flare where
  "short_flare = reference_flare\<lparr> fl_Blake3 := take 32 \<rparr>"

definition demo_cxx_task :: "unit CxxCompilationTask" where
  "demo_cxx_task =
     \<lparr> ct_requestor_pid = 2, ct_env_desc = \<lparr> ed_compiler_digest = ''ELF'' \<rparr>, ct_source_path = ''a.cc'', ct_source_digest = ''int x;'',
       ct_invocation_arguments = ''-O2'', ct_cache_control = CacheAllow, ct_preprocessed_source = ''int x;'', ct_output = None \<rparr>"

definition demo_registry :: CompilerRegistry where
  "demo_registry = \<lparr> cg_compiler_paths = [(''ELF'', ''/usr/bin/g++-9'')], cg_environments = [\<lparr> ed_compiler_digest = ''ELF'' \<rparr>] \<rparr>"

lemma demo_Prepare_length: "length ''/w'' + length (fl_EncodeHex short_flare (fl_Blake3 short_flare b)) + 2 \<le> kMaxPath"
  by (simp add: short_flare_def reference_flare_def)

theorem remote_Prepare_outcomes_witness:
  "\<exists>t fs'. remote_Prepare short_flare demo_remote_ops demo_registry ''/w'' (fst (StartTask ''tok'' 5 demo_cxx_task)) [] = Some (Inr t, fs')
     \<and> remote_GetCommandLine t = ''/usr/bin/g++-9'' @ '' '' @ ''-O2'' @ '' -o '' @ ''/w'' @ ''/'' @ rx_temporary_dir_extra_depth t @ ''/output.o''"
  using remote_Prepare_outcomes [where workspace = "''/w''" and fs = "[]" and fl = short_flare
      and request = "fst (StartTask ''tok'' 5 demo_cxx_task)" and registry = demo_registry and ro = demo_remote_ops]
    demo_Prepare_length
  by (auto simp: StartTask_def demo_cxx_task_def demo_registry_def demo_remote_ops_def TryGetCompilerPath_def)

lemma demo_Prepare_accepts:
  "\<exists>rt fs'. remote_Prepare short_flare demo_remote_ops demo_registry ''/w'' (fst (StartTask ''tok'' 5 demo_cxx_task)) [] = Some (Inr rt, fs')"
proof -
  obtain depth where depth: "MakeLongLongRelativePathWith ''/w'' (fl_EncodeHex short_flare (fl_Blake3 short_flare ''int x;'')) = Some depth"
    using MakeLongLongRelativePathWith_length [OF demo_Prepare_length] by blast
  obtain fs' where "Mkdirs (''/w'' @ ''/'' @ depth) [] = Some fs'"
    using Mkdirs_total [of "''/w'' @ ''/'' @ depth" "[]"] by auto
  with depth show ?thesis
    by (simp add: remote_Prepare_def Let_def StartTask_def demo_cxx_task_def demo_registry_def demo_remote_ops_def TryGetCompilerPath_def)
qed

theorem task_names_agree_witness:
  "\<exists>rt fs'. remote_Prepare short_flare demo_remote_ops demo_registry ''/w'' (fst (StartTask ''tok'' 5 demo_cxx_task)) [] = Some (Inr rt, fs')
     \<and> remote_GetDigest short_flare concat rt = GetDigest (CxxCompilationTask_ops short_flare concat (\<lambda>_. None) ()) demo_cxx_task"
proof -
  obtain rt fs' where p: "remote_Prepare short_flare demo_remote_ops demo_registry ''/w'' (fst (StartTask ''tok'' 5 demo_cxx_task)) [] = Some (Inr rt, fs')"
    using demo_Prepare_accepts by blast
  obtain rt' fill where "remote_OnCompletion short_flare concat demo_remote_ops 1 [] [] [] rt = Some (rt', fill)"
    by (auto simp: remote_OnCompletion_def GetOobOutput_def Let_def)
  from task_names_agree [OF p _ _ this, of "''int x;''" "\<lambda>_. None" "()"] p show ?thesis
    by (auto simp: demo_remote_ops_def demo_cxx_task_def short_flare_def reference_flare_def)
qed

end
