(* ===== verification/Task_Dispatcher_Proofs.thy ===== *)
theory Task_Dispatcher_Proofs
  imports Task_Dispatcher
begin

text \<open>
  Correctness of the task dispatcher: the invariant that every operation keeps, the
  servant selection, what the periodic operations do to tasks and servants, and that no
  check of the code can fail.
\<close>

section \<open>Invariant\<close>

definition tasks_of :: "servant_ref \<Rightarrow> (nat, TaskDesc) umap \<Rightarrow> nat" where
  "tasks_of r ts = length (filter (\<lambda>e. tk_belonging_servant (snd e) = r) ts)"

text \<open>Tasks are keyed by their id, and each servant's counter is the number of its tasks.\<close>

definition tasks_ok :: "TaskDispatcher \<Rightarrow> bool" where
  "tasks_ok d \<longleftrightarrow>
     distinct (umap_keys (td_tasks d))
     \<and> (\<forall>e\<in>set (td_tasks d). tk_task_id (snd e) = fst e \<and> tk_belonging_servant (snd e) < td_next_ref d)
     \<and> (\<forall>r<td_next_ref d. sd_running_tasks (td_heap d r) = tasks_of r (td_tasks d))"

text \<open>Servants are registered once per location, and the bookkeeper knows live servants only.\<close>

definition registry_ok :: "TaskDispatcher \<Rightarrow> bool" where
  "registry_ok d \<longleftrightarrow>
     (\<forall>r\<in>set (td_servants d). r < td_next_ref d)
     \<and> distinct (map (servant_location_of d) (td_servants d))
     \<and> bookkeeper_ok (td_bookkeeper d)
     \<and> fst ` set (td_bookkeeper d) \<subseteq> servant_location_of d ` set (td_servants d)"

text \<open>No task outlives the registration of its servant.\<close>

definition no_orphans :: "TaskDispatcher \<Rightarrow> bool" where
  "no_orphans d \<longleftrightarrow> (\<forall>e\<in>set (td_tasks d). tk_belonging_servant (snd e) \<in> set (td_servants d))"

definition dispatcher_inv :: "TaskDispatcher \<Rightarrow> bool" where
  "dispatcher_inv d \<longleftrightarrow> tasks_ok d \<and> registry_ok d \<and> no_orphans d"

section \<open>Freeing tasks\<close>

lemma update_servant_simps [simp]:
  "td_servants (update_servant r f d) = td_servants d"
  "td_heap (update_servant r f d) = (td_heap d)(r := f (td_heap d r))"
  "td_next_ref (update_servant r f d) = td_next_ref d"
  "td_next_task_id (update_servant r f d) = td_next_task_id d"
  "td_tasks (update_servant r f d) = td_tasks d"
  "td_bookkeeper (update_servant r f d) = td_bookkeeper d"
  "td_min_memory_for_new_task (update_servant r f d) = td_min_memory_for_new_task d"
  "td_notifications (update_servant r f d) = td_notifications d"
  by (simp_all add: update_servant_def)

definition free_one :: "nat \<Rightarrow> TaskDesc \<Rightarrow> TaskDispatcher \<Rightarrow> TaskDispatcher" where
  "free_one e t d =
     update_servant (tk_belonging_servant t) (\<lambda>s. s\<lparr>sd_running_tasks := dec_size (sd_running_tasks s)\<rparr>) d
       \<lparr>td_tasks := umap_erase e (td_tasks d)\<rparr>"

lemma UnsafeFreeTasks_Cons:
  "UnsafeFreeTasks (e # es) d =
     (case map_of (td_tasks d) e of None \<Rightarrow> d | Some t \<Rightarrow> UnsafeFreeTasks es (free_one e t d))"
  by (simp add: free_one_def Let_def split: option.splits)

declare UnsafeFreeTasks.simps(2) [simp del]

lemma free_one_simps [simp]:
  "td_servants (free_one e t d) = td_servants d"
  "td_next_ref (free_one e t d) = td_next_ref d"
  "td_next_task_id (free_one e t d) = td_next_task_id d"
  "td_tasks (free_one e t d) = umap_erase e (td_tasks d)"
  "td_bookkeeper (free_one e t d) = td_bookkeeper d"
  "td_min_memory_for_new_task (free_one e t d) = td_min_memory_for_new_task d"
  "td_notifications (free_one e t d) = td_notifications d"
  "sd_personality (td_heap (free_one e t d) r) = sd_personality (td_heap d r)"
  "sd_expires_at (td_heap (free_one e t d) r) = sd_expires_at (td_heap d r)"
  by (simp_all add: free_one_def)

lemma UnsafeFreeTasks_frame [simp]:
  "td_servants (UnsafeFreeTasks es d) = td_servants d"
  "td_next_ref (UnsafeFreeTasks es d) = td_next_ref d"
  "td_next_task_id (UnsafeFreeTasks es d) = td_next_task_id d"
  "td_bookkeeper (UnsafeFreeTasks es d) = td_bookkeeper d"
  "td_min_memory_for_new_task (UnsafeFreeTasks es d) = td_min_memory_for_new_task d"
  "sd_personality (td_heap (UnsafeFreeTasks es d) r) = sd_personality (td_heap d r)"
  "sd_expires_at (td_heap (UnsafeFreeTasks es d) r) = sd_expires_at (td_heap d r)"
  by (induction es arbitrary: d) (auto simp: UnsafeFreeTasks_Cons split: option.splits)

lemma UnsafeFreeTasks_tasks_subset: "set (td_tasks (UnsafeFreeTasks es d)) \<subseteq> set (td_tasks d)"
proof (induction es arbitrary: d)
  case (Cons e es)
  have "set (td_tasks (UnsafeFreeTasks es (free_one e t d))) \<subseteq> set (td_tasks d)" for t
    using Cons [of "free_one e t d"] by (auto simp: umap_simps)
  then show ?case by (simp add: UnsafeFreeTasks_Cons split: option.splits)
qed simp

lemma tasks_of_Cons [simp]:
  "tasks_of r (e # ts) = (if tk_belonging_servant (snd e) = r then 1 else 0) + tasks_of r ts"
  by (simp add: tasks_of_def)

lemma tasks_of_Nil [simp]: "tasks_of r [] = 0"
  by (simp add: tasks_of_def)

lemma tasks_of_erase:
  assumes "distinct (umap_keys ts)" "map_of ts k = Some t"
  shows "tasks_of r ts = tasks_of r (umap_erase k ts) + (if tk_belonging_servant t = r then 1 else 0)"
  using map_of_Some_length_erase [OF assms, of "\<lambda>e. tk_belonging_servant (snd e) = r"]
  by (simp add: tasks_of_def)

lemma tasks_ok_free_one:
  assumes "tasks_ok d" "map_of (td_tasks d) e = Some t"
  shows "tasks_ok (free_one e t d)"
proof -
  have counts: "sd_running_tasks (td_heap (free_one e t d) r) = tasks_of r (umap_erase e (td_tasks d))"
    if "r < td_next_ref d" for r
    using assms that tasks_of_erase [of "td_tasks d" e t r]
    by (auto simp: tasks_ok_def free_one_def dec_size_def)
  with assms show ?thesis by (auto simp: tasks_ok_def umap_simps)
qed

lemma tasks_ok_UnsafeFreeTasks: "tasks_ok d \<Longrightarrow> tasks_ok (UnsafeFreeTasks es d)"
proof (induction es arbitrary: d)
  case Nil
  then show ?case by (simp add: tasks_ok_def)
next
  case (Cons e es)
  then show ?case
    using tasks_ok_free_one by (auto simp: UnsafeFreeTasks_Cons split: option.splits)
qed

text \<open>When every id is known (as in both sweeps) exactly these tasks go, and waiters are woken.\<close>

lemma UnsafeFreeTasks_known:
  assumes "distinct es" "set es \<subseteq> fst ` set (td_tasks d)"
  shows "td_tasks (UnsafeFreeTasks es d) = filter (\<lambda>e. fst e \<notin> set es) (td_tasks d)"
    and "td_notifications (UnsafeFreeTasks es d) = td_notifications d + 1"
proof -
  have "td_tasks (UnsafeFreeTasks es d) = filter (\<lambda>e. fst e \<notin> set es) (td_tasks d) \<and>
        td_notifications (UnsafeFreeTasks es d) = td_notifications d + 1"
    using assms
  proof (induction es arbitrary: d)
    case (Cons e es)
    then obtain t where t: "map_of (td_tasks d) e = Some t"
      by (metis domD dom_map_of_conv_image_fst list.set_intros(1) subsetD)
    have "set es \<subseteq> fst ` set (td_tasks (free_one e t d))"
      using Cons.prems by (force simp: umap_simps)
    with Cons.IH [of "free_one e t d"] Cons.prems(1) t show ?case
      by (auto simp: UnsafeFreeTasks_Cons umap_erase_def intro: filter_cong)
  qed simp
  then show "td_tasks (UnsafeFreeTasks es d) = filter (\<lambda>e. fst e \<notin> set es) (td_tasks d)"
    and "td_notifications (UnsafeFreeTasks es d) = td_notifications d + 1" by auto
qed

lemma distinct_keys_unique:
  "distinct (umap_keys m) \<Longrightarrow> e \<in> set m \<Longrightarrow> f \<in> set m \<Longrightarrow> fst e = fst f \<Longrightarrow> e = f"
  by (metis distinct_map inj_onD)

text \<open>Sweeping the tasks that satisfy a condition.\<close>

lemma UnsafeFreeTasks_sweep:
  assumes "distinct (umap_keys (td_tasks d))"
  shows "td_tasks (UnsafeFreeTasks (map fst (filter P (td_tasks d))) d) = filter (\<lambda>e. \<not> P e) (td_tasks d)"
    and "td_notifications (UnsafeFreeTasks (map fst (filter P (td_tasks d))) d) = td_notifications d + 1"
proof -
  let ?es = "map fst (filter P (td_tasks d))"
  have d: "distinct ?es" by (simp add: assms distinct_map_filter)
  have s: "set ?es \<subseteq> fst ` set (td_tasks d)" by auto
  have "fst e \<notin> set ?es \<longleftrightarrow> \<not> P e" if "e \<in> set (td_tasks d)" for e
    using that distinct_keys_unique [OF assms that] by force
  then show "td_tasks (UnsafeFreeTasks ?es d) = filter (\<lambda>e. \<not> P e) (td_tasks d)"
    unfolding UnsafeFreeTasks_known(1) [OF d s] by (intro filter_cong) auto
  show "td_notifications (UnsafeFreeTasks ?es d) = td_notifications d + 1"
    by (rule UnsafeFreeTasks_known(2) [OF d s])
qed

section \<open>Choosing a servant\<close>

text \<open>What the checks of the selection loop require of a candidate.\<close>

definition is_candidate :: "TaskDispatcher \<Rightarrow> servant_ref \<Rightarrow> bool" where
  "is_candidate d e \<longleftrightarrow> sd_running_tasks (td_heap d e) < GetCapacityAvailable d (td_heap d e)"

lemma GetCapacityAvailable_le_max_tasks:
  "sd_running_tasks s < GetCapacityAvailable d s \<Longrightarrow> GetCapacityAvailable d s \<le> sp_max_tasks (sd_personality s)"
  by (auto simp: GetCapacityAvailable_def Let_def split: if_splits)

lemma is_candidate_max_tasks:
  "is_candidate d e \<Longrightarrow> sd_running_tasks (td_heap d e) < sp_max_tasks (sd_personality (td_heap d e))"
  using GetCapacityAvailable_le_max_tasks by (fastforce simp: is_candidate_def)

lemma is_candidate_checks:
  assumes "is_candidate d e"
  shows "sp_max_tasks (sd_personality (td_heap d e)) \<noteq> 0" "GetCapacityAvailable d (td_heap d e) \<noteq> 0"
  using assms is_candidate_max_tasks [OF assms] by (auto simp: is_candidate_def)

lemma TryPick_loop_Cons:
  assumes "is_candidate d e"
  shows "TryPick_loop d pred (e # es) acc =
     (if \<not> pred (td_heap d e) then TryPick_loop d pred es acc
      else case acc of
             None \<Rightarrow> TryPick_loop d pred es (Some (e, utilization_of d e))
           | Some (r, u) \<Rightarrow>
               if utilization_of d e < u then TryPick_loop d pred es (Some (e, utilization_of d e))
               else TryPick_loop d pred es acc)"
  using is_candidate_max_tasks [OF assms] is_candidate_checks [OF assms] by (simp add: Let_def)

declare TryPick_loop.simps(2) [simp del]

text \<open>The accumulator is the least utilised servant seen so far.\<close>

definition best_of ::
  "TaskDispatcher \<Rightarrow> (ServantDesc \<Rightarrow> bool) \<Rightarrow> servant_ref list \<Rightarrow> (servant_ref \<times> rat) option \<Rightarrow> bool" where
  "best_of d pred es acc \<longleftrightarrow>
     (case acc of
        None \<Rightarrow> \<forall>e\<in>set es. \<not> pred (td_heap d e)
      | Some (r, u) \<Rightarrow>
          r \<in> set es \<and> pred (td_heap d r) \<and> u = utilization_of d r
          \<and> (\<forall>e\<in>set es. pred (td_heap d e) \<longrightarrow> u \<le> utilization_of d e))"

lemma TryPick_loop_best:
  assumes "\<forall>e\<in>set es. is_candidate d e" "best_of d pred seen acc"
  shows "\<exists>acc'. TryPick_loop d pred es acc = Some acc' \<and> best_of d pred (seen @ es) acc'"
  using assms
proof (induction es arbitrary: seen acc)
  case Nil
  then show ?case by simp
next
  case (Cons e es)
  let ?new = "Some (e, utilization_of d e)"
  have c: "is_candidate d e" using Cons.prems(1) by simp
  have next_step: "\<exists>acc'. TryPick_loop d pred es a = Some acc' \<and> best_of d pred (seen @ e # es) acc'"
    if "best_of d pred (seen @ [e]) a" for a
    using Cons.IH [of "seen @ [e]" a] Cons.prems(1) that by simp
  show ?case
  proof (cases "\<not> pred (td_heap d e) \<or> (\<exists>r u. acc = Some (r, u) \<and> \<not> utilization_of d e < u)")
    case True
    then have "best_of d pred (seen @ [e]) acc"
      using Cons.prems(2) by (auto simp: best_of_def split: option.splits)
    moreover have "TryPick_loop d pred (e # es) acc = TryPick_loop d pred es acc"
      using True by (auto simp: TryPick_loop_Cons [OF c] split: option.splits)
    ultimately show ?thesis using next_step [of acc] by auto
  next
    case False
    then have "best_of d pred (seen @ [e]) ?new"
      using Cons.prems(2) by (auto simp: best_of_def split: option.splits)
    moreover have "TryPick_loop d pred (e # es) acc = TryPick_loop d pred es ?new"
      using False by (auto simp: TryPick_loop_Cons [OF c] split: option.splits)
    ultimately show ?thesis using next_step [of ?new] by auto
  qed
qed

text \<open>Among the servants that satisfy the predicate, one of least utilisation is returned.\<close>

definition least_utilized :: "TaskDispatcher \<Rightarrow> servant_ref set \<Rightarrow> servant_ref \<Rightarrow> bool" where
  "least_utilized d S r \<longleftrightarrow> r \<in> S \<and> (\<forall>e\<in>S. utilization_of d r \<le> utilization_of d e)"

lemma UnsafeTryPickServantFor_cases:
  assumes "\<forall>e\<in>set es. is_candidate d e"
  shows "(UnsafeTryPickServantFor d es pred = Some None \<and> {e \<in> set es. pred (td_heap d e)} = {}) \<or>
         (\<exists>r. UnsafeTryPickServantFor d es pred = Some (Some r) \<and>
              least_utilized d {e \<in> set es. pred (td_heap d e)} r)"
proof -
  obtain acc where "TryPick_loop d pred es None = Some acc" "best_of d pred es acc"
    using TryPick_loop_best [OF assms, of pred "[]" None] by (auto simp: best_of_def)
  then show ?thesis
    by (cases acc) (auto simp: UnsafeTryPickServantFor_def best_of_def least_utilized_def)
qed

lemma extract_first_None: "extract_first P xs = (None, ys) \<Longrightarrow> ys = xs \<and> (\<forall>x\<in>set xs. \<not> P x)"
  by (induction xs arbitrary: ys) (auto split: prod.splits if_splits)

lemma extract_first_Some:
  "extract_first P xs = (Some x, ys) \<Longrightarrow>
   P x \<and> (\<exists>us vs. xs = us @ x # vs \<and> ys = us @ vs \<and> (\<forall>u\<in>set us. \<not> P u))"
proof (induction xs arbitrary: ys)
  case (Cons a xs)
  show ?case
  proof (cases "P a")
    case True
    with Cons.prems show ?thesis by (auto intro: exI [of _ "[]"])
  next
    case False
    with Cons.prems obtain zs where z: "extract_first P xs = (Some x, zs)" "ys = a # zs"
      by (auto split: prod.splits)
    with Cons.IH obtain us vs where "P x" "xs = us @ x # vs" "zs = us @ vs" "\<forall>u\<in>set us. \<not> P u" by blast
    with z False show ?thesis by (intro conjI exI [of _ "a # us"] exI [of _ vs]) auto
  qed
qed simp

definition requestor_servant :: "flare \<Rightarrow> TaskDispatcher \<Rightarrow> string \<Rightarrow> servant_ref \<Rightarrow> bool" where
  "requestor_servant fl d requestor e \<longleftrightarrow> IsNetworkAddressEqual fl (servant_location_of d e) requestor"

text \<open>
  The candidates other than the requestor's own servant (the first that has its address).
\<close>

definition other_servants :: "flare \<Rightarrow> TaskDispatcher \<Rightarrow> string \<Rightarrow> servant_ref list \<Rightarrow> servant_ref set" where
  "other_servants fl d requestor es =
     (case find (requestor_servant fl d requestor) es of None \<Rightarrow> set es | Some s \<Rightarrow> set es - {s})"

lemma other_servants_extract:
  assumes "distinct es" "extract_first (requestor_servant fl d requestor) es = (self, others)"
  shows "set others = other_servants fl d requestor es"
    and "self = find (requestor_servant fl d requestor) es"
proof -
  have "set others = other_servants fl d requestor es \<and> self = find (requestor_servant fl d requestor) es"
  proof (cases self)
    case None
    then show ?thesis
      using assms(2) extract_first_None [of "requestor_servant fl d requestor" es others]
      by (simp add: other_servants_def find_eq_None)
  next
    case (Some s)
    with assms(2) obtain us vs where
      s: "requestor_servant fl d requestor s" "es = us @ s # vs" "others = us @ vs"
      "\<forall>u\<in>set us. \<not> requestor_servant fl d requestor u"
      using extract_first_Some [of "requestor_servant fl d requestor" es s others] by auto
    then have "find (requestor_servant fl d requestor) es = Some s"
      by (simp add: find_append_first)
    with s assms(1) Some show ?thesis by (auto simp: other_servants_def)
  qed
  then show "set others = other_servants fl d requestor es"
    and "self = find (requestor_servant fl d requestor) es" by auto
qed

text \<open>
  The specification of the choice: an idle dedicated servant of least utilisation if there
  is one besides the requestor, else any other servant of least utilisation, else the
  requestor itself.
\<close>

definition pick_spec :: "flare \<Rightarrow> TaskDispatcher \<Rightarrow> servant_ref list \<Rightarrow> string \<Rightarrow> servant_ref \<Rightarrow> bool" where
  "pick_spec fl d es requestor r \<longleftrightarrow>
     (let others = other_servants fl d requestor es;
          dedicated = {e \<in> others. is_idle_dedicated (td_heap d e)}
      in if dedicated \<noteq> {} then least_utilized d dedicated r
         else if others \<noteq> {} then least_utilized d others r
         else find (requestor_servant fl d requestor) es = Some r)"

lemma UnsafePickServantFor_spec:
  assumes "distinct es" "es \<noteq> []" "\<forall>e\<in>set es. is_candidate d e"
  shows "\<exists>r. UnsafePickServantFor fl d es requestor = Some r \<and> r \<in> set es \<and> pick_spec fl d es requestor r"
proof -
  obtain self others where ex: "extract_first (requestor_servant fl d requestor) es = (self, others)"
    by fastforce
  note so = other_servants_extract [OF assms(1) ex]
  have sub: "set others \<subseteq> set es" by (auto simp: so(1) other_servants_def split: option.splits)
  then have c: "\<forall>e\<in>set others. is_candidate d e" using assms(3) by blast
  have pick: "UnsafePickServantFor fl d es requestor =
     (case UnsafeTryPickServantFor d others is_idle_dedicated of
        None \<Rightarrow> None | Some (Some ptr) \<Rightarrow> Some ptr
      | Some None \<Rightarrow> (case UnsafeTryPickServantFor d others (\<lambda>_. True) of
          None \<Rightarrow> None | Some (Some ptr) \<Rightarrow> Some ptr
        | Some None \<Rightarrow> (case self of None \<Rightarrow> None
            | Some s \<Rightarrow> if GetCapacityAvailable d (td_heap d s) = 0 then None else Some s)))"
    using ex unfolding requestor_servant_def [abs_def] UnsafePickServantFor_def
      UnsafeTryPickDedicatedServantFor_def UnsafeTryPickAvailableServantFor_def by simp
  have self: "\<exists>s. self = Some s \<and> s \<in> set es" if "others = []"
    using that so assms(2)
    by (cases "find (requestor_servant fl d requestor) es") (auto simp: other_servants_def dest: find_SomeD)
  show ?thesis
  proof (cases "others = []")
    case True
    with self obtain s where s: "self = Some s" "s \<in> set es" by blast
    then have "GetCapacityAvailable d (td_heap d s) \<noteq> 0" using assms(3) is_candidate_checks by blast
    then have "UnsafePickServantFor fl d es requestor = Some s"
      using True s by (simp add: pick UnsafeTryPickServantFor_def)
    with s so True show ?thesis by (auto simp: pick_spec_def)
  next
    case False
    then have "other_servants fl d requestor es \<noteq> {}" using so(1) by auto
    with UnsafeTryPickServantFor_cases [OF c, of is_idle_dedicated]
      UnsafeTryPickServantFor_cases [OF c, of "\<lambda>_. True"] sub show ?thesis
      unfolding pick pick_spec_def so(1) by (auto simp: least_utilized_def Let_def)
  qed
qed

section \<open>Every operation keeps the invariant\<close>

lemma registry_ok_cong:
  assumes "registry_ok d" "td_servants d' = td_servants d" "td_next_ref d' = td_next_ref d"
    "td_bookkeeper d' = td_bookkeeper d" "\<And>r. servant_location_of d' r = servant_location_of d r"
  shows "registry_ok d'"
  using assms unfolding registry_ok_def by simp

lemma free_keeps_inv: "dispatcher_inv d \<Longrightarrow> dispatcher_inv (UnsafeFreeTasks es d)"
  using UnsafeFreeTasks_tasks_subset [of es d]
  by (auto simp: dispatcher_inv_def no_orphans_def intro: tasks_ok_UnsafeFreeTasks registry_ok_cong)

lemma inv_distinct_tasks: "dispatcher_inv d \<Longrightarrow> distinct (umap_keys (td_tasks d))"
  by (simp add: dispatcher_inv_def tasks_ok_def)

lemma inv_distinct_servants: "dispatcher_inv d \<Longrightarrow> distinct (td_servants d)"
  by (auto simp: dispatcher_inv_def registry_ok_def distinct_map)

lemma free_servants_distinct:
  "dispatcher_inv d \<Longrightarrow> distinct (UnsafeEnumerateFreeServants (UnsafeEnumerateEligibleServants p d) d)"
  by (simp add: UnsafeEnumerateFreeServants_def UnsafeEnumerateEligibleServants_def inv_distinct_servants)

lemma free_servants_candidates:
  "\<forall>e\<in>set (UnsafeEnumerateFreeServants es d). is_candidate d e"
  by (simp add: UnsafeEnumerateFreeServants_def is_candidate_def)

lemma free_servants_subset:
  "set (UnsafeEnumerateFreeServants (UnsafeEnumerateEligibleServants p d) d) \<subseteq> set (td_servants d)"
  by (auto simp: UnsafeEnumerateFreeServants_def UnsafeEnumerateEligibleServants_def)

lemma record_allocation_inv:
  assumes "dispatcher_inv d" "pick \<in> set (td_servants d)"
    "record_allocation p expires_in prefetching now pick d = Some (a, d')"
  shows "dispatcher_inv d'"
proof -
  have fresh: "td_next_task_id d \<notin> fst ` set (td_tasks d)"
    using assms(3) by (auto simp: record_allocation_def Let_def map_of_eq_None_iff split: if_splits)
  have d': "d' = update_servant pick
              (\<lambda>s. s\<lparr>sd_running_tasks := sd_running_tasks s + 1,
                     sd_ever_assigned_tasks := sd_ever_assigned_tasks s + 1\<rparr>) d
            \<lparr>td_next_task_id := (td_next_task_id d + 1) mod 2 ^ 64,
             td_tasks := (td_next_task_id d,
                \<lparr>tk_task_id = td_next_task_id d, tk_personality = p, tk_belonging_servant = pick,
                 tk_started_at = now, tk_expires_at = now + expires_in,
                 tk_is_prefetch = prefetching, tk_zombie = False\<rparr>) # td_tasks d\<rparr>"
    using assms(3) by (auto simp: record_allocation_def Let_def split: if_splits)
  have "pick < td_next_ref d" using assms(1,2) by (auto simp: dispatcher_inv_def registry_ok_def)
  then have "tasks_ok d'" using assms(1) fresh by (auto simp: dispatcher_inv_def tasks_ok_def d')
  moreover have "registry_ok d'"
    using assms(1) by (auto simp: d' dispatcher_inv_def intro!: registry_ok_cong [of d])
  moreover have "no_orphans d'" using assms(1,2) by (auto simp: d' dispatcher_inv_def no_orphans_def)
  ultimately show ?thesis by (simp add: dispatcher_inv_def)
qed

text \<open>The three outcomes of a pass over the servants.\<close>

lemma StartNewTask_pass_cases:
  assumes "dispatcher_inv d"
  obtains
    (no_env) "UnsafeEnumerateEligibleServants p d = []"
      "StartNewTask_pass fl p expires_in prefetching now d = Some (PassReturn (Inl EnvironmentNotFound), d)"
  | (must_wait) "UnsafeEnumerateEligibleServants p d \<noteq> []"
      "UnsafeEnumerateFreeServants (UnsafeEnumerateEligibleServants p d) d = []"
      "StartNewTask_pass fl p expires_in prefetching now d = Some (PassMustWait, d)"
  | (picked) pick where
      "pick \<in> set (UnsafeEnumerateFreeServants (UnsafeEnumerateEligibleServants p d) d)"
      "pick_spec fl d (UnsafeEnumerateFreeServants (UnsafeEnumerateEligibleServants p d) d) (tp_requestor_ip p) pick"
      "StartNewTask_pass fl p expires_in prefetching now d =
         map_option (\<lambda>(a, d'). (PassReturn (Inr a), d')) (record_allocation p expires_in prefetching now pick d)"
proof -
  let ?el = "UnsafeEnumerateEligibleServants p d"
  let ?fr = "UnsafeEnumerateFreeServants ?el d"
  consider "?el = []" | "?el \<noteq> []" "?fr = []" | "?el \<noteq> []" "?fr \<noteq> []" by blast
  then show thesis
  proof cases
    case 1
    then show ?thesis using no_env by (simp add: StartNewTask_pass_def)
  next
    case 2
    then show ?thesis using must_wait by (simp add: StartNewTask_pass_def)
  next
    case 3
    obtain pick where "UnsafePickServantFor fl d ?fr (tp_requestor_ip p) = Some pick" "pick \<in> set ?fr"
      "pick_spec fl d ?fr (tp_requestor_ip p) pick"
      using UnsafePickServantFor_spec [OF free_servants_distinct [OF assms] 3(2) free_servants_candidates]
      by blast
    with 3 show ?thesis
      by (intro picked [of pick]) (auto simp: StartNewTask_pass_def Let_def split: option.splits)
  qed
qed

lemma StartNewTask_pass_inv:
  assumes "dispatcher_inv d" "StartNewTask_pass fl p expires_in prefetching now d = Some (r, d')"
  shows "dispatcher_inv d'"
proof (cases rule: StartNewTask_pass_cases [OF assms(1), where p = p and fl = fl
      and expires_in = expires_in and prefetching = prefetching and now = now, case_names no_env must_wait picked])
  case (picked pick)
  then obtain a where "record_allocation p expires_in prefetching now pick d = Some (a, d')"
    using assms(2) by (cases "record_allocation p expires_in prefetching now pick d") auto
  with picked(1) free_servants_subset show ?thesis
    using record_allocation_inv [OF assms(1)] by blast
qed (use assms in auto)

lemma tasks_of_map:
  "\<forall>e\<in>set ts. tk_belonging_servant (g e) = tk_belonging_servant (snd e) \<Longrightarrow>
   tasks_of r (map (\<lambda>e. (fst e, g e)) ts) = tasks_of r ts"
  by (induction ts) auto

lemma map_tasks_inv:
  assumes "dispatcher_inv d"
    "\<forall>e\<in>set (td_tasks d). tk_task_id (g e) = tk_task_id (snd e)
       \<and> tk_belonging_servant (g e) = tk_belonging_servant (snd e)"
  shows "dispatcher_inv (d\<lparr>td_tasks := map (\<lambda>e. (fst e, g e)) (td_tasks d)\<rparr>)"
  using assms tasks_of_map [of "td_tasks d" g]
  by (auto simp: dispatcher_inv_def tasks_ok_def registry_ok_def no_orphans_def comp_def)

lemma KeepTaskAlive_inv:
  assumes "dispatcher_inv d"
  shows "dispatcher_inv (snd (KeepTaskAlive i e now d))"
proof -
  let ?g = "\<lambda>x. if fst x = i then (snd x)\<lparr>tk_expires_at := now + e\<rparr> else snd x"
  have "umap_modify i (\<lambda>t. t\<lparr>tk_expires_at := now + e\<rparr>) (td_tasks d) = map (\<lambda>x. (fst x, ?g x)) (td_tasks d)"
    by (simp add: umap_modify_eq_map [OF inv_distinct_tasks [OF assms]])
  then show ?thesis
    using map_tasks_inv [OF assms, of ?g] assms by (auto simp: KeepTaskAlive_def split: option.splits)
qed

lemma find_servant_Some:
  "find_servant l d = Some r \<Longrightarrow> r \<in> set (td_servants d) \<and> servant_location_of d r = l"
  unfolding find_servant_def by (auto dest: find_SomeD)

lemma find_servant_None: "find_servant l d = None \<longleftrightarrow> l \<notin> servant_location_of d ` set (td_servants d)"
  by (auto simp: find_servant_def find_None_iff)

lemma KeepServantAlive_inv:
  assumes "dispatcher_inv d"
  shows "dispatcher_inv (KeepServantAlive s e now d)"
proof (cases "find_servant (sp_observed_location s) d")
  case (Some r)
  then have "servant_location_of d r = sp_observed_location s" using find_servant_Some by blast
  with assms Some show ?thesis
    unfolding KeepServantAlive_def
    by (auto simp: dispatcher_inv_def tasks_ok_def no_orphans_def intro!: registry_ok_cong [of d])
next
  case None
  let ?d' = "KeepServantAlive s e now d"
  let ?r = "td_next_ref d"
  have new: "td_servants ?d' = td_servants d @ [?r]" "td_next_ref ?d' = Suc ?r" "td_tasks ?d' = td_tasks d"
    "td_bookkeeper ?d' = td_bookkeeper d" "servant_location_of ?d' ?r = sp_observed_location s"
    "sd_running_tasks (td_heap ?d' ?r) = 0" "\<And>r. r \<noteq> ?r \<Longrightarrow> td_heap ?d' r = td_heap d r"
    using None by (auto simp: KeepServantAlive_def)
  have below: "r \<in> set (td_servants d) \<Longrightarrow> r < ?r" for r
    using assms by (auto simp: dispatcher_inv_def registry_ok_def)
  have "tasks_of ?r (td_tasks d) = 0"
    using assms by (auto simp: tasks_of_def dispatcher_inv_def tasks_ok_def filter_empty_conv)
  then have "tasks_ok ?d'"
    using assms new by (fastforce simp: dispatcher_inv_def tasks_ok_def less_Suc_eq)
  moreover have "map (servant_location_of ?d') (td_servants d) = map (servant_location_of d) (td_servants d)"
    using new(7) below by (metis (no_types, lifting) less_irrefl map_cong)
  then have locs: "map (servant_location_of ?d') (td_servants ?d') =
      map (servant_location_of d) (td_servants d) @ [sp_observed_location s]"
    using new(1,5) by simp
  have "registry_ok ?d'"
    using assms None below find_servant_None [of "sp_observed_location s" d]
    unfolding dispatcher_inv_def registry_ok_def set_map [symmetric] locs new(2,4)
    by (auto simp del: set_map map_eq_conv simp: less_Suc_eq new(1))
  moreover have "no_orphans ?d'" using assms new(1,3) by (auto simp: dispatcher_inv_def no_orphans_def)
  ultimately show ?thesis by (simp add: dispatcher_inv_def)
qed

lemma UnsafeSweepZombiesOf_effect:
  assumes "dispatcher_inv d"
  shows "dispatcher_inv (UnsafeSweepZombiesOf r R d)"
    and "td_tasks (UnsafeSweepZombiesOf r R d) =
         filter (\<lambda>e. \<not> (tk_belonging_servant (snd e) = r \<and> tk_zombie (snd e) \<and> fst e \<notin> R)) (td_tasks d)"
    and "td_notifications (UnsafeSweepZombiesOf r R d) = td_notifications d + 1"
  using free_keeps_inv [OF assms] UnsafeFreeTasks_sweep [OF inv_distinct_tasks [OF assms]]
  by (auto simp: UnsafeSweepZombiesOf_def)

lemma UnsafeSweepZombiesOf_frame [simp]:
  "td_servants (UnsafeSweepZombiesOf r R d) = td_servants d"
  "td_bookkeeper (UnsafeSweepZombiesOf r R d) = td_bookkeeper d"
  "td_next_task_id (UnsafeSweepZombiesOf r R d) = td_next_task_id d"
  "sd_personality (td_heap (UnsafeSweepZombiesOf r R d) x) = sd_personality (td_heap d x)"
  by (simp_all add: UnsafeSweepZombiesOf_def)

lemma NotifyServantRunningTasks_inv:
  assumes "dispatcher_inv d"
  shows "dispatcher_inv (snd (NotifyServantRunningTasks l ts d))"
proof (cases "find_servant l d")
  case (Some r)
  let ?d1 = "UnsafeSweepZombiesOf r (set (map rt_task_grant_id ts)) d"
  have "dispatcher_inv ?d1" by (rule UnsafeSweepZombiesOf_effect(1) [OF assms])
  moreover have "l \<in> servant_location_of ?d1 ` set (td_servants ?d1)"
    using find_servant_Some [OF Some] by auto
  ultimately have "dispatcher_inv (?d1\<lparr>td_bookkeeper := SetServantRunningTasks l kept (td_bookkeeper ?d1)\<rparr>)" for kept
    by (auto simp: dispatcher_inv_def tasks_ok_def registry_ok_def no_orphans_def umap_simps
        SetServantRunningTasks_def)
  with Some show ?thesis by (simp add: NotifyServantRunningTasks_def Let_def)
qed (use assms in \<open>simp add: NotifyServantRunningTasks_def\<close>)

lemma RemoveExpiredServants_loop_eq:
  "RemoveExpiredServants_loop now h es b =
     (filter (\<lambda>e. \<not> sd_expires_at (h e) < now) es,
      filter (\<lambda>x. fst x \<notin> (\<lambda>e. sp_observed_location (sd_personality (h e))) ` {e \<in> set es. sd_expires_at (h e) < now}) b)"
proof (induction es arbitrary: b)
  case (Cons e es)
  then show ?case
    by (auto simp: DropServant_def umap_erase_def intro!: filter_cong)
qed simp

text \<open>The state between the removal of expired servants and the sweep of their tasks.\<close>

lemma registry_ok_after_expiry:
  assumes "registry_ok d"
    "RemoveExpiredServants_loop now (td_heap d) (td_servants d) (td_bookkeeper d) = (alive, b)"
  shows "registry_ok (d\<lparr>td_servants := alive, td_bookkeeper := b\<rparr>)"
proof -
  let ?P = "\<lambda>e. \<not> sd_expires_at (td_heap d e) < now"
  have alive: "alive = filter ?P (td_servants d)"
    and b: "b = filter (\<lambda>x. fst x \<notin> servant_location_of d ` {e \<in> set (td_servants d). \<not> ?P e}) (td_bookkeeper d)"
    using assms(2) by (auto simp: RemoveExpiredServants_loop_eq)
  have "fst ` set b \<subseteq> servant_location_of d ` set alive"
    using assms(1) by (force simp: b alive registry_ok_def)
  moreover have "bookkeeper_ok b" using assms(1) by (simp add: b registry_ok_def distinct_map_filter)
  ultimately show ?thesis
    using assms(1) by (auto simp: alive registry_ok_def distinct_map_filter)
qed

lemma MakeExpiredTasksZombie_eq:
  "MakeExpiredTasksZombie now ts =
     map (\<lambda>e. (fst e, if tk_expires_at (snd e) < now then (snd e)\<lparr>tk_zombie := True\<rparr> else snd e)) ts"
  by (auto simp: MakeExpiredTasksZombie_def)

lemma UnsafeSweepOrphans_inv:
  assumes "tasks_ok d" "registry_ok d"
  shows "dispatcher_inv (UnsafeSweepOrphans d)"
    and "td_tasks (UnsafeSweepOrphans d) =
         filter (\<lambda>e. tk_belonging_servant (snd e) \<in> set (td_servants d)) (td_tasks d)"
    and "td_notifications (UnsafeSweepOrphans d) = td_notifications d + 1"
proof -
  have "distinct (umap_keys (td_tasks d))" using assms(1) by (simp add: tasks_ok_def)
  note sweep = UnsafeFreeTasks_sweep [OF this, of "\<lambda>e. tk_belonging_servant (snd e) \<notin> set (td_servants d)"]
  show t: "td_tasks (UnsafeSweepOrphans d) =
         filter (\<lambda>e. tk_belonging_servant (snd e) \<in> set (td_servants d)) (td_tasks d)"
    and "td_notifications (UnsafeSweepOrphans d) = td_notifications d + 1"
    using sweep by (simp_all add: UnsafeSweepOrphans_def)
  have "registry_ok (UnsafeSweepOrphans d)"
    using assms(2) by (rule registry_ok_cong) (simp_all add: UnsafeSweepOrphans_def)
  with assms(1) t show "dispatcher_inv (UnsafeSweepOrphans d)"
    by (auto simp: dispatcher_inv_def no_orphans_def UnsafeSweepOrphans_def intro: tasks_ok_UnsafeFreeTasks)
qed

text \<open>The exact effect of the timer.\<close>

definition unexpired :: "time_point \<Rightarrow> TaskDispatcher \<Rightarrow> servant_ref \<Rightarrow> bool" where
  "unexpired now d r \<longleftrightarrow> now \<le> sd_expires_at (td_heap d r)"

lemma OnExpirationTimer_effect:
  assumes "dispatcher_inv d"
  shows "dispatcher_inv (OnExpirationTimer now d)"
    and "td_servants (OnExpirationTimer now d) = filter (unexpired now d) (td_servants d)"
    and "td_tasks (OnExpirationTimer now d) =
         map (\<lambda>e. (fst e, if tk_expires_at (snd e) < now then (snd e)\<lparr>tk_zombie := True\<rparr> else snd e))
           (filter (\<lambda>e. unexpired now d (tk_belonging_servant (snd e))) (td_tasks d))"
    and "td_notifications (OnExpirationTimer now d) = td_notifications d + 1"
proof -
  obtain al b where loop:
    "RemoveExpiredServants_loop now (td_heap d) (td_servants d) (td_bookkeeper d) = (al, b)" by fastforce
  let ?d1 = "d\<lparr>td_servants := al, td_bookkeeper := b\<rparr>"
  let ?d2 = "UnsafeSweepOrphans ?d1"
  have al: "al = filter (unexpired now d) (td_servants d)"
    using loop by (simp add: RemoveExpiredServants_loop_eq unexpired_def [abs_def] not_less)
  have timer: "OnExpirationTimer now d = ?d2\<lparr>td_tasks := MakeExpiredTasksZombie now (td_tasks ?d2)\<rparr>"
    using loop by (simp add: OnExpirationTimer_def Let_def)
  have "tasks_ok ?d1" using assms(1) by (simp add: dispatcher_inv_def tasks_ok_def)
  moreover have "registry_ok ?d1"
    using assms(1) loop registry_ok_after_expiry by (simp add: dispatcher_inv_def)
  ultimately have d2: "dispatcher_inv ?d2" "td_tasks ?d2 =
      filter (\<lambda>e. tk_belonging_servant (snd e) \<in> set (td_servants ?d1)) (td_tasks ?d1)"
      "td_notifications ?d2 = td_notifications ?d1 + 1"
    using UnsafeSweepOrphans_inv [of ?d1] by blast+
  show "dispatcher_inv (OnExpirationTimer now d)"
    unfolding timer MakeExpiredTasksZombie_eq by (rule map_tasks_inv [OF d2(1)]) simp
  show "td_servants (OnExpirationTimer now d) = filter (unexpired now d) (td_servants d)"
    by (simp add: timer al UnsafeSweepOrphans_def)
  have "tk_belonging_servant (snd e) \<in> set al \<longleftrightarrow> unexpired now d (tk_belonging_servant (snd e))"
    if "e \<in> set (td_tasks d)" for e
    using that assms(1) by (auto simp: al dispatcher_inv_def no_orphans_def)
  then show "td_tasks (OnExpirationTimer now d) =
         map (\<lambda>e. (fst e, if tk_expires_at (snd e) < now then (snd e)\<lparr>tk_zombie := True\<rparr> else snd e))
           (filter (\<lambda>e. unexpired now d (tk_belonging_servant (snd e))) (td_tasks d))"
    by (simp add: timer MakeExpiredTasksZombie_eq d2(2) cong: filter_cong)
  show "td_notifications (OnExpirationTimer now d) = td_notifications d + 1"
    using d2(3) by (simp add: timer)
qed

lemma dispatcher_step_inv:
  "dispatcher_inv d \<Longrightarrow> dispatcher_step fl c d = Some d' \<Longrightarrow> dispatcher_inv d'"
  by (cases c) (auto simp: FreeTask_def intro: StartNewTask_pass_inv KeepTaskAlive_inv free_keeps_inv
      KeepServantAlive_inv NotifyServantRunningTasks_inv OnExpirationTimer_effect(1))

interpretation dispatcher: checked_machine "dispatcher_step fl" dispatcher_inv for fl
  by unfold_locales (rule dispatcher_step_inv)

lemma TaskDispatcher_ctor_inv: "TaskDispatcher_ctor fl flag h = Some d \<Longrightarrow> dispatcher_inv d"
  by (auto simp: TaskDispatcher_ctor_def dispatcher_inv_def tasks_ok_def registry_ok_def no_orphans_def
      split: option.splits)

section \<open>Task ids\<close>

definition ids_below :: "TaskDispatcher \<Rightarrow> bool" where
  "ids_below d \<longleftrightarrow> (\<forall>k\<in>fst ` set (td_tasks d). k < td_next_task_id d)"

lemma ids_below_subset:
  "ids_below d \<Longrightarrow> fst ` set (td_tasks d') \<subseteq> fst ` set (td_tasks d) \<Longrightarrow>
   td_next_task_id d' = td_next_task_id d \<Longrightarrow> ids_below d'"
  unfolding ids_below_def by (metis subsetD)

lemma record_allocation_defined:
  assumes "ids_below d" "td_next_task_id d + 1 < 2 ^ 64"
  shows "\<exists>a d'. record_allocation p e f now pick d = Some (a, d') \<and> ids_below d'
           \<and> td_next_task_id d' = td_next_task_id d + 1"
proof -
  have "map_of (td_tasks d) (td_next_task_id d) = None"
    using assms(1) by (auto simp: ids_below_def map_of_eq_None_iff)
  then show ?thesis
    using assms by (auto simp: record_allocation_def Let_def ids_below_def less_Suc_eq)
qed

lemma Notify_frame:
  assumes "dispatcher_inv d"
  shows "set (td_tasks (snd (NotifyServantRunningTasks l ts d))) \<subseteq> set (td_tasks d)
         \<and> td_next_task_id (snd (NotifyServantRunningTasks l ts d)) = td_next_task_id d"
  using UnsafeSweepZombiesOf_effect(2) [OF assms]
  by (auto simp: NotifyServantRunningTasks_def Let_def split: option.splits)

lemma OnExpirationTimer_next_id [simp]: "td_next_task_id (OnExpirationTimer now d) = td_next_task_id d"
  by (simp add: OnExpirationTimer_def UnsafeSweepOrphans_def Let_def split: prod.splits)

lemma keys_KeepTaskAlive: "fst ` set (td_tasks (snd (KeepTaskAlive i e now d))) = fst ` set (td_tasks d)"
  using keys_umap_modify [of i "\<lambda>t. t\<lparr>tk_expires_at := now + e\<rparr>" "td_tasks d"]
  by (auto simp: KeepTaskAlive_def simp flip: set_map split: option.splits)

lemma next_id_frame [simp]:
  "td_next_task_id (snd (KeepTaskAlive i e now d)) = td_next_task_id d"
  "td_next_task_id (KeepServantAlive s e now d) = td_next_task_id d"
  "td_tasks (KeepServantAlive s e now d) = td_tasks d"
  by (auto simp: KeepTaskAlive_def KeepServantAlive_def split: option.splits)

lemma dispatcher_step_defined:
  assumes "dispatcher_inv d" "ids_below d" "td_next_task_id d + 1 < 2 ^ 64"
  shows "\<exists>d'. dispatcher_step fl c d = Some d' \<and> ids_below d'
           \<and> td_next_task_id d \<le> td_next_task_id d' \<and> td_next_task_id d' \<le> td_next_task_id d + 1"
proof (cases c)
  case (CallStartNewTask p e f now)
  show ?thesis
  proof (cases rule: StartNewTask_pass_cases [OF assms(1), where p = p and fl = fl
      and expires_in = e and prefetching = f and now = now, case_names no_env must_wait picked])
    case (picked pick)
    then show ?thesis
      using record_allocation_defined [OF assms(2,3), of p e f now pick] CallStartNewTask by auto
  qed (use assms CallStartNewTask in auto)
next
  case (CallNotifyServantRunningTasks l ts)
  then show ?thesis
    using Notify_frame [OF assms(1), of l ts] ids_below_subset [OF assms(2) image_mono] by simp
next
  case (CallOnExpirationTimer now)
  have "fst ` set (td_tasks (OnExpirationTimer now d)) \<subseteq> fst ` set (td_tasks d)"
    by (force simp: OnExpirationTimer_effect(3) [OF assms(1)])
  then show ?thesis using CallOnExpirationTimer ids_below_subset [OF assms(2)] by auto
next
  case (CallFreeTask i)
  then show ?thesis
    using ids_below_subset [OF assms(2) image_mono [OF UnsafeFreeTasks_tasks_subset]] by (simp add: FreeTask_def)
next
  case (CallKeepTaskAlive i e now)
  then show ?thesis
    using ids_below_subset [OF assms(2), of "snd (KeepTaskAlive i e now d)"] keys_KeepTaskAlive by simp
qed (use assms in \<open>auto simp: ids_below_def\<close>)

lemma dispatcher_run_defined:
  assumes "dispatcher_inv d" "ids_below d" "td_next_task_id d + length cs < 2 ^ 64"
  shows "\<exists>d'. run_calls (dispatcher_step fl) cs d = Some d' \<and> dispatcher_inv d' \<and> ids_below d'
           \<and> td_next_task_id d \<le> td_next_task_id d' \<and> td_next_task_id d' \<le> td_next_task_id d + length cs"
  using assms
proof (induction cs arbitrary: d)
  case (Cons c cs)
  then obtain u where u: "dispatcher_step fl c d = Some u" "ids_below u"
    "td_next_task_id d \<le> td_next_task_id u" "td_next_task_id u \<le> td_next_task_id d + 1"
    using dispatcher_step_defined [of d fl c] by auto
  have "dispatcher_inv u" using Cons.prems(1) u(1) by (rule dispatcher_step_inv)
  with Cons.IH [of u] Cons.prems(3) u obtain d' where
    "run_calls (dispatcher_step fl) cs u = Some d'" "dispatcher_inv d'" "ids_below d'"
    "td_next_task_id u \<le> td_next_task_id d'" "td_next_task_id d' \<le> td_next_task_id u + length cs" by auto
  with u show ?case by simp
qed simp

lemma TaskDispatcher_ctor_ids:
  "TaskDispatcher_ctor fl flag h = Some d \<Longrightarrow> ids_below d \<and> td_next_task_id d = 0"
  by (auto simp: TaskDispatcher_ctor_def ids_below_def split: option.splits)

section \<open>Zombies\<close>

lemma map_of_filter_snd:
  "distinct (umap_keys m) \<Longrightarrow>
   map_of (filter P m) k = (case map_of m k of None \<Rightarrow> None | Some v \<Rightarrow> if P (k, v) then Some v else None)"
  by (induction m) (force simp: map_of_eq_None_iff split: option.splits)+

lemma map_of_map_snd: "map_of (map (\<lambda>e. (fst e, g e)) m) k = map_option (\<lambda>v. g (k, v)) (map_of m k)"
  by (induction m) auto

definition gone_or_zombie :: "nat \<Rightarrow> TaskDispatcher \<Rightarrow> bool" where
  "gone_or_zombie k d \<longleftrightarrow> (case map_of (td_tasks d) k of None \<Rightarrow> True | Some t \<Rightarrow> tk_zombie t)"

lemma gone_or_zombie_free: "gone_or_zombie k d \<Longrightarrow> gone_or_zombie k (UnsafeFreeTasks es d)"
proof (induction es arbitrary: d)
  case (Cons e es)
  have "gone_or_zombie k (free_one e t d)" for t
    using Cons.prems by (simp add: gone_or_zombie_def umap_simps)
  then show ?case using Cons by (auto simp: UnsafeFreeTasks_Cons split: option.splits)
qed (simp add: gone_or_zombie_def)

lemma gone_or_zombie_bookkeeper [simp]: "gone_or_zombie k (d\<lparr>td_bookkeeper := b\<rparr>) = gone_or_zombie k d"
  by (simp add: gone_or_zombie_def)

lemma gone_or_zombie_cong: "gone_or_zombie k d \<Longrightarrow> td_tasks d' = td_tasks d \<Longrightarrow> gone_or_zombie k d'"
  by (simp add: gone_or_zombie_def)

lemma gone_or_zombie_step:
  assumes "dispatcher_inv d" "gone_or_zombie k d" "k \<noteq> td_next_task_id d" "dispatcher_step fl c d = Some d'"
  shows "gone_or_zombie k d'"
proof (cases c)
  case (CallStartNewTask p e f now)
  show ?thesis
  proof (cases rule: StartNewTask_pass_cases [OF assms(1), where p = p and fl = fl
      and expires_in = e and prefetching = f and now = now, case_names no_env must_wait picked])
    case (picked pick)
    then obtain a where "record_allocation p e f now pick d = Some (a, d')"
      using assms(4) CallStartNewTask by (cases "record_allocation p e f now pick d") auto
    then show ?thesis
      using assms(2,3) by (auto simp: record_allocation_def Let_def gone_or_zombie_def split: if_splits)
  qed (use assms CallStartNewTask in auto)
next
  case (CallKeepTaskAlive i e now)
  then show ?thesis
    using assms(2,4) by (auto simp: KeepTaskAlive_def gone_or_zombie_def umap_simps split: option.splits if_splits)
next
  case (CallOnExpirationTimer now)
  have "distinct (umap_keys (td_tasks d))" using assms(1) by (rule inv_distinct_tasks)
  with assms CallOnExpirationTimer show ?thesis
    by (auto simp: gone_or_zombie_def OnExpirationTimer_effect(3) map_of_map_snd map_of_filter_snd
        split: option.splits if_splits)
next
  case (CallNotifyServantRunningTasks l ts)
  have "gone_or_zombie k (UnsafeSweepZombiesOf r R d)" for r R
    using assms(2) by (simp add: UnsafeSweepZombiesOf_def gone_or_zombie_free)
  with CallNotifyServantRunningTasks assms(2,4) show ?thesis
    by (auto simp: NotifyServantRunningTasks_def Let_def split: option.splits)
next
  case (CallFreeTask i)
  then show ?thesis using assms(2,4) gone_or_zombie_free by (auto simp: FreeTask_def)
next
  case (CallKeepServantAlive s e now)
  then show ?thesis using assms(2,4) by (auto intro: gone_or_zombie_cong)
qed

lemma gone_or_zombie_run:
  assumes "dispatcher_inv d" "ids_below d" "gone_or_zombie k d" "k < td_next_task_id d"
    "td_next_task_id d + length cs < 2 ^ 64" "run_calls (dispatcher_step fl) cs d = Some d'"
  shows "gone_or_zombie k d'"
  using assms
proof (induction cs arbitrary: d)
  case (Cons c cs)
  then obtain u where u: "dispatcher_step fl c d = Some u" "ids_below u"
    "td_next_task_id d \<le> td_next_task_id u" "td_next_task_id u \<le> td_next_task_id d + 1"
    using dispatcher_step_defined [of d fl c] by auto
  have "dispatcher_inv u" using Cons.prems(1) u(1) by (rule dispatcher_step_inv)
  moreover have "gone_or_zombie k u" using Cons.prems(1,3,4) u(1) by (auto intro: gone_or_zombie_step)
  moreover have "run_calls (dispatcher_step fl) cs u = Some d'" using Cons.prems(6) u(1) by simp
  ultimately show ?case using Cons.IH [of u] u Cons.prems(4,5) by auto
qed simp

section \<open>A concrete run\<close>

text \<open>Two servants (a user's and a dedicated one) and requests from the user's host.\<close>

definition demo_servant :: "string \<Rightarrow> ServantPriority \<Rightarrow> ServantPersonality" where
  "demo_servant loc prio =
     \<lparr>sp_version = 3, sp_observed_location = loc, sp_reported_location = loc,
      sp_environments = [\<lparr>ed_compiler_digest = ''gcc''\<rparr>], sp_num_processors = 4, sp_current_load = 0,
      sp_total_memory_in_bytes = 0, sp_memory_available_in_bytes = 0, sp_max_tasks = 2, sp_priority = prio,
      sp_not_accepting_task_reason = NOT_ACCEPTING_TASK_REASON_UNKNOWN\<rparr>"

definition demo_task :: TaskPersonality where
  "demo_task = \<lparr>tp_requestor_ip = ''10.0.0.1'', tp_min_version = 2, tp_env_desc = \<lparr>ed_compiler_digest = ''gcc''\<rparr>\<rparr>"

definition demo_heap :: "servant_ref \<Rightarrow> ServantDesc" where
  "demo_heap r = \<lparr>sd_personality = demo_servant [] SERVANT_PRIORITY_UNKNOWN, sd_discovered_at = 0,
     sd_expires_at = 0, sd_running_tasks = 0, sd_ever_assigned_tasks = 0\<rparr>"

definition demo_d0 :: TaskDispatcher where
  "demo_d0 = \<lparr>td_servants = [], td_heap = demo_heap, td_next_ref = 0, td_next_task_id = 0, td_tasks = [],
     td_bookkeeper = [], td_min_memory_for_new_task = 10, td_notifications = 0\<rparr>"

definition demo_calls :: "dispatcher_call list" where
  "demo_calls =
     [CallKeepServantAlive (demo_servant ''10.0.0.1:8336'' SERVANT_PRIORITY_USER) 100 0,
      CallKeepServantAlive (demo_servant ''10.0.0.2:8336'' SERVANT_PRIORITY_DEDICATED) 100 0,
      CallStartNewTask demo_task 10 False 1]"

definition demo_d1 :: TaskDispatcher where
  "demo_d1 = the (run_calls (dispatcher_step reference_flare) demo_calls demo_d0)"

lemma demo_d0_ctor: "TaskDispatcher_ctor reference_flare ''10B'' demo_heap = Some demo_d0"
proof -
  have "TryParseSize reference_flare ''10B'' = Some (Some 10)" by code_simp
  then show ?thesis by (simp add: TaskDispatcher_ctor_def demo_d0_def)
qed

lemma demo_run: "run_calls (dispatcher_step reference_flare) demo_calls demo_d0 = Some demo_d1"
proof -
  have "run_calls (dispatcher_step reference_flare) demo_calls demo_d0 \<noteq> None" by code_simp
  then show ?thesis by (auto simp: demo_d1_def)
qed

lemma demo_d1_inv: "dispatcher_inv demo_d1"
  using dispatcher.run_calls_inv [OF TaskDispatcher_ctor_inv [OF demo_d0_ctor] demo_run] .

section \<open>Properties\<close>

text \<open>C13. Whatever sequence of operations has run since the construction of the dispatcher,
  its bookkeeping is consistent: task ids are unique, every servant's \<open>running_tasks\<close> is
  exactly the number of tasks assigned to it, every task belongs to a registered servant,
  servants have distinct locations, and reported tasks are kept for registered servants
  only.\<close>

theorem dispatcher_reachable_invariant:
  assumes "TaskDispatcher_ctor fl flag h = Some d0" "reaches (dispatcher_step fl) d0 d"
  shows "dispatcher_inv d"
  using dispatcher.reaches_inv [OF assms(2)] TaskDispatcher_ctor_inv [OF assms(1)] by blast

theorem dispatcher_reachable_invariant_witness:
  "td_tasks demo_d1 \<noteq> [] \<and> dispatcher_inv demo_d1"
proof
  show "td_tasks demo_d1 \<noteq> []" by code_simp
  have "reaches (dispatcher_step reference_flare) demo_d0 demo_d1"
    unfolding reaches_iff_run_calls by (rule exI [of _ demo_calls], rule demo_run)
  then show "dispatcher_inv demo_d1" by (rule dispatcher_reachable_invariant [OF demo_d0_ctor])
qed

text \<open>C14. No check of the dispatcher can fail: every sequence of fewer than two to the power
  64 operations runs to its end without aborting the scheduler.\<close>

theorem dispatcher_never_aborts:
  assumes "TaskDispatcher_ctor fl flag h = Some d0" "length cs < 2 ^ 64"
  shows "\<exists>d. run_calls (dispatcher_step fl) cs d0 = Some d"
  using dispatcher_run_defined [OF TaskDispatcher_ctor_inv [OF assms(1)], of cs fl]
    TaskDispatcher_ctor_ids [OF assms(1)] assms(2) by auto

theorem dispatcher_never_aborts_witness:
  "\<exists>d. run_calls (dispatcher_step reference_flare) demo_calls demo_d0 = Some d"
  by (rule dispatcher_never_aborts [OF demo_d0_ctor]) (simp add: demo_calls_def)

text \<open>C15. An allocation goes to a registered servant that has the requested compiler and a
  recent enough version, and which stays within its available capacity (hence within its
  \<open>max_tasks\<close>) with the new task; the task is recorded under the returned id, not as a zombie
  and with the requested lease, and no other servant is touched.\<close>

theorem allocation_respects_capacity:
  assumes "dispatcher_inv d"
    "StartNewTask_pass fl p expires_in prefetching now d = Some (PassReturn (Inr a), d')"
  shows "\<exists>r\<in>set (td_servants d).
     ta_servant_location a = servant_location_of d r
     \<and> ContainsEnvironmentSlow (sp_environments (sd_personality (td_heap d r))) (tp_env_desc p)
     \<and> tp_min_version p \<le> to_uint32 (sp_version (sd_personality (td_heap d r)))
     \<and> sd_running_tasks (td_heap d' r) = sd_running_tasks (td_heap d r) + 1
     \<and> sd_running_tasks (td_heap d' r) \<le> GetCapacityAvailable d (td_heap d r)
     \<and> sd_running_tasks (td_heap d' r) \<le> sp_max_tasks (sd_personality (td_heap d r))
     \<and> (\<forall>x. x \<noteq> r \<longrightarrow> td_heap d' x = td_heap d x)
     \<and> map_of (td_tasks d) (ta_task_id a) = None
     \<and> td_tasks d' = (ta_task_id a,
          \<lparr>tk_task_id = ta_task_id a, tk_personality = p, tk_belonging_servant = r, tk_started_at = now,
           tk_expires_at = now + expires_in, tk_is_prefetch = prefetching, tk_zombie = False\<rparr>) # td_tasks d"
proof (cases rule: StartNewTask_pass_cases [OF assms(1), where p = p and fl = fl
      and expires_in = expires_in and prefetching = prefetching and now = now, case_names no_env must_wait picked])
  case (picked r)
  then have rec: "record_allocation p expires_in prefetching now r d = Some (a, d')"
    using assms(2) by (cases "record_allocation p expires_in prefetching now r d") auto
  have "is_candidate d r" using picked(1) free_servants_candidates by blast
  then have "sd_running_tasks (td_heap d r) + 1 \<le> GetCapacityAvailable d (td_heap d r)"
    "sd_running_tasks (td_heap d r) + 1 \<le> sp_max_tasks (sd_personality (td_heap d r))"
    using is_candidate_max_tasks [of d r] by (auto simp: is_candidate_def)
  moreover have "r \<in> set (UnsafeEnumerateEligibleServants p d)"
    using picked(1) by (auto simp: UnsafeEnumerateFreeServants_def)
  ultimately show ?thesis
    using rec by (intro bexI [of _ r])
      (auto simp: record_allocation_def Let_def UnsafeEnumerateEligibleServants_def split: if_splits)
qed (use assms(2) in auto)

theorem allocation_respects_capacity_witness:
  "\<exists>a d'. StartNewTask_pass reference_flare demo_task 10 False 2 demo_d1 = Some (PassReturn (Inr a), d')
     \<and> (\<exists>r\<in>set (td_servants demo_d1). ta_servant_location a = servant_location_of demo_d1 r
          \<and> sd_running_tasks (td_heap d' r) \<le> GetCapacityAvailable demo_d1 (td_heap demo_d1 r))"
proof -
  have "map_option fst (StartNewTask_pass reference_flare demo_task 10 False 2 demo_d1) =
        Some (PassReturn (Inr \<lparr>ta_task_id = 1, ta_servant_location = ''10.0.0.2:8336''\<rparr>))"
    by code_simp
  then obtain a d' where run: "StartNewTask_pass reference_flare demo_task 10 False 2 demo_d1 = Some (PassReturn (Inr a), d')"
    by auto
  from allocation_respects_capacity [OF demo_d1_inv run] run show ?thesis by blast
qed

text \<open>C16. Among the free servants the choice is: the least utilised of the idle dedicated ones,
  leaving out the requestor's own servant; if there is none, the least utilised of the
  others; and only when the requestor's servant is the sole candidate, that servant. The
  choice never aborts.\<close>

theorem pick_follows_preferences:
  assumes "distinct es" "es \<noteq> []" "\<forall>e\<in>set es. is_candidate d e"
  shows "\<exists>r. UnsafePickServantFor fl d es requestor = Some r \<and> r \<in> set es \<and> pick_spec fl d es requestor r"
  using UnsafePickServantFor_spec [OF assms] .

theorem pick_follows_preferences_witness:
  "UnsafePickServantFor reference_flare demo_d1 [0, 1] ''10.0.0.1'' = Some 1
   \<and> pick_spec reference_flare demo_d1 [0, 1] ''10.0.0.1'' 1"
proof -
  have "UnsafePickServantFor reference_flare demo_d1 [0, 1] ''10.0.0.1'' = Some 1" by code_simp
  moreover have "is_candidate demo_d1 0" "is_candidate demo_d1 1" by code_simp+
  ultimately show ?thesis
    using pick_follows_preferences [of "[0, 1]" demo_d1 reference_flare "''10.0.0.1''"] by auto
qed

text \<open>A servant's report: the answer lists exactly the reported grants that are not live
  tasks of this servant (all of them when the servant is not registered); the servant's
  zombies that it no longer runs are forgotten, nothing else is; and the reported live tasks
  become the bookkeeper's record of this servant.\<close>

theorem notify_returns_unknown_tasks:
  assumes "dispatcher_inv d"
  shows "case find_servant l d of
     None \<Rightarrow> NotifyServantRunningTasks l ts d = (map rt_task_grant_id ts, d)
   | Some r \<Rightarrow>
       (let live = (\<lambda>i. \<exists>t. map_of (td_tasks d) i = Some t \<and> tk_belonging_servant t = r \<and> \<not> tk_zombie t);
            d' = snd (NotifyServantRunningTasks l ts d)
        in fst (NotifyServantRunningTasks l ts d) =
             map rt_task_grant_id (filter (\<lambda>t. \<not> live (rt_task_grant_id t)) ts)
           \<and> td_tasks d' =
             filter (\<lambda>e. \<not> (tk_belonging_servant (snd e) = r \<and> tk_zombie (snd e)
                            \<and> fst e \<notin> set (map rt_task_grant_id ts))) (td_tasks d)
           \<and> map_of (td_bookkeeper d') l = Some (filter (\<lambda>t. live (rt_task_grant_id t)) ts))"
proof (cases "find_servant l d")
  case (Some r)
  let ?d1 = "UnsafeSweepZombiesOf r (set (map rt_task_grant_id ts)) d"
  note tasks = UnsafeSweepZombiesOf_effect(2) [OF assms]
  have live: "i \<in> fst ` set (filter (\<lambda>e. tk_belonging_servant (snd e) = r \<and> \<not> tk_zombie (snd e)) (td_tasks ?d1))
     \<longleftrightarrow> (\<exists>t. map_of (td_tasks d) i = Some t \<and> tk_belonging_servant t = r \<and> \<not> tk_zombie t)" for i
    using inv_distinct_tasks [OF assms]
    by (auto simp: tasks map_of_eq_Some_iff) (force simp: image_iff)+
  show ?thesis
    unfolding Some NotifyServantRunningTasks_def Let_def option.case live
    by (simp add: tasks umap_simps)
qed (simp add: NotifyServantRunningTasks_def)

definition demo_report :: "RunningTask list" where
  "demo_report = map (\<lambda>i. \<lparr>rt_servant_task_id = 7 + i, rt_task_grant_id = i,
     rt_servant_location = ''10.0.0.2:8336'', rt_task_digest = ''d''\<rparr>) [0, 5]"

theorem notify_returns_unknown_tasks_witness:
  "find_servant ''10.0.0.2:8336'' demo_d1 = Some 1
   \<and> fst (NotifyServantRunningTasks ''10.0.0.2:8336'' demo_report demo_d1) = [5]
   \<and> map_of (td_bookkeeper (snd (NotifyServantRunningTasks ''10.0.0.2:8336'' demo_report demo_d1)))
       ''10.0.0.2:8336'' = Some [demo_report ! 0]"
proof -
  have f: "find_servant ''10.0.0.2:8336'' demo_d1 = Some 1" by code_simp
  have k: "map_of (td_tasks demo_d1) 5 = None" by code_simp
  have "map_option (\<lambda>t. (tk_belonging_servant t, tk_zombie t)) (map_of (td_tasks demo_d1) 0) = Some (1, False)"
    by code_simp
  then obtain t where "map_of (td_tasks demo_d1) 0 = Some t" "tk_belonging_servant t = 1" "\<not> tk_zombie t"
    by auto
  with f k notify_returns_unknown_tasks [OF demo_d1_inv, of "''10.0.0.2:8336''" demo_report]
  show ?thesis by (simp add: demo_report_def Let_def)
qed

text \<open>C17. The periodic timer drops exactly the servants whose lease ended, forgets exactly the
  tasks of these servants, turns every other task past its lease into a zombie (which keeps
  its slot), and always wakes the waiting requests.\<close>

theorem expiration_timer_effect:
  assumes "dispatcher_inv d"
  shows "td_servants (OnExpirationTimer now d) = filter (unexpired now d) (td_servants d)
   \<and> td_tasks (OnExpirationTimer now d) =
       map (\<lambda>e. (fst e, if tk_expires_at (snd e) < now then (snd e)\<lparr>tk_zombie := True\<rparr> else snd e))
         (filter (\<lambda>e. unexpired now d (tk_belonging_servant (snd e))) (td_tasks d))
   \<and> td_notifications (OnExpirationTimer now d) = td_notifications d + 1"
  using OnExpirationTimer_effect(2,3,4) [OF assms] by blast

theorem expiration_timer_effect_witness:
  "map (tk_zombie \<circ> snd) (td_tasks (OnExpirationTimer 50 demo_d1)) = [True]
   \<and> td_servants (OnExpirationTimer 101 demo_d1) = []
   \<and> td_notifications (OnExpirationTimer 50 demo_d1) = td_notifications demo_d1 + 1"
proof -
  have "map (tk_zombie \<circ> snd) (td_tasks (OnExpirationTimer 50 demo_d1)) = [True]" by code_simp
  moreover have "filter (unexpired 101 demo_d1) (td_servants demo_d1) = []" by code_simp
  ultimately show ?thesis
    using expiration_timer_effect [OF demo_d1_inv, of 50] expiration_timer_effect [OF demo_d1_inv, of 101] by simp
qed

text \<open>C18. A task that became a zombie, or is gone, never becomes a live task again: no
  sequence of operations revives it, and a keep-alive that comes too late is refused (as long
  as the 64-bit ids have not wrapped around).\<close>

theorem zombie_never_revived:
  assumes "TaskDispatcher_ctor fl flag h = Some d0" "run_calls (dispatcher_step fl) cs d0 = Some d"
    "gone_or_zombie k d" "k < td_next_task_id d"
    "run_calls (dispatcher_step fl) cs' d = Some d'" "length cs + length cs' < 2 ^ 64"
  shows "gone_or_zombie k d' \<and> (\<forall>e now. fst (KeepTaskAlive k e now d') = False)"
proof -
  obtain u where "run_calls (dispatcher_step fl) cs d0 = Some u" "dispatcher_inv u" "ids_below u"
    "td_next_task_id u \<le> length cs"
    using dispatcher_run_defined [OF TaskDispatcher_ctor_inv [OF assms(1)], of cs fl]
      TaskDispatcher_ctor_ids [OF assms(1)] assms(6) by auto
  then have "gone_or_zombie k d'"
    using gone_or_zombie_run [of d k cs' fl d'] assms by auto
  then show ?thesis by (auto simp: gone_or_zombie_def KeepTaskAlive_def split: option.splits)
qed

theorem zombie_never_revived_witness:
  "gone_or_zombie 0 (snd (KeepTaskAlive 0 100 51 (OnExpirationTimer 50 demo_d1)))
   \<and> map fst (td_tasks (OnExpirationTimer 50 demo_d1)) = [0]"
proof -
  let ?d = "OnExpirationTimer 50 demo_d1"
  have run: "run_calls (dispatcher_step reference_flare) (demo_calls @ [CallOnExpirationTimer 50]) demo_d0 = Some ?d"
    by (simp add: run_calls_append demo_run)
  have z: "gone_or_zombie 0 ?d" by code_simp
  have n: "0 < td_next_task_id ?d" by code_simp
  have k: "map fst (td_tasks ?d) = [0]" by code_simp
  have "run_calls (dispatcher_step reference_flare) [CallKeepTaskAlive 0 100 51] ?d =
        Some (snd (KeepTaskAlive 0 100 51 ?d))" by simp
  from zombie_never_revived [OF demo_d0_ctor run z n this] k show ?thesis by (simp add: demo_calls_def)
qed

text \<open>A successful keep-alive protects the task for the whole new lease: no run of the timer
  within it makes the task a zombie or forgets it, while its servant's lease lasts.\<close>

theorem keep_alive_extends_lease:
  assumes "dispatcher_inv d" "KeepTaskAlive k e now d = (True, d')" "later \<le> now + e"
    "map_of (td_tasks d) k = Some t" "unexpired later d (tk_belonging_servant t)"
  shows "map_of (td_tasks (OnExpirationTimer later d')) k = Some (t\<lparr>tk_expires_at := now + e\<rparr>)
         \<and> \<not> tk_zombie t"
proof -
  have d': "d' = d\<lparr>td_tasks := umap_modify k (\<lambda>t. t\<lparr>tk_expires_at := now + e\<rparr>) (td_tasks d)\<rparr>" "\<not> tk_zombie t"
    using assms(2,4) by (auto simp: KeepTaskAlive_def split: if_splits)
  have inv: "dispatcher_inv d'" using KeepTaskAlive_inv [OF assms(1), of k e now] assms(2) by simp
  have t': "map_of (td_tasks d') k = Some (t\<lparr>tk_expires_at := now + e\<rparr>)" "td_heap d' = td_heap d"
    using assms(4) by (simp_all add: d'(1) map_of_umap_modify)
  then show ?thesis
    using assms(3,5) d'(2) unfolding OnExpirationTimer_effect(3) [OF inv] map_of_map_snd
      map_of_filter_snd [OF inv_distinct_tasks [OF inv]] by (simp add: unexpired_def)
qed

theorem keep_alive_extends_lease_witness:
  "\<exists>t. map_of (td_tasks (OnExpirationTimer 30 (snd (KeepTaskAlive 0 25 5 demo_d1)))) 0 = Some t
       \<and> tk_expires_at t = 30"
proof -
  have "map_option tk_belonging_servant (map_of (td_tasks demo_d1) 0) = Some 1" by code_simp
  then obtain t where t: "map_of (td_tasks demo_d1) 0 = Some t" "tk_belonging_servant t = 1" by auto
  have "fst (KeepTaskAlive 0 25 5 demo_d1)" by code_simp
  then have k: "KeepTaskAlive 0 25 5 demo_d1 = (True, snd (KeepTaskAlive 0 25 5 demo_d1))"
    by (simp add: prod_eq_iff)
  have "unexpired 30 demo_d1 1" by code_simp
  with keep_alive_extends_lease [OF demo_d1_inv k, of 30 t] t show ?thesis by simp
qed

section \<open>Cluster statistics\<close>

lemma to_uint64_cong: "x mod 2 ^ 64 = y mod 2 ^ 64 \<Longrightarrow> to_uint64 x = to_uint64 y"
  by (simp add: to_uint64_def)

lemma int_to_uint64: "int (to_uint64 x) = x mod 2 ^ 64"
  by (simp add: to_uint64_def)

abbreviation sum_servants :: "(servant_ref \<Rightarrow> int) \<Rightarrow> servant_ref list \<Rightarrow> int" where
  "sum_servants f es \<equiv> sum_list (map f es)"

lemma DumpInternals_loop_eq:
  "DumpInternals_loop d es (to_uint64 a, to_uint64 b, to_uint64 c) =
     (to_uint64 (a + sum_servants (\<lambda>e. int (sd_running_tasks (td_heap d e))) es),
      to_uint64 (b + sum_servants (\<lambda>e. int (sp_max_tasks (sd_personality (td_heap d e)))) es),
      to_uint64 (c + sum_servants (\<lambda>e. int (sp_max_tasks (sd_personality (td_heap d e)))
                                        - int (GetCapacityAvailable d (td_heap d e))) es))"
proof (induction es arbitrary: a b c)
  case (Cons e es)
  have w: "to_uint64 (int (to_uint64 x) + y) = to_uint64 (x + y)" for x y
    by (simp add: int_to_uint64 to_uint64_def mod_add_left_eq)
  show ?case
    using Cons by (simp add: Let_def w add.assoc)
qed simp

lemma to_int64_mod: "to_int64 (a mod 2 ^ 64 - b mod 2 ^ 64 - c mod 2 ^ 64) = to_int64 (a - b - c)"
proof -
  have "(a mod 2 ^ 64 - b mod 2 ^ 64 - c mod 2 ^ 64) mod 2 ^ 64 = (a - b - c) mod (2 ^ 64 :: int)"
    by (metis (no_types, opaque_lifting) mod_diff_eq mod_mod_trivial)
  then show ?thesis unfolding to_int64_def by (metis mod_add_left_eq)
qed

lemma sum_servants_diff: "sum_servants f es - sum_servants g es = sum_servants (\<lambda>e. f e - g e) es"
  by (induction es) auto

text \<open>The statistics of the cluster are computed in wrapping 64-bit arithmetic, also through
  differences that can be negative; below two to the power 63 the reported available capacity
  is nevertheless the sum of the servants' available capacities less the running tasks, and
  zero if that is negative.\<close>

theorem cluster_stats_capacity:
  assumes "sum_servants (\<lambda>e. int (GetCapacityAvailable d (td_heap d e))) (td_servants d) < 2 ^ 63"
    "sum_servants (\<lambda>e. int (sd_running_tasks (td_heap d e))) (td_servants d) < 2 ^ 63"
  shows "int (cs_running_tasks (DumpInternals d)) =
           sum_servants (\<lambda>e. int (sd_running_tasks (td_heap d e))) (td_servants d)
   \<and> int (cs_capacity_available (DumpInternals d)) =
       max 0 (sum_servants (\<lambda>e. int (GetCapacityAvailable d (td_heap d e))) (td_servants d)
              - sum_servants (\<lambda>e. int (sd_running_tasks (td_heap d e))) (td_servants d))"
proof -
  let ?run = "sum_servants (\<lambda>e. int (sd_running_tasks (td_heap d e))) (td_servants d)"
  let ?cap = "sum_servants (\<lambda>e. int (GetCapacityAvailable d (td_heap d e))) (td_servants d)"
  let ?max = "sum_servants (\<lambda>e. int (sp_max_tasks (sd_personality (td_heap d e)))) (td_servants d)"
  have pos: "0 \<le> ?run" "0 \<le> ?cap" by (auto intro!: sum_list_nonneg)
  have z: "to_uint64 0 = 0" by (simp add: to_uint64_def)
  have diff: "sum_servants (\<lambda>e. int (sp_max_tasks (sd_personality (td_heap d e)))
      - int (GetCapacityAvailable d (td_heap d e))) (td_servants d) = ?max - ?cap"
    by (rule sum_servants_diff [symmetric])
  have loop: "DumpInternals_loop d (td_servants d) (0, 0, 0) =
      (to_uint64 ?run, to_uint64 ?max, to_uint64 (?max - ?cap))"
    using DumpInternals_loop_eq [of d "td_servants d" 0 0 0] by (simp only: z diff add_0)
  have "to_int64 (?cap - ?run) = ?cap - ?run" using pos assms by (intro to_int64_id) auto
  moreover have "to_int64 (int (to_uint64 ?max) - int (to_uint64 ?run) - int (to_uint64 (?max - ?cap)))
      = to_int64 (?cap - ?run)"
    unfolding int_to_uint64 to_int64_mod by (simp add: algebra_simps)
  moreover have "int (to_uint64 ?run) = ?run" unfolding int_to_uint64 using pos assms by (intro mod_pos_pos_trivial) auto
  ultimately show ?thesis unfolding DumpInternals_def Let_def loop by (simp add: max.commute)
qed

theorem cluster_stats_capacity_witness: "int (cs_capacity_available (DumpInternals demo_d1)) = 3"
proof -
  have "sum_servants (\<lambda>e. int (GetCapacityAvailable demo_d1 (td_heap demo_d1 e))) (td_servants demo_d1) = 4"
    "sum_servants (\<lambda>e. int (sd_running_tasks (td_heap demo_d1 e))) (td_servants demo_d1) = 1" by code_simp+
  with cluster_stats_capacity [of demo_d1] show ?thesis by simp
qed

end
