(* ===== verification/Scheduler_Service.thy ===== *)
theory Scheduler_Service
  imports Task_Dispatcher_Proofs Token_Verifier
begin

text \<open>
  The scheduler's RPC service (\<^verbatim>\<open>scheduler/scheduler_service_impl.cc\<close>): verification of the
  caller, sanity checks of the request, and the calls to the task dispatcher. A handler
  returns a status (\<open>controller->SetFailed\<close>) or a response; \<open>None\<close> is an abort. The
  dispatcher singleton is passed explicitly, the remote peer is an argument, and the random
  bytes of a new token are an argument of the handlers that may draw one.
\<close>

section \<open>Data\<close>

datatype scheduler_status =
    STATUS_NO_QUOTA_AVAILABLE | STATUS_NOT_IMPLEMENTED | STATUS_ACCESS_DENIED
  | STATUS_INVALID_ARGUMENT | STATUS_VERSION_TOO_OLD | STATUS_ENVIRONMENT_NOT_AVAILABLE

datatype address_family = AF_INET | AF_INET6 | AF_other

text \<open>Flare's endpoints; parsing and printing are parameters.\<close>

record Endpoint =
  ep_Family :: address_family
  ep_Ip :: string
  ep_Port :: nat

record endpoint_api =
  ea_TryParse :: "string \<Rightarrow> Endpoint option"
  ea_ToString :: "Endpoint \<Rightarrow> string"

record HeartbeatRequest =
  hb_token :: string
  hb_next_heartbeat_in_ms :: nat
  hb_version :: nat
  hb_location :: string
  hb_num_processors :: nat
  hb_current_load :: nat
  hb_servant_priority :: int
  hb_not_accepting_task_reason :: nat
  hb_capacity :: nat
  hb_total_memory_in_bytes :: nat
  hb_memory_available_in_bytes :: nat
  hb_env_descs :: "EnvironmentDesc list"
  hb_running_tasks :: "RunningTask list"

record HeartbeatResponse =
  hr_acceptable_tokens :: "string list"
  hr_expired_tasks :: "nat list"

record WaitForStartingTaskRequest =
  wr_token :: string
  wr_milliseconds_to_wait :: nat
  wr_env_desc :: EnvironmentDesc
  wr_immediate_reqs :: nat
  wr_prefetch_reqs :: nat
  wr_next_keep_alive_in_ms :: nat
  wr_min_version :: nat

record SchedulerServiceImpl =
  ss_is_user_verifier :: TokenVerifier
  ss_is_servant_verifier :: TokenVerifier
  ss_next_rollout :: time_point
  ss_active_serving_daemon_tokens :: "string list"

text \<open>The command-line flags the service reads.\<close>

record scheduler_flags =
  sf_acceptable_user_tokens :: string
  sf_acceptable_servant_tokens :: string
  sf_min_daemon_version :: int
  sf_token_rollout_interval :: int

section \<open>Operations\<close>

definition NextServingDaemonToken :: "flare \<Rightarrow> bytes \<Rightarrow> string" where
  "NextServingDaemonToken fl rnd = fl_EncodeHex fl rnd"

definition SchedulerServiceImpl_ctor ::
  "flare \<Rightarrow> scheduler_flags \<Rightarrow> time_point \<Rightarrow> bytes \<times> bytes \<times> bytes \<Rightarrow> SchedulerServiceImpl option" where
  "SchedulerServiceImpl_ctor fl flags now rnd =
     (case rnd of (r0, r1, r2) \<Rightarrow>
      (case MakeTokenVerifierFromFlag fl (sf_acceptable_user_tokens flags) of
         None \<Rightarrow> None
       | Some user \<Rightarrow>
           (case MakeTokenVerifierFromFlag fl (sf_acceptable_servant_tokens flags) of
              None \<Rightarrow> None
            | Some servant \<Rightarrow>
                Some \<lparr>ss_is_user_verifier = user, ss_is_servant_verifier = servant,
                      ss_next_rollout = now + seconds (sf_token_rollout_interval flags),
                      ss_active_serving_daemon_tokens =
                        [NextServingDaemonToken fl r0, NextServingDaemonToken fl r1, NextServingDaemonToken fl r2]\<rparr>)))"

definition DetermineActiveServingDaemonTokens ::
  "flare \<Rightarrow> scheduler_flags \<Rightarrow> time_point \<Rightarrow> bytes \<Rightarrow> SchedulerServiceImpl
   \<Rightarrow> (string list \<times> SchedulerServiceImpl) option" where
  "DetermineActiveServingDaemonTokens fl flags now rnd s =
     (let s' = (if ss_next_rollout s < now
                then s\<lparr>ss_next_rollout := now + seconds (sf_token_rollout_interval flags),
                       ss_active_serving_daemon_tokens :=
                         tl (ss_active_serving_daemon_tokens s) @ [NextServingDaemonToken fl rnd]\<rparr>
                else s)
      in if length (ss_active_serving_daemon_tokens s') \<noteq> 3 then None
         else Some (ss_active_serving_daemon_tokens s', s'))"

definition servant_priority_of :: "int \<Rightarrow> ServantPriority" where
  "servant_priority_of v = (if v = 1 then SERVANT_PRIORITY_DEDICATED else SERVANT_PRIORITY_USER)"

definition not_accepting_reason_of :: "nat \<Rightarrow> NotAcceptingTaskReason" where
  "not_accepting_reason_of v =
     (if v = 0 then NOT_ACCEPTING_TASK_REASON_UNKNOWN
      else if v = 1 then NOT_ACCEPTING_TASK_REASON_USER_INSTRUCTED
      else if v = 2 then NOT_ACCEPTING_TASK_REASON_POOR_MACHINE
      else if v = 3 then NOT_ACCEPTING_TASK_REASON_CGROUPS_PRESENT
      else if v = 4 then NOT_ACCEPTING_TASK_REASON_BEHIND_NAT
      else if v = 100 then NOT_ACCEPTING_TASK_REASON_NOT_VERIFIED
      else NOT_ACCEPTING_TASK_REASON_unnamed v)"

definition observed_location_of :: "Endpoint \<Rightarrow> Endpoint \<Rightarrow> string option" where
  "observed_location_of remote opt =
     (case ep_Family remote of
        AF_INET \<Rightarrow> Some (ep_Ip remote @ '':'' @ to_string (ep_Port opt))
      | AF_INET6 \<Rightarrow> Some (''['' @ ep_Ip remote @ '']:'' @ to_string (ep_Port opt))
      | AF_other \<Rightarrow> None)"

text \<open>The descriptor of a servant as the handler fills it in.\<close>

definition heartbeat_personality ::
  "SchedulerServiceImpl \<Rightarrow> HeartbeatRequest \<Rightarrow> string \<Rightarrow> string \<Rightarrow> ServantPersonality" where
  "heartbeat_personality s request observed_location reported_location =
     (let num_processors = (if hb_num_processors request = 0 then hb_capacity request else hb_num_processors request);
          (max_tasks1, reason1) =
            (if observed_location \<noteq> reported_location then (0, NOT_ACCEPTING_TASK_REASON_BEHIND_NAT)
             else (hb_capacity request, not_accepting_reason_of (hb_not_accepting_task_reason request)));
          (max_tasks2, reason2) =
            (if \<not> Verify (ss_is_servant_verifier s) (hb_token request)
             then (0, NOT_ACCEPTING_TASK_REASON_NOT_VERIFIED) else (max_tasks1, reason1));
          max_tasks3 = (if hb_next_heartbeat_in_ms request = 0 then 0 else max_tasks2)
      in \<lparr>sp_version = to_int32 (int (hb_version request)), sp_observed_location = observed_location,
          sp_reported_location = reported_location, sp_environments = hb_env_descs request,
          sp_num_processors = num_processors, sp_current_load = hb_current_load request,
          sp_total_memory_in_bytes = hb_total_memory_in_bytes request,
          sp_memory_available_in_bytes = hb_memory_available_in_bytes request, sp_max_tasks = max_tasks3,
          sp_priority = servant_priority_of (hb_servant_priority request),
          sp_not_accepting_task_reason = reason2\<rparr>)"

definition Heartbeat ::
  "flare \<Rightarrow> endpoint_api \<Rightarrow> scheduler_flags \<Rightarrow> Endpoint \<Rightarrow> HeartbeatRequest \<Rightarrow> time_point \<Rightarrow> bytes
   \<Rightarrow> SchedulerServiceImpl \<Rightarrow> TaskDispatcher
   \<Rightarrow> ((scheduler_status + HeartbeatResponse) \<times> SchedulerServiceImpl \<times> TaskDispatcher) option" where
  "Heartbeat fl ea flags remote request now rnd s d =
     (if \<not> Verify (ss_is_user_verifier s) (hb_token request) \<and> \<not> Verify (ss_is_servant_verifier s) (hb_token request)
      then Some (Inl STATUS_ACCESS_DENIED, s, d)
      else if hb_version request < to_uint32 (sf_min_daemon_version flags)
      then Some (Inl STATUS_VERSION_TOO_OLD, s, d)
      else
        (case ea_TryParse ea (hb_location request) of
           None \<Rightarrow> Some (Inl STATUS_INVALID_ARGUMENT, s, d)
         | Some opt \<Rightarrow>
             (case observed_location_of remote opt of
                None \<Rightarrow> None
              | Some observed_location \<Rightarrow>
                  (let reported_location = ea_ToString ea opt;
                       expires_in = milliseconds (int (hb_next_heartbeat_in_ms request))
                   in if expires_in > seconds 30 then Some (Inl STATUS_INVALID_ARGUMENT, s, d)
                      else
                        (let servant = heartbeat_personality s request observed_location reported_location;
                             d1 = KeepServantAlive servant expires_in now d
                         in case DetermineActiveServingDaemonTokens fl flags now rnd s of
                              None \<Rightarrow> None
                            | Some (tokens, s') \<Rightarrow>
                                (let (expired_task, d2) =
                                   NotifyServantRunningTasks (hb_location request) (hb_running_tasks request) d1
                                 in Some (Inr \<lparr>hr_acceptable_tokens = tokens, hr_expired_tasks = expired_task\<rparr>, s', d2)))))))"

definition GetConfig ::
  "flare \<Rightarrow> scheduler_flags \<Rightarrow> string \<Rightarrow> time_point \<Rightarrow> bytes \<Rightarrow> SchedulerServiceImpl
   \<Rightarrow> ((scheduler_status + string) \<times> SchedulerServiceImpl) option" where
  "GetConfig fl flags token now rnd s =
     (if \<not> Verify (ss_is_user_verifier s) token then Some (Inl STATUS_ACCESS_DENIED, s)
      else
        (case DetermineActiveServingDaemonTokens fl flags now rnd s of
           None \<Rightarrow> None
         | Some (tokens, s') \<Rightarrow> Some (Inr (tokens ! 1), s')))"

text \<open>
  The environment of one call to \<open>WaitForStartingNewTask\<close>: what other threads do before it,
  the clock, and its wake-ups. The dispatcher's state is handed on from call to call.
\<close>

record wait_env =
  we_before :: "dispatcher_call list"
  we_now :: time_point
  we_wakes :: "wakeup list"

definition wait_one ::
  "flare \<Rightarrow> TaskPersonality \<Rightarrow> nanoseconds \<Rightarrow> bool \<Rightarrow> wait_env \<Rightarrow> TaskDispatcher
   \<Rightarrow> ((WaitStatus + TaskAllocation) option \<times> TaskDispatcher) option" where
  "wait_one fl task next_keep_alive prefetching env d =
     (case run_calls (dispatcher_step fl) (we_before env) d of
        None \<Rightarrow> None
      | Some d1 \<Rightarrow> WaitForStartingNewTask fl task next_keep_alive prefetching (we_now env) (we_wakes env) d1)"

text \<open>
  The two request loops. A loop ends with the grants so far, or with the status it fails with;
  \<open>None\<close> in the first component means that a call still waits when its wake-ups end.
\<close>

fun ImmediateReqs_loop ::
  "flare \<Rightarrow> TaskPersonality \<Rightarrow> nanoseconds \<Rightarrow> wait_env list \<Rightarrow> TaskAllocation list \<Rightarrow> TaskDispatcher
   \<Rightarrow> ((scheduler_status + TaskAllocation list) option \<times> TaskDispatcher) option" where
  "ImmediateReqs_loop fl task ka [] grants d = Some (Some (Inr grants), d)"
| "ImmediateReqs_loop fl task ka (env # envs) grants d =
     (case wait_one fl task ka False env d of
        None \<Rightarrow> None
      | Some (None, d') \<Rightarrow> Some (None, d')
      | Some (Some (Inl EnvironmentNotFound), d') \<Rightarrow> Some (Some (Inl STATUS_ENVIRONMENT_NOT_AVAILABLE), d')
      | Some (Some (Inl Timeout), d') \<Rightarrow> Some (Some (Inr grants), d')
      | Some (Some (Inr added), d') \<Rightarrow> ImmediateReqs_loop fl task ka envs (grants @ [added]) d')"

fun PrefetchReqs_loop ::
  "flare \<Rightarrow> TaskPersonality \<Rightarrow> nanoseconds \<Rightarrow> wait_env list \<Rightarrow> TaskAllocation list \<Rightarrow> TaskDispatcher
   \<Rightarrow> (TaskAllocation list option \<times> TaskDispatcher) option" where
  "PrefetchReqs_loop fl task ka [] grants d = Some (Some grants, d)"
| "PrefetchReqs_loop fl task ka (env # envs) grants d =
     (case wait_one fl task ka True env d of
        None \<Rightarrow> None
      | Some (None, d') \<Rightarrow> Some (None, d')
      | Some (Some (Inl _), d') \<Rightarrow> Some (Some grants, d')
      | Some (Some (Inr added), d') \<Rightarrow> PrefetchReqs_loop fl task ka envs (grants @ [added]) d')"

text \<open>
  \<open>imm\<close> and \<open>pre\<close> give an environment for each of the requested calls: the first
  \<open>immediate_reqs\<close> of \<open>imm\<close> and the first \<open>prefetch_reqs\<close> of \<open>pre\<close> are used.
\<close>

definition WaitForStartingTask ::
  "flare \<Rightarrow> Endpoint \<Rightarrow> WaitForStartingTaskRequest \<Rightarrow> (nat \<Rightarrow> wait_env) \<Rightarrow> (nat \<Rightarrow> wait_env)
   \<Rightarrow> SchedulerServiceImpl \<Rightarrow> TaskDispatcher
   \<Rightarrow> ((scheduler_status + TaskAllocation list) option \<times> TaskDispatcher) option" where
  "WaitForStartingTask fl remote request imm pre s d =
     (if \<not> Verify (ss_is_user_verifier s) (wr_token request) then Some (Some (Inl STATUS_ACCESS_DENIED), d)
      else if milliseconds (int (wr_milliseconds_to_wait request)) > seconds 10
              \<or> milliseconds (int (wr_next_keep_alive_in_ms request)) > seconds 30
      then Some (Some (Inl STATUS_INVALID_ARGUMENT), d)
      else
        (let task = \<lparr>tp_requestor_ip = ep_Ip remote, tp_min_version = wr_min_version request,
                     tp_env_desc = wr_env_desc request\<rparr>;
             ka = milliseconds (int (wr_next_keep_alive_in_ms request))
         in case ImmediateReqs_loop fl task ka (map imm [0..<wr_immediate_reqs request]) [] d of
              None \<Rightarrow> None
            | Some (None, d1) \<Rightarrow> Some (None, d1)
            | Some (Some (Inl status), d1) \<Rightarrow> Some (Some (Inl status), d1)
            | Some (Some (Inr grants), d1) \<Rightarrow>
                (case PrefetchReqs_loop fl task ka (map pre [0..<wr_prefetch_reqs request]) grants d1 of
                   None \<Rightarrow> None
                 | Some (None, d2) \<Rightarrow> Some (None, d2)
                 | Some (Some grants', d2) \<Rightarrow>
                     if grants' = [] then Some (Some (Inl STATUS_NO_QUOTA_AVAILABLE), d2)
                     else Some (Some (Inr grants'), d2))))"

fun KeepTaskAlive_loop :: "nat list \<Rightarrow> nanoseconds \<Rightarrow> time_point \<Rightarrow> TaskDispatcher \<Rightarrow> bool list \<times> TaskDispatcher" where
  "KeepTaskAlive_loop [] ka now d = ([], d)"
| "KeepTaskAlive_loop (e # es) ka now d =
     (let (ok, d1) = KeepTaskAlive e ka now d; (oks, d2) = KeepTaskAlive_loop es ka now d1 in (ok # oks, d2))"

definition service_KeepTaskAlive ::
  "string \<Rightarrow> nat list \<Rightarrow> nat \<Rightarrow> time_point \<Rightarrow> SchedulerServiceImpl \<Rightarrow> TaskDispatcher
   \<Rightarrow> (scheduler_status + bool list) \<times> TaskDispatcher" where
  "service_KeepTaskAlive token task_grant_ids next_keep_alive_in_ms now s d =
     (if \<not> Verify (ss_is_user_verifier s) token then (Inl STATUS_ACCESS_DENIED, d)
      else
        (let next_keep_alive = milliseconds (int next_keep_alive_in_ms)
         in if next_keep_alive > seconds 30 then (Inl STATUS_INVALID_ARGUMENT, d)
            else (let (statuses, d') = KeepTaskAlive_loop task_grant_ids next_keep_alive now d in (Inr statuses, d'))))"

definition service_FreeTask ::
  "string \<Rightarrow> nat list \<Rightarrow> SchedulerServiceImpl \<Rightarrow> TaskDispatcher \<Rightarrow> (scheduler_status + unit) \<times> TaskDispatcher" where
  "service_FreeTask token task_grant_ids s d =
     (if \<not> Verify (ss_is_user_verifier s) token then (Inl STATUS_ACCESS_DENIED, d)
      else (Inr (), fold FreeTask task_grant_ids d))"

definition service_GetRunningTasks :: "TaskDispatcher \<Rightarrow> RunningTask list" where
  "service_GetRunningTasks d = GetRunningTasks d"

section \<open>Serving-daemon tokens\<close>

definition tokens_ok :: "SchedulerServiceImpl \<Rightarrow> bool" where
  "tokens_ok s \<longleftrightarrow> length (ss_active_serving_daemon_tokens s) = 3"

lemma Determine_defined:
  assumes "tokens_ok s"
  shows "\<exists>ts s'. DetermineActiveServingDaemonTokens fl flags now rnd s = Some (ts, s')
           \<and> ts = ss_active_serving_daemon_tokens s' \<and> tokens_ok s'"
  using assms by (auto simp: DetermineActiveServingDaemonTokens_def tokens_ok_def Let_def)

text \<open>Calls in time order, with the random bytes each would draw.\<close>

fun token_run ::
  "flare \<Rightarrow> scheduler_flags \<Rightarrow> (time_point \<times> bytes) list \<Rightarrow> SchedulerServiceImpl \<Rightarrow> string list list option" where
  "token_run fl flags [] s = Some []"
| "token_run fl flags ((now, rnd) # cs) s =
     (case DetermineActiveServingDaemonTokens fl flags now rnd s of
        None \<Rightarrow> None
      | Some (ts, s') \<Rightarrow> map_option (Cons ts) (token_run fl flags cs s'))"

lemma token_run_stable:
  assumes "token_run fl flags cs s = Some tss" "\<forall>c\<in>set cs. fst c \<le> ss_next_rollout s"
  shows "set tss \<subseteq> {ss_active_serving_daemon_tokens s}"
  using assms
proof (induction cs arbitrary: tss)
  case (Cons c cs)
  then have "\<not> ss_next_rollout s < fst c" by auto
  with Cons obtain tss' where "tss = ss_active_serving_daemon_tokens s # tss'" "token_run fl flags cs s = Some tss'"
    by (cases c) (auto simp: DetermineActiveServingDaemonTokens_def split: if_splits)
  with Cons show ?case by auto
qed simp

text \<open>Within a window no longer than the rollout interval there are two token lists at most,
  and the second one is the first one shifted by one.\<close>

lemma token_run_window:
  assumes "token_run fl flags cs s = Some tss" "sorted (map fst cs)" "tokens_ok s"
    "\<forall>c\<in>set cs. \<forall>c'\<in>set cs. fst c' - fst c \<le> seconds (sf_token_rollout_interval flags)"
  shows "\<exists>r. set tss \<subseteq> {ss_active_serving_daemon_tokens s, tl (ss_active_serving_daemon_tokens s) @ [r]}"
  using assms
proof (induction cs arbitrary: tss)
  case (Cons c cs)
  obtain now rnd where c: "c = (now, rnd)" by (cases c)
  show ?case
  proof (cases "ss_next_rollout s < now")
    case True
    let ?r = "NextServingDaemonToken fl rnd"
    define s' where "s' = s\<lparr>ss_next_rollout := now + seconds (sf_token_rollout_interval flags),
        ss_active_serving_daemon_tokens := tl (ss_active_serving_daemon_tokens s) @ [?r]\<rparr>"
    have toks: "ss_active_serving_daemon_tokens s' = tl (ss_active_serving_daemon_tokens s) @ [?r]"
      "ss_next_rollout s' = now + seconds (sf_token_rollout_interval flags)" by (simp_all add: s'_def)
    have "DetermineActiveServingDaemonTokens fl flags now rnd s = Some (ss_active_serving_daemon_tokens s', s')"
      using True Cons.prems(3) by (simp add: DetermineActiveServingDaemonTokens_def tokens_ok_def s'_def)
    with Cons.prems(1) c obtain tss' where
      t: "tss = ss_active_serving_daemon_tokens s' # tss'" "token_run fl flags cs s' = Some tss'" by auto
    have "\<forall>c\<in>set cs. fst c \<le> ss_next_rollout s'"
      using Cons.prems(4) by (force simp: c toks(2))
    from token_run_stable [OF t(2) this] t(1) show ?thesis by (auto simp: toks(1))
  next
    case False
    with Cons.prems(1,3) c obtain tss' where
      t: "tss = ss_active_serving_daemon_tokens s # tss'" "token_run fl flags cs s = Some tss'"
      by (auto simp: DetermineActiveServingDaemonTokens_def tokens_ok_def)
    from Cons.IH [OF t(2)] Cons.prems(2,3,4) t(1) show ?thesis by auto
  qed
qed simp

lemma shifted_tokens_overlap:
  assumes "length ts = 3" "us \<in> {ts, tl ts @ [r]}" "vs \<in> {ts, tl ts @ [r]}"
  shows "us ! 1 \<in> set vs"
proof -
  obtain a b c where "ts = [a, b, c]" using assms(1) by (auto simp: numeral_3_eq_3 length_Suc_conv)
  with assms(2,3) show ?thesis by auto
qed

section \<open>Waiting for tasks\<close>

declare WaitForStartingNewTask.simps [simp del]

lemma WaitForStartingNewTask_Nil:
  "WaitForStartingNewTask fl p e f now [] d =
     map_option (\<lambda>(r, d'). (case r of PassReturn x \<Rightarrow> Some x | PassMustWait \<Rightarrow> None, d'))
       (StartNewTask_pass fl p e f now d)"
  by (subst WaitForStartingNewTask.simps) (auto split: option.splits pass_result.splits)

lemma WaitForStartingNewTask_Cons:
  "WaitForStartingNewTask fl p e f now (w # ws) d =
     (case StartNewTask_pass fl p e f now d of
        None \<Rightarrow> None
      | Some (PassReturn r, d') \<Rightarrow> Some (Some r, d')
      | Some (PassMustWait, d') \<Rightarrow>
          (case run_calls (dispatcher_step fl) (wu_calls w) d' of
             None \<Rightarrow> None
           | Some d'' \<Rightarrow>
               if wu_timed_out w then Some (Some (Inl Timeout), d'')
               else WaitForStartingNewTask fl p e f (wu_now w) ws d''))"
  by (subst WaitForStartingNewTask.simps) (simp only: list.case)

lemma WaitForStartingNewTask_inv:
  assumes "dispatcher_inv d" "WaitForStartingNewTask fl p e f now ws d = Some (r, d')"
  shows "dispatcher_inv d'"
  using assms
proof (induction ws arbitrary: d now)
  case Nil
  then show ?case
    by (auto simp: WaitForStartingNewTask_Nil dest: StartNewTask_pass_inv)
next
  case (Cons w ws)
  obtain r1 d1 where p: "StartNewTask_pass fl p e f now d = Some (r1, d1)"
    using Cons.prems(2) by (auto simp: WaitForStartingNewTask_Cons split: option.splits)
  then have inv1: "dispatcher_inv d1" using Cons.prems(1) by (auto dest: StartNewTask_pass_inv)
  show ?case
  proof (cases r1)
    case (PassReturn x)
    with p inv1 Cons.prems(2) show ?thesis by (simp add: WaitForStartingNewTask_Cons)
  next
    case PassMustWait
    with p Cons.prems(2) obtain d2 where d2: "run_calls (dispatcher_step fl) (wu_calls w) d1 = Some d2"
      by (auto simp: WaitForStartingNewTask_Cons split: option.splits)
    have "dispatcher_inv d2" using dispatcher.run_calls_inv [OF inv1 d2] .
    with Cons p PassMustWait d2 show ?thesis by (auto simp: WaitForStartingNewTask_Cons split: if_splits)
  qed
qed

lemma wait_one_inv: "dispatcher_inv d \<Longrightarrow> wait_one fl p e f env d = Some (r, d') \<Longrightarrow> dispatcher_inv d'"
  by (auto simp: wait_one_def dest: dispatcher.run_calls_inv WaitForStartingNewTask_inv split: option.splits)

lemma wait_result_cases:
  fixes r :: "(WaitStatus + TaskAllocation) option"
  obtains (waiting) "r = None" | (no_env) "r = Some (Inl EnvironmentNotFound)"
    | (timeout) "r = Some (Inl Timeout)" | (granted) a where "r = Some (Inr a)"
proof (cases r)
  case (Some x)
  then show ?thesis
  proof (cases x)
    case (Inl e)
    with Some that(2,3) show ?thesis by (cases e) auto
  qed (use that in auto)
qed (use that in auto)

lemma ImmediateReqs_loop_facts:
  assumes "dispatcher_inv d" "ImmediateReqs_loop fl p ka envs gs d = Some (r, d')"
  shows "dispatcher_inv d' \<and> (\<forall>gs'. r = Some (Inr gs') \<longrightarrow> prefix gs gs' \<and> length gs' \<le> length gs + length envs)
         \<and> (\<forall>st. r = Some (Inl st) \<longrightarrow> st = STATUS_ENVIRONMENT_NOT_AVAILABLE)"
  using assms
proof (induction envs arbitrary: gs d)
  case (Cons env envs)
  obtain r1 d1 where w: "wait_one fl p ka False env d = Some (r1, d1)"
    using Cons.prems(2) by (auto split: option.splits)
  then have inv: "dispatcher_inv d1" using Cons.prems(1) wait_one_inv by blast
  show ?case
  proof (cases r1 rule: wait_result_cases)
    case (granted a)
    with Cons.prems(2) w have "ImmediateReqs_loop fl p ka envs (gs @ [a]) d1 = Some (r, d')" by simp
    with Cons.IH [OF inv this] show ?thesis by (auto dest: append_prefixD)
  qed (use Cons.prems(2) w inv in auto)
qed auto

lemma PrefetchReqs_loop_facts:
  assumes "dispatcher_inv d" "PrefetchReqs_loop fl p ka envs gs d = Some (r, d')"
  shows "dispatcher_inv d' \<and> (\<forall>gs'. r = Some gs' \<longrightarrow> prefix gs gs' \<and> length gs' \<le> length gs + length envs)"
  using assms
proof (induction envs arbitrary: gs d)
  case (Cons env envs)
  obtain r1 d1 where w: "wait_one fl p ka True env d = Some (r1, d1)"
    using Cons.prems(2) by (auto split: option.splits)
  then have inv: "dispatcher_inv d1" using Cons.prems(1) wait_one_inv by blast
  show ?case
  proof (cases r1 rule: wait_result_cases)
    case (granted a)
    with Cons.prems(2) w have "PrefetchReqs_loop fl p ka envs (gs @ [a]) d1 = Some (r, d')" by simp
    with Cons.IH [OF inv this] show ?thesis by (auto dest: append_prefixD)
  qed (use Cons.prems(2) w inv in auto)
qed auto

lemma KeepTaskAlive_loop_inv: "dispatcher_inv d \<Longrightarrow> dispatcher_inv (snd (KeepTaskAlive_loop is ka now d))"
proof (induction "is" arbitrary: d)
  case (Cons i "is")
  then show ?case
    using KeepTaskAlive_inv [of d i ka now] by (auto split: prod.splits) (metis snd_conv)
qed simp

lemma fold_FreeTask_inv: "dispatcher_inv d \<Longrightarrow> dispatcher_inv (fold FreeTask is d)"
  by (induction "is" arbitrary: d) (auto simp: FreeTask_def free_keeps_inv)

lemma heartbeat_personality_location [simp]:
  "sp_observed_location (heartbeat_personality s rq ol rl) = ol"
  by (auto simp: heartbeat_personality_def Let_def)

lemma heartbeat_personality_rejected:
  "ol \<noteq> rl \<or> \<not> Verify (ss_is_servant_verifier s) (hb_token rq) \<or> hb_next_heartbeat_in_ms rq = 0 \<Longrightarrow>
   sp_max_tasks (heartbeat_personality s rq ol rl) = 0"
  by (auto simp: heartbeat_personality_def Let_def)

section \<open>Heartbeats\<close>

lemma find_servant_unique:
  assumes "dispatcher_inv d" "r \<in> set (td_servants d)" "servant_location_of d r = l"
  shows "find_servant l d = Some r"
proof -
  obtain r' where r': "find_servant l d = Some r'"
    using assms(2,3) find_servant_None [of l d] by (cases "find_servant l d") auto
  have "inj_on (servant_location_of d) (set (td_servants d))"
    using assms(1) by (auto simp: dispatcher_inv_def registry_ok_def distinct_map)
  with find_servant_Some [OF r'] assms(2,3) have "r' = r" by (metis inj_onD)
  with r' show ?thesis by simp
qed

lemma KeepServantAlive_registers:
  assumes "dispatcher_inv d"
  shows "\<exists>r\<in>set (td_servants (KeepServantAlive s e now d)).
           sd_personality (td_heap (KeepServantAlive s e now d) r) = s
           \<and> sd_expires_at (td_heap (KeepServantAlive s e now d) r) = now + e"
  using find_servant_Some [of "sp_observed_location s" d]
  by (auto simp: KeepServantAlive_def split: option.splits)

lemma KeepServantAlive_personality:
  assumes "dispatcher_inv d" "r \<in> set (td_servants (KeepServantAlive s e now d))"
    "servant_location_of (KeepServantAlive s e now d) r = sp_observed_location s"
  shows "sd_personality (td_heap (KeepServantAlive s e now d) r) = s"
proof -
  let ?d = "KeepServantAlive s e now d"
  have inv: "dispatcher_inv ?d" using assms(1) by (rule KeepServantAlive_inv)
  obtain r' where r': "r' \<in> set (td_servants ?d)" "sd_personality (td_heap ?d r') = s"
    using KeepServantAlive_registers [OF assms(1)] by blast
  have "Some r = Some r'"
    using find_servant_unique [OF inv assms(2,3)] find_servant_unique [OF inv r'(1)] r'(2) by simp
  with r' show ?thesis by simp
qed

lemma Notify_registry [simp]:
  "td_servants (snd (NotifyServantRunningTasks l ts d)) = td_servants d"
  "sd_personality (td_heap (snd (NotifyServantRunningTasks l ts d)) r) = sd_personality (td_heap d r)"
  by (auto simp: NotifyServantRunningTasks_def Let_def split: option.splits)

lemma Heartbeat_success:
  assumes "Heartbeat fl ea flags remote rq now rnd s d = Some (Inr resp, s', d')"
    "ea_TryParse ea (hb_location rq) = Some opt" "observed_location_of remote opt = Some ol"
  shows "NotifyServantRunningTasks (hb_location rq) (hb_running_tasks rq)
      (KeepServantAlive (heartbeat_personality s rq ol (ea_ToString ea opt))
         (milliseconds (int (hb_next_heartbeat_in_ms rq))) now d) = (hr_expired_tasks resp, d')"
  using assms by (auto simp: Heartbeat_def Let_def split: if_splits option.splits prod.splits)

lemma Heartbeat_success_parsed:
  assumes "Heartbeat fl ea flags remote rq now rnd s d = Some (Inr resp, s', d')"
  shows "\<exists>opt ol. ea_TryParse ea (hb_location rq) = Some opt \<and> observed_location_of remote opt = Some ol"
  using assms by (auto simp: Heartbeat_def Let_def split: if_splits option.splits)

lemma Heartbeat_inv:
  assumes "dispatcher_inv d" "Heartbeat fl ea flags remote rq now rnd s d = Some (r, s', d')"
  shows "dispatcher_inv d'"
proof (cases r)
  case (Inl st)
  then show ?thesis
    using assms by (auto simp: Heartbeat_def Let_def split: if_splits option.splits prod.splits)
next
  case (Inr resp)
  note h = assms(2) [unfolded Inr]
  from Heartbeat_success_parsed [OF h] obtain opt ol where
    "ea_TryParse ea (hb_location rq) = Some opt" "observed_location_of remote opt = Some ol" by blast
  from Heartbeat_success [OF h this] show ?thesis
    using NotifyServantRunningTasks_inv [OF KeepServantAlive_inv [OF assms(1)]] by (metis snd_conv)
qed

section \<open>A concrete service\<close>

definition demo_endpoint_api :: endpoint_api where
  "demo_endpoint_api =
     \<lparr>ea_TryParse = (\<lambda>s. case split_at_char CHR '':'' s of
         [ip, port] \<Rightarrow> map_option (\<lambda>p. \<lparr>ep_Family = AF_INET, ep_Ip = ip, ep_Port = p\<rparr>) (parse_decimal port)
       | _ \<Rightarrow> None),
      ea_ToString = (\<lambda>e. ep_Ip e @ '':'' @ to_string (ep_Port e))\<rparr>"

definition demo_flags :: scheduler_flags where
  "demo_flags = \<lparr>sf_acceptable_user_tokens = ''u'', sf_acceptable_servant_tokens = ''sv'',
     sf_min_daemon_version = 0, sf_token_rollout_interval = 3600\<rparr>"

definition demo_service :: SchedulerServiceImpl where
  "demo_service = \<lparr>ss_is_user_verifier = \<lparr>tv_recognized_tokens = {''u''}\<rparr>,
     ss_is_servant_verifier = \<lparr>tv_recognized_tokens = {''sv''}\<rparr>, ss_next_rollout = 3600000000000,
     ss_active_serving_daemon_tokens = [''a'', ''b'', ''c'']\<rparr>"

definition demo_peer :: Endpoint where
  "demo_peer = \<lparr>ep_Family = AF_INET, ep_Ip = ''10.0.0.3'', ep_Port = 5\<rparr>"

definition demo_heartbeat :: "string \<Rightarrow> string \<Rightarrow> HeartbeatRequest" where
  "demo_heartbeat token loc = \<lparr>hb_token = token, hb_next_heartbeat_in_ms = 1000, hb_version = 3, hb_location = loc,
     hb_num_processors = 8, hb_current_load = 0, hb_servant_priority = 2, hb_not_accepting_task_reason = 0,
     hb_capacity = 4, hb_total_memory_in_bytes = 0, hb_memory_available_in_bytes = 0,
     hb_env_descs = [\<lparr>ed_compiler_digest = ''gcc''\<rparr>], hb_running_tasks = demo_report\<rparr>"

section \<open>Properties\<close>

text \<open>The token a delegate obtains by \<open>GetConfig\<close> (the middle one) is accepted by every
  daemon whose last heartbeat lies within one rollout interval of it, earlier or later: in any
  series of requests within such a window, the middle token of each is among the tokens handed
  out by every other; and the service never aborts on its check of the number of tokens.\<close>

theorem serving_tokens_overlap:
  assumes "tokens_ok s" "sorted (map fst cs)"
    "\<forall>c\<in>set cs. \<forall>c'\<in>set cs. fst c' - fst c \<le> seconds (sf_token_rollout_interval flags)"
  shows "\<exists>tss. token_run fl flags cs s = Some tss \<and> length tss = length cs
           \<and> (\<forall>us\<in>set tss. \<forall>vs\<in>set tss. us ! 1 \<in> set vs)"
proof -
  have "\<exists>tss. token_run fl flags cs s = Some tss \<and> length tss = length cs"
    using assms(1)
  proof (induction cs arbitrary: s)
    case (Cons c cs)
    obtain now rnd where c: "c = (now, rnd)" by (cases c)
    obtain ts s' where d: "DetermineActiveServingDaemonTokens fl flags now rnd s = Some (ts, s')" "tokens_ok s'"
      using Determine_defined [OF Cons.prems] by blast
    with Cons.IH [OF d(2)] c show ?case by auto
  qed simp
  then obtain tss where t: "token_run fl flags cs s = Some tss" "length tss = length cs" by blast
  from token_run_window [OF t(1) assms(2,1,3)] obtain r where
    "set tss \<subseteq> {ss_active_serving_daemon_tokens s, tl (ss_active_serving_daemon_tokens s) @ [r]}" by blast
  then have "us ! 1 \<in> set vs" if "us \<in> set tss" "vs \<in> set tss" for us vs
    using that assms(1) by (intro shifted_tokens_overlap [of "ss_active_serving_daemon_tokens s" _ r])
      (auto simp: tokens_ok_def)
  with t show ?thesis by blast
qed

theorem serving_tokens_overlap_witness:
  "\<exists>tss. token_run reference_flare demo_flags [(3599000000000, ''x''), (3601000000000, ''y'')] demo_service = Some tss
     \<and> tss = [[''a'', ''b'', ''c''], [''b'', ''c'', ''y'']] \<and> (\<forall>us\<in>set tss. \<forall>vs\<in>set tss. us ! 1 \<in> set vs)"
proof -
  have "token_run reference_flare demo_flags [(3599000000000, ''x''), (3601000000000, ''y'')] demo_service =
     Some [[''a'', ''b'', ''c''], [''b'', ''c'', ''y'']]" by code_simp
  moreover have "tokens_ok demo_service" by code_simp
  ultimately show ?thesis
    using serving_tokens_overlap [of demo_service "[(3599000000000, ''x''), (3601000000000, ''y'')]" demo_flags reference_flare]
    by (simp add: demo_flags_def)
qed

text \<open>After a heartbeat, a servant that is behind NAT, or did not present a servant token, or
  announced its leaving, gets no tasks: it is not eligible for any request.\<close>

theorem heartbeat_excludes_untrusted:
  assumes "dispatcher_inv d" "Heartbeat fl ea flags remote rq now rnd s d = Some (Inr resp, s', d')"
    "ea_TryParse ea (hb_location rq) = Some opt" "observed_location_of remote opt = Some ol"
    "ol \<noteq> ea_ToString ea opt \<or> \<not> Verify (ss_is_servant_verifier s) (hb_token rq) \<or> hb_next_heartbeat_in_ms rq = 0"
    "e \<in> set (UnsafeEnumerateEligibleServants p d')"
  shows "servant_location_of d' e \<noteq> ol"
proof
  assume at: "servant_location_of d' e = ol"
  let ?sv = "heartbeat_personality s rq ol (ea_ToString ea opt)"
  define d1 where d1: "d1 = KeepServantAlive ?sv (milliseconds (int (hb_next_heartbeat_in_ms rq))) now d"
  have n: "NotifyServantRunningTasks (hb_location rq) (hb_running_tasks rq) d1 = (hr_expired_tasks resp, d')"
    unfolding d1 by (rule Heartbeat_success [OF assms(2,3,4)])
  have same: "td_servants d' = td_servants d1" "sd_personality (td_heap d' e) = sd_personality (td_heap d1 e)"
    using Notify_registry [of "hb_location rq" "hb_running_tasks rq" d1] n by auto
  have "sp_max_tasks (sd_personality (td_heap d' e)) \<noteq> 0" "e \<in> set (td_servants d')"
    using assms(6) by (auto simp: UnsafeEnumerateEligibleServants_def Let_def)
  moreover have "sd_personality (td_heap d1 e) = ?sv"
    using KeepServantAlive_personality [OF assms(1), of e ?sv] same at \<open>e \<in> set (td_servants d')\<close>
    unfolding d1 by simp
  ultimately show False using heartbeat_personality_rejected [OF assms(5)] same(2) by simp
qed

theorem heartbeat_excludes_untrusted_witness:
  "\<exists>resp s' d'. Heartbeat reference_flare demo_endpoint_api demo_flags demo_peer
       (demo_heartbeat ''u'' ''10.0.0.3:80'') 1 ''r'' demo_service demo_d1 = Some (Inr resp, s', d')
     \<and> (\<forall>e\<in>set (UnsafeEnumerateEligibleServants demo_task d'). servant_location_of d' e \<noteq> ''10.0.0.3:80'')"
proof -
  let ?h = "Heartbeat reference_flare demo_endpoint_api demo_flags demo_peer
       (demo_heartbeat ''u'' ''10.0.0.3:80'') 1 ''r'' demo_service demo_d1"
  have "(case ?h of Some (Inr resp, s', d') \<Rightarrow> True | _ \<Rightarrow> False)" by code_simp
  then obtain resp s' d' where h: "?h = Some (Inr resp, s', d')"
    by (auto split: option.split_asm prod.split_asm sum.split_asm)
  let ?ep = "\<lparr>ep_Family = AF_INET, ep_Ip = ''10.0.0.3'', ep_Port = 80\<rparr>"
  have p: "ea_TryParse demo_endpoint_api (hb_location (demo_heartbeat ''u'' ''10.0.0.3:80'')) = Some ?ep"
    "observed_location_of demo_peer ?ep = Some ''10.0.0.3:80''" by code_simp+
  have v: "\<not> Verify (ss_is_servant_verifier demo_service) (hb_token (demo_heartbeat ''u'' ''10.0.0.3:80''))"
    by (simp add: demo_service_def demo_heartbeat_def Verify_def)
  show ?thesis
    using heartbeat_excludes_untrusted [OF demo_d1_inv h p] v h by blast
qed

text \<open>A heartbeat looks the servant up by the address string the servant sent, but has
  registered it under the address observed by the scheduler. When these differ and no other
  servant is registered under the former (a servant behind NAT, or an address that is not in
  normal form), every task the servant reports is answered as expired, also the live ones.\<close>

theorem heartbeat_raw_location_expires_all:
  assumes "Heartbeat fl ea flags remote rq now rnd s d = Some (Inr resp, s', d')"
    "ea_TryParse ea (hb_location rq) = Some opt" "observed_location_of remote opt = Some ol"
    "hb_location rq \<noteq> ol" "hb_location rq \<notin> servant_location_of d ` set (td_servants d)" "dispatcher_inv d"
  shows "hr_expired_tasks resp = map rt_task_grant_id (hb_running_tasks rq)"
proof -
  let ?sv = "heartbeat_personality s rq ol (ea_ToString ea opt)"
  define d1 where d1: "d1 = KeepServantAlive ?sv (milliseconds (int (hb_next_heartbeat_in_ms rq))) now d"
  have n: "NotifyServantRunningTasks (hb_location rq) (hb_running_tasks rq) d1 = (hr_expired_tasks resp, d')"
    unfolding d1 by (rule Heartbeat_success [OF assms(1,2,3)])
  have "find_servant (hb_location rq) d1 = None"
  proof (rule ccontr)
    assume "find_servant (hb_location rq) d1 \<noteq> None"
    then obtain r where r: "r \<in> set (td_servants d1)" "servant_location_of d1 r = hb_location rq"
      using find_servant_Some by blast
    moreover have "\<forall>x\<in>set (td_servants d). x < td_next_ref d"
      using assms(6) by (simp add: dispatcher_inv_def registry_ok_def)
    ultimately show False
      using assms(4,5) unfolding d1 KeepServantAlive_def
      by (auto simp: image_iff split: option.splits if_splits)
  qed
  with n show ?thesis by (simp add: NotifyServantRunningTasks_def)
qed

theorem heartbeat_raw_location_expires_all_witness:
  "\<exists>resp s' d'. Heartbeat reference_flare demo_endpoint_api demo_flags \<lparr>ep_Family = AF_INET, ep_Ip = ''10.0.0.2'', ep_Port = 5\<rparr>
       (demo_heartbeat ''sv'' ''10.0.0.2:08336'') 1 ''r'' demo_service demo_d1 = Some (Inr resp, s', d')
     \<and> hr_expired_tasks resp = [0, 5] \<and> fst (NotifyServantRunningTasks ''10.0.0.2:8336'' demo_report demo_d1) = [5]"
proof -
  let ?peer = "\<lparr>ep_Family = AF_INET, ep_Ip = ''10.0.0.2'', ep_Port = 5\<rparr>"
  let ?rq = "demo_heartbeat ''sv'' ''10.0.0.2:08336''"
  let ?h = "Heartbeat reference_flare demo_endpoint_api demo_flags ?peer ?rq 1 ''r'' demo_service demo_d1"
  have "(case ?h of Some (Inr resp, s', d') \<Rightarrow> True | _ \<Rightarrow> False)" by code_simp
  then obtain resp s' d' where h: "?h = Some (Inr resp, s', d')"
    by (auto split: option.split_asm prod.split_asm sum.split_asm)
  let ?ep = "\<lparr>ep_Family = AF_INET, ep_Ip = ''10.0.0.2'', ep_Port = 8336\<rparr>"
  have p: "ea_TryParse demo_endpoint_api (hb_location ?rq) = Some ?ep"
    "observed_location_of ?peer ?ep = Some ''10.0.0.2:8336''" by code_simp+
  have l: "hb_location ?rq \<noteq> ''10.0.0.2:8336''" by code_simp
  have f: "hb_location ?rq \<notin> servant_location_of demo_d1 ` set (td_servants demo_d1)" by code_simp
  have n: "fst (NotifyServantRunningTasks ''10.0.0.2:8336'' demo_report demo_d1) = [5]" by code_simp
  have "map rt_task_grant_id (hb_running_tasks ?rq) = [0, 5]" by code_simp
  with heartbeat_raw_location_expires_all [OF h p l f demo_d1_inv] h n show ?thesis by auto
qed

text \<open>A request for tasks is refused without any effect when the caller is not verified or
  asks for an excessive wait or lease. Otherwise the dispatcher stays consistent; a successful
  answer carries at least one grant and at most as many as requested.\<close>

theorem wait_for_starting_task_grants:
  assumes "dispatcher_inv d" "WaitForStartingTask fl remote rq imm pre s d = Some (Some r, d')"
  shows "dispatcher_inv d' \<and>
     (case r of
        Inr gs \<Rightarrow> gs \<noteq> [] \<and> length gs \<le> wr_immediate_reqs rq + wr_prefetch_reqs rq
                 \<and> Verify (ss_is_user_verifier s) (wr_token rq)
      | Inl st \<Rightarrow> st \<in> {STATUS_ACCESS_DENIED, STATUS_INVALID_ARGUMENT, STATUS_ENVIRONMENT_NOT_AVAILABLE, STATUS_NO_QUOTA_AVAILABLE}
                 \<and> (st \<in> {STATUS_ACCESS_DENIED, STATUS_INVALID_ARGUMENT} \<longrightarrow> d' = d)
                 \<and> (\<not> Verify (ss_is_user_verifier s) (wr_token rq) \<longrightarrow> st = STATUS_ACCESS_DENIED))"
proof (cases "\<not> Verify (ss_is_user_verifier s) (wr_token rq) \<or>
     milliseconds (int (wr_milliseconds_to_wait rq)) > seconds 10 \<or> milliseconds (int (wr_next_keep_alive_in_ms rq)) > seconds 30")
  case True
  with assms show ?thesis by (auto simp: WaitForStartingTask_def split: if_splits)
next
  case False
  let ?task = "\<lparr>tp_requestor_ip = ep_Ip remote, tp_min_version = wr_min_version rq, tp_env_desc = wr_env_desc rq\<rparr>"
  let ?ka = "milliseconds (int (wr_next_keep_alive_in_ms rq))"
  from False assms(2) obtain r1 d1 where
    i: "ImmediateReqs_loop fl ?task ?ka (map imm [0..<wr_immediate_reqs rq]) [] d = Some (Some r1, d1)"
    by (auto simp: WaitForStartingTask_def Let_def split: option.splits)
  note f1 = ImmediateReqs_loop_facts [OF assms(1) i]
  show ?thesis
  proof (cases r1)
    case (Inl st)
    with False assms(2) i f1 show ?thesis by (auto simp: WaitForStartingTask_def Let_def)
  next
    case (Inr gs)
    with False assms(2) i obtain gs' where
      p: "PrefetchReqs_loop fl ?task ?ka (map pre [0..<wr_prefetch_reqs rq]) gs d1 = Some (Some gs', d')"
         "r = (if gs' = [] then Inl STATUS_NO_QUOTA_AVAILABLE else Inr gs')"
      by (auto simp: WaitForStartingTask_def Let_def split: option.splits if_splits)
    from f1 Inr have "dispatcher_inv d1" "length gs \<le> wr_immediate_reqs rq" by auto
    with PrefetchReqs_loop_facts [OF this(1) p(1)] p(2) False show ?thesis by auto
  qed
qed

definition demo_wait_env :: "nat \<Rightarrow> wait_env" where
  "demo_wait_env i = \<lparr>we_before = [], we_now = 2, we_wakes = [\<lparr>wu_calls = [], wu_timed_out = True, wu_now = 3\<rparr>]\<rparr>"

definition demo_wait_request :: WaitForStartingTaskRequest where
  "demo_wait_request = \<lparr>wr_token = ''u'', wr_milliseconds_to_wait = 1000, wr_env_desc = \<lparr>ed_compiler_digest = ''gcc''\<rparr>,
     wr_immediate_reqs = 5, wr_prefetch_reqs = 1, wr_next_keep_alive_in_ms = 1000, wr_min_version = 1\<rparr>"

theorem wait_for_starting_task_grants_witness:
  "\<exists>gs d'. WaitForStartingTask reference_flare demo_peer demo_wait_request demo_wait_env demo_wait_env demo_service demo_d1
        = Some (Some (Inr gs), d') \<and> length gs = 3 \<and> dispatcher_inv d'"
proof -
  let ?w = "WaitForStartingTask reference_flare demo_peer demo_wait_request demo_wait_env demo_wait_env demo_service demo_d1"
  have "(case ?w of Some (Some (Inr gs), d') \<Rightarrow> length gs = 3 | _ \<Rightarrow> False)" by code_simp
  then obtain gs d' where w: "?w = Some (Some (Inr gs), d')" "length gs = 3"
    by (auto split: option.split_asm prod.split_asm sum.split_asm)
  with wait_for_starting_task_grants [OF demo_d1_inv w(1)] show ?thesis by auto
qed

end
