(* ===== verification/Daemon_Service.thy ===== *)
theory Daemon_Service
  imports Remote_Task Execution_Engine Scheduler_Service Sysinfo
begin

text \<open>
  The servant's RPC service (\<^verbatim>\<open>daemon/cloud/daemon_service_impl.cc\<close>): it lets the engine run the
  compilations other machines submit and keeps in touch with the scheduler by heartbeats. The engine
  and the compiler registry are singletons of the process and are passed as arguments.
\<close>

section \<open>Data\<close>

record DaemonServiceImpl =
  ds_network_location :: string
  ds_token_verifier :: TokenVerifier

definition DaemonServiceImpl_ctor :: "string \<Rightarrow> DaemonServiceImpl" where
  "DaemonServiceImpl_ctor network_location =
     \<lparr> ds_network_location = network_location, ds_token_verifier = TokenVerifier_default \<rparr>"

definition IsTokenAcceptable :: "string \<Rightarrow> DaemonServiceImpl \<Rightarrow> bool" where
  "IsTokenAcceptable token s = Verify (ds_token_verifier s) token"

definition UpdateAcceptableTokens :: "string list \<Rightarrow> DaemonServiceImpl \<Rightarrow> DaemonServiceImpl" where
  "UpdateAcceptableTokens tokens s = s\<lparr>ds_token_verifier := \<lparr> tv_recognized_tokens = set tokens \<rparr>\<rparr>"

section \<open>Requests of other daemons\<close>

text \<open>The engine's view of a remote task; completion is in \<open>remote_OnCompletion\<close>, with the files of the workspace.\<close>

definition remote_task_ops :: "(int \<Rightarrow> bytes \<Rightarrow> bytes \<Rightarrow> RemoteCxxTask \<Rightarrow> RemoteCxxTask) \<Rightarrow> RemoteCxxTask execution_task_ops" where
  "remote_task_ops finish =
     \<lparr> et_GetCommandLine = remote_GetCommandLine, et_GetStandardInputOnce = remote_GetStandardInputOnce, et_OnCompletion = finish \<rparr>"

text \<open>\<open>memory_available\<close>, \<open>pid\<close> and \<open>now\<close> are what the engine reads when it starts the program.\<close>

definition QueueCxxCompilationTask ::
  "flare \<Rightarrow> remote_ops \<Rightarrow> RemoteCxxTask execution_task_ops \<Rightarrow> CompilerRegistry \<Rightarrow> string \<Rightarrow> nat \<Rightarrow> int \<Rightarrow> time_point
   \<Rightarrow> QueueCxxCompilationTaskRequest \<Rightarrow> DaemonServiceImpl \<Rightarrow> RemoteCxxTask ExecutionEngine \<Rightarrow> filesystem
   \<Rightarrow> ((daemon_status + nat) \<times> RemoteCxxTask ExecutionEngine \<times> filesystem) option" where
  "QueueCxxCompilationTask fl ro ops registry workspace memory_available pid now request s engine fs =
     (if \<not> IsTokenAcceptable (qc_token request) s then Some (Inl DAEMON_STATUS_ACCESS_DENIED, engine, fs)
      else
        (case remote_Prepare fl ro registry workspace request fs of
           None \<Rightarrow> None
         | Some (Inl status, fs) \<Rightarrow> Some (Inl status, engine, fs)
         | Some (Inr task, fs) \<Rightarrow>
             (case TryQueueTask ops (qc_task_grant_id request) task memory_available pid now engine of
                (None, engine) \<Rightarrow> Some (Inl DAEMON_STATUS_HEAVILY_LOADED, engine, fs)
              | (Some task_id, engine) \<Rightarrow> Some (Inr task_id, engine, fs))))"

definition service_ReferenceTask ::
  "string \<Rightarrow> nat \<Rightarrow> DaemonServiceImpl \<Rightarrow> 't ExecutionEngine \<Rightarrow> (daemon_status + unit) \<times> 't ExecutionEngine" where
  "service_ReferenceTask token task_id s engine =
     (if \<not> IsTokenAcceptable token s then (Inl DAEMON_STATUS_ACCESS_DENIED, engine)
      else
        (case TryReferenceTask task_id engine of
           (False, engine) \<Rightarrow> (Inl DAEMON_STATUS_TASK_NOT_FOUND, engine)
         | (True, engine) \<Rightarrow> (Inr (), engine)))"

datatype CompilationTaskStatus =
  COMPILATION_TASK_STATUS_FAILED | COMPILATION_TASK_STATUS_RUNNING | COMPILATION_TASK_STATUS_DONE | COMPILATION_TASK_STATUS_NOT_FOUND

record WaitForCompilationOutputRequest =
  wo_token :: string
  wo_task_id :: nat
  wo_milliseconds_to_wait :: nat
  wo_acceptable_compression_algorithms :: "nat list"

record WaitForCompilationOutputResponse =
  wp_status :: CompilationTaskStatus
  wp_exit_code :: int
  wp_output :: string
  wp_error :: string
  wp_extra_info :: bytes
  wp_compression_algorithm :: nat
  wp_attachment :: bytes

definition status_response :: "CompilationTaskStatus \<Rightarrow> WaitForCompilationOutputResponse" where
  "status_response status =
     \<lparr> wp_status = status, wp_exit_code = 0, wp_output = [], wp_error = [], wp_extra_info = [], wp_compression_algorithm = 0, wp_attachment = [] \<rparr>"

text \<open>\<open>later\<close> is the engine when the wait of \<open>milliseconds_to_wait\<close> has ended.\<close>

definition WaitForCompilationOutput ::
  "WaitForCompilationOutputRequest \<Rightarrow> DaemonServiceImpl \<Rightarrow> RemoteCxxTask ExecutionEngine \<Rightarrow> RemoteCxxTask ExecutionEngine
   \<Rightarrow> daemon_status + WaitForCompilationOutputResponse" where
  "WaitForCompilationOutput request s engine later =
     (if \<not> IsTokenAcceptable (wo_token request) s then Inl DAEMON_STATUS_ACCESS_DENIED
      else if COMPRESSION_ALGORITHM_ZSTD \<notin> set (wo_acceptable_compression_algorithms request) then Inl RPC_STATUS_FAILED
      else
        (case WaitForTask (wo_task_id request) engine later of
           Inl ExecutionFailed \<Rightarrow> Inr (status_response COMPILATION_TASK_STATUS_FAILED)
         | Inl ExecutionRunning \<Rightarrow> Inr (status_response COMPILATION_TASK_STATUS_RUNNING)
         | Inl ExecutionNotFound \<Rightarrow> Inr (status_response COMPILATION_TASK_STATUS_NOT_FOUND)
         | Inr task \<Rightarrow>
             Inr \<lparr> wp_status = COMPILATION_TASK_STATUS_DONE, wp_exit_code = rx_exit_code task, wp_output = rx_stdout task,
                   wp_error = rx_stderr task, wp_extra_info = rx_extra_info task,
                   wp_compression_algorithm = COMPRESSION_ALGORITHM_ZSTD, wp_attachment = rx_file_pack task \<rparr>))"

definition servant_FreeTask ::
  "string \<Rightarrow> nat \<Rightarrow> DaemonServiceImpl \<Rightarrow> 't ExecutionEngine \<Rightarrow> (daemon_status + unit) \<times> 't ExecutionEngine" where
  "servant_FreeTask token task_id s engine =
     (if \<not> IsTokenAcceptable token s then (Inl DAEMON_STATUS_ACCESS_DENIED, engine)
      else (Inr (), engine_FreeTask task_id engine))"

section \<open>Heartbeats\<close>

record daemon_flags =
  df_token :: string
  df_servant_priority :: string
  df_version_for_upgrade :: nat

text \<open>What the process measures for a heartbeat: memory, processors, load.\<close>

record measurements =
  ms_memory_available :: nat
  ms_total_memory :: nat
  ms_num_processors :: nat
  ms_load :: "nat option"
  ms_load_last_minute :: nat

definition reason_value :: "engine_NotAcceptingTaskReason \<Rightarrow> nat" where
  "reason_value r = (case r of ReasonUnknown \<Rightarrow> 0 | ReasonUserInstructed \<Rightarrow> 1 | ReasonPoorMachine \<Rightarrow> 2 | ReasonCGroupsPresent \<Rightarrow> 3)"

text \<open>An unknown priority throws; \<open>expires_in\<close> is in nanoseconds.\<close>

definition make_heartbeat ::
  "flare \<Rightarrow> (string list \<Rightarrow> bytes) \<Rightarrow> daemon_flags \<Rightarrow> measurements \<Rightarrow> CompilerRegistry \<Rightarrow> nanoseconds
   \<Rightarrow> DaemonServiceImpl \<Rightarrow> RemoteCxxTask ExecutionEngine \<Rightarrow> HeartbeatRequest option" where
  "make_heartbeat fl Blake3_of flags ms registry expires_in s engine =
     (case map_of [(''dedicated'', 1), (''user'', 2)] (df_servant_priority flags) of
        None \<Rightarrow> None
      | Some priority \<Rightarrow>
          Some \<lparr> hb_token = df_token flags, hb_next_heartbeat_in_ms = to_uint32 (expires_in div milliseconds 1),
                 hb_version = df_version_for_upgrade flags, hb_location = ds_network_location s,
                 hb_num_processors = ms_num_processors ms mod 2 ^ 32,
                 hb_current_load = (case ms_load ms of Some l \<Rightarrow> l | None \<Rightarrow> ms_load_last_minute ms) mod 2 ^ 32,
                 hb_servant_priority = priority,
                 hb_not_accepting_task_reason = (case GetMaximumTasks engine of Inl reason \<Rightarrow> reason_value reason | Inr _ \<Rightarrow> 0),
                 hb_capacity = (case GetMaximumTasks engine of Inl _ \<Rightarrow> 0 | Inr capacity \<Rightarrow> capacity mod 2 ^ 32),
                 hb_total_memory_in_bytes = ms_total_memory ms, hb_memory_available_in_bytes = ms_memory_available ms,
                 hb_env_descs = EnumerateEnvironments registry,
                 hb_running_tasks =
                   map (\<lambda>(task_id, grant_id, task).
                          \<lparr> rt_servant_task_id = task_id, rt_task_grant_id = grant_id, rt_servant_location = ds_network_location s,
                            rt_task_digest = remote_GetDigest fl Blake3_of task \<rparr>) (EnumerateTasks engine) \<rparr>)"

text \<open>The scheduler's answer, \<open>None\<close> if the call failed.\<close>

definition Heartbeat_reply ::
  "HeartbeatResponse option \<Rightarrow> DaemonServiceImpl \<Rightarrow> 't ExecutionEngine \<Rightarrow> DaemonServiceImpl \<times> 't ExecutionEngine" where
  "Heartbeat_reply result s engine =
     (case result of
        None \<Rightarrow> (s, engine)
      | Some r \<Rightarrow> (UpdateAcceptableTokens (hr_acceptable_tokens r) s, KillExpiredTasks (set (hr_expired_tasks r)) engine))"

section \<open>Lemmas\<close>

lemma IsTokenAcceptable_after_reply:
  "IsTokenAcceptable t (fst (Heartbeat_reply (Some r) s engine)) \<longleftrightarrow> t \<in> set (hr_acceptable_tokens r)"
  by (simp add: IsTokenAcceptable_def Heartbeat_reply_def UpdateAcceptableTokens_def Verify_def)

lemma TryQueueTask_accepted:
  assumes "TryQueueTask ops grant task memory pid now engine = (Some task_id, engine')"
  shows "\<exists>r. map_of (ee_tasks engine') task_id = Some r
     \<and> ee_heap engine' r = \<lparr>xd_grant_id = grant, xd_client_ref_count = 1, xd_is_running = True, xd_started_at = now, xd_completed_at = 0,
         xd_process_id = pid, xd_task = snd (et_GetStandardInputOnce ops task), xd_completion_latch = False, xd_command = et_GetCommandLine ops task\<rparr>"
proof -
  obtain e1 where e1: "TryStartingNewTaskUnsafe memory engine = (Some task_id, e1)"
    using assms by (auto simp: TryQueueTask_def Let_def split: prod.splits option.splits)
  then show ?thesis
    using assms by (auto simp: TryQueueTask_def Let_def umap_simps split: prod.splits)
qed

text \<open>A task that a servant reports and that is not declared expired has a live grant of the scheduler.\<close>

lemma NotifyServantRunningTasks_permits:
  assumes "NotifyServantRunningTasks l ts d = (expired, d')" "t \<in> set ts"
  shows "rt_task_grant_id t \<in> set expired \<or> (\<exists>servant tk. find_servant l d = Some servant
     \<and> (rt_task_grant_id t, tk) \<in> set (td_tasks d') \<and> tk_belonging_servant tk = servant \<and> \<not> tk_zombie tk)"
proof (cases "find_servant l d")
  case (Some servant)
  let ?d1 = "UnsafeSweepZombiesOf servant (set (map rt_task_grant_id ts)) d"
  have d': "td_tasks d' = td_tasks ?d1" using assms(1) Some by (auto simp: NotifyServantRunningTasks_def Let_def)
  have "expired = map rt_task_grant_id (filter (\<lambda>t. rt_task_grant_id t \<notin>
      fst ` set (filter (\<lambda>e. tk_belonging_servant (snd e) = servant \<and> \<not> tk_zombie (snd e)) (td_tasks ?d1))) ts)"
    using assms(1) Some by (simp add: NotifyServantRunningTasks_def Let_def)
  with assms(2) Some show ?thesis unfolding d' by (cases "rt_task_grant_id t \<in> set expired") auto
qed (use assms in \<open>auto simp: NotifyServantRunningTasks_def\<close>)

lemma Heartbeat_reply_killed:
  "ee_killed (snd (Heartbeat_reply (Some r) s engine)) = ee_killed engine @
     map (\<lambda>e. - xd_process_id (ee_heap engine (snd e)))
       (filter (\<lambda>e. xd_is_running (ee_heap engine (snd e)) \<and> xd_grant_id (ee_heap engine (snd e)) \<in> set (hr_expired_tasks r)) (ee_tasks engine))"
  by (simp add: Heartbeat_reply_def KillExpiredTasks_effect)

lemma make_heartbeat_reports:
  assumes "make_heartbeat fl Blake3_of flags ms registry expires s engine = Some rq" "(task_id, r) \<in> set (ee_tasks engine)"
  shows "\<exists>t \<in> set (hb_running_tasks rq). rt_task_grant_id t = xd_grant_id (ee_heap engine r) \<and> rt_servant_task_id t = task_id"
  using assms by (force simp: make_heartbeat_def EnumerateTasks_def split: option.splits)

lemma Determine_pair:
  assumes "tokens_ok s" "DetermineActiveServingDaemonTokens fl flags now rnd s = Some (us, s1)"
    "DetermineActiveServingDaemonTokens fl flags later rnd' s1 = Some (vs, s2)"
    "now \<le> later" "later - now \<le> seconds (sf_token_rollout_interval flags)"
  shows "us ! 1 \<in> set vs \<and> vs ! 1 \<in> set us"
proof -
  have run: "token_run fl flags [(now, rnd), (later, rnd')] s = Some [us, vs]" using assms(2,3) by simp
  obtain r where r: "set [us, vs] \<subseteq> {ss_active_serving_daemon_tokens s, tl (ss_active_serving_daemon_tokens s) @ [r]}"
    using token_run_window [OF run _ assms(1)] assms(4,5) by auto
  then show ?thesis
    using shifted_tokens_overlap [of "ss_active_serving_daemon_tokens s" _ r] assms(1) by (auto simp: tokens_ok_def)
qed

lemma Heartbeat_tokens:
  "Heartbeat fl ea flags remote rq now rnd s d = Some (Inr resp, s', d') \<Longrightarrow>
     DetermineActiveServingDaemonTokens fl flags now rnd s = Some (hr_acceptable_tokens resp, s')"
  by (auto simp: Heartbeat_def Let_def split: if_splits option.splits prod.splits)

lemma GetConfig_tokens:
  "GetConfig fl flags token now rnd s = Some (Inr serving, s') \<Longrightarrow>
     \<exists>ts. DetermineActiveServingDaemonTokens fl flags now rnd s = Some (ts, s') \<and> serving = ts ! 1"
  by (auto simp: GetConfig_def split: if_splits option.splits)

section \<open>Properties\<close>


text \<open>Tokens from the scheduler to the servant: a token the scheduler hands to a client less than one rollout
  interval before or after the heartbeat of a servant is accepted by that servant.\<close>

theorem client_token_accepted:
  assumes "tokens_ok s" "now \<le> later" "later - now \<le> seconds (sf_token_rollout_interval flags)"
  shows "(Heartbeat fl ea flags remote rq now rnd s d = Some (Inr resp, s1, d1) \<and>
            GetConfig fl flags token later rnd' s1 = Some (Inr serving, s2)
          \<or> GetConfig fl flags token now rnd s = Some (Inr serving, s1) \<and>
            Heartbeat fl ea flags remote rq later rnd' s1 d = Some (Inr resp, s2, d1)) \<longrightarrow>
           IsTokenAcceptable serving (fst (Heartbeat_reply (Some resp) svc engine))"
proof (intro impI, elim disjE conjE)
  assume "Heartbeat fl ea flags remote rq now rnd s d = Some (Inr resp, s1, d1)" "GetConfig fl flags token later rnd' s1 = Some (Inr serving, s2)"
  with Determine_pair [OF assms(1) _ _ assms(2,3)] Heartbeat_tokens GetConfig_tokens
  show "IsTokenAcceptable serving (fst (Heartbeat_reply (Some resp) svc engine))"
    unfolding IsTokenAcceptable_after_reply by metis
next
  assume "GetConfig fl flags token now rnd s = Some (Inr serving, s1)" "Heartbeat fl ea flags remote rq later rnd' s1 d = Some (Inr resp, s2, d1)"
  with Determine_pair [OF assms(1) _ _ assms(2,3)] Heartbeat_tokens GetConfig_tokens
  show "IsTokenAcceptable serving (fst (Heartbeat_reply (Some resp) svc engine))"
    unfolding IsTokenAcceptable_after_reply by metis
qed

text \<open>C5. A submission that is accepted runs, under the client's grant and with one reference, the compiler whose
  bytes have the digest the client asked for, with the client's arguments.\<close>

theorem servant_runs_requested_compiler:
  assumes "OnCompilerRescanTimer fl flags m r0 = Some (logs, registry)"
    "QueueCxxCompilationTask fl ro (remote_task_ops finish) registry workspace memory pid now request svc engine fs = Some (Inr task_id, engine', fs')"
  shows "IsTokenAcceptable (qc_token request) svc \<and>
     (\<exists>ref compiler. map_of (ee_tasks engine') task_id = Some ref
        \<and> TryGetFileDigest fl m compiler = Some (ed_compiler_digest (qc_env_desc request)) \<and> \<not> IsCompilerWrapper fl compiler
        \<and> prefix (compiler @ '' '' @ qc_invocation_arguments request @ '' -o '' @ workspace @ ''/'') (xd_command (ee_heap engine' ref))
        \<and> xd_grant_id (ee_heap engine' ref) = qc_task_grant_id request \<and> xd_client_ref_count (ee_heap engine' ref) = 1
        \<and> xd_is_running (ee_heap engine' ref))"
proof -
  obtain task fs1 where token: "IsTokenAcceptable (qc_token request) svc"
    and p: "remote_Prepare fl ro registry workspace request fs = Some (Inr task, fs1)"
    and q: "TryQueueTask (remote_task_ops finish) (qc_task_grant_id request) task memory pid now engine = (Some task_id, engine')"
    using assms(2) by (auto simp: QueueCxxCompilationTask_def split: if_splits option.splits sum.splits prod.splits)
  obtain ref where ref: "map_of (ee_tasks engine') task_id = Some ref" and h: "ee_heap engine' ref = \<lparr>xd_grant_id = qc_task_grant_id request,
         xd_client_ref_count = 1, xd_is_running = True, xd_started_at = now, xd_completed_at = 0, xd_process_id = pid,
         xd_task = snd (et_GetStandardInputOnce (remote_task_ops finish) task), xd_completion_latch = False,
         xd_command = et_GetCommandLine (remote_task_ops finish) task\<rparr>"
    using TryQueueTask_accepted [OF q] by blast
  obtain compiler depth where c: "TryGetCompilerPath (qc_env_desc request) registry = Some compiler"
    and cmd: "rx_command_line task = compiler @ '' '' @ qc_invocation_arguments request @ '' -o '' @ workspace @ ''/'' @ depth @ ''/output.o''"
    using p by (elim remote_PrepareE) blast
  have "offered_compiler fl m compiler \<and> TryGetFileDigest fl m compiler = Some (ed_compiler_digest (qc_env_desc request))"
    using registry_exact [OF assms(1)] c by blast
  moreover have "prefix (compiler @ '' '' @ qc_invocation_arguments request @ '' -o '' @ workspace @ ''/'') (xd_command (ee_heap engine' ref))"
    by (simp add: h remote_task_ops_def remote_GetCommandLine_def cmd)
  ultimately show ?thesis using token ref by (auto simp: h offered_compiler_def)
qed

text \<open>A servant does nothing for a token it was not given: all four requests are refused and leave the engine
  and the disk alone, and before its first heartbeat is answered it refuses every token.\<close>

theorem servant_refuses_tokens:
  assumes "\<not> IsTokenAcceptable token svc"
  shows "(qc_token request = token \<longrightarrow>
            QueueCxxCompilationTask fl ro ops registry workspace memory pid now request svc engine fs = Some (Inl DAEMON_STATUS_ACCESS_DENIED, engine, fs))
       \<and> service_ReferenceTask token task_id svc engine = (Inl DAEMON_STATUS_ACCESS_DENIED, engine)
       \<and> (wo_token wait_request = token \<longrightarrow> WaitForCompilationOutput wait_request svc engine later = Inl DAEMON_STATUS_ACCESS_DENIED)
       \<and> servant_FreeTask token task_id svc engine = (Inl DAEMON_STATUS_ACCESS_DENIED, engine)
       \<and> \<not> IsTokenAcceptable any (DaemonServiceImpl_ctor loc)"
  using assms
  by (simp add: QueueCxxCompilationTask_def service_ReferenceTask_def WaitForCompilationOutput_def servant_FreeTask_def
      IsTokenAcceptable_def DaemonServiceImpl_ctor_def)

section \<open>Concrete runs\<close>

definition demo_remote_task :: RemoteCxxTask where
  "demo_remote_task =
     \<lparr> rx_exit_code = 0, rx_stdout = [], rx_stderr = [], rx_extra_info = [], rx_file_pack = [], rx_workspace_dir = ''/w'',
       rx_source_path = ''a.cc'', rx_command_line = ''g++ -O2'', rx_source = [], rx_env_desc = \<lparr> ed_compiler_digest = ''ELF'' \<rparr>,
       rx_invocation_arguments = ''-O2'', rx_source_digest = ''d'', rx_write_cache_future = True, rx_write_cache = False,
       rx_temporary_dir_extra_depth = ''d'' \<rparr>"

definition demo_servant_engine :: "RemoteCxxTask ExecutionEngine" where
  "demo_servant_engine =
     \<lparr> ee_exiting = False, ee_task_concurrency_limit = 2, ee_min_memory = 0, ee_not_accepting_task_reason = ReasonUnknown,
       ee_tasks_run_ever = 1, ee_running_tasks = 1, ee_next_task_id = 2, ee_tasks = [(1, 0)],
       ee_heap = (\<lambda>_. \<lparr> xd_grant_id = 77, xd_client_ref_count = 1, xd_is_running = True, xd_started_at = 0, xd_completed_at = 0,
                        xd_process_id = 100, xd_task = demo_remote_task, xd_completion_latch = False, xd_command = ''g++ -O2'' \<rparr>),
       ee_next_ref = 1, ee_waitpid_semaphore = 1, ee_killed = [] \<rparr>"

definition demo_daemon_flags :: daemon_flags where
  "demo_daemon_flags = \<lparr> df_token = ''sv'', df_servant_priority = ''user'', df_version_for_upgrade = 3 \<rparr>"

definition demo_measurements :: measurements where
  "demo_measurements = \<lparr> ms_memory_available = 1, ms_total_memory = 2, ms_num_processors = 8, ms_load = None, ms_load_last_minute = 1 \<rparr>"

abbreviation demo_servant_daemon :: DaemonServiceImpl where "demo_servant_daemon \<equiv> DaemonServiceImpl_ctor ''10.0.0.3:80''"

definition demo_servant_heartbeat :: HeartbeatRequest where
  "demo_servant_heartbeat = the (make_heartbeat reference_flare concat demo_daemon_flags demo_measurements demo_registry
     (seconds 10) demo_servant_daemon demo_servant_engine)"

abbreviation demo_beat :: "((scheduler_status + HeartbeatResponse) \<times> SchedulerServiceImpl \<times> TaskDispatcher) option" where
  "demo_beat \<equiv> Heartbeat reference_flare demo_endpoint_api demo_flags demo_peer demo_servant_heartbeat 1 ''r'' demo_service demo_d1"

lemma demo_servant_heartbeat_made:
  "make_heartbeat reference_flare concat demo_daemon_flags demo_measurements demo_registry (seconds 10) demo_servant_daemon demo_servant_engine
     = Some demo_servant_heartbeat"
  by (simp add: demo_servant_heartbeat_def make_heartbeat_def demo_daemon_flags_def)

lemma demo_beat_success: "\<exists>resp s' d'. demo_beat = Some (Inr resp, s', d')"
proof -
  have "(case demo_beat of Some (Inr resp, s', d') \<Rightarrow> True | _ \<Rightarrow> False)" by code_simp
  then show ?thesis by (auto split: option.split_asm prod.split_asm sum.split_asm)
qed


theorem client_token_accepted_witness:
  "\<exists>resp s1 d1 s2. demo_beat = Some (Inr resp, s1, d1) \<and> GetConfig reference_flare demo_flags ''u'' 5 ''q'' s1 = Some (Inr ''b'', s2)
     \<and> IsTokenAcceptable ''b'' (fst (Heartbeat_reply (Some resp) demo_servant_daemon demo_servant_engine))"
proof -
  obtain resp s1 d1 where b: "demo_beat = Some (Inr resp, s1, d1)" using demo_beat_success by blast
  have "(case demo_beat of Some (Inr resp, s1, d1) \<Rightarrow> map_option fst (GetConfig reference_flare demo_flags ''u'' 5 ''q'' s1) = Some (Inr ''b'') | _ \<Rightarrow> False)"
    by code_simp
  then obtain s2 where g: "GetConfig reference_flare demo_flags ''u'' 5 ''q'' s1 = Some (Inr ''b'', s2)" by (auto simp: b)
  have ok: "tokens_ok demo_service" by code_simp
  have "IsTokenAcceptable ''b'' (fst (Heartbeat_reply (Some resp) demo_servant_daemon demo_servant_engine))"
    by (rule client_token_accepted [THEN mp, OF ok _ _ disjI1 [OF conjI [OF b g]]]) (simp_all add: demo_flags_def)
  with b g show ?thesis by blast
qed

theorem servant_runs_requested_compiler_witness:
  "\<exists>engine' fs' compiler ref.
     QueueCxxCompilationTask short_flare demo_remote_ops (remote_task_ops (\<lambda>_ _ _ t. t)) demo_registry ''/w'' 1 101 5
       (fst (StartTask ''tok'' 5 demo_cxx_task)) (UpdateAcceptableTokens [''tok''] demo_servant_daemon) demo_servant_engine [] = Some (Inr 2, engine', fs')
     \<and> map_of (ee_tasks engine') 2 = Some ref \<and> TryGetFileDigest short_flare demo_machine compiler = Some ''ELF''"
proof -
  let ?rq = "fst (StartTask ''tok'' 5 demo_cxx_task)" and ?svc = "UpdateAcceptableTokens [''tok''] demo_servant_daemon"
  have s: "OnCompilerRescanTimer short_flare \<lparr> rf_extra_compiler_dirs = [], rf_extra_compiler_bundle_dirs = [] \<rparr> demo_machine
      \<lparr> cg_compiler_paths = [], cg_environments = [] \<rparr> = Some (([], [''/usr/bin/g++-9'']), demo_registry)"
    by code_simp
  obtain rt fs' where p: "remote_Prepare short_flare demo_remote_ops demo_registry ''/w'' ?rq [] = Some (Inr rt, fs')"
    using demo_Prepare_accepts by blast
  have "fst (TryQueueTask (remote_task_ops (\<lambda>_ _ _ t. t)) 5 rt 1 101 5 demo_servant_engine) = Some 2"
    by (simp add: TryQueueTask_def TryStartingNewTaskUnsafe_def demo_servant_engine_def Let_def split: prod.split)
  then obtain engine' where e: "TryQueueTask (remote_task_ops (\<lambda>_ _ _ t. t)) 5 rt 1 101 5 demo_servant_engine = (Some 2, engine')"
    by (metis prod.collapse)
  have q: "QueueCxxCompilationTask short_flare demo_remote_ops (remote_task_ops (\<lambda>_ _ _ t. t)) demo_registry ''/w'' 1 101 5
      ?rq ?svc demo_servant_engine [] = Some (Inr 2, engine', fs')"
    using p e by (simp add: QueueCxxCompilationTask_def IsTokenAcceptable_def UpdateAcceptableTokens_def Verify_def StartTask_def)
  show ?thesis
    using servant_runs_requested_compiler [OF s q] q by (auto simp: StartTask_def demo_cxx_task_def)
qed

theorem servant_refuses_tokens_witness:
  "servant_FreeTask ''x'' 1 demo_servant_daemon demo_servant_engine = (Inl DAEMON_STATUS_ACCESS_DENIED, demo_servant_engine)"
  using servant_refuses_tokens [of "''x''" demo_servant_daemon] by (simp add: IsTokenAcceptable_def DaemonServiceImpl_ctor_def)

end
