(* ===== verification/Client_Compilation.thy ===== *)
theory Client_Compilation
  imports Client_Runtime Path_Patching
begin

text \<open>
  The compiler wrapper itself: the requests it sends to the daemon of its machine and what it makes of
  the answers (\<^verbatim>\<open>client/cxx/compilation_saas.cc\<close>), the choice between the cloud and the local compiler
  (\<^verbatim>\<open>client/cxx/yadcc-cxx.cc\<close>), and the wrapper for other programs
  (\<^verbatim>\<open>client/wrapper/universal_wrapper.cc\<close>).
\<close>

section \<open>Requests\<close>

record CompilationResult =
  cr_exit_code :: int
  cr_output :: bytes
  cr_error :: bytes
  cr_output_files :: "(string \<times> bytes) list"

abbreviation failed_result :: "int \<Rightarrow> CompilationResult" where
  "failed_result code \<equiv> \<lparr> cr_exit_code = code, cr_output = [], cr_error = [], cr_output_files = [] \<rparr>"

definition kIgnoredArgs :: "string list" where
  "kIgnoredArgs = [''-MMD'', ''-MF'', ''-MD'', ''-MT'', ''-MP'', ''-o'', ''-Wmissing-include-dirs'']"

definition kIgnoredArgPrefixes :: "string list" where
  "kIgnoredArgPrefixes =
     [''-Wp,-MMD'', ''-Wp,-MF'', ''-Wp,-MD'', ''-Wp,-MD'', ''-Wp,-MP'', ''-I'', ''-include'', ''-isystem'']"

definition GetExpectedPath :: "client_env \<Rightarrow> CompilerArgs \<Rightarrow> string option" where
  "GetExpectedPath env args =
     (case GetOutputFile args of
        None \<Rightarrow> None
      | Some path \<Rightarrow>
          (let desired_path = (case find_last_of path CHR ''.'' of Some pos \<Rightarrow> take pos path | None \<Rightarrow> path)
           in Some (if desired_path \<noteq> [] \<and> hd desired_path = CHR ''/'' then desired_path
                    else ce_getcwd env @ ''/'' @ desired_path)))"

definition cache_control_value :: "CacheControl \<Rightarrow> int" where
  "cache_control_value c = (case c of CacheDisallow \<Rightarrow> 0 | CacheAllow \<Rightarrow> 1 | CacheRefill \<Rightarrow> 2)"

text \<open>The members of the request.\<close>

definition submission :: "client_env \<Rightarrow> CompilerArgs \<Rightarrow> RewriteResult \<Rightarrow> nat \<Rightarrow> nat \<Rightarrow> SubmitCxxTaskRequest" where
  "submission env args r mtime filesize =
     \<lparr> sq_requestor_process_id = int (ce_pid env), sq_source_path = rw_source_path r, sq_source_digest = rw_source_digest r,
       sq_compiler_invocation_arguments =
         ToCommandLine
           (Rewrite args kIgnoredArgs kIgnoredArgPrefixes
             [''-fpreprocessed'', if rw_directives_only r then ''-fdirectives-only'' else [], ''-x'', rw_language r, ''-''] False)
           False,
       sq_cache_control = cache_control_value (rw_cache_control r),
       sq_compiler = \<lparr> fs_path = ca_compiler args, fs_size = filesize, fs_timestamp = mtime \<rparr> \<rparr>"

definition submission_body :: "client_env \<Rightarrow> SubmitCxxTaskRequest \<Rightarrow> bytes \<Rightarrow> bytes" where
  "submission_body env req source =
     (let parts = [ce_write_submission env req, source] in MakeMultiChunkHeader parts @ concat parts)"

definition digest_report :: "string \<Rightarrow> nat \<Rightarrow> nat \<Rightarrow> string \<Rightarrow> bytes" where
  "digest_report path filesize mtime digest =
     (let q = [CHR 0x22] in
      ''{'' @ q @ ''file_desc'' @ q @ '':{'' @ q @ ''path'' @ q @ '':'' @ q @ path @ q @ '','' @ q @ ''size'' @ q @ '':'' @ to_string filesize
      @ '','' @ q @ ''timestamp'' @ q @ '':'' @ to_string mtime @ ''},'' @ q @ ''digest'' @ q @ '':'' @ q @ digest @ q @ ''}'')"

text \<open>What is read from the answer to the last submission.\<close>

definition submitted_id :: "client_env \<Rightarrow> DaemonResponse \<Rightarrow> string option client" where
  "submitted_id env result =
     (if dr_status result \<noteq> 200 then cl_return None
      else
        (case ce_parse_json env (dr_body result) of
           None \<Rightarrow> cl_return None
         | Some jsv \<Rightarrow> cl_option (map_option Some (Option.bind (json_member jsv ''task_id'') json_asString))))"

definition SubmitCompilationTask :: "client_env \<Rightarrow> CompilerArgs \<Rightarrow> RewriteResult \<Rightarrow> string option client" where
  "SubmitCompilationTask env args r =
     cl_bind (cl_option (ce_mtime_and_size env (ca_compiler args))) (\<lambda>(mtime, filesize).
       let body = submission_body env (submission env args r mtime filesize) (rw_zstd_rewritten r) in
       cl_bind (cl_call ''/local/submit_cxx_task'' body) (\<lambda>result.
         if dr_status result = 400 then
           cl_bind (cl_option (ce_file_digest env (ca_compiler args))) (\<lambda>digest.
             cl_bind (cl_call ''/local/set_file_digest'' (digest_report (ca_compiler args) filesize mtime digest)) (\<lambda>reported.
               if dr_status reported \<noteq> 200 then cl_return None
               else cl_bind (cl_call ''/local/submit_cxx_task'' body) (submitted_id env)))
         else submitted_id env result))"

section \<open>Results\<close>

text \<open>The output files, with an extension for each chunk behind the first; \<open>at\<close> throws.\<close>

fun read_files :: "client_env \<Rightarrow> json \<Rightarrow> bytes list \<Rightarrow> nat list \<Rightarrow> (string \<times> bytes) list option" where
  "read_files env extensions chunks [] = Some []"
| "read_files env extensions chunks (i # is) =
     (case Option.bind (json_index extensions i) json_asString of
        None \<Rightarrow> None
      | Some path \<Rightarrow>
          if i + 1 < length chunks then
            (case ce_decompress env (chunks ! (i + 1)) of
               None \<Rightarrow> None
             | Some data \<Rightarrow> map_option (Cons (path, data)) (read_files env extensions chunks is))
          else None)"

text \<open>One location; \<open>Some None\<close> is malformed.\<close>

definition read_location :: "json \<Rightarrow> PatchLocation option option" where
  "read_location location =
     (case (json_member location ''position'', json_member location ''total_size'', json_member location ''suffix_to_keep'') of
        (Some p, Some t, Some k) \<Rightarrow>
          Some (if json_isUInt64 p \<and> json_isUInt64 t \<and> json_isUInt64 k
                then Some \<lparr> pl_position = json_asUnsigned p, pl_total_size = json_asUnsigned t, pl_suffix_to_keep = json_asUnsigned k \<rparr>
                else None)
      | _ \<Rightarrow> None)"

fun add_locations ::
  "string \<Rightarrow> json list \<Rightarrow> (string, PatchLocation list) umap \<Rightarrow> (string, PatchLocation list) umap option option" where
  "add_locations ext [] locations = Some (Some locations)"
| "add_locations ext (l # ls) locations =
     (case read_location l of
        None \<Rightarrow> None
      | Some None \<Rightarrow> Some None
      | Some (Some loc) \<Rightarrow>
          add_locations ext ls (umap_set ext ((case map_of locations ext of Some xs \<Rightarrow> xs | None \<Rightarrow> []) @ [loc]) locations))"

fun read_locations ::
  "json \<Rightarrow> json \<Rightarrow> nat list \<Rightarrow> (string, PatchLocation list) umap \<Rightarrow> (string, PatchLocation list) umap option option" where
  "read_locations extensions patches [] locations = Some (Some locations)"
| "read_locations extensions patches (i # is) locations =
     (case (Option.bind (json_index extensions i) json_asString,
            Option.bind (json_index patches i) (\<lambda>p. json_member p ''locations'')) of
        (Some ext, Some ls) \<Rightarrow>
          (case add_locations ext (json_elements ls) locations of
             Some (Some locations') \<Rightarrow> read_locations extensions patches is locations'
           | r \<Rightarrow> r)
      | _ \<Rightarrow> None)"

text \<open>Output files after patching, or the exit code that stands for the failure.\<close>

definition patch_outputs ::
  "client_env \<Rightarrow> CompilerArgs \<Rightarrow> json \<Rightarrow> json \<Rightarrow> nat list \<Rightarrow> (string \<times> bytes) list \<Rightarrow> (int + (string \<times> bytes) list) option" where
  "patch_outputs env args extensions patches is output_files =
     (if TryGet args ''--coverage'' \<noteq> None \<or> TryGet args ''-ftest-coverage'' \<noteq> None then
        (case read_locations extensions patches is [] of
           None \<Rightarrow> None
         | Some None \<Rightarrow> Some (Inl (-2))
         | Some (Some locations) \<Rightarrow>
             (case GetExpectedPath env args of
                None \<Rightarrow> None
              | Some desired_path \<Rightarrow>
                  (case PatchPathOccurrences output_files locations desired_path of
                     None \<Rightarrow> None
                   | Some None \<Rightarrow> Some (Inl (-3))
                   | Some (Some files) \<Rightarrow> Some (Inr files))))
      else Some (Inr output_files))"

definition read_result :: "client_env \<Rightarrow> CompilerArgs \<Rightarrow> bytes \<Rightarrow> CompilationResult option" where
  "read_result env args body =
     (case client_TryParseMultiChunk body of
        None \<Rightarrow> None
      | Some None \<Rightarrow> Some (failed_result (-1))
      | Some (Some []) \<Rightarrow> Some (failed_result (-1))
      | Some (Some (front # files)) \<Rightarrow>
          (case ce_parse_json env front of
             None \<Rightarrow> Some (failed_result (-1))
           | Some jsv \<Rightarrow>
               (case (json_member jsv ''file_extensions'', json_member jsv ''patches'') of
                  (Some extensions, Some patches) \<Rightarrow>
                    (let is = [0..<json_size extensions] in
                     case read_files env extensions (front # files) is of
                       None \<Rightarrow> None
                     | Some output_files \<Rightarrow>
                         (case patch_outputs env args extensions patches is output_files of
                            None \<Rightarrow> None
                          | Some (Inl code) \<Rightarrow> Some (failed_result code)
                          | Some (Inr patched) \<Rightarrow>
                              (case (Option.bind (json_member jsv ''exit_code'') json_asInt,
                                     Option.bind (json_member jsv ''output'') json_asString,
                                     Option.bind (json_member jsv ''error'') json_asString) of
                                 (Some ec, Some out, Some err) \<Rightarrow>
                                   Some \<lparr> cr_exit_code = ec, cr_output = out, cr_error = err, cr_output_files = patched \<rparr>
                               | _ \<Rightarrow> None)))
                | _ \<Rightarrow> None)))"

definition wait_body :: "string \<Rightarrow> bytes" where
  "wait_body task_id =
     (let q = [CHR 0x22] in
      ''{'' @ q @ ''task_id'' @ q @ '': '' @ q @ task_id @ q @ '', '' @ q @ ''milliseconds_to_wait'' @ q @ '': 10000}'')"

lemma cl_call_consumes: "cl_call api body w = Return (r, w') \<Longrightarrow> length (cw_answers w') < length (cw_answers w)"
  by (auto simp: cl_call_def split: list.splits)

function WaitForCompilationTask :: "client_env \<Rightarrow> string \<Rightarrow> CompilerArgs \<Rightarrow> CompilationResult client" where
  "WaitForCompilationTask env task_id args w =
     (case cl_call ''/local/wait_for_cxx_task'' (wait_body task_id) w of
        Return (r, w') \<Rightarrow>
          if dr_status r = 503 then WaitForCompilationTask env task_id args w'
          else if dr_status r \<noteq> 200 then Return (failed_result (-1), w')
          else cl_option (read_result env args (dr_body r)) w'
      | Abort \<Rightarrow> Abort
      | Blocked \<Rightarrow> Blocked)"
  by pat_completeness auto
termination
  by (relation "measure (\<lambda>(env, t, args, w). length (cw_answers w))") (auto dest: cl_call_consumes)

declare WaitForCompilationTask.simps [simp del]

definition CompileOnPublicCloud :: "client_env \<Rightarrow> CompilerArgs \<Rightarrow> RewriteResult \<Rightarrow> CompilationResult client" where
  "CompileOnPublicCloud env args r =
     cl_bind (SubmitCompilationTask env args r) (\<lambda>task_id.
       case task_id of
         None \<Rightarrow> cl_return (failed_result (-1))
       | Some task_id \<Rightarrow> WaitForCompilationTask env task_id args)"

definition CompileOnCloud :: "client_env \<Rightarrow> CompilerArgs \<Rightarrow> RewriteResult \<Rightarrow> CompilationResult client" where
  "CompileOnCloud env args r =
     (if rw_zstd_rewritten r = [] then (\<lambda>w. Abort) else CompileOnPublicCloud env args r)"

section \<open>The wrapper\<close>

definition IsCompilerInvocationDistributable :: "CompilerArgs \<Rightarrow> bool option" where
  "IsCompilerInvocationDistributable args =
     (if TryGet args ''-c'' = None then Some False
      else if TryGet args ''-x'' = Some [] then None
      else if (case TryGet args ''-x'' of Some (v # _) \<Rightarrow> v \<noteq> ''c'' \<and> v \<noteq> ''c++'' | _ \<Rightarrow> False) then Some False
      else if TryGet args ''-'' \<noteq> None then Some False
      else
        (case ca_filenames args of
           [filename] \<Rightarrow> Some (\<not> (client_EndsWith filename ''.s'' \<or> client_EndsWith filename ''.S''))
         | _ \<Rightarrow> Some False))"

definition IsLightweightTask :: "client_env \<Rightarrow> CompilerArgs \<Rightarrow> bool" where
  "IsLightweightTask env args \<longleftrightarrow>
     list_ex (\<lambda>e. TryGet args e \<noteq> None) [''-dumpversion'', ''-dumpmachine'', ''-E'']
     \<or> (GetOptionTreatSourceFromStdinAsLightweight env \<and> TryGet args ''-'' \<noteq> None)"

text \<open>The quota is released by its last owner, behind the program.\<close>

definition RunCompilationNativelyUsingQuota :: "client_env \<Rightarrow> string \<Rightarrow> string list \<Rightarrow> int client" where
  "RunCompilationNativelyUsingQuota env program argv = with_quota env (PassthroughToProgram program argv)"

definition WriteAll :: "client_env \<Rightarrow> string \<Rightarrow> bytes \<Rightarrow> unit client" where
  "WriteAll env filename data = (if ce_writable env filename data then cl_log (Wrote filename data) else (\<lambda>w. Abort))"

definition output_name :: "string \<Rightarrow> string \<Rightarrow> string" where
  "output_name destination suff =
     (let destination_prefix =
            (if length destination \<ge> 2 \<and> drop (length destination - 2) destination = ''.o''
             then take (length destination - 2) destination else destination)
      in if suff = ''.o'' then destination else destination_prefix @ suff)"

primrec WriteCompilationResults :: "client_env \<Rightarrow> string \<Rightarrow> (string \<times> bytes) list \<Rightarrow> unit client" where
  "WriteCompilationResults env destination [] = cl_return ()"
| "WriteCompilationResults env destination (f # fs) =
     cl_bind (WriteAll env (output_name destination (fst f)) (snd f)) (\<lambda>_. WriteCompilationResults env destination fs)"

definition passthrough_acquiring_quota :: "client_env \<Rightarrow> CompilerArgs \<Rightarrow> string list \<Rightarrow> int client" where
  "passthrough_acquiring_quota env args argv =
     cl_bind (AcquireTaskQuota env (IsLightweightTask env args)) (\<lambda>_.
       RunCompilationNativelyUsingQuota env (ca_compiler args) argv)"

text \<open>What \<open>"%s"\<close> prints.\<close>

definition cstr :: "bytes \<Rightarrow> bytes" where
  "cstr s = takeWhile (\<lambda>c. c \<noteq> NUL) s"

text \<open>The end of an iteration: a failure that is not retried in the cloud, or success.\<close>

definition finish_compilation :: "client_env \<Rightarrow> CompilerArgs \<Rightarrow> string list \<Rightarrow> CompilationResult \<Rightarrow> int client" where
  "finish_compilation env args argv result =
     (if cr_exit_code result \<noteq> 0 then passthrough_acquiring_quota env args argv
      else
        cl_bind (cl_log (Printed (cstr (cr_output result)) (cstr (cr_error result)))) (\<lambda>_.
          cl_bind (cl_option (GetOutputFile args)) (\<lambda>destination.
            cl_bind (WriteCompilationResults env destination (cr_output_files result)) (\<lambda>_. cl_return 0))))"

primrec compile_with_retries :: "nat \<Rightarrow> client_env \<Rightarrow> CompilerArgs \<Rightarrow> string list \<Rightarrow> RewriteResult \<Rightarrow> int client" where
  "compile_with_retries 0 env args argv rewritten =
     cl_bind (CompileOnCloud env args rewritten) (\<lambda>result.
       if cr_exit_code result < 0 \<or> cr_exit_code result = 127 then
         cl_bind (TryAcquireTaskQuota env False 10000) (\<lambda>quota.
           if quota then RunCompilationNativelyUsingQuota env (ca_compiler args) argv
           else finish_compilation env args argv result)
       else finish_compilation env args argv result)"
| "compile_with_retries (Suc retries_left) env args argv rewritten =
     cl_bind (CompileOnCloud env args rewritten) (\<lambda>result.
       if cr_exit_code result < 0 \<or> cr_exit_code result = 127 then
         cl_bind (TryAcquireTaskQuota env False 10000) (\<lambda>quota.
           if quota then RunCompilationNativelyUsingQuota env (ca_compiler args) argv
           else
             cl_bind (RewriteFile env args) (\<lambda>r.
               case r of
                 Some rewritten \<Rightarrow> compile_with_retries retries_left env args argv rewritten
               | None \<Rightarrow> finish_compilation env args argv result))
       else finish_compilation env args argv result)"

definition not_a_wrapper :: "string \<Rightarrow> bool" where
  "not_a_wrapper path \<longleftrightarrow> \<not> client_EndsWith path ''ccache'' \<and> \<not> client_EndsWith path ''distcc'' \<and> \<not> client_EndsWith path ''icecc''"

text \<open>The compiler and its arguments.\<close>

definition entry_args :: "client_env \<Rightarrow> string list \<Rightarrow> (CompilerArgs \<times> string list) option" where
  "entry_args env argv =
     (let not_using_symlink = client_EndsWith (argv ! 0) ''yadcc-cxx'';
          bias = (if not_using_symlink then 2 else 1)
      in case make_CompilerArgs (drop bias argv) of
           None \<Rightarrow> None
         | Some args \<Rightarrow>
             map_option (\<lambda>compiler. (SetCompiler args compiler, drop bias argv))
               (if not_using_symlink \<and> argv ! 1 \<noteq> [] \<and> hd (argv ! 1) = CHR ''/'' then Some (argv ! 1)
                else FindExecutableInPath env (client_GetBaseName (argv ! (bias - 1))) not_a_wrapper))"

definition Entry :: "client_env \<Rightarrow> string list \<Rightarrow> int client" where
  "Entry env argv =
     cl_bind (cl_option (entry_args env argv)) (\<lambda>(args, argv).
       cl_bind (cl_option (IsCompilerInvocationDistributable args)) (\<lambda>distributable.
         if \<not> distributable then passthrough_acquiring_quota env args argv
         else
           cl_bind (RewriteFile env args) (\<lambda>rewritten.
             case rewritten of
               None \<Rightarrow> passthrough_acquiring_quota env args argv
             | Some rewritten \<Rightarrow>
                 cl_bind (cl_option (GetOptionCompileOnCloudSizeThreshold env)) (\<lambda>threshold.
                   if length (rw_zstd_rewritten rewritten) < threshold then passthrough_acquiring_quota env args argv
                   else compile_with_retries 5 env args argv rewritten))))"

definition yadcc_cxx_main :: "client_env \<Rightarrow> string list \<Rightarrow> int client" where
  "yadcc_cxx_main env argv =
     cl_bind (cl_option (GetOptionLogLevel env)) (\<lambda>_. if length argv = 1 then cl_return 0 else Entry env argv)"

text \<open>The name of the wrapper alone leaves no program, whose name is then read through a null pointer.\<close>

definition universal_wrapper_main :: "client_env \<Rightarrow> string list \<Rightarrow> int client" where
  "universal_wrapper_main env argv =
     cl_bind (cl_option (GetOptionLogLevel env)) (\<lambda>_.
       let real_argv = (if client_EndsWith (argv ! 0) ''yadcc-universal-wrapper'' then drop 1 argv else argv) in
       case real_argv of
         [] \<Rightarrow> (\<lambda>w. Abort)
       | [_] \<Rightarrow> cl_return 0
       | name # rest \<Rightarrow>
           cl_bind (AcquireTaskQuota env False) (\<lambda>_. with_quota env
             (cl_bind (cl_option (FindExecutableInPath env (client_GetBaseName name) (\<lambda>_. True))) (\<lambda>program.
               PassthroughToProgram program rest))))"

section \<open>Properties\<close>

lemma SubmitCompilationTask_spec:
  "cl_spec (\<lambda>n _. quiet n \<and> submissions n \<le> 2) (SubmitCompilationTask env args r)"
proof -
  have id: "(\<And>v. R [] v) \<Longrightarrow> cl_spec R (submitted_id env result)" for R result
    by (auto simp: submitted_id_def intro: cl_spec_option split: option.splits)
  have call: "cl_spec (\<lambda>n r. \<exists>b. n = [Called api b r]) (cl_call api body)" for api body
    by (rule cl_spec_call) blast
  show ?thesis
    unfolding SubmitCompilationTask_def Let_def
    by (rule cl_spec_bind [OF cl_spec_option [of _ "\<lambda>n _. n = []"]], simp)
       (auto simp: trace_defs quiet_def split: prod.splits
         intro!: cl_spec_bind [OF call] cl_spec_bind [OF cl_spec_option [of _ "\<lambda>n _. n = []"]] id)
qed

text \<open>A result that is not the mark of a failure comes from an answer of the daemon.\<close>

definition answered :: "client_env \<Rightarrow> CompilerArgs \<Rightarrow> client_event list \<Rightarrow> CompilationResult \<Rightarrow> bool" where
  "answered env args es result \<longleftrightarrow>
     (\<exists>body r. Called ''/local/wait_for_cxx_task'' body r \<in> set es \<and> dr_status r = 200 \<and> read_result env args (dr_body r) = Some result)"

lemma answered_append: "answered env args es result \<Longrightarrow> answered env args (es' @ es) result"
  "answered env args es' result \<Longrightarrow> answered env args (es' @ es) result"
  by (auto simp: answered_def)

lemma WaitForCompilationTask_spec:
  "cl_spec (\<lambda>n result. quiet n \<and> submissions n = 0 \<and> (cr_exit_code result < 0 \<or> answered env args n result))
     (WaitForCompilationTask env task_id args)"
  unfolding cl_spec_def
proof (intro allI impI)
  fix w result w'
  assume "WaitForCompilationTask env task_id args w = Return (result, w')"
  then show "\<exists>new. cw_log w' = cw_log w @ new \<and> cw_answers w = responses new @ cw_answers w' \<and> quiet new \<and> submissions new = 0 \<and> (cr_exit_code result < 0 \<or> answered env args new result)"
  proof (induction env task_id args w rule: WaitForCompilationTask.induct)
    case (1 env task_id args w)
    from 1(2) obtain r w1 where c: "cl_call ''/local/wait_for_cxx_task'' (wait_body task_id) w = Return (r, w1)"
      by (subst (asm) WaitForCompilationTask.simps) (auto split: outcome.splits)
    let ?e = "Called ''/local/wait_for_cxx_task'' (wait_body task_id) r"
    from c have l: "cw_log w1 = cw_log w @ [?e]" "cw_answers w = r # cw_answers w1" by (auto simp: cl_call_def split: list.splits)
    have q: "quiet [?e]" "submissions [?e] = 0" by (simp_all add: quiet_def trace_defs)
    show ?case
    proof (cases "dr_status r = 503")
      case True
      with 1(2) c have "WaitForCompilationTask env task_id args w1 = Return (result, w')"
        by (subst (asm) WaitForCompilationTask.simps) simp
      from 1(1) [OF c refl True this] obtain n where "cw_log w' = cw_log w1 @ n" "cw_answers w1 = responses n @ cw_answers w'" "quiet n" "submissions n = 0"
        "cr_exit_code result < 0 \<or> answered env args n result" by blast
      with l q show ?thesis by (intro exI [of _ "[?e] @ n"]) (auto intro: quiet_append answered_append simp del: append_Cons append_Nil)
    next
      case False
      with 1(2) c have "w' = w1 \<and> (cr_exit_code result < 0 \<or> dr_status r = 200 \<and> read_result env args (dr_body r) = Some result)"
        by (subst (asm) WaitForCompilationTask.simps) (auto simp: cl_option_def split: if_splits option.splits)
      with l q show ?thesis by (auto simp: answered_def)
    qed
  qed
qed

lemma CompileOnCloud_spec:
  "cl_spec (\<lambda>n result. quiet n \<and> submissions n \<le> 2 \<and> (cr_exit_code result < 0 \<or> answered env args n result)) (CompileOnCloud env args r)"
proof (cases "rw_zstd_rewritten r = []")
  case False
  show ?thesis
    unfolding CompileOnCloud_def CompileOnPublicCloud_def if_not_P [OF False]
  proof (rule cl_spec_bind [OF SubmitCompilationTask_spec])
    fix n and task_id :: "string option"
    assume n: "quiet n \<and> submissions n \<le> 2"
    show "cl_spec (\<lambda>n' result. quiet (n @ n') \<and> submissions (n @ n') \<le> 2 \<and> (cr_exit_code result < 0 \<or> answered env args (n @ n') result))
        (case task_id of None \<Rightarrow> cl_return (failed_result (-1)) | Some task_id \<Rightarrow> WaitForCompilationTask env task_id args)"
      using n by (cases task_id) (auto intro!: cl_spec_weaken [OF WaitForCompilationTask_spec] intro: quiet_append answered_append)
  qed
qed (simp add: CompileOnCloud_def)

text \<open>The two ways a compilation can end: exactly one run of the local compiler on the arguments given, or
  the files and messages of a result of the daemon.\<close>

definition ran_locally :: "string list \<Rightarrow> client_event list \<Rightarrow> int \<Rightarrow> bool" where
  "ran_locally command es ec \<longleftrightarrow> local_runs es = [Passed command ec] \<and> outputs es = []"

definition delivered :: "client_env \<Rightarrow> CompilerArgs \<Rightarrow> client_event list \<Rightarrow> CompilationResult \<Rightarrow> bool" where
  "delivered env args es result \<longleftrightarrow>
     local_runs es = []
     \<and> (\<exists>destination. GetOutputFile args = Some destination
          \<and> outputs es = Printed (cstr (cr_output result)) (cstr (cr_error result))
              # map (\<lambda>(suff, data). Wrote (output_name destination suff) data) (cr_output_files result))"

definition compiled :: "client_env \<Rightarrow> CompilerArgs \<Rightarrow> string list \<Rightarrow> client_event list \<Rightarrow> int \<Rightarrow> bool" where
  "compiled env args argv es ec \<longleftrightarrow>
     ran_locally (ca_compiler args # argv) es ec
     \<or> ec = 0 \<and> (\<exists>result. cr_exit_code result = 0 \<and> answered env args es result \<and> delivered env args es result)"

lemma compiled_quiet: "quiet es \<Longrightarrow> compiled env args argv es' ec \<Longrightarrow> compiled env args argv (es @ es') ec"
  by (auto simp: compiled_def ran_locally_def delivered_def quiet_def answered_append)

lemma WriteCompilationResults_spec:
  "cl_spec (\<lambda>n _. n = map (\<lambda>(suff, data). Wrote (output_name destination suff) data) files) (WriteCompilationResults env destination files)"
proof (induction files)
  case (Cons f files)
  have "cl_spec (\<lambda>n _. n = [Wrote (output_name destination (fst f)) (snd f)]) (WriteAll env (output_name destination (fst f)) (snd f))"
    by (simp add: WriteAll_def)
  then show ?case
    by (simp, rule cl_spec_bind) (auto intro: cl_spec_weaken [OF Cons.IH] split: prod.splits)
qed simp

lemma RunNatively_spec:
  "cl_spec (\<lambda>n ec. ran_locally (program # argv) n ec \<and> granted n = 0 \<and> released n = 1 \<and> submissions n = 0) (RunCompilationNativelyUsingQuota env program argv)"
  unfolding RunCompilationNativelyUsingQuota_def
  by (rule with_quota_spec [OF cl_spec_passthrough [of "\<lambda>n ec. n = [Passed (program # argv) ec]"]]) (auto simp: ran_locally_def trace_defs)

lemma passthrough_spec:
  "cl_spec (\<lambda>n ec. ran_locally (ca_compiler args # argv) n ec \<and> granted n = 1 \<and> released n = 1 \<and> submissions n = 0) (passthrough_acquiring_quota env args argv)"
  unfolding passthrough_acquiring_quota_def
  by (rule cl_spec_bind [OF AcquireTaskQuota_spec], rule cl_spec_weaken [OF RunNatively_spec]) (auto simp: ran_locally_def)

lemma trace_writes:
  "local_runs (map (\<lambda>(suff, data). Wrote (f suff) data) files) = []" "granted (map (\<lambda>(suff, data). Wrote (f suff) data) files) = 0"
  "released (map (\<lambda>(suff, data). Wrote (f suff) data) files) = 0" "submissions (map (\<lambda>(suff, data). Wrote (f suff) data) files) = 0"
  "outputs (map (\<lambda>(suff, data). Wrote (f suff) data) files) = map (\<lambda>(suff, data). Wrote (f suff) data) files"
  by (simp_all add: trace_defs filter_empty_conv filter_id_conv split_beta)

lemma trace_printed:
  "local_runs (Printed out err # es) = local_runs es" "granted (Printed out err # es) = granted es"
  "released (Printed out err # es) = released es" "submissions (Printed out err # es) = submissions es"
  "outputs (Printed out err # es) = Printed out err # outputs es"
  by (simp_all add: trace_defs)

text \<open>The end of an iteration, after what the cloud has answered.\<close>

lemma finish_spec:
  assumes "cr_exit_code result < 0 \<or> answered env args n result" "quiet n"
  shows "cl_spec (\<lambda>n' ec. compiled env args argv (n @ n') ec \<and> granted (n @ n') = released (n @ n') \<and> submissions n' = 0)
     (finish_compilation env args argv result)"
proof (cases "cr_exit_code result = 0")
  case True
  then have a: "answered env args n result" using assms(1) by simp
  show ?thesis
    unfolding finish_compilation_def if_not_P [OF iffD2 [OF not_not True]]
  proof (rule cl_spec_bind [where Q = "\<lambda>n _. n = [Printed (cstr (cr_output result)) (cstr (cr_error result))]"])
    fix n1 and u :: unit
    assume n1: "n1 = [Printed (cstr (cr_output result)) (cstr (cr_error result))]"
    show "cl_spec (\<lambda>n' ec. compiled env args argv (n @ n1 @ n') ec \<and> granted (n @ n1 @ n') = released (n @ n1 @ n') \<and> submissions (n1 @ n') = 0)
        (cl_bind (cl_option (GetOutputFile args)) (\<lambda>destination. cl_bind (WriteCompilationResults env destination (cr_output_files result)) (\<lambda>_. cl_return 0)))"
    proof (rule cl_spec_bind [OF cl_spec_option [of _ "\<lambda>n d. n = [] \<and> GetOutputFile args = Some d"]], simp)
      fix n2 :: "client_event list" and d
      assume d: "n2 = [] \<and> GetOutputFile args = Some d"
      show "cl_spec (\<lambda>n' ec. compiled env args argv (n @ n1 @ n2 @ n') ec \<and> granted (n @ n1 @ n2 @ n') = released (n @ n1 @ n2 @ n') \<and> submissions (n1 @ n2 @ n') = 0)
          (cl_bind (WriteCompilationResults env d (cr_output_files result)) (\<lambda>_. cl_return 0))"
        by (rule cl_spec_bind [OF WriteCompilationResults_spec])
           (use assms(2) a d n1 True in
             \<open>auto simp: trace_writes compiled_def delivered_def quiet_def answered_append trace_printed intro!: exI [of _ result]\<close>)
    qed
  qed simp
next
  case False
  then show ?thesis
    unfolding finish_compilation_def if_P [OF False]
    by (intro cl_spec_weaken [OF passthrough_spec]) (use assms(2) in \<open>auto simp: compiled_def ran_locally_def quiet_def\<close>)
qed

text \<open>One iteration: the cloud, then a quota at once, then what is given as the rest.\<close>

lemma retry_step:
  assumes "\<And>n result. quiet n \<Longrightarrow> submissions n \<le> 2 \<Longrightarrow> cr_exit_code result < 0 \<or> answered env args n result \<Longrightarrow>
      cl_spec (\<lambda>n' ec. compiled env args argv (n @ n') ec \<and> granted (n @ n') = released (n @ n') \<and> submissions n' \<le> k) (rest result)"
  shows "cl_spec (\<lambda>n ec. compiled env args argv n ec \<and> granted n = released n \<and> submissions n \<le> k + 2)
     (cl_bind (CompileOnCloud env args rewritten) (\<lambda>result.
       if cr_exit_code result < 0 \<or> cr_exit_code result = 127 then
         cl_bind (TryAcquireTaskQuota env False 10000) (\<lambda>quota.
           if quota then RunCompilationNativelyUsingQuota env (ca_compiler args) argv else rest result)
       else finish_compilation env args argv result))"
proof (rule cl_spec_bind [OF CompileOnCloud_spec])
  fix n result
  assume n: "quiet n \<and> submissions n \<le> 2 \<and> (cr_exit_code result < 0 \<or> answered env args n result)"
  let ?R = "\<lambda>n' ec. compiled env args argv (n @ n') ec \<and> granted (n @ n') = released (n @ n') \<and> submissions (n @ n') \<le> k + 2"
  have local: "cl_spec ?R (cl_bind (TryAcquireTaskQuota env False 10000) (\<lambda>quota.
           if quota then RunCompilationNativelyUsingQuota env (ca_compiler args) argv else rest result))"
  proof (rule cl_spec_bind [OF TryAcquireTaskQuota_spec])
    fix n1 quota
    assume n1: "local_runs n1 = [] \<and> outputs n1 = [] \<and> submissions n1 = 0 \<and> released n1 = 0 \<and> granted n1 = (if quota then 1 else 0)"
    show "cl_spec (\<lambda>n' ec. compiled env args argv (n @ n1 @ n') ec \<and> granted (n @ n1 @ n') = released (n @ n1 @ n') \<and> submissions (n @ n1 @ n') \<le> k + 2)
        (if quota then RunCompilationNativelyUsingQuota env (ca_compiler args) argv else rest result)"
    proof (cases quota)
      case True
      then show ?thesis
        using n n1 by (auto intro!: cl_spec_weaken [OF RunNatively_spec] simp: compiled_def ran_locally_def quiet_def)
    next
      case False
      have q: "quiet (n @ n1)" "submissions (n @ n1) \<le> 2" "cr_exit_code result < 0 \<or> answered env args (n @ n1) result"
        using n n1 False by (auto simp: quiet_def answered_append)
      from assms [OF q] False n n1 show ?thesis by (auto elim!: cl_spec_weaken)
    qed
  qed
  have finished: "cl_spec ?R (finish_compilation env args argv result)"
    using finish_spec [of result env args n argv] n by (auto elim!: cl_spec_weaken)
  show "cl_spec ?R (if cr_exit_code result < 0 \<or> cr_exit_code result = 127 then
         cl_bind (TryAcquireTaskQuota env False 10000) (\<lambda>quota.
           if quota then RunCompilationNativelyUsingQuota env (ca_compiler args) argv else rest result)
       else finish_compilation env args argv result)"
    using local finished by simp
qed

lemma compile_with_retries_spec:
  "cl_spec (\<lambda>n ec. compiled env args argv n ec \<and> granted n = released n \<and> submissions n \<le> 2 * k + 2) (compile_with_retries k env args argv rewritten)"
proof (induction k arbitrary: rewritten)
  case 0
  have "cl_spec (\<lambda>n' ec. compiled env args argv (n @ n') ec \<and> granted (n @ n') = released (n @ n') \<and> submissions n' \<le> 0) (finish_compilation env args argv result)"
    if "quiet n" "cr_exit_code result < 0 \<or> answered env args n result" for n result
    using finish_spec [OF that(2,1)] by simp
  from retry_step [where rest = "finish_compilation env args argv" and k = 0, OF this] show ?case by simp
next
  case (Suc k)
  let ?rest = "\<lambda>result. cl_bind (RewriteFile env args) (\<lambda>r. case r of
      Some rewritten \<Rightarrow> compile_with_retries k env args argv rewritten | None \<Rightarrow> finish_compilation env args argv result)"
  have "cl_spec (\<lambda>n' ec. compiled env args argv (n @ n') ec \<and> granted (n @ n') = released (n @ n') \<and> submissions n' \<le> 2 * k + 2) (?rest result)"
    if q: "quiet n" and a: "cr_exit_code result < 0 \<or> answered env args n result" for n result
  proof (rule cl_spec_bind [OF RewriteFile_spec])
    fix n1 and r :: "RewriteResult option"
    assume n1: "quiet n1 \<and> submissions n1 = 0 \<and> (r \<noteq> None \<longrightarrow> granted n1 > 0)"
    have q1: "quiet (n @ n1)" using q n1 by (simp add: quiet_append)
    have a1: "cr_exit_code result < 0 \<or> answered env args (n @ n1) result" using a by (auto simp: answered_append)
    show "cl_spec (\<lambda>n' ec. compiled env args argv (n @ n1 @ n') ec \<and> granted (n @ n1 @ n') = released (n @ n1 @ n') \<and> submissions (n1 @ n') \<le> 2 * k + 2)
        (case r of Some rewritten \<Rightarrow> compile_with_retries k env args argv rewritten | None \<Rightarrow> finish_compilation env args argv result)"
    proof (cases r)
      case None
      from finish_spec [OF a1 q1, of argv] n1 None show ?thesis by (auto elim!: cl_spec_weaken)
    next
      case (Some rewritten)
      from Suc.IH [of rewritten] n1 q1 Some show ?thesis
        using compiled_quiet [OF q1] by (auto elim!: cl_spec_weaken simp: quiet_def)
    qed
  qed
  from retry_step [where rest = ?rest and k = "2 * k + 2", OF this] show ?case by simp
qed

lemma Entry_spec:
  "cl_spec (\<lambda>n ec. (\<exists>args rest. entry_args env argv = Some (args, rest) \<and> compiled env args rest n ec)
     \<and> granted n = released n \<and> 0 < granted n \<and> submissions n \<le> 12) (Entry env argv)"
proof -
  let ?R = "\<lambda>args rest n ec. compiled env args rest n ec \<and> granted n = released n \<and> 0 < granted n \<and> submissions n \<le> 12"
  let ?P = "\<lambda>args rest n ec. compiled env args rest n ec \<and> granted n = released n \<and> submissions n \<le> 12"
  have direct: "cl_spec (?R args rest) (passthrough_acquiring_quota env args rest)" for args rest
    by (rule cl_spec_weaken [OF passthrough_spec]) (simp add: compiled_def)
  have after: "cl_spec (\<lambda>n'. ?R args rest (n @ n')) m" if "quiet n" "submissions n = 0" "cl_spec (?R args rest) m" for n m args rest
    using that compiled_quiet [OF that(1)] by (auto elim!: cl_spec_weaken simp: quiet_def)
  have after': "cl_spec (\<lambda>n'. ?R args rest (n @ n')) m" if "quiet n" "submissions n = 0" "granted n > 0" "cl_spec (?P args rest) m" for n m args rest
    using that compiled_quiet [OF that(1)] by (auto elim!: cl_spec_weaken simp: quiet_def)
  have direct': "cl_spec (?P args rest) (passthrough_acquiring_quota env args rest)" for args rest
    by (rule cl_spec_weaken [OF direct]) simp
  have retries: "cl_spec (?P args rest) (compile_with_retries 5 env args rest rewritten)" for args rest rewritten
    by (rule cl_spec_weaken [OF compile_with_retries_spec [where k = 5]]) simp
  let ?then = "\<lambda>args rest r. case r of
      None \<Rightarrow> passthrough_acquiring_quota env args rest
    | Some rewritten \<Rightarrow>
        cl_bind (cl_option (GetOptionCompileOnCloudSizeThreshold env)) (\<lambda>threshold.
          if length (rw_zstd_rewritten rewritten) < threshold then passthrough_acquiring_quota env args rest
          else compile_with_retries 5 env args rest rewritten)"
  have rewritten: "cl_spec (\<lambda>n'. ?R args rest (n @ n')) (?then args rest r)"
    if "quiet n \<and> submissions n = 0 \<and> (r \<noteq> None \<longrightarrow> granted n > 0)" for n args rest r
  proof (cases r)
    case None
    with after [OF _ _ direct] that show ?thesis by simp
  next
    case (Some rw)
    have "cl_spec (?P args rest) (?then args rest (Some rw))"
      unfolding option.case
      by (rule cl_spec_bind [OF cl_spec_option [of _ "\<lambda>n _. n = []"]]) (auto simp: direct' retries)
    from after' [OF _ _ _ this] that Some show ?thesis by simp
  qed
  have "cl_spec (?R args rest)
      (cl_bind (cl_option (IsCompilerInvocationDistributable args)) (\<lambda>distributable.
         if \<not> distributable then passthrough_acquiring_quota env args rest
         else cl_bind (RewriteFile env args) (?then args rest)))" for args rest
    by (rule cl_spec_bind [OF cl_spec_option [of _ "\<lambda>n _. n = []"]], simp)
       (use direct in \<open>auto intro!: cl_spec_bind [OF RewriteFile_spec rewritten]\<close>)
  then show ?thesis
    unfolding Entry_def
    by (intro cl_spec_bind [OF cl_spec_option [of _ "\<lambda>n x. n = [] \<and> entry_args env argv = Some x"]])
       (auto elim!: cl_spec_weaken)
qed

text \<open>C1. The wrapper is transparent: when it returns, it has either run the local compiler exactly once, on exactly
  the arguments it was given, written nothing itself and returned the compiler's exit code, or it returns 0
  without having run the local compiler, and it has printed the messages and written the files of an answer
  of the daemon that reports success.\<close>

theorem wrapper_transparent:
  assumes "Entry env argv w = Return (ec, w')"
  shows "\<exists>args rest new. entry_args env argv = Some (args, rest) \<and> cw_log w' = cw_log w @ new
     \<and> (ran_locally (ca_compiler args # rest) new ec
        \<or> ec = 0 \<and> (\<exists>result. cr_exit_code result = 0 \<and> answered env args new result \<and> delivered env args new result))"
  using cl_specD [OF Entry_spec assms] unfolding compiled_def by blast

text \<open>C8. However the cloud fails, a compilation is submitted at most six times, each time with at most one repetition after
  reporting the compiler, and every quota the daemon granted is given back exactly once.\<close>

theorem wrapper_resources:
  assumes "Entry env argv w = Return (ec, w')"
  shows "\<exists>new. cw_log w' = cw_log w @ new \<and> submissions new \<le> 12 \<and> granted new = released new"
  using cl_specD [OF Entry_spec assms] by blast

text \<open>Without the daemon there is no compilation: as long as no request is answered with 200 the wrapper does not
  return, also for what it never sends to the cloud.\<close>

theorem wrapper_needs_daemon:
  assumes "\<forall>r\<in>set (cw_answers w). dr_status r \<noteq> 200"
  shows "Entry env argv w \<noteq> Return (ec, w')"
proof
  assume "Entry env argv w = Return (ec, w')"
  from cl_specD [OF Entry_spec this] obtain new where n: "0 < granted new" "cw_answers w = responses new @ cw_answers w'" by blast
  have "\<exists>r\<in>set (responses es). dr_status r = 200" if "0 < granted es" for es
    using that by (induction es rule: responses.induct) (auto simp: granted_def split: if_splits)
  with n assms show False by (metis Un_iff set_append)
qed

section \<open>An instance\<close>

definition demo_client_env :: client_env where
  "demo_client_env =
     \<lparr> ce_getenv = (\<lambda>name. if name = ''PATH'' then Some ''/usr/bin'' else if name = ''YADCC_COMPILE_ON_CLOUD_SIZE_THRESHOLD'' then Some ''0'' else None),
       ce_pid = 7, ce_getcwd = ''/home'', ce_realpath = (\<lambda>p. p), ce_exists = (\<lambda>p. True), ce_self = ''/opt/yadcc-cxx'',
       ce_mtime_and_size = (\<lambda>p. Some (3, 4)), ce_file_digest = (\<lambda>p. Some ''d''), ce_libfakeroot = ''/f.so'',
       ce_compress = (\<lambda>b. CHR ''Z'' # b), ce_decompress = (\<lambda>b. Some b), ce_blake3 = (\<lambda>b. ''b3''),
       ce_parse_json = (\<lambda>t. Some (if t = ''I'' then JObject [(''task_id'', JString ''1'')]
          else JObject [(''exit_code'', JInt 0), (''file_extensions'', JArray [JString ''.o''])])),
       ce_writable = (\<lambda>f d. True), ce_write_submission = (\<lambda>q. ''S'') \<rparr>"

abbreviation demo_answer :: "int \<Rightarrow> bytes \<Rightarrow> DaemonResponse" where "demo_answer status body \<equiv> \<lparr> dr_status = status, dr_body = body \<rparr>"

text \<open>A compilation in the cloud: a quota for preprocessing, the submission, one timeout, the result.\<close>

definition demo_world :: client_world where
  "demo_world =
     \<lparr> cw_answers = [demo_answer 200 [], demo_answer 200 [], demo_answer 200 ''I'', demo_answer 503 [],
         demo_answer 200 (''1,2'' @ [CHR 0x0D, CHR 0x0A] @ ''Jxy'')],
       cw_runs = [([Ready None (Some (Some ''int x;'')) (Some (Some [])), Ready None (Some (Some [])) None], Some 0)],
       cw_local = [], cw_log = [] \<rparr>"

abbreviation demo_argv :: "string list" where "demo_argv \<equiv> [''g++'', ''-c'', ''a.cc'', ''-o'', ''a.o'']"

lemma demo_compilation:
  "case Entry demo_client_env demo_argv demo_world of
     Return (ec, w') \<Rightarrow> ec = 0 \<and> outputs (cw_log w') = [Printed [] [], Wrote ''a.o'' ''xy''] \<and> submissions (cw_log w') = 1
   | _ \<Rightarrow> False"
  by code_simp

lemma demo_returns:
  obtains w' where "Entry demo_client_env demo_argv demo_world = Return (0, w')" "outputs (cw_log w') = [Printed [] [], Wrote ''a.o'' ''xy'']"
    "submissions (cw_log w') = 1"
  using demo_compilation by (auto split: outcome.splits)

theorem wrapper_transparent_witness:
  "\<exists>args rest w' new. Entry demo_client_env demo_argv demo_world = Return (0, w') \<and> entry_args demo_client_env demo_argv = Some (args, rest)
     \<and> cw_log w' = new \<and> (\<exists>result. answered demo_client_env args new result \<and> delivered demo_client_env args new result)"
proof -
  obtain w' where e: "Entry demo_client_env demo_argv demo_world = Return (0, w')" "outputs (cw_log w') = [Printed [] [], Wrote ''a.o'' ''xy'']"
    by (rule demo_returns)
  have "cw_log demo_world = []" by (simp add: demo_world_def)
  with wrapper_transparent [OF e(1)] e show ?thesis by (fastforce simp: ran_locally_def)
qed

theorem wrapper_resources_witness:
  "\<exists>w'. Entry demo_client_env demo_argv demo_world = Return (0, w') \<and> submissions (cw_log w') \<le> 12 \<and> granted (cw_log w') = released (cw_log w')"
proof -
  obtain w' where e: "Entry demo_client_env demo_argv demo_world = Return (0, w')" by (rule demo_returns)
  have "cw_log demo_world = []" by (simp add: demo_world_def)
  with wrapper_resources [OF e] e show ?thesis by auto
qed

theorem wrapper_needs_daemon_witness:
  "Entry demo_client_env demo_argv (demo_world\<lparr>cw_answers := [demo_answer (-1) [], demo_answer (-1) []]\<rparr>) \<noteq> Return (0, demo_world)"
  by (rule wrapper_needs_daemon) simp

end
