(* ===== verification/Http_Service.thy ===== *)
theory Http_Service
  imports Local_Task_Monitor Cxx_Compilation_Task Multi_Chunk Json_Value
begin

text \<open>
  The local daemon's HTTP interface for the compiler wrappers (\<^verbatim>\<open>daemon/local/http_service_impl.cc\<close>, with
  the packing of \<^verbatim>\<open>daemon/local/packing.cc\<close> and \<^verbatim>\<open>packing.h\<close>). JSON text, as JsonCpp and as Protocol Buffers read
  and write it, is a record of functions. A handler that waits takes what the rest of the process
  does meanwhile to the component it waits for as a function. \<open>None\<close> is an abort.
\<close>

section \<open>Data\<close>

record HttpResponse =
  rs_status :: nat
  rs_body :: bytes

abbreviation http_ok :: "bytes \<Rightarrow> HttpResponse" where "http_ok body \<equiv> \<lparr> rs_status = 200, rs_body = body \<rparr>"
abbreviation http_bad_request :: "bytes \<Rightarrow> HttpResponse" where "http_bad_request body \<equiv> \<lparr> rs_status = 400, rs_body = body \<rparr>"
abbreviation http_not_found :: HttpResponse where "http_not_found \<equiv> \<lparr> rs_status = 404, rs_body = [] \<rparr>"
abbreviation http_service_unavailable :: HttpResponse where "http_service_unavailable \<equiv> \<lparr> rs_status = 503, rs_body = [] \<rparr>"

definition http_error_code :: "http_error \<Rightarrow> nat" where
  "http_error_code e = (case e of BadRequest \<Rightarrow> 400 | InternalServerError \<Rightarrow> 500)"

record 'p http_ops =
  ho_flare :: flare
  ho_FlattenSlowUntil :: "bytes \<Rightarrow> string \<Rightarrow> nat \<Rightarrow> bytes"
  ho_ParseJson :: "string \<Rightarrow> json option"
  ho_ParseSetFileDigestRequest :: "string \<Rightarrow> (FileDesc \<times> string) option"
  ho_ParseSubmitCxxTaskRequest :: "string \<Rightarrow> SubmitCxxTaskRequest option"
  ho_ParseWaitForCxxTaskRequest :: "string \<Rightarrow> (nat \<times> nat) option"
  ho_WriteVersion :: "string \<Rightarrow> nat \<Rightarrow> bytes"
  ho_WriteSubmitCxxTaskResponse :: "nat \<Rightarrow> bytes"
  ho_WriteWaitForCxxTaskResponse :: "'p WaitForCxxTaskResponse \<Rightarrow> bytes"

record 'p local_daemon =
  ld_monitor :: LocalTaskMonitor
  ld_digests :: FileDigestCache
  ld_dispatcher :: "'p CxxCompilationTask DistributedTaskDispatcher"
  ld_leaving :: bool

section \<open>Packing\<close>

text \<open>The outer option is an abort; a request that is refused is answered with \<open>BadRequest\<close>.\<close>

definition TryParseMultiChunkRequest ::
  "'p http_ops \<Rightarrow> (string \<Rightarrow> 'm option) \<Rightarrow> bytes \<Rightarrow> ('m \<times> bytes list) option option" where
  "TryParseMultiChunkRequest ops parse b =
     (case daemon_TryParseMultiChunk (ho_flare ops) (ho_FlattenSlowUntil ops) b of
        None \<Rightarrow> None
      | Some None \<Rightarrow> Some None
      | Some (Some []) \<Rightarrow> Some None
      | Some (Some (part # parts)) \<Rightarrow> Some (map_option (\<lambda>m. (m, parts)) (parse part)))"

definition WriteMultiChunkResponse :: "bytes \<Rightarrow> bytes list \<Rightarrow> bytes" where
  "WriteMultiChunkResponse json_text files = daemon_MakeMultiChunk (json_text # files)"

section \<open>Handlers\<close>

definition GetVersion :: "'p http_ops \<Rightarrow> string \<Rightarrow> nat \<Rightarrow> HttpResponse" where
  "GetVersion ops kBuildTime version_for_upgrade = http_ok (ho_WriteVersion ops kBuildTime version_for_upgrade)"

text \<open>The members of the request, if it is one.\<close>

definition quota_request :: "'p http_ops \<Rightarrow> bytes \<Rightarrow> (nat \<times> bool \<times> nat) option" where
  "quota_request ops body =
     (case ho_ParseJson ops body of
        Some (JObject ms) \<Rightarrow>
          (case (json_member (JObject ms) ''milliseconds_to_wait'', json_member (JObject ms) ''lightweight_task'',
                 json_member (JObject ms) ''requestor_pid'') of
             (Some wait, Some (JBool lightweight), Some pid) \<Rightarrow>
               if json_isUInt wait \<and> json_isUInt pid then Some (json_asUnsigned wait, lightweight, json_asUnsigned pid) else None
           | _ \<Rightarrow> None)
      | _ \<Rightarrow> None)"

definition AcquireQuota ::
  "'p http_ops \<Rightarrow> (LocalTaskMonitor \<Rightarrow> LocalTaskMonitor) \<Rightarrow> bytes \<Rightarrow> 'p local_daemon \<Rightarrow> HttpResponse \<times> 'p local_daemon" where
  "AcquireQuota ops meanwhile body s =
     (case quota_request ops body of
        None \<Rightarrow> (http_bad_request ''Invalid arguments.'', s)
      | Some (desired_wait, lightweight_task, requestor_pid) \<Rightarrow>
          (let waiting = WaitForRunningNewTaskPermission_begin lightweight_task (ld_monitor s);
               (success, m) = WaitForRunningNewTaskPermission_end (int requestor_pid) lightweight_task (meanwhile waiting)
           in (if success then http_ok [] else http_service_unavailable, s\<lparr>ld_monitor := m\<rparr>)))"

definition ReleaseQuota :: "'p http_ops \<Rightarrow> bytes \<Rightarrow> 'p local_daemon \<Rightarrow> HttpResponse \<times> 'p local_daemon" where
  "ReleaseQuota ops body s =
     (case ho_ParseJson ops body of
        Some (JObject ms) \<Rightarrow>
          (case json_member (JObject ms) ''requestor_pid'' of
             Some pid \<Rightarrow>
               if json_isUInt pid then
                 (http_ok [], s\<lparr>ld_monitor := fst (DropTaskPermission (int (json_asUnsigned pid)) (ld_monitor s))\<rparr>)
               else (http_bad_request ''Invalid arguments.'', s)
           | None \<Rightarrow> (http_bad_request ''Invalid arguments.'', s))
      | _ \<Rightarrow> (http_bad_request ''Invalid arguments.'', s))"

definition SetFileDigest :: "'p http_ops \<Rightarrow> bytes \<Rightarrow> 'p local_daemon \<Rightarrow> HttpResponse \<times> 'p local_daemon" where
  "SetFileDigest ops body s =
     (case ho_ParseSetFileDigestRequest ops body of
        None \<Rightarrow> (http_bad_request ''Failed to parse request: '', s)
      | Some (desc, digest) \<Rightarrow>
          (http_ok [], s\<lparr>ld_digests := digest_Set (fs_path desc) (fs_size desc) (fs_timestamp desc) digest (ld_digests s)\<rparr>))"

abbreviation cxx_task_type :: string where "cxx_task_type \<equiv> ''CxxCompilationTask''"

definition SubmitCxxTask :: "'p http_ops \<Rightarrow> time_point \<Rightarrow> bytes \<Rightarrow> 'p local_daemon \<Rightarrow> (HttpResponse \<times> 'p local_daemon) option" where
  "SubmitCxxTask ops now body s =
     (case TryParseMultiChunkRequest ops (ho_ParseSubmitCxxTaskRequest ops) body of
        None \<Rightarrow> None
      | Some None \<Rightarrow> Some (http_bad_request ''Failed to parse the request.'', s)
      | Some (Some (request, attachments)) \<Rightarrow>
          (case Prepare (ld_digests s) request attachments of
             None \<Rightarrow> None
           | Some (Inl e) \<Rightarrow> Some (\<lparr> rs_status = http_error_code e, rs_body = [] \<rparr>, s)
           | Some (Inr task) \<Rightarrow>
               (let (task_id, d) = QueueDistributedTask now cxx_task_type task (now + seconds 300) (ld_dispatcher s)
                in Some (http_ok (ho_WriteSubmitCxxTaskResponse ops task_id), s\<lparr>ld_dispatcher := d\<rparr>))))"

text \<open>A task that another request has taken meanwhile is a null pointer.\<close>

definition WaitForTaskGeneric ::
  "'p http_ops \<Rightarrow> ('p CxxCompilationTask DistributedTaskDispatcher \<Rightarrow> 'p CxxCompilationTask DistributedTaskDispatcher)
   \<Rightarrow> bytes \<Rightarrow> 'p local_daemon \<Rightarrow> (HttpResponse \<times> 'p local_daemon) option" where
  "WaitForTaskGeneric ops meanwhile body s =
     (case ho_ParseWaitForCxxTaskRequest ops body of
        None \<Rightarrow> Some (http_bad_request ''Failed to parse request: '', s)
      | Some (task_id, milliseconds_to_wait) \<Rightarrow>
          if milliseconds (int milliseconds_to_wait) > seconds 10
          then Some (http_bad_request ''Unacceptable `milliseconds_to_wait`.'', s)
          else
            (case WaitForDistributedTask_find cxx_task_type task_id (ld_dispatcher s) of
               Inl _ \<Rightarrow> Some (http_not_found, s)
             | Inr found \<Rightarrow>
                 (case WaitForDistributedTask_take found (meanwhile (ld_dispatcher s)) of
                    (Inl WaitTimeout, d) \<Rightarrow> Some (http_service_unavailable, s\<lparr>ld_dispatcher := d\<rparr>)
                  | (Inl WaitNotFound, d) \<Rightarrow> Some (http_not_found, s\<lparr>ld_dispatcher := d\<rparr>)
                  | (Inr None, d) \<Rightarrow> None
                  | (Inr (Some task), d) \<Rightarrow>
                      (case ct_output task of
                         None \<Rightarrow> None
                       | Some (Inr (resp, files)) \<Rightarrow>
                           Some (http_ok (WriteMultiChunkResponse (ho_WriteWaitForCxxTaskResponse ops resp) files), s\<lparr>ld_dispatcher := d\<rparr>)
                       | Some (Inl e) \<Rightarrow> Some (\<lparr> rs_status = http_error_code e, rs_body = [] \<rparr>, s\<lparr>ld_dispatcher := d\<rparr>)))))"

definition AskToLeave :: "'p local_daemon \<Rightarrow> HttpResponse \<times> 'p local_daemon" where
  "AskToLeave s = (http_ok [], s\<lparr>ld_leaving := True\<rparr>)"

section \<open>Dispatching\<close>

definition OnGet :: "'p http_ops \<Rightarrow> string \<Rightarrow> nat \<Rightarrow> string \<Rightarrow> HttpResponse" where
  "OnGet ops kBuildTime version uri = (if uri = ''/local/get_version'' then GetVersion ops kBuildTime version else http_not_found)"

definition OnPost ::
  "'p http_ops \<Rightarrow> (LocalTaskMonitor \<Rightarrow> LocalTaskMonitor)
   \<Rightarrow> ('p CxxCompilationTask DistributedTaskDispatcher \<Rightarrow> 'p CxxCompilationTask DistributedTaskDispatcher)
   \<Rightarrow> time_point \<Rightarrow> string \<Rightarrow> bytes \<Rightarrow> 'p local_daemon \<Rightarrow> (HttpResponse \<times> 'p local_daemon) option" where
  "OnPost ops monitor_meanwhile tasks_meanwhile now uri body s =
     (if uri = ''/local/acquire_quota'' then Some (AcquireQuota ops monitor_meanwhile body s)
      else if uri = ''/local/release_quota'' then Some (ReleaseQuota ops body s)
      else if uri = ''/local/set_file_digest'' then Some (SetFileDigest ops body s)
      else if uri = ''/local/submit_cxx_task'' then SubmitCxxTask ops now body s
      else if uri = ''/local/wait_for_cxx_task'' then WaitForTaskGeneric ops tasks_meanwhile body s
      else if uri = ''/local/ask_to_leave'' then Some (AskToLeave s)
      else Some (http_not_found, s))"

section \<open>Lemmas\<close>

lemma TryParseMultiChunkRequest_make:
  assumes "flare_strings (ho_flare ops)" "flatten_until (ho_FlattenSlowUntil ops)" "length (concat (part # parts)) < 2 ^ 64"
    "length (MakeMultiChunkHeader (part # parts)) \<le> 20480"
  shows "TryParseMultiChunkRequest ops parse (MakeMultiChunkHeader (part # parts) @ concat (part # parts)) =
     Some (map_option (\<lambda>m. (m, parts)) (parse part))"
proof -
  have h: "MakeMultiChunkHeader (part # parts) = chunk_sizes (part # parts) @ CRLF"
    by (simp add: MakeMultiChunkHeader_def chunk_sizes_def)
  then have "length (chunk_sizes (part # parts)) + 2 \<le> 20480" using assms(4) by simp
  then have "daemon_TryParseMultiChunk (ho_flare ops) (ho_FlattenSlowUntil ops) (chunk_sizes (part # parts) @ CRLF @ concat (part # parts))
      = Some (Some (part # parts))"
    by (intro daemon_parse_make assms) simp
  then show ?thesis by (simp add: TryParseMultiChunkRequest_def h)
qed

text \<open>A submission that is well formed but for the digest of its compiler is answered with 400, and with
  200 once the digest has been reported.\<close>

definition submission_ok :: "SubmitCxxTaskRequest \<Rightarrow> bool" where
  "submission_ok request \<longleftrightarrow>
     sq_requestor_process_id request > 1 \<and> sq_source_path request \<noteq> [] \<and> sq_compiler_invocation_arguments request \<noteq> []
     \<and> 0 \<le> sq_cache_control request \<and> sq_cache_control request \<le> 2 \<and> (sq_cache_control request = 0 \<or> sq_source_digest request \<noteq> [])
     \<and> fs_path (sq_compiler request) \<noteq> [] \<and> hd (fs_path (sq_compiler request)) = CHR ''/''"

lemma Prepare_submission:
  assumes "submission_ok request"
  shows "Prepare digests request (source # rest) =
     (case digest_TryGet (fs_path (sq_compiler request)) (fs_size (sq_compiler request)) (fs_timestamp (sq_compiler request)) digests of
        Some (Some h) \<Rightarrow>
          Some (Inr \<lparr>ct_requestor_pid = sq_requestor_process_id request, ct_env_desc = \<lparr>ed_compiler_digest = h\<rparr>,
                  ct_source_path = sq_source_path request, ct_source_digest = sq_source_digest request,
                  ct_invocation_arguments = sq_compiler_invocation_arguments request,
                  ct_cache_control = cache_control_of (sq_cache_control request), ct_preprocessed_source = source, ct_output = None\<rparr>)
      | _ \<Rightarrow> Some (Inl BadRequest))"
  using assms by (auto simp: submission_ok_def Prepare_def digest_TryGet_def split: option.splits)

lemma queued_task:
  "QueueDistributedTask now type task deadline D = (task_id, D') \<Longrightarrow>
     task_id \<in> set (dd_tasks D') \<and> dd_descs D' task_id = Some (new_desc task_id type task deadline now)"
  by (auto simp: QueueDistributedTask_def NextTaskId_def Let_def)

text \<open>What the daemon does with a submission in the two cases.\<close>

lemma SubmitCxxTask_unknown:
  assumes "TryParseMultiChunkRequest ops (ho_ParseSubmitCxxTaskRequest ops) body = Some (Some (request, source # rest))" "submission_ok request"
    "digest_TryGet (fs_path (sq_compiler request)) (fs_size (sq_compiler request)) (fs_timestamp (sq_compiler request)) (ld_digests s) = Some None"
  shows "SubmitCxxTask ops now body s = Some (http_bad_request [], s)"
  using assms by (simp add: SubmitCxxTask_def Prepare_submission http_error_code_def)

lemma SubmitCxxTask_known:
  assumes "TryParseMultiChunkRequest ops (ho_ParseSubmitCxxTaskRequest ops) body = Some (Some (request, source # rest))" "submission_ok request"
    "digest_TryGet (fs_path (sq_compiler request)) (fs_size (sq_compiler request)) (fs_timestamp (sq_compiler request)) (ld_digests s) = Some (Some h)"
  shows "\<exists>task_id d. SubmitCxxTask ops now body s = Some (http_ok (ho_WriteSubmitCxxTaskResponse ops task_id), s\<lparr>ld_dispatcher := d\<rparr>)
     \<and> task_id \<in> set (dd_tasks d) \<and> (\<exists>desc task. dd_descs d task_id = Some desc \<and> dt_task desc = Some task
          \<and> ct_env_desc task = \<lparr>ed_compiler_digest = h\<rparr> \<and> ct_preprocessed_source task = source
          \<and> ct_invocation_arguments task = sq_compiler_invocation_arguments request)"
proof -
  let ?task = "\<lparr>ct_requestor_pid = sq_requestor_process_id request, ct_env_desc = \<lparr>ed_compiler_digest = h\<rparr>,
      ct_source_path = sq_source_path request, ct_source_digest = sq_source_digest request,
      ct_invocation_arguments = sq_compiler_invocation_arguments request,
      ct_cache_control = cache_control_of (sq_cache_control request), ct_preprocessed_source = source, ct_output = None\<rparr>"
  obtain task_id d where q: "QueueDistributedTask now cxx_task_type ?task (now + seconds 300) (ld_dispatcher s) = (task_id, d)"
    by (cases "QueueDistributedTask now cxx_task_type ?task (now + seconds 300) (ld_dispatcher s)")
  have "SubmitCxxTask ops now body s = Some (http_ok (ho_WriteSubmitCxxTaskResponse ops task_id), s\<lparr>ld_dispatcher := d\<rparr>)"
    using assms q by (simp add: SubmitCxxTask_def Prepare_submission)
  with queued_task [OF q] show ?thesis
    by (intro exI [of _ task_id] exI [of _ d] conjI) (simp_all add: new_desc_def)
qed

section \<open>Properties\<close>

text \<open>A result is delivered once: when a request has been answered with the result of a task, the task is gone
  and a second request for it is answered with 404.\<close>

theorem wait_delivers_once:
  assumes "ho_ParseWaitForCxxTaskRequest ops body = Some (task_id, ms)" "WaitForTaskGeneric ops meanwhile body s = Some (r, s')"
    "rs_status r = 200" "distinct (dd_tasks (meanwhile (ld_dispatcher s)))"
  shows "WaitForTaskGeneric ops meanwhile' body s' = Some (http_not_found, s')"
proof -
  have ms: "\<not> milliseconds (int ms) > seconds 10" using assms(1-3) by (auto simp: WaitForTaskGeneric_def split: if_splits)
  have "WaitForDistributedTask_find cxx_task_type task_id (ld_dispatcher s) = Inr task_id"
    using assms(1-3) ms by (auto simp: WaitForTaskGeneric_def WaitForDistributedTask_find_def split: option.splits if_splits)
  then obtain task d where t: "WaitForDistributedTask_take task_id (meanwhile (ld_dispatcher s)) = (Inr (Some task), d)" and s': "s' = s\<lparr>ld_dispatcher := d\<rparr>"
    using assms(1-3) ms by (auto simp: WaitForTaskGeneric_def split: prod.splits sum.splits option.splits dispatcher_WaitStatus.splits)
  then have "task_id \<notin> set (dd_tasks d)"
    using assms(4) by (auto simp: WaitForDistributedTask_take_def split: option.splits if_splits)
  then have "WaitForDistributedTask_find cxx_task_type task_id d = Inl WaitNotFound"
    by (auto simp: WaitForDistributedTask_find_def split: option.splits)
  with assms(1) ms s' show ?thesis by (simp add: WaitForTaskGeneric_def)
qed

text \<open>Quotas over HTTP: an answer of 200 means the process is among those permitted to run a task, 503 that
  the limit was reached; the limit holds after every request, whatever its body, and a release always
  makes the process lose its permission.\<close>

theorem quota_requests:
  assumes "monitor_inv n (meanwhile (WaitForRunningNewTaskPermission_begin lightweight (ld_monitor s)))"
    "quota_request ops body = Some (wait, lightweight, pid)"
  shows "case AcquireQuota ops meanwhile body s of (r, s') \<Rightarrow>
       monitor_inv n (ld_monitor s')
       \<and> (rs_status r = 200 \<longrightarrow> int pid \<in> lm_permissions_granted (ld_monitor s'))
       \<and> (rs_status r \<noteq> 200 \<longrightarrow> rs_status r = 503 \<and>
            card (lm_permissions_granted (ld_monitor s')) \<ge> permission_limit lightweight (ld_monitor s'))"
proof -
  let ?m = "meanwhile (WaitForRunningNewTaskPermission_begin lightweight (ld_monitor s))"
  obtain ok m where e: "WaitForRunningNewTaskPermission_end (int pid) lightweight ?m = (ok, m)"
    by (cases "WaitForRunningNewTaskPermission_end (int pid) lightweight ?m")
  have a: "AcquireQuota ops meanwhile body s = (if ok then http_ok [] else http_service_unavailable, s\<lparr>ld_monitor := m\<rparr>)"
    using assms(2) e by (simp add: AcquireQuota_def Let_def)
  have "monitor_inv n m"
    using monitor_step_inv [OF assms(1), of "MonitorGrant (int pid) lightweight"] e by simp
  moreover have "ok \<Longrightarrow> int pid \<in> lm_permissions_granted m" "\<not> ok \<Longrightarrow> card (lm_permissions_granted m) \<ge> permission_limit lightweight m"
    using e by (auto simp: WaitForRunningNewTaskPermission_end_def Let_def permission_limit_def split: if_splits)
  ultimately show ?thesis by (simp add: a)
qed

end
