(* ===== verification/Client_Daemon.thy ===== *)
theory Client_Daemon
  imports Client_Compilation Http_Service Remote_Task
begin

text \<open>
  The compiler wrapper and the daemon of its machine together: a submission with its handshake about the
  compiler's digest, and the way of a result from the servant through the daemon into the files of the user.
\<close>

section \<open>Calls the daemon answers\<close>

definition client_response :: "HttpResponse \<Rightarrow> DaemonResponse" where
  "client_response r = \<lparr> dr_status = int (rs_status r), dr_body = rs_body r \<rparr>"

text \<open>The calls in a log are those the daemon answered, in this order; what it does while a handler waits, and
  the time of the call, are arbitrary.\<close>

inductive served :: "'p http_ops \<Rightarrow> 'p local_daemon \<Rightarrow> client_event list \<Rightarrow> 'p local_daemon \<Rightarrow> bool" for ops where
  served_nil: "served ops s [] s"
| served_call:
    "OnPost ops monitor_meanwhile tasks_meanwhile now api body s = Some (r, s1) \<Longrightarrow> served ops s1 es s' \<Longrightarrow>
     served ops s (Called api body (client_response r) # es) s'"

section \<open>Submissions\<close>

text \<open>The request reaches the daemon as it was written.\<close>

lemma submission_parsed:
  assumes "flare_strings (ho_flare ops)" "flatten_until (ho_FlattenSlowUntil ops)"
    "ho_ParseSubmitCxxTaskRequest ops (ce_write_submission env q) = Some q"
    "length (ce_write_submission env q) + length source < 2 ^ 64"
  shows "TryParseMultiChunkRequest ops (ho_ParseSubmitCxxTaskRequest ops) (submission_body env q source) = Some (Some (q, [source]))"
proof -
  have "length (to_string n) \<le> 20" if "n < 2 ^ 64" for n :: nat
    by (rule length_to_string [of n 19, simplified]) (use that in simp)
  from this [of "length source"] this [of "length (ce_write_submission env q)"] assms(4)
  have "length (MakeMultiChunkHeader [ce_write_submission env q, source]) \<le> 20480" by (simp add: MakeMultiChunkHeader_def)
  with TryParseMultiChunkRequest_make [OF assms(1,2), where part = "ce_write_submission env q" and parts = "[source]"
      and parse = "ho_ParseSubmitCxxTaskRequest ops"] assms(3,4)
  show ?thesis by (simp add: submission_body_def)
qed

text \<open>What the wrapper does with the answers.\<close>

definition submission_call :: "client_env \<Rightarrow> SubmitCxxTaskRequest \<Rightarrow> bytes \<Rightarrow> HttpResponse \<Rightarrow> client_event" where
  "submission_call env q source r = Called ''/local/submit_cxx_task'' (submission_body env q source) (client_response r)"

lemma submission_call_response [simp]: "responses (submission_call env q source r # es) = client_response r # responses es"
  by (simp add: submission_call_def)

lemma submitted_id_ok:
  "ce_parse_json env reply = Some (JObject [(''task_id'', JString i)]) \<Longrightarrow>
     submitted_id env (client_response (http_ok reply)) w = Return (Some i, w)"
  by (simp add: submitted_id_def client_response_def cl_option_def)

lemma Submit_once:
  assumes "ce_mtime_and_size env (ca_compiler args) = Some (mtime, sz)" "q = submission env args r mtime sz"
    "ce_parse_json env reply = Some (JObject [(''task_id'', JString i)])" "cw_answers w = client_response (http_ok reply) # rest"
  shows "SubmitCompilationTask env args r w =
     Return (Some i, w\<lparr>cw_answers := rest, cw_log := cw_log w @ [submission_call env q (rw_zstd_rewritten r) (http_ok reply)]\<rparr>)"
  using assms submitted_id_ok [OF assms(3)]
  by (simp add: SubmitCompilationTask_def submission_call_def cl_bind_def cl_option_def [of "Some _"] cl_call_def client_response_def Let_def)

lemma Submit_reporting:
  assumes "ce_mtime_and_size env (ca_compiler args) = Some (mtime, sz)" "q = submission env args r mtime sz"
    "ce_file_digest env (ca_compiler args) = Some digest" "ce_parse_json env reply = Some (JObject [(''task_id'', JString i)])"
    "cw_answers w = client_response (http_bad_request []) # client_response (http_ok []) # client_response (http_ok reply) # rest"
  shows "SubmitCompilationTask env args r w =
     Return (Some i, w\<lparr>cw_answers := rest, cw_log := cw_log w @
       [submission_call env q (rw_zstd_rewritten r) (http_bad_request []),
        Called ''/local/set_file_digest'' (digest_report (ca_compiler args) sz mtime digest) (client_response (http_ok [])),
        submission_call env q (rw_zstd_rewritten r) (http_ok reply)]\<rparr>)"
  using assms submitted_id_ok [OF assms(4)]
  by (simp add: SubmitCompilationTask_def submission_call_def cl_bind_def cl_option_def [of "Some _"] cl_call_def client_response_def Let_def)

text \<open>The daemon queues a submission whose compiler it knows.\<close>

definition queued :: "'p local_daemon \<Rightarrow> nat \<Rightarrow> string \<Rightarrow> bytes \<Rightarrow> string \<Rightarrow> bool" where
  "queued s i digest source arguments \<longleftrightarrow>
     i \<in> set (dd_tasks (ld_dispatcher s)) \<and> (\<exists>desc task. dd_descs (ld_dispatcher s) i = Some desc \<and> dt_task desc = Some task
       \<and> ed_compiler_digest (ct_env_desc task) = digest \<and> ct_preprocessed_source task = source \<and> ct_invocation_arguments task = arguments)"

lemma submission_accepted:
  assumes "TryParseMultiChunkRequest ops (ho_ParseSubmitCxxTaskRequest ops) (submission_body env q source) = Some (Some (q, [source]))"
    "submission_ok q"
    "digest_TryGet (fs_path (sq_compiler q)) (fs_size (sq_compiler q)) (fs_timestamp (sq_compiler q)) (ld_digests s) = Some (Some h)"
  shows "\<exists>i s'. served ops s [submission_call env q source (http_ok (ho_WriteSubmitCxxTaskResponse ops i))] s'
     \<and> queued s' i h source (sq_compiler_invocation_arguments q)"
proof -
  from SubmitCxxTask_known [OF assms, of 0] obtain i d where "SubmitCxxTask ops 0 (submission_body env q source) s =
      Some (http_ok (ho_WriteSubmitCxxTaskResponse ops i), s\<lparr>ld_dispatcher := d\<rparr>)"
    and t: "queued (s\<lparr>ld_dispatcher := d\<rparr>) i h source (sq_compiler_invocation_arguments q)"
    by (auto simp: queued_def)
  then have "served ops s [submission_call env q source (http_ok (ho_WriteSubmitCxxTaskResponse ops i))] (s\<lparr>ld_dispatcher := d\<rparr>)"
    unfolding submission_call_def by (intro served_call [where now = 0, OF _ served_nil]) (simp add: OnPost_def)
  with t show ?thesis by blast
qed


section \<open>Results\<close>

text \<open>The JSON the daemon writes for a response: Protocol Buffers print all members under their own names.\<close>

definition location_json :: "PatchLocation \<Rightarrow> json" where
  "location_json l = JObject [(''position'', JInt (int (pl_position l))), (''total_size'', JInt (int (pl_total_size l))),
     (''suffix_to_keep'', JInt (int (pl_suffix_to_keep l)))]"

definition response_json :: "PatchLocation list WaitForCxxTaskResponse \<Rightarrow> json" where
  "response_json resp = JObject [(''exit_code'', JInt (wr_exit_code resp)), (''output'', JString (wr_output resp)), (''error'', JString (wr_error resp)),
     (''file_extensions'', JArray (map JString (wr_file_extensions resp))),
     (''patches'', JArray (map (\<lambda>ls. JObject [(''locations'', JArray (map location_json ls))]) (wr_patches resp)))]"

definition location_ok :: "PatchLocation \<Rightarrow> bool" where
  "location_ok l \<longleftrightarrow> pl_position l < 2 ^ 64 \<and> pl_total_size l < 2 ^ 64 \<and> pl_suffix_to_keep l < 2 ^ 64"

lemma read_location_json: "location_ok l \<Longrightarrow> read_location (location_json l) = Some (Some l)"
  by (simp add: read_location_def location_json_def location_ok_def nat_less_iff [symmetric])

lemma read_files_all:
  assumes "\<forall>i\<in>set ids. i < length exts" "length exts = length files" "map (ce_decompress env) chunks = map Some files"
  shows "read_files env (JArray (map JString exts)) (front # chunks) ids = Some (map (\<lambda>i. (exts ! i, files ! i)) ids)"
  using assms(1)
proof (induction ids)
  case (Cons i ids)
  have len: "length chunks = length files" using arg_cong [OF assms(3), of length] by simp
  have "ce_decompress env (chunks ! i) = Some (files ! i)"
    using arg_cong [OF assms(3), of "\<lambda>xs. xs ! i"] Cons.prems assms(2) len by simp
  with Cons assms(2) len show ?case by simp
qed simp

lemma add_locations_all:
  assumes "\<forall>l\<in>set ls. location_ok l"
  shows "\<exists>m'. add_locations ext (map location_json ls) m = Some (Some m')
     \<and> map_of m' = (if ls = [] then map_of m else (map_of m)(ext \<mapsto> (case map_of m ext of Some xs \<Rightarrow> xs | None \<Rightarrow> []) @ ls))"
  using assms
proof (induction ls arbitrary: m)
  case (Cons l ls)
  let ?m = "umap_set ext ((case map_of m ext of Some xs \<Rightarrow> xs | None \<Rightarrow> []) @ [l]) m"
  from Cons obtain m' where "add_locations ext (map location_json ls) ?m = Some (Some m')"
    "map_of m' = (if ls = [] then map_of ?m else (map_of ?m)(ext \<mapsto> (case map_of ?m ext of Some xs \<Rightarrow> xs | None \<Rightarrow> []) @ ls))"
    by fastforce
  with Cons.prems show ?case by (auto simp: read_location_json umap_simps)
qed simp

text \<open>The locations by extension; files without any are left out.\<close>

abbreviation with_locations :: "(string \<times> PatchLocation list) list \<Rightarrow> (string, PatchLocation list) umap" where
  "with_locations ps \<equiv> filter (\<lambda>(s, l). l \<noteq> []) ps"

lemma read_locations_all:
  assumes "\<forall>i\<in>set ids. i < length exts \<and> (\<forall>l\<in>set (ps ! i). location_ok l)" "length exts = length ps"
    "distinct (map (nth exts) ids)" "\<forall>i\<in>set ids. map_of m (exts ! i) = None"
  shows "\<exists>m'. read_locations (JArray (map JString exts)) (JArray (map (\<lambda>ls. JObject [(''locations'', JArray (map location_json ls))]) ps)) ids m
      = Some (Some m') \<and> map_of m' = map_of m ++ map_of (with_locations (map (\<lambda>i. (exts ! i, ps ! i)) ids))"
  using assms(1,3,4)
proof (induction ids arbitrary: m)
  case (Cons i ids)
  from Cons.prems(1) add_locations_all [of "ps ! i" "exts ! i" m] obtain m1 where
    m1: "add_locations (exts ! i) (map location_json (ps ! i)) m = Some (Some m1)"
      "map_of m1 = (if ps ! i = [] then map_of m else (map_of m)(exts ! i \<mapsto> ps ! i))"
    using Cons.prems(3) by auto
  have fresh: "\<forall>j\<in>set ids. map_of m1 (exts ! j) = None"
    using Cons.prems(2,3) m1(2) by (auto simp: image_iff)
  from Cons.IH [OF _ _ fresh] Cons.prems(1,2) obtain m' where
    m': "read_locations (JArray (map JString exts)) (JArray (map (\<lambda>ls. JObject [(''locations'', JArray (map location_json ls))]) ps)) ids m1 = Some (Some m')"
      "map_of m' = map_of m1 ++ map_of (with_locations (map (\<lambda>i. (exts ! i, ps ! i)) ids))" by auto
  have "map_of (with_locations (map (\<lambda>i. (exts ! i, ps ! i)) ids)) (exts ! i) = None"
    using Cons.prems(2) by (auto simp: map_of_eq_None_iff)
  then have "map_of m1 ++ map_of (with_locations (map (\<lambda>i. (exts ! i, ps ! i)) ids))
      = map_of m ++ map_of (with_locations (map (\<lambda>i. (exts ! i, ps ! i)) (i # ids)))"
    using m1(2) by (auto simp: fun_eq_iff map_add_def split: option.splits)
  with m1(1) m' Cons.prems(1) assms(2) show ?case by simp
qed simp

lemma patch_files_cong: "map_of ps = map_of ps' \<Longrightarrow> patch_files ps d out = patch_files ps' d out"
  by (induction ps d out rule: patch_files.induct) (simp_all split: option.splits)

lemma PatchPathOccurrences_cong:
  assumes "map_of ps = map_of ps'"
  shows "PatchPathOccurrences out ps d = PatchPathOccurrences out ps' d"
proof -
  have "list_all (\<lambda>(s, l). s \<in> K) qs \<longleftrightarrow> dom (map_of qs) \<subseteq> K" for K and qs :: "(string, PatchLocation list) umap"
    by (auto simp: list_all_iff dom_map_of_conv_image_fst)
  with assms have "list_all (\<lambda>(s, l). s \<in> fst ` set out) ps = list_all (\<lambda>(s, l). s \<in> fst ` set out) ps'" by simp
  with patch_files_cong [OF assms] show ?thesis by (simp add: PatchPathOccurrences_def cong: option.case_cong)
qed

lemma map_nth_zip: "length xs = n \<Longrightarrow> length ys = n \<Longrightarrow> map (\<lambda>i. (xs ! i, ys ! i)) [0..<n] = zip xs ys"
  by (rule nth_equalityI) auto

text \<open>What the wrapper makes of a response, when the JSON texts mean the same to both sides.\<close>

definition expected_result ::
  "client_env \<Rightarrow> CompilerArgs \<Rightarrow> PatchLocation list WaitForCxxTaskResponse \<Rightarrow> bytes list \<Rightarrow> CompilationResult option" where
  "expected_result env args resp files =
     (let out = zip (wr_file_extensions resp) files;
          result = (\<lambda>fs. \<lparr> cr_exit_code = wr_exit_code resp, cr_output = wr_output resp, cr_error = wr_error resp, cr_output_files = fs \<rparr>)
      in if TryGet args ''--coverage'' \<noteq> None \<or> TryGet args ''-ftest-coverage'' \<noteq> None then
           (case GetExpectedPath env args of
              None \<Rightarrow> None
            | Some path \<Rightarrow>
                (case PatchPathOccurrences out (with_locations (zip (wr_file_extensions resp) (wr_patches resp))) path of
                   None \<Rightarrow> None
                 | Some None \<Rightarrow> Some (failed_result (-3))
                 | Some (Some patched) \<Rightarrow> Some (result patched)))
         else Some (result out))"

lemma read_response:
  assumes msg: "ce_parse_json env reply = Some (response_json resp)" "reply \<noteq> []"
    and sizes: "\<forall>c\<in>set chunks. c \<noteq> []" "int (length (concat (reply # chunks))) < LONG_MAX"
    and files: "map (ce_decompress env) chunks = map Some files" "length (wr_file_extensions resp) = length files"
      "length (wr_patches resp) = length files" "distinct (wr_file_extensions resp)"
      "\<forall>ls\<in>set (wr_patches resp). \<forall>l\<in>set ls. location_ok l"
    and ec: "- (2 ^ 31) \<le> wr_exit_code resp" "wr_exit_code resp < 2 ^ 31"
  shows "read_result env args (WriteMultiChunkResponse reply chunks) = expected_result env args resp files"
proof -
  let ?exts = "JArray (map JString (wr_file_extensions resp))"
    and ?ps = "JArray (map (\<lambda>ls. JObject [(''locations'', JArray (map location_json ls))]) (wr_patches resp))"
    and ?ids = "[0..<length (wr_file_extensions resp)]"
  have framed: "client_TryParseMultiChunk (WriteMultiChunkResponse reply chunks) = Some (Some (reply # chunks))"
    using client_parse_make [of "reply # chunks"] msg(2) sizes
    by (simp add: WriteMultiChunkResponse_def daemon_MakeMultiChunk_def chunk_sizes_def del: concat.simps)
  have rf: "read_files env ?exts (reply # chunks) ?ids = Some (zip (wr_file_extensions resp) files)"
    using read_files_all [where env = env and exts = "wr_file_extensions resp" and ids = ?ids, OF _ files(2,1)] files(2) by (simp add: map_nth_zip)
  have "map (nth (wr_file_extensions resp)) ?ids = wr_file_extensions resp" by (rule map_nth)
  with files(4) have "distinct (map (nth (wr_file_extensions resp)) [0..<length files])" using files(2) by simp
  moreover have "\<forall>i\<in>{0..<length files}. \<forall>l\<in>set (wr_patches resp ! i). location_ok l" using files(3,5) by auto
  ultimately obtain m where m: "read_locations ?exts ?ps ?ids [] = Some (Some m)"
    "map_of m = map_of (with_locations (zip (wr_file_extensions resp) (wr_patches resp)))"
    using read_locations_all [where exts = "wr_file_extensions resp" and ps = "wr_patches resp" and ids = ?ids and m = "[]"] files(2-5)
    by (auto simp: map_nth_zip)
  have "patch_outputs env args ?exts ?ps ?ids (zip (wr_file_extensions resp) files) =
      (if TryGet args ''--coverage'' \<noteq> None \<or> TryGet args ''-ftest-coverage'' \<noteq> None then
         (case GetExpectedPath env args of
            None \<Rightarrow> None
          | Some path \<Rightarrow>
              (case PatchPathOccurrences (zip (wr_file_extensions resp) files) (with_locations (zip (wr_file_extensions resp) (wr_patches resp))) path of
                 None \<Rightarrow> None | Some None \<Rightarrow> Some (Inl (-3)) | Some (Some fs) \<Rightarrow> Some (Inr fs)))
       else Some (Inr (zip (wr_file_extensions resp) files)))"
    using m(1) by (simp add: patch_outputs_def PatchPathOccurrences_cong [OF m(2)] cong: option.case_cong)
  with framed msg(1) rf ec show ?thesis
    by (simp add: read_result_def response_json_def expected_result_def in_range_def Let_def split: option.splits)
qed

text \<open>The servant's part: the result of a successful compilation with the files the compiler left.\<close>

lemma compress_files_map:
  "\<forall>(k, v)\<in>set files. ro_Compress ro v = Some (compress v) \<Longrightarrow> compress_files ro files = Some (map (\<lambda>(k, v). (k, compress v)) files)"
  by (induction files) auto

lemma servant_completion:
  assumes "locate_patches fl (rx_workspace_dir t) (rx_temporary_dir_extra_depth t @ ''/output'') files [] = Some ps"
    "\<forall>(name, f)\<in>set files. ro_Compress ro f = Some (compress f)"
  shows "\<exists>t' fill. remote_OnCompletion fl B ro 0 out err files t = Some (t', fill) \<and> rx_exit_code t' = 0 \<and> rx_stdout t' = out \<and> rx_stderr t' = err
     \<and> rx_extra_info t' = ro_PackExtraInfo ro ps
     \<and> rx_file_pack t' = ro_WriteKeyedNoncontiguousBuffers ro
         (map (\<lambda>(name, f). (drop (length (rx_temporary_dir_extra_depth t @ ''/output'')) name, compress f)) files)"
proof -
  let ?rel = "rx_temporary_dir_extra_depth t @ ''/output''"
  have "compress_files ro (map (\<lambda>(name, f). (drop (length ?rel) name, f)) files) = Some (map (\<lambda>(name, f). (drop (length ?rel) name, compress f)) files)"
    using compress_files_map [of "map (\<lambda>(name, f). (drop (length ?rel) name, f)) files" ro compress] assms(2)
    by (fastforce simp: split_beta comp_def)
  with assms(1) show ?thesis by (simp add: remote_OnCompletion_def GetOobOutput_def Let_def)
qed

text \<open>The members of the locations fit.\<close>

lemma locations_ok:
  assumes "NUL \<notin> set pre" "pre \<noteq> []" "length f < 2 ^ 32"
  shows "\<exists>ls. FindAllPathLocation f pre = Some ls \<and> (\<forall>l\<in>set ls. location_ok l)"
proof -
  have "location_ok l" if "l \<in> set (strings_locations pre 0 (split_at_char NUL f))" for l
    using strings_locations_bound [OF that] assms(3) by (simp add: join_split location_ok_def)
  with FindAllPathLocation_eq [OF assms] show ?thesis by blast
qed

text \<open>The extensions of the files with what is found in each, as both sides look it up.\<close>

lemma map_of_extensions:
  "\<forall>(name, f)\<in>set files. prefix rel name \<Longrightarrow>
     map_of (map (\<lambda>(name, f). (drop (length rel) name, g f)) files) e = map_option g (map_of files (rel @ e))"
proof (induction files)
  case (Cons a files)
  obtain name f where a: "a = (name, f)" by (cases a)
  obtain s where "name = rel @ s" using Cons.prems a by (auto simp: prefix_def)
  with Cons a show ?case by auto
qed simp

lemma zip_map_map_same: "zip (map f xs) (map g xs) = map (\<lambda>x. (f x, g x)) xs"
  by (induction xs) auto

text \<open>The locations in the response are those the servant found, as the wrapper looks them up.\<close>

lemma response_patches:
  assumes "\<forall>(name, f)\<in>set files. prefix rel name" "distinct (map fst files)"
    "\<And>e. map_of ps e = (case map_of files (rel @ e) of Some f \<Rightarrow> FindAllPathLocation f pre | None \<Rightarrow> None)"
  shows "map (\<lambda>(name, f). case map_of ps (drop (length rel) name) of Some ls \<Rightarrow> ls | None \<Rightarrow> []) files
     = map (\<lambda>(name, f). case FindAllPathLocation f pre of Some ls \<Rightarrow> ls | None \<Rightarrow> []) files"
proof (rule map_cong [OF refl], clarify)
  fix name f
  assume f: "(name, f) \<in> set files"
  then have "rel @ drop (length rel) name = name" using assms(1) by (auto simp: prefix_def)
  with f assms(2,3) show "(case map_of ps (drop (length rel) name) of Some ls \<Rightarrow> ls | None \<Rightarrow> []) = (case FindAllPathLocation f pre of Some ls \<Rightarrow> ls | None \<Rightarrow> [])"
    by simp
qed

lemma distinct_extensions:
  assumes "\<forall>(name, f)\<in>set files. prefix rel name" "distinct (map fst files)"
  shows "distinct (map (\<lambda>(name, f). drop (length rel) name) files)"
proof -
  have "map ((@) rel) (map (\<lambda>(name, f). drop (length rel) name) files) = map fst files"
    using assms(1) by (auto simp: prefix_def)
  from assms(2) have "distinct (map ((@) rel) (map (\<lambda>(name, f). drop (length rel) name) files))" by (simp only: \<open>map ((@) rel) _ = _\<close>)
  then show ?thesis by (simp only: distinct_map)
qed

text \<open>Patching with the locations of the response is patching with those the servant found.\<close>

lemma response_patched:
  fixes rel w :: string
  defines "pre \<equiv> w @ ''/'' @ rel"
  assumes fl: "flare_strings fl" and files: "NUL \<notin> set pre" "\<forall>(name, f)\<in>set files. prefix rel name \<and> length f < 2 ^ 32" "distinct (map fst files)"
    and path: "length path \<le> length pre" and ps: "locate_patches fl w rel files [] = Some ps"
    and lookup: "\<And>e. map_of ps e = (case map_of files (rel @ e) of Some f \<Rightarrow> FindAllPathLocation f pre | None \<Rightarrow> None)"
  shows "PatchPathOccurrences (map (\<lambda>(name, f). (drop (length rel) name, f)) files)
      (with_locations (zip (map (\<lambda>(name, f). drop (length rel) name) files) (map (\<lambda>(name, f). the (FindAllPathLocation f pre)) files))) path
    = Some (Some (map (\<lambda>(s, f). (s, patch_reference pre path f)) (map (\<lambda>(name, f). (drop (length rel) name, f)) files)))"
    (is "PatchPathOccurrences ?fs (with_locations (zip ?exts ?locs)) path = ?result")
proof -
  have names: "\<forall>(name, f)\<in>set files. prefix rel name" using files(2) by auto
  have found: "\<exists>ls. FindAllPathLocation f pre = Some ls" if "(name, f) \<in> set files" for name f
  proof -
    have "pre \<noteq> []" by (simp add: pre_def)
    then show ?thesis using locations_ok [OF files(1), of f] that files(2) by auto
  qed
  have zips: "zip ?exts ?locs = map (\<lambda>(name, f). (drop (length rel) name, the (FindAllPathLocation f pre))) files"
    by (simp add: zip_map_map_same split_beta)
  have "map_of (with_locations (zip ?exts ?locs)) e = map_of (with_locations ps) e" for e
  proof -
    have "map_of (zip ?exts ?locs) e = map_of ps e"
      unfolding zips map_of_extensions [OF names] lookup using found by (force dest: map_of_SomeD split: option.splits)
    moreover have "distinct (map fst (zip ?exts ?locs))" using distinct_extensions [OF names files(3)] by simp
    ultimately show ?thesis
      using locate_patches_distinct [OF ps] by (simp only: map_of_filter_locs distinct.simps list.map)
  qed
  then have "PatchPathOccurrences ?fs (with_locations (zip ?exts ?locs)) path = PatchPathOccurrences ?fs (with_locations ps) path"
    by (intro PatchPathOccurrences_cong ext)
  also have "\<dots> = ?result"
    using coverage_patches [OF fl files(1) [unfolded pre_def] files(2,3) path [unfolded pre_def]] ps unfolding pre_def by (simp add: Let_def)
  finally show ?thesis .
qed

text \<open>C2. A compilation with coverage from end to end: the files the compiler wrote on the servant, found, described,
  compressed and packed by the servant, unpacked by the local daemon and sent to the wrapper, arrive
  there under the same extensions with the same messages, and contain the path the user asked for wherever
  the compiler had written its own. The codings of compression, packing and JSON are undone by the receiver.\<close>

theorem coverage_compilation_end_to_end:
  assumes fl: "flare_strings fl" and rel: "rel = rx_temporary_dir_extra_depth t @ ''/output''" and pre: "pre = rx_workspace_dir t @ ''/'' @ rel"
    and files: "NUL \<notin> set pre" "\<forall>(name, f)\<in>set files. prefix rel name \<and> length f < 2 ^ 32" "distinct (map fst files)"
    and zstd: "\<forall>(name, f)\<in>set files. ro_Compress ro f = Some (compress f) \<and> compress f \<noteq> [] \<and> ce_decompress env (compress f) = Some f"
    and packed: "TryParseFiles denv (ro_WriteKeyedNoncontiguousBuffers ro cs) = Some cs"
      "cs = map (\<lambda>(name, f). (drop (length rel) name, compress f)) files"
      "\<forall>ps. locate_patches fl (rx_workspace_dir t) rel files [] = Some ps \<longrightarrow>
         unpack (ro_PackExtraInfo ro ps) = Some (\<lambda>e. case map_of ps e of Some ls \<Rightarrow> ls | None \<Rightarrow> [])"
    and resp: "resp = \<lparr> wr_exit_code = 0, wr_output = out, wr_error = err, wr_file_extensions = map fst cs,
        wr_patches = map (\<lambda>(name, f). the (FindAllPathLocation f pre)) files \<rparr>"
    and reply: "ce_parse_json env reply = Some (response_json resp)" "reply \<noteq> []" "int (length (concat (reply # map snd cs))) < LONG_MAX"
    and user: "TryGet args ''--coverage'' \<noteq> None" "GetExpectedPath env args = Some path" "length path \<le> length pre"
  shows "\<exists>t' fill o'. remote_OnCompletion fl B ro 0 out err files t = Some (t', fill)
     \<and> WaitServantForTask denv (WaitStatusDone (rx_exit_code t') (rx_stdout t') (rx_stderr t') (rx_extra_info t') (rx_file_pack t')) = Inr o'
     \<and> RebuildOutput unpack [] o' = Inr (resp, map snd cs)
     \<and> read_result env args (WriteMultiChunkResponse reply (map snd cs)) =
         Some \<lparr> cr_exit_code = 0, cr_output = out, cr_error = err,
                cr_output_files = map (\<lambda>(name, f). (drop (length rel) name, patch_reference pre path f)) files \<rparr>"
proof -
  have ne: "pre \<noteq> []" by (simp add: pre)
  have found: "\<exists>ls. FindAllPathLocation f pre = Some ls \<and> (\<forall>l\<in>set ls. location_ok l)" if "(name, f) \<in> set files" for name f
    by (rule locations_ok [OF files(1) ne]) (use that files(2) in auto)
  have names: "\<forall>(name, f)\<in>set files. prefix rel name" using files(2) by auto
  obtain ps where ps: "locate_patches fl (rx_workspace_dir t) rel files [] = Some ps"
    and lookup: "\<And>e. map_of ps e = (case map_of files (rel @ e) of Some f \<Rightarrow> FindAllPathLocation f pre | None \<Rightarrow> None)"
    using locate_patches_spec [OF fl files(1) [unfolded pre] files(2,3), of "[]"] unfolding pre by (auto cong: option.case_cong)
  let ?fs = "map (\<lambda>(name, f). (drop (length rel) name, f)) files"
    and ?exts = "map (\<lambda>(name, f). drop (length rel) name) files" and ?locs = "map (\<lambda>(name, f). the (FindAllPathLocation f pre)) files"
  have locs: "map (\<lambda>(name, f). case map_of ps (drop (length rel) name) of Some ls \<Rightarrow> ls | None \<Rightarrow> []) files = ?locs"
    unfolding response_patches [OF names files(3) lookup] using found by fastforce
  have "\<forall>(name, f)\<in>set files. ro_Compress ro f = Some (compress f)" using zstd by auto
  then obtain t' fill where t': "remote_OnCompletion fl B ro 0 out err files t = Some (t', fill)" "rx_exit_code t' = 0" "rx_stdout t' = out" "rx_stderr t' = err"
    "rx_extra_info t' = ro_PackExtraInfo ro ps" "rx_file_pack t' = ro_WriteKeyedNoncontiguousBuffers ro cs"
    using servant_completion [where compress = compress and t = t and files = files, folded rel, OF ps] unfolding packed(2) by blast
  let ?o = "\<lparr>to_exit_code = 0, to_standard_output = out, to_standard_error = err, to_extra_info = ro_PackExtraInfo ro ps, to_output_files = cs\<rparr>"
  have wait: "WaitServantForTask denv (WaitStatusDone (rx_exit_code t') (rx_stdout t') (rx_stderr t') (rx_extra_info t') (rx_file_pack t')) = Inr ?o"
    using packed(1) by (simp add: WaitServantForTask_def t')
  have rebuilt: "RebuildOutput unpack [] ?o = Inr (resp, map snd cs)"
    using packed(3) ps locs by (simp add: RebuildOutput_def resp packed(2) comp_def split_beta)
  have zips: "zip ?exts ?locs = map (\<lambda>(name, f). (drop (length rel) name, the (FindAllPathLocation f pre))) files" "zip ?exts (map snd files) = ?fs"
    by (simp_all add: zip_map_map_same split_beta)
  have patched: "PatchPathOccurrences ?fs (with_locations (zip ?exts ?locs)) path = Some (Some (map (\<lambda>(s, f). (s, patch_reference pre path f)) ?fs))"
    by (rule response_patched [OF fl files(1) [unfolded pre] files(2,3) user(3) [unfolded pre] ps lookup [unfolded pre], folded pre])
  have exts: "map fst cs = ?exts" by (simp add: packed(2) comp_def case_prod_beta')
  have "read_result env args (WriteMultiChunkResponse reply (map snd cs)) = expected_result env args resp (map snd files)"
  proof (rule read_response [OF reply(1,2) _ reply(3)])
    show "map (ce_decompress env) (map snd cs) = map Some (map snd files)" using zstd by (auto simp: packed(2))
    show "\<forall>c\<in>set (map snd cs). c \<noteq> []" using zstd by (auto simp: packed(2))
    show "distinct (wr_file_extensions resp)" using distinct_extensions [OF names files(3)] by (simp add: resp exts)
    show "\<forall>ls\<in>set (wr_patches resp). \<forall>l\<in>set ls. location_ok l" using found by (fastforce simp: resp)
  qed (simp_all add: resp packed(2))
  also have "\<dots> = Some \<lparr> cr_exit_code = 0, cr_output = out, cr_error = err,
      cr_output_files = map (\<lambda>(name, f). (drop (length rel) name, patch_reference pre path f)) files \<rparr>"
    using user(1,2) by (simp add: expected_result_def resp exts zips(2) patched Let_def) (simp add: case_prod_beta')
  finally show ?thesis using t'(1) wait rebuilt by blast
qed

section \<open>Instances\<close>

definition demo_args :: CompilerArgs where
  "demo_args = \<lparr> ca_compiler = ''/usr/bin/g++'', ca_args = [(''-c'', []), (''--coverage'', []), (''-o'', [''/u/x.o''])],
     ca_filenames = [''a.cc''], ca_rebuilt = [] \<rparr>"

definition demo_rewritten :: RewriteResult where
  "demo_rewritten = \<lparr> rw_language = ''c++'', rw_source_path = ''a.cc'', rw_directives_only = True, rw_cache_control = CacheAllow,
     rw_zstd_rewritten = ''Z'', rw_source_digest = ''b3'' \<rparr>"

definition demo_submission :: SubmitCxxTaskRequest where
  "demo_submission = submission demo_client_env demo_args demo_rewritten 3 4"

definition demo_http_ops :: "PatchLocation list http_ops" where
  "demo_http_ops =
     \<lparr> ho_flare = reference_flare, ho_FlattenSlowUntil = ref_FlattenSlowUntil, ho_ParseJson = (\<lambda>_. None),
       ho_ParseSetFileDigestRequest = (\<lambda>_. Some (sq_compiler demo_submission, ''d'')), ho_ParseSubmitCxxTaskRequest = (\<lambda>_. Some demo_submission),
       ho_ParseWaitForCxxTaskRequest = (\<lambda>_. None), ho_WriteVersion = (\<lambda>_ _. []), ho_WriteSubmitCxxTaskResponse = to_string,
       ho_WriteWaitForCxxTaskResponse = (\<lambda>_. []) \<rparr>"

definition demo_wrapper :: client_env where
  "demo_wrapper = demo_client_env\<lparr>ce_parse_json := (\<lambda>t. Some (JObject [(''task_id'', JString t)]))\<rparr>"

lemma demo_submission_same: "submission demo_wrapper demo_args demo_rewritten 3 4 = demo_submission"
  by (simp add: submission_def demo_submission_def demo_wrapper_def demo_client_env_def)

lemma demo_submission_ok: "submission_ok demo_submission"
proof -
  have "sq_compiler_invocation_arguments demo_submission \<noteq> []" by code_simp
  then show ?thesis
    by (simp add: submission_ok_def demo_submission_def submission_def demo_client_env_def demo_rewritten_def demo_args_def cache_control_value_def)
qed


text \<open>A note file with the path of the servant, its only string.\<close>

abbreviation demo_gcno :: bytes where "demo_gcno \<equiv> ''/w/d/output.gcda'' @ [NUL]"

definition demo_compiled_task :: RemoteCxxTask where
  "demo_compiled_task =
     \<lparr> rx_exit_code = 0, rx_stdout = [], rx_stderr = [], rx_extra_info = [], rx_file_pack = [], rx_workspace_dir = ''/w'', rx_source_path = [],
       rx_command_line = [], rx_source = [], rx_env_desc = \<lparr>ed_compiler_digest = ''d''\<rparr>, rx_invocation_arguments = [], rx_source_digest = [],
       rx_write_cache_future = False, rx_write_cache = False, rx_temporary_dir_extra_depth = ''d'' \<rparr>"

definition demo_response :: "PatchLocation list WaitForCxxTaskResponse" where
  "demo_response = \<lparr> wr_exit_code = 0, wr_output = [], wr_error = ''warning'', wr_file_extensions = [''.gcno''],
     wr_patches = [the (FindAllPathLocation demo_gcno ''/w/d/output'')] \<rparr>"

theorem coverage_compilation_end_to_end_witness:
  "read_result (demo_client_env\<lparr>ce_parse_json := \<lambda>_. Some (response_json demo_response)\<rparr>) demo_args (WriteMultiChunkResponse ''J'' [demo_gcno]) =
     Some \<lparr> cr_exit_code = 0, cr_output = [], cr_error = ''warning'', cr_output_files = [(''.gcno'', patch_reference ''/w/d/output'' ''/u/x'' demo_gcno)] \<rparr>"
proof -
  let ?env = "demo_client_env\<lparr>ce_parse_json := \<lambda>_. Some (response_json demo_response)\<rparr>"
  let ?denv = "\<lparr>dv_debugging_always_use_servant_at = [], dv_TryParseKeyedNoncontiguousBuffers = (\<lambda>b. Some [(''.gcno'', demo_gcno)])\<rparr>"
  let ?unpack = "\<lambda>_ :: bytes. Some (\<lambda>e. case map_of [(''d/output.gcno'', demo_gcno)] (''d/output'' @ e) of
      Some f \<Rightarrow> (case FindAllPathLocation f ''/w/d/output'' of Some ls \<Rightarrow> ls | None \<Rightarrow> []) | None \<Rightarrow> [])"
  have path: "GetExpectedPath ?env demo_args = Some ''/u/x''" by code_simp
  have unpack: "?unpack (ro_PackExtraInfo demo_remote_ops ps) = Some (\<lambda>e. case map_of ps e of Some ls \<Rightarrow> ls | None \<Rightarrow> [])"
    if "locate_patches reference_flare (rx_workspace_dir demo_compiled_task) ''d/output'' [(''d/output.gcno'', demo_gcno)] [] = Some ps" for ps
  proof -
    have "map_of ps e = (case map_of [(''d/output.gcno'', demo_gcno)] (''d/output'' @ e) of Some f \<Rightarrow> FindAllPathLocation f ''/w/d/output'' | None \<Rightarrow> map_of [] e)" for e
      using locate_patches_spec [OF ref_flare.flare_strings_axioms, of "''/w''" "''d/output''" "[(''d/output.gcno'', demo_gcno)]" "[]"] that
      by (simp add: demo_compiled_task_def)
    then show ?thesis by (simp add: fun_eq_iff split: option.splits)
  qed
  have "\<exists>t' fill o'. remote_OnCompletion reference_flare concat demo_remote_ops 0 [] ''warning'' [(''d/output.gcno'', demo_gcno)] demo_compiled_task = Some (t', fill)
      \<and> WaitServantForTask ?denv (WaitStatusDone (rx_exit_code t') (rx_stdout t') (rx_stderr t') (rx_extra_info t') (rx_file_pack t')) = Inr o'
      \<and> RebuildOutput ?unpack [] o' = Inr (demo_response, map snd [(''.gcno'', demo_gcno)])
      \<and> read_result ?env demo_args (WriteMultiChunkResponse ''J'' (map snd [(''.gcno'', demo_gcno)])) =
         Some \<lparr> cr_exit_code = 0, cr_output = [], cr_error = ''warning'',
                cr_output_files = map (\<lambda>(name, f). (drop (length ''d/output'') name, patch_reference ''/w/d/output'' ''/u/x'' f)) [(''d/output.gcno'', demo_gcno)] \<rparr>"
    by (rule coverage_compilation_end_to_end [where compress = "\<lambda>b. b" and path = "''/u/x''" and pre = "''/w/d/output''" and rel = "''d/output''"])
       (use path unpack in \<open>simp_all add: ref_flare.flare_strings_axioms demo_compiled_task_def demo_remote_ops_def TryParseFiles_def demo_response_def demo_client_env_def
          TryGet_def demo_args_def\<close>)
  then have "read_result ?env demo_args (WriteMultiChunkResponse ''J'' (map snd [(''.gcno'', demo_gcno)])) =
      Some \<lparr> cr_exit_code = 0, cr_output = [], cr_error = ''warning'',
             cr_output_files = map (\<lambda>(name, f). (drop (length ''d/output'') name, patch_reference ''/w/d/output'' ''/u/x'' f)) [(''d/output.gcno'', demo_gcno)] \<rparr>"
    by blast
  then show ?thesis by simp
qed

end
