(* ===== verification/Spec2Isabelle.thy ===== *)
theory Spec2Isabelle
  imports Cache_Service_Properties Distributed_Task_Dispatcher_Properties Disk_Cache_Properties Consistent_Hash
    Distributed_Cache Cos_Cache_Engine Scheduler_Console Temporary_Files Process_Setup Compiler_Identity Libfakeroot
    Daemon_Service Client_Daemon
begin

text \<open>
  A verification development of yadcc, a distributed C++ compiler.

  \<^bold>\<open>The program.\<close> A compiler wrapper on a developer's machine (\<^verbatim>\<open>client/\<close>) hands preprocessed sources to
  the daemon of that machine (\<^verbatim>\<open>daemon/local/\<close>). The daemon looks for the result in the cache server
  (\<^verbatim>\<open>cache/\<close>), joins an identical compilation that already runs in the cluster, or asks the scheduler
  (\<^verbatim>\<open>scheduler/\<close>) for a grant and sends the task to the servant the grant names. A servant is the same
  daemon on another machine (\<^verbatim>\<open>daemon/cloud/\<close>): it runs the compiler, keeps the result until it is
  fetched and stores it in the cache. Servants report themselves and their running tasks to the
  scheduler by heartbeats. All paths below are under \<^verbatim>\<open>src/yadcc/\<close>.

  \<^bold>\<open>Conventions.\<close> Objects are records, their fields and operations named as in the source (operations
  whose names clash carry a prefix). A failed \<open>FLARE_CHECK\<close>, an exception that is not caught and
  undefined behaviour are the value \<open>None\<close> of an operation; errors the program handles are values of sum
  or option types. The clock is an argument, in nanoseconds. Blocking operations are split where they wait,
  and what they wait for is an argument of the second half; operations that hold one lock are atomic.
  Unordered maps that are iterated are association lists, objects shared through pointers live in a heap.
  Code outside the repository is a parameter: Flare's strings, hashes and codings (record \<open>flare\<close>, laws in
  the locale \<open>flare_strings\<close>), IEEE arithmetic (\<open>double_ops\<close>), Bloom filters (\<open>bloom_ops\<close>, \<open>bloom_laws\<close>),
  Protocol Buffers (\<open>proto_ops\<close>, \<open>proto_meta\<close>), the file system is a model of its own. Every hypothesis
  about a parameter is shown satisfiable by a concrete instance in the witnesses.

  \<^bold>\<open>Shared theories.\<close> \<open>Yadcc_Prelude\<close>: maps, lists, sequences of calls (\<open>run_calls\<close>) and the locales
  \<open>checked_machine\<close> and \<open>safe_machine\<close> for machines with an invariant; the components interpret them.
  \<open>Flare_Api\<close>, \<open>Double_Arith\<close>: the parameters. \<open>Posix_Fs\<close>: files and directories with what
  \<^verbatim>\<open>common/dir.cc\<close> does on them (\<open>RemoveDirs\<close> runs with fuel, one more than the longest path, which is
  enough since every level of recursion goes one directory down).

  \<^bold>\<open>Scheduler.\<close> \<open>Running_Task_Bookkeeper\<close>, \<open>Task_Dispatcher\<close> model \<^verbatim>\<open>running_task_bookkeeper.cc\<close> and
  \<^verbatim>\<open>task_dispatcher.cc\<close>: servants, grants with leases, zombies, the choice of a servant, the expiration
  timer. \<open>Task_Dispatcher_Proofs\<close>: the invariant (exact counters, no orphans, unique ids), no check fails in
  fewer than \<open>2 ^ 64\<close> operations, capacity and preferences of the choice, the effect of the reports of
  servants and of the timer, zombies stay zombies, leases are kept. \<open>Scheduler_Service\<close> models the RPC
  handlers of \<^verbatim>\<open>scheduler_service_impl.cc\<close>: rollout of the daemons' tokens, who may be given tasks, how many
  grants a request gets, and what happens to a servant that reports an address other than the one it is seen
  at.

  \<^bold>\<open>Servant.\<close> \<open>Execution_Engine\<close> models \<^verbatim>\<open>daemon/cloud/execution_engine.cc\<close>: queueing against memory and
  concurrency limits, reference counts, the waiting thread, timers. Shown: the engine counts its
  children exactly, references decide about removal, every child is reaped; and that process ids that are reused
  are booked on the wrong task. \<open>Compiler_Registry\<close> models \<^verbatim>\<open>compiler_registry.cc\<close> on a model of a machine: after a
  scan the registry is exact about it. \<open>Remote_Task\<close> models \<^verbatim>\<open>remote_task.cc\<close> and the servant's
  \<^verbatim>\<open>cxx_compilation_task.cc\<close>: every outcome of preparing a task, and that both sides name a compilation alike.
  \<open>Sysinfo\<close> models \<^verbatim>\<open>daemon/sysinfo.cc\<close> and \<^verbatim>\<open>daemon/temp_dir.cc\<close>. \<open>Daemon_Service\<close> models the RPC handlers and the
  heartbeat of \<^verbatim>\<open>daemon_service_impl.cc\<close> and composes the servant with the scheduler: no task outlives its
  grant by more than a heartbeat, tokens handed to clients are accepted, the compiler asked for is the one run.

  \<^bold>\<open>Cache server.\<close> \<open>In_Memory_Cache\<close> with its proofs models the adaptive replacement cache of
  \<^verbatim>\<open>cache/in_memory_cache.cc\<close>: termination of the eviction loops, the bound on memory, refinement of a map.
  \<open>Consistent_Hash\<close>, \<open>Disk_Cache\<close>, \<open>Disk_Cache_Sanitize\<close>, \<open>Disk_Cache_Proofs\<close>, \<open>Disk_Cache_Startup\<close> and
  \<open>Disk_Cache_Properties\<close> model \<^verbatim>\<open>common/consistent_hash.h\<close> and \<^verbatim>\<open>common/disk_cache.cc\<close>: start up on an
  arbitrary file system, lookup, store, purge; the entries in memory agree with the files, nothing
  aborts, corrupted files are not served, purging removes the oldest files first. \<open>Cache_Engine\<close>: the
  interface of the second level as a locale, interpreted for the null and the disk engine. \<open>Cos_Cache_Engine\<close> models
  \<^verbatim>\<open>cos_cache_engine.cc\<close> over the requests of an object storage service that may fail: it is a cache all the same, a
  scan ends and marks the oldest entries, by timestamps that are misread. (Listing its keys changes what it will
  remove, so it is not an instance of that locale.)
  \<open>Bloom_Filter_Generator\<close>, \<open>Cache_Service\<close>, \<open>Cache_Service_Properties\<close> model \<^verbatim>\<open>bloom_filter_generator.cc\<close> and
  \<^verbatim>\<open>cache_service_impl.cc\<close>; runs of the service are an inductive relation. Shown: the two levels are coherent, the
  filter has no false negatives although it is rebuilt concurrently, incremental fetches are complete, no
  request aborts the server; and that a body too large for the memory leaves a stale one there.

  \<^bold>\<open>Local daemon.\<close> \<open>Task_Grant_Keeper\<close> models \<^verbatim>\<open>config_keeper.cc\<close>, \<^verbatim>\<open>running_task_keeper.cc\<close> and
  \<^verbatim>\<open>task_grant_keeper.cc\<close>. \<open>Distributed_Task_Dispatcher\<close> with its proofs and properties models
  \<^verbatim>\<open>distributed_task_dispatcher.cc\<close>: the fiber of every task as a program counter, replies as inputs, calls
  as a log, the four timers. Shown over all sequences of events: descriptors are well formed, every
  grant is freed exactly once, a finished task has the output of the cache or the servant or a failure, aborted tasks
  end; and three defects of joined and late tasks. \<open>Cxx_Compilation_Task\<close> models the tasks and the digests of
  compilers, \<open>Local_Task_Monitor\<close> the limit on local processes. \<open>Cache_Format\<close>, \<open>Distributed_Cache\<close> model
  \<^verbatim>\<open>cache_format.cc\<close>, the writer on servants and the reader in daemons: what is read is what was written, from
  end to end through the server.

  \<open>Http_Service\<close> models \<^verbatim>\<open>daemon/local/http_service_impl.cc\<close> and \<^verbatim>\<open>packing.cc\<close>, the handlers the wrappers call, on
  top of the dispatcher, the task monitor and the digest cache; \<open>Json_Value\<close> holds the JSON values both sides read.

  \<^bold>\<open>Compiler wrapper.\<close> \<open>Compiler_Args\<close> models \<^verbatim>\<open>client/cxx/compiler_args.cc\<close>, \<^verbatim>\<open>client/common/rewritten_args.cc\<close> and
  \<^verbatim>\<open>escape.cc\<close>: the parser implements its grammar, and a shell reads a rewritten command line back.
  \<open>Daemon_Call\<close> models the HTTP client of \<^verbatim>\<open>daemon_call.cc\<close> on scripts of what the system calls return: requests
  and answers are never corrupted, and a closed connection can make it spin. \<open>Client_Runtime\<close> models the
  options, quotas, child processes and preprocessing (\<^verbatim>\<open>env_options.cc\<close>, \<^verbatim>\<open>task_quota.cc\<close>, \<^verbatim>\<open>command.cc\<close>,
  \<^verbatim>\<open>rewrite_file.cc\<close>) as programs over a world of scripted answers and a log, with a logic of traces (\<open>cl_spec\<close>);
  a loop that waits for an answer ends when the script does, with the value \<open>Blocked\<close>, so no fuel is needed.
  \<open>Client_Compilation\<close> models \<^verbatim>\<open>compilation_saas.cc\<close>, \<^verbatim>\<open>yadcc-cxx.cc\<close> and \<^verbatim>\<open>universal_wrapper.cc\<close>: the
  wrapper is transparent, bounded in what it submits, and helpless without the daemon.

  \<^bold>\<open>Between the machines.\<close> \<open>Multi_Chunk\<close> models the two implementations of the message framing: they
  agree, and the sum of announced sizes can wrap around. \<open>Path_Patching\<close> models how the servant finds and the
  wrapper replaces paths in object files, against a reference on the strings of a file. \<open>Client_Daemon\<close> composes
  wrapper, daemon and servant: submissions get through, and the files of a compilation with coverage arrive
  with the user's paths.

  \<^bold>\<open>Small helpers.\<close> \<open>Parse_Size\<close> and \<open>Token_Verifier\<close> model \<^verbatim>\<open>common/parse_size.cc\<close> and
  \<^verbatim>\<open>common/token_verifier.cc\<close>.

  \<^bold>\<open>Processes, files and streams.\<close> \<open>File_Io\<close> and \<open>Temporary_Files\<close> model \<^verbatim>\<open>common/io.cc\<close>, \<^verbatim>\<open>client/common/io.cc\<close>, the
  temporary files and directories of both sides and the removal of leftovers in \<^verbatim>\<open>daemon/entry.cc\<close>: what is written is
  read back, a workspace is collected completely and removed, nothing of a crashed daemon stays behind.
  \<open>Process_Setup\<close> models \<^verbatim>\<open>daemon/privilege.cc\<close>, \<^verbatim>\<open>daemon/cloud/execute_command.cc\<close>, \<open>StartProgram\<close> of
  \<^verbatim>\<open>client/common/command.cc\<close>, \<^verbatim>\<open>common/inspect_auth.cc\<close> and the choice of the address in \<^verbatim>\<open>daemon/entry.cc\<close>, on tables of
  descriptors: privileges are dropped for good or the daemon aborts, and a compiler sees its three streams and no other
  descriptor of the daemon. \<open>Output_Stream\<close> models \<^verbatim>\<open>client/common/output_stream.cc\<close> and \<^verbatim>\<open>compress.cc\<close>, with Zstd and BLAKE3
  as parameters and their laws as hypotheses: a stream loses nothing however it is cut. \<open>Libfakeroot\<close> models
  \<^verbatim>\<open>client/cxx/libfakeroot.cc\<close> and \<^verbatim>\<open>client/cxx/libfakeroot/fakeroot.c\<close>: line markers do not depend on where the compiler is installed.
  \<open>Compiler_Identity\<close> models how \<^verbatim>\<open>client/common/utility.cc\<close> stats and digests the compiler, with symbolic links: the digest
  the daemon remembers is that of the compiler as it is now, unless the compiler is found through a link.

  \<^bold>\<open>Console.\<close> \<open>Scheduler_Console\<close> models the dump of the scheduler's dispatcher and what \<^verbatim>\<open>scheduler/console/\<close> makes of it, from
  JSON to nodes to the text of the list and the panel: every servant is shown, and a stale scroll offset can hide them.

  \<^bold>\<open>Not modelled.\<close> Opening sockets and setting their options, flags, logging, what the entry points do beyond the removal
  of leftovers and the choice of the address (they create the objects above and start servers), and the dumps of the
  daemons and the caches for inspection: they have no logic of their own or only pass values to system calls and to
  libraries. Drawing on the terminal is that of a library the console calls. Locks are not modelled beyond the atomicity
  they give, and memory exhaustion is not.
\<close>

end
